(* ===== verification/Prelude.thy ===== *)
theory Prelude
  imports Main "HOL-Library.Word"
begin

section \<open>Prelude: types, errors and generic lemmas shared by every component\<close>

text \<open>
  The machine types of the simulator, the ways a simulated step can leave the normal
  control flow, the sequencing of fallible steps, and the facts on words, lists and
  maps that several components use.  Arithmetic of \<open>int\<close> and \<open>uint32_t\<close> alike is
  arithmetic on \<open>32 word\<close>: addition and subtraction wrap (what the compiled
  simulator does), and signedness is written at each operation that depends on it
  (\<open>sint\<close>, \<open>signed_drop_bit\<close>, \<open>signed_take_bit\<close>).
\<close>

unbundle bit_operations_syntax

subsection \<open>Machine types\<close>

type_synonym u8 = "8 word"
type_synonym u16 = "16 word"
type_synonym u32 = "32 word"

subsection \<open>Leaving the normal control flow\<close>

text \<open>
  \<open>Assert_Failure\<close> is a failed \<open>assert\<close>; \<open>Undefined_Access\<close> is an array index outside
  the array or a negative shift count, for which C++ defines no behaviour.  A step that
  can do either returns a sum, \<open>Inl\<close> for the error.
\<close>

datatype sim_error = Assert_Failure | Undefined_Access

definition andThen :: "'e + 'a \<Rightarrow> ('a \<Rightarrow> 'e + 'b) \<Rightarrow> 'e + 'b" where
  "andThen m f = (case m of Inl e \<Rightarrow> Inl e | Inr a \<Rightarrow> f a)"

lemma andThen_simps [simp]:
  "andThen (Inl e) f = Inl e"
  "andThen (Inr a) f = f a"
  by (simp_all add: andThen_def)

lemma andThen_Inr_iff: "andThen m f = Inr b \<longleftrightarrow> (\<exists>a. m = Inr a \<and> f a = Inr b)"
  by (cases m) simp_all

lemma andThen_InrE:
  assumes "andThen m f = Inr b"
  obtains a where "m = Inr a" and "f a = Inr b"
  using assms by (auto simp: andThen_Inr_iff)

lemma andThen_assoc: "andThen (andThen m f) g = andThen m (\<lambda>a. andThen (f a) g)"
  by (cases m) simp_all

text \<open>Guarded array reads and writes: an index out of range is an error value.\<close>

definition array_get :: "'a list \<Rightarrow> nat \<Rightarrow> sim_error + 'a" where
  "array_get xs i = (if i < length xs then Inr (xs ! i) else Inl Undefined_Access)"

definition array_set :: "'a list \<Rightarrow> nat \<Rightarrow> 'a \<Rightarrow> sim_error + 'a list" where
  "array_set xs i v = (if i < length xs then Inr (xs[i := v]) else Inl Undefined_Access)"

lemma array_get_Inr [simp]: "i < length xs \<Longrightarrow> array_get xs i = Inr (xs ! i)"
  by (simp add: array_get_def)

lemma array_set_Inr [simp]: "i < length xs \<Longrightarrow> array_set xs i v = Inr (xs[i := v])"
  by (simp add: array_set_def)

lemma array_get_Inr_iff: "array_get xs i = Inr v \<longleftrightarrow> i < length xs \<and> v = xs ! i"
  by (auto simp: array_get_def)

lemma array_set_Inr_iff: "array_set xs i v = Inr ys \<longleftrightarrow> i < length xs \<and> ys = xs[i := v]"
  by (auto simp: array_set_def)

text \<open>
  \<open>safely m P\<close>: the step fails no assertion, and if it does not make an undefined access it
  gives a result that satisfies \<open>P\<close>.  Steps compose by \<open>safely_andThen\<close>.
\<close>

definition safely :: "sim_error + 'a \<Rightarrow> ('a \<Rightarrow> bool) \<Rightarrow> bool" where
  "safely m P = (case m of Inl e \<Rightarrow> e = Undefined_Access | Inr a \<Rightarrow> P a)"

lemma safely_simps [simp]:
  "safely (Inr a) P = P a"
  "safely (Inl e) P = (e = Undefined_Access)"
  by (simp_all add: safely_def)

lemma safely_andThen:
  "safely m P \<Longrightarrow> (\<And>a. m = Inr a \<Longrightarrow> P a \<Longrightarrow> safely (f a) Q) \<Longrightarrow> safely (andThen m f) Q"
  by (cases m) simp_all

lemma safely_mono: "safely m P \<Longrightarrow> (\<And>a. P a \<Longrightarrow> Q a) \<Longrightarrow> safely m Q"
  by (cases m) simp_all

lemma safely_Inr: "safely m P \<Longrightarrow> m = Inr a \<Longrightarrow> P a"
  by simp

lemma safely_no_assert: "safely m P \<Longrightarrow> m \<noteq> Inl Assert_Failure"
  by (cases m) auto

lemma safely_array_get: "safely (array_get xs i) (\<lambda>v. i < length xs \<and> v = xs ! i)"
  by (simp add: array_get_def)

lemma safely_array_set: "safely (array_set xs i v) (\<lambda>ys. i < length xs \<and> ys = xs[i := v])"
  by (simp add: array_set_def)

subsection \<open>Words\<close>

text \<open>A C truth value: nonzero is true.\<close>

definition truthy :: "'a::len word \<Rightarrow> bool" where
  "truthy w \<longleftrightarrow> w \<noteq> 0"

definition of_flag :: "bool \<Rightarrow> 'a::len word" where
  "of_flag b = (if b then 1 else 0)"

lemma truthy_of_flag [simp]: "truthy (of_flag b) = b"
  by (simp add: truthy_def of_flag_def)

text \<open>Multiplication by a power of two and shifts in C agree with the word operations.\<close>

definition sra :: "u32 \<Rightarrow> nat \<Rightarrow> u32" where
  "sra w n = signed_drop_bit n w"

text \<open>Shifting a field up and arithmetically down again extends its sign.\<close>

lemma sext_shift: 
  assumes "k < 32"
  shows "signed_drop_bit (31 - k) (push_bit (31 - k) (take_bit (Suc k) (w::u32))) = signed_take_bit k w"
proof (rule bit_word_eqI)
  fix n assume "n < LENGTH(32)"
  with assms show "bit (signed_drop_bit (31 - k) (push_bit (31 - k) (take_bit (Suc k) w))) n = bit (signed_take_bit k w) n"
    by (cases "n \<le> k") (auto simp: bit_simps min_def le_less)
qed

lemma field_extract:
  "drop_bit n ((w::'a::len word) AND push_bit n (mask m)) = take_bit m (drop_bit n w)"
  by (rule bit_word_eqI) (auto simp: bit_simps dest: bit_imp_le_length)

lemma unat_ucast_field:
  "m \<le> 16 \<Longrightarrow> unat (ucast (take_bit m (w::u32)) :: u16) = take_bit m (unat w)"
  by (simp add: unsigned_ucast_eq unsigned_take_bit_eq min_def)

text \<open>Fields and flags packed into a register word and read back.\<close>

lemma field_u8: "n + m \<le> 32 \<Longrightarrow> m \<le> 8 \<Longrightarrow>
    push_bit n (ucast (ucast (drop_bit n ((w::u32) AND push_bit n (mask m))) :: u8)) = w AND push_bit n (mask m)"
  by (rule bit_word_eqI) (auto simp: bit_simps)

lemma field_u16: "m \<le> 16 \<Longrightarrow> ucast (ucast ((w::u32) AND mask m) :: u16) = w AND mask m"
  by (rule bit_word_eqI) (auto simp: bit_simps)

lemma drop_bit_pow: "n < 32 \<Longrightarrow> drop_bit n (2 ^ n) = (1::u32)"
  using bit_word_eqI [of "drop_bit n (push_bit n 1)" "1::u32"] by (force simp: bit_simps)

lemma flag_field: "n < 32 \<Longrightarrow> push_bit n (of_flag (truthy (drop_bit n ((w::u32) AND push_bit n 1)))) = w AND push_bit n 1"
proof (cases "bit w n")
  case True
  assume n: "n < 32"
  have "w AND push_bit n 1 = push_bit n 1"
    by (rule bit_word_eqI) (use True in \<open>auto simp: bit_simps\<close>)
  with n show ?thesis by (simp add: truthy_def of_flag_def drop_bit_pow)
next
  case False
  have "w AND push_bit n 1 = 0"
    by (rule bit_word_eqI) (use False in \<open>auto simp: bit_simps\<close>)
  then show ?thesis by (simp add: truthy_def of_flag_def)
qed

lemma and_or_collect3: "((w::u32) AND a) OR ((w AND b) OR c) = (w AND (a OR b)) OR c"
  by (simp add: bit.conj_disj_distrib or.assoc)

lemma and_or_collect: "((w::u32) AND a) OR (w AND b) = w AND (a OR b)"
  by (simp add: bit.conj_disj_distrib)

lemma bit_below_pow:
  assumes "(x::'a::len word) < 2 ^ k" "bit x n"
  shows "n < k"
proof (rule ccontr)
  assume "\<not> n < k"
  moreover have "take_bit k x = x"
    using assms(1) by (simp add: take_bit_eq_mask less_mask_eq)
  then have "bit (take_bit k x) n" using assms(2) by simp
  ultimately show False by (simp add: bit_simps)
qed

lemma bit_of_flag [simp]: "bit (of_flag b :: 'a::len word) n \<longleftrightarrow> b \<and> n = 0"
  by (simp add: of_flag_def bit_1_iff)

lemma truthy_and_bit: "n < 32 \<Longrightarrow> truthy ((w::u32) AND push_bit n 1) = bit w n"
  by (auto simp: truthy_def and_exp_eq_0_iff_not_bit)

lemma flag_of_word: "n < 32 \<Longrightarrow> truthy (drop_bit n ((w::u32) AND push_bit n 1)) = bit w n"
proof (cases "bit w n")
  case True
  assume n: "n < 32"
  have "w AND push_bit n 1 = push_bit n 1"
    by (rule bit_word_eqI) (use True in \<open>auto simp: bit_simps\<close>)
  with n True show ?thesis by (simp add: truthy_def of_flag_def drop_bit_pow)
next
  case False
  have "w AND push_bit n 1 = 0"
    by (rule bit_word_eqI) (use False in \<open>auto simp: bit_simps\<close>)
  then show ?thesis using False by (simp add: truthy_def of_flag_def)
qed

lemma byte_of_word: "m \<le> 8 \<Longrightarrow> bit (ucast (drop_bit n ((w::u32) AND push_bit n (mask m))) :: u8) k \<longleftrightarrow> k < m \<and> bit w (n + k)"
  by (auto simp: bit_simps dest: bit_imp_le_length)
lemma half_of_word: "m \<le> 16 \<Longrightarrow> bit (ucast ((w::u32) AND (mask m)) :: u16) k \<longleftrightarrow> k < m \<and> bit w k"
  by (auto simp: bit_simps dest: bit_imp_le_length)

lemma sint_of_small_nat: "k < 2 ^ 31 \<Longrightarrow> sint (of_nat k :: u32) = int k"
  by (simp add: signed_of_nat signed_take_bit_int_eq_self)

lemma sint_minus_small:
  assumes "- (2 ^ 31) + int k \<le> sint (d::u32)" "k < 2 ^ 31"
  shows "sint (d - of_nat k) = sint d - int k"
proof -
  have "sint d < 2 ^ 31" using sint_lt [of d] by simp
  with assms show ?thesis
    by (simp add: sint_word_diff sint_of_small_nat signed_take_bit_int_eq_self)
qed

named_theorems hw_defs \<open>definitions of the pipeline's operations\<close>
named_theorems frame \<open>what an operation leaves unchanged\<close>

end
