(* ===== verification/Instruction_Defs.thy ===== *)
theory Instruction_Defs
  imports Prelude
begin

section \<open>Instruction encodings (include/instruction\_defs.h)\<close>

text \<open>
  The enumerations of the decoder.  Those whose values the code only compares and
  stores are datatypes; those whose numeric values meet machine fields (the opcode
  fields, the branch conditions, the special-register selectors, the trap states) are
  numerals of the field's width, named as in the source.
\<close>

type_synonym REGISTER_NUMBER = u16
type_synonym WINDOW_POINTER = u16

datatype ALU =
    ALU_NOP | ALU_ADD | ALU_ADD_DEAD | ALU_SUB | ALU_AND | ALU_OR | ALU_XOR
  | ALU_SLL | ALU_SRL | ALU_SRA | ALU_XNOR | ALU_ANDN | ALU_ORN | ALU_SETHI | ALU_MUL

datatype MEMORY_SIZE =
    MEM_SIGNED_BYTE | MEM_UNSIGNED_BYTE | MEM_SIGNED_HALFWORD | MEM_UNSIGNED_HALFWORD
  | MEM_WORD | MEM_DOUBLEWORD

datatype SRCMUX =
    SRCMUX_RA | SRCMUX_EX | SRCMUX_ME | SRCMUX_IMM | SRCMUX_ZERO | SRCMUX_XC

subsection \<open>Branch conditions\<close>

abbreviation (input) BRCH_BA :: u16 where "BRCH_BA \<equiv> 8"
abbreviation (input) BRCH_BN :: u16 where "BRCH_BN \<equiv> 0"
abbreviation (input) BRCH_BNE :: u16 where "BRCH_BNE \<equiv> 9"
abbreviation (input) BRCH_BE :: u16 where "BRCH_BE \<equiv> 1"
abbreviation (input) BRCH_BG :: u16 where "BRCH_BG \<equiv> 10"
abbreviation (input) BRCH_BLE :: u16 where "BRCH_BLE \<equiv> 2"
abbreviation (input) BRCH_BGE :: u16 where "BRCH_BGE \<equiv> 11"
abbreviation (input) BRCH_BL :: u16 where "BRCH_BL \<equiv> 3"
abbreviation (input) BRCH_BGU :: u16 where "BRCH_BGU \<equiv> 12"
abbreviation (input) BRCH_BLEU :: u16 where "BRCH_BLEU \<equiv> 4"
abbreviation (input) BRCH_BCC :: u16 where "BRCH_BCC \<equiv> 13"
abbreviation (input) BRCH_BCS :: u16 where "BRCH_BCS \<equiv> 5"
abbreviation (input) BRCH_BPOS :: u16 where "BRCH_BPOS \<equiv> 14"
abbreviation (input) BRCH_BNEG :: u16 where "BRCH_BNEG \<equiv> 6"
abbreviation (input) BRCH_BVC :: u16 where "BRCH_BVC \<equiv> 15"
abbreviation (input) BRCH_BVS :: u16 where "BRCH_BVS \<equiv> 7"

subsection \<open>Opcode fields\<close>

abbreviation (input) OP_SETHI_BRANCHES :: u16 where "OP_SETHI_BRANCHES \<equiv> 0"
abbreviation (input) OP_CALL :: u16 where "OP_CALL \<equiv> 1"
abbreviation (input) OP_ARITHMETIC_ETC :: u16 where "OP_ARITHMETIC_ETC \<equiv> 2"
abbreviation (input) OP_MEMORY :: u16 where "OP_MEMORY \<equiv> 3"

abbreviation (input) OP2_BICC :: u16 where "OP2_BICC \<equiv> 2"
abbreviation (input) OP2_SETHI :: u16 where "OP2_SETHI \<equiv> 4"

abbreviation (input) OP3_ADD :: u16 where "OP3_ADD \<equiv> 0x0"
abbreviation (input) OP3_AND :: u16 where "OP3_AND \<equiv> 0x1"
abbreviation (input) OP3_OR :: u16 where "OP3_OR \<equiv> 0x2"
abbreviation (input) OP3_XOR :: u16 where "OP3_XOR \<equiv> 0x3"
abbreviation (input) OP3_SUB :: u16 where "OP3_SUB \<equiv> 0x4"
abbreviation (input) OP3_SUBX :: u16 where "OP3_SUBX \<equiv> 0xC"
abbreviation (input) OP3_SUBXCC :: u16 where "OP3_SUBXCC \<equiv> 0x1C"
abbreviation (input) OP3_ANDN :: u16 where "OP3_ANDN \<equiv> 0x5"
abbreviation (input) OP3_ORN :: u16 where "OP3_ORN \<equiv> 0x6"
abbreviation (input) OP3_XNOR :: u16 where "OP3_XNOR \<equiv> 0x7"
abbreviation (input) OP3_ADDCC :: u16 where "OP3_ADDCC \<equiv> 0x10"
abbreviation (input) OP3_ADDX :: u16 where "OP3_ADDX \<equiv> 0x8"
abbreviation (input) OP3_ADDXCC :: u16 where "OP3_ADDXCC \<equiv> 0x18"
abbreviation (input) OP3_ANDCC :: u16 where "OP3_ANDCC \<equiv> 0x11"
abbreviation (input) OP3_ORCC :: u16 where "OP3_ORCC \<equiv> 0x12"
abbreviation (input) OP3_XORCC :: u16 where "OP3_XORCC \<equiv> 0x13"
abbreviation (input) OP3_SUBCC :: u16 where "OP3_SUBCC \<equiv> 0x14"
abbreviation (input) OP3_ANDNCC :: u16 where "OP3_ANDNCC \<equiv> 0x15"
abbreviation (input) OP3_ORNCC :: u16 where "OP3_ORNCC \<equiv> 0x16"
abbreviation (input) OP3_XNORCC :: u16 where "OP3_XNORCC \<equiv> 0x17"
abbreviation (input) OP3_SLL :: u16 where "OP3_SLL \<equiv> 0x25"
abbreviation (input) OP3_SRL :: u16 where "OP3_SRL \<equiv> 0x26"
abbreviation (input) OP3_SRA :: u16 where "OP3_SRA \<equiv> 0x27"
abbreviation (input) OP3_RDASR :: u16 where "OP3_RDASR \<equiv> 0x28"
abbreviation (input) OP3_RDPSR :: u16 where "OP3_RDPSR \<equiv> 0x29"
abbreviation (input) OP3_RDWIM :: u16 where "OP3_RDWIM \<equiv> 0x2A"
abbreviation (input) OP3_RDTBR :: u16 where "OP3_RDTBR \<equiv> 0x2B"
abbreviation (input) OP3_DEAD :: u16 where "OP3_DEAD \<equiv> 0x2C"
abbreviation (input) OP3_WRY :: u16 where "OP3_WRY \<equiv> 0x30"
abbreviation (input) OP3_WRPSR :: u16 where "OP3_WRPSR \<equiv> 0x31"
abbreviation (input) OP3_WRWIM :: u16 where "OP3_WRWIM \<equiv> 0x32"
abbreviation (input) OP3_WRTBR :: u16 where "OP3_WRTBR \<equiv> 0x33"
abbreviation (input) OP3_JMPL :: u16 where "OP3_JMPL \<equiv> 0x38"
abbreviation (input) OP3_RETT :: u16 where "OP3_RETT \<equiv> 0x39"
abbreviation (input) OP3_SAVE :: u16 where "OP3_SAVE \<equiv> 0x3c"
abbreviation (input) OP3_RESTORE :: u16 where "OP3_RESTORE \<equiv> 0x3d"
abbreviation (input) OP3_MULSCC :: u16 where "OP3_MULSCC \<equiv> 0x24"
abbreviation (input) OP3_SYNC :: u16 where "OP3_SYNC \<equiv> 0x2d"

abbreviation (input) OP3_MEM2SP :: u16 where "OP3_MEM2SP \<equiv> 0x34"

abbreviation (input) OP3_LD :: u16 where "OP3_LD \<equiv> 0x0"
abbreviation (input) OP3_ST :: u16 where "OP3_ST \<equiv> 0x4"
abbreviation (input) OP3_STB :: u16 where "OP3_STB \<equiv> 0x5"
abbreviation (input) OP3_STD :: u16 where "OP3_STD \<equiv> 0x7"
abbreviation (input) OP3_STH :: u16 where "OP3_STH \<equiv> 0x6"
abbreviation (input) OP3_LDSB :: u16 where "OP3_LDSB \<equiv> 0x9"
abbreviation (input) OP3_LDSH :: u16 where "OP3_LDSH \<equiv> 0xa"
abbreviation (input) OP3_LDUB :: u16 where "OP3_LDUB \<equiv> 0x1"
abbreviation (input) OP3_LDUH :: u16 where "OP3_LDUH \<equiv> 0x2"
abbreviation (input) OP3_LDD :: u16 where "OP3_LDD \<equiv> 0x3"

subsection \<open>Special-register selectors and trap states\<close>

abbreviation (input) SREG_Y :: u8 where "SREG_Y \<equiv> 1"
abbreviation (input) SREG_ASR :: u8 where "SREG_ASR \<equiv> 2"
abbreviation (input) SREG_PSR :: u8 where "SREG_PSR \<equiv> 3"
abbreviation (input) SREG_WIM :: u8 where "SREG_WIM \<equiv> 4"
abbreviation (input) SREG_TBR :: u8 where "SREG_TBR \<equiv> 5"
abbreviation (input) SREG_DT :: u8 where "SREG_DT \<equiv> 6"
abbreviation (input) SREG_MEM2SP :: u8 where "SREG_MEM2SP \<equiv> 7"

abbreviation (input) XCPT_NORMAL :: u16 where "XCPT_NORMAL \<equiv> 0"
abbreviation (input) XCPT_TRAPPED :: u16 where "XCPT_TRAPPED \<equiv> 1"
abbreviation (input) XCPT_TRAPPED2 :: u16 where "XCPT_TRAPPED2 \<equiv> 2"

subsection \<open>Configuration (include/defines.h)\<close>

abbreviation (input) MAX_THREAD :: nat where "MAX_THREAD \<equiv> 1000"
abbreviation (input) NUM_THREADS :: nat where "NUM_THREADS \<equiv> 6"
abbreviation (input) MEM_DELAY :: int where "MEM_DELAY \<equiv> 15"
abbreviation (input) SCRATCH_SIZE :: nat where "SCRATCH_SIZE \<equiv> 0x10000"
abbreviation (input) THREAD_MEM_SIZE :: u32 where "THREAD_MEM_SIZE \<equiv> 0x100000"
abbreviation (input) THREAD0_START :: u32 where "THREAD0_START \<equiv> 0x40000000"
abbreviation (input) BURST_DELAY :: int where "BURST_DELAY \<equiv> 4"
abbreviation (input) REGISTER_WINDOWS :: nat where "REGISTER_WINDOWS \<equiv> 32"
abbreviation (input) NUM_DEADLINE_TIMERS :: nat where "NUM_DEADLINE_TIMERS \<equiv> 8"
abbreviation (input) NUM_PLL_TIMERS :: nat where "NUM_PLL_TIMERS \<equiv> 1"

end
