(* ===== verification/Instruction.thy ===== *)
theory Instruction
  imports Instruction_Defs
begin

section \<open>The instruction object (include/instruction.h, src/core/instruction.cpp)\<close>

text \<open>
  The record \<open>instruction\<close> holds the private members of the class, in their order and
  with their widths (\<open>short\<close> and \<open>REGISTER_NUMBER\<close> as 16-bit, \<open>unsigned char\<close> as 8-bit,
  \<open>int\<close> and \<open>uint32_t\<close> as 32-bit words).  The getters and setters of the class are the
  record's selectors and updates.  \<open>decode\<close>, \<open>read_data\<close> and \<open>get_write_data\<close> are the
  operations; the lemmas show what the decoder guarantees the later stages and that the
  byte-lane functions of loads and stores fit together.
\<close>

record instruction =
  i_aluop :: ALU
  i_alu_result :: u32
  i_annul :: bool
  i_branch :: bool
  i_call :: bool
  i_carry :: bool
  i_conditional_branch :: u16
  i_db_word_instruction :: bool
  i_disp30 :: u32
  i_disp22 :: u32
  i_icc :: u8
  i_increment_window_pointer :: u16
  i_imm :: u32
  i_inst :: u32
  i_jump :: bool
  i_memory_size :: MEMORY_SIZE
  i_op1 :: u16
  i_op1_value :: u32
  i_op2 :: u16
  i_op2_value :: u32
  i_op3 :: u16
  i_op3_value :: u32
  i_pc :: u32
  i_read_memory :: bool
  i_rs1 :: REGISTER_NUMBER
  i_rs1sel :: SRCMUX
  i_rs2 :: REGISTER_NUMBER
  i_rs2sel :: SRCMUX
  i_rd :: REGISTER_NUMBER
  i_rdsel :: SRCMUX
  i_select_special_register :: u8
  i_signed_multiply :: bool
  i_unimplemented :: bool
  i_use_imm :: bool
  i_write_icc :: bool
  i_write_registers :: bool
  i_write_special_registers :: bool
  i_write_memory :: bool
  i_is_rett :: bool
  i_sync_instruction :: bool

subsection \<open>Construction\<close>

text \<open>\<open>initialize\<close> assigns every member but \<open>_inst\<close>, which its callers then set.\<close>

definition initialize_with :: "u32 \<Rightarrow> instruction" where
  "initialize_with bits =
     \<lparr>i_aluop = ALU_NOP, i_alu_result = 0, i_annul = False, i_branch = False,
      i_call = False, i_carry = False, i_conditional_branch = 0,
      i_db_word_instruction = False, i_disp30 = 0, i_disp22 = 0, i_icc = 0,
      i_increment_window_pointer = 0, i_imm = 0, i_inst = bits, i_jump = False,
      i_memory_size = MEM_WORD, i_op1 = OP_SETHI_BRANCHES, i_op1_value = 0,
      i_op2 = OP2_SETHI, i_op2_value = 0, i_op3 = OP3_ADD, i_op3_value = 0, i_pc = 0,
      i_read_memory = False, i_rs1 = 0, i_rs1sel = SRCMUX_RA, i_rs2 = 0,
      i_rs2sel = SRCMUX_RA, i_rd = 0, i_rdsel = SRCMUX_RA,
      i_select_special_register = 0, i_signed_multiply = False,
      i_unimplemented = False, i_use_imm = False, i_write_icc = False,
      i_write_registers = False, i_write_special_registers = False,
      i_write_memory = False, i_is_rett = False, i_sync_instruction = False\<rparr>"

definition nop_instruction :: instruction where
  "nop_instruction = initialize_with 0x01000000"

definition set_inst :: "u32 \<Rightarrow> instruction \<Rightarrow> instruction" where
  "set_inst inbits i = initialize_with inbits"

definition check_end_sim :: "instruction \<Rightarrow> bool" where
  "check_end_sim i \<longleftrightarrow> i_inst i = 0x22222222"

subsection \<open>Decoding\<close>

text \<open>The three switches of the decoder, one \<open>if\<close> per case label, in source order.\<close>

definition alu_reg :: "ALU \<Rightarrow> instruction \<Rightarrow> instruction" where
  "alu_reg op i = i\<lparr>i_aluop := op, i_write_registers := True\<rparr>"

definition alu_reg_cc :: "ALU \<Rightarrow> instruction \<Rightarrow> instruction" where
  "alu_reg_cc op i = i\<lparr>i_aluop := op, i_write_registers := True, i_write_icc := True\<rparr>"

definition read_special :: "u8 \<Rightarrow> instruction \<Rightarrow> instruction" where
  "read_special s i = i\<lparr>i_select_special_register := s, i_write_registers := True\<rparr>"

definition write_special :: "u8 \<Rightarrow> instruction \<Rightarrow> instruction" where
  "write_special s i =
     i\<lparr>i_select_special_register := s, i_aluop := ALU_XOR, i_write_special_registers := True\<rparr>"

definition decode_arithmetic :: "u16 \<Rightarrow> instruction \<Rightarrow> instruction" where
  "decode_arithmetic op3 i =
    (if op3 = OP3_MULSCC then (alu_reg_cc ALU_MUL i)\<lparr>i_signed_multiply := True\<rparr>
     else if op3 = OP3_ADD then alu_reg ALU_ADD i
     else if op3 = OP3_ADDX then (alu_reg ALU_ADD i)\<lparr>i_carry := True\<rparr>
     else if op3 = OP3_ADDXCC then (alu_reg_cc ALU_ADD i)\<lparr>i_carry := True\<rparr>
     else if op3 = OP3_AND then alu_reg ALU_AND i
     else if op3 = OP3_OR then alu_reg ALU_OR i
     else if op3 = OP3_XOR then alu_reg ALU_XOR i
     else if op3 = OP3_SUB then alu_reg ALU_SUB i
     else if op3 = OP3_SUBX then (alu_reg ALU_SUB i)\<lparr>i_carry := True\<rparr>
     else if op3 = OP3_SUBXCC then (alu_reg_cc ALU_SUB i)\<lparr>i_carry := True\<rparr>
     else if op3 = OP3_ANDN then alu_reg ALU_ANDN i
     else if op3 = OP3_ORN then alu_reg ALU_ORN i
     else if op3 = OP3_XNOR then alu_reg ALU_XNOR i
     else if op3 = OP3_ADDCC then alu_reg_cc ALU_ADD i
     else if op3 = OP3_ANDCC then alu_reg_cc ALU_AND i
     else if op3 = OP3_ORCC then alu_reg_cc ALU_OR i
     else if op3 = OP3_XORCC then alu_reg_cc ALU_XOR i
     else if op3 = OP3_SUBCC then alu_reg_cc ALU_SUB i
     else if op3 = OP3_ANDNCC then alu_reg_cc ALU_ANDN i
     else if op3 = OP3_ORNCC then alu_reg_cc ALU_ORN i
     else if op3 = OP3_XNORCC then alu_reg_cc ALU_XNOR i
     else if op3 = OP3_JMPL then (alu_reg ALU_ADD i)\<lparr>i_jump := True\<rparr>
     else if op3 = OP3_RETT then
       i\<lparr>i_is_rett := True, i_jump := True, i_aluop := ALU_ADD, i_increment_window_pointer := 1\<rparr>
     else if op3 = OP3_SAVE then (alu_reg ALU_ADD i)\<lparr>i_increment_window_pointer := - 1\<rparr>
     else if op3 = OP3_RESTORE then (alu_reg ALU_ADD i)\<lparr>i_increment_window_pointer := 1\<rparr>
     else if op3 = OP3_SLL then alu_reg ALU_SLL i
     else if op3 = OP3_SRL then alu_reg ALU_SRL i
     else if op3 = OP3_SRA then alu_reg ALU_SRA i
     else if op3 = OP3_RDPSR then read_special SREG_PSR i
     else if op3 = OP3_RDASR then read_special (if truthy (i_rs1 i) then SREG_ASR else SREG_Y) i
     else if op3 = OP3_RDWIM then read_special SREG_WIM i
     else if op3 = OP3_RDTBR then read_special SREG_TBR i
     else if op3 = OP3_DEAD then i
     else if op3 = OP3_WRY then write_special (if i_rd i \<noteq> 0 then SREG_ASR else SREG_Y) i
     else if op3 = OP3_WRPSR then write_special SREG_PSR i
     else if op3 = OP3_WRWIM then write_special SREG_WIM i
     else if op3 = OP3_WRTBR then write_special SREG_TBR i
     else if op3 = OP3_SYNC then i\<lparr>i_sync_instruction := True\<rparr>
     else i\<lparr>i_unimplemented := True\<rparr>)"

definition store_op :: "instruction \<Rightarrow> instruction" where
  "store_op i = i\<lparr>i_aluop := ALU_ADD, i_write_memory := True\<rparr>"

definition load_op :: "instruction \<Rightarrow> instruction" where
  "load_op i = i\<lparr>i_aluop := ALU_ADD, i_write_registers := True, i_read_memory := True\<rparr>"

definition decode_memory :: "u16 \<Rightarrow> instruction \<Rightarrow> instruction" where
  "decode_memory op3 i =
    (if op3 = OP3_ST then store_op i
     else if op3 = OP3_STB then (store_op i)\<lparr>i_memory_size := MEM_UNSIGNED_BYTE\<rparr>
     else if op3 = OP3_STD then (store_op i)\<lparr>i_db_word_instruction := True\<rparr>
     else if op3 = OP3_STH then (store_op i)\<lparr>i_memory_size := MEM_UNSIGNED_HALFWORD\<rparr>
     else if op3 = OP3_LD then load_op i
     else if op3 = OP3_LDUB then (load_op i)\<lparr>i_memory_size := MEM_UNSIGNED_BYTE\<rparr>
     else if op3 = OP3_LDUH then (load_op i)\<lparr>i_memory_size := MEM_UNSIGNED_HALFWORD\<rparr>
     else if op3 = OP3_LDSB then (load_op i)\<lparr>i_memory_size := MEM_SIGNED_BYTE\<rparr>
     else if op3 = OP3_LDSH then (load_op i)\<lparr>i_memory_size := MEM_SIGNED_HALFWORD\<rparr>
     else if op3 = OP3_LDD then
       (load_op i)\<lparr>i_memory_size := MEM_DOUBLEWORD, i_db_word_instruction := True\<rparr>
     else if op3 = OP3_DEAD then
       i\<lparr>i_aluop := ALU_ADD_DEAD, i_select_special_register := SREG_DT\<rparr>
     else if op3 = OP3_MEM2SP then
       i\<lparr>i_write_special_registers := True, i_aluop := ALU_ADD,
         i_select_special_register := SREG_MEM2SP\<rparr>
     else i\<lparr>i_unimplemented := True\<rparr>)"

definition decode_sethi_branches :: "u16 \<Rightarrow> instruction \<Rightarrow> instruction" where
  "decode_sethi_branches op2 i =
    (if op2 = OP2_SETHI then alu_reg ALU_SETHI i
     else if op2 = OP2_BICC then i\<lparr>i_branch := True\<rparr>
     else i\<lparr>i_unimplemented := True\<rparr>)"

text \<open>The bit fields, extracted before the switch on the first opcode.\<close>

definition decode_fields :: "instruction \<Rightarrow> instruction" where
  "decode_fields i = (let w = i_inst i in
     i\<lparr>i_op1 := ucast (drop_bit 30 w),
       i_op2 := ucast (drop_bit 22 (w AND 0x01C00000)),
       i_op3 := ucast (drop_bit 19 (w AND 0x01F80000)),
       i_rd := ucast (drop_bit 25 (w AND 0x3E000000)),
       i_rs1 := ucast (drop_bit 14 (w AND 0x0007C000)),
       i_use_imm := truthy (drop_bit 12 (w AND 0x00002000)),
       i_imm := signed_drop_bit 19 (push_bit 19 (w AND 0x00001FFF)),
       i_rs2 := ucast (w AND 0x0000001F),
       i_conditional_branch := ucast (drop_bit 25 (w AND 0x1E000000)),
       i_annul := truthy (drop_bit 29 (w AND 0x20000000)),
       i_disp30 := signed_drop_bit 2 (push_bit 2 (w AND 0x3FFFFFFF)),
       i_disp22 := signed_drop_bit 10 (push_bit 10 (w AND 0x003FFFFF))\<rparr>)"

definition decode_switch :: "instruction \<Rightarrow> instruction" where
  "decode_switch i =
    (if i_op1 i = OP_CALL then
       i\<lparr>i_call := True, i_aluop := ALU_ADD, i_write_registers := True, i_rd := 15\<rparr>
     else if i_op1 i = OP_SETHI_BRANCHES then decode_sethi_branches (i_op2 i) i
     else if i_op1 i = OP_MEMORY then decode_memory (i_op3 i) i
     else if i_op1 i = OP_ARITHMETIC_ETC then decode_arithmetic (i_op3 i) i
     else i\<lparr>i_unimplemented := True\<rparr>)"

definition decode :: "instruction \<Rightarrow> instruction" where
  "decode i = (let j = decode_switch (decode_fields i)
     in if i_rd j = 0 then j\<lparr>i_write_registers := False\<rparr> else j)"

subsection \<open>Byte lanes\<close>

definition read_data :: "u32 \<Rightarrow> nat \<Rightarrow> instruction \<Rightarrow> instruction" where
  "read_data data_in offset i =
    (let shamt = offset * 8 in
     i\<lparr>i_alu_result :=
       (case i_memory_size i of
          MEM_SIGNED_BYTE \<Rightarrow> signed_drop_bit 24 (push_bit shamt data_in)
        | MEM_UNSIGNED_BYTE \<Rightarrow> drop_bit 24 (push_bit shamt data_in)
        | MEM_SIGNED_HALFWORD \<Rightarrow> signed_drop_bit 16 (push_bit shamt data_in)
        | MEM_UNSIGNED_HALFWORD \<Rightarrow> drop_bit 16 (push_bit shamt data_in)
        | _ \<Rightarrow> data_in)\<rparr>)"

text \<open>
  The shift amount of a halfword store is \<open>(2 - offset) * 8\<close>, negative at offset 3: C++
  leaves that shift undefined, and the model reports it.
\<close>

definition store_shamt :: "MEMORY_SIZE \<Rightarrow> nat \<Rightarrow> int" where
  "store_shamt ms offset =
    (case ms of
       MEM_SIGNED_BYTE \<Rightarrow> (3 - int offset) * 8
     | MEM_UNSIGNED_BYTE \<Rightarrow> (3 - int offset) * 8
     | MEM_SIGNED_HALFWORD \<Rightarrow> (2 - int offset) * 8
     | MEM_UNSIGNED_HALFWORD \<Rightarrow> (2 - int offset) * 8
     | _ \<Rightarrow> 0)"

definition store_lane :: "MEMORY_SIZE \<Rightarrow> u32" where
  "store_lane ms =
    (case ms of
       MEM_SIGNED_BYTE \<Rightarrow> 0xFF | MEM_UNSIGNED_BYTE \<Rightarrow> 0xFF
     | MEM_SIGNED_HALFWORD \<Rightarrow> 0xFFFF | MEM_UNSIGNED_HALFWORD \<Rightarrow> 0xFFFF
     | _ \<Rightarrow> 0xFFFFFFFF)"

definition get_write_data :: "u32 \<Rightarrow> nat \<Rightarrow> instruction \<Rightarrow> sim_error + u32" where
  "get_write_data old_data offset i =
    (let shamt = store_shamt (i_memory_size i) offset;
         mask = push_bit (nat shamt) (store_lane (i_memory_size i))
     in if shamt < 0 then Inl Undefined_Access
        else Inr ((push_bit (nat shamt) (i_op3_value i) AND mask) OR (old_data AND NOT mask)))"

subsection \<open>What the decoder promises\<close>

text \<open>
  A decoded instruction has one kind of effect: the later stages rely on it reading or
  writing memory but not both, on memory operations never branching or touching special
  registers, and on an unimplemented instruction doing nothing.
\<close>

definition clean_flags :: "instruction \<Rightarrow> bool" where
  "clean_flags i \<longleftrightarrow> \<not> i_branch i \<and> \<not> i_call i \<and> \<not> i_carry i \<and> \<not> i_db_word_instruction i \<and> \<not> i_jump i \<and>
     \<not> i_read_memory i \<and> \<not> i_unimplemented i \<and> \<not> i_write_icc i \<and> \<not> i_write_registers i \<and>
     \<not> i_write_special_registers i \<and> \<not> i_write_memory i \<and> \<not> i_is_rett i \<and> \<not> i_sync_instruction i \<and>
     i_select_special_register i = 0 \<and> i_increment_window_pointer i = 0"

definition memory_op :: "instruction \<Rightarrow> bool" where
  "memory_op i \<longleftrightarrow> i_read_memory i \<or> i_write_memory i"

definition control_op :: "instruction \<Rightarrow> bool" where
  "control_op i \<longleftrightarrow> i_branch i \<or> i_call i \<or> i_jump i"

definition effects_consistent :: "instruction \<Rightarrow> bool" where
  "effects_consistent i \<longleftrightarrow>
     \<not> (i_read_memory i \<and> i_write_memory i) \<and>
     \<not> (i_write_memory i \<and> i_write_registers i) \<and>
     (memory_op i \<longrightarrow> i_aluop i = ALU_ADD \<and> \<not> control_op i \<and> \<not> i_write_special_registers i \<and> \<not> i_write_icc i) \<and>
     (i_db_word_instruction i \<longrightarrow> memory_op i) \<and>
     (i_carry i \<longrightarrow> i_aluop i = ALU_ADD \<or> i_aluop i = ALU_SUB) \<and>
     \<not> (i_branch i \<and> i_call i) \<and> \<not> (i_branch i \<and> i_jump i) \<and> \<not> (i_call i \<and> i_jump i) \<and>
     \<not> (i_write_special_registers i \<and> i_write_registers i) \<and>
     (i_is_rett i \<longrightarrow> i_jump i \<and> \<not> i_write_registers i) \<and>
     (i_unimplemented i \<or> i_sync_instruction i \<longrightarrow>
        \<not> i_write_registers i \<and> \<not> memory_op i \<and> \<not> control_op i \<and> \<not> i_write_special_registers i \<and> \<not> i_is_rett i \<and>
        \<not> i_write_icc i \<and> \<not> i_db_word_instruction i \<and> \<not> i_carry i \<and>
        i_select_special_register i = 0 \<and> i_increment_window_pointer i = 0)"

lemmas decode_op_defs = alu_reg_def alu_reg_cc_def read_special_def write_special_def store_op_def load_op_def


lemma effects_if:
  "effects_consistent a \<Longrightarrow> effects_consistent b \<Longrightarrow> effects_consistent (if c then a else b)"
  by simp

lemma arithmetic_leaves:
  assumes "clean_flags i"
  shows "effects_consistent i"
    "effects_consistent (alu_reg op i)"
    "effects_consistent (alu_reg_cc op i)"
    "effects_consistent ((alu_reg_cc ALU_MUL i)\<lparr>i_signed_multiply := True\<rparr>)"
    "effects_consistent ((alu_reg ALU_ADD i)\<lparr>i_carry := True\<rparr>)"
    "effects_consistent ((alu_reg ALU_SUB i)\<lparr>i_carry := True\<rparr>)"
    "effects_consistent ((alu_reg_cc ALU_ADD i)\<lparr>i_carry := True\<rparr>)"
    "effects_consistent ((alu_reg_cc ALU_SUB i)\<lparr>i_carry := True\<rparr>)"
    "effects_consistent ((alu_reg ALU_ADD i)\<lparr>i_jump := True\<rparr>)"
    "effects_consistent ((alu_reg ALU_ADD i)\<lparr>i_increment_window_pointer := k\<rparr>)"
    "effects_consistent (i\<lparr>i_is_rett := True, i_jump := True, i_aluop := ALU_ADD, i_increment_window_pointer := k\<rparr>)"
    "effects_consistent (read_special s i)"
    "effects_consistent (write_special s i)"
    "effects_consistent (i\<lparr>i_sync_instruction := True\<rparr>)"
    "effects_consistent (i\<lparr>i_unimplemented := True\<rparr>)"
  using assms
  by (simp_all add: clean_flags_def effects_consistent_def memory_op_def control_op_def decode_op_defs)

lemma decode_arithmetic_effects: "clean_flags i \<Longrightarrow> effects_consistent (decode_arithmetic op3 i)"
  unfolding decode_arithmetic_def
  by (intro effects_if) (simp_all add: arithmetic_leaves)

lemma memory_leaves:
  assumes "clean_flags i"
  shows "effects_consistent (store_op i)"
    "effects_consistent ((store_op i)\<lparr>i_memory_size := ms\<rparr>)"
    "effects_consistent ((store_op i)\<lparr>i_db_word_instruction := True\<rparr>)"
    "effects_consistent (load_op i)"
    "effects_consistent ((load_op i)\<lparr>i_memory_size := ms\<rparr>)"
    "effects_consistent ((load_op i)\<lparr>i_memory_size := ms, i_db_word_instruction := True\<rparr>)"
    "effects_consistent (i\<lparr>i_aluop := op, i_select_special_register := s\<rparr>)"
    "effects_consistent (i\<lparr>i_write_special_registers := True, i_aluop := op, i_select_special_register := s\<rparr>)"
  using assms
  by (simp_all add: clean_flags_def effects_consistent_def memory_op_def control_op_def decode_op_defs)

lemma decode_memory_effects: "clean_flags i \<Longrightarrow> effects_consistent (decode_memory op3 i)"
  unfolding decode_memory_def
  by (intro effects_if) (simp_all add: arithmetic_leaves memory_leaves)

lemma branch_leaves:
  assumes "clean_flags i"
  shows "effects_consistent (i\<lparr>i_branch := True\<rparr>)"
    "effects_consistent (i\<lparr>i_call := True, i_aluop := ALU_ADD, i_write_registers := True, i_rd := r\<rparr>)"
  using assms
  by (simp_all add: clean_flags_def effects_consistent_def memory_op_def control_op_def decode_op_defs)

lemma decode_sethi_effects: "clean_flags i \<Longrightarrow> effects_consistent (decode_sethi_branches op2 i)"
  unfolding decode_sethi_branches_def
  by (intro effects_if) (simp_all add: arithmetic_leaves branch_leaves)

lemma effects_consistent_no_write: "effects_consistent j \<Longrightarrow> effects_consistent (j\<lparr>i_write_registers := False\<rparr>)"
  by (simp add: effects_consistent_def memory_op_def control_op_def)

lemma decode_switch_effects: "clean_flags i \<Longrightarrow> effects_consistent (decode_switch i)"
  unfolding decode_switch_def
  by (intro effects_if) (simp_all add: arithmetic_leaves branch_leaves decode_arithmetic_effects
    decode_memory_effects decode_sethi_effects)

lemma clean_fresh: "clean_flags (decode_fields (initialize_with w))"
  by (simp add: clean_flags_def decode_fields_def initialize_with_def Let_def)

text \<open>
  C17: Whatever the word, the flags of a decoded instruction are consistent: it is never
  both a load and a store; a store writes no register; a memory access adds its address, is
  no control transfer and writes neither a special register nor the condition codes; only a
  memory access is a double-word instruction, and only an addition or subtraction takes the
  carry; branch, call and jump exclude each other; none writes both a special register and a
  register; a return from trap is a jump that writes no register; and an unimplemented or
  sync instruction writes no register, no special register and no condition codes, selects
  no special register, moves no window pointer, accesses no memory, transfers no control and
  takes no carry.
\<close>

theorem decode_effects: "effects_consistent (decode (initialize_with w))"
  by (simp add: decode_def Let_def effects_consistent_no_write decode_switch_effects clean_fresh)

lemma decode_rd: "i_write_registers (decode i) \<Longrightarrow> i_rd (decode i) \<noteq> 0"
  by (auto simp: decode_def Let_def split: if_splits)

subsection \<open>What the byte lanes promise\<close>

text \<open>
  Memory is big-endian: the byte at offset 0 of a word is its most significant one.
  \<open>lane_pos\<close> and \<open>lane_width\<close> say which bits of the word an access touches,
  \<open>extended\<close> what a load of that width makes of a value.
\<close>

definition lane_width :: "MEMORY_SIZE \<Rightarrow> nat" where
  "lane_width ms =
    (case ms of
       MEM_SIGNED_BYTE \<Rightarrow> 8 | MEM_UNSIGNED_BYTE \<Rightarrow> 8
     | MEM_SIGNED_HALFWORD \<Rightarrow> 16 | MEM_UNSIGNED_HALFWORD \<Rightarrow> 16 | _ \<Rightarrow> 32)"

definition lane_fits :: "MEMORY_SIZE \<Rightarrow> nat \<Rightarrow> bool" where
  "lane_fits ms offset \<longleftrightarrow> (if lane_width ms = 32 then offset < 4 else 8 * offset + lane_width ms \<le> 32)"

definition extended :: "MEMORY_SIZE \<Rightarrow> u32 \<Rightarrow> u32" where
  "extended ms v =
    (case ms of
       MEM_SIGNED_BYTE \<Rightarrow> signed_take_bit 7 v | MEM_UNSIGNED_BYTE \<Rightarrow> take_bit 8 v
     | MEM_SIGNED_HALFWORD \<Rightarrow> signed_take_bit 15 v | MEM_UNSIGNED_HALFWORD \<Rightarrow> take_bit 16 v
     | _ \<Rightarrow> v)"

definition byte_lane :: "u32 \<Rightarrow> nat \<Rightarrow> u32" where
  "byte_lane w k = take_bit 8 (drop_bit (8 * (3 - k)) w)"

lemma store_lane_mask: "store_lane ms = mask (lane_width ms)"
  by (cases ms) (simp_all add: store_lane_def lane_width_def mask_eq_exp_minus_1)


text \<open>Writing \<open>k\<close> bits of \<open>v\<close> over \<open>old\<close> at position \<open>s\<close>, and reading the lane back.\<close>

definition splice :: "nat \<Rightarrow> nat \<Rightarrow> u32 \<Rightarrow> u32 \<Rightarrow> u32" where
  "splice s k v old = (push_bit s v AND push_bit s (mask k)) OR (old AND NOT (push_bit s (mask k)))"

lemma lane_of_splice: "s + k \<le> 32 \<Longrightarrow> take_bit k (drop_bit s (splice s k v old)) = take_bit k v"
  by (rule bit_word_eqI) (auto simp: splice_def bit_simps)

lemma bit_splice_outside:
  "n < s \<or> s + k \<le> n \<Longrightarrow> bit (splice s k v old) n = bit old n"
  by (auto simp: splice_def bit_simps dest: bit_imp_le_length)

lemma unsigned_lane: "k \<le> 32 \<Longrightarrow> t + k \<le> 32 \<Longrightarrow>
    drop_bit (32 - k) (push_bit t (w::u32)) = take_bit k (drop_bit (32 - k - t) w)"
  by (rule bit_word_eqI) (auto simp: bit_simps ac_simps)

lemma signed_lane:
  assumes "0 < k" "t + k \<le> 32"
  shows "signed_drop_bit (32 - k) (push_bit t (w::u32)) = signed_take_bit (k - 1) (take_bit k (drop_bit (32 - k - t) w))"
proof (rule bit_word_eqI)
  fix n assume n: "n < LENGTH(32)"
  show "bit (signed_drop_bit (32 - k) (push_bit t w)) n =
      bit (signed_take_bit (k - 1) (take_bit k (drop_bit (32 - k - t) w))) n"
  proof (cases "n < k")
    case True
    then have "min (k - 1) n = n" and "32 - k + n - t = 32 - k - t + n" using assms by auto
    with True n assms show ?thesis by (auto simp: bit_simps)
  next
    case False
    then have "min (k - 1) n = k - 1" and "32 - k - t + (k - 1) = 31 - t" using assms by auto
    with False n assms show ?thesis by (simp add: bit_simps)
  qed
qed

lemma signed_take_bit_of_take_bit: "0 < k \<Longrightarrow> signed_take_bit (k - 1) (take_bit k (w::u32)) = signed_take_bit (k - 1) w"
  by (rule bit_word_eqI) (auto simp: bit_simps min_def)

definition lane_pos :: "MEMORY_SIZE \<Rightarrow> nat \<Rightarrow> nat" where
  "lane_pos ms off = (if lane_width ms = 32 then 0 else 32 - lane_width ms - 8 * off)"

lemma get_write_data_splice:
  "lane_fits (i_memory_size i) off \<Longrightarrow> get_write_data old off i =
     Inr (splice (lane_pos (i_memory_size i) off) (lane_width (i_memory_size i)) (i_op3_value i) old)"
  by (cases "i_memory_size i")
    (auto simp: get_write_data_def store_lane_mask store_shamt_def lane_fits_def lane_width_def lane_pos_def
      splice_def Let_def nat_diff_distrib nat_mult_distrib algebra_simps)

lemma read_data_lane:
  "lane_fits (i_memory_size j) off \<Longrightarrow> i_alu_result (read_data w off j) =
     extended (i_memory_size j) (take_bit (lane_width (i_memory_size j)) (drop_bit (lane_pos (i_memory_size j) off) w))"
  using unsigned_lane [of 8 "off * 8" w] unsigned_lane [of 16 "off * 8" w]
    signed_lane [of 8 "off * 8" w] signed_lane [of 16 "off * 8" w]
  by (cases "i_memory_size j")
    (auto simp: read_data_def extended_def lane_width_def lane_pos_def lane_fits_def Let_def ac_simps take_bit_word_eq_self)

lemma extended_take_bit: "extended ms (take_bit (lane_width ms) v) = extended ms v"
  using signed_take_bit_of_take_bit [of 8 v] signed_take_bit_of_take_bit [of 16 v]
  by (cases ms) (simp_all add: extended_def lane_width_def take_bit_word_eq_self)

lemma get_write_data_undefined:
  "off < 4 \<Longrightarrow> (get_write_data old off i = Inl Undefined_Access) = (\<not> lane_fits (i_memory_size i) off)"
  by (cases "i_memory_size i")
    (auto simp: get_write_data_def store_shamt_def lane_fits_def lane_width_def Let_def)

lemma lane_fits_cong: "lane_width a = lane_width b \<Longrightarrow> lane_fits a off = lane_fits b off" "lane_width a = lane_width b \<Longrightarrow> lane_pos a off = lane_pos b off"
  by (simp_all add: lane_fits_def lane_pos_def)

lemma lane_in_word: "lane_fits ms off \<Longrightarrow> lane_pos ms off + lane_width ms \<le> 32"
  by (cases ms) (auto simp: lane_fits_def lane_width_def lane_pos_def)

lemma store_load_lane:
  assumes fits: "lane_fits (i_memory_size i) off"
    and same: "lane_width (i_memory_size j) = lane_width (i_memory_size i)"
    and w: "get_write_data old off i = Inr w"
  shows "i_alu_result (read_data w off j) = extended (i_memory_size j) (i_op3_value i)"
proof -
  let ?ms = "i_memory_size i"
  from w have w: "w = splice (lane_pos ?ms off) (lane_width ?ms) (i_op3_value i) old"
    by (simp add: get_write_data_splice [OF fits])
  from fits same have "lane_fits (i_memory_size j) off" and pos: "lane_pos (i_memory_size j) off = lane_pos ?ms off"
    by (simp_all add: lane_fits_cong [OF same])
  then show ?thesis
    by (simp add: read_data_lane w same lane_of_splice [OF lane_in_word [OF fits]])
      (metis extended_take_bit same)
qed

lemma store_preserves_other_bits:
  assumes "lane_fits (i_memory_size i) off" "get_write_data old off i = Inr w"
   "n < lane_pos (i_memory_size i) off \<or> lane_pos (i_memory_size i) off + lane_width (i_memory_size i) \<le> n"
  shows "bit w n = bit old n"
  using assms by (auto simp: get_write_data_splice bit_splice_outside)
end
