(* ===== verification/Store_Interface.thy ===== *)
theory Store_Interface
  imports Prelude
begin

section \<open>The interface of storage: cells addressed by keys\<close>

text \<open>
  Register file, scratchpad and main memory offer the same contract to the pipeline: a
  read after a write sees the written value at the keys that name the same cell and the
  old value elsewhere.  Keys may alias: the out registers of one window are the in
  registers of the next.  The clients' facts are proved here once from the contract.
\<close>

locale cell_store =
  fixes rd :: "'s \<Rightarrow> 'k \<Rightarrow> 'v"
    and wr :: "'s \<Rightarrow> 'k \<Rightarrow> 'v \<Rightarrow> 's"
    and cell :: "'k \<Rightarrow> 'c"
    and inv :: "'s \<Rightarrow> bool"
  assumes rd_wr: "inv s \<Longrightarrow> rd (wr s k v) k' = (if cell k = cell k' then v else rd s k')"
    and inv_wr: "inv s \<Longrightarrow> inv (wr s k v)"
begin

lemma rd_wr_same: "inv s \<Longrightarrow> rd (wr s k v) k = v"
  by (simp add: rd_wr)

lemma rd_wr_alias: "inv s \<Longrightarrow> cell k = cell k' \<Longrightarrow> rd (wr s k v) k' = v"
  by (simp add: rd_wr)

lemma rd_wr_other: "inv s \<Longrightarrow> cell k \<noteq> cell k' \<Longrightarrow> rd (wr s k v) k' = rd s k'"
  by (simp add: rd_wr)

lemma rd_wr_wr: "inv s \<Longrightarrow> rd (wr (wr s k v) k w) k' = rd (wr s k w) k'"
  by (simp add: rd_wr inv_wr)

lemma rd_wr_commute:
  "inv s \<Longrightarrow> cell k \<noteq> cell l \<Longrightarrow> rd (wr (wr s k v) l w) k' = rd (wr (wr s l w) k v) k'"
  by (auto simp: rd_wr inv_wr)

text \<open>A run of writes: the last write to a cell wins, untouched cells keep their value.\<close>

fun wr_all :: "'s \<Rightarrow> ('k \<times> 'v) list \<Rightarrow> 's" where
  "wr_all s [] = s"
| "wr_all s ((k, v) # kvs) = wr_all (wr s k v) kvs"

lemma inv_wr_all: "inv s \<Longrightarrow> inv (wr_all s kvs)"
  by (induction s kvs rule: wr_all.induct) (simp_all add: inv_wr)

lemma rd_wr_all_frame:
  "inv s \<Longrightarrow> cell k' \<notin> cell ` fst ` set kvs \<Longrightarrow> rd (wr_all s kvs) k' = rd s k'"
  by (induction s kvs rule: wr_all.induct) (auto simp: inv_wr rd_wr)

lemma rd_wr_all_snoc:
  "inv s \<Longrightarrow> rd (wr_all s (kvs @ [(k, v)])) k' =
     (if cell k = cell k' then v else rd (wr_all s kvs) k')"
  by (induction s kvs rule: wr_all.induct) (auto simp: inv_wr rd_wr)

end

end
