(* ===== verification/Register_File.thy ===== *)
theory Register_File
  imports Instruction_Defs Store_Interface
begin

section \<open>The windowed register file (include/register\_file.h, src/core/register\_file.cpp)\<close>

text \<open>
  Eight globals and a ring of 512 window registers.  Register \<open>r \<ge> 8\<close> of window \<open>w\<close> is
  the cell \<open>16 w + r - 8\<close> of the ring, so that windows overlap by eight registers.
  The lemmas instantiate the storage interface and say which registers are the same cell.
\<close>

record register_file =
  global_reg :: "u32 list"
  window_reg :: "u32 list"

text \<open>
  The constructor clears the globals only: the window registers hold whatever the
  allocation left there, the argument \<open>junk\<close>.
\<close>

definition init_register_file :: "u32 list \<Rightarrow> register_file" where
  "init_register_file junk = \<lparr>global_reg = replicate 8 0, window_reg = junk\<rparr>"

definition window_index :: "REGISTER_NUMBER \<Rightarrow> WINDOW_POINTER \<Rightarrow> nat" where
  "window_index register_number window_pointer =
     (let window_addr = window_pointer * 16 :: u16;
          window_offset = register_number - 8 :: u16
      in (unat window_addr + unat window_offset) mod (16 * REGISTER_WINDOWS))"

definition get_reg :: "register_file \<Rightarrow> REGISTER_NUMBER \<Rightarrow> WINDOW_POINTER \<Rightarrow> u32" where
  "get_reg f register_number window_pointer =
     (if register_number < 8 then global_reg f ! unat register_number
      else window_reg f ! window_index register_number window_pointer)"

definition set_reg :: "register_file \<Rightarrow> REGISTER_NUMBER \<Rightarrow> u32 \<Rightarrow> WINDOW_POINTER \<Rightarrow> register_file" where
  "set_reg f register_number value window_pointer =
     (if register_number < 8
      then f\<lparr>global_reg := (global_reg f)[unat register_number := value]\<rparr>
      else f\<lparr>window_reg := (window_reg f)[window_index register_number window_pointer := value]\<rparr>)"

definition reset_register_window :: "register_file \<Rightarrow> register_file" where
  "reset_register_window f = f\<lparr>window_reg := replicate (16 * REGISTER_WINDOWS) 0\<rparr>"

definition register_file_eq :: "register_file \<Rightarrow> register_file \<Rightarrow> bool" where
  "register_file_eq f g \<longleftrightarrow>
     list_all (\<lambda>i. window_reg f ! i = window_reg g ! i) [0..<16 * REGISTER_WINDOWS] \<and>
     list_all (\<lambda>i. global_reg f ! i = global_reg g ! i) [0..<8]"

definition wf_regs :: "register_file \<Rightarrow> bool" where
  "wf_regs f \<longleftrightarrow> length (global_reg f) = 8 \<and> length (window_reg f) = 16 * REGISTER_WINDOWS"

text \<open>The physical cell behind a register of a window.\<close>

datatype reg_cell = Global nat | Window nat

fun reg_cell_of :: "REGISTER_NUMBER \<times> WINDOW_POINTER \<Rightarrow> reg_cell" where
  "reg_cell_of (r, w) = (if r < 8 then Global (unat r) else Window (window_index r w))"

lemma window_index_bound [simp]: "window_index r w < 512"
  by (simp add: window_index_def Let_def)

lemma unat_global_bound: "r < 8 \<Longrightarrow> unat (r::u16) < 8"
  by (simp add: word_less_nat_alt)

interpretation reg_store: cell_store
  "\<lambda>f (r, w). get_reg f r w" "\<lambda>f (r, w) v. set_reg f r v w" reg_cell_of wf_regs
proof (unfold_locales, goal_cases)
  case (1 f k v k')
  then show ?case
    by (cases k; cases k')
      (auto simp: wf_regs_def get_reg_def set_reg_def unat_global_bound nth_list_update)
next
  case (2 f k v)
  then show ?case
    by (cases k) (auto simp: wf_regs_def set_reg_def)
qed

lemmas get_set_same = reg_store.rd_wr_same [of _ "(r, w)" for r w, simplified]
lemmas wf_set_reg = reg_store.inv_wr [of _ "(r, w)" for r w, simplified]

lemma get_set_reg:
  "wf_regs f \<Longrightarrow> get_reg (set_reg f r v w) r' w' =
     (if reg_cell_of (r, w) = reg_cell_of (r', w') then v else get_reg f r' w')"
  using reg_store.rd_wr [of f "(r, w)" v "(r', w')"] by simp

lemma register_file_eq_iff: "wf_regs f \<Longrightarrow> wf_regs g \<Longrightarrow> register_file_eq f g \<longleftrightarrow> f = g"
  by (auto simp: register_file_eq_def wf_regs_def list_all_iff list_eq_iff_nth_eq)

subsection \<open>Windows overlap\<close>

lemma window_index_nat:
  assumes "unat w < 32" "8 \<le> unat r" "unat r < 40"
  shows "window_index r w = (16 * unat w + (unat r - 8)) mod 512"
proof -
  have "unat (w * 16) = 16 * unat w"
    using assms by (simp add: unat_word_ariths mult.commute)
  moreover have "unat (r - 8) = unat r - 8"
    using assms by (subst unat_sub) (auto simp: word_le_nat_alt)
  ultimately show ?thesis by (simp add: window_index_def Let_def)
qed

text \<open>
  \<open>window_below\<close> is the current window pointer after \<open>save\<close>, as the register-access
  stage computes it.
\<close>

lemma line_alias:
  fixes W W' A A' :: nat
  assumes "A < 24" "A' < 24"
  shows "16 * W + A = 16 * W' + A' \<longleftrightarrow>
    (W = W' \<and> A = A') \<or> (W = W' + 1 \<and> A' = A + 16) \<or> (W' = W + 1 \<and> A = A' + 16)"
proof (cases W W' rule: linorder_cases)
  case less
  then obtain d where "W' = W + Suc d" by (auto dest: less_imp_Suc_add)
  with assms show ?thesis by (cases d) auto
next
  case equal
  then show ?thesis by auto
next
  case greater
  then obtain d where "W = W' + Suc d" by (auto dest: less_imp_Suc_add)
  with assms show ?thesis by (cases d) auto
qed

lemma ring_alias:
  fixes W W' A A' :: nat
  assumes "W < 32" "W' < 32" "A < 24" "A' < 24"
  shows "(16 * W + A) mod 512 = (16 * W' + A') mod 512 \<longleftrightarrow>
    (W = W' \<and> A = A') \<or> (W = (W' + 1) mod 32 \<and> A' = A + 16) \<or> (W' = (W + 1) mod 32 \<and> A = A' + 16)"
proof -
  have "(16 * W + A) mod 512 = (16 * W' + A') mod 512 \<longleftrightarrow>
      16 * W + A = 16 * W' + A' \<or> 16 * W + A = 16 * (W' + 32) + A' \<or> 16 * (W + 32) + A = 16 * W' + A'"
    using assms by (auto simp: mod_if)
  also have "\<dots> \<longleftrightarrow>
    (W = W' \<and> A = A') \<or> (W = (W' + 1) mod 32 \<and> A' = A + 16) \<or> (W' = (W + 1) mod 32 \<and> A = A' + 16)"
    unfolding line_alias [OF assms(3,4)] using assms by (auto simp: mod_if)
  finally show ?thesis .
qed

definition window_below :: "WINDOW_POINTER \<Rightarrow> WINDOW_POINTER" where
  "window_below w = (w + (- 1)) mod 32"

lemma unat_window_below: "unat w < 32 \<Longrightarrow> unat (window_below w) = (if w = 0 then 31 else unat w - 1)"
  apply (cases "w = 0")
   apply (simp add: window_below_def)
  apply (simp add: window_below_def unat_mod unat_minus_one)
  done


lemma window_below_iff:
  assumes "unat x < 32" "unat y < 32"
  shows "(x = window_below y) = (unat y = (unat x + 1) mod 32)"
proof -
  have "(x = window_below y) = (unat x = (if unat y = 0 then 31 else unat y - 1))"
    using unat_window_below [OF assms(2)] by (simp add: word_unat_eq_iff)
  also have "\<dots> = (unat y = (unat x + 1) mod 32)"
    using assms by (auto simp: mod_if)
  finally show ?thesis .
qed

text \<open>
  Two names of window registers are the same cell exactly when they are the same
  register of the same window, or an out register of a window and the in register, sixteen
  higher, of the window below.
\<close>

theorem window_alias:
  assumes w: "unat w < 32" "unat w' < 32"
    and r: "8 \<le> unat r" "unat r < 32" "8 \<le> unat r'" "unat r' < 32"
  shows "reg_cell_of (r, w) = reg_cell_of (r', w') \<longleftrightarrow>
    (w = w' \<and> r = r') \<or> (w' = window_below w \<and> unat r' = unat r + 16) \<or>
    (w = window_below w' \<and> unat r = unat r' + 16)"
proof -
  have "reg_cell_of (r, w) = reg_cell_of (r', w') \<longleftrightarrow>
      (16 * unat w + (unat r - 8)) mod 512 = (16 * unat w' + (unat r' - 8)) mod 512"
    using w r by (simp add: window_index_nat word_less_nat_alt)
  also have "\<dots> \<longleftrightarrow> (unat w = unat w' \<and> unat r - 8 = unat r' - 8) \<or>
      (unat w = (unat w' + 1) mod 32 \<and> unat r' - 8 = unat r - 8 + 16) \<or>
      (unat w' = (unat w + 1) mod 32 \<and> unat r - 8 = unat r' - 8 + 16)"
    using w r by (intro ring_alias) auto
  also have "\<dots> \<longleftrightarrow> (w = w' \<and> r = r') \<or> (w' = window_below w \<and> unat r' = unat r + 16) \<or>
    (w = window_below w' \<and> unat r = unat r' + 16)"
    unfolding window_below_iff [OF w(2,1)] window_below_iff [OF w] word_unat_eq_iff [of w w'] word_unat_eq_iff [of r r']
    using r by auto
  finally show ?thesis .
qed

end
