(* ===== verification/Special_Reg.thy ===== *)
theory Special_Reg
  imports Instruction_Defs
begin

section \<open>Special registers and deadline timers (include/special\_reg.h, src/core/special\_reg.cpp)\<close>

text \<open>
  The processor state register kept as its fields, the trap and window registers, the
  ancillary registers and the timers.  \<open>get_psr\<close>/\<open>set_psr\<close> pack and unpack the state
  register; the timer operations run once per pipeline round of the owning thread
  (deadline timers, from the fetch stage) or once per PLL clock tick (PLL timers).
\<close>

datatype DT_STATUS = UNSET | SET | MISSED

record special_reg =
  s_imp_ver :: u8
  s_curr_wp :: WINDOW_POINTER
  s_icc :: u8
  s_s :: bool
  s_ps :: bool
  s_tbr :: u32
  s_wim :: u32
  s_et :: bool
  s_ec :: bool
  s_ef :: bool
  s_pil :: u8
  s_asr :: "u32 list"
  s_y :: u32
  s_dt :: "u32 list"
  s_plldt :: "u32 list"
  s_pll_load :: "u32 list"
  s_pll_loaded :: bool
  s_dt_status :: "DT_STATUS list"

definition wf_special :: "special_reg \<Rightarrow> bool" where
  "wf_special r \<longleftrightarrow> length (s_asr r) = 32 \<and> length (s_dt r) = NUM_DEADLINE_TIMERS \<and>
     length (s_plldt r) = NUM_PLL_TIMERS \<and> length (s_pll_load r) = NUM_PLL_TIMERS \<and>
     length (s_dt_status r) = NUM_DEADLINE_TIMERS"

subsection \<open>The processor state register\<close>

definition set_psr :: "u32 \<Rightarrow> special_reg \<Rightarrow> special_reg" where
  "set_psr w r =
     r\<lparr>s_imp_ver := ucast (drop_bit 24 (w AND 0xFF000000)),
       s_icc := ucast (drop_bit 20 (w AND 0x00F00000)),
       s_ec := truthy (drop_bit 13 (w AND 0x00002000)),
       s_ef := truthy (drop_bit 12 (w AND 0x00001000)),
       s_pil := ucast (drop_bit 8 (w AND 0x00000F00)),
       s_s := truthy (drop_bit 7 (w AND 0x00000080)),
       s_ps := truthy (drop_bit 6 (w AND 0x00000040)),
       s_et := truthy (drop_bit 5 (w AND 0x00000020)),
       s_curr_wp := ucast (w AND 0x0000001F)\<rparr>"

definition get_psr :: "special_reg \<Rightarrow> u32" where
  "get_psr r =
     push_bit 24 (ucast (s_imp_ver r)) OR push_bit 20 (ucast (s_icc r)) OR
     push_bit 13 (of_flag (s_ec r)) OR push_bit 12 (of_flag (s_ef r)) OR
     push_bit 8 (ucast (s_pil r)) OR push_bit 7 (of_flag (s_s r)) OR
     push_bit 6 (of_flag (s_ps r)) OR push_bit 5 (of_flag (s_et r)) OR
     ucast (s_curr_wp r)"

definition get_carry_bit :: "special_reg \<Rightarrow> u32" where
  "get_carry_bit r = (if truthy (get_psr r AND 0x00100000) then 1 else 0)"

definition init_special_reg :: special_reg where
  "init_special_reg = set_psr 0xF30000E0
     \<lparr>s_imp_ver = 0, s_curr_wp = 0, s_icc = 0, s_s = False, s_ps = False, s_tbr = 0x20,
      s_wim = 0x2, s_et = False, s_ec = False, s_ef = False, s_pil = 0,
      s_asr = map (\<lambda>i. if i = 17 then 0xB07 else 0) [0..<32], s_y = 0,
      s_dt = replicate NUM_DEADLINE_TIMERS 0, s_plldt = replicate NUM_PLL_TIMERS 0,
      s_pll_load = replicate NUM_PLL_TIMERS 0, s_pll_loaded = False,
      s_dt_status = replicate NUM_DEADLINE_TIMERS UNSET\<rparr>"

subsection \<open>Timers\<close>

text \<open>
  The loop keeps the last index whose status is \<open>MISSED\<close>; with none it returns false and
  leaves the output parameter alone (\<open>None\<close>).
\<close>

fun missed_from :: "nat \<Rightarrow> DT_STATUS list \<Rightarrow> nat option \<Rightarrow> nat option" where
  "missed_from i [] found = found"
| "missed_from i (st # sts) found =
     missed_from (Suc i) sts (if st = MISSED then Some i else found)"

definition missed_deadline :: "special_reg \<Rightarrow> nat option" where
  "missed_deadline r = missed_from 0 (s_dt_status r) None"

definition tick_status :: "u32 \<Rightarrow> DT_STATUS \<Rightarrow> DT_STATUS" where
  "tick_status d st = (if sint (d - 1) < 0 \<and> st = SET then MISSED else st)"

definition decrement_deadline_timers :: "special_reg \<Rightarrow> special_reg" where
  "decrement_deadline_timers r =
     (let dt = map (\<lambda>d. d - 1) (s_dt r)
      in r\<lparr>s_dt := dt, s_dt_status := map2 tick_status dt (s_dt_status r)\<rparr>)"

definition pll_tick :: "u32 \<times> u32 \<Rightarrow> u32 \<times> u32" where
  "pll_tick = (\<lambda>(plldt, load).
     if 0 < plldt then (plldt - 1, load)
     else if load \<noteq> 0 then (load - 1, 0)
     else (plldt, load))"

definition decrement_pll_timers :: "special_reg \<Rightarrow> special_reg" where
  "decrement_pll_timers r =
     (let ticked = map pll_tick (zip (s_plldt r) (s_pll_load r))
      in r\<lparr>s_plldt := map fst ticked, s_pll_load := map snd ticked\<rparr>)"

subsection \<open>Copying and comparing\<close>

text \<open>The equality operator compares neither \<open>_imp_ver\<close> nor the timer status.\<close>

definition special_reg_eq :: "special_reg \<Rightarrow> special_reg \<Rightarrow> bool" where
  "special_reg_eq a b \<longleftrightarrow>
     s_curr_wp a = s_curr_wp b \<and> s_icc a = s_icc b \<and> s_s a = s_s b \<and> s_ps a = s_ps b \<and>
     s_tbr a = s_tbr b \<and> s_wim a = s_wim b \<and> s_et a = s_et b \<and> s_ec a = s_ec b \<and>
     s_ef a = s_ef b \<and> s_pil a = s_pil b \<and> s_y a = s_y b \<and> s_pll_loaded a = s_pll_loaded b \<and>
     list_all (\<lambda>i. s_asr a ! i = s_asr b ! i) [0..<32] \<and>
     list_all (\<lambda>i. s_dt a ! i = s_dt b ! i) [0..<NUM_DEADLINE_TIMERS] \<and>
     list_all (\<lambda>i. s_plldt a ! i = s_plldt b ! i \<and> s_pll_load a ! i = s_pll_load b ! i)
       [0..<NUM_PLL_TIMERS]"

subsection \<open>What the state register promises\<close>

lemma wf_init_special: "wf_special init_special_reg"
  by (simp add: wf_special_def init_special_reg_def set_psr_def)

theorem get_set_psr: "get_psr (set_psr w r) = w AND 0xFFF03FFF"
  using field_u8 [of 24 8 w] field_u8 [of 20 4 w] flag_field [of 13 w] flag_field [of 12 w]
    field_u8 [of 8 4 w] flag_field [of 7 w] flag_field [of 6 w] flag_field [of 5 w] field_u16 [of 5 w]
  by (simp add: get_psr_def set_psr_def mask_eq_exp_minus_1 and_or_collect and_or_collect3 or.assoc)

definition psr_fields_fit :: "special_reg \<Rightarrow> bool" where
  "psr_fields_fit r \<longleftrightarrow> s_icc r < 16 \<and> s_pil r < 16 \<and> s_curr_wp r < 32"

lemma psr_fit_bits:
  assumes "psr_fields_fit r"
  shows "bit (s_icc r) n \<Longrightarrow> n < 4" "bit (s_pil r) n \<Longrightarrow> n < 4" "bit (s_curr_wp r) n \<Longrightarrow> n < 5"
  using assms bit_below_pow [of "s_icc r" 4 n] bit_below_pow [of "s_pil r" 4 n] bit_below_pow [of "s_curr_wp r" 5 n]
  by (simp_all add: psr_fields_fit_def)

lemma psr_bits:
  "bit (get_psr r) n \<longleftrightarrow> n < 32 \<and> 
    (24 \<le> n \<and> bit (s_imp_ver r) (n - 24) \<or> 20 \<le> n \<and> bit (s_icc r) (n - 20) \<or> n = 13 \<and> s_ec r \<or> n = 12 \<and> s_ef r \<or>
     8 \<le> n \<and> bit (s_pil r) (n - 8) \<or> n = 7 \<and> s_s r \<or> n = 6 \<and> s_ps r \<or> n = 5 \<and> s_et r \<or> bit (s_curr_wp r) n)"
  unfolding get_psr_def
  apply (simp only: bit_or_iff bit_push_bit_iff)
  apply (simp add: bit_unsigned_iff)
  by (cases "n < 32") (simp_all add: order_eq_iff [of n] conj_ac less_imp_diff_less)

lemma set_psr_fields:
  "bit (s_imp_ver (set_psr w r)) k \<longleftrightarrow> k < 8 \<and> bit w (24 + k)"
  "bit (s_icc (set_psr w r)) k \<longleftrightarrow> k < 4 \<and> bit w (20 + k)"
  "bit (s_pil (set_psr w r)) k \<longleftrightarrow> k < 4 \<and> bit w (8 + k)"
  "bit (s_curr_wp (set_psr w r)) k \<longleftrightarrow> k < 5 \<and> bit w k"
  "s_ec (set_psr w r) = bit w 13" "s_ef (set_psr w r) = bit w 12" "s_s (set_psr w r) = bit w 7" 
  "s_ps (set_psr w r) = bit w 6" "s_et (set_psr w r) = bit w 5" 
  using byte_of_word [of 8 24 w k] byte_of_word [of 4 20 w k] byte_of_word [of 4 8 w k] half_of_word [of 5 w k]
   flag_of_word [of 13 w] flag_of_word [of 12 w] flag_of_word [of 7 w] flag_of_word [of 6 w] flag_of_word [of 5 w]
  by (simp_all add: set_psr_def mask_eq_exp_minus_1)

text \<open>
  Writing back the word read from the processor state register restores every field of
  it, when the fields fit their widths.
\<close>

theorem set_get_psr: 
  assumes "psr_fields_fit r"
  shows "set_psr (get_psr r) r = r"
proof -
  have "s_imp_ver (set_psr (get_psr r) r) = s_imp_ver r" "s_icc (set_psr (get_psr r) r) = s_icc r" "s_pil (set_psr (get_psr r) r) = s_pil r" "s_curr_wp (set_psr (get_psr r) r) = s_curr_wp r" 
    by (rule bit_word_eqI, auto simp: set_psr_fields psr_bits dest: psr_fit_bits [OF assms])+
  moreover have "s_ec (set_psr (get_psr r) r) = s_ec r" "s_ef (set_psr (get_psr r) r) = s_ef r" "s_s (set_psr (get_psr r) r) = s_s r" "s_ps (set_psr (get_psr r) r) = s_ps r" "s_et (set_psr (get_psr r) r) = s_et r"
    by (auto simp: set_psr_fields psr_bits dest: psr_fit_bits [OF assms])
  ultimately show ?thesis
    by (simp add: set_psr_def)
qed


theorem carry_is_icc_bit0:
  assumes "psr_fields_fit r"
  shows "get_carry_bit r = of_flag (bit (s_icc r) 0)"
proof -
  have "truthy (get_psr r AND 0x00100000) = bit (get_psr r) 20"
    using truthy_and_bit [of 20 "get_psr r"] by simp
  then show ?thesis
    by (auto simp: get_carry_bit_def of_flag_def psr_bits dest: psr_fit_bits [OF assms])
qed

lemma psr_fields_fit_set: "psr_fields_fit (set_psr w r)"
proof -
  have "take_bit 4 (s_icc (set_psr w r)) = s_icc (set_psr w r)" "take_bit 4 (s_pil (set_psr w r)) = s_pil (set_psr w r)"
    "take_bit 5 (s_curr_wp (set_psr w r)) = s_curr_wp (set_psr w r)"
    by (rule bit_word_eqI, auto simp: bit_simps set_psr_fields)+
  moreover have "take_bit 4 (x::u8) < 16" "take_bit 5 (y::u16) < 32" for x y
    by (auto simp: word_less_nat_alt unsigned_take_bit_eq intro: take_bit_nat_less_exp [of 4, simplified] take_bit_nat_less_exp [of 5, simplified])
  ultimately show ?thesis by (metis psr_fields_fit_def)
qed

subsection \<open>What the timers promise\<close>

lemma missed_from_Some: "missed_from i sts found = Some k \<Longrightarrow> found = Some k \<or> (i \<le> k \<and> k < i + length sts \<and> sts ! (k - i) = MISSED)"
  by (induction i sts found rule: missed_from.induct) (fastforce split: if_splits simp: nth_Cons')+

lemma missed_from_None: "missed_from i sts found = None \<longleftrightarrow> found = None \<and> MISSED \<notin> set sts"
  by (induction i sts found rule: missed_from.induct) auto

theorem missed_deadline_iff: "missed_deadline r = None \<longleftrightarrow> MISSED \<notin> set (s_dt_status r)"
  by (simp add: missed_deadline_def missed_from_None)

lemma missed_deadline_status: "missed_deadline r = Some k \<Longrightarrow> k < length (s_dt_status r) \<and> s_dt_status r ! k = MISSED"
  unfolding missed_deadline_def by (drule missed_from_Some) simp

fun ticks :: "nat \<Rightarrow> special_reg \<Rightarrow> special_reg" where
  "ticks 0 r = r"
| "ticks (Suc n) r = ticks n (decrement_deadline_timers r)"

lemma dt_decrement: "i < length (s_dt r) \<Longrightarrow> s_dt (decrement_deadline_timers r) ! i = s_dt r ! i - 1"
  by (simp add: decrement_deadline_timers_def Let_def)

lemma wf_decrement: "wf_special r \<Longrightarrow> wf_special (decrement_deadline_timers r)"
  by (simp add: wf_special_def decrement_deadline_timers_def Let_def)

lemma length_decrement [simp]:
  "length (s_dt (decrement_deadline_timers r)) = length (s_dt r)"
  by (simp add: decrement_deadline_timers_def Let_def)

lemma dt_ticks: "i < length (s_dt r) \<Longrightarrow> s_dt (ticks n r) ! i = s_dt r ! i - of_nat n"
  by (induction n arbitrary: r) (auto simp: dt_decrement algebra_simps)

text \<open>
  A tick of the deadline timers marks a timer as missed exactly when it was armed and
  is at most one, and leaves its status alone otherwise, away from the wrap of the timer.
\<close>

theorem deadline_status_tick:
  assumes "wf_special r" "i < 8" "- (2 ^ 31) + 2 \<le> sint (s_dt r ! i)"
  shows "s_dt_status (decrement_deadline_timers r) ! i = 
     (if s_dt_status r ! i = SET \<and> sint (s_dt r ! i) \<le> 1 then MISSED else s_dt_status r ! i)"
proof -
  have "s_dt r ! i - 1 - 1 = s_dt r ! i - of_nat 2" by simp
  then show ?thesis
  using assms sint_minus_small [of 2 "s_dt r ! i"]
  by (auto simp add: decrement_deadline_timers_def Let_def tick_status_def wf_special_def)
qed
end
