(* ===== verification/Hw_Thread.thy ===== *)
theory Hw_Thread
  imports Instruction Register_File Special_Reg
begin

section \<open>Hardware threads (include/hw\_thread.h, src/core/hw\_thread.cpp, hw\_thread\_ptr)\<close>

text \<open>
  The state of one hardware thread.  The pipeline passes pointers to threads
  (\<open>hw_thread_ptr\<close>); the model passes \<open>nat option\<close>, the index of the thread in the pool or
  \<open>None\<close> for the null pointer, so that two latches that hold the same pointer alias as in
  the code.  The back pointer \<open>controller\<close> always points to the one thread controller and
  is left out.
\<close>

record hw_thread =
  t_cnt_cycles :: u32
  t_cnt_instr :: u32
  t_inst :: instruction
  t_regs :: register_file
  t_spec_regs :: special_reg
  t_enabled :: bool
  t_branch_slot :: u32
  t_db_word_stalled :: bool
  t_deadline_stalled :: bool
  t_memory_stalled :: bool
  t_fetch_stalled :: bool
  t_fixed_schedule :: bool
  t_id :: nat
  t_pc :: u32
  t_trapped :: u16
  t_trap_type :: u16

type_synonym hw_thread_ptr = "nat option"

text \<open>The constructor; \<open>junk\<close> is the uninitialised content of the window registers.\<close>

definition new_hw_thread :: "u32 list \<Rightarrow> nat \<Rightarrow> u32 \<Rightarrow> hw_thread" where
  "new_hw_thread junk in_id pc =
     \<lparr>t_cnt_cycles = 0, t_cnt_instr = 0, t_inst = nop_instruction,
      t_regs = init_register_file junk, t_spec_regs = init_special_reg, t_enabled = False,
      t_branch_slot = 0, t_db_word_stalled = False, t_deadline_stalled = False,
      t_memory_stalled = False, t_fetch_stalled = False, t_fixed_schedule = True,
      t_id = in_id, t_pc = pc, t_trapped = XCPT_NORMAL, t_trap_type = 0\<rparr>"

text \<open>\<open>_trapped > 0\<close> compares a signed \<open>short\<close>.\<close>

definition is_trapped :: "hw_thread \<Rightarrow> bool" where
  "is_trapped t \<longleftrightarrow> 0 < sint (t_trapped t)"

text \<open>Shorthands for updating a nested member, as the stages do through the pointer.\<close>

definition upd_inst :: "(instruction \<Rightarrow> instruction) \<Rightarrow> hw_thread \<Rightarrow> hw_thread" where
  "upd_inst f t = t\<lparr>t_inst := f (t_inst t)\<rparr>"

definition upd_spec :: "(special_reg \<Rightarrow> special_reg) \<Rightarrow> hw_thread \<Rightarrow> hw_thread" where
  "upd_spec f t = t\<lparr>t_spec_regs := f (t_spec_regs t)\<rparr>"

definition upd_regs :: "(register_file \<Rightarrow> register_file) \<Rightarrow> hw_thread \<Rightarrow> hw_thread" where
  "upd_regs f t = t\<lparr>t_regs := f (t_regs t)\<rparr>"

definition wf_thread :: "hw_thread \<Rightarrow> bool" where
  "wf_thread t \<longleftrightarrow> wf_regs (t_regs t) \<and> wf_special (t_spec_regs t)"

lemma upd_inst_simps [simp]:
  "t_inst (upd_inst f t) = f (t_inst t)" "t_regs (upd_inst f t) = t_regs t"
  "t_spec_regs (upd_inst f t) = t_spec_regs t" "t_enabled (upd_inst f t) = t_enabled t"
  "t_id (upd_inst f t) = t_id t" "t_pc (upd_inst f t) = t_pc t"
  "t_trapped (upd_inst f t) = t_trapped t" "t_trap_type (upd_inst f t) = t_trap_type t"
  "t_branch_slot (upd_inst f t) = t_branch_slot t"
  "t_db_word_stalled (upd_inst f t) = t_db_word_stalled t"
  "t_deadline_stalled (upd_inst f t) = t_deadline_stalled t"
  "t_memory_stalled (upd_inst f t) = t_memory_stalled t"
  "t_fetch_stalled (upd_inst f t) = t_fetch_stalled t"
  "t_cnt_cycles (upd_inst f t) = t_cnt_cycles t" "t_cnt_instr (upd_inst f t) = t_cnt_instr t"
  by (simp_all add: upd_inst_def)

lemma upd_spec_simps [simp]:
  "t_inst (upd_spec f t) = t_inst t" "t_regs (upd_spec f t) = t_regs t"
  "t_spec_regs (upd_spec f t) = f (t_spec_regs t)" "t_enabled (upd_spec f t) = t_enabled t"
  "t_id (upd_spec f t) = t_id t" "t_pc (upd_spec f t) = t_pc t"
  "t_trapped (upd_spec f t) = t_trapped t" "t_trap_type (upd_spec f t) = t_trap_type t"
  "t_branch_slot (upd_spec f t) = t_branch_slot t"
  "t_db_word_stalled (upd_spec f t) = t_db_word_stalled t"
  "t_deadline_stalled (upd_spec f t) = t_deadline_stalled t"
  "t_memory_stalled (upd_spec f t) = t_memory_stalled t"
  "t_fetch_stalled (upd_spec f t) = t_fetch_stalled t"
  "t_cnt_cycles (upd_spec f t) = t_cnt_cycles t" "t_cnt_instr (upd_spec f t) = t_cnt_instr t"
  by (simp_all add: upd_spec_def)

lemma upd_regs_simps [simp]:
  "t_inst (upd_regs f t) = t_inst t" "t_regs (upd_regs f t) = f (t_regs t)"
  "t_spec_regs (upd_regs f t) = t_spec_regs t" "t_enabled (upd_regs f t) = t_enabled t"
  "t_id (upd_regs f t) = t_id t" "t_pc (upd_regs f t) = t_pc t"
  "t_trapped (upd_regs f t) = t_trapped t" "t_trap_type (upd_regs f t) = t_trap_type t"
  "t_branch_slot (upd_regs f t) = t_branch_slot t"
  "t_db_word_stalled (upd_regs f t) = t_db_word_stalled t"
  "t_deadline_stalled (upd_regs f t) = t_deadline_stalled t"
  "t_memory_stalled (upd_regs f t) = t_memory_stalled t"
  "t_fetch_stalled (upd_regs f t) = t_fetch_stalled t"
  "t_cnt_cycles (upd_regs f t) = t_cnt_cycles t" "t_cnt_instr (upd_regs f t) = t_cnt_instr t"
  by (simp_all add: upd_regs_def)

lemma is_trapped_cong [simp]:
  "is_trapped (upd_inst f t) = is_trapped t" "is_trapped (upd_spec g t) = is_trapped t"
  "is_trapped (upd_regs h t) = is_trapped t"
  by (simp_all add: is_trapped_def)

lemma wf_new_thread: "length junk = 512 \<Longrightarrow> wf_thread (new_hw_thread junk i pc)"
  by (simp add: wf_thread_def new_hw_thread_def wf_regs_def init_register_file_def wf_init_special)

lemma wf_upd_inst [simp]: "wf_thread (upd_inst f t) = wf_thread t"
  by (simp add: wf_thread_def)

end
