(* ===== verification/Memory_Unit.thy ===== *)
theory Memory_Unit
  imports Store_Interface
begin

section \<open>Memory units and memory locations (include/memory\_unit.h, include/mem\_location.h)\<close>

text \<open>
  A memory unit is a finite map from addresses to words; an address without a value reads
  as zero.  The interface \<open>mem_location\<close> is the contract of the memories behind the
  memory controller: scratchpad, memory wheel and memory-mapped I/O.  An access takes the
  cycle count and the identifier of the thread and can stall; a stalled write stores
  nothing, and no access to a well-formed location fails an assertion.
\<close>

type_synonym memory_unit = "u32 \<rightharpoonup> u32"

definition new_memory_unit :: memory_unit where
  "new_memory_unit = Map.empty"

definition add_address :: "u32 \<Rightarrow> u32 \<Rightarrow> memory_unit \<Rightarrow> memory_unit" where
  "add_address addr data m = m(addr \<mapsto> data)"

definition has_address :: "u32 \<Rightarrow> memory_unit \<Rightarrow> bool" where
  "has_address addr m = (case m addr of None \<Rightarrow> False | Some _ \<Rightarrow> True)"

definition mem_at :: "memory_unit \<Rightarrow> u32 \<Rightarrow> u32" where
  "mem_at m addr = (if \<not> has_address addr m then 0 else the (m addr))"

definition remove_address :: "u32 \<Rightarrow> memory_unit \<Rightarrow> memory_unit" where
  "remove_address addr m = (if has_address addr m then m(addr := None) else m)"

lemma has_address_dom: "has_address a m \<longleftrightarrow> a \<in> dom m"
  by (auto simp: has_address_def split: option.splits)

lemma has_address_add [simp]: "has_address a (add_address b v m) \<longleftrightarrow> a = b \<or> has_address a m"
  by (auto simp: has_address_dom add_address_def)

lemma has_address_remove [simp]: "has_address a (remove_address b m) \<longleftrightarrow> a \<noteq> b \<and> has_address a m"
  by (cases "m b"; cases "a = b") (simp_all add: has_address_def remove_address_def)

lemma mem_at_remove: "mem_at (remove_address b m) a = (if a = b then 0 else mem_at m a)"
  by (cases "m b") (simp_all add: mem_at_def has_address_def remove_address_def split: option.split)

lemma mem_at_new [simp]: "mem_at new_memory_unit a = 0"
  by (simp add: mem_at_def new_memory_unit_def has_address_def)

interpretation mem_store: cell_store "mem_at" "\<lambda>m a v. add_address a v m" id "\<lambda>_. True"
  by unfold_locales (auto simp: mem_at_def add_address_def has_address_def)

lemma mem_at_add: "mem_at (add_address a v m) b = (if a = b then v else mem_at m b)"
  by (simp add: mem_store.rd_wr)

lemma dom_add_address: "dom (add_address a v m) = insert a (dom m)"
  by (auto simp: add_address_def)

lemma dom_remove_address: "dom (remove_address a m) = dom m - {a}"
  by (cases "m a") (auto simp: remove_address_def has_address_def)

subsection \<open>The interface of memory locations\<close>

lemma ex_not_bool [simp]: "Ex Not"
  by (rule exI [of _ False]) simp

locale mem_location =
  fixes read_word :: "u32 \<Rightarrow> nat \<Rightarrow> u32 \<Rightarrow> 's \<Rightarrow> sim_error + ('s \<times> u32 \<times> bool)"
    and write_word :: "u32 \<Rightarrow> nat \<Rightarrow> u32 \<Rightarrow> u32 \<Rightarrow> 's \<Rightarrow> sim_error + ('s \<times> bool)"
    and contents :: "'s \<Rightarrow> memory_unit"
    and inv :: "'s \<Rightarrow> bool"
  assumes read_total: "inv s \<Longrightarrow> \<exists>s' stalled. read_word cyc tid a s = Inr (s', mem_at (contents s) a, stalled) \<and>
      contents s' = contents s \<and> inv s'"
    and write_total: "inv s \<Longrightarrow> \<exists>s' stalled. write_word cyc tid a v s = Inr (s', stalled) \<and>
      contents s' = (if stalled then contents s else add_address a v (contents s)) \<and> inv s'"
begin

lemma read_inv:
  assumes "inv s" "read_word cyc tid a s = Inr (s', v, stalled)"
  shows "v = mem_at (contents s) a" "contents s' = contents s" "inv s'"
  using read_total [OF assms(1), of cyc tid a] assms(2) by auto

lemma write_inv:
  assumes "inv s" "write_word cyc tid a v s = Inr (s', stalled)"
  shows "contents s' = (if stalled then contents s else add_address a v (contents s))" "inv s'"
  using write_total [OF assms(1), of cyc tid a v] assms(2) by auto

lemma read_after_write:
  assumes "inv s" "write_word cyc tid a v s = Inr (s1, False)" "read_word cyc' tid' b s1 = Inr (s2, w, st)"
  shows "w = (if a = b then v else mem_at (contents s) b)"
  using write_inv [OF assms(1,2)] read_inv [OF _ assms(3)] by (simp add: mem_at_add)

lemma stalled_write_stores_nothing:
  assumes "inv s" "write_word cyc tid a v s = Inr (s1, True)" "read_word cyc' tid' b s1 = Inr (s2, w, st)"
  shows "w = mem_at (contents s) b"
  using write_inv [OF assms(1,2)] read_inv [OF _ assms(3)] by simp

lemma no_failure: "inv s \<Longrightarrow> read_word cyc tid a s \<noteq> Inl e" "inv s \<Longrightarrow> write_word cyc tid a v s \<noteq> Inl e"
  using read_total [of s cyc tid a] write_total [of s cyc tid a v] by auto

end

end
