(* ===== verification/L1_Scratch.thy ===== *)
theory L1_Scratch
  imports Memory_Unit Instruction_Defs
begin

section \<open>Scratchpads (include/l1\_scratch.h, src/core/l1\_scratch.cpp)\<close>

text \<open>
  A scratchpad holds words under their main-memory address, and for each of its own word
  locations the main-memory address whose word is there.  The lemmas show that it never
  stalls, that it meets the memory-location contract, and that it never holds more words
  than it has locations.
\<close>

record l1_scratch =
  l1_mem :: memory_unit
  l1_main_memory_address :: "u32 list"

definition new_l1_scratch :: l1_scratch where
  "new_l1_scratch = \<lparr>l1_mem = new_memory_unit, l1_main_memory_address = replicate (SCRATCH_SIZE div 4) 0\<rparr>"

definition is_addr_in_spm :: "u32 \<Rightarrow> l1_scratch \<Rightarrow> bool" where
  "is_addr_in_spm mem_addr s = (if mem_addr = 0 then False else has_address mem_addr (l1_mem s))"

text \<open>A read or write of an absent address prints an error and proceeds.\<close>

definition l1_read :: "u32 \<Rightarrow> l1_scratch \<Rightarrow> u32 \<times> bool" where
  "l1_read mem_addr s = (mem_at (l1_mem s) mem_addr, False)"

definition l1_write :: "u32 \<Rightarrow> u32 \<Rightarrow> l1_scratch \<Rightarrow> l1_scratch \<times> bool" where
  "l1_write mem_addr data s = (s\<lparr>l1_mem := add_address mem_addr data (l1_mem s)\<rparr>, False)"

definition update_addr :: "u32 \<Rightarrow> u32 \<Rightarrow> l1_scratch \<Rightarrow> l1_scratch" where
  "update_addr mem_addr inst s =
     (if \<not> is_addr_in_spm mem_addr s then s
      else s\<lparr>l1_mem := add_address mem_addr inst (l1_mem s)\<rparr>)"

definition in_spm_range :: "u32 \<Rightarrow> bool" where
  "in_spm_range spm_addr = (spm_addr mod 4 = 0 \<and> spm_addr < 0x10000)"

definition add_addr :: "u32 \<Rightarrow> u32 \<Rightarrow> u32 \<Rightarrow> l1_scratch \<Rightarrow> l1_scratch" where
  "add_addr mem_addr spm_addr data s =
     (if \<not> in_spm_range spm_addr then s
      else let slot = unat (spm_addr div 4);
               old_mem_addr = l1_main_memory_address s ! slot
           in s\<lparr>l1_main_memory_address := (l1_main_memory_address s)[slot := mem_addr],
                l1_mem := add_address mem_addr data (remove_address old_mem_addr (l1_mem s))\<rparr>)"

subsection \<open>What a scratchpad promises\<close>

interpretation l1: mem_location
  "\<lambda>cyc tid a s. case l1_read a s of (v, stalled) \<Rightarrow> Inr (s, v, stalled)"
  "\<lambda>cyc tid a v s. Inr (l1_write a v s)" l1_mem "\<lambda>_. True"
  by unfold_locales (simp_all add: l1_read_def l1_write_def)

text \<open>The scratchpad's size is a bound on the words it holds.\<close>

definition wf_scratch :: "l1_scratch \<Rightarrow> bool" where
  "wf_scratch s \<longleftrightarrow> length (l1_main_memory_address s) = SCRATCH_SIZE div 4 \<and>
     dom (l1_mem s) \<subseteq> set (l1_main_memory_address s)"

lemma spm_slot: "in_spm_range a \<Longrightarrow> unat (a div 4) < SCRATCH_SIZE div 4"
  by (auto simp: in_spm_range_def word_less_nat_alt unat_div)

lemma wf_new_l1_scratch: "wf_scratch new_l1_scratch"
  by (simp add: wf_scratch_def new_l1_scratch_def new_memory_unit_def)

lemma wf_add_addr: 
  assumes "wf_scratch s"
  shows "wf_scratch (add_addr mem_addr spm_addr data s)"
proof (cases "in_spm_range spm_addr")
  case True
  let ?slot = "unat (spm_addr div 4)" and ?l = "l1_main_memory_address s"
  from True assms have b: "?slot < length ?l" using spm_slot by (simp add: wf_scratch_def)
  have "x \<in> set (?l[?slot := mem_addr])" if "x \<in> set ?l" "x \<noteq> ?l ! ?slot" for x
    using that by (metis in_set_conv_nth length_list_update nth_list_update_neq)
  with True assms b show ?thesis
    by (auto simp: wf_scratch_def add_addr_def Let_def dom_add_address dom_remove_address intro!: set_update_memI)
qed (use assms in \<open>simp add: add_addr_def\<close>)

lemma wf_update_addr: "wf_scratch s \<Longrightarrow> wf_scratch (update_addr a v s)"
  by (auto simp: wf_scratch_def update_addr_def is_addr_in_spm_def dom_add_address has_address_dom split: if_splits)

lemma wf_l1_write: "wf_scratch s \<Longrightarrow> is_addr_in_spm a s \<Longrightarrow> wf_scratch (fst (l1_write a v s))"
  by (auto simp: wf_scratch_def l1_write_def is_addr_in_spm_def dom_add_address has_address_dom split: if_splits)

lemma scratch_capacity:
  assumes "wf_scratch s"
  shows "card (dom (l1_mem s)) \<le> SCRATCH_SIZE div 4"
proof -
  have "card (dom (l1_mem s)) \<le> card (set (l1_main_memory_address s))"
    using assms by (intro card_mono) (auto simp: wf_scratch_def)
  also have "\<dots> \<le> length (l1_main_memory_address s)" by (rule card_length)
  finally show ?thesis using assms by (simp add: wf_scratch_def)
qed

lemma add_addr_hit:
  "in_spm_range spm_addr \<Longrightarrow> fst (l1_read mem_addr (add_addr mem_addr spm_addr data s)) = data"
  by (simp add: l1_read_def add_addr_def Let_def mem_at_add)

lemma add_addr_in_spm:
  "in_spm_range spm_addr \<Longrightarrow> mem_addr \<noteq> 0 \<Longrightarrow> is_addr_in_spm mem_addr (add_addr mem_addr spm_addr data s)"
  by (simp add: is_addr_in_spm_def add_addr_def Let_def)

lemma add_addr_other:
  assumes "a \<noteq> mem_addr" "a \<noteq> l1_main_memory_address s ! unat (spm_addr div 4)"
  shows "fst (l1_read a (add_addr mem_addr spm_addr data s)) = fst (l1_read a s)"
    and "is_addr_in_spm a (add_addr mem_addr spm_addr data s) = is_addr_in_spm a s"
  using assms by (simp_all add: l1_read_def add_addr_def Let_def mem_at_add mem_at_remove is_addr_in_spm_def)

end
