(* ===== verification/Mem_Mapped_Io.thy ===== *)
theory Mem_Mapped_Io
  imports Memory_Unit
begin

section \<open>Memory-mapped I/O (include/mem\_mapped\_io.h, src/core/mem\_mapped\_io.cpp)\<close>

text \<open>
  Two addresses have effects, the UART (standard output) and the output file; every write
  is also stored.  The outputs are the lists of bytes written, last byte last.  Whether the
  output file can be opened is a property of the host, kept in \<open>io_can_open\<close>.
\<close>

record mem_mapped_io =
  io_mem :: memory_unit
  io_stdout :: "u8 list"
  io_file :: "u8 list"
  io_can_open :: bool

definition new_mem_mapped_io :: "bool \<Rightarrow> mem_mapped_io" where
  "new_mem_mapped_io can_open =
     \<lparr>io_mem = add_address 0x80000104 6 new_memory_unit, io_stdout = [], io_file = [],
      io_can_open = can_open\<rparr>"

definition io_is_stalled :: "nat \<Rightarrow> u32 \<Rightarrow> bool" where
  "io_is_stalled tid addr = False"

definition out_file :: "u32 \<Rightarrow> mem_mapped_io \<Rightarrow> mem_mapped_io" where
  "out_file data s = (if \<not> io_can_open s then s else s\<lparr>io_file := io_file s @ [ucast data]\<rparr>)"

definition out_uart :: "u32 \<Rightarrow> mem_mapped_io \<Rightarrow> mem_mapped_io" where
  "out_uart data s =
     (let out_char = (ucast data :: u8)
      in if out_char = 13 then s else s\<lparr>io_stdout := io_stdout s @ [out_char]\<rparr>)"

definition io_read :: "nat \<Rightarrow> u32 \<Rightarrow> mem_mapped_io \<Rightarrow> u32 \<times> bool" where
  "io_read tid addr s = (mem_at (io_mem s) addr, io_is_stalled tid addr)"

definition io_write :: "nat \<Rightarrow> u32 \<Rightarrow> u32 \<Rightarrow> mem_mapped_io \<Rightarrow> mem_mapped_io \<times> bool" where
  "io_write tid addr data s =
     (let stalled = io_is_stalled tid addr
      in if stalled then (s, stalled)
         else let s1 = (if addr = 0x80000100 then out_uart data s else s);
                  s2 = (if addr = 0x80000600 then out_file data s1 else s1)
              in (s2\<lparr>io_mem := add_address addr data (io_mem s2)\<rparr>, stalled))"

interpretation io: mem_location
  "\<lambda>cyc tid a s. case io_read tid a s of (v, stalled) \<Rightarrow> Inr (s, v, stalled)"
  "\<lambda>cyc tid a v s. Inr (io_write tid a v s)" io_mem "\<lambda>_. True"
  by unfold_locales
    (simp_all add: io_read_def io_write_def io_is_stalled_def Let_def out_uart_def out_file_def)

subsection \<open>What the UART prints\<close>

fun io_writes :: "nat \<Rightarrow> (u32 \<times> u32) list \<Rightarrow> mem_mapped_io \<Rightarrow> mem_mapped_io" where
  "io_writes tid [] s = s"
| "io_writes tid ((a, v) # avs) s = io_writes tid avs (fst (io_write tid a v s))"

lemma io_write_stdout:
  "io_stdout (fst (io_write tid a v s)) =
     io_stdout s @ (if a = 0x80000100 \<and> (ucast v :: u8) \<noteq> 13 then [ucast v] else [])"
  by (simp add: io_write_def io_is_stalled_def Let_def out_uart_def out_file_def)

lemma uart_output:
  "io_stdout (io_writes tid avs s) =
     io_stdout s @ filter (\<lambda>c. c \<noteq> 13) (map (\<lambda>(a, v). ucast v) (filter (\<lambda>(a, v). a = 0x80000100) avs))"
  by (induction tid avs s rule: io_writes.induct) (simp_all add: io_write_stdout)

end
