(* ===== verification/Wheeled_Mem.thy ===== *)
theory Wheeled_Mem
  imports Memory_Unit Instruction_Defs
begin

section \<open>The memory wheel (include/wheeled\_mem.h, src/core/wheeled\_mem.cpp)\<close>

text \<open>
  Main memory, shared by time: each thread has a window of cycles in a rotation of six.
  The configuration is the constructor's (latency, throughput, window); \<open>w_requested_addr\<close>
  is the function's static variable.  The methods take the cycle count that the code reads
  through the pointer to the counter.
\<close>

datatype AccessorType = BURST | GLOBAL

record wheeled_mem =
  w_mem :: memory_unit
  w_accessing :: bool
  w_remaining_cycles :: int
  w_lat_d :: int
  w_throughput_d :: int
  w_MEMORY_WINDOW :: int
  w_requested_addr :: u32

abbreviation (input) MAX_WORDS :: int where "MAX_WORDS \<equiv> 1"

definition ROUND_UP :: "int \<Rightarrow> int \<Rightarrow> int" where
  "ROUND_UP x y = ((x + y - 1) div y) * y"

definition new_wheeled_mem_window :: "int \<Rightarrow> int \<Rightarrow> int \<Rightarrow> wheeled_mem" where
  "new_wheeled_mem_window l_d t_d mem_win =
     \<lparr>w_mem = new_memory_unit, w_accessing = False, w_remaining_cycles = 0, w_lat_d = l_d,
      w_throughput_d = t_d, w_MEMORY_WINDOW = mem_win, w_requested_addr = 0\<rparr>"

definition new_wheeled_mem :: "int \<Rightarrow> int \<Rightarrow> wheeled_mem" where
  "new_wheeled_mem l_d t_d =
     new_wheeled_mem_window l_d t_d (ROUND_UP (l_d + t_d * (MAX_WORDS - 1)) (int NUM_THREADS) + 1)"

definition get_delay :: "AccessorType \<Rightarrow> int \<Rightarrow> wheeled_mem \<Rightarrow> int" where
  "get_delay acc num_words w = w_lat_d w + w_throughput_d w * (num_words - 1)"

definition current_thread :: "u32 \<Rightarrow> wheeled_mem \<Rightarrow> int" where
  "current_thread cycles w =
     (let window_cycle = uint (cycles mod word_of_int (w_MEMORY_WINDOW w * int NUM_THREADS));
          tid = window_cycle div w_MEMORY_WINDOW w
      in (1 + tid) mod int NUM_THREADS)"

definition is_scheduled :: "AccessorType \<Rightarrow> nat \<Rightarrow> u32 \<Rightarrow> wheeled_mem \<Rightarrow> bool" where
  "is_scheduled acc tid cycles w =
     (if int tid \<noteq> current_thread cycles w then False
      else let start_window = (word_of_int (w_MEMORY_WINDOW w - get_delay acc MAX_WORDS w) :: u32)
           in if cycles mod word_of_int (w_MEMORY_WINDOW w) \<le> start_window then True else False)"

definition is_stalled_helper ::
  "AccessorType \<Rightarrow> nat \<Rightarrow> u32 \<Rightarrow> int \<Rightarrow> u32 \<Rightarrow> wheeled_mem \<Rightarrow> sim_error + (wheeled_mem \<times> bool)" where
  "is_stalled_helper acc tid addr num_words cycles w =
     (if int tid \<noteq> current_thread cycles w \<or> (\<not> is_scheduled acc tid cycles w \<and> \<not> w_accessing w)
      then (if \<not> w_accessing w then Inr (w, True) else Inl Assert_Failure)
      else
        let w1 = (if \<not> w_accessing w
                  then w\<lparr>w_remaining_cycles := get_delay acc num_words w, w_requested_addr := addr\<rparr>
                  else w);
            w2 = (if w_remaining_cycles w1 \<le> 0 then w1\<lparr>w_accessing := True\<rparr>
                  else w1\<lparr>w_accessing := False\<rparr>)
        in if w_requested_addr w2 = addr then Inr (w2, w_accessing w2) else Inl Assert_Failure)"

definition w_is_stalled :: "nat \<Rightarrow> u32 \<Rightarrow> u32 \<Rightarrow> wheeled_mem \<Rightarrow> sim_error + (wheeled_mem \<times> bool)" where
  "w_is_stalled tid addr cycles w = is_stalled_helper GLOBAL tid addr 1 cycles w"

definition is_stalled_burst ::
  "nat \<Rightarrow> u32 \<Rightarrow> int \<Rightarrow> u32 \<Rightarrow> wheeled_mem \<Rightarrow> sim_error + (wheeled_mem \<times> bool)" where
  "is_stalled_burst tid addr num_words cycles w = is_stalled_helper BURST tid addr num_words cycles w"

definition w_read :: "u32 \<Rightarrow> nat \<Rightarrow> u32 \<Rightarrow> wheeled_mem \<Rightarrow> sim_error + (wheeled_mem \<times> u32 \<times> bool)" where
  "w_read cycles tid addr w =
     andThen (w_is_stalled tid addr cycles w) (\<lambda>(w1, stalled).
       Inr (w1, mem_at (w_mem w1) addr, stalled))"

definition w_write :: "u32 \<Rightarrow> nat \<Rightarrow> u32 \<Rightarrow> u32 \<Rightarrow> wheeled_mem \<Rightarrow> sim_error + (wheeled_mem \<times> bool)" where
  "w_write cycles tid addr data w =
     andThen (w_is_stalled tid addr cycles w) (\<lambda>(w1, stalled).
       if stalled then Inr (w1, stalled)
       else Inr (w1\<lparr>w_mem := add_address addr data (w_mem w1)\<rparr>, stalled))"

text \<open>
  The loop of a burst runs while \<open>addr < start_addr + 4 * num_words\<close> on unsigned words;
  \<open>num_words\<close> iterations are always enough fuel (\<open>burst_loop_fuel\<close>).
\<close>

fun burst_loop :: "nat \<Rightarrow> u32 \<Rightarrow> u32 \<Rightarrow> memory_unit \<Rightarrow> u32 list" where
  "burst_loop 0 addr end_addr m = []"
| "burst_loop (Suc n) addr end_addr m =
     (if addr < end_addr then mem_at m addr # burst_loop n (addr + 4) end_addr m else [])"

lemma burst_loop_stop: "\<not> a < e \<Longrightarrow> burst_loop n a e m = []"
  by (cases n) simp_all

lemma burst_loop_fuel: "burst_loop (n + k) a (a + 4 * of_nat n) m = burst_loop n a (a + 4 * of_nat n) m"
proof (induction n arbitrary: a)
  case (Suc n)
  then show ?case using Suc.IH [of "a + 4"] by (simp add: algebra_simps)
qed (simp add: burst_loop_stop)

definition read_burst ::
  "u32 \<Rightarrow> nat \<Rightarrow> u32 \<Rightarrow> nat \<Rightarrow> wheeled_mem \<Rightarrow> sim_error + (wheeled_mem \<times> u32 list \<times> bool)" where
  "read_burst cycles tid start_addr num_words w =
     andThen (is_stalled_burst tid start_addr (int num_words) cycles w) (\<lambda>(w1, stalled).
       Inr (w1, burst_loop num_words start_addr (start_addr + 4 * of_nat num_words) (w_mem w1), stalled))"

definition burst_words_transferred :: "nat \<Rightarrow> int \<Rightarrow> u32 \<Rightarrow> wheeled_mem \<Rightarrow> sim_error + int" where
  "burst_words_transferred tid num_words cycles w =
     (if int tid \<noteq> current_thread cycles w \<or> \<not> w_accessing w
      then (if w_remaining_cycles w = 0 then Inr 0 else Inl Assert_Failure)
      else let counted_cycles = get_delay BURST num_words w - w_remaining_cycles w
           in if counted_cycles < w_lat_d w then Inr 0
              else Inr (1 + (counted_cycles - w_lat_d w) div w_throughput_d w))"

definition w_behavior :: "wheeled_mem \<Rightarrow> wheeled_mem" where
  "w_behavior w =
     (if w_remaining_cycles w \<noteq> 0 then w\<lparr>w_remaining_cycles := w_remaining_cycles w - 1\<rparr> else w)"

subsection \<open>The wheel of the core\<close>

text \<open>
  The memory controller builds the wheel with latency 14 and throughput 4, so the window is
  19 cycles and the rotation 114.  No access of the core ever leaves \<open>w_accessing\<close> set:
  the delay of an access is positive, so the helper clears it.
\<close>

definition wheel_ready :: "wheeled_mem \<Rightarrow> bool" where
  "wheel_ready w \<longleftrightarrow> \<not> w_accessing w \<and> w_lat_d w = 14 \<and> w_throughput_d w = 4 \<and> w_MEMORY_WINDOW w = 19"

text \<open>The timing of that wheel alone, an access under way or not.\<close>

definition wheel_timed :: "wheeled_mem \<Rightarrow> bool" where
  "wheel_timed w \<longleftrightarrow> w_lat_d w = 14 \<and> w_throughput_d w = 4 \<and> w_MEMORY_WINDOW w = 19"

lemma wheel_ready_timed: "wheel_ready w \<longleftrightarrow> wheel_timed w \<and> \<not> w_accessing w"
  by (auto simp: wheel_ready_def wheel_timed_def)

text \<open>The schedule, as a function of the cycle alone.\<close>

definition slot_owner :: "u32 \<Rightarrow> nat" where
  "slot_owner c = (1 + (unat c mod 114) div 19) mod 6"

definition may_start :: "u32 \<Rightarrow> nat \<Rightarrow> bool" where
  "may_start c tid \<longleftrightarrow> tid = slot_owner c \<and> unat c mod 19 \<le> 5"

lemma wheel_ready_new: "wheel_ready (new_wheeled_mem 14 4)"
  by (simp add: wheel_ready_def new_wheeled_mem_def new_wheeled_mem_window_def ROUND_UP_def)

lemma current_thread_timed: "wheel_timed w \<Longrightarrow> current_thread c w = int (slot_owner c)"
proof -
  assume w: "wheel_timed w"
  have "uint (c mod 114) = int (unat c mod 114)" by (simp add: uint_mod zmod_int)
  then have "current_thread c w = (1 + int (unat c mod 114) div 19) mod 6"
    using w by (simp add: current_thread_def wheel_timed_def)
  also have "\<dots> = int (slot_owner c)" unfolding slot_owner_def zmod_int zdiv_int of_nat_add by simp
  finally show ?thesis .
qed

lemma current_thread_owner: "wheel_ready w \<Longrightarrow> current_thread c w = int (slot_owner c)"
  by (simp add: wheel_ready_timed current_thread_timed)

lemma window_start: "((c::u32) mod 19 \<le> 5) = (unat c mod 19 \<le> 5)"
  by (simp add: word_le_nat_alt unat_mod)

lemma is_scheduled_may_start: "wheel_ready w \<Longrightarrow> is_scheduled acc tid c w = may_start c tid"
  using window_start [of c] current_thread_owner [of w c]
  by (simp add: is_scheduled_def may_start_def get_delay_def wheel_ready_def)

lemma is_stalled_helper_ready:
  assumes "wheel_ready w" "0 < n"
  shows "is_stalled_helper acc tid a n c w = Inr
    (if may_start c tid then (w\<lparr>w_remaining_cycles := 14 + 4 * (n - 1), w_requested_addr := a\<rparr>, False) else (w, True))"
  using assms is_scheduled_may_start [OF assms(1), of acc tid c] current_thread_owner [OF assms(1), of c]
  by (auto simp: is_stalled_helper_def Let_def wheel_ready_def get_delay_def may_start_def)

lemma wheel_ready_updates [simp]:
  "wheel_ready (w\<lparr>w_remaining_cycles := r, w_requested_addr := a\<rparr>) = wheel_ready w"
  "wheel_ready (w\<lparr>w_remaining_cycles := r\<rparr>) = wheel_ready w"
  "wheel_ready (w\<lparr>w_mem := m\<rparr>) = wheel_ready w"
  by (simp_all add: wheel_ready_def)

lemma w_read_ready:
  "wheel_ready w \<Longrightarrow> w_read c tid a w = Inr
     (if may_start c tid then (w\<lparr>w_remaining_cycles := 14, w_requested_addr := a\<rparr>, mem_at (w_mem w) a, False)
      else (w, mem_at (w_mem w) a, True))"
  by (simp add: w_read_def w_is_stalled_def is_stalled_helper_ready)

lemma w_write_ready:
  "wheel_ready w \<Longrightarrow> w_write c tid a v w = Inr
     (if may_start c tid
      then (w\<lparr>w_remaining_cycles := 14, w_requested_addr := a, w_mem := add_address a v (w_mem w)\<rparr>, False)
      else (w, True))"
  by (simp add: w_write_def w_is_stalled_def is_stalled_helper_ready)

interpretation wheel: mem_location w_read w_write w_mem wheel_ready
  by unfold_locales (auto simp: w_read_ready w_write_ready wheel_ready_def)

lemma read_burst_ready:
  "wheel_ready w \<Longrightarrow> 0 < n \<Longrightarrow> read_burst c tid a n w = Inr
     (if may_start c tid then w\<lparr>w_remaining_cycles := 14 + 4 * (int n - 1), w_requested_addr := a\<rparr> else w,
      burst_loop n a (a + 4 * of_nat n) (w_mem w), \<not> may_start c tid)"
  by (simp add: read_burst_def is_stalled_burst_def is_stalled_helper_ready)

lemma wheel_ready_behavior: "wheel_ready w \<Longrightarrow> wheel_ready (w_behavior w)"
  by (simp add: w_behavior_def)

subsection \<open>Temporal isolation\<close>

text \<open>
  A thread's accesses are started by the cycle count alone, once per rotation of 114 cycles
  at the pipeline slot of the thread (the cycles equal modulo six): \<open>start_slot\<close>.
\<close>

definition start_slot :: "nat \<Rightarrow> nat \<Rightarrow> nat" where
  "start_slot t r = (let k = (t + 5) mod 6 in 19 * k + (r + 5 * k) mod 6)"

lemma slot_table:
  "list_all (\<lambda>q. list_all (\<lambda>r. list_all (\<lambda>s. ((q + s) mod 6 = r) = (s = (r + 5 * q) mod 6) \<and>
     (r = (1 + q) mod 6) = (q = (r + 5) mod 6)) [0..<6]) [0..<6]) [0..<6]"
  by code_simp

lemma slot_arith:
  fixes t r q s :: nat
  assumes "t < 6" "r < 6" "q < 6" "s < 6"
  shows "((q + s) mod 6 = r) = (s = (r + 5 * q) mod 6)" "(t = (1 + q) mod 6) = (q = (t + 5) mod 6)"
  using slot_table [unfolded list_all_iff, rule_format, of q r s]
    slot_table [unfolded list_all_iff, rule_format, of q t s] assms by simp_all

lemma start_slot_unique:
  assumes "t < 6" "r < 6" "m < 114"
  shows "(m mod 6 = r \<and> t = (1 + m div 19) mod 6 \<and> m mod 19 \<le> 5) = (m = start_slot t r)"
proof -
  define q s where "q = m div 19" and "s = m mod 19"
  have m: "m = 19 * q + s" and q: "q < 6" using assms(3) by (auto simp: q_def s_def)
  have "m mod 6 = (q + s + 6 * (3 * q)) mod 6" unfolding m by (simp add: algebra_simps)
  then have m6: "m mod 6 = (q + s) mod 6" by (simp only: mod_mult_self2)
  have slot: "m = 19 * k + x \<longleftrightarrow> q = k \<and> s = x" if "x < 6" for k x
    unfolding q_def s_def using that by auto
  have "m = start_slot t r \<longleftrightarrow> q = (t + 5) mod 6 \<and> s = (r + 5 * ((t + 5) mod 6)) mod 6"
    unfolding start_slot_def Let_def by (rule slot) simp
  moreover have "s = (r + 5 * ((t + 5) mod 6)) mod 6 \<Longrightarrow> s < 6" by simp
  ultimately show ?thesis
    using slot_arith [OF assms(1,2) q, of s]
    unfolding m6 q_def [symmetric] s_def [symmetric] by (cases "s < 6") auto
qed

lemma start_slot_bound: "start_slot t r < 114"
proof -
  have "(t + 5) mod 6 < 6" "(r + 5 * ((t + 5) mod 6)) mod 6 < 6" by simp_all
  then show ?thesis unfolding start_slot_def Let_def by linarith
qed

lemma may_start_slot:
  assumes "t < 6" "r < 6"
  shows "unat c mod 6 = r \<and> may_start c t \<longleftrightarrow> unat c mod 114 = start_slot t r"
proof -
  have "unat c mod 114 mod 6 = unat c mod 6" "unat c mod 114 mod 19 = unat c mod 19"
    by (simp_all add: mod_mod_cancel)
  then show ?thesis
    using start_slot_unique [OF assms, of "unat c mod 114"]
    unfolding may_start_def slot_owner_def by auto
qed

text \<open>In every rotation each thread has one start cycle at its pipeline slot.\<close>

lemma unique_residue: "k < n \<Longrightarrow> \<exists>!x. b \<le> x \<and> x < b + n \<and> x mod n = (k::nat)"
proof -
  assume k: "k < n"
  let ?x = "b + (k + (n - b mod n)) mod n"
  have "b mod n < n" using k by (intro mod_less_divisor) simp
  then have n: "b mod n + (k + (n - b mod n)) = k + n" by simp
  have "?x mod n = (b mod n + (k + (n - b mod n))) mod n" by (simp only: mod_simps)
  also have "\<dots> = k" using k unfolding n by simp
  finally have x: "?x mod n = k" .
  have le: "z \<le> y" if "y \<le> z" "z < y + n" "y mod n = z mod n" for y z
  proof (rule ccontr)
    assume n: "\<not> z \<le> y"
    then have "n dvd z - y" using that mod_eq_dvd_iff_nat [of y z n] by auto
    with n have "n \<le> z - y" by (intro dvd_imp_le) auto
    with that n show False by auto
  qed
  have uniq: "y = z" if "b \<le> y" "y < b + n" "b \<le> z" "z < b + n" "y mod n = z mod n" for y z
  proof -
    have "z < y + n" "y < z + n" using that(1-4) by linarith+
    then show ?thesis
      using le [of y z, OF _ _ that(5)] le [of z y, OF _ _ that(5) [symmetric]] by (meson le_antisym nle_le)
  qed
  have "(k + (n - b mod n)) mod n < n" using k by (intro mod_less_divisor) simp
  with x have ex: "b \<le> ?x \<and> ?x < b + n \<and> ?x mod n = k" by simp
  then obtain x0 where x0: "b \<le> x0" "x0 < b + n" "x0 mod n = k" by blast
  show ?thesis
  proof (rule ex1I)
    show "b \<le> x0 \<and> x0 < b + n \<and> x0 mod n = k" using x0 by blast
  next
    fix y assume y: "b \<le> y \<and> y < b + n \<and> y mod n = k"
    show "y = x0" by (rule uniq) (use x0 y in blast)+
  qed
qed

lemma start_unique:
  assumes "t < 6" "r < 6" "b + 114 \<le> 2 ^ 32"
  shows "\<exists>!c. b \<le> c \<and> c < b + 114 \<and> c mod 6 = r \<and> may_start (of_nat c) t"
proof -
  have "c mod 6 = r \<and> may_start (of_nat c) t \<longleftrightarrow> c mod 114 = start_slot t r" if "c < b + 114" for c
  proof -
    have "unat (of_nat c :: u32) = c" using that assms(3) by (simp add: unat_of_nat take_bit_nat_eq_self)
    then show ?thesis using may_start_slot [OF assms(1,2), of "of_nat c"] by simp
  qed
  then show ?thesis
    using unique_residue [OF start_slot_bound, of b t r] by (metis (no_types, lifting))
qed

text \<open>Whether an access is served, as the stages see it: the stall flag of the read.\<close>

definition served :: "u32 \<Rightarrow> nat \<Rightarrow> u32 \<Rightarrow> wheeled_mem \<Rightarrow> bool" where
  "served c tid a w = (case w_read c tid a w of Inl _ \<Rightarrow> False | Inr (w', v, stalled) \<Rightarrow> \<not> stalled)"

lemma served_may_start: "wheel_ready w \<Longrightarrow> served c t a w = may_start c t"
  by (simp add: served_def w_read_ready)

text \<open>
  C11: In every rotation of 114 cycles exactly one of the cycles at which a thread visits
  the memory stage starts its access.
\<close>

theorem one_start_per_rotation:
  assumes "wheel_ready w" "t < 6" "r < 6" "b + 114 \<le> 2 ^ 32"
  shows "\<exists>!c. b \<le> c \<and> c < b + 114 \<and> c mod 6 = r \<and> served (of_nat c) t a w"
  using start_unique [OF assms(2-4)] by (simp add: served_may_start [OF assms(1)])

text \<open>An access under way is served to the owner of the cycle alone, and at its own address.\<close>

lemma served_timed:
  assumes "wheel_timed w"
  shows "served c t a w \<longleftrightarrow>
    (if w_accessing w then t = slot_owner c \<and> 0 < w_remaining_cycles w \<and> a = w_requested_addr w else may_start c t)"
proof (cases "w_accessing w")
  case True
  then show ?thesis
    using current_thread_timed [OF assms, of c]
    by (auto simp: served_def w_read_def w_is_stalled_def is_stalled_helper_def Let_def)
next
  case False
  then show ?thesis using assms by (simp add: wheel_ready_timed served_may_start)
qed

text \<open>
  C10: In a cycle in which the wheel of the core serves one thread, it serves no other
  thread, at no address and in no state of the wheel, an access under way included; and when
  no access is under way, which is how every access of the core leaves the wheel, it serves
  that thread at every address: the timing of an access depends on the cycle and the thread
  alone.
\<close>

theorem slots_are_private:
  assumes "wheel_timed w" "wheel_timed w'" "served c t a w"
  shows "(served c t' a' w' \<longrightarrow> t' = t) \<and>
    (\<not> w_accessing w \<and> \<not> w_accessing w' \<longrightarrow> (served c t' a' w' \<longleftrightarrow> t' = t))"
  using assms by (auto simp: served_timed may_start_def split: if_splits)

text \<open>
  A thread that retries once per round of six cycles is served within 19 attempts, whatever
  the other threads do to the wheel in between.
\<close>

text \<open>
  C9: A thread that retries an access once per round of six cycles is served within 19
  attempts, whatever the other threads do to the memory wheel meanwhile (below the wrap of
  the cycle counter).
\<close>

theorem bounded_stall:
  assumes "t < 6" "b + 114 \<le> 2 ^ 32" "\<forall>k. wheel_ready (w k)"
  shows "\<exists>k<19. served (of_nat (b + 6 * k)) t (a k) (w k)"
proof -
  from start_unique [OF assms(1) _ assms(2), of "b mod 6"]
  obtain c where c: "b \<le> c" "c < b + 114" "c mod 6 = b mod 6" "may_start (of_nat c) t" by auto
  then have "6 dvd c - b" by (metis mod_eq_dvd_iff_nat)
  then obtain k where "c - b = 6 * k" ..
  with c have k: "c = b + 6 * k" "k < 19" by auto
  with c(4) assms(3) show ?thesis by (auto simp: served_may_start)
qed

end
