(* ===== verification/Memory_Controller.thy ===== *)
theory Memory_Controller
  imports L1_Scratch Mem_Mapped_Io Wheeled_Mem
begin

section \<open>The memory controller (include/memory\_controller.h, src/core/memory\_controller.cpp)\<close>

text \<open>
  Routes an access of a thread to its scratchpad, to the memory wheel or to memory-mapped
  I/O.  The three locations are components of the controller's state; the cycle count is
  an argument.  The lemmas prove that the controller as a whole meets the memory-location
  contract for each thread, whatever the other threads do.
\<close>

record memory_controller =
  mc_inst_scratchpad :: "l1_scratch list"
  mc_main_mem :: wheeled_mem
  mc_mem_mapped_io :: mem_mapped_io

definition new_memory_controller :: "bool \<Rightarrow> memory_controller" where
  "new_memory_controller can_open =
     \<lparr>mc_inst_scratchpad = replicate NUM_THREADS new_l1_scratch,
      mc_main_mem = new_wheeled_mem (MEM_DELAY - 1) BURST_DELAY,
      mc_mem_mapped_io = new_mem_mapped_io can_open\<rparr>"

definition is_main_mem :: "u32 \<Rightarrow> bool" where
  "is_main_mem addr = (addr < 0x80000000)"

definition main_loc_read ::
  "u32 \<Rightarrow> nat \<Rightarrow> u32 \<Rightarrow> memory_controller \<Rightarrow> sim_error + (memory_controller \<times> u32 \<times> bool)" where
  "main_loc_read cycles tid addr mc =
     (if is_main_mem addr
      then andThen (w_read cycles tid addr (mc_main_mem mc)) (\<lambda>(w, data, stalled).
             Inr (mc\<lparr>mc_main_mem := w\<rparr>, data, stalled))
      else case io_read tid addr (mc_mem_mapped_io mc) of (data, stalled) \<Rightarrow> Inr (mc, data, stalled))"

definition main_loc_write ::
  "u32 \<Rightarrow> nat \<Rightarrow> u32 \<Rightarrow> u32 \<Rightarrow> memory_controller \<Rightarrow> sim_error + (memory_controller \<times> bool)" where
  "main_loc_write cycles tid addr data mc =
     (if is_main_mem addr
      then andThen (w_write cycles tid addr data (mc_main_mem mc)) (\<lambda>(w, stalled).
             Inr (mc\<lparr>mc_main_mem := w\<rparr>, stalled))
      else case io_write tid addr data (mc_mem_mapped_io mc) of (io, stalled) \<Rightarrow>
             Inr (mc\<lparr>mc_mem_mapped_io := io\<rparr>, stalled))"

definition mc_read_data ::
  "u32 \<Rightarrow> nat \<Rightarrow> u32 \<Rightarrow> memory_controller \<Rightarrow> sim_error + (memory_controller \<times> u32 \<times> bool)" where
  "mc_read_data cycles tid addr mc =
     andThen (array_get (mc_inst_scratchpad mc) tid) (\<lambda>spm.
       if \<not> is_addr_in_spm addr spm then main_loc_read cycles tid addr mc
       else case l1_read addr spm of (data, stalled) \<Rightarrow> Inr (mc, data, stalled))"

definition read_inst ::
  "u32 \<Rightarrow> nat \<Rightarrow> u32 \<Rightarrow> bool \<Rightarrow> memory_controller \<Rightarrow> sim_error + (memory_controller \<times> u32 \<times> bool)" where
  "read_inst cycles tid addr stalled mc =
     (if tid \<ge> MAX_THREAD then Inr (mc, 0x01000000, stalled)
      else mc_read_data cycles tid addr mc)"

definition mc_write_data ::
  "u32 \<Rightarrow> nat \<Rightarrow> u32 \<Rightarrow> u32 \<Rightarrow> memory_controller \<Rightarrow> sim_error + (memory_controller \<times> bool)" where
  "mc_write_data cycles tid addr data mc =
     andThen (array_get (mc_inst_scratchpad mc) tid) (\<lambda>spm.
       if \<not> is_addr_in_spm addr spm then main_loc_write cycles tid addr data mc
       else case l1_write addr data spm of (spm', stalled) \<Rightarrow>
              Inr (mc\<lparr>mc_inst_scratchpad := (mc_inst_scratchpad mc)[tid := spm']\<rparr>, stalled))"

definition mc_behavior :: "memory_controller \<Rightarrow> memory_controller" where
  "mc_behavior mc = mc\<lparr>mc_main_mem := w_behavior (mc_main_mem mc)\<rparr>"

subsection \<open>What the controller promises\<close>

definition wf_mc :: "memory_controller \<Rightarrow> bool" where
  "wf_mc mc \<longleftrightarrow> length (mc_inst_scratchpad mc) = NUM_THREADS \<and> wheel_ready (mc_main_mem mc) \<and>
     list_all wf_scratch (mc_inst_scratchpad mc)"

text \<open>The memory that thread \<open>tid\<close> sees: its scratchpad over the shared locations.\<close>

definition in_spm :: "nat \<Rightarrow> u32 \<Rightarrow> memory_controller \<Rightarrow> bool" where
  "in_spm tid addr mc = is_addr_in_spm addr (mc_inst_scratchpad mc ! tid)"

definition thread_view :: "nat \<Rightarrow> memory_controller \<Rightarrow> u32 \<Rightarrow> u32" where
  "thread_view tid mc addr =
     (if in_spm tid addr mc then mem_at (l1_mem (mc_inst_scratchpad mc ! tid)) addr
      else if is_main_mem addr then mem_at (w_mem (mc_main_mem mc)) addr
      else mem_at (io_mem (mc_mem_mapped_io mc)) addr)"

text \<open>When an access of the thread stalls: at an address of main memory, outside its cycles.\<close>

definition access_stalls :: "u32 \<Rightarrow> nat \<Rightarrow> u32 \<Rightarrow> memory_controller \<Rightarrow> bool" where
  "access_stalls cycles tid addr mc \<longleftrightarrow>
     \<not> in_spm tid addr mc \<and> is_main_mem addr \<and> \<not> may_start cycles tid"

lemma wf_new_memory_controller: "wf_mc (new_memory_controller ok)"
  using wheel_ready_new
  by (simp add: wf_mc_def new_memory_controller_def wf_new_l1_scratch list_all_iff)

lemma wf_mc_behavior: "wf_mc mc \<Longrightarrow> wf_mc (mc_behavior mc)"
  by (simp add: wf_mc_def mc_behavior_def wheel_ready_behavior)

lemma mc_read_data_result:
  assumes "wf_mc mc" "tid < 6"
  obtains mc' where "mc_read_data cycles tid addr mc = Inr (mc', thread_view tid mc addr, access_stalls cycles tid addr mc)"
    "wf_mc mc'" "\<And>t. thread_view t mc' = thread_view t mc"
    "mc_inst_scratchpad mc' = mc_inst_scratchpad mc" "w_mem (mc_main_mem mc') = w_mem (mc_main_mem mc)" 
    "mc_mem_mapped_io mc' = mc_mem_mapped_io mc"
proof -
  define spm where "spm = mc_inst_scratchpad mc ! tid"
  have get: "array_get (mc_inst_scratchpad mc) tid = Inr spm"
    using assms by (simp add: wf_mc_def spm_def)
  have w: "wheel_ready (mc_main_mem mc)" using assms(1) by (simp add: wf_mc_def)
  define mc' where "mc' = (if \<not> is_addr_in_spm addr spm \<and> is_main_mem addr \<and> may_start cycles tid
      then mc\<lparr>mc_main_mem := (mc_main_mem mc)\<lparr>w_remaining_cycles := 14, w_requested_addr := addr\<rparr>\<rparr> else mc)"
  have "mc_read_data cycles tid addr mc = Inr (mc', thread_view tid mc addr, access_stalls cycles tid addr mc)"
    using get w_read_ready [OF w, of cycles tid addr]
    by (auto simp: mc_read_data_def main_loc_read_def l1_read_def io_read_def io_is_stalled_def mc'_def
        thread_view_def access_stalls_def in_spm_def spm_def [symmetric])
  moreover have "wf_mc mc'" "\<And>t. thread_view t mc' = thread_view t mc"
    "mc_inst_scratchpad mc' = mc_inst_scratchpad mc" "w_mem (mc_main_mem mc') = w_mem (mc_main_mem mc)" 
    "mc_mem_mapped_io mc' = mc_mem_mapped_io mc"
    using assms(1) by (auto simp: mc'_def wf_mc_def thread_view_def in_spm_def)
  ultimately show ?thesis by (rule that)
qed

lemma thread_view_write:
  assumes "wf_mc mc" "tid < 6" "t < 6" "mc_write_data cycles tid addr data mc = Inr (mc', False)"
  shows "thread_view t mc' a =
    (if a = addr \<and> (if in_spm tid addr mc then t = tid else \<not> in_spm t addr mc) then data else thread_view t mc a)"
    and "wf_mc mc'"
proof -
  define spm where "spm = mc_inst_scratchpad mc ! tid"
  have get: "array_get (mc_inst_scratchpad mc) tid = Inr spm" and l: "length (mc_inst_scratchpad mc) = 6"
    using assms by (simp_all add: wf_mc_def spm_def)
  have w: "wheel_ready (mc_main_mem mc)" using assms(1) by (simp add: wf_mc_def)
  have spm: "is_addr_in_spm a (fst (l1_write addr data spm)) = is_addr_in_spm a spm"
     if "is_addr_in_spm addr spm" for a
    using that by (auto simp: l1_write_def is_addr_in_spm_def)
  show "thread_view t mc' a =
    (if a = addr \<and> (if in_spm tid addr mc then t = tid else \<not> in_spm t addr mc) then data else thread_view t mc a)"
  proof (cases "is_addr_in_spm addr spm")
    case True
    then have "mc' = mc\<lparr>mc_inst_scratchpad := (mc_inst_scratchpad mc)[tid := fst (l1_write addr data spm)]\<rparr>"
      using assms(4) get by (simp add: mc_write_data_def l1_write_def)
    then show ?thesis using True spm [OF True, of a] l assms(2,3)
      by (auto simp: thread_view_def in_spm_def spm_def nth_list_update l1_write_def mem_at_add)
  next
    case False
    then show ?thesis using assms(4) get w_write_ready [OF w, of cycles tid addr data] assms(3)
      by (auto simp: mc_write_data_def main_loc_write_def thread_view_def in_spm_def spm_def mem_at_add io_write_def
          io_is_stalled_def Let_def out_uart_def out_file_def split: if_splits)
  qed
  have "wf_scratch spm" using assms(1,2) by (simp add: wf_mc_def spm_def list_all_length)
  then show "wf_mc mc'"
    using assms(1,2,4) get w_write_ready [OF w, of cycles tid addr data] wf_l1_write [of spm addr data]
    by (auto simp: mc_write_data_def main_loc_write_def wf_mc_def l1_write_def io_write_def Let_def list_all_length
      nth_list_update split: if_splits prod.splits)
qed

lemma mc_write_stalls:
  assumes "wf_mc mc" "tid < 6"
  obtains mc' where "mc_write_data cycles tid addr data mc = Inr (mc', access_stalls cycles tid addr mc)"
    "access_stalls cycles tid addr mc \<Longrightarrow> mc' = mc"
proof -
  define spm where "spm = mc_inst_scratchpad mc ! tid"
  have get: "array_get (mc_inst_scratchpad mc) tid = Inr spm"
    using assms by (simp add: wf_mc_def spm_def)
  have w: "wheel_ready (mc_main_mem mc)" using assms(1) by (simp add: wf_mc_def)
  have "\<exists>mc'. mc_write_data cycles tid addr data mc = Inr (mc', access_stalls cycles tid addr mc) \<and>
      (access_stalls cycles tid addr mc \<longrightarrow> mc' = mc)"
    using get w_write_ready [OF w, of cycles tid addr data]
    by (auto simp: mc_write_data_def main_loc_write_def l1_write_def io_write_def io_is_stalled_def Let_def
        access_stalls_def in_spm_def spm_def [symmetric])
  then show ?thesis using that by blast
qed

end
