(* ===== verification/Front_End.thy ===== *)
theory Front_End
  imports Hw_Thread Memory_Controller
begin

section \<open>Fetch and decode (include/fetch.h, src/core/fetch.cpp, include/decode.h, src/core/decode.cpp)\<close>

text \<open>
  A stage takes the thread behind its input latch; the latch value itself is passed on
  unchanged by the core.  Fetch can end the simulation (\<open>throw 20\<close>), the third component.
\<close>

definition fetch_is_not_valid :: "hw_thread \<Rightarrow> bool" where
  "fetch_is_not_valid t \<longleftrightarrow> \<not> t_enabled t"

definition fetch_behavior ::
  "u32 \<Rightarrow> hw_thread \<Rightarrow> memory_controller \<Rightarrow> sim_error + (hw_thread \<times> memory_controller \<times> bool)" where
  "fetch_behavior cycles t mc =
     (if fetch_is_not_valid t then Inr (t, mc, False)
      else let t1 = upd_spec decrement_deadline_timers t
           in if t_memory_stalled t1 \<or> t_deadline_stalled t1 \<or> is_trapped t1 then Inr (t1, mc, False)
              else andThen (read_inst cycles (t_id t1) (t_pc t1) False mc) (\<lambda>(mc', instruction_bits, fetch_stall).
                let t2 = upd_inst (set_inst instruction_bits) (t1\<lparr>t_fetch_stalled := fetch_stall\<rparr>)
                in Inr (t2, mc', check_end_sim (t_inst t2))))"

definition decode_is_not_valid :: "hw_thread \<Rightarrow> bool" where
  "decode_is_not_valid t \<longleftrightarrow> \<not> t_enabled t \<or> t_fetch_stalled t"

definition decode_behavior :: "hw_thread \<Rightarrow> hw_thread" where
  "decode_behavior t = (if decode_is_not_valid t then t else upd_inst decode t)"

subsection \<open>What the front end promises\<close>

lemma fetch_total:
  assumes "wf_mc mc" "t_id t < 6"
  obtains t' mc' halt where "fetch_behavior cycles t mc = Inr (t', mc', halt)" "wf_mc mc'"
    "t_id t' = t_id t" "t_regs t' = t_regs t" "t_pc t' = t_pc t" "t_enabled t' = t_enabled t"
    "t_spec_regs t' = (if t_enabled t then decrement_deadline_timers (t_spec_regs t) else t_spec_regs t)"
    "\<And>u. thread_view u mc' = thread_view u mc"
proof (cases "fetch_is_not_valid t \<or> t_memory_stalled t \<or> t_deadline_stalled t \<or> is_trapped t")
  case True
  then show ?thesis using assms(1)
    by (intro that [of "if fetch_is_not_valid t then t else upd_spec decrement_deadline_timers t" mc False])
      (auto simp: fetch_behavior_def Let_def fetch_is_not_valid_def)
next
  case False
  obtain mc' where mc': "mc_read_data cycles (t_id t) (t_pc t) mc = Inr (mc', thread_view (t_id t) mc (t_pc t), access_stalls cycles (t_id t) (t_pc t) mc)"
    "wf_mc mc'" "\<And>u. thread_view u mc' = thread_view u mc"
    by (rule mc_read_data_result [OF assms, of cycles "t_pc t"]) blast
  let ?t = "upd_inst (set_inst (thread_view (t_id t) mc (t_pc t)))
      ((upd_spec decrement_deadline_timers t)\<lparr>t_fetch_stalled := access_stalls cycles (t_id t) (t_pc t) mc\<rparr>)"
  show ?thesis
  proof (rule that [of ?t mc' "check_end_sim (t_inst ?t)"])
    show "fetch_behavior cycles t mc = Inr (?t, mc', check_end_sim (t_inst ?t))"
      using False assms(2) mc'(1) by (simp add: fetch_behavior_def Let_def read_inst_def)
  qed (use False mc' in \<open>simp_all add: fetch_is_not_valid_def\<close>)
qed

lemma decode_behavior_frame:
  "t_id (decode_behavior t) = t_id t" "t_regs (decode_behavior t) = t_regs t"
  "t_spec_regs (decode_behavior t) = t_spec_regs t" "t_pc (decode_behavior t) = t_pc t"
  "t_enabled (decode_behavior t) = t_enabled t"
  by (simp_all add: decode_behavior_def)

end
