(* ===== verification/Regacc.thy ===== *)
theory Regacc
  imports Hw_Thread
begin

section \<open>Register access and the deadline instructions (include/regacc.h, src/core/regacc.cpp)\<close>

text \<open>
  Reads the operands, moves the window pointer, runs the deadline instruction that stalls
  a thread until its timer has run out, and turns a missed deadline into a trap.  The
  mailbox index \<open>rd - 8\<close> meets an array of one element (\<open>NUM_PLL_TIMERS\<close>): any other is an
  access outside the array.
\<close>

definition pll_index :: "hw_thread \<Rightarrow> nat" where
  "pll_index t = unat (i_rd (t_inst t) - 8)"

definition destination_phaselockloop_deadlines :: "hw_thread \<Rightarrow> sim_error + hw_thread" where
  "destination_phaselockloop_deadlines t =
     andThen (array_get (s_pll_load (t_spec_regs t)) (pll_index t)) (\<lambda>load.
       if load \<noteq> 0 then Inr (t\<lparr>t_deadline_stalled := True\<rparr>)
       else if \<not> s_pll_loaded (t_spec_regs t) then
         Inr (upd_spec (\<lambda>s. s\<lparr>s_pll_loaded := True\<rparr>)
               (upd_inst (\<lambda>i. i\<lparr>i_write_special_registers := True\<rparr>) (t\<lparr>t_deadline_stalled := True\<rparr>)))
       else Inr (upd_spec (\<lambda>s. s\<lparr>s_pll_loaded := False\<rparr>) t))"

definition set_dt_status :: "DT_STATUS \<Rightarrow> nat \<Rightarrow> special_reg \<Rightarrow> special_reg" where
  "set_dt_status st i s = s\<lparr>s_dt_status := (s_dt_status s)[i := st]\<rparr>"

definition destination_regular_deadlines :: "hw_thread \<Rightarrow> hw_thread" where
  "destination_regular_deadlines t =
     (let rd = unat (i_rd (t_inst t));
          deadload = truthy (i_rs1 (t_inst t) AND 0x1);
          deadbranch = truthy (i_rs1 (t_inst t) AND 0x2)
      in if sint (s_dt (t_spec_regs t) ! rd) \<le> 0 \<or> deadload
         then let t1 = (upd_inst (\<lambda>i. i\<lparr>i_write_special_registers := True\<rparr>) t)\<lparr>t_deadline_stalled := False\<rparr>
              in if deadbranch then upd_spec (set_dt_status SET rd) t1
                 else upd_spec (set_dt_status UNSET rd) t1
         else t\<lparr>t_deadline_stalled := True\<rparr>)"

definition deadline_instruction :: "hw_thread \<Rightarrow> sim_error + hw_thread" where
  "deadline_instruction t =
     (if i_select_special_register (t_inst t) = SREG_DT
      then if i_rd (t_inst t) > 7 then destination_phaselockloop_deadlines t
           else Inr (destination_regular_deadlines t)
      else Inr t)"

definition check_deadline :: "hw_thread \<Rightarrow> hw_thread" where
  "check_deadline t =
     (case missed_deadline (t_spec_regs t) of
        Some i \<Rightarrow> if \<not> is_trapped t then t\<lparr>t_trapped := XCPT_TRAPPED, t_trap_type := 0x70 + of_nat i\<rparr> else t
      | None \<Rightarrow> t)"

definition double_word_instruction :: "hw_thread \<Rightarrow> hw_thread" where
  "double_word_instruction t =
     (let rs1_value = get_reg (t_regs t) (i_rs1 (t_inst t)) (s_curr_wp (t_spec_regs t))
      in if t_db_word_stalled t \<and> \<not> t_deadline_stalled t
         then (upd_inst (\<lambda>i. i\<lparr>i_rd := i_rd i + 1, i_op1_value := rs1_value + 4, i_db_word_instruction := False\<rparr>) t)
                \<lparr>t_db_word_stalled := False\<rparr>
         else upd_inst (\<lambda>i. i\<lparr>i_op1_value := rs1_value\<rparr>) t)"

definition immediate_instruction :: "hw_thread \<Rightarrow> hw_thread" where
  "immediate_instruction t =
     (if i_use_imm (t_inst t)
      then upd_inst (\<lambda>i. i\<lparr>i_op2_value := i_imm i\<rparr>) t
      else upd_inst (\<lambda>i. i\<lparr>i_op2_value := get_reg (t_regs t) (i_rs2 i) (s_curr_wp (t_spec_regs t))\<rparr>) t)"

definition regacc_is_not_valid :: "hw_thread \<Rightarrow> bool" where
  "regacc_is_not_valid t \<longleftrightarrow> \<not> t_enabled t \<or> t_fetch_stalled t"

definition regacc_behavior :: "hw_thread \<Rightarrow> sim_error + hw_thread" where
  "regacc_behavior t =
     (if regacc_is_not_valid t then Inr t
      else andThen (deadline_instruction t) (\<lambda>t1.
        let t4 = immediate_instruction (double_word_instruction (check_deadline t1));
            t5 = upd_inst (\<lambda>i. i\<lparr>i_op3_value := get_reg (t_regs t4) (i_rd i) (s_curr_wp (t_spec_regs t4))\<rparr>) t4;
            t6 = upd_spec (\<lambda>s. s\<lparr>s_curr_wp := s_curr_wp s + i_increment_window_pointer (t_inst t5)\<rparr>) t5
        in Inr (upd_spec (\<lambda>s. s\<lparr>s_curr_wp := s_curr_wp s mod of_nat REGISTER_WINDOWS\<rparr>) t6)))"

end
