(* ===== verification/Execute.thy ===== *)
theory Execute
  imports Hw_Thread
begin

section \<open>The execute stage (include/execute.h, src/core/execute.cpp)\<close>

text \<open>
  The ALU on 32-bit words, the condition codes it computes, and the stage itself.  The
  logical right shift of a negative operand is the source's loop of single shifts; the
  multiply step is the one of the SPARC V8 manual.
\<close>

fun srl_loop :: "nat \<Rightarrow> u32 \<Rightarrow> u32" where
  "srl_loop 0 r = r"
| "srl_loop (Suc n) r = srl_loop n (signed_drop_bit 1 r AND 0x7FFFFFFF)"

definition alu_srl :: "u32 \<Rightarrow> u32 \<Rightarrow> u32" where
  "alu_srl a b =
     (let signbit = truthy (a AND 0x80000000);
          shift_amount = unat (b AND 0x1F)
      in if signbit then srl_loop shift_amount a else signed_drop_bit shift_amount a)"

text \<open>One multiply step on \<open>rs1\<close>, \<open>rs2\<close>, \<open>Y\<close> and the condition codes: the shifted \<open>rs1\<close>, the sum and the new \<open>Y\<close>.\<close>

definition mulscc_step :: "u8 \<Rightarrow> u32 \<Rightarrow> u32 \<Rightarrow> u32 \<Rightarrow> u32 \<times> u32 \<times> u32" where
  "mulscc_step icc rs1_in rs2 y_in =
     (let lsb_rs1 = truthy (rs1_in AND 1);
          b = (truthy (icc AND 0x08) \<noteq> truthy (icc AND 0x02));
          rs1 = drop_bit 1 rs1_in OR push_bit 31 (of_flag b);
          rsd = (if \<not> truthy (y_in AND 0x00000001) then rs1 else rs1 + rs2);
          y = drop_bit 1 y_in OR push_bit 31 (of_flag lsb_rs1)
      in (rs1, rsd, y))"

definition alu_switch :: "hw_thread \<Rightarrow> hw_thread" where
  "alu_switch t =
     (let a = i_op1_value (t_inst t);
          b = i_op2_value (t_inst t);
          c = (if i_carry (t_inst t) then get_carry_bit (t_spec_regs t) else 0);
          result = (\<lambda>r. upd_inst (\<lambda>i. i\<lparr>i_alu_result := r\<rparr>) t)
      in case i_aluop (t_inst t) of
           ALU_ADD \<Rightarrow> result (a + b + c)
         | ALU_ADD_DEAD \<Rightarrow> result b
         | ALU_NOP \<Rightarrow> result 0
         | ALU_SUB \<Rightarrow> result (a - b - c)
         | ALU_AND \<Rightarrow> result (a AND b)
         | ALU_OR \<Rightarrow> result (a OR b)
         | ALU_XOR \<Rightarrow> result (a XOR b)
         | ALU_ANDN \<Rightarrow> result (a AND NOT b)
         | ALU_XNOR \<Rightarrow> result (NOT (a XOR b))
         | ALU_ORN \<Rightarrow> result (a OR NOT b)
         | ALU_SLL \<Rightarrow> result (push_bit (unat (b AND 0x1F)) a)
         | ALU_SRL \<Rightarrow> result (alu_srl a b)
         | ALU_SRA \<Rightarrow> result (signed_drop_bit (unat (b AND 0x1F)) a)
         | ALU_SETHI \<Rightarrow> result (push_bit 10 (i_disp22 (t_inst t)))
         | ALU_MUL \<Rightarrow>
             if i_signed_multiply (t_inst t) then
               (case mulscc_step (s_icc (t_spec_regs t)) a b (s_y (t_spec_regs t)) of
                  (rs1, rsd, y) \<Rightarrow>
                    upd_inst (\<lambda>i. i\<lparr>i_op1_value := rs1, i_op2_value := b, i_alu_result := rsd\<rparr>)
                      (upd_spec (\<lambda>s. s\<lparr>s_y := y\<rparr>) t))
             else t)"

text \<open>The sign of an \<open>int\<close> shifted right by 31 is \<open>-1\<close> or \<open>0\<close>; the tests below compare those.\<close>

definition sign31 :: "u32 \<Rightarrow> u32" where
  "sign31 w = signed_drop_bit 31 w"

definition geticc :: "instruction \<Rightarrow> u8" where
  "geticc i =
     (let r = i_alu_result i; a = i_op1_value i; b = i_op2_value i; op = i_aluop i;
          icc0 = i_icc i;
          icc1 = (if r = 0 then icc0 OR 0x4 else icc0);
          icc2 = (if sint r < 0 then icc1 OR 0x08 else icc1);
          icc3 = (if ((op = ALU_ADD \<or> op = ALU_MUL) \<and>
                        sign31 a = sign31 b \<and> sign31 a \<noteq> sign31 r) \<or>
                     (op = ALU_SUB \<and> sign31 a \<noteq> sign31 b \<and> sign31 a \<noteq> sign31 r)
                  then icc2 OR 0x2 else icc2);
          icc4 = (if ((op = ALU_ADD \<or> op = ALU_MUL) \<and>
                        ((truthy (sign31 a) \<and> truthy (sign31 b)) \<or>
                         (\<not> truthy (sign31 r) \<and> (truthy (sign31 a) \<or> truthy (sign31 b))))) \<or>
                     (op = ALU_SUB \<and>
                        ((\<not> truthy (sign31 a) \<and> \<not> truthy (sign31 (NOT b))) \<or>
                         ((\<not> truthy (sign31 a) \<or> \<not> truthy (sign31 (NOT b))) \<and> truthy (sign31 r))))
                  then icc3 OR 0x1 else icc3)
      in icc4)"

definition perform_alu_operations :: "hw_thread \<Rightarrow> hw_thread" where
  "perform_alu_operations t =
     (let t1 = alu_switch t
      in if i_write_icc (t_inst t1)
         then upd_inst (\<lambda>i. i\<lparr>i_icc := geticc i\<rparr>) t1
         else t1)"

definition execute_behavior :: "hw_thread \<Rightarrow> hw_thread" where
  "execute_behavior t =
     (if \<not> t_enabled t \<or> t_fetch_stalled t then t else perform_alu_operations t)"

subsection \<open>What the ALU promises\<close>

text \<open>The condition codes and results, against arithmetic on integers.\<close>

lemma uint_of_sint: "uint (w::u32) = (if sint w < 0 then sint w + 2 ^ 32 else sint w)"
proof -
  have b: "- (2 ^ 31) \<le> sint w" "sint w < 2 ^ 31" using sint_ge [of w] sint_lt [of w] by simp_all
  have "uint w = sint w mod 2 ^ 32" by (simp add: uint_sint take_bit_eq_mod)
  also have "\<dots> = (if sint w < 0 then sint w + 2 ^ 32 else sint w)"
  proof (cases "sint w < 0")
    case True
    have "sint w mod 2 ^ 32 = (sint w + 2 ^ 32) mod 2 ^ 32" by simp
    also have "\<dots> = sint w + 2 ^ 32" using b True by (intro mod_pos_pos_trivial) auto
    finally show ?thesis using True by simp
  next
    case False
    then show ?thesis using b by simp
  qed
  finally show ?thesis .
qed

lemma sint_range: "- (2 ^ 31) \<le> sint (w::u32)" "sint (w::u32) < 2 ^ 31"
  using sint_ge [of w] sint_lt [of w] by simp_all

lemma bit31_sint: "bit (w::u32) 31 \<longleftrightarrow> sint w < 0"
  using bit_last_iff [of w] by simp


lemma sign31_eq: "sign31 w = (if sint w < 0 then - 1 else 0)"
proof (rule bit_word_eqI)
  fix n assume "n < LENGTH(32)"
  then show "bit (sign31 w) n = bit (if sint w < 0 then - 1 else 0 :: u32) n"
    by (cases n) (simp_all add: sign31_def bit_simps bit31_sint)
qed

lemma sign31_simps:
  "truthy (sign31 w) \<longleftrightarrow> sint w < 0"
  "sign31 v = sign31 w \<longleftrightarrow> (sint v < 0 \<longleftrightarrow> sint w < 0)"
  by (simp_all add: sign31_eq truthy_def)

lemma sint_not: "sint (NOT (w::u32)) = - sint w - 1"
proof -
  have "sint (NOT w) = signed_take_bit 32 (NOT (sint w))"
    by (simp add: signed_not_eq)
  then show ?thesis
    using sint_range [of w] by (simp add: not_int_def signed_take_bit_int_eq_self)
qed

definition icc_flags :: "u8 \<Rightarrow> bool \<times> bool \<times> bool \<times> bool" where
  "icc_flags icc = (bit icc 3, bit icc 2, bit icc 1, bit icc 0)"


lemma icc_flags_set: "icc_flags (let x1 = (if z then (0::u8) OR 4 else 0); x2 = (if n then x1 OR 8 else x1); x3 = (if v then x2 OR 2 else x2);
      x4 = (if c then x3 OR 1 else x3) in x4) = (n, z, v, c)"
    by (cases z; cases n; cases v; cases c) (simp_all add: icc_flags_def)

lemma geticc_flags:
  assumes "i_icc i = 0"
  shows "icc_flags (geticc i) =
    (sint (i_alu_result i) < 0, i_alu_result i = 0,
     (i_aluop i = ALU_ADD \<or> i_aluop i = ALU_MUL) \<and>
        (sint (i_op1_value i) < 0 \<longleftrightarrow> sint (i_op2_value i) < 0) \<and> \<not> (sint (i_op1_value i) < 0 \<longleftrightarrow> sint (i_alu_result i) < 0) \<or>
     i_aluop i = ALU_SUB \<and> \<not> (sint (i_op1_value i) < 0 \<longleftrightarrow> sint (i_op2_value i) < 0) \<and>
        \<not> (sint (i_op1_value i) < 0 \<longleftrightarrow> sint (i_alu_result i) < 0),
     (i_aluop i = ALU_ADD \<or> i_aluop i = ALU_MUL) \<and>
        (sint (i_op1_value i) < 0 \<and> sint (i_op2_value i) < 0 \<or>
         \<not> sint (i_alu_result i) < 0 \<and> (sint (i_op1_value i) < 0 \<or> sint (i_op2_value i) < 0)) \<or>
     i_aluop i = ALU_SUB \<and>
        (\<not> sint (i_op1_value i) < 0 \<and> sint (i_op2_value i) < 0 \<or>
         (\<not> sint (i_op1_value i) < 0 \<or> sint (i_op2_value i) < 0) \<and> sint (i_alu_result i) < 0))"
proof -
  have "sint (NOT (i_op2_value i)) < 0 \<longleftrightarrow> \<not> sint (i_op2_value i) < 0"
    by (simp add: sint_not) arith
  then show ?thesis
    unfolding geticc_def Let_def assms icc_flags_set [unfolded Let_def] sign31_simps
    by simp
qed

lemma sint_eq_uint: "sint (w::u32) = (if uint w < 2 ^ 31 then uint w else uint w - 2 ^ 32)"
  using sint_range [of w] uint_of_sint [of w] by (auto split: if_splits)


lemma uint_range: "0 \<le> uint (w::u32)" "uint (w::u32) < 2 ^ 32"
  using uint_bounded [of w] by simp_all

lemma mod_word:
  assumes "- (2 ^ 33) \<le> (x::int)" "x < 2 ^ 33"
  shows "x mod 2 ^ 32 = (if x < - (2 ^ 32) then x + 2 ^ 33 else if x < 0 then x + 2 ^ 32 else if x < 2 ^ 32 then x else x - 2 ^ 32)"
proof -
  have m: "x mod 2 ^ 32 = y" if "0 \<le> y" "y < 2 ^ 32" "y = x + k * 2 ^ 32" for k y
    using that mod_pos_pos_trivial [of y "2 ^ 32"] by simp
  show ?thesis
    using assms m [of "x + 2 ^ 33" 2] m [of "x + 2 ^ 32" 1] m [of x 0] m [of "x - 2 ^ 32" "- 1"]
    by simp
qed

lemma uint_add3: "c \<le> (1::u32) \<Longrightarrow> uint (a + b + c) =
    (if uint a + uint b + uint c < 2 ^ 32 then uint a + uint b + uint c else uint a + uint b + uint c - 2 ^ 32)"
  using mod_word [of "uint a + uint b + uint c"] uint_range [of a] uint_range [of b] uint_range [of c]
  by (simp add: uint_word_ariths mod_simps word_le_def)

lemma sub_mod:
  assumes "0 \<le> x" "x < 2 ^ 32" "0 \<le> y" "y < 2 ^ 32" "0 \<le> z" "z \<le> (1::int)"
  shows "(x - y - z) mod 2 ^ 32 =
    (if x - y - z < - (2 ^ 32) then x - y - z + 2 ^ 33 else if x - y - z < 0 then x - y - z + 2 ^ 32 else x - y - z)"
  using assms by (subst mod_word) auto

lemma uint_sub3: "c \<le> (1::u32) \<Longrightarrow> uint (a - b - c) =
    (if uint a - uint b - uint c < - (2 ^ 32) then uint a - uint b - uint c + 2 ^ 33
     else if uint a - uint b - uint c < 0 then uint a - uint b - uint c + 2 ^ 32 else uint a - uint b - uint c)"
  using sub_mod [OF uint_range [of a] uint_range [of b], of "uint c"] uint_range(1) [of c]
  by (simp only: uint_word_ariths mod_simps word_le_def) simp

definition signed_range :: "int set" where
  "signed_range = {- (2 ^ 31) ..< 2 ^ 31}"

definition signed_of :: "int \<Rightarrow> int" where
  "signed_of x = (if x < 2 ^ 31 then x else x - 2 ^ 32)"

lemma add_flags_int:
  assumes "0 \<le> x" "x < 2 ^ 32" "0 \<le> y" "y < 2 ^ 32" "0 \<le> z" "z \<le> 1"
    and s: "s = (if x + y + z < 2 ^ 32 then x + y + z else x + y + z - 2 ^ 32)"
  shows "((signed_of x < 0 \<longleftrightarrow> signed_of y < 0) \<and> \<not> (signed_of x < 0 \<longleftrightarrow> signed_of s < 0)) =
      (signed_of x + signed_of y + z \<notin> signed_range)"
    and "(signed_of x < 0 \<and> signed_of y < 0 \<or> \<not> signed_of s < 0 \<and> (signed_of x < 0 \<or> signed_of y < 0)) =
      (2 ^ 32 \<le> x + y + z)"
  using assms by (auto simp: signed_of_def signed_range_def split: if_splits)

lemma sub_flags_int:
  assumes "0 \<le> x" "x < 2 ^ 32" "0 \<le> y" "y < 2 ^ 32" "0 \<le> z" "z \<le> 1"
    and s: "s = (if x - y - z < - (2 ^ 32) then x - y - z + 2 ^ 33 else if x - y - z < 0 then x - y - z + 2 ^ 32 else x - y - z)"
  shows "(\<not> (signed_of x < 0 \<longleftrightarrow> signed_of y < 0) \<and> \<not> (signed_of x < 0 \<longleftrightarrow> signed_of s < 0)) =
      (signed_of x - signed_of y - z \<notin> signed_range)"
    and "(\<not> signed_of x < 0 \<and> signed_of y < 0 \<or> (\<not> signed_of x < 0 \<or> signed_of y < 0) \<and> signed_of s < 0) =
      (x < y + z)"
  using assms by (auto simp: signed_of_def signed_range_def split: if_splits)

lemma sint_signed_of: "sint (w::u32) = signed_of (uint w)"
  by (simp add: sint_eq_uint signed_of_def)

lemmas add_flags = add_flags_int [OF uint_range uint_range _ _ uint_add3, folded sint_signed_of]
lemmas sub_flags = sub_flags_int [OF uint_range uint_range _ _ uint_sub3, folded sint_signed_of]

lemma carry_le_1: "(if k then get_carry_bit r else 0) \<le> 1" "0 \<le> uint (if k then get_carry_bit r else 0)" "uint (if k then get_carry_bit r else 0) \<le> 1"
  by (simp_all add: get_carry_bit_def)

definition carry_in :: "hw_thread \<Rightarrow> u32" where
  "carry_in t = (if i_carry (t_inst t) then get_carry_bit (t_spec_regs t) else 0)"

text \<open>
  An addition that sets the condition codes computes the sum modulo 2^32 and sets N, Z,
  V and C to sign, zero, signed overflow and unsigned carry out, carry in included.
\<close>

theorem alu_add_icc:
  assumes "i_aluop (t_inst t) = ALU_ADD" "i_write_icc (t_inst t)" "i_icc (t_inst t) = 0"
    "a = i_op1_value (t_inst t)" "b = i_op2_value (t_inst t)" "c = carry_in t"
    "r = i_alu_result (t_inst (perform_alu_operations t))"
  shows "r = a + b + c \<and> icc_flags (i_icc (t_inst (perform_alu_operations t))) =
     (sint r < 0, r = 0, sint a + sint b + uint c \<notin> signed_range, 2 ^ 32 \<le> uint a + uint b + uint c)"
  using assms add_flags [of "carry_in t" "i_op1_value (t_inst t)" "i_op2_value (t_inst t)"] carry_le_1 [of "i_carry (t_inst t)" "t_spec_regs t"]
  by (simp add: perform_alu_operations_def alu_switch_def Let_def geticc_flags carry_in_def)

lemma alu_sub_icc:
  assumes "i_aluop (t_inst t) = ALU_SUB" "i_write_icc (t_inst t)" "i_icc (t_inst t) = 0"
    "a = i_op1_value (t_inst t)" "b = i_op2_value (t_inst t)" "c = carry_in t"
    "r = i_alu_result (t_inst (perform_alu_operations t))"
  shows "icc_flags (i_icc (t_inst (perform_alu_operations t))) =
     (sint r < 0, r = 0, sint a - sint b - uint c \<notin> signed_range, uint a < uint b + uint c)"
    and "r = a - b - c"
  using assms sub_flags [of "carry_in t" "i_op1_value (t_inst t)" "i_op2_value (t_inst t)"] carry_le_1 [of "i_carry (t_inst t)" "t_spec_regs t"]
  by (simp_all add: perform_alu_operations_def alu_switch_def Let_def geticc_flags carry_in_def)


lemma srl_step: "signed_drop_bit 1 r AND 0x7FFFFFFF = drop_bit 1 (r::u32)"
proof -
  have "signed_drop_bit 1 r AND mask 31 = drop_bit 1 r"
    by (rule bit_word_eqI) (auto simp: bit_simps dest: bit_imp_le_length)
  then show ?thesis by (simp add: mask_eq_exp_minus_1)
qed

lemma srl_loop_drop: "srl_loop n r = drop_bit n r"
  by (induction n r rule: srl_loop.induct) (simp_all only: srl_loop.simps srl_step drop_bit_drop_bit, simp_all)

lemma sra_nonneg: "\<not> bit (w::u32) 31 \<Longrightarrow> signed_drop_bit n w = drop_bit n w"
  by (rule bit_word_eqI) (auto simp: bit_simps dest: bit_imp_le_length)

text \<open>
  The logical right shift, a loop of masked arithmetic shifts when the operand is
  negative, is the shift of the word by the low five bits of the count.
\<close>

theorem alu_srl_eq: "alu_srl a b = drop_bit (unat (b AND 0x1F)) a"
  using truthy_and_bit [of 31 a] by (simp add: alu_srl_def srl_loop_drop Let_def sra_nonneg)

subsection \<open>The multiply step\<close>

text \<open>
  A product is a sequence of multiply steps: each shifts the accumulator right by one bit
  and adds the multiplicand when the bit of the multiplier in \<open>Y\<close> asks for it.
\<close>


lemma shift_in_uint: "uint (drop_bit 1 a OR push_bit 31 (of_flag n) :: u32) = uint a div 2 + 2 ^ 31 * of_bool n"
proof -
  have "drop_bit 1 a OR push_bit 31 (of_flag n) = drop_bit 1 a + push_bit 31 (of_flag n :: u32)"
    by (rule disjunctive_add [symmetric]) (auto simp: bit_simps dest: bit_imp_le_length)
  moreover have "uint (drop_bit 1 a) = uint a div 2"
    using uint_div_distrib [of a 2] by (simp add: drop_bit_eq_div)
  moreover have "uint (push_bit 31 (of_flag n :: u32)) = 2 ^ 31 * of_bool n" by (simp add: of_flag_def)
  ultimately show ?thesis using uint_range [of a]
    by (cases n) (simp_all only: uint_word_ariths, simp_all)
qed

lemma shift_in_sint: "sint (drop_bit 1 a OR push_bit 31 (of_flag n) :: u32) = (uint a - 2 ^ 32 * of_bool n) div 2"
  using uint_range [of a] by (cases n) (simp_all only: sint_signed_of shift_in_uint, auto simp: signed_of_def)

lemma value33_add_int:
  assumes "0 \<le> x" "x < 2 ^ 32" "0 \<le> y" "y < 2 ^ 32" 
    and s: "s = (if x + y < 2 ^ 32 then x + y else x + y - 2 ^ 32)"
  shows "s - 2 ^ 32 * of_bool ((signed_of s < 0) \<noteq> (signed_of x + signed_of y \<notin> signed_range)) = signed_of x + signed_of y"
  using assms by (auto simp: signed_of_def signed_range_def split: if_splits)

text \<open>
  The 33-bit value of a partial product: \<open>N \<noteq> V\<close> is its sign bit, the register its low bits.
\<close>

definition sign33 :: "u8 \<Rightarrow> bool" where
  "sign33 icc \<longleftrightarrow> bit icc 3 \<noteq> bit icc 1"

definition value33 :: "u8 \<Rightarrow> u32 \<Rightarrow> int" where
  "value33 icc w = uint w - 2 ^ 32 * of_bool (sign33 icc)"

definition product :: "u8 \<Rightarrow> u32 \<Rightarrow> u32 \<Rightarrow> int" where
  "product icc w y = value33 icc w * 2 ^ 32 + uint y"

lemma truthy_and_bit8: "truthy ((w::u8) AND 8) = bit w 3" "truthy (w AND 2) = bit w 1"
  using and_exp_eq_0_iff_not_bit [of w 3]  and_exp_eq_0_iff_not_bit [of w 1] by (simp_all add: truthy_def)

definition multiply_round :: "u32 \<Rightarrow> hw_thread \<Rightarrow> hw_thread" where
  "multiply_round b t =
     (let t1 = perform_alu_operations (upd_inst (\<lambda>i. i\<lparr>i_aluop := ALU_MUL, i_signed_multiply := True, i_write_icc := True,
          i_icc := 0, i_op1_value := i_alu_result i, i_op2_value := b\<rparr>) t)
      in upd_spec (\<lambda>s. s\<lparr>s_icc := i_icc (t_inst t1)\<rparr>) t1)"

definition partial_product :: "hw_thread \<Rightarrow> int" where
  "partial_product t = product (s_icc (t_spec_regs t)) (i_alu_result (t_inst t)) (s_y (t_spec_regs t))"

lemma sign33_of_flags: "icc_flags icc = (n, z, v, c) \<Longrightarrow> sign33 icc = (n \<noteq> v)"
  by (auto simp: icc_flags_def sign33_def)

lemma value33_add:
  assumes "icc_flags icc = (sint r < 0, z, sint a + sint b \<notin> signed_range, c)" "r = a + b"
  shows "value33 icc r = sint a + sint b"
proof -
  have "uint r = (if uint a + uint b < 2 ^ 32 then uint a + uint b else uint a + uint b - 2 ^ 32)"
    using uint_add3 [of 0 a b] assms(2) by simp
  from value33_add_int [OF uint_range uint_range this]
  show ?thesis
    unfolding value33_def sign33_of_flags [OF assms(1)] sint_signed_of .
qed

lemma value33_noadd:
  assumes "icc_flags icc = (sint r < 0, z, False, c)"
  shows "value33 icc r = sint r"
  using uint_range [of r] unfolding value33_def sign33_of_flags [OF assms] sint_signed_of
  by (auto simp: signed_of_def)

lemma uint_odd: "truthy ((w::u32) AND 1) = odd (uint w)"
  using truthy_and_bit [of 0 w] bit_uint_iff [of w 0] by (simp add: bit_0)

lemma product_halves:
  fixes h h' l l' :: int
  assumes "h' = h div 2 + k" "l' = l div 2 + 2 ^ 31 * of_bool (odd h)"
  shows "h' * 2 ^ 32 + l' = (h * 2 ^ 32 + l) div 2 + k * 2 ^ 32"
proof -
  have "(h * 2 ^ 32 + l) div 2 = h * 2 ^ 31 + l div 2" by simp
  moreover have "h = 2 * (h div 2) + of_bool (odd h)" by (simp add: mult.commute flip: mod_2_eq_odd)
  ultimately show ?thesis using assms by (simp add: algebra_simps) 
qed

lemma multiply_round_step:
  "partial_product (multiply_round b t) =
    partial_product t div 2 + of_bool (odd (uint (s_y (t_spec_regs t)))) * sint b * 2 ^ 32"
proof -
  define icc w y where "icc = s_icc (t_spec_regs t)" and "w = i_alu_result (t_inst t)" and "y = s_y (t_spec_regs t)"
  define w' where "w' = drop_bit 1 w OR push_bit 31 (of_flag (sign33 icc))"
  define y' where "y' = drop_bit 1 y OR push_bit 31 (of_flag (odd (uint w)))"
  define r where "r = (if odd (uint y) then w' + b else w')"
  define i where "i = (t_inst t)\<lparr>i_aluop := ALU_MUL, i_signed_multiply := True, i_write_icc := True,
          i_icc := 0, i_op1_value := w', i_op2_value := b, i_alu_result := r\<rparr>"
  have m: "mulscc_step icc w b y = (w', r, y')"
    by (simp add: mulscc_step_def Let_def w'_def y'_def r_def truthy_and_bit8 sign33_def uint_odd)
  have mr: "t_inst (multiply_round b t) = i\<lparr>i_icc := geticc i\<rparr>" "s_icc (t_spec_regs (multiply_round b t)) = geticc i"
     "s_y (t_spec_regs (multiply_round b t)) = y'"
    using m by (simp_all add: multiply_round_def perform_alu_operations_def alu_switch_def Let_def i_def icc_def y_def w_def)
  have "value33 (geticc i) r = sint w' + of_bool (odd (uint y)) * sint b"
  proof (cases "odd (uint y)")
    case True
    then show ?thesis
      using add_flags [of 0 w' b] by (simp add: value33_add geticc_flags i_def r_def)
  next
    case False
    then show ?thesis
      by (simp add: value33_noadd geticc_flags i_def r_def)
  qed
  moreover have "sint w' = value33 icc w div 2"
    by (simp only: w'_def shift_in_sint value33_def)
  ultimately have hi: "value33 (geticc i) r = value33 icc w div 2 + of_bool (odd (uint y)) * sint b"
    by simp
  have "odd (uint w) = odd (value33 icc w)" by (simp add: value33_def)
  then have lo: "uint y' = uint y div 2 + 2 ^ 31 * of_bool (odd (value33 icc w))"
    by (simp only: y'_def shift_in_uint)
  show ?thesis
    using product_halves [OF hi lo] 
    by (simp add: partial_product_def product_def mr i_def flip: icc_def w_def y_def)
qed

fun multiply_rounds :: "nat \<Rightarrow> u32 \<Rightarrow> hw_thread \<Rightarrow> hw_thread" where
  "multiply_rounds 0 b t = t"
| "multiply_rounds (Suc n) b t = multiply_round b (multiply_rounds n b t)"

lemma uint_y_product: "uint (s_y (t_spec_regs t)) = partial_product t mod 2 ^ 32"
  using uint_range [of "s_y (t_spec_regs t)"] by (simp add: partial_product_def product_def)

lemma mod_pow_Suc: "(y::int) mod 2 ^ Suc n = y mod 2 ^ n + 2 ^ n * of_bool (odd (y div 2 ^ n))"
  by (simp add: power_Suc2 zmod_zmult2_eq mod_2_eq_odd del: power_Suc)

lemma div_pow_Suc: "(y::int) div 2 ^ Suc n = y div 2 ^ n div 2"
  by (simp add: power_Suc2 zdiv_zmult2_eq del: power_Suc)

lemma odd_mod_word: "odd ((x::int) mod 2 ^ 32) = odd x"
  by simp presburger

text \<open>
  After \<open>n\<close> rounds the accumulator holds the multiplicand times the low \<open>n\<close> bits of the
  multiplier, above the bits of the multiplier still to come.
\<close>

lemma multiply_rounds_value:
  assumes "value33 (s_icc (t_spec_regs t)) (i_alu_result (t_inst t)) = 0" "n \<le> 32"
    and y: "y = uint (s_y (t_spec_regs t))"
  shows "partial_product (multiply_rounds n b t) = (sint b * (y mod 2 ^ n)) * 2 ^ (33 - n) + y div 2 ^ n"
  using assms(2)
proof (induction n)
  case 0
  then show ?case using assms by (simp add: partial_product_def product_def)
next
  case (Suc n)
  let ?t = "multiply_rounds n b t"
  define m where "m = 32 - n"
  from Suc.prems have m: "33 - n = Suc m" "33 - Suc n = m" "m + n = 32" "0 < m" by (simp_all add: m_def)
  from Suc have P: "partial_product ?t = 2 * ((sint b * (y mod 2 ^ n)) * 2 ^ m) + y div 2 ^ n"
    by (simp add: m)
  have "odd (uint (s_y (t_spec_regs ?t))) = odd (partial_product ?t)"
    unfolding uint_y_product odd_mod_word ..
  also have "\<dots> = odd (y div 2 ^ n)" unfolding P by simp
  finally have o: "odd (uint (s_y (t_spec_regs ?t))) = odd (y div 2 ^ n)" .
  have "partial_product (multiply_rounds (Suc n) b t) =
      (sint b * (y mod 2 ^ n)) * 2 ^ m + y div 2 ^ n div 2 + of_bool (odd (y div 2 ^ n)) * sint b * 2 ^ (m + n)"
    unfolding multiply_rounds.simps multiply_round_step o unfolding P m by simp
  also have "\<dots> = (sint b * (y mod 2 ^ Suc n)) * 2 ^ m + y div 2 ^ Suc n"
    unfolding mod_pow_Suc div_pow_Suc by (simp add: algebra_simps power_add)
  finally show ?case unfolding m .
qed

text \<open>32 rounds with the multiplicand and one with zero leave the product in result and \<open>Y\<close>.\<close>

text \<open>
  C14: Thirty-two multiply-step instructions with the multiplicand and one with zero, from
  cleared condition codes and result, leave the signed-by-unsigned product of multiplicand
  and Y in the result and Y.
\<close>

theorem multiply_sequence:
  assumes "s_icc (t_spec_regs t) = 0" "i_alu_result (t_inst t) = 0"
  shows "partial_product (multiply_round 0 (multiply_rounds 32 b t)) = sint b * uint (s_y (t_spec_regs t))"
proof -
  have "value33 (s_icc (t_spec_regs t)) (i_alu_result (t_inst t)) = 0"
    using assms by (simp add: value33_def sign33_def)
  then show ?thesis
    using multiply_rounds_value [of t 32 _ b] uint_range [of "s_y (t_spec_regs t)"]
    by (simp add: multiply_round_step)
qed

end
