(* ===== verification/Mem_Stage.thy ===== *)
theory Mem_Stage
  imports Hw_Thread Memory_Controller
begin

section \<open>The memory stage (include/mem.h, src/core/mem.cpp)\<close>

text \<open>
  Loads and stores through the memory controller.  A stalled access leaves the thread
  marked \<open>memory_stalled\<close>; a store narrower than a word first reads the word it changes,
  and ignores that read's stall.
\<close>

definition mem_is_not_valid :: "hw_thread \<Rightarrow> bool" where
  "mem_is_not_valid t \<longleftrightarrow> \<not> t_enabled t \<or> t_fetch_stalled t"

definition mem_load :: "u32 \<Rightarrow> hw_thread \<Rightarrow> memory_controller \<Rightarrow> sim_error + (hw_thread \<times> memory_controller)" where
  "mem_load cycles t mc =
     (let addr = i_alu_result (t_inst t);
          aligned_addr = 4 * (addr div 4);
          addr_offset = unat (addr mod 4)
      in andThen (mc_read_data cycles (t_id t) aligned_addr mc) (\<lambda>(mc', raw_data, memory_stall).
           let t1 = t\<lparr>t_memory_stalled := memory_stall\<rparr>
           in if \<not> t_memory_stalled t1 then Inr (upd_inst (read_data raw_data addr_offset) t1, mc')
              else Inr (t1, mc')))"

definition mem_store :: "u32 \<Rightarrow> hw_thread \<Rightarrow> memory_controller \<Rightarrow> sim_error + (hw_thread \<times> memory_controller)" where
  "mem_store cycles t mc =
     (let addr = i_alu_result (t_inst t);
          aligned_addr = 4 * (addr div 4);
          addr_offset = unat (addr mod 4);
          old = (if i_memory_size (t_inst t) \<noteq> MEM_WORD
                 then andThen (mc_read_data cycles (t_id t) aligned_addr mc) (\<lambda>(mc', old_data, nul). Inr (mc', old_data))
                 else Inr (mc, 0xdeadbeef))
      in andThen old (\<lambda>(mc1, old_data).
         andThen (get_write_data old_data addr_offset (t_inst t)) (\<lambda>data_to_write.
         andThen (mc_write_data cycles (t_id t) aligned_addr data_to_write mc1) (\<lambda>(mc2, memory_stall).
           Inr (t\<lparr>t_memory_stalled := memory_stall\<rparr>, mc2)))))"

definition mem_behavior :: "u32 \<Rightarrow> hw_thread \<Rightarrow> memory_controller \<Rightarrow> sim_error + (hw_thread \<times> memory_controller)" where
  "mem_behavior cycles t mc =
     (if mem_is_not_valid t then Inr (t, mc)
      else if i_read_memory (t_inst t) then mem_load cycles t mc
      else if i_write_memory (t_inst t) then mem_store cycles t mc
      else Inr (t, mc))"

subsection \<open>What the memory stage promises\<close>

text \<open>
  A load or store that does not stall acts on the thread's own view of memory as the
  byte-lane functions say; \<open>aligned\<close> is the word of an address.
\<close>

definition aligned :: "u32 \<Rightarrow> u32" where
  "aligned a = 4 * (a div 4)"

lemma mem_load_result:
  assumes "wf_mc mc" "t_id t < 6"
  obtains mc' where "mem_load cycles t mc = Inr
     (if access_stalls cycles (t_id t) (aligned (i_alu_result (t_inst t))) mc then t\<lparr>t_memory_stalled := True\<rparr>
      else upd_inst (read_data (thread_view (t_id t) mc (aligned (i_alu_result (t_inst t)))) (unat (i_alu_result (t_inst t) mod 4)))
             (t\<lparr>t_memory_stalled := False\<rparr>), mc')"
    "wf_mc mc'" "\<And>u. thread_view u mc' = thread_view u mc"
proof -
  obtain mc' where "mc_read_data cycles (t_id t) (aligned (i_alu_result (t_inst t))) mc = Inr (mc', thread_view (t_id t) mc (aligned (i_alu_result (t_inst t))),
     access_stalls cycles (t_id t) (aligned (i_alu_result (t_inst t))) mc)"
    "wf_mc mc'" "\<And>u. thread_view u mc' = thread_view u mc"
    by (rule mc_read_data_result [OF assms]) blast
  then show ?thesis by (intro that [of mc']) (auto simp: mem_load_def Let_def aligned_def)
qed

definition store_word :: "memory_controller \<Rightarrow> hw_thread \<Rightarrow> u32" where
  "store_word mc t =
     (let a = i_alu_result (t_inst t);
          old = (if i_memory_size (t_inst t) \<noteq> MEM_WORD then thread_view (t_id t) mc (aligned a) else 0xdeadbeef)
      in case get_write_data old (unat (a mod 4)) (t_inst t) of Inr w \<Rightarrow> w | Inl e \<Rightarrow> 0)"

lemma mem_store_result:
  assumes wf: "wf_mc mc" "t_id t < 6"
    and fits: "lane_fits (i_memory_size (t_inst t)) (unat (i_alu_result (t_inst t) mod 4))"
    and a: "a = aligned (i_alu_result (t_inst t))"
    and stalls: "stalls = access_stalls cycles (t_id t) a mc"
  obtains mc' where "mem_store cycles t mc = Inr (t\<lparr>t_memory_stalled := stalls\<rparr>, mc')" "wf_mc mc'"
    "\<And>u b. u < 6 \<Longrightarrow> thread_view u mc' b =
       (if \<not> stalls \<and> b = a \<and> (if in_spm (t_id t) a mc then u = t_id t else \<not> in_spm u a mc) then store_word mc t
        else thread_view u mc b)"
proof -
  let ?ms = "i_memory_size (t_inst t)" and ?off = "unat (i_alu_result (t_inst t) mod 4)"
  define old where "old = (if ?ms \<noteq> MEM_WORD then thread_view (t_id t) mc a else 0xdeadbeef)"
  obtain mcr where mcr: "mc_read_data cycles (t_id t) a mc = Inr (mcr, thread_view (t_id t) mc a, stalls)" "wf_mc mcr"
    "\<And>u. thread_view u mcr = thread_view u mc" "mc_inst_scratchpad mcr = mc_inst_scratchpad mc"
    unfolding stalls by (rule mc_read_data_result [OF wf, of cycles a]) blast
  define mc1 where "mc1 = (if ?ms \<noteq> MEM_WORD then mcr else mc)"
  have mc1: "wf_mc mc1" "\<And>u. thread_view u mc1 = thread_view u mc" "\<And>u. in_spm u a mc1 = in_spm u a mc"
    "access_stalls cycles (t_id t) a mc1 = stalls"
    using mcr wf by (auto simp: mc1_def in_spm_def access_stalls_def stalls)
  have gw: "get_write_data old ?off (t_inst t) = Inr (store_word mc t)"
    using get_write_data_splice [OF fits] by (simp add: store_word_def Let_def old_def a [symmetric])
  obtain mc' where mc': "mc_write_data cycles (t_id t) a (store_word mc t) mc1 = Inr (mc', stalls)" "stalls \<Longrightarrow> mc' = mc1"
    using mc_write_stalls [OF mc1(1) wf(2), of cycles a "store_word mc t"] unfolding mc1(4) by metis
  show ?thesis
  proof (rule that)
    show "mem_store cycles t mc = Inr (t\<lparr>t_memory_stalled := stalls\<rparr>, mc')"
      using mcr(1) gw mc'(1) by (simp add: mem_store_def Let_def aligned_def [symmetric] a [symmetric] mc1_def old_def split: if_splits)
    show "wf_mc mc'"
      using mc' mc1 thread_view_write(2) [OF mc1(1) wf(2) wf(2)] by (cases stalls) auto
    show "thread_view u mc' b = (if \<not> stalls \<and> b = a \<and> (if in_spm (t_id t) a mc then u = t_id t else \<not> in_spm u a mc)
        then store_word mc t else thread_view u mc b)" if "u < 6" for u b
      using mc' mc1 thread_view_write(1) [OF mc1(1) wf(2) that, of cycles a "store_word mc t" mc' b]
      by (cases stalls) auto
  qed
qed

text \<open>
  C12: A load of the width and address of an earlier store of the same thread returns the
  stored value, extended as the load asks, when neither access stalls.
\<close>

theorem store_then_load:
  assumes wf: "wf_mc mc" "t_id t < 6" "t_id t' = t_id t"
    and fits: "lane_fits (i_memory_size (t_inst t)) (unat (i_alu_result (t_inst t) mod 4))"
    and addr: "i_alu_result (t_inst t') = i_alu_result (t_inst t)"
    and width: "lane_width (i_memory_size (t_inst t')) = lane_width (i_memory_size (t_inst t))"
    and st: "mem_store cycles t mc = Inr (t1, mc1)" "\<not> t_memory_stalled t1"
    and ld: "mem_load cycles' t' mc1 = Inr (t2, mc2)" "\<not> t_memory_stalled t2"
  shows "i_alu_result (t_inst t2) = extended (i_memory_size (t_inst t')) (i_op3_value (t_inst t))"
proof -
  let ?addr = "i_alu_result (t_inst t)"
  obtain mc1' where s: "mem_store cycles t mc = Inr (t\<lparr>t_memory_stalled := access_stalls cycles (t_id t) (aligned ?addr) mc\<rparr>, mc1')"
    "wf_mc mc1'" and v: "\<And>u b. u < 6 \<Longrightarrow> thread_view u mc1' b =
       (if \<not> access_stalls cycles (t_id t) (aligned ?addr) mc \<and> b = aligned ?addr \<and>
          (if in_spm (t_id t) (aligned ?addr) mc then u = t_id t else \<not> in_spm u (aligned ?addr) mc) then store_word mc t
        else thread_view u mc b)"
    by (rule mem_store_result [OF wf(1,2) fits refl refl]) blast
  with st have mc1: "mc1' = mc1" and ns: "\<not> access_stalls cycles (t_id t) (aligned ?addr) mc" by auto
  have view: "thread_view (t_id t) mc1 (aligned ?addr) = store_word mc t"
    using v [OF wf(2), of "aligned ?addr"] ns mc1 by auto
  obtain mc2' where l: "mem_load cycles' t' mc1 = Inr
     (if access_stalls cycles' (t_id t') (aligned ?addr) mc1 then t'\<lparr>t_memory_stalled := True\<rparr>
      else upd_inst (read_data (thread_view (t_id t') mc1 (aligned ?addr)) (unat (?addr mod 4)))
             (t'\<lparr>t_memory_stalled := False\<rparr>), mc2')"
    using mem_load_result [of mc1 t' cycles'] wf s(2) mc1 unfolding addr by metis
  then have "t2 = upd_inst (read_data (store_word mc t) (unat (?addr mod 4))) (t'\<lparr>t_memory_stalled := False\<rparr>)"
    using ld view wf(3) by (auto split: if_splits)
  moreover have "\<exists>old. get_write_data old (unat (?addr mod 4)) (t_inst t) = Inr (store_word mc t)"
    using get_write_data_splice [OF fits] by (auto simp: store_word_def Let_def)
  ultimately show ?thesis
    using store_load_lane [OF fits width] by auto
qed

end
