(* ===== verification/Dma.thy ===== *)
theory Dma
  imports Memory_Controller
begin

section \<open>The DMA unit (include/dma.h, include/dma\_if.h, src/core/dma.cpp)\<close>

text \<open>
  One transfer slot per thread.  The registered memory wheel and scratchpads are those of
  the memory controller, so the step works on the controller's state.
\<close>

datatype transfer_state_t = IDLE | COMPLETE | BUSY | SCHEDULED

record dma =
  d_mem_source_reg :: "u32 list"
  d_spm_target_reg :: "u32 list"
  d_transfer_complete :: "transfer_state_t list"
  d_received_data :: "u32 list list"

definition new_dma :: dma where
  "new_dma =
     \<lparr>d_mem_source_reg = replicate NUM_THREADS 0, d_spm_target_reg = replicate NUM_THREADS 0,
      d_transfer_complete = replicate NUM_THREADS IDLE, d_received_data = replicate NUM_THREADS []\<rparr>"

definition is_transfer_idle :: "nat \<Rightarrow> dma \<Rightarrow> bool" where
  "is_transfer_idle tid d = (d_transfer_complete d ! tid = IDLE)"

definition is_transfer_complete :: "nat \<Rightarrow> dma \<Rightarrow> bool" where
  "is_transfer_complete tid d = (d_transfer_complete d ! tid = COMPLETE)"

definition set_mem_source :: "nat \<Rightarrow> u32 \<Rightarrow> dma \<Rightarrow> dma" where
  "set_mem_source tid source d = d\<lparr>d_mem_source_reg := (d_mem_source_reg d)[tid := source]\<rparr>"

definition set_spm_target :: "nat \<Rightarrow> u32 \<Rightarrow> dma \<Rightarrow> dma" where
  "set_spm_target tid target d = d\<lparr>d_spm_target_reg := (d_spm_target_reg d)[tid := target]\<rparr>"

definition set_transfer_state :: "nat \<Rightarrow> transfer_state_t \<Rightarrow> dma \<Rightarrow> dma" where
  "set_transfer_state tid st d = d\<lparr>d_transfer_complete := (d_transfer_complete d)[tid := st]\<rparr>"

definition make_transfer :: "nat \<Rightarrow> dma \<Rightarrow> dma" where
  "make_transfer tid d = d\<lparr>d_transfer_complete := (d_transfer_complete d)[tid := BUSY]\<rparr>"

text \<open>The loop that moves the received words into the scratchpad.\<close>

fun dma_move :: "u32 \<Rightarrow> u32 \<Rightarrow> nat \<Rightarrow> u32 list \<Rightarrow> l1_scratch \<Rightarrow> l1_scratch" where
  "dma_move source target num_data [] spm = spm"
| "dma_move source target num_data (x # xs) spm =
     dma_move source target (Suc num_data) xs
       (add_addr (source + of_nat num_data * 4) (target + of_nat num_data * 4) x spm)"

definition dma_thread ::
  "u32 \<Rightarrow> nat \<Rightarrow> dma \<times> memory_controller \<Rightarrow> sim_error + (dma \<times> memory_controller)" where
  "dma_thread cycles tid = (\<lambda>(d, mc).
     if d_transfer_complete d ! tid = BUSY
     then andThen (read_burst cycles tid (d_mem_source_reg d ! tid) 4 (mc_main_mem mc)) (\<lambda>(w, received, stalled).
       let mc1 = mc\<lparr>mc_main_mem := w\<rparr>;
           d1 = d\<lparr>d_received_data := (d_received_data d)[tid := received]\<rparr>
       in if \<not> stalled
          then Inr (d1\<lparr>d_received_data := (d_received_data d1)[tid := []],
                       d_transfer_complete := (d_transfer_complete d1)[tid := IDLE]\<rparr>,
                    mc1\<lparr>mc_inst_scratchpad := (mc_inst_scratchpad mc1)[tid :=
                      dma_move (d_mem_source_reg d1 ! tid) (d_spm_target_reg d1 ! tid) 0 received
                        (mc_inst_scratchpad mc1 ! tid)]\<rparr>)
          else Inr (d1, mc1))
     else Inr (d, mc))"

fun dma_loop ::
  "u32 \<Rightarrow> nat list \<Rightarrow> dma \<times> memory_controller \<Rightarrow> sim_error + (dma \<times> memory_controller)" where
  "dma_loop cycles [] s = Inr s"
| "dma_loop cycles (tid # tids) s = andThen (dma_thread cycles tid s) (dma_loop cycles tids)"

definition dma_behavior ::
  "u32 \<Rightarrow> dma \<times> memory_controller \<Rightarrow> sim_error + (dma \<times> memory_controller)" where
  "dma_behavior cycles s = dma_loop cycles [0..<NUM_THREADS] s"

subsection \<open>What the DMA unit promises\<close>

definition wf_dma :: "dma \<Rightarrow> bool" where
  "wf_dma d \<longleftrightarrow> length (d_mem_source_reg d) = NUM_THREADS \<and> length (d_spm_target_reg d) = NUM_THREADS \<and>
     length (d_transfer_complete d) = NUM_THREADS \<and> length (d_received_data d) = NUM_THREADS"

lemma wf_new_dma: "wf_dma new_dma"
  by (simp add: wf_dma_def new_dma_def)

lemma wf_dma_move: "wf_scratch spm \<Longrightarrow> wf_scratch (dma_move source target n xs spm)"
  by (induction source target n xs spm rule: dma_move.induct) (simp_all add: wf_add_addr)

lemma dma_thread_wf:
  assumes "wf_mc mc" "wf_dma d" "tid < 6"
  obtains d' mc' where "dma_thread cycles tid (d, mc) = Inr (d', mc')" "wf_mc mc'" "wf_dma d'"
    "w_mem (mc_main_mem mc') = w_mem (mc_main_mem mc)" "mc_mem_mapped_io mc' = mc_mem_mapped_io mc"
    "\<And>t. t \<noteq> tid \<Longrightarrow> mc_inst_scratchpad mc' ! t = mc_inst_scratchpad mc ! t"
    "d_transfer_complete d ! tid \<noteq> BUSY \<Longrightarrow> mc' = mc"
proof -
  have w: "wheel_ready (mc_main_mem mc)" and l: "length (mc_inst_scratchpad mc) = 6"
    and s: "\<And>t. t < 6 \<Longrightarrow> wf_scratch (mc_inst_scratchpad mc ! t)"
    using assms(1) by (auto simp: wf_mc_def list_all_length)
  have "\<exists>d' mc'. dma_thread cycles tid (d, mc) = Inr (d', mc') \<and> wf_mc mc' \<and> wf_dma d' \<and>
    w_mem (mc_main_mem mc') = w_mem (mc_main_mem mc) \<and> mc_mem_mapped_io mc' = mc_mem_mapped_io mc \<and>
    (\<forall>t. t \<noteq> tid \<longrightarrow> mc_inst_scratchpad mc' ! t = mc_inst_scratchpad mc ! t) \<and>
    (d_transfer_complete d ! tid \<noteq> BUSY \<longrightarrow> mc' = mc)"
    using read_burst_ready [OF w, of 4 cycles tid "d_mem_source_reg d ! tid"] assms l s [OF assms(3)]
    by (auto simp: dma_thread_def wf_mc_def wf_dma_def Let_def list_all_length nth_list_update wf_dma_move)
  then show ?thesis using that by blast
qed

lemma dma_loop_wf:
  "wf_mc mc \<Longrightarrow> wf_dma d \<Longrightarrow> \<forall>t \<in> set tids. t < 6 \<Longrightarrow>
    \<exists>d' mc'. dma_loop cycles tids (d, mc) = Inr (d', mc') \<and> wf_mc mc' \<and> wf_dma d' \<and>
      w_mem (mc_main_mem mc') = w_mem (mc_main_mem mc) \<and> mc_mem_mapped_io mc' = mc_mem_mapped_io mc"
proof (induction tids arbitrary: d mc)
  case (Cons tid tids)
  from Cons.prems have "tid < 6" by simp
  obtain d1 mc1 where "dma_thread cycles tid (d, mc) = Inr (d1, mc1)" "wf_mc mc1" "wf_dma d1"
    "w_mem (mc_main_mem mc1) = w_mem (mc_main_mem mc)" "mc_mem_mapped_io mc1 = mc_mem_mapped_io mc"
    by (rule dma_thread_wf [OF Cons.prems(1,2) \<open>tid < 6\<close>, of cycles])
  with Cons.IH [of mc1 d1] Cons.prems show ?case by simp
qed simp

end
