(* ===== verification/Thread_Controller.thy ===== *)
theory Thread_Controller
  imports Hw_Thread
begin

section \<open>The thread controller (include/hw\_thread\_controller.h, src/core/hw\_thread\_controller.cpp)\<close>

text \<open>
  The pool of hardware threads, the round-robin counter that feeds the pipeline, the PLL
  step, and the table of the \<open>sync\<close> barrier: each row a mask, the threads still to arrive
  and the number of threads that passed.
\<close>

type_synonym sync_entry = "u16 \<times> u16 \<times> u16"
type_synonym sync_table = "sync_entry list"

record hw_thread_controller =
  tc_pool :: "hw_thread list"
  tc_sync_table :: sync_table
  tc_tcount :: u32

text \<open>\<open>junk i\<close> is what the window registers of thread \<open>i\<close> hold before the first write.\<close>

definition new_hw_thread_controller :: "(nat \<Rightarrow> u32 list) \<Rightarrow> hw_thread_controller" where
  "new_hw_thread_controller junk =
     \<lparr>tc_pool = map (\<lambda>i. (new_hw_thread (junk i) i 0x40000000)\<lparr>t_enabled := True\<rparr>) [0..<NUM_THREADS],
      tc_sync_table = replicate NUM_THREADS (0, 0, 0), tc_tcount = 0\<rparr>"

definition tc_behavior :: "hw_thread_controller \<Rightarrow> hw_thread_controller \<times> hw_thread_ptr" where
  "tc_behavior tc =
     (tc\<lparr>tc_tcount := tc_tcount tc + 1\<rparr>, Some (unat (tc_tcount tc mod of_nat (max NUM_THREADS 6))))"

definition pll_behavior :: "hw_thread_controller \<Rightarrow> hw_thread_controller" where
  "pll_behavior tc = tc\<lparr>tc_pool := map (upd_spec decrement_pll_timers) (tc_pool tc)\<rparr>"

text \<open>The initial stack pointers and program counter that \<open>parse_srec_files\<close> gives a thread.\<close>

definition start_thread :: "u32 \<Rightarrow> nat \<Rightarrow> hw_thread \<Rightarrow> hw_thread" where
  "start_thread starting_addr i t =
     (let stack_top = THREAD0_START + THREAD_MEM_SIZE * (of_nat i + 1) - 4;
          t1 = upd_regs (\<lambda>f. set_reg f 30 stack_top 0) t;
          t2 = upd_regs (\<lambda>f. set_reg f 14 stack_top 0) t1
      in t2\<lparr>t_pc := starting_addr\<rparr>)"

subsection \<open>Counting bits\<close>

text \<open>The constants are the source's octal ones: 033333333333, 011111111111, 030707070707.\<close>

definition bitCount :: "u32 \<Rightarrow> u32" where
  "bitCount n =
     (let tmp = n - (drop_bit 1 n AND 0xDB6DB6DB) - (drop_bit 2 n AND 0x49249249)
      in ((tmp + drop_bit 3 tmp) AND 0xC71C71C7) mod 63)"

subsection \<open>The barrier\<close>

text \<open>
  The loop over the rows from index \<open>i\<close>: the row of the mask, if any, else the first
  free row.  With no row of the mask and no free one the index stays \<open>-1\<close>, and the
  assignment after the loop is outside the table.
\<close>

fun check_sync_loop ::
  "nat list \<Rightarrow> u16 \<Rightarrow> nat \<Rightarrow> nat option \<Rightarrow> sync_table \<Rightarrow> sim_error + (sync_table \<times> bool)" where
  "check_sync_loop [] msk tid first_free tab =
     (case first_free of
        None \<Rightarrow> Inl Undefined_Access
      | Some f \<Rightarrow> Inr (tab[f := (msk, msk, 0)], False))"
| "check_sync_loop (i # is) msk tid first_free tab =
     (case tab ! i of (m, waiting, passed) \<Rightarrow>
        if m = msk then
          if waiting = 0 then
            let passed' = passed + 1;
                m' = (if (ucast passed' :: u32) = bitCount (ucast m) then 0 else m)
            in Inr (tab[i := (m', waiting, passed')], True)
          else Inr (tab[i := (m, waiting AND NOT (push_bit tid 1), passed)], False)
        else check_sync_loop is msk tid (if m = 0 \<and> first_free = None then Some i else first_free) tab)"

definition check_sync_table :: "u16 \<Rightarrow> nat \<Rightarrow> sync_table \<Rightarrow> sim_error + (sync_table \<times> bool)" where
  "check_sync_table msk tid tab = check_sync_loop [0..<NUM_THREADS] msk tid None tab"

subsection \<open>What the barrier promises\<close>

text \<open>
  A run of calls of the barrier, failing when a call does.  The invariant ties each row to
  the calls made so far: a thread of the mask that is no longer awaited has called.
\<close>

fun sync_run :: "(u16 \<times> nat) list \<Rightarrow> sync_table \<Rightarrow> sim_error + sync_table" where
  "sync_run [] tab = Inr tab"
| "sync_run ((msk, tid) # cs) tab =
     andThen (check_sync_table msk tid tab) (\<lambda>(tab', passed). sync_run cs tab')"

definition sync_inv :: "(u16 \<times> nat) set \<Rightarrow> sync_table \<Rightarrow> bool" where
  "sync_inv calls tab \<longleftrightarrow> length tab = NUM_THREADS \<and>
     (\<forall>i < length tab. \<forall>m waiting passed. tab ! i = (m, waiting, passed) \<longrightarrow> m \<noteq> 0 \<longrightarrow>
        (\<forall>k. bit m k \<and> \<not> bit waiting k \<longrightarrow> (m, k) \<in> calls))"

lemma sync_inv_update:
  assumes "sync_inv calls tab" "calls \<subseteq> calls'"
    and "m \<noteq> 0 \<Longrightarrow> \<forall>k. bit m k \<and> \<not> bit waiting k \<longrightarrow> (m, k) \<in> calls'"
  shows "sync_inv calls' (tab[i := (m, waiting, passed)])"
proof -
  have "(n, k) \<in> calls'"
    if "j < length tab" "tab[i := (m, waiting, passed)] ! j = (n, w, p)" "n \<noteq> 0" "bit n k" "\<not> bit w k" for j n w p k
  proof (cases "j = i")
    case True
    then show ?thesis using that assms(3) by simp
  next
    case False
    then have "tab ! j = (n, w, p)" using that(2) by simp
    then show ?thesis using assms(1,2) that unfolding sync_inv_def by blast
  qed
  then show ?thesis using assms(1) unfolding sync_inv_def by auto
qed

lemma sync_inv_entry:
  "sync_inv calls tab \<Longrightarrow> i < 6 \<Longrightarrow> tab ! i = (m, waiting, passed) \<Longrightarrow> m \<noteq> 0 \<Longrightarrow>
    bit m k \<Longrightarrow> \<not> bit waiting k \<Longrightarrow> (m, k) \<in> calls"
  unfolding sync_inv_def by simp

lemma bit_clear: "bit (w AND NOT (2 ^ n) :: u16) k \<longleftrightarrow> bit w k \<and> k \<noteq> n"
  using bit_push_bit_iff [of n "1::u16" k] by (auto simp: bit_simps dest: bit_imp_le_length)

lemma indices: "set [0..<n] \<subseteq> {..<n}"
  by auto

lemma check_sync_loop_inv:
  assumes "sync_inv calls tab" "set is \<subseteq> {..<NUM_THREADS}"
    "check_sync_loop is msk tid ff tab = Inr (tab', passed)"
  shows "sync_inv (insert (msk, tid) calls) tab' \<and>
    (passed \<and> msk \<noteq> 0 \<longrightarrow> (\<forall>k. bit msk k \<longrightarrow> (msk, k) \<in> calls))"
  using assms(2,3)
proof (induction "is" arbitrary: ff)
  case Nil
  then show ?case using assms(1)
    by (auto split: option.splits intro!: sync_inv_update [OF assms(1)])
next
  case (Cons i "is")
  obtain m waiting n where e: "tab ! i = (m, waiting, n)" by (metis prod_cases3)
  note entry = sync_inv_entry [OF assms(1) _ e]
  from Cons.prems(1) have i: "i < 6" by simp
  show ?case
  proof (cases "m = msk")
    case False
    then obtain ff' where "check_sync_loop is msk tid ff' tab = Inr (tab', passed)"
      using Cons.prems(2) e by auto
    then show ?thesis using Cons.prems(1) by (intro Cons.IH) auto
  next
    case True
    then show ?thesis
      using Cons.prems(2) e entry [OF i]
      by (auto simp: Let_def bit_clear split: if_splits intro!: sync_inv_update [OF assms(1)])
  qed
qed

lemma sync_inv_init: "sync_inv {} (replicate NUM_THREADS (0, 0, 0))"
  by (auto simp: sync_inv_def)

lemma sync_run_inv:
  "sync_inv calls tab \<Longrightarrow> sync_run cs tab = Inr tab' \<Longrightarrow> sync_inv (set cs \<union> calls) tab'"
proof (induction cs tab arbitrary: calls rule: sync_run.induct)
  case (2 msk tid cs tab)
  from 2(3) obtain tab1 passed where c: "check_sync_table msk tid tab = Inr (tab1, passed)" "sync_run cs tab1 = Inr tab'"
    by (auto simp: andThen_Inr_iff)
  then have "sync_inv (insert (msk, tid) calls) tab1"
    using check_sync_loop_inv [OF 2(2) indices] unfolding check_sync_table_def by blast
  then have "sync_inv (set cs \<union> insert (msk, tid) calls) tab'" using 2(1) c(2) by blast
  then show ?case by simp
qed simp

text \<open>
  C16: The barrier lets a thread pass only after every thread of the mask has called it with
  that mask.
\<close>

theorem barrier_waits_for_all:
  assumes "sync_run cs (replicate NUM_THREADS (0, 0, 0)) = Inr tab"
    "check_sync_table msk tid tab = Inr (tab', True)" "msk \<noteq> 0" "bit msk k"
  shows "(msk, k) \<in> set cs"
  using sync_run_inv [OF sync_inv_init assms(1)] check_sync_loop_inv [OF _ indices] assms(2-4)
  unfolding check_sync_table_def by (metis sup_bot_right)

lemma six_rows: "[0..<6] = [0, 1, 2, 3, 4, 5]" "replicate 6 x = [x, x, x, x, x, x]"
  by (simp_all add: upt_rec replicate_Suc [of 5, simplified] numeral_eq_Suc)

lemma bitCount_3: "bitCount 3 = 2"
  by (simp add: bitCount_def Let_def)

text \<open>
  Calls with one mask, and which of them passed.  The row of the mask counts the calls that
  passed, not the threads.
\<close>

fun sync_passes :: "u16 \<Rightarrow> nat list \<Rightarrow> sync_table \<Rightarrow> sim_error + (sync_table \<times> bool list)" where
  "sync_passes msk [] tab = Inr (tab, [])"
| "sync_passes msk (tid # tids) tab =
     andThen (check_sync_table msk tid tab) (\<lambda>(tab', passed).
     andThen (sync_passes msk tids tab') (\<lambda>(tab'', bs). Inr (tab'', passed # bs)))"

lemma sync_passes_append:
  "sync_passes msk (us @ vs) tab =
     andThen (sync_passes msk us tab) (\<lambda>(tab', bs). andThen (sync_passes msk vs tab') (\<lambda>(tab'', cs). Inr (tab'', bs @ cs)))"
proof (induction us arbitrary: tab)
  case (Cons u us)
  then show ?case by (auto simp: andThen_def split: sum.splits prod.splits)
qed (auto simp: andThen_def split: sum.split prod.split)

text \<open>The only row of a mask; a table with none.\<close>

definition row_of :: "u16 \<Rightarrow> nat \<Rightarrow> sync_table \<Rightarrow> bool" where
  "row_of msk i tab \<longleftrightarrow> length tab = NUM_THREADS \<and> i < NUM_THREADS \<and> fst (tab ! i) = msk \<and>
     (\<forall>j<NUM_THREADS. j \<noteq> i \<longrightarrow> fst (tab ! j) \<noteq> msk)"

lemma check_sync_row:
  assumes "i \<in> set is" "\<forall>j \<in> set is. j \<noteq> i \<longrightarrow> fst (tab ! j) \<noteq> msk" "tab ! i = (msk, 0, p)"
  shows "check_sync_loop is msk tid ff tab =
    Inr (tab[i := (if ucast (p + 1) = bitCount (ucast msk) then 0 else msk, 0, p + 1)], True)"
  using assms
proof (induction "is" arbitrary: ff)
  case (Cons j js)
  show ?case
  proof (cases "j = i")
    case True
    then show ?thesis using Cons.prems(3) by (simp add: Let_def)
  next
    case False
    then have "fst (tab ! j) \<noteq> msk" using Cons.prems(2) by simp
    then show ?thesis using Cons False by (auto split: prod.split)
  qed
qed simp

lemma check_sync_new:
  assumes "\<forall>j \<in> set is. fst (tab ! j) \<noteq> msk" "ff \<noteq> None \<or> (\<exists>j \<in> set is. fst (tab ! j) = 0)" 
  shows "\<exists>f. check_sync_loop is msk tid ff tab = Inr (tab[f := (msk, msk, 0)], False) \<and>
    (ff = Some f \<or> f \<in> set is \<and> fst (tab ! f) = 0)"
  using assms
proof (induction "is" arbitrary: ff)
  case (Cons j js)
  obtain m w p where e: "tab ! j = (m, w, p)" by (metis prod_cases3)
  then have m: "m \<noteq> msk" using Cons.prems(1) by auto
  let ?ff = "if m = 0 \<and> ff = None then Some j else ff"
  have "?ff \<noteq> None \<or> (\<exists>j \<in> set js. fst (tab ! j) = 0)" using Cons.prems(2) e by auto
  then obtain f where "check_sync_loop js msk tid ?ff tab = Inr (tab[f := (msk, msk, 0)], False)"
    "?ff = Some f \<or> f \<in> set js \<and> fst (tab ! f) = 0"
    using Cons.IH [of ?ff] Cons.prems(1) by auto
  then show ?case using e m by (auto split: if_splits)
qed auto

lemma bitCount_less: "unat (bitCount n) < 63"
  using word_mod_less_divisor [of 63 "(let tmp = n - (drop_bit 1 n AND 0xDB6DB6DB) - (drop_bit 2 n AND 0x49249249)
      in (tmp + drop_bit 3 tmp) AND 0xC71C71C7)"]
  by (simp add: bitCount_def Let_def word_less_nat_alt)

text \<open>On masks of the six threads the count is the number of threads.\<close>

lemma bitCount_table:
  "list_all (\<lambda>k. unat (bitCount (of_nat k)) = length (filter (bit k) [0..<6])) [0..<64]"
  by code_simp

lemma bitCount_mask:
  assumes "msk < 64"
  shows "unat (bitCount (ucast (msk :: u16))) = length (filter (bit msk) [0..<NUM_THREADS])"
proof -
  define k where "k = unat msk"
  have k: "k < 64" using assms by (simp add: k_def word_less_nat_alt)
  have "(ucast msk :: u32) = of_nat k" by (simp add: k_def)
  moreover have "bit msk = bit k" by (simp add: k_def fun_eq_iff bit_unsigned_iff bit_imp_le_length)
  moreover have "unat (bitCount (of_nat k)) = length (filter (bit k) [0..<6])"
    using bitCount_table k by (simp add: list_all_iff)
  ultimately show ?thesis by simp
qed
lemma passed_count:
  assumes "unat p < 63"
  shows "(ucast (p + 1 :: u16) :: u32) = bitCount n \<longleftrightarrow> Suc (unat p) = unat (bitCount n)"
proof -
  have "unat (p + 1) = Suc (unat p)" using assms by (simp add: unat_word_ariths)
  moreover have "unat (ucast (p + 1) :: u32) = unat (p + 1)" 
    using \<open>unat (p + 1) = Suc (unat p)\<close> assms by (simp add: unsigned_ucast_eq take_bit_nat_eq_self)
  ultimately show ?thesis by (metis word_unat_eq_iff)
qed

lemma sync_passes_arrived:
  assumes "row_of msk i tab" "tab ! i = (msk, 0, p)" "unat p + length tids < unat (bitCount (ucast msk))"
  shows "sync_passes msk tids tab = Inr (tab[i := (msk, 0, p + of_nat (length tids))], replicate (length tids) True)"
  using assms
proof (induction tids arbitrary: tab p)
  case (Cons tid tids)
  have i: "i < length tab" "length tab = 6" using Cons.prems(1) by (auto simp: row_of_def)
  have p: "unat p < 63" "unat (p + 1) = Suc (unat p)"
    using Cons.prems(3) bitCount_less [of "ucast msk"] by (simp_all add: unat_word_ariths)
  have "check_sync_table msk tid tab = Inr (tab[i := (msk, 0, p + 1)], True)"
    using check_sync_row [of i "[0..<6]" tab msk p tid None] Cons.prems passed_count [OF p(1), of "ucast msk"]
    by (auto simp: check_sync_table_def row_of_def)
  moreover have "sync_passes msk tids (tab[i := (msk, 0, p + 1)]) =
     Inr (tab[i := (msk, 0, p + 1), i := (msk, 0, p + 1 + of_nat (length tids))], replicate (length tids) True)"
    by (rule Cons.IH) (use Cons.prems i p(2) in \<open>auto simp: row_of_def nth_list_update\<close>)
  ultimately show ?case by (simp add: add.assoc)
next
  case Nil
  then show ?case using list_update_id [of tab i] by simp
qed

text \<open>
  C19: Once every thread of a mask of the six threads has arrived at the barrier, the row of
  the mask counts calls and not threads: any calls with the mask, even all by one thread
  that comes back, pass until as many have passed as the mask has threads; then the row is
  freed, and the next call, of a thread of the mask that has not passed yet, is refused, as
  any other would be, and opens a new row that waits for all threads of the mask again.
\<close>

theorem barrier_reentry:
  assumes "row_of msk i tab" "tab ! i = (msk, 0, p)" "msk \<noteq> 0" "msk < 64"
    and "0 < length tids" "unat p + length tids = length (filter (bit msk) [0..<NUM_THREADS])"
  shows "\<exists>tab' tab'' f. sync_passes msk tids tab = Inr (tab', replicate (length tids) True) \<and> fst (tab' ! i) = 0 \<and>
    check_sync_table msk u tab' = Inr (tab'', False) \<and> f < NUM_THREADS \<and> tab'' ! f = (msk, msk, 0)"
proof -
  note n = assms(6) [folded bitCount_mask [OF assms(4)]]
  obtain vs v where tids: "tids = vs @ [v]" using assms(5) by (cases tids rule: rev_cases) auto
  define q where "q = p + of_nat (length vs)"
  have i: "i < 6" "length tab = 6" using assms(1) by (auto simp: row_of_def)
  have q: "unat q = unat p + length vs"
    using n bitCount_less [of "ucast msk"] by (simp add: q_def tids unat_word_ariths unat_of_nat)
  have vs: "sync_passes msk vs tab = Inr (tab[i := (msk, 0, q)], replicate (length vs) True)"
    using sync_passes_arrived [OF assms(1,2), of vs] n by (simp add: tids q_def)
  have b: "unat q < 63" "Suc (unat q) = unat (bitCount (ucast msk))"
    using n bitCount_less [of "ucast msk"] q by (simp_all add: tids)
  let ?tab' = "tab[i := (0, 0, q + 1)]"
  have v: "check_sync_table msk v (tab[i := (msk, 0, q)]) = Inr (?tab', True)"
    using check_sync_row [of i "[0..<6]" "tab[i := (msk, 0, q)]" msk q v None] i assms(1) passed_count [OF b(1), of "ucast msk"] b(2)
    by (auto simp: check_sync_table_def row_of_def nth_list_update)
  obtain f where f: "check_sync_loop [0..<6] msk u None ?tab' = Inr (?tab'[f := (msk, msk, 0)], False)" "f \<in> set [0..<6]"
  proof -
    have "\<forall>j \<in> set [0..<6]. fst (?tab' ! j) \<noteq> msk" using i assms(1,3) by (auto simp: row_of_def nth_list_update)
    moreover have "\<exists>j \<in> set [0..<6]. fst (?tab' ! j) = 0" by (rule bexI [of _ i]) (use i in auto)
    ultimately show ?thesis using check_sync_new [of "[0..<6]" ?tab' msk None u] that by blast
  qed
  have "sync_passes msk tids tab = Inr (?tab', replicate (length tids) True)"
    by (simp add: tids sync_passes_append vs v replicate_append_same [symmetric])
  moreover have "fst (?tab' ! i) = 0" using i by simp
  ultimately show ?thesis
    using f i by (intro exI [of _ ?tab'] exI [of _ "?tab'[f := (msk, msk, 0)]"] exI [of _ f]) (simp add: check_sync_table_def)
qed

text \<open>Threads 0 and 1 arrive; thread 0 passes twice and thread 1 is left waiting.\<close>

definition arrived :: sync_table where
  "arrived = [(3, 0, 0), (0, 0, 0), (0, 0, 0), (0, 0, 0), (0, 0, 0), (0, 0, 0)]"

lemma two_arrive: "sync_run [(3, 0), (3, 0), (3, 1)] (replicate NUM_THREADS (0, 0, 0)) = Inr arrived"
  by (simp add: arrived_def check_sync_table_def six_rows bitCount_3 Let_def)

lemma arrived_row: "row_of 3 0 arrived" "arrived ! 0 = (3, 0, 0)"
proof -
  have "j = 0 \<or> fst (arrived ! j) \<noteq> 3" if "j < 6" for j
  proof -
    have "j \<in> {0, 1, 2, 3, 4, 5}" using that by auto
    then show ?thesis by (auto simp: arrived_def)
  qed
  moreover show t: "arrived ! 0 = (3, 0, 0)" by (simp add: arrived_def)
  moreover have "length arrived = 6" by (simp add: arrived_def)
  ultimately show "row_of 3 0 arrived" by (auto simp: row_of_def)
qed

lemma barrier_reentry_witness:
  "\<exists>t1 t2 t3 f. sync_run [(3, 0), (3, 0), (3, 1)] (replicate NUM_THREADS (0, 0, 0)) = Inr t1 \<and>
     sync_passes 3 [0, 0] t1 = Inr (t2, [True, True]) \<and> fst (t2 ! 0) = 0 \<and>
     check_sync_table 3 1 t2 = Inr (t3, False) \<and> t3 ! f = (3, 3, 0)"
proof -
  have h: "(3 :: u16) \<noteq> 0" "(3 :: u16) < 64" "0 < length [0, 0 :: nat]"
      "unat (0 :: u16) + length [0, 0 :: nat] = length (filter (bit (3 :: u16)) [0..<NUM_THREADS])"
    and l: "replicate (length [0, 0 :: nat]) True = [True, True]" by (simp_all add: six_rows bit_numeral_rec)
  show ?thesis using two_arrive barrier_reentry [OF arrived_row h, of 1] unfolding l by blast
qed

end
