(* ===== verification/Except.thy ===== *)
theory Except
  imports Hw_Thread Dma Thread_Controller Regacc
begin

section \<open>Exceptions and write-back (include/except.h, src/core/except.cpp)\<close>

text \<open>
  The last stage: commits results, moves the program counter over branches and their delay
  slots, takes traps in two passes and returns from them.  The state it works on is the
  thread, the DMA unit and the barrier table (\<open>except_state\<close>).
\<close>

type_synonym except_state = "hw_thread \<times> dma \<times> sync_table"

definition addr_calc :: "hw_thread \<Rightarrow> sim_error + u32" where
  "addr_calc t =
     (if i_branch (t_inst t) then Inr (i_pc (t_inst t) + i_disp22 (t_inst t) * 4)
      else if i_call (t_inst t) then Inr (i_pc (t_inst t) + i_disp30 (t_inst t) * 4)
      else Inl Assert_Failure)"

definition branch_check :: "hw_thread \<Rightarrow> bool" where
  "branch_check t =
     (let icc = s_icc (t_spec_regs t);
          neg = truthy (icc AND 0x08); zero = truthy (icc AND 0x04);
          ovfl = truthy (icc AND 0x02); carry = truthy (icc AND 0x01);
          c = i_conditional_branch (t_inst t)
      in if \<not> i_branch (t_inst t) \<and> \<not> i_call (t_inst t) then False
         else if i_call (t_inst t) then True
         else if c = BRCH_BA then True
         else if c = BRCH_BN then False
         else if c = BRCH_BNE then \<not> zero
         else if c = BRCH_BE then zero
         else if c = BRCH_BG then \<not> (zero \<or> (neg \<noteq> ovfl))
         else if c = BRCH_BLE then zero \<or> (neg \<noteq> ovfl)
         else if c = BRCH_BGE then \<not> (neg \<noteq> ovfl)
         else if c = BRCH_BL then neg \<noteq> ovfl
         else if c = BRCH_BGU then \<not> (carry \<or> zero)
         else if c = BRCH_BLEU then carry \<or> zero
         else if c = BRCH_BCC then \<not> carry
         else if c = BRCH_BCS then carry
         else if c = BRCH_BPOS then \<not> neg
         else if c = BRCH_BNEG then neg
         else if c = BRCH_BVC then \<not> ovfl
         else if c = BRCH_BVS then ovfl
         else False)"

subsection \<open>Stalls\<close>

definition dead_stalled :: "hw_thread \<Rightarrow> sim_error + (hw_thread \<times> bool)" where
  "dead_stalled t =
     (if t_deadline_stalled t
      then if s_pll_loaded (t_spec_regs t) \<and> i_write_special_registers (t_inst t)
           then andThen (array_set (s_pll_load (t_spec_regs t)) (pll_index t) (i_alu_result (t_inst t))) (\<lambda>loads.
                  Inr (upd_spec (\<lambda>s. s\<lparr>s_pll_load := loads\<rparr>) t, True))
           else Inr (t, True)
      else Inr (t, False))"

definition set_dword_state :: "hw_thread \<Rightarrow> hw_thread" where
  "set_dword_state t =
     (if i_db_word_instruction (t_inst t) \<and> \<not> t_db_word_stalled t
      then t\<lparr>t_db_word_stalled := True\<rparr> else t)"

subsection \<open>Traps\<close>

definition dec_window :: "special_reg \<Rightarrow> special_reg" where
  "dec_window s =
     (let s1 = s\<lparr>s_curr_wp := s_curr_wp s - 1\<rparr>
      in s1\<lparr>s_curr_wp := s_curr_wp s1 mod of_nat REGISTER_WINDOWS\<rparr>)"

text \<open>Writing \<open>alu_result\<close> to register \<open>rd\<close> at the end of the stage.\<close>

definition commit_to :: "u16 \<Rightarrow> u32 \<Rightarrow> hw_thread \<Rightarrow> hw_thread" where
  "commit_to rd value = upd_inst (\<lambda>i. i\<lparr>i_alu_result := value, i_rd := rd, i_write_registers := True\<rparr>)"

text \<open>The condition guarding the privileged-state changes, as the source writes it.\<close>

definition not_deadline_trap :: "hw_thread \<Rightarrow> bool" where
  "not_deadline_trap t \<longleftrightarrow> sint (t_trap_type t) > 0x7F \<and> sint (t_trap_type t) < 0x70"

definition first_pass :: "hw_thread \<Rightarrow> hw_thread" where
  "first_pass t =
     (let current_pc = t_pc t;
          t1 = commit_to 17 current_pc (upd_spec dec_window t);
          t2 = (if not_deadline_trap t1 then upd_spec (\<lambda>s. s\<lparr>s_ps := s_s s, s_s := True\<rparr>) t1 else t1)
      in t2\<lparr>t_trapped := XCPT_TRAPPED2\<rparr>)"

definition second_pass :: "hw_thread \<Rightarrow> sim_error + hw_thread" where
  "second_pass t =
     (let current_pc = t_pc t;
          t1 = commit_to 18 (if t_branch_slot t \<noteq> 0 then t_branch_slot t else current_pc + 4) t;
          offset = (scast (t_trap_type t1) :: u32);
          trap_address = s_tbr (t_spec_regs t1) OR push_bit 4 offset;
          t2 = t1\<lparr>t_trapped := XCPT_NORMAL, t_pc := trap_address, t_branch_slot := 0\<rparr>
      in andThen
           (if offset \<ge> 0x70 \<and> offset < 0x79
            then andThen (array_set (s_dt_status (t_spec_regs t2)) (unat (offset - 0x70)) UNSET) (\<lambda>st.
                   Inr (upd_spec (\<lambda>s. s\<lparr>s_dt_status := st\<rparr>) t2))
            else Inr t2) (\<lambda>t3.
         Inr (if not_deadline_trap t3 then upd_spec (\<lambda>s. s\<lparr>s_et := False\<rparr>) t3 else t3)))"

definition handle_exceptions :: "hw_thread \<Rightarrow> sim_error + (hw_thread \<times> bool)" where
  "handle_exceptions t =
     (if \<not> is_trapped t then Inr (t, True)
      else if \<not> s_et (t_spec_regs t) then Inr (t\<lparr>t_trapped := XCPT_NORMAL\<rparr>, True)
      else let exception_state = t_trapped t;
               t1 = upd_inst (\<lambda>i. i\<lparr>i_write_special_registers := False\<rparr>) t
           in if exception_state = XCPT_TRAPPED then Inr (first_pass t1, False)
              else if exception_state = XCPT_TRAPPED2
                   then andThen (second_pass t1) (\<lambda>t2. Inr (t2, False))
              else Inr (t1, False))"

definition return_from_trap :: "hw_thread \<Rightarrow> hw_thread" where
  "return_from_trap t =
     (if \<not> s_s (t_spec_regs t) then t\<lparr>t_trapped := 1, t_trap_type := 0x03\<rparr>
      else if s_et (t_spec_regs t) then t\<lparr>t_trapped := 1, t_trap_type := 0x02\<rparr>
      else upd_spec (\<lambda>s. s\<lparr>s_s := s_ps s, s_et := True\<rparr>) t)"

subsection \<open>The program counter\<close>

definition advance_pc :: "hw_thread \<Rightarrow> hw_thread" where
  "advance_pc t =
     (if t_branch_slot t \<noteq> 0
      then if \<not> i_db_word_instruction (t_inst t) then t\<lparr>t_pc := t_branch_slot t, t_branch_slot := 0\<rparr> else t
      else t\<lparr>t_pc := t_pc t + 4\<rparr>)"

definition take_branch :: "hw_thread \<Rightarrow> sim_error + hw_thread" where
  "take_branch t =
     (if branch_check t
      then andThen (addr_calc t) (\<lambda>a.
        if \<not> (i_branch (t_inst t) \<and> i_annul (t_inst t) \<and> i_conditional_branch (t_inst t) = BRCH_BA)
        then Inr (t\<lparr>t_branch_slot := t_pc t + a - 4\<rparr>)
        else Inr (t\<lparr>t_pc := t_pc t + a - 4\<rparr>))
      else if i_jump (t_inst t) then Inr (t\<lparr>t_branch_slot := i_alu_result (t_inst t)\<rparr>)
      else if i_branch (t_inst t) \<and> i_annul (t_inst t) then Inr (t\<lparr>t_pc := t_pc t + 4\<rparr>)
      else Inr t)"

definition inc_pc :: "hw_thread \<Rightarrow> sim_error + hw_thread" where
  "inc_pc t =
     (let t1 = (if i_write_icc (t_inst t) then upd_spec (\<lambda>s. s\<lparr>s_icc := i_icc (t_inst t)\<rparr>) t else t)
      in andThen (take_branch (advance_pc t1)) (\<lambda>t2.
           Inr (if i_jump (t_inst t2) \<or> i_call (t_inst t2)
                then upd_inst (\<lambda>i. i\<lparr>i_alu_result := t_pc t2 - 4\<rparr>) t2 else t2)))"

subsection \<open>Write-back\<close>

definition write_regs :: "hw_thread \<Rightarrow> sim_error + hw_thread" where
  "write_regs t =
     (let i = t_inst t; s = t_spec_regs t;
          put = (\<lambda>v. Inr (upd_regs (\<lambda>f. set_reg f (i_rd i) v (s_curr_wp s)) t))
      in if i_write_registers i
         then if i_select_special_register i = SREG_Y then put (s_y s)
              else if i_select_special_register i = SREG_ASR
                   then andThen (array_get (s_asr s) (unat (i_rs1 i))) put
              else if i_select_special_register i = SREG_PSR then put (get_psr s)
              else if i_select_special_register i = SREG_WIM then put (s_wim s)
              else if i_select_special_register i = SREG_TBR then put (s_tbr s)
              else put (i_alu_result i)
         else Inr t)"

definition write_special_regs :: "hw_thread \<times> dma \<Rightarrow> sim_error + (hw_thread \<times> dma)" where
  "write_special_regs = (\<lambda>(t, d).
     let i = t_inst t; s = t_spec_regs t; v = i_alu_result i; rd = unat (i_rd i);
         put = (\<lambda>f. Inr (upd_spec f t, d))
     in if i_write_special_registers i
        then if i_select_special_register i = SREG_Y then put (\<lambda>s. s\<lparr>s_y := v\<rparr>)
             else if i_select_special_register i = SREG_ASR
                  then andThen (array_set (s_asr s) rd v) (\<lambda>asr. put (\<lambda>s. s\<lparr>s_asr := asr\<rparr>))
             else if i_select_special_register i = SREG_PSR then put (set_psr v)
             else if i_select_special_register i = SREG_WIM then put (\<lambda>s. s\<lparr>s_wim := v\<rparr>)
             else if i_select_special_register i = SREG_TBR then put (\<lambda>s. s\<lparr>s_tbr := v\<rparr>)
             else if i_select_special_register i = SREG_DT
                  then if rd < NUM_DEADLINE_TIMERS then put (\<lambda>s. s\<lparr>s_dt := (s_dt s)[rd := v]\<rparr>)
                       else andThen (array_set (s_pll_load s) (pll_index t) v) (\<lambda>loads. put (\<lambda>s. s\<lparr>s_pll_load := loads\<rparr>))
             else if i_select_special_register i = SREG_MEM2SP
                  then Inr (t, make_transfer (t_id t)
                        (set_spm_target (t_id t) (i_op3_value i) (set_mem_source (t_id t) v d)))
             else Inr (t, d)
        else Inr (t, d))"

subsection \<open>The stage\<close>

definition except_is_not_valid :: "hw_thread \<Rightarrow> bool" where
  "except_is_not_valid t \<longleftrightarrow> \<not> t_enabled t"

definition commit_instruction :: "except_state \<Rightarrow> sim_error + except_state" where
  "commit_instruction = (\<lambda>(t, d, tab).
     andThen (if i_sync_instruction (t_inst t)
              then check_sync_table (ucast (i_imm (t_inst t))) (t_id t) tab
              else Inr (tab, True)) (\<lambda>(tab', sync_not_stalled).
     andThen (handle_exceptions t) (\<lambda>(t1, proceed).
     andThen (if proceed \<and> \<not> t_db_word_stalled t1 \<and> sync_not_stalled then inc_pc t1 else Inr t1) (\<lambda>t2.
     andThen (write_regs t2) (\<lambda>t3.
     andThen (write_special_regs (t3, d)) (\<lambda>(t4, d').
       let t5 = (if i_is_rett (t_inst t4) then return_from_trap t4 else t4)
       in Inr (t5\<lparr>t_cnt_instr := t_cnt_instr t5 + 1\<rparr>, d', tab')))))))"

definition except_behavior :: "except_state \<Rightarrow> sim_error + except_state" where
  "except_behavior = (\<lambda>(t, d, tab).
     if except_is_not_valid t then Inr (t, d, tab)
     else let t1 = t\<lparr>t_cnt_cycles := t_cnt_cycles t + 6\<rparr>
          in if t_fetch_stalled t1 then Inr (t1, d, tab)
             else andThen (dead_stalled (set_dword_state t1)) (\<lambda>(t2, stalled).
                    if stalled then Inr (t2, d, tab)
                    else if t_memory_stalled t2 then Inr (t2, d, tab)
                    else commit_instruction (t2, d, tab)))"

end
