(* ===== verification/Pret_Clock.thy ===== *)
theory Pret_Clock
  imports Prelude
begin

section \<open>The simulation clock (include/pret\_clock.h, src/core/pret\_clock.cpp)\<close>

text \<open>A counter modulo the period; it ticks when the count is zero.\<close>

record pret_clock =
  clk_period :: u32
  clk_count :: u32

definition new_pret_clock :: "u32 \<Rightarrow> pret_clock" where
  "new_pret_clock period = \<lparr>clk_period = period, clk_count = 0\<rparr>"

definition get_tick :: "pret_clock \<Rightarrow> bool" where
  "get_tick k = (clk_count k mod clk_period k = 0)"

definition tick :: "pret_clock \<Rightarrow> pret_clock" where
  "tick k =
     (let k1 = k\<lparr>clk_count := clk_count k + 1\<rparr>
      in k1\<lparr>clk_count := clk_count k1 mod clk_period k1\<rparr>)"

text \<open>The \<open>n\<close>-th tick event of a clock of period \<open>p\<close> is at step \<open>n p\<close>.\<close>

lemma tick_period [simp]: "clk_period (tick k) = clk_period k"
  by (simp add: tick_def Let_def)

lemma unat_tick:
  assumes "unat (clk_count k) < unat (clk_period k)"
  shows "unat (clk_count (tick k)) = (unat (clk_count k) + 1) mod unat (clk_period k)"
proof -
  have "unat (clk_count k + 1) = unat (clk_count k) + 1"
    using assms unsigned_less [of "clk_period k", where ?'a = nat] by (simp add: unat_word_ariths)
  then show ?thesis by (simp add: tick_def Let_def unat_mod)
qed

lemma clock_count:
  assumes "0 < p"
  shows "unat (clk_count ((tick ^^ n) (new_pret_clock p))) = n mod unat p \<and>
    clk_period ((tick ^^ n) (new_pret_clock p)) = p"
proof (induction n)
  case 0
  then show ?case by (simp add: new_pret_clock_def)
next
  case (Suc n)
  have "n mod unat p < unat p" using assms by (simp add: word_less_nat_alt)
  with Suc show ?case by (simp add: unat_tick mod_simps)
qed

text \<open>
  A clock of positive period ticks exactly at the multiples of its period.
\<close>

theorem clock_ticks: "0 < p \<Longrightarrow> get_tick ((tick ^^ n) (new_pret_clock p)) \<longleftrightarrow> unat p dvd n"
  using clock_count [of p n] by (auto simp: get_tick_def word_unat_eq_iff unat_mod dvd_eq_mod_eq_0)

end
