(* ===== verification/Core.thy ===== *)
theory Core
  imports Front_End Regacc Execute Mem_Stage Except Pret_Clock "HOL-Library.Signed_Division"
begin

section \<open>The core (include/core.h, src/core/core.cpp, cycle\_counter, hw\_thread\_ptr)\<close>

text \<open>
  The core of the build without SystemC: the components' states, the six latches between
  the stages (pointers to threads of the pool) and the clocks.  \<open>core_behavior\<close> runs the
  stages from the last to the first, as the code does, so that a stage writes a latch after
  the next one has read it.
\<close>

record core =
  c_clock :: pret_clock
  c_pll_clock :: pret_clock
  c_cycles :: u32
  c_memory_controller :: memory_controller
  c_dma_controller :: dma
  c_thread_controller :: hw_thread_controller
  c_pool_to_f :: hw_thread_ptr
  c_f_to_d :: hw_thread_ptr
  c_d_to_ra :: hw_thread_ptr
  c_ra_to_ex :: hw_thread_ptr
  c_ex_to_mem :: hw_thread_ptr
  c_mem_to_except :: hw_thread_ptr

text \<open>Access to a thread of the pool through a pointer.\<close>

definition pool :: "core \<Rightarrow> hw_thread list" where
  "pool c = tc_pool (c_thread_controller c)"

definition set_thread :: "nat \<Rightarrow> hw_thread \<Rightarrow> core \<Rightarrow> core" where
  "set_thread i t c = c\<lparr>c_thread_controller := (c_thread_controller c)\<lparr>tc_pool := (pool c)[i := t]\<rparr>\<rparr>"

definition except_step :: "core \<Rightarrow> sim_error + core" where
  "except_step c =
     (case c_mem_to_except c of
        None \<Rightarrow> Inr c
      | Some i \<Rightarrow>
          andThen (except_behavior (pool c ! i, c_dma_controller c, tc_sync_table (c_thread_controller c))) (\<lambda>(t, d, tab).
            let c1 = set_thread i t c
            in Inr (c1\<lparr>c_dma_controller := d,
                       c_thread_controller := (c_thread_controller c1)\<lparr>tc_sync_table := tab\<rparr>\<rparr>)))"

definition dma_step :: "core \<Rightarrow> sim_error + core" where
  "dma_step c =
     andThen (dma_behavior (c_cycles c) (c_dma_controller c, c_memory_controller c)) (\<lambda>(d, mc).
       Inr (c\<lparr>c_dma_controller := d, c_memory_controller := mc\<rparr>))"

definition mem_step :: "core \<Rightarrow> sim_error + core" where
  "mem_step c =
     andThen
       (case c_ex_to_mem c of
          None \<Rightarrow> Inr c
        | Some i \<Rightarrow>
            andThen (mem_behavior (c_cycles c) (pool c ! i) (c_memory_controller c)) (\<lambda>(t, mc).
              Inr ((set_thread i t c)\<lparr>c_memory_controller := mc\<rparr>)))
       (\<lambda>c1. Inr (c1\<lparr>c_mem_to_except := c_ex_to_mem c\<rparr>))"

definition execute_step :: "core \<Rightarrow> core" where
  "execute_step c =
     (let c1 = (case c_ra_to_ex c of None \<Rightarrow> c | Some i \<Rightarrow> set_thread i (execute_behavior (pool c ! i)) c)
      in c1\<lparr>c_ex_to_mem := c_ra_to_ex c\<rparr>)"

definition regacc_step :: "core \<Rightarrow> sim_error + core" where
  "regacc_step c =
     andThen
       (case c_d_to_ra c of
          None \<Rightarrow> Inr c
        | Some i \<Rightarrow> andThen (regacc_behavior (pool c ! i)) (\<lambda>t. Inr (set_thread i t c)))
       (\<lambda>c1. Inr (c1\<lparr>c_ra_to_ex := c_d_to_ra c\<rparr>))"

definition decode_step :: "core \<Rightarrow> core" where
  "decode_step c =
     (let c1 = (case c_f_to_d c of None \<Rightarrow> c | Some i \<Rightarrow> set_thread i (decode_behavior (pool c ! i)) c)
      in c1\<lparr>c_d_to_ra := c_f_to_d c\<rparr>)"

text \<open>The flag tells that the stage threw the exception that ends the simulation.\<close>

definition fetch_step :: "core \<Rightarrow> sim_error + (core \<times> bool)" where
  "fetch_step c =
     (case c_pool_to_f c of
        None \<Rightarrow> Inr (c\<lparr>c_f_to_d := c_pool_to_f c\<rparr>, False)
      | Some i \<Rightarrow>
          andThen (fetch_behavior (c_cycles c) (pool c ! i) (c_memory_controller c)) (\<lambda>(t, mc, halt).
            let c1 = (set_thread i t c)\<lparr>c_memory_controller := mc\<rparr>
            in if halt then Inr (c1, True) else Inr (c1\<lparr>c_f_to_d := c_pool_to_f c\<rparr>, False)))"

definition controller_step :: "core \<Rightarrow> core" where
  "controller_step c =
     (case tc_behavior (c_thread_controller c) of (tc, out) \<Rightarrow>
        c\<lparr>c_thread_controller := tc, c_pool_to_f := out, c_cycles := c_cycles c + 1\<rparr>)"

definition core_behavior :: "core \<Rightarrow> sim_error + (core \<times> bool)" where
  "core_behavior c =
     andThen (except_step c) (\<lambda>c1.
     andThen (dma_step (c1\<lparr>c_memory_controller := mc_behavior (c_memory_controller c1)\<rparr>)) (\<lambda>c2.
     andThen (mem_step c2) (\<lambda>c3.
     andThen (regacc_step (execute_step c3)) (\<lambda>c4.
     andThen (fetch_step (decode_step c4)) (\<lambda>(c5, halt).
       if halt then Inr (c5, True) else Inr (controller_step c5, False))))))"

subsection \<open>Running\<close>

text \<open>One iteration of the loops of \<open>run\<close>: both clocks, then the parts whose clock ticks.\<close>

definition core_tick :: "core \<Rightarrow> sim_error + (core \<times> bool)" where
  "core_tick c =
     (let c1 = c\<lparr>c_clock := tick (c_clock c), c_pll_clock := tick (c_pll_clock c)\<rparr>
      in andThen (if get_tick (c_clock c1) then core_behavior c1 else Inr (c1, False)) (\<lambda>(c2, halt).
           if halt then Inr (c2, True)
           else if get_tick (c_pll_clock c2)
                then Inr (c2\<lparr>c_thread_controller := pll_behavior (c_thread_controller c2)\<rparr>, False)
                else Inr (c2, False)))"

text \<open>The flag of \<open>run_ticks\<close> is the return value of \<open>run\<close>: false after the exception.\<close>

fun run_ticks :: "nat \<Rightarrow> core \<Rightarrow> sim_error + (core \<times> bool)" where
  "run_ticks 0 c = Inr (c, True)"
| "run_ticks (Suc n) c =
     andThen (core_tick c) (\<lambda>(c1, halt). if halt then Inr (c1, False) else run_ticks n c1)"

partial_function (option) run_forever :: "core \<Rightarrow> (sim_error + (core \<times> bool)) option" where
  "run_forever c =
     (case core_tick c of
        Inl e \<Rightarrow> Some (Inl e)
      | Inr (c1, halt) \<Rightarrow> if halt then Some (Inr (c1, False)) else run_forever c1)"

definition run :: "int \<Rightarrow> core \<Rightarrow> (sim_error + (core \<times> bool)) option" where
  "run cycle_count c = (if cycle_count = -1 then run_forever c else Some (run_ticks (nat cycle_count) c))"

definition run_for_instruction :: "int \<Rightarrow> core \<Rightarrow> (sim_error + (core \<times> bool)) option" where
  "run_for_instruction instruction_count c =
     run (signed_take_bit 31 (instruction_count * uint (clk_period (c_clock c)))) c"

subsection \<open>Inspection\<close>

definition core_read_memory :: "u32 \<Rightarrow> core \<Rightarrow> u32" where
  "core_read_memory addr c =
     (if is_main_mem addr then mem_at (w_mem (mc_main_mem (c_memory_controller c))) addr
      else mem_at (io_mem (mc_mem_mapped_io (c_memory_controller c))) addr)"

definition core_write_memory :: "u32 \<Rightarrow> u32 \<Rightarrow> core \<Rightarrow> core" where
  "core_write_memory addr data c =
     (let mc = c_memory_controller c
      in c\<lparr>c_memory_controller :=
        (if is_main_mem addr
         then mc\<lparr>mc_main_mem := (mc_main_mem mc)\<lparr>w_mem := add_address addr data (w_mem (mc_main_mem mc))\<rparr>\<rparr>
         else mc\<lparr>mc_mem_mapped_io := (mc_mem_mapped_io mc)\<lparr>io_mem := add_address addr data (io_mem (mc_mem_mapped_io mc))\<rparr>\<rparr>)\<rparr>)"

definition core_aligned_memory_address :: "nat \<Rightarrow> core \<Rightarrow> u32" where
  "core_aligned_memory_address i c = 4 * word_of_int (sint (i_alu_result (t_inst (pool c ! i))) sdiv 4)"

text \<open>The core before its programs are loaded; \<open>junk\<close> and \<open>can_open\<close> as in the components.\<close>

definition new_core :: "(nat \<Rightarrow> u32 list) \<Rightarrow> bool \<Rightarrow> core" where
  "new_core junk can_open =
     \<lparr>c_clock = new_pret_clock 5, c_pll_clock = new_pret_clock 1, c_cycles = 0,
      c_memory_controller = new_memory_controller can_open, c_dma_controller = new_dma,
      c_thread_controller = new_hw_thread_controller junk,
      c_pool_to_f = None, c_f_to_d = None, c_d_to_ra = None, c_ra_to_ex = None,
      c_ex_to_mem = None, c_mem_to_except = None\<rparr>"

end
