(* ===== verification/Core_Invariants.thy ===== *)
theory Core_Invariants
  imports Core
begin

section \<open>Invariants of the core\<close>

text \<open>
  What every cycle of the core keeps: threads with their identities and the sizes of their
  arrays (\<open>keeps\<close>, stage by stage), a well-formed memory system, and latches that hold each
  thread once.  The stage lemmas are stated with \<open>safely\<close>, so that they also show that no
  assertion fails.
\<close>

subsection \<open>Threads through the stages\<close>


definition keeps :: "hw_thread \<Rightarrow> hw_thread \<Rightarrow> bool" where
  "keeps t t' \<longleftrightarrow> t_id t' = t_id t \<and> t_enabled t' = t_enabled t \<and> (wf_thread t \<longrightarrow> wf_thread t')"

lemma keeps_refl [simp]: "keeps t t"
  by (simp add: keeps_def)
lemma keeps_trans: "keeps t u \<Longrightarrow> keeps u v \<Longrightarrow> keeps t v"
  by (simp add: keeps_def)

lemma keeps_upd_inst [simp]: "keeps t (upd_inst f t)"
  by (simp add: keeps_def)

lemma keeps_upd_inst_left [simp]: "keeps (upd_inst f t) u = keeps t u"
  by (simp add: keeps_def)

lemma keeps_flags [simp]:
  "keeps t (t\<lparr>t_memory_stalled := b\<rparr>)" "keeps t (t\<lparr>t_fetch_stalled := b\<rparr>)" "keeps t (t\<lparr>t_deadline_stalled := b\<rparr>)"
  "keeps t (t\<lparr>t_db_word_stalled := b\<rparr>)" "keeps t (t\<lparr>t_trapped := w\<rparr>)" "keeps t (t\<lparr>t_trap_type := w\<rparr>)"
  "keeps t (t\<lparr>t_pc := a\<rparr>)" "keeps t (t\<lparr>t_branch_slot := a\<rparr>)" "keeps t (t\<lparr>t_cnt_cycles := a\<rparr>)" "keeps t (t\<lparr>t_cnt_instr := a\<rparr>)"
  by (simp_all add: keeps_def wf_thread_def)

lemma keeps_upd_spec: "(wf_special (t_spec_regs t) \<Longrightarrow> wf_special (f (t_spec_regs t))) \<Longrightarrow> keeps t (upd_spec f t)"
  by (simp add: keeps_def wf_thread_def)

lemma keeps_upd_regs: "(wf_regs (t_regs t) \<Longrightarrow> wf_regs (f (t_regs t))) \<Longrightarrow> keeps t (upd_regs f t)"
  by (simp add: keeps_def wf_thread_def)

lemma keeps_simps:
  "keeps t u = (t_id u = t_id t \<and> t_enabled u = t_enabled t \<and> (wf_thread t \<longrightarrow> wf_thread u))"
  by (simp add: keeps_def)

lemma wf_special_updates [simp]:
  "wf_special (s\<lparr>s_y := v\<rparr>) = wf_special s" "wf_special (s\<lparr>s_icc := c\<rparr>) = wf_special s"
  "wf_special (s\<lparr>s_curr_wp := w\<rparr>) = wf_special s" "wf_special (s\<lparr>s_pll_loaded := b\<rparr>) = wf_special s"
  "wf_special (s\<lparr>s_s := b\<rparr>) = wf_special s" "wf_special (s\<lparr>s_ps := b\<rparr>) = wf_special s" "wf_special (s\<lparr>s_et := b\<rparr>) = wf_special s"
  "wf_special (s\<lparr>s_wim := v\<rparr>) = wf_special s" "wf_special (s\<lparr>s_tbr := v\<rparr>) = wf_special s"
  "wf_special (set_psr v s) = wf_special s"
  by (simp_all add: wf_special_def set_psr_def)

lemma wf_special_arrays:
  "wf_special s \<Longrightarrow> wf_special (s\<lparr>s_asr := (s_asr s)[i := v]\<rparr>)" "wf_special s \<Longrightarrow> wf_special (s\<lparr>s_dt := (s_dt s)[i := v]\<rparr>)"
  "wf_special s \<Longrightarrow> wf_special (s\<lparr>s_pll_load := (s_pll_load s)[i := v]\<rparr>)"
  "wf_special s \<Longrightarrow> wf_special (s\<lparr>s_dt_status := (s_dt_status s)[i := st]\<rparr>)"
  by (simp_all add: wf_special_def)

lemma keeps_execute: "keeps t (execute_behavior t)"
proof -
  have "keeps t (alu_switch t)"
    unfolding alu_switch_def Let_def 
    by (auto split: ALU.split prod.split simp: keeps_simps wf_thread_def)
  then have "keeps t (perform_alu_operations t)"
    unfolding perform_alu_operations_def Let_def by (auto intro: keeps_trans)
  then show ?thesis by (simp add: execute_behavior_def)
qed

lemma keeps_decode: "keeps t (decode_behavior t)"
  by (simp add: decode_behavior_def)

lemma keeps_pll_deadline: "safely (destination_phaselockloop_deadlines t) (keeps t)"
  unfolding destination_phaselockloop_deadlines_def
  by (rule safely_andThen [OF safely_array_get]) (simp add: keeps_simps wf_thread_def)

lemma keeps_regular_deadline: "keeps t (destination_regular_deadlines t)"
  by (simp add: destination_regular_deadlines_def set_dt_status_def Let_def keeps_simps wf_thread_def wf_special_arrays)

lemma keeps_deadline_instruction: "safely (deadline_instruction t) (keeps t)"
  by (simp add: deadline_instruction_def keeps_pll_deadline keeps_regular_deadline)

lemma keeps_operands:
  "keeps t (check_deadline t)" "keeps t (double_word_instruction t)" "keeps t (immediate_instruction t)"
  by (simp_all add: check_deadline_def double_word_instruction_def immediate_instruction_def Let_def
      keeps_simps wf_thread_def split: option.split)

lemma keeps_all_operands: "keeps t (immediate_instruction (double_word_instruction (check_deadline t)))"
  using keeps_operands(1) [of t] keeps_operands(2) [of "check_deadline t"]
    keeps_operands(3) [of "double_word_instruction (check_deadline t)"]
  by (simp add: keeps_simps)

lemma keeps_regacc: "safely (regacc_behavior t) (keeps t)"
proof -
  have "safely (andThen (deadline_instruction t) (\<lambda>t1.
        let t4 = immediate_instruction (double_word_instruction (check_deadline t1));
            t5 = upd_inst (\<lambda>i. i\<lparr>i_op3_value := get_reg (t_regs t4) (i_rd i) (s_curr_wp (t_spec_regs t4))\<rparr>) t4;
            t6 = upd_spec (\<lambda>s. s\<lparr>s_curr_wp := s_curr_wp s + i_increment_window_pointer (t_inst t5)\<rparr>) t5
        in Inr (upd_spec (\<lambda>s. s\<lparr>s_curr_wp := s_curr_wp s mod of_nat REGISTER_WINDOWS\<rparr>) t6))) (keeps t)"
  proof (rule safely_andThen [OF keeps_deadline_instruction])
    fix u assume "keeps t u"
    then show "safely (let t4 = immediate_instruction (double_word_instruction (check_deadline u));
            t5 = upd_inst (\<lambda>i. i\<lparr>i_op3_value := get_reg (t_regs t4) (i_rd i) (s_curr_wp (t_spec_regs t4))\<rparr>) t4;
            t6 = upd_spec (\<lambda>s. s\<lparr>s_curr_wp := s_curr_wp s + i_increment_window_pointer (t_inst t5)\<rparr>) t5
        in Inr (upd_spec (\<lambda>s. s\<lparr>s_curr_wp := s_curr_wp s mod of_nat REGISTER_WINDOWS\<rparr>) t6)) (keeps t)"
      using keeps_all_operands [of u] by (simp add: Let_def keeps_simps wf_thread_def)
  qed
  then show ?thesis by (simp add: regacc_behavior_def)
qed

subsection \<open>The exception stage\<close>

lemma wf_dec_window: "wf_special (dec_window s) = wf_special s"
  by (simp add: dec_window_def Let_def)

lemma keeps_dead_stalled: "safely (dead_stalled t) (\<lambda>(u, b). keeps t u)"
  by (simp add: dead_stalled_def array_set_def keeps_simps wf_thread_def wf_special_arrays)

lemma keeps_first_pass: "keeps t (first_pass t)"
  by (simp add: first_pass_def commit_to_def Let_def keeps_simps wf_thread_def wf_dec_window)

lemma keeps_second_pass: "safely (second_pass t) (keeps t)"
  by (simp add: second_pass_def commit_to_def Let_def array_set_def keeps_simps wf_thread_def wf_special_arrays)

lemma keeps_handle_exceptions: "safely (handle_exceptions t) (\<lambda>(u, b). keeps t u)"
  using keeps_first_pass [of "upd_inst (\<lambda>i. i\<lparr>i_write_special_registers := False\<rparr>) t"]
    keeps_second_pass [of "upd_inst (\<lambda>i. i\<lparr>i_write_special_registers := False\<rparr>) t"]
  by (auto simp: handle_exceptions_def Let_def intro!: safely_andThen elim!: safely_mono)

lemma keeps_return_from_trap: "keeps t (return_from_trap t)"
  by (simp add: return_from_trap_def keeps_simps wf_thread_def)

lemma branch_check_calc: "branch_check t \<Longrightarrow> \<exists>a. addr_calc t = Inr a"
  by (auto simp: branch_check_def addr_calc_def Let_def split: if_splits)

lemma keeps_take_branch: "safely (take_branch t) (keeps t)"
  using branch_check_calc [of t] by (auto simp: take_branch_def)

lemma keeps_advance_pc: "keeps t (advance_pc t)"
  by (simp add: advance_pc_def keeps_simps wf_thread_def)

lemma keeps_inc_pc: "safely (inc_pc t) (keeps t)"
proof -
  have 1: "keeps t (advance_pc (if b then upd_spec (\<lambda>s. s\<lparr>s_icc := v\<rparr>) t else t))" for b v
    using keeps_advance_pc [of t] keeps_advance_pc [of "upd_spec (\<lambda>s. s\<lparr>s_icc := v\<rparr>) t"]
    by (simp add: keeps_simps wf_thread_def)
  show ?thesis unfolding inc_pc_def Let_def
    by (rule safely_andThen [OF keeps_take_branch]) (use 1 in \<open>auto simp: keeps_simps\<close>)
qed

lemma keeps_put_reg: "keeps t (upd_regs (\<lambda>f. set_reg f r v w) t)"
  by (rule keeps_upd_regs) (rule wf_set_reg)

lemma keeps_write_regs: "safely (write_regs t) (keeps t)"
  by (simp add: write_regs_def Let_def array_get_def keeps_put_reg)

lemma keeps_write_special: "safely (write_special_regs (t, d)) (\<lambda>(u, d'). keeps t u \<and> (wf_dma d \<longrightarrow> wf_dma d'))"
  by (simp add: write_special_regs_def Let_def array_set_def keeps_simps wf_thread_def wf_special_arrays
     wf_dma_def make_transfer_def set_spm_target_def set_mem_source_def)

lemma check_sync_safe: "length tab = 6 \<Longrightarrow> safely (check_sync_table msk i tab) (\<lambda>(tab', b). length tab' = 6)"
proof -
  have "safely (check_sync_loop is msk i ff tab) (\<lambda>(tab', b). length tab' = length tab)" for "is" ff
    by (induction "is" arbitrary: ff) (auto split: option.split prod.split simp: Let_def)
  then show "length tab = 6 \<Longrightarrow> ?thesis" by (simp add: check_sync_table_def)
qed

lemma keeps_commit:
  assumes "wf_dma d" "length tab = 6"
  shows "safely (commit_instruction (t, d, tab)) (\<lambda>(u, d', tab'). keeps t u \<and> wf_dma d' \<and> length tab' = 6)"
proof -
  have s: "safely (if i_sync_instruction (t_inst t) then check_sync_table (ucast (i_imm (t_inst t))) (t_id t) tab
      else Inr (tab, True)) (\<lambda>(tab', b). length tab' = 6)"
    using check_sync_safe [OF assms(2)] assms(2) by simp
  have p: "safely (if b then inc_pc t1 else Inr t1) (keeps t1)" for b t1
    using keeps_inc_pc by simp
  have w: "safely (andThen (write_regs t2) (\<lambda>t3. andThen (write_special_regs (t3, d)) (\<lambda>(t4, d').
      let t5 = (if i_is_rett (t_inst t4) then return_from_trap t4 else t4)
      in Inr (t5\<lparr>t_cnt_instr := t_cnt_instr t5 + 1\<rparr>, d', tab'))))
        (\<lambda>(u, d', tab'). keeps t u \<and> wf_dma d' \<and> length tab' = 6)"
    if "keeps t t2" "length tab' = 6" for t2 tab'
  proof (rule safely_andThen [OF keeps_write_regs], rule safely_andThen [OF keeps_write_special], clarify, goal_cases)
    case (1 t3 t4 d')
    then show ?case
      using that assms(1) keeps_return_from_trap [of t4] by (simp add: Let_def keeps_simps wf_thread_def)
  qed
  show ?thesis
    unfolding commit_instruction_def prod.case
  proof (rule safely_andThen [OF s], clarify, rule safely_andThen [OF keeps_handle_exceptions], clarify,
      rule safely_andThen [OF p], goal_cases)
    case (1 tab' b t1 proceed t2)
    then show ?case by (intro w) (auto intro: keeps_trans)
  qed
qed

lemma keeps_except:
  assumes "wf_dma d" "length tab = 6"
  shows "safely (except_behavior (t, d, tab)) (\<lambda>(u, d', tab'). keeps t u \<and> wf_dma d' \<and> length tab' = 6)"
proof -
  define t1 where "t1 = set_dword_state (t\<lparr>t_cnt_cycles := t_cnt_cycles t + 6\<rparr>)"
  have t1: "keeps t t1" by (simp add: t1_def set_dword_state_def keeps_simps wf_thread_def)
  have "safely (andThen (dead_stalled t1) (\<lambda>(t2, stalled).
                    if stalled then Inr (t2, d, tab)
                    else if t_memory_stalled t2 then Inr (t2, d, tab)
                    else commit_instruction (t2, d, tab))) (\<lambda>(u, d', tab'). keeps t u \<and> wf_dma d' \<and> length tab' = 6)"
  proof (rule safely_andThen [OF keeps_dead_stalled], clarify)
    fix t2 stalled assume "keeps t1 t2"
    then have t2: "keeps t t2" using t1 by (rule keeps_trans [rotated])
    then show "safely (if stalled then Inr (t2, d, tab) else if t_memory_stalled t2 then Inr (t2, d, tab)
        else commit_instruction (t2, d, tab)) (\<lambda>(u, d', tab'). keeps t u \<and> wf_dma d' \<and> length tab' = 6)"
      using assms keeps_commit [OF assms, of t2] by (auto elim!: safely_mono intro: keeps_trans)
  qed
  then show ?thesis
    using assms by (simp add: except_behavior_def Let_def t1_def [symmetric] keeps_simps wf_thread_def)
qed

lemma keeps_fetch:
  assumes "wf_mc mc" "t_id t < 6"
  shows "safely (fetch_behavior cycles t mc) (\<lambda>(u, mc', halt). keeps t u \<and> wf_mc mc')"
proof -
  obtain t' mc' halt where f: "fetch_behavior cycles t mc = Inr (t', mc', halt)" "wf_mc mc'"
    "t_id t' = t_id t" "t_regs t' = t_regs t" "t_pc t' = t_pc t" "t_enabled t' = t_enabled t"
    "t_spec_regs t' = (if t_enabled t then decrement_deadline_timers (t_spec_regs t) else t_spec_regs t)"
    by (rule fetch_total [OF assms]) blast
  then show ?thesis by (simp add: keeps_simps wf_thread_def wf_decrement)
qed

lemma mem_store_unfit:
  assumes "wf_mc mc" "t_id t < 6"
    and "\<not> lane_fits (i_memory_size (t_inst t)) (unat (i_alu_result (t_inst t) mod 4))"
  shows "mem_store cycles t mc = Inl Undefined_Access"
proof -
  have "unat (i_alu_result (t_inst t) mod 4) < 4" by (simp add: unat_mod)
  then have g: "get_write_data old (unat (i_alu_result (t_inst t) mod 4)) (t_inst t) = Inl Undefined_Access" for old
    using assms(3) get_write_data_undefined by blast
  obtain mc' where "mc_read_data cycles (t_id t) (4 * (i_alu_result (t_inst t) div 4)) mc =
      Inr (mc', thread_view (t_id t) mc (4 * (i_alu_result (t_inst t) div 4)),
        access_stalls cycles (t_id t) (4 * (i_alu_result (t_inst t) div 4)) mc)"
    by (rule mc_read_data_result [OF assms(1,2)]) blast
  then show ?thesis by (simp add: mem_store_def Let_def g)
qed

lemma keeps_mem:
  assumes "wf_mc mc" "t_id t < 6"
  shows "safely (mem_behavior cycles t mc) (\<lambda>(u, mc'). keeps t u \<and> wf_mc mc')"
proof -
  have "safely (mem_load cycles t mc) (\<lambda>(u, mc'). keeps t u \<and> wf_mc mc')"
    by (rule mem_load_result [OF assms, of cycles]) (simp add: keeps_simps wf_thread_def)
  moreover have "safely (mem_store cycles t mc) (\<lambda>(u, mc'). keeps t u \<and> wf_mc mc')"
  proof (cases "lane_fits (i_memory_size (t_inst t)) (unat (i_alu_result (t_inst t) mod 4))")
    case True
    show ?thesis by (rule mem_store_result [OF assms True refl refl, of cycles]) simp
  qed (simp add: mem_store_unfit [OF assms])
  ultimately show ?thesis using assms by (simp add: mem_behavior_def)
qed

subsection \<open>The whole core\<close>

definition wf_core :: "core \<Rightarrow> bool" where
  "wf_core c \<longleftrightarrow> length (pool c) = 6 \<and> (\<forall>i<6. t_id (pool c ! i) = i \<and> t_enabled (pool c ! i) \<and> wf_thread (pool c ! i)) \<and>
     wf_mc (c_memory_controller c) \<and> wf_dma (c_dma_controller c) \<and>
     length (tc_sync_table (c_thread_controller c)) = 6"

definition latches :: "core \<Rightarrow> hw_thread_ptr list" where
  "latches c = [c_pool_to_f c, c_f_to_d c, c_d_to_ra c, c_ra_to_ex c, c_ex_to_mem c, c_mem_to_except c]"

definition wf_latches :: "core \<Rightarrow> bool" where
  "wf_latches c \<longleftrightarrow> (\<forall>p \<in> set (latches c). \<forall>i. p = Some i \<longrightarrow> i < 6)"

lemma pool_set_thread: "pool (set_thread i t c) = (pool c)[i := t]"
  by (simp add: pool_def set_thread_def)

lemma set_thread_simps [simp]:
  "c_memory_controller (set_thread i t c) = c_memory_controller c" "c_dma_controller (set_thread i t c) = c_dma_controller c"
  "c_cycles (set_thread i t c) = c_cycles c" "c_clock (set_thread i t c) = c_clock c" "c_pll_clock (set_thread i t c) = c_pll_clock c"
  "c_pool_to_f (set_thread i t c) = c_pool_to_f c" "c_f_to_d (set_thread i t c) = c_f_to_d c"
  "c_d_to_ra (set_thread i t c) = c_d_to_ra c" "c_ra_to_ex (set_thread i t c) = c_ra_to_ex c"
  "c_ex_to_mem (set_thread i t c) = c_ex_to_mem c" "c_mem_to_except (set_thread i t c) = c_mem_to_except c"
  "tc_sync_table (c_thread_controller (set_thread i t c)) = tc_sync_table (c_thread_controller c)"
  "tc_tcount (c_thread_controller (set_thread i t c)) = tc_tcount (c_thread_controller c)"
  by (simp_all add: set_thread_def)

lemma wf_set_thread: "wf_core c \<Longrightarrow> i < 6 \<Longrightarrow> keeps (pool c ! i) t \<Longrightarrow> wf_core (set_thread i t c)"
  by (auto simp: wf_core_def pool_set_thread nth_list_update keeps_simps)

definition same_control :: "core \<Rightarrow> core \<Rightarrow> bool" where
  "same_control c c' \<longleftrightarrow> c_cycles c' = c_cycles c \<and> tc_tcount (c_thread_controller c') = tc_tcount (c_thread_controller c) \<and>
     c_clock c' = c_clock c \<and> c_pll_clock c' = c_pll_clock c"

lemma wf_core_cong: "pool c' = pool c \<Longrightarrow> c_memory_controller c' = c_memory_controller c \<Longrightarrow> c_dma_controller c' = c_dma_controller c \<Longrightarrow>
   tc_sync_table (c_thread_controller c') = tc_sync_table (c_thread_controller c) \<Longrightarrow> wf_core c' = wf_core c"
  by (simp add: wf_core_def)

lemma except_step_safe:
  assumes "wf_core c" "wf_latches c"
  shows "safely (except_step c) (\<lambda>c'. wf_core c' \<and> latches c' = latches c \<and> same_control c c')"
proof (cases "c_mem_to_except c")
  case None
  then show ?thesis using assms by (simp add: except_step_def same_control_def)
next
  case (Some i)
  then have i: "i < 6" using assms(2) by (auto simp: wf_latches_def latches_def)
  have wf: "wf_dma (c_dma_controller c)" "length (tc_sync_table (c_thread_controller c)) = 6"
    using assms(1) by (simp_all add: wf_core_def)
  show ?thesis
    unfolding except_step_def Some option.case
  proof (rule safely_andThen [OF keeps_except [OF wf]], clarify, goal_cases)
    case (1 t d tab)
    then have "wf_core (set_thread i t c)" by (intro wf_set_thread assms i)
    with 1 show ?case by (simp add: Let_def wf_core_def latches_def same_control_def pool_def)
  qed
qed

lemma same_control_trans: "same_control a b \<Longrightarrow> same_control b c \<Longrightarrow> same_control a c"
  by (simp add: same_control_def)

lemma dma_step_safe:
  assumes "wf_core c"
  shows "safely (dma_step c) (\<lambda>c'. wf_core c' \<and> latches c' = latches c \<and> same_control c c')"
proof -
  have "\<exists>d' mc'. dma_loop (c_cycles c) [0..<6] (c_dma_controller c, c_memory_controller c) = Inr (d', mc') \<and> wf_mc mc' \<and> wf_dma d'"
    using dma_loop_wf [of "c_memory_controller c" "c_dma_controller c" "[0..<6]" "c_cycles c"] assms
    by (auto simp: wf_core_def)
  then show ?thesis
    using assms by (auto simp: dma_step_def dma_behavior_def wf_core_def latches_def same_control_def pool_def)
qed

lemma mem_step_safe:
  assumes "wf_core c" "wf_latches c"
  shows "safely (mem_step c) (\<lambda>c'. wf_core c' \<and> latches c' = (latches c)[5 := latches c ! 4] \<and> same_control c c')"
proof (cases "c_ex_to_mem c")
  case None
  then show ?thesis using assms by (simp add: mem_step_def same_control_def latches_def wf_core_def pool_def)
next
  case (Some i)
  then have i: "i < 6" using assms(2) by (auto simp: wf_latches_def latches_def)
  have wf: "wf_mc (c_memory_controller c)" "t_id (pool c ! i) < 6"
    using assms(1) i by (simp_all add: wf_core_def)
  have "safely (andThen (mem_behavior (c_cycles c) (pool c ! i) (c_memory_controller c)) (\<lambda>(t, mc).
              Inr ((set_thread i t c)\<lparr>c_memory_controller := mc\<rparr>)))
     (\<lambda>c'. wf_core c' \<and> latches c' = latches c \<and> same_control c c')"
  proof (rule safely_andThen [OF keeps_mem [OF wf]], clarify, goal_cases)
    case (1 t mc)
    then have "wf_core (set_thread i t c)" by (intro wf_set_thread assms i)
    with 1 show ?case by (simp add: wf_core_def latches_def same_control_def pool_def set_thread_def)
  qed
  then show ?thesis
    unfolding mem_step_def Some option.case
    by (rule safely_andThen) (use Some in \<open>auto simp: wf_core_def latches_def same_control_def pool_def\<close>)
qed

lemma execute_step_safe:
  assumes "wf_core c" "wf_latches c"
  shows "wf_core (execute_step c) \<and> latches (execute_step c) = (latches c)[4 := latches c ! 3] \<and> same_control c (execute_step c)"
proof (cases "c_ra_to_ex c")
  case None
  then show ?thesis using assms by (simp add: execute_step_def same_control_def latches_def wf_core_def pool_def)
next
  case (Some i)
  then have i: "i < 6" using assms(2) by (auto simp: wf_latches_def latches_def)
  have "wf_core (set_thread i (execute_behavior (pool c ! i)) c)" by (intro wf_set_thread assms i keeps_execute)
  with Some show ?thesis by (simp add: execute_step_def wf_core_def latches_def same_control_def pool_def)
qed

lemma decode_step_safe:
  assumes "wf_core c" "wf_latches c"
  shows "wf_core (decode_step c) \<and> latches (decode_step c) = (latches c)[2 := latches c ! 1] \<and> same_control c (decode_step c)"
proof (cases "c_f_to_d c")
  case None
  then show ?thesis using assms by (simp add: decode_step_def same_control_def latches_def wf_core_def pool_def)
next
  case (Some i)
  then have i: "i < 6" using assms(2) by (auto simp: wf_latches_def latches_def)
  have "wf_core (set_thread i (decode_behavior (pool c ! i)) c)" by (intro wf_set_thread assms i keeps_decode)
  with Some show ?thesis by (simp add: decode_step_def wf_core_def latches_def same_control_def pool_def)
qed

lemma regacc_step_safe:
  assumes "wf_core c" "wf_latches c"
  shows "safely (regacc_step c) (\<lambda>c'. wf_core c' \<and> latches c' = (latches c)[3 := latches c ! 2] \<and> same_control c c')"
proof (cases "c_d_to_ra c")
  case None
  then show ?thesis using assms by (simp add: regacc_step_def same_control_def latches_def wf_core_def pool_def)
next
  case (Some i)
  then have i: "i < 6" using assms(2) by (auto simp: wf_latches_def latches_def)
  have "safely (andThen (regacc_behavior (pool c ! i)) (\<lambda>t. Inr (set_thread i t c)))
     (\<lambda>c'. wf_core c' \<and> latches c' = latches c \<and> same_control c c')"
    by (rule safely_andThen [OF keeps_regacc])
      (simp add: wf_set_thread [OF assms(1) i] latches_def same_control_def)
  then show ?thesis
    unfolding regacc_step_def Some option.case
    by (rule safely_andThen) (use Some in \<open>auto simp: wf_core_def latches_def same_control_def pool_def\<close>)
qed

lemma fetch_step_safe:
  assumes "wf_core c" "wf_latches c"
  shows "safely (fetch_step c) (\<lambda>(c', halt). wf_core c' \<and> (\<not> halt \<longrightarrow> latches c' = (latches c)[1 := latches c ! 0]) \<and> same_control c c')"
proof (cases "c_pool_to_f c")
  case None
  then show ?thesis using assms by (simp add: fetch_step_def same_control_def latches_def wf_core_def pool_def)
next
  case (Some i)
  then have i: "i < 6" using assms(2) by (auto simp: wf_latches_def latches_def)
  have wf: "wf_mc (c_memory_controller c)" "t_id (pool c ! i) < 6"
    using assms(1) i by (simp_all add: wf_core_def)
  show ?thesis
    unfolding fetch_step_def Some option.case
  proof (rule safely_andThen [OF keeps_fetch [OF wf]], clarify, goal_cases)
    case (1 t mc halt)
    then have "wf_core (set_thread i t c)" by (intro wf_set_thread assms i)
    with 1 Some show ?case by (simp add: Let_def wf_core_def latches_def same_control_def pool_def set_thread_def)
  qed
qed

lemma controller_step_result:
  assumes "wf_core c"
  shows "wf_core (controller_step c) \<and>
    latches (controller_step c) = (latches c)[0 := Some (unat (tc_tcount (c_thread_controller c)) mod 6)] \<and>
    c_cycles (controller_step c) = c_cycles c + 1 \<and>
    tc_tcount (c_thread_controller (controller_step c)) = tc_tcount (c_thread_controller c) + 1 \<and>
    c_clock (controller_step c) = c_clock c \<and> c_pll_clock (controller_step c) = c_pll_clock c"
  using assms by (simp add: controller_step_def tc_behavior_def wf_core_def pool_def latches_def unat_mod)

lemma length_latches [simp]: "length (latches c) = 6"
  by (simp add: latches_def)

lemma wf_latches_nth: "wf_latches c \<longleftrightarrow> (\<forall>k<6. \<forall>i. latches c ! k = Some i \<longrightarrow> i < 6)"
proof -
  have "length (latches c) = 6" by (simp add: latches_def)
  then show ?thesis unfolding wf_latches_def by (metis in_set_conv_nth)
qed

lemma wf_latches_eq: "wf_latches c \<Longrightarrow> latches c' = latches c \<Longrightarrow> wf_latches c'"
  by (simp add: wf_latches_def)

lemma wf_latches_move: "latches c' = (latches c)[k := latches c ! j] \<Longrightarrow> wf_latches c \<Longrightarrow> j < 6 \<Longrightarrow> wf_latches c'"
proof (cases "k < 6")
  case True
  then show "latches c' = (latches c)[k := latches c ! j] \<Longrightarrow> wf_latches c \<Longrightarrow> j < 6 \<Longrightarrow> ?thesis"
    by (auto simp: wf_latches_nth nth_list_update)
next
  case False
  then show "latches c' = (latches c)[k := latches c ! j] \<Longrightarrow> wf_latches c \<Longrightarrow> j < 6 \<Longrightarrow> ?thesis"
    by (simp add: wf_latches_nth list_update_beyond)
qed

text \<open>One cycle of the pipeline: the latches shift, the counters advance.\<close>

definition after_cycle :: "core \<Rightarrow> core \<Rightarrow> bool" where
  "after_cycle c c' \<longleftrightarrow> latches c' = Some (unat (tc_tcount (c_thread_controller c)) mod 6) # butlast (latches c) \<and>
     c_cycles c' = c_cycles c + 1 \<and> tc_tcount (c_thread_controller c') = tc_tcount (c_thread_controller c) + 1 \<and>
     c_clock c' = c_clock c \<and> c_pll_clock c' = c_pll_clock c"

lemma core_behavior_safe:
  assumes "wf_core c" "wf_latches c"
  shows "safely (core_behavior c) (\<lambda>(c', halt). wf_core c' \<and> (\<not> halt \<longrightarrow> after_cycle c c' \<and> wf_latches c'))"
  unfolding core_behavior_def
proof (rule safely_andThen [OF except_step_safe [OF assms]], elim conjE, goal_cases)
  case (1 c1)
  define cb where "cb = c1\<lparr>c_memory_controller := mc_behavior (c_memory_controller c1)\<rparr>"
  have cb: "wf_core cb" "latches cb = latches c" "same_control c cb"
    using 1 by (simp_all add: cb_def wf_core_def wf_mc_behavior latches_def same_control_def pool_def)
  show ?case unfolding cb_def [symmetric]
  proof (rule safely_andThen [OF dma_step_safe [OF cb(1)]], elim conjE, goal_cases)
    case (1 c2)
    then have c2: "wf_core c2" "latches c2 = latches c" "same_control c c2" "wf_latches c2"
      using cb assms(2) by (auto intro: same_control_trans wf_latches_eq)
    show ?case
    proof (rule safely_andThen [OF mem_step_safe [OF c2(1,4)]], elim conjE, goal_cases)
      case (1 c3)
      then have c3: "wf_core c3" "latches c3 = (latches c)[5 := latches c ! 4]" "same_control c c3" "wf_latches c3"
        using c2 wf_latches_move [of c3 c2 5 4] by (auto intro: same_control_trans)
      note e = execute_step_safe [OF c3(1,4)]
      have e4: "wf_latches (execute_step c3)" using e c3(4) by (auto intro: wf_latches_move)
      show ?case
      proof (rule safely_andThen [OF regacc_step_safe [OF conjunct1 [OF e] e4]], elim conjE, goal_cases)
        case c4: (1 c4)
        then have w4: "wf_latches c4" using e4 c4 by (auto intro: wf_latches_move)
        note d = decode_step_safe [OF c4(2) w4]
        have w5: "wf_latches (decode_step c4)" using d w4 by (auto intro: wf_latches_move)
        show ?case
        proof (rule safely_andThen [OF fetch_step_safe [OF _ w5]], goal_cases)
          case 1
          then show ?case using d by simp
        next
          case (2 r)
          obtain c6 halt where r: "r = (c6, halt)" by (cases r)
          show ?case
          proof (cases halt)
            case True
            then show ?thesis using 2 r by simp
          next
            case False
            have sc: "same_control c c6"
              using 2(2) c4 d e c3 r by (simp add: same_control_def)
            have l: "latches c6 = ((latches c)[5 := latches c ! 4, 4 := latches c ! 3, 3 := latches c ! 2, 2 := latches c ! 1, 1 := latches c ! 0])"
              using 2(2) c4 d e c3 r False by (simp add: latches_def [of c])
            note cs = controller_step_result [of c6]
            have a: "after_cycle c (controller_step c6)"
              using cs 2(2) r sc l unfolding after_cycle_def same_control_def by (simp add: latches_def [of c])
            have "wf_latches (controller_step c6)"
              using a assms(2) unfolding wf_latches_def after_cycle_def by (auto dest: in_set_butlastD)
            with a cs 2(2) r False show ?thesis by simp
          qed
        qed
      qed
    qed
  qed
qed

lemma core_tick_safe:
  assumes "wf_core c" "wf_latches c"
  shows "safely (core_tick c) (\<lambda>(c', halt). wf_core c' \<and> (\<not> halt \<longrightarrow> wf_latches c'))"
proof -
  define c1 where "c1 = c\<lparr>c_clock := tick (c_clock c), c_pll_clock := tick (c_pll_clock c)\<rparr>"
  have c1: "wf_core c1" "wf_latches c1"
    using assms by (simp_all add: c1_def wf_core_def pool_def wf_latches_def latches_def)
  have p: "wf_special (decrement_pll_timers s)" if "wf_special s" for s
    using that by (simp add: wf_special_def decrement_pll_timers_def Let_def)
  have pll: "wf_core (c2\<lparr>c_thread_controller := pll_behavior (c_thread_controller c2)\<rparr>) \<and>
      wf_latches (c2\<lparr>c_thread_controller := pll_behavior (c_thread_controller c2)\<rparr>)"
    if "wf_core c2" "wf_latches c2" for c2
    using that by (simp add: wf_core_def pool_def pll_behavior_def wf_latches_def latches_def wf_thread_def p)
  have "safely (if get_tick (c_clock c1) then core_behavior c1 else Inr (c1, False))
      (\<lambda>(c', halt). wf_core c' \<and> (\<not> halt \<longrightarrow> wf_latches c'))"
    using core_behavior_safe [OF c1] c1 by (auto elim!: safely_mono)
  then show ?thesis
    unfolding core_tick_def c1_def [symmetric] Let_def
    by (rule safely_andThen) (use pll in auto)
qed

text \<open>
  C2: A cycle of the machine keeps every component well-typed: six threads with their
  numbers, register files and special registers of their sizes, the memory hierarchy, the
  transfer unit and the barrier table, and, unless the machine halts, latches that hold
  threads of the pool.
\<close>

theorem core_tick_types:
  assumes "wf_core c" "wf_latches c"
  shows "case core_tick c of
      Inl e \<Rightarrow> e = Undefined_Access
    | Inr (c', halt) \<Rightarrow> wf_core c' \<and> (halt \<or> wf_latches c')"
  using core_tick_safe [OF assms] by (auto simp: safely_def split: sum.splits)

lemma run_ticks_safe:
  "wf_core c \<Longrightarrow> wf_latches c \<Longrightarrow> safely (run_ticks n c) (\<lambda>(c', r). wf_core c')"
proof (induction n c rule: run_ticks.induct)
  case (2 n c)
  show ?case unfolding run_ticks.simps
    by (rule safely_andThen [OF core_tick_safe [OF 2(2,3)]]) (use 2(1) in auto)
qed simp

text \<open>
  C1: However long a core with well-formed components and latches is run, no assertion of
  the memory system and no assertion of the pipeline fails: the only error left is an access
  outside an array.
\<close>

theorem run_never_asserts:
  "wf_core c \<Longrightarrow> wf_latches c \<Longrightarrow> run_ticks n c \<noteq> Inl Assert_Failure"
  by (rule safely_no_assert [OF run_ticks_safe])

lemma wf_new_core: "\<forall>i<6. length (junk i) = 512 \<Longrightarrow> wf_core (new_core junk ok)"
  by (simp add: wf_core_def pool_def new_core_def new_hw_thread_controller_def wf_new_memory_controller wf_new_dma
      new_hw_thread_def wf_thread_def wf_regs_def init_register_file_def wf_init_special)

lemma wf_latches_new: "wf_latches (new_core junk ok)"
  by (simp add: wf_latches_def latches_def new_core_def)

subsection \<open>The schedule of the pipeline\<close>

text \<open>\<open>n\<close> cycles of the core's clock, as long as the simulation does not end.\<close>

fun core_cycles :: "nat \<Rightarrow> core \<Rightarrow> sim_error + core option" where
  "core_cycles 0 c = Inr (Some c)"
| "core_cycles (Suc n) c =
     andThen (core_behavior c) (\<lambda>(c1, halt). if halt then Inr None else core_cycles n c1)"

text \<open>
  After \<open>n\<close> cycles the latch before stage \<open>k\<close> holds the thread that entered the pipeline
  \<open>k + 1\<close> cycles ago.
\<close>

definition on_schedule :: "nat \<Rightarrow> core \<Rightarrow> bool" where
  "on_schedule n c \<longleftrightarrow>
     latches c = map (\<lambda>k. if k < n then Some ((n - 1 - k) mod 6) else None) [0..<6] \<and>
     tc_tcount (c_thread_controller c) = of_nat n \<and> c_cycles c = of_nat n"

lemma on_schedule_new: "on_schedule 0 (new_core junk ok)"
  by (simp add: on_schedule_def new_core_def latches_def new_hw_thread_controller_def upt_rec)

lemma six: "[0..<6] = [0, 1, 2, 3, 4, 5::nat]"
  by (simp add: upt_rec)

lemma on_schedule_step:
  assumes "on_schedule n c" "after_cycle c c'" "n < 2 ^ 32"
  shows "on_schedule (Suc n) c'"
proof -
  have n: "unat (of_nat n :: u32) = n" using assms(3) by (simp add: unat_of_nat take_bit_nat_eq_self)
  have l: "[0..<6] = 0 # map Suc [0..<5]" "butlast (map f [0..<6]) = map f [0..<5]" for f :: "nat \<Rightarrow> nat option"
    by (simp_all add: upt_rec)
  define f where "f = (\<lambda>k. if k < n then Some ((n - 1 - k) mod 6) else None)"
  define g where "g = (\<lambda>k. if k < Suc n then Some ((Suc n - 1 - k) mod 6) else None)"
  have "butlast (latches c) = map f [0..<5]"
    using assms(1) unfolding on_schedule_def f_def [symmetric] by (simp only: l(2))
  then have "latches c' = Some (n mod 6) # map f [0..<5]"
    using assms(1,2) by (simp add: after_cycle_def on_schedule_def n)
  also have "\<dots> = map g [0..<6]"
    unfolding l(1) by (simp add: f_def g_def)
  finally show ?thesis
    using assms(1,2) by (simp add: on_schedule_def after_cycle_def g_def)
qed

lemma on_schedule_wf: "on_schedule n c \<Longrightarrow> wf_latches c"
  by (auto simp: on_schedule_def wf_latches_def split: if_splits)

lemma core_cycles_safe:
  "wf_core c \<Longrightarrow> on_schedule m c \<Longrightarrow> m + n < 2 ^ 32 \<Longrightarrow>
    safely (core_cycles n c) (\<lambda>r. case r of None \<Rightarrow> True | Some c' \<Rightarrow> wf_core c' \<and> on_schedule (m + n) c')"
proof (induction n arbitrary: m c)
  case (Suc n)
  show ?case unfolding core_cycles.simps
  proof (rule safely_andThen [OF core_behavior_safe [OF Suc.prems(1) on_schedule_wf [OF Suc.prems(2)]]], goal_cases)
    case (1 r)
    obtain c1 halt where r: "r = (c1, halt)" by (cases r)
    show ?case
    proof (cases halt)
      case False
      with 1 r have "wf_core c1" "after_cycle c c1" by simp_all
      moreover have "m + Suc n = Suc m + n" by simp
      ultimately show ?thesis using Suc.IH [of c1 "Suc m"] on_schedule_step [OF Suc.prems(2), of c1] Suc.prems(3) r False
        by simp
    qed (simp add: r)
  qed
qed simp

text \<open>Hence a full pipeline holds each thread in exactly one stage.\<close>

lemma six_distinct:
  assumes "6 \<le> (n::nat)"
  shows "set (map (\<lambda>k. (n - 1 - k) mod 6) [0..<6]) = {..<6}" "distinct (map (\<lambda>k. (n - 1 - k) mod 6) [0..<6])"
proof -
  obtain m where m: "n = m + 6" using assms by (metis add.commute le_Suc_ex)
  define r where "r = m mod 6"
  have r: "(m + j) mod 6 = (r + j) mod 6" for j unfolding r_def by (simp add: mod_simps)
  have r6: "r = 0 \<or> r = 1 \<or> r = 2 \<or> r = 3 \<or> r = 4 \<or> r = 5"
    using mod_less_divisor [of 6 m] unfolding r_def by linarith
  have "(n - 1 - k) mod 6 = (r + (5 - k)) mod 6" if "k < 6" for k
  proof -
    have "n - 1 - k = m + (5 - k)" using that m by simp
    then show ?thesis by (simp only: r)
  qed
  then have l: "map (\<lambda>k. (n - 1 - k) mod 6) [0..<6] = map (\<lambda>k. (r + (5 - k)) mod 6) [0..<6]"
    by simp
  show d: "distinct (map (\<lambda>k. (n - 1 - k) mod 6) [0..<6])"
    unfolding l unfolding six using r6 by (elim disjE) simp_all
  have "card (set (map (\<lambda>k. (n - 1 - k) mod 6) [0..<6])) = 6"
    using distinct_card [OF d] by simp
  then show "set (map (\<lambda>k. (n - 1 - k) mod 6) [0..<6]) = {..<6}"
    by (intro card_subset_eq) auto
qed

text \<open>
  C3: From six cycles on, for fewer than 2^32 cycles, the six latches of the pipeline hold
  the six threads, each in exactly one stage: no two stages ever work for one thread.
\<close>

theorem one_thread_per_stage:
  assumes "wf_core c" "on_schedule 0 c" "6 \<le> n" "n < 2 ^ 32" "core_cycles n c = Inr (Some c')"
  shows "distinct (latches c') \<and> set (latches c') = Some ` {..<6}"
proof -
  have "latches c' = map Some (map (\<lambda>k. (n - 1 - k) mod 6) [0..<6])"
    using core_cycles_safe [OF assms(1,2), of n] assms(3-5) by (simp add: on_schedule_def)
  then show ?thesis
    using six_distinct [OF assms(3)] by (simp only: distinct_map set_map) simp
qed

text \<open>
  The counter of the thread controller is 32 bits wide and \<open>2 ^ 32\<close> is no multiple of six: a
  rotation that the counter wraps in picks a thread twice.
\<close>

lemma mod6_inj:
  fixes m j k :: nat
  assumes h: "(m + j) mod 6 = (m + k) mod 6" "j < 6" "k < 6"
  shows "j = k"
proof (rule ccontr)
  assume ne: "j \<noteq> k"
  show False
  proof (cases "j < k")
    case True
    then have "6 dvd (m + k) - (m + j)" using h(1) by (metis mod_eq_dvd_iff_nat add_le_cancel_left less_imp_le)
    then have "6 dvd k - j" by simp
    then show False using True h(3) by (auto dest!: dvd_imp_le)
  next
    case False
    then have "6 dvd (m + j) - (m + k)" using h(1) by (metis mod_eq_dvd_iff_nat add_le_cancel_left not_less)
    then have "6 dvd j - k" by simp
    then show False using False ne h(2) by (auto dest!: dvd_imp_le)
  qed
qed

text \<open>The thread of the \<open>k\<close>-th of successive steps of the controller.\<close>

definition nth_pick :: "nat \<Rightarrow> hw_thread_controller \<Rightarrow> hw_thread_ptr" where
  "nth_pick k tc = snd (tc_behavior (((\<lambda>c. fst (tc_behavior c)) ^^ k) tc))"

lemma nth_pick_mod: "nth_pick k tc = Some (unat ((tc_tcount tc + of_nat k) mod 6))"
proof -
  have "tc_tcount (((\<lambda>c. fst (tc_behavior c)) ^^ k) tc) = tc_tcount tc + of_nat k"
    by (induction k) (simp_all add: tc_behavior_def algebra_simps)
  then show ?thesis by (simp add: nth_pick_def tc_behavior_def)
qed

text \<open>
  C20: Six successive picks of the round robin are six different threads exactly when the
  32-bit thread counter does not wrap among them: 2^32 is no multiple of six, so a rotation
  that the counter wraps in picks a thread twice within one pipeline depth.
\<close>

theorem schedule_wraps:
  "distinct (map (\<lambda>k. nth_pick k tc) [0..<6]) \<longleftrightarrow> unat (tc_tcount tc) + 6 \<le> 2 ^ 32"
proof (cases "unat (tc_tcount tc) + 6 \<le> 2 ^ 32")
  case True
  have "unat (tc_tcount tc + of_nat k) = unat (tc_tcount tc) + k" if "k < 6" for k
    using True that by (simp add: unat_word_ariths unat_of_nat)
  then have "nth_pick k tc = Some ((unat (tc_tcount tc) + k) mod 6)" if "k < 6" for k
    using that by (simp add: nth_pick_mod unat_mod)
  then have "map (\<lambda>k. nth_pick k tc) [0..<6] = map (\<lambda>k. Some ((unat (tc_tcount tc) + k) mod 6)) [0..<6]"
    by (simp only: map_eq_conv set_upt atLeastLessThan_iff) simp
  moreover have "distinct (map (\<lambda>k. Some ((unat (tc_tcount tc) + k) mod 6)) [0..<6])"
    unfolding distinct_map inj_on_def by (auto dest: mod6_inj)
  ultimately have "distinct (map (\<lambda>k. nth_pick k tc) [0..<6])" by (rule ssubst)
  then show ?thesis using True by blast
next
  case False
  then have "unat (tc_tcount tc) \<in> {4294967291, 4294967292, 4294967293, 4294967294, 4294967295}"
    using unsigned_less [of "tc_tcount tc", where ?'a = nat] by auto
  then have "tc_tcount tc \<in> {4294967291, 4294967292, 4294967293, 4294967294, 4294967295}"
    by (auto simp: word_unat_eq_iff)
  moreover have "\<not> distinct (map (\<lambda>k. nth_pick k tc) [0..<6])"
    if "tc_tcount tc \<in> {4294967291, 4294967292, 4294967293, 4294967294, 4294967295}"
    using that unfolding six by (elim insertE emptyE) (simp_all add: nth_pick_mod)
  ultimately show ?thesis using False by blast
qed

end
