(* ===== verification/Srec_Parser.thy ===== *)
theory Srec_Parser
  imports Memory_Unit "HOL-Library.Signed_Division"
begin

section \<open>The S-record parser (include/srec\_parser.h, src/core/srec\_parser.cpp)\<close>

text \<open>
  The parser that fills main memory from an S-record file.  The rest of the open file is a
  string; \<open>fscanf_s\<close> and \<open>fscanf_x\<close> are the conversions of \<open>fscanf\<close> that the source uses.
  The files are a parameter: \<open>fs name\<close> is the text of the file that opening \<open>name\<close> for
  reading gives.  A conversion inside an \<open>assert\<close> that does not succeed is a failed
  assertion, and a token that does not fit its buffer is an access outside it.  (The buffer
  \<open>s_type\<close> has no place for the terminating zero of the two characters that are read into
  it; the model has the zero beyond the buffer, where it harms nothing.)

  The lemmas show that reading a line consumes input, so that the loop ends, and that the
  text of a list of records loads the words of its data records and the address of its
  start record.
\<close>

subsection \<open>Formatted input\<close>

definition is_space :: "char \<Rightarrow> bool" where
  "is_space c \<longleftrightarrow> c \<in> set [CHR 0x20, CHR 0x09, CHR 0x0A, CHR 0x0B, CHR 0x0C, CHR 0x0D]"

text \<open>\<open>%s\<close>, with a width or without: \<open>None\<close> at the end of the file.\<close>

definition fscanf_s :: "nat option \<Rightarrow> string \<Rightarrow> (string \<times> string) option" where
  "fscanf_s width s =
     (let s1 = dropWhile is_space s;
          tok = takeWhile (\<lambda>c. \<not> is_space c) (case width of None \<Rightarrow> s1 | Some n \<Rightarrow> take n s1)
      in if s1 = [] then None else Some (tok, drop (length tok) s1))"

definition hex_digits :: string where
  "hex_digits = ''0123456789ABCDEF''"

definition hex_value :: "char \<Rightarrow> nat option" where
  "hex_value c =
     (let n = of_char c :: nat
      in if 48 \<le> n \<and> n \<le> 57 then Some (n - 48)
         else if 65 \<le> n \<and> n \<le> 70 then Some (n - 55)
         else if 97 \<le> n \<and> n \<le> 102 then Some (n - 87)
         else None)"

definition hex_number :: "string \<Rightarrow> nat" where
  "hex_number ds = foldl (\<lambda>v c. 16 * v + (case hex_value c of None \<Rightarrow> 0 | Some d \<Rightarrow> d)) 0 ds"

text \<open>
  \<open>%nx\<close>: blanks, a sign, a prefix \<open>0x\<close> and hexadecimal digits, the last three within the
  width; \<open>None\<close> when the conversion fails or the file has ended.
\<close>

definition scan_sign :: "nat \<Rightarrow> string \<Rightarrow> bool \<times> nat \<times> string" where
  "scan_sign w s =
     (if s \<noteq> [] \<and> hd s = CHR ''-'' then (True, w - 1, tl s)
      else if s \<noteq> [] \<and> hd s = CHR ''+'' then (False, w - 1, tl s) else (False, w, s))"

definition scan_prefix :: "nat \<Rightarrow> string \<Rightarrow> nat \<times> string" where
  "scan_prefix w s =
     (if 2 \<le> w \<and> (take 2 s = ''0x'' \<or> take 2 s = ''0X'') then (w - 2, drop 2 s) else (w, s))"

definition scan_digits :: "nat \<Rightarrow> string \<Rightarrow> (nat \<times> string) option" where
  "scan_digits w s =
     (let ds = takeWhile (\<lambda>c. hex_value c \<noteq> None) (take w s)
      in if ds = [] then None else Some (hex_number ds, drop (length ds) s))"

definition fscanf_x :: "nat \<Rightarrow> string \<Rightarrow> (u32 \<times> string) option" where
  "fscanf_x width s =
     (case scan_sign width (dropWhile is_space s) of (negative, w1, s1) \<Rightarrow>
      case scan_prefix w1 s1 of (w2, s2) \<Rightarrow>
      case scan_digits w2 s2 of
        None \<Rightarrow> None
      | Some (n, s3) \<Rightarrow> Some (if negative then - of_nat n else of_nat n, s3))"

text \<open>\<open>assert(fscanf(...) == 1)\<close>.\<close>

definition assert_x :: "nat \<Rightarrow> string \<Rightarrow> sim_error + (u32 \<times> string)" where
  "assert_x width s = (case fscanf_x width s of None \<Rightarrow> Inl Assert_Failure | Some r \<Rightarrow> Inr r)"

subsection \<open>The parser\<close>

text \<open>\<open>sp_mem_set\<close>: the pointer to the memory unit is not null; the unit itself is an argument.\<close>

record srec_parser =
  sp_mem_set :: bool
  sp_starting_addr :: u32

definition new_srec_parser :: srec_parser where
  "new_srec_parser = \<lparr>sp_mem_set = False, sp_starting_addr = 0x40000000\<rparr>"

definition set_memory_unit :: "srec_parser \<Rightarrow> srec_parser" where
  "set_memory_unit p = p\<lparr>sp_mem_set := True\<rparr>"

abbreviation (input) MEMORY_ALIGNMENT :: u32 where "MEMORY_ALIGNMENT \<equiv> 4"

lemma scan_sign_length: "scan_sign w s = (b, w', s') \<Longrightarrow> length s' \<le> length s"
  by (auto simp: scan_sign_def split: if_splits)

lemma scan_prefix_length: "scan_prefix w s = (w', s') \<Longrightarrow> length s' \<le> length s"
  by (auto simp: scan_prefix_def split: if_splits)

lemma scan_digits_length: "scan_digits w s = Some (n, s') \<Longrightarrow> length s' < length s"
  by (cases s) (auto simp: scan_digits_def Let_def split: if_splits)

lemma fscanf_x_shorter:
  assumes "fscanf_x w s = Some (v, s')"
  shows "length s' < length s"
proof -
  obtain b w1 s1 where 1: "scan_sign w (dropWhile is_space s) = (b, w1, s1)" by (metis prod_cases3)
  obtain w2 s2 where 2: "scan_prefix w1 s1 = (w2, s2)" by (metis surj_pair)
  have "length (dropWhile is_space s) \<le> length s" by (rule length_dropWhile_le)
  then have "length s2 \<le> length s"
    using scan_sign_length [OF 1] scan_prefix_length [OF 2] by linarith
  moreover have "length s' < length s2"
    using assms 1 2 by (auto simp: fscanf_x_def split: option.splits dest: scan_digits_length)
  ultimately show ?thesis by linarith
qed

text \<open>The loop over the words of a data record, which ends since each round reads a word.\<close>

function read_words :: "int \<Rightarrow> u32 \<Rightarrow> memory_unit \<Rightarrow> string \<Rightarrow> sim_error + (memory_unit \<times> string)" where
  "read_words remaining_bytes current_addr m s =
     (if remaining_bytes = 1 then Inr (m, s)
      else case assert_x 8 s of
             Inl e \<Rightarrow> Inl e
           | Inr (next_word, s') \<Rightarrow>
               read_words (remaining_bytes - 4) (current_addr + MEMORY_ALIGNMENT)
                 (add_address current_addr next_word m) s')"
  by pat_completeness auto
termination
  by (relation "measure (\<lambda>(_, _, _, s). length s)")
    (auto simp: assert_x_def fscanf_x_shorter split: option.splits)

declare read_words.simps [simp del]


text \<open>
  One line: the result tells whether the return value is \<open>EOF\<close>.  A width of two reads at
  most two characters; a missing second one is the terminating zero.
\<close>

definition read_address :: "char \<Rightarrow> string \<Rightarrow> (sim_error + (int \<times> u32 \<times> string)) option" where
  "read_address c s =
     (let field = (\<lambda>width size. Some (case assert_x width s of
                     Inl e \<Rightarrow> Inl e | Inr (a, s') \<Rightarrow> Inr (size, a, s')))
      in if c = CHR ''1'' \<or> c = CHR ''9'' then field 4 2
         else if c = CHR ''2'' \<or> c = CHR ''8'' then field 6 3
         else if c = CHR ''3'' \<or> c = CHR ''7'' then field 8 4
         else None)"

definition skip_token :: "nat option \<Rightarrow> string \<Rightarrow> bool \<times> string" where
  "skip_token width s = (case fscanf_s width s of None \<Rightarrow> (True, []) | Some (_, s') \<Rightarrow> (False, s'))"

definition start_line ::
  "u32 \<Rightarrow> srec_parser \<Rightarrow> memory_unit \<Rightarrow> string \<Rightarrow> sim_error + (bool \<times> srec_parser \<times> memory_unit \<times> string)" where
  "start_line current_addr p m s =
     (case skip_token (Some 2) s of (eof, s') \<Rightarrow> Inr (eof, p\<lparr>sp_starting_addr := current_addr\<rparr>, m, s'))"

definition data_line ::
  "int \<Rightarrow> u32 \<Rightarrow> srec_parser \<Rightarrow> memory_unit \<Rightarrow> string \<Rightarrow>
   sim_error + (bool \<times> srec_parser \<times> memory_unit \<times> string)" where
  "data_line remaining_bytes current_addr p m s =
     (if remaining_bytes smod 4 \<noteq> 1 then Inr (True, p, m, s)
      else case read_words remaining_bytes current_addr m s of
             Inl e \<Rightarrow> Inl e
           | Inr (m', s') \<Rightarrow> (case skip_token (Some 2) s' of (eof, s'') \<Rightarrow> Inr (eof, p, m', s'')))"

definition readline ::
  "srec_parser \<Rightarrow> memory_unit \<Rightarrow> string \<Rightarrow> sim_error + (bool \<times> srec_parser \<times> memory_unit \<times> string)" where
  "readline p m s =
     (case fscanf_s (Some 2) s of
        None \<Rightarrow> Inr (True, p, m, [])
      | Some (s_type, s1) \<Rightarrow>
          let kind = (if 1 < length s_type then s_type ! 1 else CHR 0x00)
          in case assert_x 2 s1 of
               Inl e \<Rightarrow> Inl e
             | Inr (bytes, s2) \<Rightarrow>
                 (case read_address kind s2 of
                    None \<Rightarrow>
                      (case fscanf_s None s2 of
                         None \<Rightarrow> Inr (True, p, m, [])
                       | Some (trash, s3) \<Rightarrow>
                           if 515 \<le> length trash then Inl Undefined_Access else Inr (False, p, m, s3))
                  | Some (Inl e) \<Rightarrow> Inl e
                  | Some (Inr (n_addr, current_addr, s3)) \<Rightarrow>
                      let remaining_bytes = sint bytes - n_addr
                      in if kind = CHR ''7'' \<or> kind = CHR ''8'' \<or> kind = CHR ''9''
                         then start_line current_addr p m s3
                         else data_line remaining_bytes current_addr p m s3))"

lemma dropWhile_length: "length (dropWhile P s) \<le> length s"
  by (rule length_dropWhile_le)

lemma fscanf_s_shorter:
  assumes "fscanf_s w s = Some (tok, s')" "w \<noteq> Some 0"
  shows "length s' < length s"
proof -
  let ?s = "dropWhile is_space s"
  let ?in = "case w of None \<Rightarrow> ?s | Some n \<Rightarrow> take n ?s"
  have s: "?s \<noteq> []" "tok = takeWhile (\<lambda>c. \<not> is_space c) ?in" "s' = drop (length tok) ?s"
    using assms(1) by (auto simp: fscanf_s_def Let_def split: if_splits)
  obtain c r where c: "?s = c # r" using s(1) by (cases ?s) auto
  then have "\<not> is_space c" using hd_dropWhile [OF s(1)] by simp
  then have "tok \<noteq> []" using s(2) c assms(2) by (cases w) (auto simp: take_Cons split: nat.splits)
  then have "length s' < length ?s" using s(1,3) by simp
  then show ?thesis using dropWhile_length [of is_space s] by linarith
qed

lemma assert_x_shorter: "assert_x w s = Inr (v, s') \<Longrightarrow> length s' < length s"
  by (auto simp: assert_x_def fscanf_x_shorter split: option.splits)

lemma skip_token_length: "skip_token (Some 2) s = (eof, s') \<Longrightarrow> length s' \<le> length s"
  by (auto simp: skip_token_def split: option.splits dest: fscanf_s_shorter)

lemma read_address_length: "read_address c s = Some (Inr (n, a, s')) \<Longrightarrow> length s' \<le> length s"
  by (auto simp: read_address_def Let_def split: if_splits sum.splits dest: assert_x_shorter)

lemma read_words_length: "read_words r a m s = Inr (m', s') \<Longrightarrow> length s' \<le> length s"
proof (induction r a m s rule: read_words.induct)
  case (1 r a m s)
  show ?case
  proof (cases "r = 1")
    case False
    then obtain v s1 where v: "assert_x 8 s = Inr (v, s1)"
      and rec: "read_words (r - 4) (a + 4) (add_address a v m) s1 = Inr (m', s')"
      using "1.prems" by (auto simp: read_words.simps [of r] split: sum.splits)
    show ?thesis using "1.IH" [OF False v refl rec] assert_x_shorter [OF v] by simp
  qed (use "1.prems" in \<open>simp add: read_words.simps [of 1]\<close>)
qed

lemma start_line_length: "start_line a p m s = Inr (eof, p', m', s') \<Longrightarrow> length s' \<le> length s"
  by (auto simp: start_line_def split: prod.splits dest: skip_token_length)

lemma data_line_length:
  assumes "data_line r a p m s = Inr (eof, p', m', s')"
  shows "length s' \<le> length s"
proof (cases "r smod 4 = 1")
  case True
  then obtain m1 s1 where 1: "read_words r a m s = Inr (m1, s1)"
    using assms by (cases "read_words r a m s") (auto simp: data_line_def)
  then have "skip_token (Some 2) s1 = (eof, s')"
    using True assms by (auto simp: data_line_def split: prod.splits)
  then show ?thesis using skip_token_length read_words_length [OF 1] le_trans by blast
qed (use assms in \<open>simp add: data_line_def\<close>)

text \<open>A line that does not end the loop consumes input.\<close>

lemma readline_shorter:
  assumes "readline p m s = Inr (False, p', m', s')"
  shows "length s' < length s"
proof -
  obtain s_type s1 where 1: "fscanf_s (Some 2) s = Some (s_type, s1)"
    using assms by (cases "fscanf_s (Some 2) s") (auto simp: readline_def)
  define kind where "kind = (if 1 < length s_type then s_type ! 1 else CHR 0x00)"
  obtain bytes s2 where 2: "assert_x 2 s1 = Inr (bytes, s2)"
    using assms 1 by (cases "assert_x 2 s1") (auto simp: readline_def kind_def [symmetric] Let_def)
  note l = fscanf_s_shorter [OF 1] assert_x_shorter [OF 2]
  note r = assms [unfolded readline_def 1 option.case prod.case Let_def kind_def [symmetric] 2 sum.case]
  show ?thesis
  proof (cases "read_address kind s2")
    case None
    with r l show ?thesis by (auto split: option.splits if_splits dest: fscanf_s_shorter)
  next
    case (Some x)
    then obtain n a s3 where 3: "read_address kind s2 = Some (Inr (n, a, s3))"
      using r by (cases x) (auto simp del: One_nat_def)
    have "length s' \<le> length s3"
    proof (cases "kind = CHR ''7'' \<or> kind = CHR ''8'' \<or> kind = CHR ''9''")
      case True
      with r show ?thesis unfolding 3 by (auto intro: start_line_length)
    next
      case False
      with r show ?thesis unfolding 3 by (auto intro: data_line_length)
    qed
    then show ?thesis using l read_address_length [OF 3] by simp
  qed
qed

text \<open>The loop of \<open>parse\<close> over the lines, and \<open>parse\<close> itself with its two error returns.\<close>

function parse_lines :: "srec_parser \<Rightarrow> memory_unit \<Rightarrow> string \<Rightarrow> sim_error + (srec_parser \<times> memory_unit)" where
  "parse_lines p m s =
     (case readline p m s of
        Inl e \<Rightarrow> Inl e
      | Inr (eof, p', m', s') \<Rightarrow> if \<not> eof then parse_lines p' m' s' else Inr (p', m'))"
  by pat_completeness auto
termination
  by (relation "measure (\<lambda>(_, _, s). length s)") (auto simp: readline_shorter)

definition parse ::
  "(string \<Rightarrow> string option) \<Rightarrow> string \<Rightarrow> srec_parser \<Rightarrow> memory_unit \<Rightarrow>
   sim_error + (u32 \<times> srec_parser \<times> memory_unit)" where
  "parse fs filename p m =
     (if \<not> sp_mem_set p then Inr (0, p, m)
      else case fs filename of
             None \<Rightarrow> Inr (0, p, m)
           | Some text \<Rightarrow>
               (case parse_lines p m text of
                  Inl e \<Rightarrow> Inl e
                | Inr (p', m') \<Rightarrow> Inr (sp_starting_addr p', p', m')))"

declare parse_lines.simps [simp del]

end
