(* ===== verification/Srec_Format.thy ===== *)
theory Srec_Format
  imports Srec_Parser
begin

section \<open>Loading the text of S-records\<close>

text \<open>
  The text of a list of S-records, and what the parser makes of it.  A data record (S1, S2,
  S3) has an address of two, three or four bytes and a number of words; a start record (S9,
  S8, S7) has the address at which execution starts; the payload of any other record is
  skipped.  The checksums and the line ends are whatever the writer chose: \<open>ck\<close> and \<open>nl\<close>.
\<close>

datatype srec_line =
    Srec_Data nat u32 "u32 list"
  | Srec_Start nat u32
  | Srec_Other nat nat string

fun hex_text :: "nat \<Rightarrow> nat \<Rightarrow> string" where
  "hex_text 0 v = ''''"
| "hex_text (Suc n) v = hex_text n (v div 16) @ [hex_digits ! (v mod 16)]"

definition words_text :: "u32 list \<Rightarrow> string" where
  "words_text ws = concat (map (\<lambda>w. hex_text 8 (unat w)) ws)"

fun line_text :: "(srec_line \<Rightarrow> nat) \<Rightarrow> srec_line \<Rightarrow> string" where
  "line_text ck (Srec_Data ty a ws) =
     CHR ''S'' # hex_digits ! ty # hex_text 2 (4 * length ws + ty + 2) @ hex_text (2 * (ty + 1)) (unat a) @
     words_text ws @ hex_text 2 (ck (Srec_Data ty a ws))"
| "line_text ck (Srec_Start ty a) =
     CHR ''S'' # hex_digits ! ty # hex_text 2 (12 - ty) @ hex_text (2 * (11 - ty)) (unat a) @
     hex_text 2 (ck (Srec_Start ty a))"
| "line_text ck (Srec_Other ty n payload) =
     CHR ''S'' # hex_digits ! ty # hex_text 2 n @ payload"

definition srec_text :: "(srec_line \<Rightarrow> nat) \<Rightarrow> string \<Rightarrow> srec_line list \<Rightarrow> string" where
  "srec_text ck nl ls = concat (map (\<lambda>l. line_text ck l @ nl) ls)"

text \<open>The lines the format allows: addresses and counts that fit their fields.\<close>

fun wf_line :: "srec_line \<Rightarrow> bool" where
  "wf_line (Srec_Data ty a ws) \<longleftrightarrow> ty \<in> {1, 2, 3} \<and> unat a < 16 ^ (2 * (ty + 1)) \<and> 4 * length ws + ty + 2 < 256"
| "wf_line (Srec_Start ty a) \<longleftrightarrow> ty \<in> {7, 8, 9} \<and> unat a < 16 ^ (2 * (11 - ty))"
| "wf_line (Srec_Other ty n payload) \<longleftrightarrow> ty \<in> {0, 4, 5, 6} \<and> n < 256 \<and>
     payload \<noteq> [] \<and> list_all (\<lambda>c. \<not> is_space c) payload \<and> length payload < 515"

text \<open>What a line is for: words at consecutive addresses, or a start address.\<close>

fun load_words :: "u32 \<Rightarrow> u32 list \<Rightarrow> memory_unit \<Rightarrow> memory_unit" where
  "load_words a [] m = m"
| "load_words a (w # ws) m = load_words (a + 4) ws (m(a \<mapsto> w))"

fun load_line :: "srec_line \<Rightarrow> u32 \<times> memory_unit \<Rightarrow> u32 \<times> memory_unit" where
  "load_line (Srec_Data ty a ws) (start, m) = (start, load_words a ws m)"
| "load_line (Srec_Start ty a) (start, m) = (a, m)"
| "load_line (Srec_Other ty n payload) (start, m) = (start, m)"

subsection \<open>Fields\<close>

lemma hex_digit_facts:
  assumes "d < 16"
  shows "hex_value (hex_digits ! d) = Some d" "\<not> is_space (hex_digits ! d)"
    "hex_digits ! d \<noteq> CHR ''-''" "hex_digits ! d \<noteq> CHR ''+''"
    "hex_digits ! d \<noteq> CHR ''x''" "hex_digits ! d \<noteq> CHR ''X''"
proof -
  have "d = 0 \<or> d = 1 \<or> d = 2 \<or> d = 3 \<or> d = 4 \<or> d = 5 \<or> d = 6 \<or> d = 7 \<or>
      d = 8 \<or> d = 9 \<or> d = 10 \<or> d = 11 \<or> d = 12 \<or> d = 13 \<or> d = 14 \<or> d = 15"
    using assms by presburger
  then have "hex_value (hex_digits ! d) = Some d \<and> \<not> is_space (hex_digits ! d) \<and>
      hex_digits ! d \<noteq> CHR ''-'' \<and> hex_digits ! d \<noteq> CHR ''+'' \<and>
      hex_digits ! d \<noteq> CHR ''x'' \<and> hex_digits ! d \<noteq> CHR ''X''"
    by (auto simp: hex_digits_def hex_value_def is_space_def)
  then show "hex_value (hex_digits ! d) = Some d" "\<not> is_space (hex_digits ! d)"
    "hex_digits ! d \<noteq> CHR ''-''" "hex_digits ! d \<noteq> CHR ''+''"
    "hex_digits ! d \<noteq> CHR ''x''" "hex_digits ! d \<noteq> CHR ''X''"
    by simp_all
qed

lemma length_hex_text [simp]: "length (hex_text n v) = n"
  by (induction n arbitrary: v) simp_all

definition is_hex_digit :: "char \<Rightarrow> bool" where
  "is_hex_digit c \<longleftrightarrow> (\<exists>d < 16. c = hex_digits ! d)"

lemma hex_text_digits: "c \<in> set (hex_text n v) \<Longrightarrow> is_hex_digit c"
proof (induction n arbitrary: v)
  case (Suc n)
  have "is_hex_digit (hex_digits ! (v mod 16))" unfolding is_hex_digit_def by (rule exI [of _ "v mod 16"]) simp
  then show ?case using Suc by auto
qed simp

lemma is_hex_digit_facts:
  "is_hex_digit c \<Longrightarrow> hex_value c \<noteq> None" "is_hex_digit c \<Longrightarrow> \<not> is_space c"
  "is_hex_digit c \<Longrightarrow> c \<noteq> CHR ''-''" "is_hex_digit c \<Longrightarrow> c \<noteq> CHR ''+''"
  "is_hex_digit c \<Longrightarrow> c \<noteq> CHR ''x''" "is_hex_digit c \<Longrightarrow> c \<noteq> CHR ''X''"
  by (auto simp: is_hex_digit_def hex_digit_facts)

lemma hex_number_hex_text: "hex_number (hex_text n v) = v mod 16 ^ n"
proof (induction n arbitrary: v)
  case (Suc n)
  have "hex_number (hex_text (Suc n) v) = 16 * hex_number (hex_text n (v div 16)) + v mod 16"
    by (simp add: hex_number_def hex_digit_facts)
  then show ?case by (simp add: Suc.IH mod_mult2_eq [of v 16 "16 ^ n"])
qed (simp add: hex_number_def)

lemma scan_digits_hex_text:
  assumes "0 < n"
  shows "scan_digits n (hex_text n v @ r) = Some (v mod 16 ^ n, r)"
proof -
  have "takeWhile (\<lambda>c. hex_value c \<noteq> None) (hex_text n v) = hex_text n v"
    by (rule takeWhile_eq_all_conv [THEN iffD2]) (blast dest: hex_text_digits is_hex_digit_facts(1))
  then have "takeWhile (\<lambda>c. hex_value c \<noteq> None) (take n (hex_text n v @ r)) = hex_text n v" by simp
  moreover have "hex_text n v \<noteq> []" using assms length_hex_text [of n v] by (auto simp del: length_hex_text)
  ultimately show ?thesis
    unfolding scan_digits_def Let_def by (simp only: if_False hex_number_hex_text) simp
qed

lemma assert_x_hex_text:
  assumes "0 < n"
  shows "assert_x n (hex_text n v @ r) = Inr (of_nat (v mod 16 ^ n), r)"
proof -
  obtain c cs where c: "hex_text n v = c # cs" using assms by (cases "hex_text n v") (auto simp: list_eq_iff_nth_eq)
  then have h: "is_hex_digit c" using hex_text_digits [of c n v] by simp
  have "take 2 (hex_text n v @ r) \<noteq> [b, d]" if "2 \<le> n" "\<not> is_hex_digit d" for b d
  proof
    assume "take 2 (hex_text n v @ r) = [b, d]"
    then have "take 2 (hex_text n v) = [b, d]" using that(1) by simp
    then have "d \<in> set (hex_text n v)" by (metis in_set_takeD list.set_intros)
    then show False using that(2) hex_text_digits by blast
  qed
  moreover have "\<not> is_hex_digit CHR ''x''" "\<not> is_hex_digit CHR ''X''"
    using is_hex_digit_facts(5,6) by blast+
  ultimately have "scan_prefix n (hex_text n v @ r) = (n, hex_text n v @ r)"
    unfolding scan_prefix_def by (metis (no_types, lifting))
  moreover have "dropWhile is_space (hex_text n v @ r) = hex_text n v @ r"
    using is_hex_digit_facts(2) [OF h] by (simp add: c)
  moreover have "scan_sign n (hex_text n v @ r) = (False, n, hex_text n v @ r)"
    using is_hex_digit_facts(3,4) [OF h] by (simp add: scan_sign_def c)
  ultimately show ?thesis
    by (simp add: assert_x_def fscanf_x_def scan_digits_hex_text [OF assms])
qed

lemma fscanf_s_word:
  assumes "length t = 2" "list_all (\<lambda>c. \<not> is_space c) t"
  shows "fscanf_s (Some 2) (t @ r) = Some (t, r)"
proof -
  obtain a b where "t = [a, b]" using assms(1) by (auto simp: length_Suc_conv numeral_2_eq_2)
  with assms(2) show ?thesis by (simp add: fscanf_s_def Let_def)
qed

subsection \<open>Lines\<close>

lemma fscanf_s_blanks: "list_all is_space b \<Longrightarrow> fscanf_s w (b @ s) = fscanf_s w s"
  by (induction b) (simp_all add: fscanf_s_def)

lemma readline_blanks: "list_all is_space b \<Longrightarrow> readline p m (b @ s) = readline p m s"
  by (simp add: readline_def fscanf_s_blanks)

lemma fscanf_s_token:
  assumes "t \<noteq> []" "list_all (\<lambda>c. \<not> is_space c) t" "r = [] \<or> is_space (hd r)"
  shows "fscanf_s None (t @ r) = Some (t, r)"
proof -
  obtain c cs where t: "t = c # cs" using assms(1) by (cases t) auto
  have "dropWhile is_space (t @ r) = t @ r" using assms(2) t by simp
  moreover have "takeWhile (\<lambda>c. \<not> is_space c) (t @ r) = t"
    using assms(2,3) by (cases r) (auto simp: takeWhile_append2 list_all_iff takeWhile_tail)
  ultimately show ?thesis using assms(1) by (simp add: fscanf_s_def Let_def)
qed

lemma skip_checksum: "skip_token (Some 2) (hex_text 2 c @ r) = (False, r)"
proof -
  have "list_all (\<lambda>c. \<not> is_space c) (hex_text 2 c)"
    by (auto simp: list_all_iff dest: hex_text_digits is_hex_digit_facts(2))
  then show ?thesis by (simp add: skip_token_def fscanf_s_word)
qed

lemma unat_u32_less: "unat (w :: u32) < 4294967296"
  using unsigned_less [of w, where ?'a = nat] by simp

lemma read_words_text:
  "read_words (4 * int (length ws) + 1) a m (words_text ws @ r) = Inr (load_words a ws m, r)"
proof (induction ws arbitrary: a m)
  case Nil
  then show ?case by (simp add: words_text_def read_words.simps)
next
  case (Cons w ws)
  have v: "assert_x 8 (words_text (w # ws) @ r) = Inr (w, words_text ws @ r)"
    using assert_x_hex_text [of 8 "unat w" "words_text ws @ r"] unat_u32_less [of w]
    by (simp add: words_text_def)
  have "4 * int (length (w # ws)) + 1 \<noteq> 1" "4 * int (length (w # ws)) + 1 - 4 = 4 * int (length ws) + 1"
    by simp_all
  then show ?case
    using Cons.IH [of "a + 4" "m(a \<mapsto> w)"]
    by (subst read_words.simps) (simp add: v add_address_def del: fun_upd_apply, simp add: add.commute)
qed

lemma start_of_line:
  assumes "ty < 16"
  shows "fscanf_s (Some 2) (CHR ''S'' # hex_digits ! ty # r) = Some ([CHR ''S'', hex_digits ! ty], r)"
  using fscanf_s_word [of "[CHR ''S'', hex_digits ! ty]" r] hex_digit_facts(2) [OF assms]
  by (simp add: is_space_def)

lemma read_count:
  assumes "n < 256"
  shows "assert_x 2 (hex_text 2 n @ r) = Inr (of_nat n, r)" "sint (of_nat n :: u32) = int n"
proof -
  show "assert_x 2 (hex_text 2 n @ r) = Inr (of_nat n, r)"
    using assms by (simp add: assert_x_hex_text)
  show "sint (of_nat n :: u32) = int n"
    using assms by (simp add: signed_of_nat signed_take_bit_int_eq_self)
qed

lemma readline_kind:
  assumes "ty < 16" "n < 256"
  shows "readline p m (CHR ''S'' # hex_digits ! ty # hex_text 2 n @ r) =
    (case read_address (hex_digits ! ty) r of
       None \<Rightarrow>
         (case fscanf_s None r of
            None \<Rightarrow> Inr (True, p, m, [])
          | Some (trash, s3) \<Rightarrow> if 515 \<le> length trash then Inl Undefined_Access else Inr (False, p, m, s3))
     | Some (Inl e) \<Rightarrow> Inl e
     | Some (Inr (n_addr, current_addr, s3)) \<Rightarrow>
         if hex_digits ! ty = CHR ''7'' \<or> hex_digits ! ty = CHR ''8'' \<or> hex_digits ! ty = CHR ''9''
         then start_line current_addr p m s3
         else data_line (int n - n_addr) current_addr p m s3)"
proof -
  have k: "(if 1 < length [CHR ''S'', hex_digits ! ty] then [CHR ''S'', hex_digits ! ty] ! 1 else CHR 0x00) =
      hex_digits ! ty" by simp
  show ?thesis
    unfolding readline_def start_of_line [OF assms(1)] option.case prod.case Let_def k
      read_count [OF assms(2)] sum.case by (rule refl)
qed

lemma read_address_data:
  assumes "ty \<in> {1, 2, 3}" "unat a < 16 ^ (2 * (ty + 1))"
  shows "read_address (hex_digits ! ty) (hex_text (2 * (ty + 1)) (unat a) @ r) = Some (Inr (int ty + 1, a, r))"
proof -
  have "assert_x (2 * (ty + 1)) (hex_text (2 * (ty + 1)) (unat a) @ r) = Inr (a, r)"
    using assms(2) by (simp add: assert_x_hex_text del: hex_text.simps)
  then show ?thesis
    using assms(1) by (elim insertE emptyE) (simp_all add: read_address_def hex_digits_def del: hex_text.simps)
qed

lemma read_address_start:
  assumes "ty \<in> {7, 8, 9}" "unat a < 16 ^ (2 * (11 - ty))"
  shows "read_address (hex_digits ! ty) (hex_text (2 * (11 - ty)) (unat a) @ r) = Some (Inr (11 - int ty, a, r))"
proof -
  have "assert_x (2 * (11 - ty)) (hex_text (2 * (11 - ty)) (unat a) @ r) = Inr (a, r)"
    using assms by (intro trans [OF assert_x_hex_text]) auto
  then show ?thesis
    using assms(1) by (elim insertE emptyE) (simp_all add: read_address_def hex_digits_def del: hex_text.simps)
qed

lemma read_address_other:
  assumes "ty \<in> {0, 4, 5, 6}"
  shows "read_address (hex_digits ! ty) s = None"
  using assms by (elim insertE emptyE) (simp_all add: read_address_def hex_digits_def)

text \<open>A well-formed line is read to its end, with the effect it is for.\<close>

lemma readline_data:
  assumes "wf_line (Srec_Data ty a ws)"
  shows "readline p m (line_text ck (Srec_Data ty a ws) @ r) = Inr (False, p, load_words a ws m, r)"
proof -
  define c where "c = 4 * length ws + ty + 2"
  have ty: "ty \<in> {1, 2, 3}" "ty < 16" "c < 256" using assms by (auto simp: c_def)
  have k: "\<not> (hex_digits ! ty = CHR ''7'' \<or> hex_digits ! ty = CHR ''8'' \<or> hex_digits ! ty = CHR ''9'')"
    using ty(1) by (elim insertE emptyE) (simp_all add: hex_digits_def)
  have rem: "int c - (int ty + 1) = 4 * int (length ws) + 1" by (simp add: c_def)
  have m: "(4 * int (length ws) + 1) smod 4 = 1" by (simp add: signed_modulo_int_def signed_divide_int_def)
  have a: "unat a < 16 ^ (2 * (ty + 1))" using assms by simp
  show ?thesis
    unfolding line_text.simps c_def [symmetric] append_Cons append_assoc readline_kind [OF ty(2,3)]
      read_address_data [OF ty(1) a]
    by (simp add: k data_line_def read_words_text skip_checksum rem m del: hex_text.simps)
qed

lemma readline_start:
  assumes "wf_line (Srec_Start ty a)"
  shows "readline p m (line_text ck (Srec_Start ty a) @ r) = Inr (False, p\<lparr>sp_starting_addr := a\<rparr>, m, r)"
proof -
  have ty: "ty \<in> {7, 8, 9}" "ty < 16" "12 - ty < 256" using assms by auto
  have k: "hex_digits ! ty = CHR ''7'' \<or> hex_digits ! ty = CHR ''8'' \<or> hex_digits ! ty = CHR ''9''"
    using ty(1) by (elim insertE emptyE) (simp_all add: hex_digits_def)
  have a: "unat a < 16 ^ (2 * (11 - ty))" using assms by simp
  show ?thesis
    unfolding line_text.simps append_Cons append_assoc readline_kind [OF ty(2,3)] read_address_start [OF ty(1) a]
    using k by (simp add: start_line_def skip_checksum del: hex_text.simps)
qed

lemma readline_other:
  assumes "wf_line (Srec_Other ty n payload)" "r = [] \<or> is_space (hd r)"
  shows "readline p m (line_text ck (Srec_Other ty n payload) @ r) = Inr (False, p, m, r)"
proof -
  have ty: "ty \<in> {0, 4, 5, 6}" "ty < 16" "n < 256" using assms(1) by auto
  have t: "fscanf_s None (payload @ r) = Some (payload, r)"
    using assms by (intro fscanf_s_token) auto
  show ?thesis
    unfolding line_text.simps append_Cons append_assoc readline_kind [OF ty(2,3)] read_address_other [OF ty(1)] t
    using assms(1) by simp
qed

lemma readline_line:
  assumes "wf_line l" "r = [] \<or> is_space (hd r)"
  shows "readline p m (line_text ck l @ r) =
    (case load_line l (sp_starting_addr p, m) of (start, m') \<Rightarrow> Inr (False, p\<lparr>sp_starting_addr := start\<rparr>, m', r))"
  using assms by (cases l) (simp_all only: readline_data readline_start readline_other load_line.simps, simp_all)

lemma parse_lines_blanks: "list_all is_space b \<Longrightarrow> parse_lines p m (b @ s) = parse_lines p m s"
  using readline_blanks [of b p m s] by (simp add: parse_lines.simps [of p m])

lemma parse_lines_text:
  assumes "nl \<noteq> []" "list_all is_space nl" "list_all wf_line ls"
  shows "parse_lines p m (srec_text ck nl ls @ r) =
    (case fold load_line ls (sp_starting_addr p, m) of (start, m') \<Rightarrow> parse_lines (p\<lparr>sp_starting_addr := start\<rparr>) m' r)"
  using assms(3)
proof (induction ls arbitrary: p m)
  case Nil
  then show ?case by (simp add: srec_text_def)
next
  case (Cons l ls)
  let ?r = "srec_text ck nl ls @ r"
  have lines: "srec_text ck nl (l # ls) @ r = line_text ck l @ nl @ ?r"
    by (simp add: srec_text_def)
  have "hd (nl @ ?r) \<in> set nl" using assms(1) by simp
  then have nl: "is_space (hd (nl @ ?r))" using assms(2) by (simp add: list_all_iff)
  obtain start m1 where l: "load_line l (sp_starting_addr p, m) = (start, m1)" by (metis surj_pair)
  have "parse_lines p m (srec_text ck nl (l # ls) @ r) = parse_lines (p\<lparr>sp_starting_addr := start\<rparr>) m1 (nl @ ?r)"
    using Cons.prems nl by (simp add: lines parse_lines.simps [of p m] readline_line l)
  also have "\<dots> = parse_lines (p\<lparr>sp_starting_addr := start\<rparr>) m1 ?r"
    by (rule parse_lines_blanks [OF assms(2)])
  finally show ?case using Cons by (simp add: l)
qed

lemma parse_lines_end: "parse_lines p m [] = Inr (p, m)"
  by (simp add: parse_lines.simps [of p m] readline_def fscanf_s_def)

text \<open>A data record with a count that is no whole number of words ends the loop.\<close>

lemma parse_lines_malformed:
  assumes "ty \<in> {1, 2, 3}" "unat (a :: u32) < 16 ^ (2 * (ty + 1))" "n < 256" "(int n - (int ty + 1)) smod 4 \<noteq> 1"
  shows "parse_lines p m (CHR ''S'' # hex_digits ! ty # hex_text 2 n @ hex_text (2 * (ty + 1)) (unat a) @ r) = Inr (p, m)"
proof -
  have ty: "ty < 16" using assms(1) by auto
  have k: "\<not> (hex_digits ! ty = CHR ''7'' \<or> hex_digits ! ty = CHR ''8'' \<or> hex_digits ! ty = CHR ''9'')"
    using assms(1) by (elim insertE emptyE) (simp_all add: hex_digits_def)
  show ?thesis
    unfolding parse_lines.simps [of p m] readline_kind [OF ty assms(3)] read_address_data [OF assms(1,2)]
    using assms(4) k by (simp add: data_line_def)
qed

end
