(* ===== verification/Bound_Parser.thy ===== *)
theory Bound_Parser
  imports Memory_Controller Srec_Format "HOL-Library.Monad_Syntax"
begin

section \<open>Static scratchpad bounds (include/static\_bound\_parser.h, src/core/static\_bound\_parser.cpp)\<close>

text \<open>
  Fills one half of a thread's scratchpad with the words of main memory that the lines of a
  file name, each line the bounds of a range of addresses in hexadecimal.  The memory
  controller the parser holds a pointer to is an argument, and the files are a parameter as
  for the S-record parser.  \<open>extract_hex\<close> is the extraction of an unsigned number from a
  string stream: a failed stream extracts nothing, an empty one leaves the variable, no
  digits give zero and too many the largest number, and the last three fail the stream.

  The loop over a range counts two addresses up and compares each with its end, so it is a
  partial function; it returns for both halves, since it stops at the end of the half.
\<close>

abbreviation (input) INST_SCRATCH_START :: u32 where "INST_SCRATCH_START \<equiv> 0"
abbreviation (input) DATA_SCRATCH_START :: u32 where "DATA_SCRATCH_START \<equiv> of_nat SCRATCH_SIZE div 2"

definition extract_hex :: "bool \<times> string \<Rightarrow> u32 \<Rightarrow> (bool \<times> string) \<times> u32" where
  "extract_hex st old =
     (case st of (good, s) \<Rightarrow>
        let s0 = dropWhile is_space s
        in if \<not> good then (st, old)
           else if s0 = [] then ((False, []), old)
           else case scan_sign (length s0) s0 of (negative, w1, s1) \<Rightarrow>
                case scan_prefix w1 s1 of (w2, s2) \<Rightarrow>
                case scan_digits w2 s2 of
                  None \<Rightarrow> ((False, s2), 0)
                | Some (n, s3) \<Rightarrow>
                    if 2 ^ 32 \<le> n then ((False, s3), - 1)
                    else ((True, s3), if negative then - of_nat n else of_nat n))"

text \<open>\<open>ss >> hex >> min >> max\<close> on a line, with what the variables held before it.\<close>

definition read_bounds :: "string \<Rightarrow> u32 \<times> u32 \<Rightarrow> u32 \<times> u32" where
  "read_bounds line bounds =
     (case bounds of (min0, max0) \<Rightarrow>
      case extract_hex (True, line) min0 of (st, min1) \<Rightarrow>
      case extract_hex st max0 of (_, max1) \<Rightarrow> (min1, max1))"

text \<open>The lines that \<open>getline\<close> gives until the end of the file is met.\<close>

function file_lines :: "string \<Rightarrow> string list" where
  "file_lines s =
     (let line = takeWhile (\<lambda>c. c \<noteq> CHR 0x0A) s; rest = dropWhile (\<lambda>c. c \<noteq> CHR 0x0A) s
      in if rest = [] then [line] else line # file_lines (tl rest))"
  by pat_completeness auto
termination
proof (relation "measure length", simp, clarsimp)
  fix s :: string and c
  assume "c \<in> set s"
  then have "0 < length s" by (cases s) auto
  then show "length (dropWhile (\<lambda>c. c \<noteq> CHR 0x0A) s) - Suc 0 < length s"
    using length_dropWhile_le [of "\<lambda>c. c \<noteq> CHR 0x0A" s] by linarith
qed

declare file_lines.simps [simp del]

text \<open>The words of one range; the flag is the early return for a range that does not fit.\<close>

partial_function (option) load_range ::
  "memory_unit \<Rightarrow> u32 \<Rightarrow> u32 \<Rightarrow> u32 \<Rightarrow> u32 \<Rightarrow> l1_scratch \<Rightarrow> (l1_scratch \<times> bool) option" where
  "load_range main_memory scratch_end_addr max_addr addr spm_addr s =
     (if addr < max_addr
      then let data = mem_at main_memory addr
           in if spm_addr \<ge> scratch_end_addr then Some (s, True)
              else load_range main_memory scratch_end_addr max_addr (addr + 4) (spm_addr + 4)
                     (add_addr addr spm_addr data s)
      else Some (s, False))"

fun load_bounds ::
  "memory_unit \<Rightarrow> u32 \<Rightarrow> u32 \<times> u32 \<Rightarrow> string list \<Rightarrow> l1_scratch \<Rightarrow> l1_scratch option" where
  "load_bounds main_memory scratch_start_addr bounds [] s = Some s"
| "load_bounds main_memory scratch_start_addr bounds (line # lines) s =
     (case read_bounds line bounds of (min_addr, max_addr) \<Rightarrow>
        let spm_addr = scratch_start_addr; scratch_end_addr = scratch_start_addr + of_nat SCRATCH_SIZE div 2
        in if length line > 0
           then do {
             (s', overloaded) \<leftarrow> load_range main_memory scratch_end_addr max_addr min_addr spm_addr s;
             if overloaded then Some s'
             else load_bounds main_memory scratch_start_addr (min_addr, max_addr) lines s'
           }
           else load_bounds main_memory scratch_start_addr (min_addr, max_addr) lines s)"

definition load_spm ::
  "(string \<Rightarrow> string option) \<Rightarrow> nat \<Rightarrow> string \<Rightarrow> u32 \<Rightarrow> memory_controller \<Rightarrow> memory_controller option" where
  "load_spm fs tid spm scratch_start_addr mc =
     (case fs spm of
        None \<Rightarrow> Some mc
      | Some file \<Rightarrow> do {
          s \<leftarrow> load_bounds (w_mem (mc_main_mem mc)) scratch_start_addr (0, 0) (file_lines file)
                 (mc_inst_scratchpad mc ! tid);
          Some (mc\<lparr>mc_inst_scratchpad := (mc_inst_scratchpad mc)[tid := s]\<rparr>)
        })"

definition load_data_spm ::
  "(string \<Rightarrow> string option) \<Rightarrow> nat \<Rightarrow> string \<Rightarrow> memory_controller \<Rightarrow> memory_controller option" where
  "load_data_spm fs tid dspm mc = load_spm fs tid dspm DATA_SCRATCH_START mc"

definition load_inst_spm ::
  "(string \<Rightarrow> string option) \<Rightarrow> nat \<Rightarrow> string \<Rightarrow> memory_controller \<Rightarrow> memory_controller option" where
  "load_inst_spm fs tid ispm mc = load_spm fs tid ispm INST_SCRATCH_START mc"

subsection \<open>The loops return\<close>

text \<open>
  What the loop over a range does when it fits: it fills the words of the half in order.
\<close>

fun fill :: "memory_unit \<Rightarrow> nat \<Rightarrow> u32 \<Rightarrow> u32 \<Rightarrow> l1_scratch \<Rightarrow> l1_scratch" where
  "fill main_memory 0 addr spm_addr s = s"
| "fill main_memory (Suc n) addr spm_addr s =
     fill main_memory n (addr + 4) (spm_addr + 4) (add_addr addr spm_addr (mem_at main_memory addr) s)"

lemma load_range_fill:
  assumes "unat spm + 4 * k = unat e"
  shows "\<exists>n \<le> k. \<exists>over. load_range m e mx a spm s = Some (fill m n a spm s, over)"
  using assms
proof (induction k arbitrary: a spm s)
  case 0
  then have "spm \<ge> e" by (simp add: word_le_nat_alt)
  then show ?case by (subst load_range.simps) (auto intro: exI [of _ 0])
next
  case (Suc k)
  from Suc.prems have "spm < e" and "unat (spm + 4) + 4 * k = unat e"
    using unsigned_less [of e, where ?'a = nat] by (auto simp: word_less_nat_alt unat_word_ariths)
  from Suc.IH [OF this(2), of "a + 4" "add_addr a spm (mem_at m a) s"] obtain n over where
    "n \<le> k" "load_range m e mx (a + 4) (spm + 4) (add_addr a spm (mem_at m a) s) =
       Some (fill m n (a + 4) (spm + 4) (add_addr a spm (mem_at m a) s), over)" by auto
  then have "load_range m e mx a spm s = (if a < mx then Some (fill m (Suc n) a spm s, over) else Some (fill m 0 a spm s, False))"
    using \<open>spm < e\<close> leD by (subst load_range.simps) (auto simp: Let_def)
  with \<open>n \<le> k\<close> show ?case by (metis Suc_le_mono le0)
qed

text \<open>A range of \<open>n\<close> words, and a half with room for \<open>k\<close>: all words, or the first \<open>k\<close>.\<close>

definition spans :: "u32 \<Rightarrow> nat \<Rightarrow> u32 \<Rightarrow> bool" where
  "spans a n mx \<longleftrightarrow> unat a + 4 * n < 2 ^ 32 \<and> unat mx \<le> unat a + 4 * n \<and> (n = 0 \<or> unat a + 4 * n < unat mx + 4)"

lemma spans_0: "spans a 0 mx \<Longrightarrow> \<not> a < mx"
  by (simp add: spans_def word_less_nat_alt)

lemma spans_Suc: "spans a (Suc n) mx \<Longrightarrow> a < mx \<and> spans (a + 4) n mx"
  by (auto simp: spans_def word_less_nat_alt unat_word_ariths)

lemma load_range_spans:
  assumes "spans a n mx" "unat spm + 4 * k = unat e"
  shows "load_range m e mx a spm s = Some (fill m (min n k) a spm s, k < n)"
  using assms
proof (induction n arbitrary: a spm s k)
  case 0
  then show ?case using spans_0 by (subst load_range.simps) simp
next
  case (Suc n)
  note a = spans_Suc [OF Suc.prems(1)]
  show ?case
  proof (cases k)
    case 0
    then have "e \<le> spm" using Suc.prems(2) by (simp add: word_le_nat_alt)
    then show ?thesis using a 0 by (subst load_range.simps) simp
  next
    case (Suc k')
    then have "spm < e" and e: "unat (spm + 4) + 4 * k' = unat e"
      using Suc.prems(2) unsigned_less [of e, where ?'a = nat] by (auto simp: word_less_nat_alt unat_word_ariths)
    then show ?thesis
      using a Suc Suc.IH [OF conjunct2 [OF a] e] leD by (subst load_range.simps) (auto simp: Let_def)
  qed
qed

lemma load_bounds_returns:
  assumes "start = INST_SCRATCH_START \<or> start = DATA_SCRATCH_START"
  obtains s' where "load_bounds m start bounds lines s = Some s'"
proof -
  have e: "unat start + 4 * 0x2000 = unat (start + of_nat SCRATCH_SIZE div 2)" using assms by auto
  have "\<exists>s'. load_bounds m start bounds lines s = Some s'"
  proof (induction lines arbitrary: bounds s)
    case (Cons line lines)
    obtain mn mx where b: "read_bounds line bounds = (mn, mx)" by (metis surj_pair)
    obtain n over where "load_range m (start + of_nat SCRATCH_SIZE div 2) mx mn start s = Some (fill m n mn start s, over)"
      using load_range_fill [OF e, of m mx mn s] by auto
    then show ?case using Cons.IH by (simp add: b)
  qed simp
  then show ?thesis using that by auto
qed

lemma load_spm_returns:
  assumes "start = INST_SCRATCH_START \<or> start = DATA_SCRATCH_START"
  obtains s where "load_spm fs tid spm start mc =
    Some (mc\<lparr>mc_inst_scratchpad := (mc_inst_scratchpad mc)[tid := s]\<rparr>)"
proof (cases "fs spm")
  case None
  then show ?thesis using that [of "mc_inst_scratchpad mc ! tid"] by (simp add: load_spm_def)
next
  case (Some body)
  from load_bounds_returns [OF assms] obtain s where
    "load_bounds (w_mem (mc_main_mem mc)) start (0, 0) (file_lines body) (mc_inst_scratchpad mc ! tid) = Some s" .
  then show ?thesis using that [of s] Some by (simp add: load_spm_def)
qed

subsection \<open>What is in the scratchpad afterwards\<close>

text \<open>\<open>coherent m s\<close>: every word in the scratchpad is the word main memory has there.\<close>

definition coherent :: "memory_unit \<Rightarrow> l1_scratch \<Rightarrow> bool" where
  "coherent m s \<longleftrightarrow> (\<forall>a. has_address a (l1_mem s) \<longrightarrow> mem_at (l1_mem s) a = mem_at m a)"

lemma coherent_add_addr: "coherent m s \<Longrightarrow> coherent m (add_addr a spm (mem_at m a) s)"
  by (simp add: coherent_def add_addr_def Let_def mem_at_add mem_at_remove)

lemma fill_keeps:
  assumes "\<And>a spm s. P s \<Longrightarrow> P (add_addr a spm (mem_at m a) s)" "P s"
  shows "P (fill m n a spm s)"
  using assms(2) by (induction n arbitrary: a spm s) (simp_all add: assms(1))

lemma load_range_keeps:
  assumes "\<And>a spm s. P s \<Longrightarrow> P (add_addr a spm (mem_at m a) s)" "P s" "unat spm + 4 * k = unat e"
    "load_range m e mx a spm s = Some (s', over)"
  shows "P s'"
  using load_range_fill [OF assms(3), of m mx a s] assms(4) fill_keeps [of P, OF assms(1,2)] by auto

lemma load_bounds_keeps:
  assumes "\<And>a spm s. P s \<Longrightarrow> P (add_addr a spm (mem_at m a) s)"
    and "start = INST_SCRATCH_START \<or> start = DATA_SCRATCH_START"
    and "P s" "load_bounds m start bounds lines s = Some s'"
  shows "P s'"
  using assms(3,4)
proof (induction lines arbitrary: bounds s)
  case (Cons line lines)
  have e: "unat start + 4 * 0x2000 = unat (start + of_nat SCRATCH_SIZE div 2)" using assms(2) by auto
  obtain mn mx where b: "read_bounds line bounds = (mn, mx)" by (metis surj_pair)
  obtain n over where l: "load_range m (start + of_nat SCRATCH_SIZE div 2) mx mn start s = Some (fill m n mn start s, over)"
    using load_range_fill [OF e, of m mx mn s] by auto
  have "P (fill m n mn start s)" by (rule fill_keeps) (use assms(1) Cons.prems(1) in auto)
  then show ?case using Cons b l by (auto split: if_splits)
qed simp

text \<open>
  The words of a range and the slots they go to, for a place of \<open>n\<close> slots from slot \<open>i\<close>.
\<close>

definition range_addrs :: "u32 \<Rightarrow> nat \<Rightarrow> u32 set" where
  "range_addrs a n = (\<lambda>i. a + of_nat (4 * i)) ` {..<n}"

definition old_addrs :: "nat \<Rightarrow> nat \<Rightarrow> l1_scratch \<Rightarrow> u32 set" where
  "old_addrs i n s = (\<lambda>j. l1_main_memory_address s ! j) ` {i..<i + n}"

lemma range_addrs_0 [simp]: "range_addrs a 0 = {}"
  by (simp add: range_addrs_def)

lemma range_addrs_Suc: "range_addrs a (Suc n) = insert a (range_addrs (a + 4) n)"
  unfolding range_addrs_def lessThan_Suc_eq_insert_0 by (simp add: image_image add.assoc)

lemma old_addrs_0 [simp]: "old_addrs i 0 s = {}"
  by (simp add: old_addrs_def)

lemma old_addrs_Suc: "old_addrs i (Suc n) s = insert (l1_main_memory_address s ! i) (old_addrs (Suc i) n s)"
proof -
  have "{i..<i + Suc n} = insert i {Suc i..<Suc i + n}" by auto
  then show ?thesis by (simp add: old_addrs_def)
qed

lemma range_addrs_fresh:
  assumes "unat a + 4 * Suc n \<le> 2 ^ 32"
  shows "a \<notin> range_addrs (a + 4) n"
proof
  assume "a \<in> range_addrs (a + 4) n"
  then obtain i where i: "i < n" "a = a + 4 + of_nat (4 * i)" by (auto simp: range_addrs_def)
  then have "(of_nat (4 * Suc i) :: u32) = 0" by (simp add: add.assoc)
  then have "(2 :: nat) ^ 32 dvd 4 * Suc i" unfolding word_of_nat_eq_0_iff by simp
  then have "2 ^ 32 \<le> 4 * Suc i" by (rule dvd_imp_le) simp
  then show False using i(1) assms by simp
qed

text \<open>Slot \<open>i\<close> of the scratchpad is location \<open>4 i\<close>.\<close>

lemma add_addr_slot:
  assumes "unat spm = 4 * i" "i < 0x4000"
  shows "add_addr a spm v s = s\<lparr>l1_main_memory_address := (l1_main_memory_address s)[i := a],
      l1_mem := add_address a v (remove_address (l1_main_memory_address s ! i) (l1_mem s))\<rparr>"
proof -
  have "spm mod 4 = 0" using assms(1) by (simp add: word_arith_nat_mod)
  moreover have "spm < 0x10000" using assms by (simp add: word_less_nat_alt)
  moreover have "unat (spm div 4) = i" using assms(1) by (simp add: unat_div)
  ultimately show ?thesis by (simp add: add_addr_def in_spm_range_def Let_def)
qed

lemma next_slot: "unat (spm :: u32) = 4 * i \<Longrightarrow> i < 0x4000 \<Longrightarrow> unat (spm + 4) = 4 * Suc i"
  by (simp add: unat_word_ariths)

lemma old_addrs_add_addr:
  assumes "unat spm = 4 * i" "i < 0x4000"
  shows "old_addrs (Suc i) n (add_addr a spm v s) = old_addrs (Suc i) n s"
  by (simp add: add_addr_slot [OF assms] old_addrs_def)

lemma has_address_add_addr:
  assumes "unat spm = 4 * i" "i < 0x4000"
  shows "has_address x (l1_mem (add_addr a spm v s)) \<longleftrightarrow>
    x = a \<or> has_address x (l1_mem s) \<and> x \<noteq> l1_main_memory_address s ! i"
  by (auto simp: add_addr_slot [OF assms])

lemma fill_other:
  assumes "unat spm = 4 * i" "i + n \<le> 0x4000" "x \<notin> range_addrs a n"
  shows "has_address x (l1_mem (fill m n a spm s)) \<longleftrightarrow> has_address x (l1_mem s) \<and> x \<notin> old_addrs i n s"
  using assms
proof (induction n arbitrary: i a spm s)
  case (Suc n)
  then have i: "i < 0x4000" by simp
  show ?case
    using Suc.IH [OF next_slot [OF Suc.prems(1) i]] Suc.prems
    by (auto simp: range_addrs_Suc old_addrs_Suc old_addrs_add_addr [OF Suc.prems(1) i]
        has_address_add_addr [OF Suc.prems(1) i])
qed simp

lemma fill_range:
  assumes "unat spm = 4 * i" "i + n \<le> 0x4000" "unat a + 4 * n \<le> 2 ^ 32"
    "x \<in> range_addrs a n" "x \<notin> old_addrs i n s"
  shows "has_address x (l1_mem (fill m n a spm s))"
  using assms
proof (induction n arbitrary: i a spm s)
  case (Suc n)
  let ?s = "add_addr a spm (mem_at m a) s"
  from Suc.prems have i: "i < 0x4000" by simp
  have old: "x \<notin> old_addrs (Suc i) n ?s"
    using Suc.prems(5) by (simp add: old_addrs_Suc old_addrs_add_addr [OF Suc.prems(1) i])
  note spm = next_slot [OF Suc.prems(1) i]
  show ?case
  proof (cases "x = a")
    case True
    have "has_address x (l1_mem ?s)" by (simp add: has_address_add_addr [OF Suc.prems(1) i] True)
    moreover have "x \<notin> range_addrs (a + 4) n" unfolding True using Suc.prems(3) by (rule range_addrs_fresh)
    ultimately show ?thesis using fill_other [OF spm, of n x "a + 4" m ?s] Suc.prems(2) old by simp
  next
    case False
    then have x: "x \<in> range_addrs (a + 4) n" using Suc.prems(4) by (simp add: range_addrs_Suc)
    then have "0 < n" by (cases n) auto
    then have "unat (a + 4) + 4 * n \<le> 2 ^ 32" using Suc.prems(3) by (simp add: unat_word_ariths)
    then show ?thesis using Suc.IH [OF spm _ _ x old] Suc.prems(2) by simp
  qed
qed simp

text \<open>What the scratchpad holds of a word that is in none of the slots that are filled.\<close>

lemma fill_value:
  assumes "unat spm = 4 * i" "i + n \<le> 0x4000" "x \<notin> old_addrs i n s"
  shows "mem_at (l1_mem (fill m n a spm s)) x = (if x \<in> range_addrs a n then mem_at m x else mem_at (l1_mem s) x)"
  using assms
proof (induction n arbitrary: i a spm s)
  case (Suc n)
  let ?s = "add_addr a spm (mem_at m a) s"
  from Suc.prems have i: "i < 0x4000" by simp
  have old: "x \<notin> old_addrs (Suc i) n ?s" "x \<noteq> l1_main_memory_address s ! i"
    using Suc.prems(3) by (simp_all add: old_addrs_Suc old_addrs_add_addr [OF Suc.prems(1) i])
  have "mem_at (l1_mem ?s) x = (if x = a then mem_at m a else mem_at (l1_mem s) x)"
    using old(2) by (simp add: add_addr_slot [OF Suc.prems(1) i] mem_at_add mem_at_remove)
  then show ?case
    using Suc.IH [OF next_slot [OF Suc.prems(1) i] _ old(1)] Suc.prems(2) by (cases "x = a") (simp_all add: range_addrs_Suc)
qed simp

lemma fill_slots:
  assumes "unat spm = 4 * i" "i + n \<le> 0x4000" "length (l1_main_memory_address s) = 0x4000" "k \<le> n"
  shows "old_addrs i k (fill m n a spm s) = range_addrs a k"
  using assms
proof (induction n arbitrary: i a spm s k)
  case (Suc n)
  let ?s = "add_addr a spm (mem_at m a) s"
  from Suc.prems have i: "i < 0x4000" by simp
  note spm = next_slot [OF Suc.prems(1) i]
  have keep: "l1_main_memory_address (fill m k b q u) ! i = l1_main_memory_address u ! i"
    if "unat q = 4 * j" "i < j" "j + k \<le> 0x4000" for k b q j u
    using that
  proof (induction k arbitrary: b q j u)
    case (Suc k)
    then have j: "j < 0x4000" by simp
    show ?case using Suc.IH [OF next_slot [OF Suc.prems(1) j]] Suc.prems by (simp add: add_addr_slot [OF Suc.prems(1) j])
  qed simp
  have hd: "l1_main_memory_address (fill m n (a + 4) (spm + 4) ?s) ! i = a"
    using keep [OF spm, of n "a + 4" ?s] Suc.prems i by (simp add: add_addr_slot [OF Suc.prems(1) i])
  have len: "length (l1_main_memory_address ?s) = 0x4000"
    using Suc.prems(3) by (simp add: add_addr_slot [OF Suc.prems(1) i])
  show ?case
  proof (cases k)
    case (Suc k')
    then show ?thesis
      using Suc.IH [OF spm _ len, of k' "a + 4"] Suc.prems(2,4) hd
      by (simp add: old_addrs_Suc range_addrs_Suc)
  qed simp
qed simp

end
