(* ===== verification/Program_Loading.thy ===== *)
theory Program_Loading
  imports Core_Invariants Bound_Parser
begin

section \<open>Loading the programs (hw\_thread\_controller.cpp, core.cpp)\<close>

text \<open>
  \<open>parse_srec_files\<close> finds the directory of the programs, and for each thread loads its
  S-record file into main memory and its bounds into its scratchpad, and sets its stack
  pointers and program counter.  The text \<open>txt\<close> names the directory or a file whose first
  line names it.  The parser is one object: the start address of a program without a start
  record is the one of the program before it.  A result is \<open>None\<close> when a loop does not end;
  the process ends with \<open>Inl\<close> when neither directory nor file exists or an assertion fails.

  The theorems show that loading returns, that the words in each scratchpad are those of
  main memory when they are loaded, and what the core starts with.
\<close>

datatype load_error = Exit | Load_Failure sim_error

definition thread_file :: "string \<Rightarrow> nat \<Rightarrow> string \<Rightarrow> string" where
  "thread_file dir i ext = dir @ ''/thread'' @ [''0123456789'' ! i] @ ext"

definition program_dir :: "(string \<Rightarrow> string option) \<Rightarrow> string \<Rightarrow> string option" where
  "program_dir fs txt_str =
     (case fs (txt_str @ ''/thread0.srec'') of
        Some _ \<Rightarrow> Some txt_str
      | None \<Rightarrow> (case fs txt_str of Some body \<Rightarrow> Some (hd (file_lines body)) | None \<Rightarrow> None))"

type_synonym load_state = "srec_parser \<times> memory_controller \<times> hw_thread_controller"

definition load_thread ::
  "(string \<Rightarrow> string option) \<Rightarrow> string \<Rightarrow> nat \<Rightarrow> load_state \<Rightarrow> (load_error + load_state) option" where
  "load_thread fs dir i st =
     (case st of (p, mc, tc) \<Rightarrow>
      case parse fs (thread_file dir i ''.srec'') p (w_mem (mc_main_mem mc)) of
        Inl e \<Rightarrow> Some (Inl (Load_Failure e))
      | Inr (starting_addr, p1, m1) \<Rightarrow> do {
          let mc1 = mc\<lparr>mc_main_mem := (mc_main_mem mc)\<lparr>w_mem := m1\<rparr>\<rparr>;
          mc2 \<leftarrow> load_inst_spm fs i (thread_file dir i ''.ispm'') mc1;
          mc3 \<leftarrow> load_data_spm fs i (thread_file dir i ''.dspm'') mc2;
          Some (Inr (p1, mc3, tc\<lparr>tc_pool := (tc_pool tc)[i := start_thread starting_addr i (tc_pool tc ! i)]\<rparr>))
        })"

fun load_threads ::
  "(string \<Rightarrow> string option) \<Rightarrow> string \<Rightarrow> nat list \<Rightarrow> load_state \<Rightarrow> (load_error + load_state) option" where
  "load_threads fs dir [] st = Some (Inr st)"
| "load_threads fs dir (i # is) st =
     (case load_thread fs dir i st of
        None \<Rightarrow> None
      | Some (Inl e) \<Rightarrow> Some (Inl e)
      | Some (Inr st') \<Rightarrow> load_threads fs dir is st')"

definition parse_srec_files ::
  "(string \<Rightarrow> string option) \<Rightarrow> string \<Rightarrow> load_state \<Rightarrow> (load_error + load_state) option" where
  "parse_srec_files fs txt_str st =
     (case program_dir fs txt_str of
        None \<Rightarrow> Some (Inl Exit)
      | Some dir \<Rightarrow> load_threads fs dir [0..<NUM_THREADS] st)"

text \<open>The constructor of the core, with the loading it does between making its components.\<close>

definition load_core ::
  "(string \<Rightarrow> string option) \<Rightarrow> string \<Rightarrow> (nat \<Rightarrow> u32 list) \<Rightarrow> bool \<Rightarrow> (load_error + core) option" where
  "load_core fs ftxt junk can_open =
     (let c = new_core junk can_open
      in case parse_srec_files fs ftxt (set_memory_unit new_srec_parser, c_memory_controller c, c_thread_controller c) of
           None \<Rightarrow> None
         | Some (Inl e) \<Rightarrow> Some (Inl e)
         | Some (Inr (p, mc, tc)) \<Rightarrow> Some (Inr (c\<lparr>c_memory_controller := mc, c_thread_controller := tc\<rparr>)))"

subsection \<open>One thread\<close>

text \<open>What the invariants of the core say of the state of the loader.\<close>

definition wf_load :: "load_state \<Rightarrow> bool" where
  "wf_load st \<longleftrightarrow> (case st of (p, mc, tc) \<Rightarrow> sp_mem_set p \<and> wf_mc mc \<and> length (tc_pool tc) = 6 \<and>
     tc_sync_table tc = replicate NUM_THREADS (0, 0, 0) \<and> tc_tcount tc = 0 \<and>
     (\<forall>i<6. t_id (tc_pool tc ! i) = i \<and> t_enabled (tc_pool tc ! i) \<and> wf_thread (tc_pool tc ! i)))"

lemma load_spm_keeps:
  assumes "\<And>a spm s. P s \<Longrightarrow> P (add_addr a spm (mem_at (w_mem (mc_main_mem mc)) a) s)"
    and "start = INST_SCRATCH_START \<or> start = DATA_SCRATCH_START" "P (mc_inst_scratchpad mc ! i)"
  obtains s where "load_spm fs i spm start mc = Some (mc\<lparr>mc_inst_scratchpad := (mc_inst_scratchpad mc)[i := s]\<rparr>)" "P s"
proof (cases "fs spm")
  case None
  then show ?thesis using that [of "mc_inst_scratchpad mc ! i"] assms(3) by (simp add: load_spm_def)
next
  case (Some body)
  let ?m = "w_mem (mc_main_mem mc)"
  obtain s where l: "load_bounds ?m start (0, 0) (file_lines body) (mc_inst_scratchpad mc ! i) = Some s"
    by (rule load_bounds_returns [OF assms(2)])
  have "P s" by (rule load_bounds_keeps [of P ?m, OF assms(1,2,3) l])
  then show ?thesis using that [of s] Some l by (simp add: load_spm_def)
qed

lemma load_thread_result:
  assumes "wf_load (p, mc, tc)" "i < 6"
    and "parse fs (thread_file dir i ''.srec'') p (w_mem (mc_main_mem mc)) = Inr (start, p1, m1)" "sp_mem_set p1"
  obtains s mc' where "load_thread fs dir i (p, mc, tc) =
      Some (Inr (p1, mc', tc\<lparr>tc_pool := (tc_pool tc)[i := start_thread start i (tc_pool tc ! i)]\<rparr>))"
    "mc' = mc\<lparr>mc_main_mem := (mc_main_mem mc)\<lparr>w_mem := m1\<rparr>, mc_inst_scratchpad := (mc_inst_scratchpad mc)[i := s]\<rparr>"
    "wf_scratch s" "coherent m1 (mc_inst_scratchpad mc ! i) \<longrightarrow> coherent m1 s"
proof -
  define mc1 where "mc1 = mc\<lparr>mc_main_mem := (mc_main_mem mc)\<lparr>w_mem := m1\<rparr>\<rparr>"
  define P where "P s \<longleftrightarrow> wf_scratch s \<and> (coherent m1 (mc_inst_scratchpad mc ! i) \<longrightarrow> coherent m1 s)" for s
  have len: "length (mc_inst_scratchpad mc) = 6" and wf: "wf_scratch (mc_inst_scratchpad mc ! i)"
    using assms(1,2) by (auto simp: wf_load_def wf_mc_def list_all_length)
  have step: "P s \<Longrightarrow> P (add_addr a spm (mem_at m1 a) s)" for a spm s
    by (simp add: P_def wf_add_addr coherent_add_addr)
  have P0: "P (mc_inst_scratchpad mc1 ! i)" using wf by (simp add: P_def mc1_def)
  obtain s1 where 1: "load_spm fs i (thread_file dir i ''.ispm'') INST_SCRATCH_START mc1 =
      Some (mc1\<lparr>mc_inst_scratchpad := (mc_inst_scratchpad mc1)[i := s1]\<rparr>)" "P s1"
    by (rule load_spm_keeps [of P mc1, OF _ _ P0, where start = INST_SCRATCH_START]) (auto simp: mc1_def step)
  define mc2 where "mc2 = mc1\<lparr>mc_inst_scratchpad := (mc_inst_scratchpad mc1)[i := s1]\<rparr>"
  have P1: "P (mc_inst_scratchpad mc2 ! i)" using 1(2) assms(2) len by (simp add: mc2_def mc1_def)
  obtain s2 where 2: "load_spm fs i (thread_file dir i ''.dspm'') DATA_SCRATCH_START mc2 =
      Some (mc2\<lparr>mc_inst_scratchpad := (mc_inst_scratchpad mc2)[i := s2]\<rparr>)" "P s2"
    by (rule load_spm_keeps [of P mc2, OF _ _ P1, where start = DATA_SCRATCH_START]) (auto simp: mc2_def mc1_def step)
  show ?thesis
  proof (rule that)
    show "load_thread fs dir i (p, mc, tc) = Some (Inr (p1, mc2\<lparr>mc_inst_scratchpad := (mc_inst_scratchpad mc2)[i := s2]\<rparr>,
        tc\<lparr>tc_pool := (tc_pool tc)[i := start_thread start i (tc_pool tc ! i)]\<rparr>))"
      using 1(1) 2(1) by (simp add: load_thread_def assms(3) load_inst_spm_def load_data_spm_def Let_def
          mc1_def [symmetric] mc2_def [symmetric])
    show "mc2\<lparr>mc_inst_scratchpad := (mc_inst_scratchpad mc2)[i := s2]\<rparr> =
        mc\<lparr>mc_main_mem := (mc_main_mem mc)\<lparr>w_mem := m1\<rparr>, mc_inst_scratchpad := (mc_inst_scratchpad mc)[i := s2]\<rparr>"
      by (simp add: mc2_def mc1_def)
  qed (use 2(2) in \<open>simp_all add: P_def\<close>)
qed

lemma wf_start_thread: "wf_thread t \<Longrightarrow> wf_thread (start_thread a i t)"
  by (simp add: start_thread_def Let_def wf_thread_def wf_regs_def set_reg_def)

lemma start_thread_simps [simp]:
  "t_id (start_thread a i t) = t_id t" "t_enabled (start_thread a i t) = t_enabled t" "t_pc (start_thread a i t) = a"
  by (simp_all add: start_thread_def Let_def)

subsection \<open>All threads\<close>

lemma parse_text:
  assumes "sp_mem_set p" "fs f = Some (srec_text ck nl ls)"
    and "nl \<noteq> []" "list_all is_space nl" "list_all wf_line ls"
  shows "parse fs f p m =
    (case fold load_line ls (sp_starting_addr p, m) of (start, m') \<Rightarrow> Inr (start, p\<lparr>sp_starting_addr := start\<rparr>, m'))"
  using parse_lines_text [OF assms(3-5), of p m ck "[]"]
  by (simp add: parse_def assms(1,2) parse_lines_end split: prod.splits)

text \<open>Start address and main memory after the programs of the first \<open>k\<close> threads.\<close>

definition program :: "(nat \<Rightarrow> srec_line list) \<Rightarrow> nat \<Rightarrow> u32 \<times> memory_unit" where
  "program ls k = fold load_line (concat (map ls [0..<k])) (0x40000000, new_memory_unit)"

lemma program_Suc: "program ls (Suc k) = fold load_line (ls k) (program ls k)"
  by (simp add: program_def)

lemma load_threads_append:
  "load_threads fs dir (is @ js) st =
     (case load_threads fs dir is st of
        None \<Rightarrow> None | Some (Inl e) \<Rightarrow> Some (Inl e) | Some (Inr st') \<Rightarrow> load_threads fs dir js st')"
  by (induction "is" arbitrary: st) (auto split: option.splits sum.splits)

definition loaded :: "(nat \<Rightarrow> srec_line list) \<Rightarrow> nat \<Rightarrow> load_state \<Rightarrow> bool" where
  "loaded ls k st \<longleftrightarrow> wf_load st \<and> (case st of (p, mc, tc) \<Rightarrow>
     sp_starting_addr p = fst (program ls k) \<and> w_mem (mc_main_mem mc) = snd (program ls k) \<and>
     (\<forall>i<k. t_pc (tc_pool tc ! i) = fst (program ls (Suc i))))"

lemma load_thread_text:
  assumes "loaded ls k st" "k < 6" "fs (thread_file dir k ''.srec'') = Some (srec_text ck nl (ls k))"
    and "nl \<noteq> []" "list_all is_space nl" "list_all wf_line (ls k)"
  obtains st' where "load_thread fs dir k st = Some (Inr st')" "loaded ls (Suc k) st'"
proof -
  obtain p mc tc where st: "st = (p, mc, tc)" by (metis prod_cases3)
  have wf: "wf_load (p, mc, tc)" and prog: "(sp_starting_addr p, w_mem (mc_main_mem mc)) = program ls k"
    and pc: "\<And>i. i < k \<Longrightarrow> t_pc (tc_pool tc ! i) = fst (program ls (Suc i))"
    using assms(1) by (auto simp: loaded_def st)
  define start where "start = fst (program ls (Suc k))"
  define m1 where "m1 = snd (program ls (Suc k))"
  have parse: "parse fs (thread_file dir k ''.srec'') p (w_mem (mc_main_mem mc)) =
      Inr (start, p\<lparr>sp_starting_addr := start\<rparr>, m1)"
    using wf parse_text [of p fs "thread_file dir k ''.srec''" ck nl "ls k", OF _ assms(3-6), of "w_mem (mc_main_mem mc)"]
    by (simp add: wf_load_def prog program_Suc [symmetric] start_def m1_def split: prod.splits)
  have "sp_mem_set (p\<lparr>sp_starting_addr := start\<rparr>)" using wf by (simp add: wf_load_def)
  from load_thread_result [OF wf assms(2) parse this] obtain s mc' where
    r: "load_thread fs dir k (p, mc, tc) = Some (Inr (p\<lparr>sp_starting_addr := start\<rparr>, mc',
          tc\<lparr>tc_pool := (tc_pool tc)[k := start_thread start k (tc_pool tc ! k)]\<rparr>))"
    and mc': "mc' = mc\<lparr>mc_main_mem := (mc_main_mem mc)\<lparr>w_mem := m1\<rparr>, mc_inst_scratchpad := (mc_inst_scratchpad mc)[k := s]\<rparr>"
    and s: "wf_scratch s" by blast
  have "list_all wf_scratch ((mc_inst_scratchpad mc)[k := s])"
    using wf s assms(2) by (auto simp: wf_load_def wf_mc_def list_all_length nth_list_update)
  then have wf': "wf_load (p\<lparr>sp_starting_addr := start\<rparr>, mc',
      tc\<lparr>tc_pool := (tc_pool tc)[k := start_thread start k (tc_pool tc ! k)]\<rparr>)"
    using wf assms(2) by (auto simp: wf_load_def wf_mc_def mc' nth_list_update wf_start_thread)
  have len: "length (tc_pool tc) = 6" using wf by (simp add: wf_load_def)
  have "t_pc ((tc_pool tc)[k := start_thread start k (tc_pool tc ! k)] ! i) = fst (program ls (Suc i))"
    if "i < Suc k" for i
    using that pc [of i] assms(2) len by (cases "i = k") (simp_all add: start_def)
  then show ?thesis using that [OF r [folded st]] wf'
    by (simp add: loaded_def start_def m1_def mc')
qed

lemma load_threads_text:
  assumes "loaded ls 0 st" "k \<le> 6"
    and "\<forall>i<6. fs (thread_file dir i ''.srec'') = Some (srec_text ck nl (ls i)) \<and> list_all wf_line (ls i)"
    and "nl \<noteq> []" "list_all is_space nl"
  shows "\<exists>st'. load_threads fs dir [0..<k] st = Some (Inr st') \<and> loaded ls k st'"
  using assms(2)
proof (induction k)
  case (Suc k)
  then obtain st' where 1: "load_threads fs dir [0..<k] st = Some (Inr st')" "loaded ls k st'" by auto
  from Suc.prems assms(3) have f: "k < 6" "fs (thread_file dir k ''.srec'') = Some (srec_text ck nl (ls k))"
    "list_all wf_line (ls k)" by auto
  from load_thread_text [where fs = fs and dir = dir, OF 1(2) f(1,2) assms(4,5) f(3)] obtain st''
    where "load_thread fs dir k st' = Some (Inr st'')" "loaded ls (Suc k) st''" .
  then show ?case by (simp add: load_threads_append 1(1))
qed (use assms(1) in simp)

lemma loaded_0:
  assumes "\<forall>i<6. length (junk i) = 512"
  shows "loaded ls 0 (set_memory_unit new_srec_parser, new_memory_controller ok, new_hw_thread_controller junk)"
proof -
  have "sp_mem_set (set_memory_unit new_srec_parser)" "sp_starting_addr (set_memory_unit new_srec_parser) = 0x40000000"
    by (simp_all add: set_memory_unit_def new_srec_parser_def)
  moreover have "w_mem (mc_main_mem (new_memory_controller ok)) = new_memory_unit"
    by (simp add: new_memory_controller_def new_wheeled_mem_def new_wheeled_mem_window_def)
  moreover have "tc_sync_table (new_hw_thread_controller junk) = replicate 6 (0, 0, 0)"
    "tc_tcount (new_hw_thread_controller junk) = 0"
    by (simp_all add: new_hw_thread_controller_def)
  ultimately show ?thesis
    using wf_new_core [OF assms, of ok]
    by (simp add: loaded_def wf_load_def program_def wf_core_def pool_def new_core_def)
qed

lemma load_core_text:
  assumes "\<forall>i<6. fs (thread_file dir i ''.srec'') = Some (srec_text ck nl (ls i)) \<and> list_all wf_line (ls i)"
    and "nl \<noteq> []" "list_all is_space nl" "\<forall>i<6. length (junk i) = 512"
  obtains c where "load_core fs dir junk ok = Some (Inr c)" "wf_core c" "wf_latches c" "on_schedule 0 c"
    "w_mem (mc_main_mem (c_memory_controller c)) = snd (program ls 6)"
    "\<And>i. i < 6 \<Longrightarrow> t_pc (pool c ! i) = fst (program ls (Suc i))"
proof -
  let ?st = "(set_memory_unit new_srec_parser, new_memory_controller ok, new_hw_thread_controller junk)"
  from load_threads_text [OF loaded_0 [OF assms(4)] order_refl assms(1-3)] obtain p mc tc where
    l: "load_threads fs dir [0..<6] ?st = Some (Inr (p, mc, tc))" and r: "loaded ls 6 (p, mc, tc)"
    by (metis prod_cases3)
  have "fs (dir @ ''/thread0.srec'') \<noteq> None"
    using assms(1) [rule_format, of 0] by (simp add: thread_file_def)
  then have "parse_srec_files fs dir ?st = Some (Inr (p, mc, tc))"
    by (auto simp: parse_srec_files_def program_dir_def l)
  then have c: "load_core fs dir junk ok =
      Some (Inr ((new_core junk ok)\<lparr>c_memory_controller := mc, c_thread_controller := tc\<rparr>))"
    by (simp add: load_core_def Let_def new_core_def)
  show ?thesis
    by (rule that [OF c]) (use r wf_new_core [OF assms(4), of ok] in
      \<open>auto simp: loaded_def wf_load_def wf_core_def wf_latches_def latches_def pool_def new_core_def on_schedule_def six\<close>)
qed

end
