(* ===== verification/Pipeline_Properties.thy ===== *)
theory Pipeline_Properties
  imports Core_Invariants
begin

section \<open>What the stages do together\<close>

text \<open>
  Facts that join several stages: comparing and branching (execute, exception stage),
  waiting for a deadline (fetch, register access), traps, and the double-word loads.
\<close>


subsection \<open>Branching on a comparison\<close>

text \<open>What the branch conditions mean after \<open>cmp a, b\<close>, on the integers the words stand for.\<close>

definition condition_holds :: "u16 \<Rightarrow> u32 \<Rightarrow> u32 \<Rightarrow> bool" where
  "condition_holds cond a b =
     (if cond = BRCH_BA then True else if cond = BRCH_BN then False
      else if cond = BRCH_BNE then a \<noteq> b else if cond = BRCH_BE then a = b
      else if cond = BRCH_BG then sint a > sint b else if cond = BRCH_BLE then sint a \<le> sint b
      else if cond = BRCH_BGE then sint a \<ge> sint b else if cond = BRCH_BL then sint a < sint b
      else if cond = BRCH_BGU then uint a > uint b else if cond = BRCH_BLEU then uint a \<le> uint b
      else if cond = BRCH_BCC then uint a \<ge> uint b else if cond = BRCH_BCS then uint a < uint b
      else if cond = BRCH_BPOS then sint (a - b) \<ge> 0 else if cond = BRCH_BNEG then sint (a - b) < 0
      else if cond = BRCH_BVC then sint a - sint b \<in> signed_range
      else sint a - sint b \<notin> signed_range)"

lemma branch_condition_values:
  fixes c :: u16
  assumes "c < 16"
  shows "c = 0 \<or> c = 1 \<or> c = 2 \<or> c = 3 \<or> c = 4 \<or> c = 5 \<or> c = 6 \<or> c = 7 \<or> c = 8 \<or> c = 9 \<or> c = 10 \<or> c = 11 \<or>
    c = 12 \<or> c = 13 \<or> c = 14 \<or> c = 15"
proof -
  have "unat c < 16" using assms by (simp add: word_less_nat_alt)
  then have "unat c = 0 \<or> unat c = 1 \<or> unat c = 2 \<or> unat c = 3 \<or> unat c = 4 \<or> unat c = 5 \<or> unat c = 6 \<or> unat c = 7 \<or>
    unat c = 8 \<or> unat c = 9 \<or> unat c = 10 \<or> unat c = 11 \<or> unat c = 12 \<or> unat c = 13 \<or> unat c = 14 \<or> unat c = 15"
    by (auto simp: eval_nat_numeral less_Suc_eq)
  then show ?thesis by (simp add: word_unat_eq_iff)
qed

lemma truthy_icc_bits:
  "truthy ((w::u8) AND 8) = bit w 3" "truthy (w AND 4) = bit w 2" "truthy (w AND 2) = bit w 1" "truthy (w AND 1) = bit w 0"
  using and_exp_eq_0_iff_not_bit [of w 3] and_exp_eq_0_iff_not_bit [of w 2] and_exp_eq_0_iff_not_bit [of w 1]
    and_exp_eq_0_iff_not_bit [of w 0]
  by (simp_all add: truthy_def)

lemma less_flags_int:
  assumes "0 \<le> x" "x < 2 ^ 32" "0 \<le> y" "y < 2 ^ 32"
    and s: "s = (if x - y < 0 then x - y + 2 ^ 32 else x - y)"
  shows "((signed_of s < 0) \<noteq> (signed_of x - signed_of y \<notin> signed_range)) = (signed_of x < signed_of y)"
  using assms by (auto simp: signed_of_def signed_range_def split: if_splits)

lemma less_flags: "((sint (a - b :: u32) < 0) \<noteq> (sint a - sint b \<notin> signed_range)) = (sint a < sint b)"
proof -
  have "uint (a - b) = (if uint a - uint b < 0 then uint a - uint b + 2 ^ 32 else uint a - uint b)"
  proof -
    have "\<not> uint a - uint b < - (2 ^ 32)" using uint_range [of a] uint_range [of b] by linarith
    then show ?thesis using uint_sub3 [of 0 a b] by simp
  qed
  from less_flags_int [OF uint_range uint_range this]
  show ?thesis unfolding sint_signed_of .
qed

lemma branch_after_compare:
  assumes "icc_flags icc = (sint (a - b) < 0, a - b = 0, sint a - sint b \<notin> signed_range, uint a < uint b)"
    and "i_branch (t_inst u)" "\<not> i_call (t_inst u)" "i_conditional_branch (t_inst u) < 16" "s_icc (t_spec_regs u) = icc"
  shows "branch_check u = condition_holds (i_conditional_branch (t_inst u)) a b"
proof -
  have f: "truthy (icc AND 8) = (sint (a - b) < 0)" "truthy (icc AND 4) = (a = b)"
    "truthy (icc AND 2) = (sint a - sint b \<notin> signed_range)" "truthy (icc AND 1) = (uint a < uint b)"
    using assms(1) by (auto simp: icc_flags_def truthy_icc_bits)
  have eq: "a = b \<longleftrightarrow> sint a = sint b" "a = b \<longleftrightarrow> uint a = uint b"
    by (rule word_eq_iff_signed, rule word_uint_eq_iff)
  have l: "((sint (a - b) < 0) \<noteq> (sint a - sint b \<notin> signed_range)) = (sint a < sint b)" by (rule less_flags)
  have l2: "((sint (a - b) < 0) = (sint a - sint b \<in> signed_range)) = (sint a < sint b)"
    "((sint (a - b) < 0) = (sint a - sint b \<notin> signed_range)) = (\<not> sint a < sint b)"
    using l by blast+
  have g2: "sint a \<le> sint b \<longleftrightarrow> a = b \<or> sint a < sint b" "sint b < sint a \<longleftrightarrow> a \<noteq> b \<and> \<not> sint a < sint b"
    "uint b < uint a \<longleftrightarrow> \<not> uint a < uint b \<and> a \<noteq> b" "uint a \<le> uint b \<longleftrightarrow> uint a < uint b \<or> a = b"
    using eq by auto
  show ?thesis
    using branch_condition_values [OF assms(4)] assms(2,3,5)
    by (elim disjE) (simp_all add: branch_check_def condition_holds_def Let_def f l2 g2, simp_all add: not_less)
qed

text \<open>
  C13: A conditional branch after a subtraction that sets the condition codes is taken
  exactly when its condition holds of the two operands, signed or unsigned as the condition
  says.
\<close>

theorem compare_and_branch:
  assumes "i_aluop (t_inst t) = ALU_SUB" "\<not> i_carry (t_inst t)" "i_write_icc (t_inst t)" "i_icc (t_inst t) = 0"
    and u: "i_branch (t_inst u)" "\<not> i_call (t_inst u)" "i_conditional_branch (t_inst u) < 16"
    and icc: "s_icc (t_spec_regs u) = i_icc (t_inst (perform_alu_operations t))"
  shows "branch_check u =
     condition_holds (i_conditional_branch (t_inst u)) (i_op1_value (t_inst t)) (i_op2_value (t_inst t))"
proof (rule branch_after_compare [OF _ u icc])
  have c: "carry_in t = 0" using assms(2) by (simp add: carry_in_def)
  show "icc_flags (i_icc (t_inst (perform_alu_operations t))) =
    (sint (i_op1_value (t_inst t) - i_op2_value (t_inst t)) < 0, i_op1_value (t_inst t) - i_op2_value (t_inst t) = 0,
     sint (i_op1_value (t_inst t)) - sint (i_op2_value (t_inst t)) \<notin> signed_range,
     uint (i_op1_value (t_inst t)) < uint (i_op2_value (t_inst t)))"
    using alu_sub_icc [OF assms(1,3,4) refl refl refl refl] by (simp add: c)
qed

subsection \<open>Deadlines\<close>

text \<open>
  A deadline instruction on timer \<open>i\<close> whose value is \<open>d\<close> is tried once per round of the
  pipeline, the timer having been decremented once per try: the thread stalls exactly on
  the tries where the timer is still positive.
\<close>

lemma deadline_stalls_iff:
  assumes "i_select_special_register (t_inst t) = SREG_DT" "i_rd (t_inst t) \<le> 7"
    "\<not> truthy (i_rs1 (t_inst t) AND 1)"
  shows "\<exists>t'. deadline_instruction t = Inr t' \<and>
    t_deadline_stalled t' = (0 < sint (s_dt (t_spec_regs t) ! unat (i_rd (t_inst t)))) \<and>
    (\<not> t_deadline_stalled t' \<longrightarrow> i_write_special_registers (t_inst t'))"
  using assms
  by (auto simp: deadline_instruction_def destination_regular_deadlines_def Let_def not_less)

definition after_rounds :: "nat \<Rightarrow> hw_thread \<Rightarrow> hw_thread" where
  "after_rounds n t = upd_spec (ticks n) t"

text \<open>
  A deadline instruction issued n rounds of its thread after the timer held d replays
  exactly while n < d: it waits until the timer runs out and no longer.
\<close>

theorem deadline_wait:
  assumes "wf_thread t" "i_select_special_register (t_inst t) = SREG_DT" "i_rd (t_inst t) \<le> 7"
    "\<not> truthy (i_rs1 (t_inst t) AND 1)"
    and d: "d = sint (s_dt (t_spec_regs t) ! unat (i_rd (t_inst t)))" "0 \<le> d" "int n < 2 ^ 31"
  shows "\<exists>t'. deadline_instruction (after_rounds n t) = Inr t' \<and> t_deadline_stalled t' = (int n < d)"
proof -
  let ?i = "unat (i_rd (t_inst t))"
  have i: "?i < length (s_dt (t_spec_regs t))" 
    using assms(1,3) by (simp add: wf_thread_def wf_special_def word_le_nat_alt)
  have "sint (s_dt (ticks n (t_spec_regs t)) ! ?i) = d - int n"
    using sint_minus_small [of n "s_dt (t_spec_regs t) ! ?i"] d by (simp add: dt_ticks [OF i])
  then show ?thesis
    using deadline_stalls_iff [of "after_rounds n t"] assms(2-4) by (auto simp: after_rounds_def)
qed

subsection \<open>Traps\<close>

lemma window_of_dec: "s_curr_wp (dec_window s) = (s_curr_wp s - 1) mod 32"
  by (simp add: dec_window_def Let_def)

text \<open>The guard of the privileged-state changes can not hold.\<close>

lemma not_deadline_trap_False [simp]: "\<not> not_deadline_trap t"
  by (simp add: not_deadline_trap_def)

text \<open>
  No trap ever changes the supervisor, previous-supervisor and enable-traps bits: the
  guard of the code that would change them can not hold.
\<close>

theorem trap_entry_keeps_supervisor:
  assumes "handle_exceptions t = Inr (t', b)"
  shows "s_s (t_spec_regs t') = s_s (t_spec_regs t) \<and> s_ps (t_spec_regs t') = s_ps (t_spec_regs t) \<and>
    s_et (t_spec_regs t') = s_et (t_spec_regs t)"
  using assms
  by (auto simp: handle_exceptions_def first_pass_def second_pass_def commit_to_def Let_def dec_window_def andThen_Inr_iff
      array_set_Inr_iff split: if_splits)

lemma trap_status_index:
  assumes "w \<noteq> 0x78" "0x70 \<le> (scast (w::u16) :: u32)" "(scast w :: u32) < 0x79"
  shows "unat ((scast w :: u32) - 0x70) < 8"
proof -
  have "(scast w :: u32) \<noteq> 0x78"
  proof
    assume "(scast w :: u32) = 0x78"
    moreover have "(ucast (scast w :: u32) :: u16) = w"
      by (rule bit_word_eqI) (auto simp: bit_simps min_def less_Suc_eq_le dest: le_antisym)
    ultimately show False using assms(1) by simp
  qed
  then have "unat (scast w :: u32) \<noteq> 0x78" by (simp add: word_unat_eq_iff)
  then show ?thesis using assms(2,3) by (simp add: word_le_nat_alt word_less_nat_alt unat_sub)
qed

text \<open>
  The first pass of a trap keeps the program counter, steps the window pointer down
  modulo 32 and saves the program counter in register 17 of the new window.
\<close>

theorem trap_first_pass:
  assumes "is_trapped t" "s_et (t_spec_regs t)" "t_trapped t = XCPT_TRAPPED"
  shows "\<exists>t'. handle_exceptions t = Inr (t', False) \<and>
      t_trapped t' = XCPT_TRAPPED2 \<and> t_pc t' = t_pc t \<and>
      s_curr_wp (t_spec_regs t') = (s_curr_wp (t_spec_regs t) - 1) mod 32 \<and>
      i_write_registers (t_inst t') \<and> i_rd (t_inst t') = 17 \<and> i_alu_result (t_inst t') = t_pc t"
  using assms by (simp add: handle_exceptions_def first_pass_def commit_to_def Let_def window_of_dec)

text \<open>
  The second pass of a trap saves the pending branch target or the next address in
  register 18, clears the trap and jumps to the vector of the trap type.
\<close>

theorem trap_second_pass:
  assumes "is_trapped t" "s_et (t_spec_regs t)" "t_trapped t = XCPT_TRAPPED2" "wf_thread t" "t_trap_type t \<noteq> 0x78"
  shows "\<exists>t'. handle_exceptions t = Inr (t', False) \<and>
      t_trapped t' = XCPT_NORMAL \<and> t_branch_slot t' = 0 \<and>
      t_pc t' = s_tbr (t_spec_regs t) OR push_bit 4 (scast (t_trap_type t)) \<and>
      i_write_registers (t_inst t') \<and> i_rd (t_inst t') = 18 \<and>
      i_alu_result (t_inst t') = (if t_branch_slot t \<noteq> 0 then t_branch_slot t else t_pc t + 4)"
  using assms trap_status_index [of "t_trap_type t"]
  by (auto simp: handle_exceptions_def second_pass_def commit_to_def Let_def wf_thread_def wf_special_def)

subsection \<open>Double words and stalls\<close>

text \<open>
  The exception stage marks a double-word instruction before it looks at the memory stall, so
  every stalled pass exchanges the word the next pass addresses.  \<open>ldd_inst\<close> is a decoded
  double-word load with the fields that change from pass to pass.
\<close>

definition ldd_word :: "u32 \<Rightarrow> bool" where
  "ldd_word w \<longleftrightarrow> (let i = decode_fields (initialize_with w) in i_op1 i = OP_MEMORY \<and> i_op3 i = OP3_LDD \<and> i_rd i \<noteq> 0)"

definition ldd_inst :: "u32 \<Rightarrow> u32 \<Rightarrow> u32 \<Rightarrow> u32 \<Rightarrow> u32 \<Rightarrow> bool \<Rightarrow> u16 \<Rightarrow> instruction" where
  "ldd_inst w a b c r db rd = (load_op (decode_fields (initialize_with w)))\<lparr>i_memory_size := MEM_DOUBLEWORD,
     i_db_word_instruction := db, i_op1_value := a, i_op2_value := b, i_op3_value := c, i_alu_result := r, i_rd := rd\<rparr>"

text \<open>The address of the first word.\<close>

definition ldd_address :: "u32 \<Rightarrow> hw_thread \<Rightarrow> u32" where
  "ldd_address w t = (let i = decode_fields (initialize_with w); wp = s_curr_wp (t_spec_regs t) in
     get_reg (t_regs t) (i_rs1 i) wp + (if i_use_imm i then i_imm i else get_reg (t_regs t) (i_rs2 i) wp))"

text \<open>A thread at the first or at the second word of the load, as the passes find it.\<close>

definition loading :: "u32 \<Rightarrow> hw_thread \<Rightarrow> bool \<Rightarrow> hw_thread \<Rightarrow> bool" where
  "loading w t half u \<longleftrightarrow> t_enabled u \<and> \<not> t_fetch_stalled u \<and> \<not> t_deadline_stalled u \<and> \<not> is_trapped u \<and>
     t_db_word_stalled u = half \<and> t_regs u = t_regs t \<and> t_pc u = t_pc t \<and> t_branch_slot u = t_branch_slot t \<and>
     t_id u = t_id t \<and> s_curr_wp (t_spec_regs u) = s_curr_wp (t_spec_regs t) \<and> s_curr_wp (t_spec_regs t) < 32 \<and>
     set (s_dt_status (t_spec_regs u)) \<subseteq> {UNSET} \<and>
     (t_inst u = initialize_with w \<or> (\<exists>a b c r db rd. t_inst u = ldd_inst w a b c r db rd))"

text \<open>
  The stages behind fetch for one pass of a thread, and a load with its replays, once per
  round of six cycles: \<open>mcs j\<close> is the memory as the pass \<open>j\<close> finds it, whatever the other
  threads did to it meanwhile.
\<close>

definition back_stages :: "u32 \<Rightarrow> memory_controller \<Rightarrow> except_state \<Rightarrow> sim_error + except_state" where
  "back_stages cycles mc = (\<lambda>(t, d, tab).
     andThen (regacc_behavior (decode_behavior t)) (\<lambda>t1.
     andThen (mem_behavior cycles (execute_behavior t1) mc) (\<lambda>(t2, mc').
       except_behavior (t2, d, tab))))"

fun load_passes :: "nat \<Rightarrow> u32 \<Rightarrow> (nat \<Rightarrow> memory_controller) \<Rightarrow> except_state \<Rightarrow> sim_error + except_state" where
  "load_passes 0 cycles mcs s = back_stages cycles (mcs 0) s"
| "load_passes (Suc k) cycles mcs s =
     andThen (load_passes k cycles mcs s) (\<lambda>(t, d, tab).
     andThen (fetch_behavior (cycles + 6 * of_nat k + 2) t (mcs (Suc k))) (\<lambda>(t', mc', halt).
       back_stages (cycles + 6 * of_nat (Suc k)) (mcs (Suc k)) (t', d, tab)))"

lemma decode_ldd:
  assumes "ldd_word w"
  defines "rd0 \<equiv> i_rd (decode_fields (initialize_with w))"
  shows "decode (initialize_with w) = ldd_inst w 0 0 0 0 True rd0" "decode (ldd_inst w a b c r db rd) = ldd_inst w a b c r True rd0"
  using assms
  by (simp_all add: ldd_word_def ldd_inst_def decode_def decode_fields_def decode_switch_def decode_memory_def load_op_def
      initialize_with_def Let_def)

lemma ldd_inst_flags:
  "i_db_word_instruction (ldd_inst w a b c r db rd) = db" "i_read_memory (ldd_inst w a b c r db rd)"
  "\<not> i_write_icc (ldd_inst w a b c r db rd)" "i_write_registers (ldd_inst w a b c r db rd)" "\<not> i_branch (ldd_inst w a b c r db rd)"
  "\<not> i_call (ldd_inst w a b c r db rd)" "\<not> i_jump (ldd_inst w a b c r db rd)" "\<not> i_is_rett (ldd_inst w a b c r db rd)"
  "\<not> i_sync_instruction (ldd_inst w a b c r db rd)" "i_increment_window_pointer (ldd_inst w a b c r db rd) = 0"
  "\<not> i_write_special_registers (ldd_inst w a b c r db rd)" "i_select_special_register (ldd_inst w a b c r db rd) = 0"
  "i_aluop (ldd_inst w a b c r db rd) = ALU_ADD" "i_memory_size (ldd_inst w a b c r db rd) = MEM_DOUBLEWORD"
  "\<not> i_carry (ldd_inst w a b c r db rd)" "i_alu_result (ldd_inst w a b c r db rd) = r" "i_rd (ldd_inst w a b c r db rd) = rd"
  "i_op1_value (ldd_inst w a b c r db rd) = a" "i_op2_value (ldd_inst w a b c r db rd) = b"
  "i_rs1 (ldd_inst w a b c r db rd) = i_rs1 (decode_fields (initialize_with w))"
  "i_rs2 (ldd_inst w a b c r db rd) = i_rs2 (decode_fields (initialize_with w))"
  "i_imm (ldd_inst w a b c r db rd) = i_imm (decode_fields (initialize_with w))"
  "i_use_imm (ldd_inst w a b c r db rd) = i_use_imm (decode_fields (initialize_with w))"
  by (simp_all add: ldd_inst_def load_op_def decode_fields_def initialize_with_def Let_def)

lemma ldd_inst_upds:
  "(ldd_inst w a b c r db rd)\<lparr>i_op1_value := a'\<rparr> = ldd_inst w a' b c r db rd"
  "(ldd_inst w a b c r db rd)\<lparr>i_op2_value := b'\<rparr> = ldd_inst w a b' c r db rd"
  "(ldd_inst w a b c r db rd)\<lparr>i_op3_value := c'\<rparr> = ldd_inst w a b c' r db rd"
  "(ldd_inst w a b c r db rd)\<lparr>i_alu_result := r'\<rparr> = ldd_inst w a b c r' db rd"
  "(ldd_inst w a b c r db rd)\<lparr>i_rd := rd', i_op1_value := a', i_db_word_instruction := db'\<rparr> = ldd_inst w a' b c r db' rd'"
  by (simp_all add: ldd_inst_def)

lemma loading_fetch:
  assumes "loading w t half u" "t_memory_stalled u"
  shows "\<exists>u'. fetch_behavior cycles u mc = Inr (u', mc, False) \<and> loading w t half u'"
proof -
  have "set (map2 tick_status ds sts) \<subseteq> {UNSET}" if "set sts \<subseteq> {UNSET}" for ds sts
    using that by (auto simp: tick_status_def dest!: set_zip_rightD)
  then have "loading w t half (upd_spec decrement_deadline_timers u)"
    using assms(1) by (simp add: loading_def upd_spec_def decrement_deadline_timers_def Let_def is_trapped_def)
  then show ?thesis
    using assms by (auto simp: fetch_behavior_def fetch_is_not_valid_def loading_def Let_def)
qed

text \<open>What reaches the memory stage.\<close>

lemma loading_operands:
  assumes "ldd_word w" "loading w t half u"
  obtains u1 a b c where "regacc_behavior (decode_behavior u) = Inr u1" "loading w t False (execute_behavior u1)"
    "t_inst (execute_behavior u1) = ldd_inst w a b c (ldd_address w t + (if half then 4 else 0)) (\<not> half)
       (i_rd (decode_fields (initialize_with w)) + (if half then 1 else 0))"
proof -
  let ?rd = "i_rd (decode_fields (initialize_with w))"
  obtain a b c r where dec: "decode_behavior u = u\<lparr>t_inst := ldd_inst w a b c r True ?rd\<rparr>"
    using assms(2) decode_ldd [OF assms(1)]
    by (auto simp: loading_def decode_behavior_def decode_is_not_valid_def upd_inst_def)
  define rs1 where "rs1 = get_reg (t_regs t) (i_rs1 (decode_fields (initialize_with w))) (s_curr_wp (t_spec_regs t))"
  define v where "v = (let i = decode_fields (initialize_with w) in
    if i_use_imm i then i_imm i else get_reg (t_regs t) (i_rs2 i) (s_curr_wp (t_spec_regs t)))"
  define rd where "rd = ?rd + (if half then 1 else 0)"
  define a1 where "a1 = rs1 + (if half then 4 else 0)"
  define c1 where "c1 = get_reg (t_regs t) rd (s_curr_wp (t_spec_regs t))"
  define u1 where "u1 = u\<lparr>t_db_word_stalled := False, t_inst := ldd_inst w a1 v c1 r (\<not> half) rd\<rparr>"
  have wp: "(t_spec_regs u)\<lparr>s_curr_wp := s_curr_wp (t_spec_regs u) mod 32\<rparr> = t_spec_regs u"
  proof -
    have "s_curr_wp (t_spec_regs u) mod 32 = s_curr_wp (t_spec_regs u)"
      by (rule mod_word_less) (use assms(2) in \<open>simp add: loading_def\<close>)
    then show ?thesis by simp
  qed
  have miss: "missed_deadline (t_spec_regs u) = None" using assms(2) by (auto simp: loading_def missed_deadline_iff)
  have reg: "regacc_behavior (decode_behavior u) = Inr u1"
    using assms(2) wp
    by (cases half) (simp_all add: dec loading_def regacc_behavior_def regacc_is_not_valid_def Let_def deadline_instruction_def ldd_inst_flags
      check_deadline_def miss double_word_instruction_def immediate_instruction_def upd_inst_def upd_spec_def ldd_inst_upds
      u1_def a1_def v_def c1_def rd_def rs1_def)
  have ex: "execute_behavior u1 = u1\<lparr>t_inst := ldd_inst w a1 v c1 (a1 + v) (\<not> half) rd\<rparr>"
    using assms(2) by (simp add: loading_def u1_def execute_behavior_def perform_alu_operations_def alu_switch_def Let_def
      ldd_inst_flags ldd_inst_upds upd_inst_def)
  have "a1 + v = ldd_address w t + (if half then 4 else 0)"
    by (simp add: ldd_address_def Let_def a1_def v_def rs1_def)
  moreover have "loading w t False (execute_behavior u1)"
    unfolding ex using assms(2) by (simp add: u1_def loading_def is_trapped_def) blast
  ultimately show ?thesis using reg by (intro that [of u1 a1 v c1]) (simp_all add: ex rd_def)
qed

text \<open>A pass that stalls, and one that is served.\<close>

lemma load_pass_stalled:
  assumes "ldd_word w" "loading w t half u" "wf_mc mc" "t_id t < 6"
    and "access_stalls cycles (t_id t) (aligned (ldd_address w t + (if half then 4 else 0))) mc"
  shows "\<exists>u'. back_stages cycles mc (u, d, tab) = Inr (u', d, tab) \<and> loading w t (\<not> half) u' \<and> t_memory_stalled u'"
proof -
  let ?rd = "i_rd (decode_fields (initialize_with w)) + (if half then 1 else 0)"
  obtain u1 a b c where u1: "regacc_behavior (decode_behavior u) = Inr u1" "loading w t False (execute_behavior u1)"
    "t_inst (execute_behavior u1) = ldd_inst w a b c (ldd_address w t + (if half then 4 else 0)) (\<not> half) ?rd"
    by (rule loading_operands [OF assms(1,2)])
  define u2 where "u2 = execute_behavior u1"
  have i: "i_read_memory (t_inst u2)" "i_alu_result (t_inst u2) = ldd_address w t + (if half then 4 else 0)" "t_id u2 = t_id t"
    "t_enabled u2" "\<not> t_fetch_stalled u2" "i_db_word_instruction (t_inst u2) = (\<not> half)" "\<not> t_deadline_stalled u2" "\<not> t_db_word_stalled u2"
    using u1(2,3) by (auto simp: u2_def [symmetric] ldd_inst_flags loading_def)
  obtain mc' where m: "mem_behavior cycles u2 mc = Inr (u2\<lparr>t_memory_stalled := True\<rparr>, mc')"
    using mem_load_result [of mc u2 cycles] assms(3-5) i by (auto simp: mem_behavior_def mem_is_not_valid_def)
  have "except_behavior (u2\<lparr>t_memory_stalled := True\<rparr>, d, tab) =
      Inr (u2\<lparr>t_memory_stalled := True, t_cnt_cycles := t_cnt_cycles u2 + 6, t_db_word_stalled := \<not> half\<rparr>, d, tab)"
    using i by (simp add: except_behavior_def except_is_not_valid_def Let_def set_dword_state_def dead_stalled_def)
  moreover have "loading w t (\<not> half) (u2\<lparr>t_memory_stalled := True, t_cnt_cycles := t_cnt_cycles u2 + 6, t_db_word_stalled := \<not> half\<rparr>)"
    using u1(2) by (auto simp: u2_def [symmetric] loading_def is_trapped_def)
  ultimately show ?thesis using u1(1) m by (auto simp: back_stages_def u2_def)
qed

lemma load_pass_served:
  assumes "ldd_word w" "loading w t half u" "wf_mc mc" "t_id t < 6"
    and "a = ldd_address w t + (if half then 4 else 0)" "\<not> access_stalls cycles (t_id t) (aligned a) mc"
    and "rd = i_rd (decode (initialize_with w)) + (if half then 1 else 0)"
  shows "\<exists>u'. back_stages cycles mc (u, d, tab) = Inr (u', d, tab) \<and>
    t_regs u' = set_reg (t_regs t) rd (thread_view (t_id t) mc (aligned a)) (s_curr_wp (t_spec_regs t)) \<and>
    t_db_word_stalled u' = (\<not> half) \<and>
    t_pc u' = (if \<not> half then t_pc t else if t_branch_slot t \<noteq> 0 then t_branch_slot t else t_pc t + 4)"
proof -
  have rd: "rd = i_rd (decode_fields (initialize_with w)) + (if half then 1 else 0)"
    using assms(7) decode_ldd(1) [OF assms(1)] by (simp add: ldd_inst_flags)
  obtain u1 x y z where u1: "regacc_behavior (decode_behavior u) = Inr u1" "loading w t False (execute_behavior u1)"
    "t_inst (execute_behavior u1) = ldd_inst w x y z a (\<not> half) rd"
    using loading_operands [OF assms(1,2)] unfolding rd assms(5) by metis
  define u2 where "u2 = execute_behavior u1"
  define v where "v = thread_view (t_id t) mc (aligned a)"
  define u3 where "u3 = u2\<lparr>t_memory_stalled := False, t_inst := ldd_inst w x y z v (\<not> half) rd\<rparr>"
  have i: "t_inst u2 = ldd_inst w x y z a (\<not> half) rd" "t_id u2 = t_id t" "t_enabled u2" "\<not> t_fetch_stalled u2"
    "\<not> t_deadline_stalled u2" "\<not> t_db_word_stalled u2" "\<not> is_trapped u2" "t_regs u2 = t_regs t" "t_pc u2 = t_pc t"
    "t_branch_slot u2 = t_branch_slot t" "s_curr_wp (t_spec_regs u2) = s_curr_wp (t_spec_regs t)"
    using u1(2,3) by (auto simp: u2_def [symmetric] loading_def)
  obtain mc' where m: "mem_behavior cycles u2 mc = Inr (u3, mc')"
    using mem_load_result [of mc u2 cycles] assms(3,4,6)
    by (auto simp: mem_behavior_def mem_is_not_valid_def i ldd_inst_flags read_data_def Let_def upd_inst_def ldd_inst_upds u3_def v_def)
  define x0 where "x0 = (if half then u3\<lparr>t_cnt_cycles := t_cnt_cycles u3 + 6\<rparr>
    else u3\<lparr>t_cnt_cycles := t_cnt_cycles u3 + 6, t_db_word_stalled := True\<rparr>)"
  have xi: "t_inst x0 = ldd_inst w x y z v (\<not> half) rd" "t_db_word_stalled x0 = (\<not> half)" "\<not> is_trapped x0"
    "t_regs x0 = t_regs t" "t_pc x0 = t_pc t" "t_branch_slot x0 = t_branch_slot t" "s_curr_wp (t_spec_regs x0) = s_curr_wp (t_spec_regs t)"
    using i by (auto simp: x0_def u3_def is_trapped_def)
  define p where "p = (if \<not> half then x0 else if t_branch_slot t \<noteq> 0 then x0\<lparr>t_pc := t_branch_slot t, t_branch_slot := 0\<rparr> else x0\<lparr>t_pc := t_pc t + 4\<rparr>)"
  have h: "handle_exceptions x0 = Inr (x0, True)" using xi by (simp add: handle_exceptions_def)
  have pc: "half \<Longrightarrow> inc_pc x0 = Inr p"
    by (auto simp: inc_pc_def advance_pc_def take_branch_def branch_check_def Let_def xi ldd_inst_flags p_def)
  have commit: "commit_instruction (x0, d, tab) =
     Inr (p\<lparr>t_regs := set_reg (t_regs t) rd v (s_curr_wp (t_spec_regs t)), t_cnt_instr := t_cnt_instr p + 1\<rparr>, d, tab)"
    using pc by (cases half) (auto simp: commit_instruction_def h write_regs_def write_special_regs_def Let_def xi ldd_inst_flags upd_regs_def p_def)
  have "except_behavior (u3, d, tab) = commit_instruction (x0, d, tab)"
    using i by (cases half) (auto simp: except_behavior_def except_is_not_valid_def Let_def set_dword_state_def dead_stalled_def u3_def x0_def ldd_inst_flags)
  then show ?thesis
    using u1(1) m xi by (auto simp: back_stages_def u2_def commit p_def v_def)
qed

lemma load_passes_stalled:
  assumes "ldd_word w" "loading w t False t" "t_id t < 6"
    and "\<And>j. j \<le> k \<Longrightarrow> wf_mc (mcs j) \<and>
      access_stalls (cycles + 6 * of_nat j) (t_id t) (aligned (ldd_address w t + (if odd j then 4 else 0))) (mcs j)"
  shows "\<exists>u. load_passes k cycles mcs (t, d, tab) = Inr (u, d, tab) \<and> loading w t (even k) u \<and> t_memory_stalled u"
  using assms(4)
proof (induction k)
  case 0
  then show ?case using load_pass_stalled [OF assms(1,2) _ assms(3), of "mcs 0" cycles d tab] by simp
next
  case (Suc k)
  then obtain u where u: "load_passes k cycles mcs (t, d, tab) = Inr (u, d, tab)" "loading w t (even k) u" "t_memory_stalled u"
    by auto
  obtain u' where u': "fetch_behavior (cycles + 6 * of_nat k + 2) u (mcs (Suc k)) = Inr (u', mcs (Suc k), False)" "loading w t (even k) u'"
    using loading_fetch [OF u(2,3)] by blast
  show ?case
    using load_pass_stalled [OF assms(1) u'(2) _ assms(3), of "mcs (Suc k)" "cycles + 6 * of_nat (Suc k)" d tab] Suc.prems [of "Suc k"] u(1) u'(1)
    by auto
qed

text \<open>
  C18: When the memory access of a double-word load, of a register other than %g0, stalls,
  the exception stage has already marked its first word as done, so every stalled pass
  exchanges the word that the next pass addresses. If k passes stall and the next is served,
  then for an odd k that pass loads the second word into the next register, leaves the first
  register as it was and completes the instruction: the first word is never transferred. For
  an even k it loads the first word and the instruction stays half done. (For a thread that
  is not trapped and has no armed timer, whatever the other threads do to the memory in
  between.)
\<close>

theorem stalled_double_word_skips_first:
  assumes w: "ldd_word w" "t_inst t = initialize_with w"
    and t: "t_enabled t" "\<not> t_fetch_stalled t" "\<not> t_deadline_stalled t" "\<not> is_trapped t" "\<not> t_db_word_stalled t" "t_id t < 6"
      "s_curr_wp (t_spec_regs t) < 32" "set (s_dt_status (t_spec_regs t)) \<subseteq> {UNSET}"
    and mcs: "\<forall>j\<le>k. wf_mc (mcs j)"
    and stalls: "\<forall>j<k. access_stalls (cycles + 6 * of_nat j) (t_id t) (aligned (ldd_address w t + (if odd j then 4 else 0))) (mcs j)"
    and a: "a = aligned (ldd_address w t + (if odd k then 4 else 0))" "\<not> access_stalls (cycles + 6 * of_nat k) (t_id t) a (mcs k)"
    and rd: "rd = i_rd (decode (initialize_with w)) + (if odd k then 1 else 0)"
  shows "\<exists>t'. load_passes k cycles mcs (t, d, tab) = Inr (t', d, tab) \<and>
    t_regs t' = set_reg (t_regs t) rd (thread_view (t_id t) (mcs k) a) (s_curr_wp (t_spec_regs t)) \<and>
    t_db_word_stalled t' = even k \<and>
    t_pc t' = (if even k then t_pc t else if t_branch_slot t \<noteq> 0 then t_branch_slot t else t_pc t + 4)"
proof -
  have l: "loading w t False t" using w(2) t by (simp add: loading_def)
  show ?thesis
  proof (cases k)
    case 0
    then show ?thesis using load_pass_served [OF w(1) l _ t(6) refl, of "mcs 0" cycles rd d tab] mcs a rd by simp
  next
    case (Suc m)
    then obtain u where u: "load_passes m cycles mcs (t, d, tab) = Inr (u, d, tab)" "loading w t (even m) u" "t_memory_stalled u"
      using load_passes_stalled [OF w(1) l t(6), of m mcs cycles d tab] mcs stalls by auto
    obtain u' where u': "fetch_behavior (cycles + 6 * of_nat m + 2) u (mcs k) = Inr (u', mcs k, False)" "loading w t (even m) u'"
      using loading_fetch [OF u(2,3)] by blast
    show ?thesis
      using load_pass_served [OF w(1) u'(2) _ t(6) refl, of "mcs k" "cycles + 6 * of_nat k" rd d tab] mcs a rd u(1) u'(1) Suc
      by simp
  qed
qed

end
