(* ===== verification/Samples.thy ===== *)
theory Samples
  imports Pipeline_Properties
begin

section \<open>Sample states\<close>

text \<open>
  A core started on empty memories, run for six cycles, and sample threads: the inputs at
  which the properties of the simulator are applied, each with its hypotheses discharged.
\<close>

definition zero_window :: "u32 list" where
  "zero_window = replicate 512 0"

definition started :: core where
  "started = new_core (\<lambda>_. zero_window) True"

definition thread0 :: hw_thread where
  "thread0 = new_hw_thread zero_window 0 0x40000000"

lemma core_cycles_numeral: "core_cycles (numeral k) c =
    andThen (core_behavior c) (\<lambda>(c1, halt). if halt then Inr None else core_cycles (pred_numeral k) c1)"
  by (simp add: numeral_eq_Suc)

lemma rep8: "replicate 8 x = [x, x, x, x, x, x, x, x]"
  by (simp add: numeral_eq_Suc)

lemmas stage_defs =
  core_behavior_def except_step_def dma_step_def dma_behavior_def mem_step_def execute_step_def
  regacc_step_def decode_step_def fetch_step_def controller_step_def tc_behavior_def
  mc_behavior_def pool_def set_thread_def fetch_behavior_def fetch_is_not_valid_def Let_def
  dma_thread_def upd_spec_def upd_inst_def upd_regs_def decode_behavior_def
  decode_is_not_valid_def regacc_behavior_def regacc_is_not_valid_def execute_behavior_def
  mem_behavior_def mem_is_not_valid_def except_behavior_def except_is_not_valid_def is_trapped_def

lemmas access_defs =
  read_inst_def mc_read_data_def main_loc_read_def is_main_mem_def is_addr_in_spm_def w_read_def
  w_is_stalled_def is_stalled_helper_def ROUND_UP_def current_thread_def is_scheduled_def
  get_delay_def w_behavior_def array_get_def has_address_def mem_at_def

lemmas instruction_defs =
  set_inst_def check_end_sim_def initialize_with_def decode_def decode_fields_def
  decode_switch_def decode_sethi_branches_def deadline_instruction_def check_deadline_def
  missed_deadline_def decrement_deadline_timers_def set_psr_def immediate_instruction_def
  double_word_instruction_def perform_alu_operations_def alu_switch_def truthy_def tick_status_def

lemmas start_defs =
  new_core_def new_hw_thread_controller_def new_hw_thread_def new_dma_def init_special_reg_def
  new_memory_controller_def new_l1_scratch_def new_wheeled_mem_def new_wheeled_mem_window_def
  new_memory_unit_def six six_rows rep8

lemma started_six: "\<exists>c'. core_cycles 6 started = Inr (Some c')"
  by (simp add: started_def core_cycles_numeral stage_defs access_defs instruction_defs start_defs)

lemma started_wf: "wf_core started" "wf_latches started" "on_schedule 0 started"
  by (simp_all add: started_def wf_new_core wf_latches_new on_schedule_new zero_window_def)

lemma thread0_wf: "wf_thread (thread0\<lparr>t_inst := i\<rparr>)"
  by (simp add: thread0_def new_hw_thread_def wf_thread_def wf_regs_def init_register_file_def wf_init_special zero_window_def)

lemma wheel_wf: "wheel_ready (new_wheeled_mem 14 4)"
  by (rule wheel_ready_new)

lemma special0: "s_dt init_special_reg = replicate 8 0" "s_dt_status init_special_reg = replicate 8 UNSET"
  "s_tbr init_special_reg = 0x20" "s_icc init_special_reg = 0" "s_s init_special_reg"
  by (simp_all add: init_special_reg_def set_psr_def truthy_def)

subsection \<open>Witnesses\<close>

lemma run_never_asserts_witness: "run_ticks 30 started \<noteq> Inl Assert_Failure"
  by (rule run_never_asserts [OF started_wf(1,2)])

lemma core_tick_types_witness:
  "case core_tick started of
      Inl e \<Rightarrow> e = Undefined_Access
    | Inr (c', halt) \<Rightarrow> wf_core c' \<and> (halt \<or> wf_latches c')"
  by (rule core_tick_types [OF started_wf(1,2)])

lemma one_thread_per_stage_witness:
  "\<exists>c'. core_cycles 6 started = Inr (Some c') \<and> distinct (latches c') \<and> set (latches c') = Some ` {..<6}"
  using started_six one_thread_per_stage [OF started_wf(1,3), where n = 6] by auto

lemma one_start_per_rotation_witness:
  "\<exists>!c. 100 \<le> c \<and> c < 214 \<and> c mod 6 = 3 \<and> served (of_nat c) 2 0x40000000 (new_wheeled_mem 14 4)"
  using one_start_per_rotation [OF wheel_wf, of 2 3 100 "0x40000000"] by simp

lemma slots_are_private_witness:
  "served 3 1 0x40000000 (new_wheeled_mem 14 4) \<and> \<not> served 3 2 0x40100000 (new_wheeled_mem 14 4) \<and>
   \<not> served 3 2 0x40100000 ((new_wheeled_mem 14 4)\<lparr>w_accessing := True, w_remaining_cycles := 9, w_requested_addr := 0x40100000\<rparr>)"
proof -
  let ?w = "(new_wheeled_mem 14 4)\<lparr>w_accessing := True, w_remaining_cycles := 9, w_requested_addr := 0x40100000\<rparr>"
  have s: "served 3 1 0x40000000 (new_wheeled_mem 14 4)"
    by (simp add: served_may_start [OF wheel_wf] may_start_def slot_owner_def)
  have t: "wheel_timed (new_wheeled_mem 14 4)" "wheel_timed ?w" "\<not> w_accessing (new_wheeled_mem 14 4)"
    using wheel_wf by (auto simp: wheel_ready_timed wheel_timed_def)
  show ?thesis
    using s slots_are_private [OF t(1,1) s, of 2 "0x40100000"] slots_are_private [OF t(1,2) s, of 2 "0x40100000"] t(3) by simp
qed

lemma bounded_stall_witness: "\<exists>k<19. served (of_nat (7 + 6 * k)) 4 0x40000000 (new_wheeled_mem 14 4)"
  using bounded_stall [of 4 7 "\<lambda>_. new_wheeled_mem 14 4" "\<lambda>_. 0x40000000"] wheel_wf by simp

lemma barrier_waits_for_all_witness:
  "(3, 0) \<in> set [(3 :: u16, 0 :: nat), (3, 0), (3, 1)]"
proof -
  obtain t2 where "check_sync_table 3 0 arrived = Inr (t2, True)"
    by (simp add: arrived_def check_sync_table_def six_rows Let_def)
  then show ?thesis
    using two_arrive barrier_waits_for_all [of "[(3, 0), (3, 0), (3, 1)]" arrived 3 0 t2 0] by auto
qed

lemma clock_ticks_witness: "get_tick ((tick ^^ 10) (new_pret_clock 5))"
  using clock_ticks [of 5 10] by simp

lemma window_alias_witness: "reg_cell_of (8, 1) = reg_cell_of (24, 0)"
  using window_alias [of 1 0 8 24] by (simp add: window_below_def)

lemma set_get_psr_witness: "set_psr (get_psr (set_psr 0xF30000E5 init_special_reg)) (set_psr 0xF30000E5 init_special_reg) = set_psr 0xF30000E5 init_special_reg"
  by (rule set_get_psr [OF psr_fields_fit_set])

lemma deadline_status_tick_witness:
  "s_dt_status (decrement_deadline_timers (init_special_reg\<lparr>s_dt_status := replicate 8 SET\<rparr>)) ! 3 = MISSED"
proof -
  have "wf_special (init_special_reg\<lparr>s_dt_status := replicate 8 SET\<rparr>)"
    using wf_init_special by (simp add: wf_special_def)
  from deadline_status_tick [OF this, of 3] show ?thesis by (simp add: special0)
qed

lemma alu_add_icc_witness:
  "\<exists>t. i_alu_result (t_inst (perform_alu_operations t)) = 0x80000000 \<and>
     icc_flags (i_icc (t_inst (perform_alu_operations t))) = (True, False, True, False)"
proof -
  let ?i = "(initialize_with 0)\<lparr>i_aluop := ALU_ADD, i_write_icc := True, i_op1_value := 0x7FFFFFFF, i_op2_value := 1\<rparr>"
  let ?t = "thread0\<lparr>t_inst := ?i\<rparr>"
  have "carry_in ?t = 0" by (simp add: carry_in_def initialize_with_def)
  then show ?thesis
    using alu_add_icc [of ?t "0x7FFFFFFF" 1 0 "i_alu_result (t_inst (perform_alu_operations ?t))"]
    by (intro exI [of _ ?t]) (simp add: initialize_with_def signed_range_def)
qed

lemma multiply_sequence_witness:
  "partial_product (multiply_round 0 (multiply_rounds 32 (-3) (thread0\<lparr>t_inst := initialize_with 0,
     t_spec_regs := init_special_reg\<lparr>s_y := 5\<rparr>\<rparr>))) = - 15"
  using multiply_sequence [of "thread0\<lparr>t_inst := initialize_with 0, t_spec_regs := init_special_reg\<lparr>s_y := 5\<rparr>\<rparr>" "-3"]
  by (simp add: initialize_with_def init_special_reg_def set_psr_def)

lemma compare_and_branch_witness:
  "branch_check (thread0\<lparr>t_inst := (initialize_with 0)\<lparr>i_branch := True, i_conditional_branch := BRCH_BL\<rparr>,
     t_spec_regs := init_special_reg\<lparr>s_icc := i_icc (t_inst (perform_alu_operations (thread0\<lparr>t_inst :=
       (initialize_with 0)\<lparr>i_aluop := ALU_SUB, i_write_icc := True, i_op1_value := 2, i_op2_value := 7\<rparr>\<rparr>)))\<rparr>\<rparr>)"
  by (subst compare_and_branch [of "thread0\<lparr>t_inst := (initialize_with 0)\<lparr>i_aluop := ALU_SUB, i_write_icc := True, i_op1_value := 2, i_op2_value := 7\<rparr>\<rparr>"])
    (simp_all add: initialize_with_def condition_holds_def)

lemma deadline_wait_witness:
  "\<exists>t'. deadline_instruction (after_rounds 4 (thread0\<lparr>t_inst := (initialize_with 0)\<lparr>i_select_special_register := SREG_DT, i_rd := 2\<rparr>,
      t_spec_regs := init_special_reg\<lparr>s_dt := replicate 8 9\<rparr>\<rparr>)) = Inr t' \<and> t_deadline_stalled t'"
proof -
  let ?t = "thread0\<lparr>t_inst := (initialize_with 0)\<lparr>i_select_special_register := SREG_DT, i_rd := 2\<rparr>,
      t_spec_regs := init_special_reg\<lparr>s_dt := replicate 8 9\<rparr>\<rparr>"
  have "wf_thread ?t" using thread0_wf wf_init_special by (simp add: wf_thread_def wf_special_def)
  then show ?thesis
    using deadline_wait [of ?t 9 4] by (simp add: initialize_with_def truthy_def)
qed

lemma trap_first_pass_witness:
  "\<exists>t'. handle_exceptions (thread0\<lparr>t_trapped := XCPT_TRAPPED, t_spec_regs := init_special_reg\<lparr>s_et := True\<rparr>\<rparr>) = Inr (t', False) \<and>
     i_alu_result (t_inst t') = 0x40000000"
  using trap_first_pass [of "thread0\<lparr>t_trapped := XCPT_TRAPPED, t_spec_regs := init_special_reg\<lparr>s_et := True\<rparr>\<rparr>"]
  by (auto simp: is_trapped_def thread0_def new_hw_thread_def)

lemma trap_second_pass_witness:
  "\<exists>t'. handle_exceptions (thread0\<lparr>t_trapped := XCPT_TRAPPED2, t_trap_type := 0x73, t_spec_regs := init_special_reg\<lparr>s_et := True\<rparr>\<rparr>) = Inr (t', False) \<and>
     t_pc t' = 0x730 \<and> i_alu_result (t_inst t') = 0x40000004"
proof -
  let ?t = "thread0\<lparr>t_trapped := XCPT_TRAPPED2, t_trap_type := 0x73, t_spec_regs := init_special_reg\<lparr>s_et := True\<rparr>\<rparr>"
  have "wf_thread ?t" using thread0_wf wf_init_special by (simp add: wf_thread_def wf_special_def)
  then show ?thesis
    using trap_second_pass [of ?t] by (auto simp add: is_trapped_def thread0_def new_hw_thread_def special0)
qed

lemma trap_entry_keeps_supervisor_witness:
  "\<exists>t' b. handle_exceptions (thread0\<lparr>t_trapped := XCPT_TRAPPED, t_spec_regs := init_special_reg\<lparr>s_et := True\<rparr>\<rparr>) = Inr (t', b) \<and>
     s_et (t_spec_regs t') \<and> s_s (t_spec_regs t')"
proof -
  let ?t = "thread0\<lparr>t_trapped := XCPT_TRAPPED, t_spec_regs := init_special_reg\<lparr>s_et := True\<rparr>\<rparr>"
  obtain t' where "handle_exceptions ?t = Inr (t', False)"
    by (simp add: handle_exceptions_def is_trapped_def Let_def)
  from this trap_entry_keeps_supervisor [OF this] show ?thesis
    by (intro exI [of _ t'] exI [of _ False]) (simp add: special0)
qed

text \<open>A double-word load of \<open>%g2\<close> and \<open>%g3\<close> that stalls at cycle 110 and is served at cycle 116.\<close>

definition loading_thread :: hw_thread where
  "loading_thread = thread0\<lparr>t_enabled := True, t_id := 1, t_inst := initialize_with 0xC4186000,
     t_regs := (t_regs thread0)\<lparr>global_reg := [0, 0x40000000, 0, 0, 0, 0, 0, 0]\<rparr>\<rparr>"

lemma loading_thread_fields:
  "t_enabled loading_thread" "\<not> t_fetch_stalled loading_thread" "\<not> t_deadline_stalled loading_thread" "\<not> is_trapped loading_thread"
  "\<not> t_db_word_stalled loading_thread" "t_id loading_thread = 1" "s_curr_wp (t_spec_regs loading_thread) = 0"
  "s_dt_status (t_spec_regs loading_thread) = replicate 8 UNSET" "t_inst loading_thread = initialize_with 0xC4186000"
  "t_pc loading_thread = 0x40000000" "t_branch_slot loading_thread = 0"
  by (simp_all add: loading_thread_def thread0_def new_hw_thread_def init_special_reg_def set_psr_def is_trapped_def)

lemma loading_thread_word: "ldd_word 0xC4186000" "i_rd (decode (initialize_with 0xC4186000)) = 2" "ldd_address 0xC4186000 loading_thread = 0x40000000"
proof -
  show w: "ldd_word 0xC4186000" by (simp add: ldd_word_def decode_fields_def initialize_with_def Let_def)
  show "i_rd (decode (initialize_with 0xC4186000)) = 2"
    by (simp only: decode_ldd(1) [OF w] ldd_inst_flags) (simp add: decode_fields_def initialize_with_def Let_def)
  show "ldd_address 0xC4186000 loading_thread = 0x40000000"
    by (simp add: ldd_address_def decode_fields_def initialize_with_def Let_def get_reg_def loading_thread_def truthy_def)
qed

lemma stalled_double_word_skips_first_witness:
  "\<exists>t'. load_passes 1 110 (\<lambda>_. new_memory_controller True) (loading_thread, new_dma, []) = Inr (t', new_dma, []) \<and>
    t_regs t' = set_reg (t_regs loading_thread) 3 (thread_view 1 (new_memory_controller True) 0x40000004) 0 \<and>
    t_pc t' = 0x40000004"
proof -
  have "access_stalls 110 1 0x40000000 (new_memory_controller True)" "\<not> access_stalls 116 1 0x40000004 (new_memory_controller True)"
    by (simp_all add: access_stalls_def in_spm_def is_addr_in_spm_def new_memory_controller_def new_l1_scratch_def
        is_main_mem_def may_start_def slot_owner_def has_address_def new_memory_unit_def)
  then show ?thesis
    using stalled_double_word_skips_first [OF loading_thread_word(1) loading_thread_fields(9,1-5), of 1 "\<lambda>_. new_memory_controller True" 110 "0x40000004" 3 new_dma "[]"]
    by (auto simp: loading_thread_fields loading_thread_word wf_new_memory_controller aligned_def)
qed

text \<open>A byte stored at cycle 2, the turn of thread 1, and loaded back at cycle 3.\<close>

definition byte_access :: "MEMORY_SIZE \<Rightarrow> u32 \<Rightarrow> hw_thread" where
  "byte_access ms v = thread0\<lparr>t_id := 1,
     t_inst := (initialize_with 0)\<lparr>i_alu_result := 0x40000005, i_memory_size := ms, i_op3_value := v\<rparr>\<rparr>"

lemma store_then_load_witness:
  "\<exists>t1 mc1 t2 mc2. mem_store 2 (byte_access MEM_UNSIGNED_BYTE 0xF1) (new_memory_controller True) = Inr (t1, mc1) \<and>
     mem_load 3 (byte_access MEM_SIGNED_BYTE 0) mc1 = Inr (t2, mc2) \<and> i_alu_result (t_inst t2) = 0xFFFFFFF1"
proof -
  let ?t = "byte_access MEM_UNSIGNED_BYTE 0xF1" and ?u = "byte_access MEM_SIGNED_BYTE 0"
  note b = byte_access_def initialize_with_def thread0_def new_hw_thread_def
  have s: "\<exists>t1 mc1 t2 mc2. mem_store 2 ?t (new_memory_controller True) = Inr (t1, mc1) \<and> \<not> t_memory_stalled t1 \<and>
      mem_load 3 ?u mc1 = Inr (t2, mc2) \<and> \<not> t_memory_stalled t2"
    by (simp add: b mem_store_def mem_load_def access_defs start_defs Let_def get_write_data_def store_shamt_def
        mc_write_data_def main_loc_write_def w_write_def add_address_def)
  then obtain t1 mc1 t2 mc2 where st: "mem_store 2 ?t (new_memory_controller True) = Inr (t1, mc1)" "\<not> t_memory_stalled t1"
    and ld: "mem_load 3 ?u mc1 = Inr (t2, mc2)" "\<not> t_memory_stalled t2"
    by blast
  have "i_alu_result (t_inst t2) = extended (i_memory_size (t_inst ?u)) (i_op3_value (t_inst ?t))"
    using store_then_load [OF wf_new_memory_controller _ _ _ _ _ st ld]
    by (simp add: b lane_fits_def lane_width_def)
  then have "i_alu_result (t_inst t2) = 0xFFFFFFF1"
    by (simp add: b extended_def)
  with st(1) ld(1) show ?thesis by blast
qed

end
