(* ===== verification/Copies.thy ===== *)
theory Copies
  imports Hw_Thread
begin

section \<open>Copying and comparing threads (operator=, operator==)\<close>

text \<open>
  The assignment and comparison operators of instructions, special registers, register files
  and hardware threads, which copy and compare their objects member by member.  Arrays are
  copied by loops over their indices.  (The back pointer to the controller, which is the same
  for all threads, is not part of the model.)  The theorems show that an assignment leaves a
  copy, and which members a comparison does not see.
\<close>

definition instruction_assign :: "instruction \<Rightarrow> instruction \<Rightarrow> instruction" where
  "instruction_assign from_i to_i = to_i\<lparr>
       i_unimplemented := i_unimplemented from_i, i_pc := i_pc from_i, i_inst := i_inst from_i,
       i_op1 := i_op1 from_i, i_op2 := i_op2 from_i, i_op3 := i_op3 from_i, i_rs1 := i_rs1 from_i,
       i_rs2 := i_rs2 from_i, i_rd := i_rd from_i, i_aluop := i_aluop from_i,
       i_write_registers := i_write_registers from_i, i_write_memory := i_write_memory from_i,
       i_read_memory := i_read_memory from_i, i_memory_size := i_memory_size from_i,
       i_rs1sel := i_rs1sel from_i, i_rs2sel := i_rs2sel from_i, i_rdsel := i_rdsel from_i,
       i_increment_window_pointer := i_increment_window_pointer from_i,
       i_op1_value := i_op1_value from_i, i_op2_value := i_op2_value from_i,
       i_op3_value := i_op3_value from_i, i_imm := i_imm from_i, i_use_imm := i_use_imm from_i,
       i_carry := i_carry from_i, i_alu_result := i_alu_result from_i, i_branch := i_branch from_i,
       i_jump := i_jump from_i, i_conditional_branch := i_conditional_branch from_i,
       i_annul := i_annul from_i, i_call := i_call from_i, i_disp30 := i_disp30 from_i,
       i_write_icc := i_write_icc from_i, i_icc := i_icc from_i, i_disp22 := i_disp22 from_i,
       i_select_special_register := i_select_special_register from_i,
       i_write_special_registers := i_write_special_registers from_i,
       i_db_word_instruction := i_db_word_instruction from_i,
       i_signed_multiply := i_signed_multiply from_i, i_is_rett := i_is_rett from_i,
       i_sync_instruction := i_sync_instruction from_i\<rparr>"

definition instruction_eq :: "instruction \<Rightarrow> instruction \<Rightarrow> bool" where
  "instruction_eq a b \<longleftrightarrow>
     i_unimplemented a = i_unimplemented b \<and> i_pc a = i_pc b \<and> i_inst a = i_inst b \<and>
     i_op1 a = i_op1 b \<and> i_op2 a = i_op2 b \<and> i_op3 a = i_op3 b \<and>
     i_rs1 a = i_rs1 b \<and> i_rs2 a = i_rs2 b \<and> i_rd a = i_rd b \<and>
     i_aluop a = i_aluop b \<and> i_write_registers a = i_write_registers b \<and>
     i_write_memory a = i_write_memory b \<and> i_read_memory a = i_read_memory b \<and>
     i_memory_size a = i_memory_size b \<and> i_rs1sel a = i_rs1sel b \<and>
     i_rs2sel a = i_rs2sel b \<and> i_rdsel a = i_rdsel b \<and>
     i_op1_value a = i_op1_value b \<and> i_op2_value a = i_op2_value b \<and>
     i_op3_value a = i_op3_value b \<and> i_imm a = i_imm b \<and> i_use_imm a = i_use_imm b \<and>
     i_alu_result a = i_alu_result b \<and> i_branch a = i_branch b \<and>
     i_jump a = i_jump b \<and> i_conditional_branch a = i_conditional_branch b \<and>
     i_annul a = i_annul b \<and> i_call a = i_call b \<and> i_disp30 a = i_disp30 b \<and>
     i_write_icc a = i_write_icc b \<and> i_icc a = i_icc b \<and> i_disp22 a = i_disp22 b \<and>
     i_select_special_register a = i_select_special_register b \<and>
     i_write_special_registers a = i_write_special_registers b \<and>
     i_db_word_instruction a = i_db_word_instruction b \<and> i_carry a = i_carry b \<and>
     i_is_rett a = i_is_rett b \<and> i_signed_multiply a = i_signed_multiply b \<and>
     i_sync_instruction a = i_sync_instruction b"

text \<open>The loop \<open>for (i = 0; i < n; i++) to[i] = from[i]\<close>.\<close>

definition copy_array :: "nat \<Rightarrow> 'a list \<Rightarrow> 'a list \<Rightarrow> 'a list" where
  "copy_array n from_a to_a = fold (\<lambda>i a. a[i := from_a ! i]) [0..<n] to_a"

definition register_file_assign :: "register_file \<Rightarrow> register_file \<Rightarrow> register_file" where
  "register_file_assign from_r to_r =
     to_r\<lparr>window_reg := copy_array (16 * REGISTER_WINDOWS) (window_reg from_r) (window_reg to_r),
          global_reg := copy_array 8 (global_reg from_r) (global_reg to_r)\<rparr>"

definition special_reg_assign :: "special_reg \<Rightarrow> special_reg \<Rightarrow> special_reg" where
  "special_reg_assign from_s to_s = to_s\<lparr>
       s_curr_wp := s_curr_wp from_s, s_icc := s_icc from_s, s_s := s_s from_s, s_ps := s_ps from_s,
       s_tbr := s_tbr from_s, s_wim := s_wim from_s, s_et := s_et from_s, s_ec := s_ec from_s,
       s_ef := s_ef from_s, s_pil := s_pil from_s, s_imp_ver := s_imp_ver from_s, s_y := s_y from_s,
       s_asr := copy_array 32 (s_asr from_s) (s_asr to_s),
       s_dt := copy_array NUM_DEADLINE_TIMERS (s_dt from_s) (s_dt to_s),
       s_dt_status := copy_array NUM_DEADLINE_TIMERS (s_dt_status from_s) (s_dt_status to_s),
       s_plldt := copy_array NUM_PLL_TIMERS (s_plldt from_s) (s_plldt to_s),
       s_pll_load := copy_array NUM_PLL_TIMERS (s_pll_load from_s) (s_pll_load to_s),
       s_pll_loaded := s_pll_loaded from_s\<rparr>"

definition hw_thread_assign :: "hw_thread \<Rightarrow> hw_thread \<Rightarrow> hw_thread" where
  "hw_thread_assign from_t to_t = to_t\<lparr>
       t_id := t_id from_t, t_inst := instruction_assign (t_inst from_t) (t_inst to_t),
       t_cnt_cycles := t_cnt_cycles from_t, t_cnt_instr := t_cnt_instr from_t, t_pc := t_pc from_t,
       t_enabled := t_enabled from_t,
       t_spec_regs := special_reg_assign (t_spec_regs from_t) (t_spec_regs to_t),
       t_regs := register_file_assign (t_regs from_t) (t_regs to_t),
       t_branch_slot := t_branch_slot from_t, t_db_word_stalled := t_db_word_stalled from_t,
       t_deadline_stalled := t_deadline_stalled from_t,
       t_memory_stalled := t_memory_stalled from_t, t_fetch_stalled := t_fetch_stalled from_t,
       t_fixed_schedule := t_fixed_schedule from_t, t_trapped := t_trapped from_t,
       t_trap_type := t_trap_type from_t\<rparr>"

definition hw_thread_eq :: "hw_thread \<Rightarrow> hw_thread \<Rightarrow> bool" where
  "hw_thread_eq a b \<longleftrightarrow>
     t_id a = t_id b \<and> instruction_eq (t_inst a) (t_inst b) \<and> t_pc a = t_pc b \<and>
     t_enabled a = t_enabled b \<and> special_reg_eq (t_spec_regs a) (t_spec_regs b) \<and>
     t_branch_slot a = t_branch_slot b \<and> register_file_eq (t_regs a) (t_regs b) \<and>
     t_deadline_stalled a = t_deadline_stalled b \<and>
     t_memory_stalled a = t_memory_stalled b \<and> t_fetch_stalled a = t_fetch_stalled b \<and>
     t_fixed_schedule a = t_fixed_schedule b \<and> t_trapped a = t_trapped b \<and>
     t_trap_type a = t_trap_type b"

subsection \<open>An assignment leaves a copy\<close>

lemma copy_array_prefix:
  "n \<le> length a \<Longrightarrow> length b = length a \<Longrightarrow> copy_array n a b = take n a @ drop n b"
proof (induction n)
  case (Suc n)
  then have "copy_array (Suc n) a b = (take n a @ drop n b)[n := a ! n]" by (simp add: copy_array_def)
  also have "\<dots> = take (Suc n) a @ drop (Suc n) b"
    using Suc.prems by (simp add: list_update_append take_Suc_conv_app_nth upd_conv_take_nth_drop)
  finally show ?case .
qed (simp add: copy_array_def)

lemma copy_array_copy [simp]: "length a = n \<Longrightarrow> length b = n \<Longrightarrow> copy_array n a b = a"
  by (simp add: copy_array_prefix)

lemma instruction_assign_copy: "instruction_assign a b = a"
  by (simp add: instruction_assign_def)

lemma register_file_assign_copy: "wf_regs f \<Longrightarrow> wf_regs g \<Longrightarrow> register_file_assign f g = f"
  by (simp add: register_file_assign_def wf_regs_def)

lemma special_reg_assign_copy: "wf_special r \<Longrightarrow> wf_special s \<Longrightarrow> special_reg_assign r s = r"
  by (simp add: special_reg_assign_def wf_special_def)

lemma hw_thread_assign_copy: "wf_thread t \<Longrightarrow> wf_thread u \<Longrightarrow> hw_thread_assign t u = t"
  by (simp add: hw_thread_assign_def instruction_assign_copy register_file_assign_copy special_reg_assign_copy wf_thread_def)

subsection \<open>What a comparison sees\<close>

text \<open>The members that no comparison looks at, set to a value of their own.\<close>

definition unseen_instruction :: "instruction \<Rightarrow> instruction" where
  "unseen_instruction i = i\<lparr>i_increment_window_pointer := 0\<rparr>"

definition unseen_special :: "special_reg \<Rightarrow> special_reg" where
  "unseen_special r = r\<lparr>s_imp_ver := 0, s_dt_status := []\<rparr>"

definition unseen_thread :: "hw_thread \<Rightarrow> hw_thread" where
  "unseen_thread t = t\<lparr>t_cnt_cycles := 0, t_cnt_instr := 0, t_db_word_stalled := False,
     t_inst := unseen_instruction (t_inst t), t_spec_regs := unseen_special (t_spec_regs t)\<rparr>"

lemma instruction_eq_iff: "instruction_eq a b \<longleftrightarrow> unseen_instruction a = unseen_instruction b"
  by (cases a; cases b) (simp add: instruction_eq_def unseen_instruction_def, intro iffI;
    elim conjE; intro conjI; assumption)

lemma special_reg_eq_iff:
  assumes "wf_special a" "wf_special b"
  shows "special_reg_eq a b \<longleftrightarrow> unseen_special a = unseen_special b"
proof -
  have nth: "list_all (\<lambda>i. xs ! i = ys ! i) [0..<n] \<longleftrightarrow> xs = ys" if "length xs = n" "length ys = n"
    for n and xs ys :: "u32 list"
    using that by (auto simp: list_all_iff intro: nth_equalityI)
  have pll: "list_all (\<lambda>i. s_plldt a ! i = s_plldt b ! i \<and> s_pll_load a ! i = s_pll_load b ! i) [0..<NUM_PLL_TIMERS] \<longleftrightarrow>
      s_plldt a = s_plldt b \<and> s_pll_load a = s_pll_load b"
    using assms by (auto simp: wf_special_def list_all_iff intro: nth_equalityI)
  show ?thesis
    unfolding special_reg_eq_def pll using assms
    by (cases a; cases b) (simp add: wf_special_def unseen_special_def nth, intro iffI;
      elim conjE; intro conjI; assumption)
qed

text \<open>
  The comparison of two threads tells whether they agree in everything but the counters, the
  double-word state, the window increment of the instruction, the implementation version and the
  states of the deadline timers; and assigning a thread to another leaves a copy.
\<close>

theorem thread_copy_and_compare:
  assumes "wf_thread t" "wf_thread u"
  shows "hw_thread_eq t u \<longleftrightarrow> unseen_thread t = unseen_thread u" "hw_thread_assign t u = t"
proof -
  have "special_reg_eq (t_spec_regs t) (t_spec_regs u) \<longleftrightarrow>
      unseen_special (t_spec_regs t) = unseen_special (t_spec_regs u)"
    using assms by (intro special_reg_eq_iff) (simp_all add: wf_thread_def)
  moreover have "register_file_eq (t_regs t) (t_regs u) \<longleftrightarrow> t_regs t = t_regs u"
    using assms by (intro register_file_eq_iff) (simp_all add: wf_thread_def)
  ultimately show "hw_thread_eq t u \<longleftrightarrow> unseen_thread t = unseen_thread u"
    by (cases t; cases u) (simp add: hw_thread_eq_def unseen_thread_def instruction_eq_iff, intro iffI;
      elim conjE; intro conjI; assumption)
  show "hw_thread_assign t u = t" by (rule hw_thread_assign_copy [OF assms])
qed

end
