(* ===== verification/Deadline_Macros.thy ===== *)
theory Deadline_Macros
  imports Samples
begin

section \<open>The deadline macros of the C programs (src/soft/deadline.h)\<close>

text \<open>
  The programs reach the deadline timers and the DMA unit through macros that move their
  arguments into \<open>%g1\<close> and \<open>%g2\<close> and then place an instruction word by hand.  The compiler keeps
  an argument in a register of its choice, which is the parameter of the macro here.  A macro is
  modelled as the lines of assembly it expands to; the lemmas run the words of all lines, the
  moves included, through the simulator's stages and show that they mean what the macro's name
  says.
\<close>

datatype asm_line =
    Mov REGISTER_NUMBER REGISTER_NUMBER
  | Word u32
  | Label string

subsection \<open>The macros\<close>

definition DEADBRANCH :: "nat \<Rightarrow> REGISTER_NUMBER \<Rightarrow> asm_line list" where
  "DEADBRANCH n timeout = [Mov timeout 1, Word ([0xC1608001, 0xC3608001, 0xC5608001, 0xC7608001,
     0xC9608001, 0xCB608001, 0xCD608001, 0xCF608001] ! n)]"

definition DEADLOADBRANCH :: "nat \<Rightarrow> REGISTER_NUMBER \<Rightarrow> asm_line list" where
  "DEADLOADBRANCH n timeout = [Mov timeout 1, Word ([0xC160C001, 0xC360C001, 0xC560C001, 0xC760C001,
     0xC960C001, 0xCB60C001, 0xCD60C001, 0xCF60C001] ! n)]"

definition DEADLOAD :: "nat \<Rightarrow> REGISTER_NUMBER \<Rightarrow> asm_line list" where
  "DEADLOAD n timeout = [Mov timeout 1, Word ([0xC1604001, 0xC3604001, 0xC5604001, 0xC7604001,
     0xC9604001, 0xCB604001, 0xCD604001, 0xCF604001] ! n)]"

definition DEAD :: "nat \<Rightarrow> REGISTER_NUMBER \<Rightarrow> asm_line list" where
  "DEAD n timeout = [Mov timeout 1, Word ([0xC1600001, 0xC3600001, 0xC5600001, 0xC7600001,
     0xC9600001, 0xCB600001, 0xCD600001, 0xCF600001] ! n)]"

text \<open>The macros whose name has no number, and the one of loop deadlines.\<close>

definition DEADLOAD_plain :: "REGISTER_NUMBER \<Rightarrow> asm_line list" where
  "DEADLOAD_plain timeout = [Mov timeout 1, Word 0xC3604001]"

definition DEADBRANCH_plain :: "REGISTER_NUMBER \<Rightarrow> asm_line list" where
  "DEADBRANCH_plain timeout = [Mov timeout 1, Word 0xC3608001]"

definition DEADLOADBRANCH_plain :: "REGISTER_NUMBER \<Rightarrow> asm_line list" where
  "DEADLOADBRANCH_plain timeout = [Mov timeout 1, Word 0xC360C001]"

definition DEAD_plain :: "REGISTER_NUMBER \<Rightarrow> asm_line list" where
  "DEAD_plain timeout = [Mov timeout 1, Word 0xC3600001]"

definition DEADL0 :: "REGISTER_NUMBER \<Rightarrow> string \<Rightarrow> asm_line list" where
  "DEADL0 timeout pret_label = [Mov timeout 1, Word 0xC3600001, Label pret_label]"

definition DEADSTART :: "nat \<Rightarrow> REGISTER_NUMBER \<Rightarrow> string \<Rightarrow> asm_line list" where
  "DEADSTART n timeout pret_label =
     Label (pret_label @ ''_end'') # DEAD n timeout @ [Label (pret_label @ ''_start'')]"

definition DEADEND :: "nat \<Rightarrow> string \<Rightarrow> asm_line list" where
  "DEADEND n pret_label = [Label (pret_label @ ''_end_end''), Word ([0xC1602000, 0xC3602000, 0xC5602000,
     0xC7602000, 0xC9602000, 0xCB602000, 0xCD602000, 0xCF602000] ! n)]"

definition DMAMV :: "REGISTER_NUMBER \<Rightarrow> REGISTER_NUMBER \<Rightarrow> asm_line list" where
  "DMAMV mem_addr spm_addr = [Mov mem_addr 1, Mov spm_addr 2, Word 0xC5A00001]"

subsection \<open>Running the lines on the simulator\<close>

text \<open>
  The assembler's \<open>mov\<close> is an \<open>or\<close> with \<open>%g0\<close>.  A word is fetched once, its timers ticking, and
  passes the other stages; while the deadline stalls the thread the same word passes again, six
  cycles later.  The fuel counts the passes of all words; the flag tells that the last word has
  committed.
\<close>

definition mov_word :: "REGISTER_NUMBER \<Rightarrow> REGISTER_NUMBER \<Rightarrow> u32" where
  "mov_word rs rd = 0x80100000 OR push_bit 25 (ucast rd) OR ucast rs"

definition assemble :: "asm_line list \<Rightarrow> u32 list" where
  "assemble ls = concat (map (\<lambda>l. case l of Mov rs rd \<Rightarrow> [mov_word rs rd] | Word w \<Rightarrow> [w] | Label _ \<Rightarrow> []) ls)"

lemma assemble_simps [simp]:
  "assemble [] = []" "assemble (Mov rs rd # ls) = mov_word rs rd # assemble ls" "assemble (Word w # ls) = w # assemble ls"
  "assemble (Label l # ls) = assemble ls" "assemble (ls @ ls') = assemble ls @ assemble ls'"
  by (simp_all add: assemble_def)

type_synonym asm_state = "hw_thread \<times> dma \<times> sync_table \<times> memory_controller"

definition fetched :: "u32 \<Rightarrow> hw_thread \<Rightarrow> hw_thread" where
  "fetched w t =
     (let t1 = upd_spec decrement_deadline_timers t
      in if t_deadline_stalled t1 then t1 else upd_inst (set_inst w) t1)"

definition word_pass :: "u32 \<Rightarrow> u32 \<Rightarrow> asm_state \<Rightarrow> sim_error + asm_state" where
  "word_pass cycles w = (\<lambda>(t, d, tab, mc).
     andThen (regacc_behavior (decode_behavior (fetched w t))) (\<lambda>t1.
     andThen (mem_behavior cycles (execute_behavior t1) mc) (\<lambda>(t2, mc').
     andThen (except_behavior (t2, d, tab)) (\<lambda>(t3, d', tab').
       Inr (t3, d', tab', mc')))))"

fun run_words :: "nat \<Rightarrow> u32 \<Rightarrow> u32 list \<Rightarrow> asm_state \<Rightarrow> sim_error + (asm_state \<times> bool)" where
  "run_words fuel cycles [] s = Inr (s, True)"
| "run_words 0 cycles (w # ws) s = Inr (s, False)"
| "run_words (Suc fuel) cycles (w # ws) s =
     andThen (word_pass cycles w s) (\<lambda>s'.
       run_words fuel (cycles + 6) (if t_deadline_stalled (fst s') then w # ws else ws) s')"

definition run_lines :: "nat \<Rightarrow> u32 \<Rightarrow> asm_line list \<Rightarrow> asm_state \<Rightarrow> sim_error + (asm_state \<times> bool)" where
  "run_lines fuel cycles ls s = run_words fuel cycles (assemble ls) s"

subsection \<open>What the words decode to\<close>

text \<open>The word of a register deadline on timer \<open>n\<close>, with the two flags of its first source field.\<close>

definition dead_word :: "nat \<Rightarrow> bool \<Rightarrow> bool \<Rightarrow> u32 option \<Rightarrow> u32 \<Rightarrow> bool" where
  "dead_word n load branch imm w \<longleftrightarrow>
     (let i = decode_fields (initialize_with w) in
      i_op1 i = OP_MEMORY \<and> i_op3 i = OP3_DEAD \<and> i_rd i = of_nat n \<and> n < 8 \<and> 
      (case imm of None \<Rightarrow> \<not> i_use_imm i \<and> i_rs2 i = 1 | Some v \<Rightarrow> i_use_imm i \<and> i_imm i = v) \<and>
      truthy (i_rs1 i AND 1) = load \<and> truthy (i_rs1 i AND 2) = branch)"

lemma upto8: "n < 8 \<longleftrightarrow> n \<in> {0, 1, 2, 3, 4, 5, 6, 7 :: nat}"
  by auto

lemma dead_words:
  assumes "n < 8"
  shows "dead_word n False False None ([0xC1600001, 0xC3600001, 0xC5600001, 0xC7600001,
     0xC9600001, 0xCB600001, 0xCD600001, 0xCF600001] ! n)"
    "dead_word n False True None ([0xC1608001, 0xC3608001, 0xC5608001, 0xC7608001,
     0xC9608001, 0xCB608001, 0xCD608001, 0xCF608001] ! n)"
    "dead_word n True True None ([0xC160C001, 0xC360C001, 0xC560C001, 0xC760C001,
     0xC960C001, 0xCB60C001, 0xCD60C001, 0xCF60C001] ! n)"
    "dead_word n True False None ([0xC1604001, 0xC3604001, 0xC5604001, 0xC7604001,
     0xC9604001, 0xCB604001, 0xCD604001, 0xCF604001] ! n)"
    "dead_word n False False (Some 0) ([0xC1602000, 0xC3602000, 0xC5602000, 0xC7602000,
     0xC9602000, 0xCB602000, 0xCD602000, 0xCF602000] ! n)"
  using assms unfolding upto8
  by (auto simp: dead_word_def decode_fields_def initialize_with_def Let_def truthy_def)


text \<open>The value the instruction stores: its immediate, or the contents of \<open>%g1\<close>.\<close>

definition operand :: "u32 option \<Rightarrow> hw_thread \<Rightarrow> u32" where
  "operand imm t = (case imm of None \<Rightarrow> global_reg (t_regs t) ! 1 | Some v \<Rightarrow> v)"

lemma operand_regs: "t_regs u = t_regs t \<Longrightarrow> operand imm u = operand imm t"
  by (cases imm) (simp_all add: operand_def)

text \<open>A decoded deadline instruction as it waits: only its operand values change between passes.\<close>

definition dead_inst :: "u32 \<Rightarrow> u32 \<Rightarrow> u32 \<Rightarrow> u32 \<Rightarrow> u32 \<Rightarrow> bool \<Rightarrow> instruction" where
  "dead_inst w a b c r x = (decode_fields (initialize_with w))\<lparr>i_aluop := ALU_ADD_DEAD,
     i_select_special_register := SREG_DT, i_op1_value := a, i_op2_value := b, i_op3_value := c, i_alu_result := r,
     i_write_special_registers := x\<rparr>"

lemma decode_dead:
  assumes "dead_word n load branch imm w"
  shows "decode (initialize_with w) = dead_inst w 0 0 0 0 False" "decode (dead_inst w a b c r x) = dead_inst w a b c r x"
  using assms
  by (simp_all add: dead_word_def dead_inst_def decode_def decode_fields_def decode_switch_def decode_memory_def
      initialize_with_def Let_def)

lemma dead_inst_fields:
  assumes "dead_word n load branch imm w"
  shows "i_rd (dead_inst w a b c r x) = of_nat n" 
    "case imm of None \<Rightarrow> \<not> i_use_imm (dead_inst w a b c r x) \<and> i_rs2 (dead_inst w a b c r x) = 1
     | Some v \<Rightarrow> i_use_imm (dead_inst w a b c r x) \<and> i_imm (dead_inst w a b c r x) = v"
    "truthy (i_rs1 (dead_inst w a b c r x) AND 1) = load" "truthy (i_rs1 (dead_inst w a b c r x) AND 2) = branch"
    "i_select_special_register (dead_inst w a b c r x) = SREG_DT" "i_aluop (dead_inst w a b c r x) = ALU_ADD_DEAD"
  using assms
  by (cases imm; simp add: dead_word_def dead_inst_def Let_def)+

lemma dead_inst_flags:
  "i_db_word_instruction (dead_inst w a b c r x) = False" "i_read_memory (dead_inst w a b c r x) = False"
  "i_write_memory (dead_inst w a b c r x) = False" "i_write_icc (dead_inst w a b c r x) = False"
  "i_write_registers (dead_inst w a b c r x) = False" "i_branch (dead_inst w a b c r x) = False"
  "i_call (dead_inst w a b c r x) = False" "i_jump (dead_inst w a b c r x) = False" "i_is_rett (dead_inst w a b c r x) = False"
  "i_sync_instruction (dead_inst w a b c r x) = False" "i_increment_window_pointer (dead_inst w a b c r x) = 0"
  "i_write_special_registers (dead_inst w a b c r x) = x" "i_op2_value (dead_inst w a b c r x) = b"
  "i_alu_result (dead_inst w a b c r x) = r" "i_carry (dead_inst w a b c r x) = False"
  by (simp_all add: dead_inst_def decode_fields_def initialize_with_def Let_def)

lemma dead_inst_upds:
  "(dead_inst w a b c r x)\<lparr>i_op1_value := a'\<rparr> = dead_inst w a' b c r x"
  "(dead_inst w a b c r x)\<lparr>i_op2_value := b'\<rparr> = dead_inst w a b' c r x"
  "(dead_inst w a b c r x)\<lparr>i_op3_value := c'\<rparr> = dead_inst w a b c' r x"
  "(dead_inst w a b c r x)\<lparr>i_alu_result := r'\<rparr> = dead_inst w a b c r' x"
  "(dead_inst w a b c r x)\<lparr>i_write_special_registers := x'\<rparr> = dead_inst w a b c r x'"
  by (simp_all add: dead_inst_def)

subsection \<open>Waiting for a timer\<close>

definition awaiting :: "u32 option \<Rightarrow> u32 \<Rightarrow> u32 \<Rightarrow> hw_thread \<Rightarrow> bool" where
  "awaiting imm w v t \<longleftrightarrow> t_enabled t \<and> \<not> t_fetch_stalled t \<and> \<not> t_memory_stalled t \<and> \<not> t_db_word_stalled t \<and>
     \<not> is_trapped t \<and> \<not> s_pll_loaded (t_spec_regs t) \<and> wf_thread t \<and> operand imm t = v \<and>
     (t_deadline_stalled t \<longrightarrow> (\<exists>a b c r x. t_inst t = dead_inst w a b c r x))"

text \<open>No timer but \<open>n\<close> misses its deadline during the next \<open>k\<close> passes, and none has.\<close>

definition quiet :: "nat \<Rightarrow> nat \<Rightarrow> special_reg \<Rightarrow> bool" where
  "quiet n k s \<longleftrightarrow> list_all (\<lambda>i. s_dt_status s ! i \<noteq> MISSED \<and>
     (i \<noteq> n \<and> s_dt_status s ! i = SET \<longrightarrow> int k < sint (s_dt s ! i))) [0..<8]"

lemma decoded_dead:
  assumes "dead_word n load branch imm w" "awaiting imm w v t"
  obtains a b c r x where "decode_behavior (fetched w t) = (upd_spec decrement_deadline_timers t)\<lparr>t_inst := dead_inst w a b c r x\<rparr>"
proof (cases "t_deadline_stalled t")
  case True
  with assms(2) obtain a b c r x where "t_inst t = dead_inst w a b c r x" by (auto simp: awaiting_def)
  then have "decode_behavior (fetched w t) = (upd_spec decrement_deadline_timers t)\<lparr>t_inst := dead_inst w a b c r x\<rparr>"
    using True assms(2) decode_dead(2) [OF assms(1)]
    by (simp add: decode_behavior_def decode_is_not_valid_def fetched_def Let_def awaiting_def upd_inst_def)
  then show ?thesis by (rule that)
next
  case False
  then have "decode_behavior (fetched w t) = (upd_spec decrement_deadline_timers t)\<lparr>t_inst := dead_inst w 0 0 0 0 False\<rparr>"
    using assms(2) decode_dead(1) [OF assms(1)]
    by (simp add: decode_behavior_def decode_is_not_valid_def fetched_def Let_def awaiting_def upd_inst_def set_inst_def)
  then show ?thesis by (rule that)
qed

lemma quiet_armed:
  assumes "quiet n k s" "i < 8"
  shows "s_dt_status s ! i \<noteq> MISSED" "i \<noteq> n \<Longrightarrow> s_dt_status s ! i = SET \<Longrightarrow> int k < sint (s_dt s ! i)"
  using assms by (auto simp: quiet_def list_all_length)

lemma quiet_tick:
  assumes "wf_special s" "quiet n (Suc k) s" "i < 8" "i \<noteq> n"
  shows "s_dt_status (decrement_deadline_timers s) ! i = s_dt_status s ! i"
    "sint (s_dt (decrement_deadline_timers s) ! i) = sint (s_dt s ! i) - 1 \<or> s_dt_status s ! i \<noteq> SET"
proof -
  have q: "s_dt_status s ! i \<noteq> MISSED" "s_dt_status s ! i = SET \<Longrightarrow> int (Suc k) < sint (s_dt s ! i)"
    using assms(2-4) by (auto simp: quiet_def list_all_length)
  have l: "i < length (s_dt s)" using assms(1,3) by (simp add: wf_special_def)
  show "s_dt_status (decrement_deadline_timers s) ! i = s_dt_status s ! i"
    using deadline_status_tick [OF assms(1,3)] q sint_minus_small [of 2 "s_dt s ! i"] assms(1,3)
    by (cases "s_dt_status s ! i = SET")
      (auto simp: decrement_deadline_timers_def Let_def tick_status_def wf_special_def)
  show "sint (s_dt (decrement_deadline_timers s) ! i) = sint (s_dt s ! i) - 1 \<or> s_dt_status s ! i \<noteq> SET"
    using q(2) sint_minus_small [of 1 "s_dt s ! i"] by (auto simp: dt_decrement [OF l])
qed


lemma no_missed:
  assumes "wf_special s" "\<And>i. i < 8 \<Longrightarrow> s_dt_status s ! i \<noteq> MISSED"
  shows "missed_deadline s = None"
  using assms by (auto simp: missed_deadline_iff wf_special_def in_set_conv_nth)

lemma status_tick_other:
  assumes "wf_special s" "i < 8" "s_dt_status s ! i = SET \<longrightarrow> 1 < sint (s_dt s ! i)"
  shows "s_dt_status (decrement_deadline_timers s) ! i = s_dt_status s ! i"
  using assms sint_minus_small [of 2 "s_dt s ! i"]
  by (auto simp: decrement_deadline_timers_def Let_def tick_status_def wf_special_def)


text \<open>What the register-access stage makes of a decoded deadline instruction.\<close>

definition dead_regacc :: "u32 option \<Rightarrow> nat \<Rightarrow> bool \<Rightarrow> bool \<Rightarrow> u32 \<Rightarrow> u32 \<Rightarrow> bool \<Rightarrow> hw_thread \<Rightarrow> hw_thread" where
  "dead_regacc imm n stall branch w r x u =
     u\<lparr>t_deadline_stalled := stall,
       t_inst := dead_inst w (get_reg (t_regs u) (i_rs1 (t_inst u)) (s_curr_wp (t_spec_regs u))) (operand imm u)
         (get_reg (t_regs u) (of_nat n) (s_curr_wp (t_spec_regs u))) r (\<not> stall \<or> x),
       t_spec_regs := (if stall then t_spec_regs u else set_dt_status (if branch then SET else UNSET) n (t_spec_regs u))
         \<lparr>s_curr_wp := s_curr_wp (t_spec_regs u) mod 32\<rparr>\<rparr>"

lemma regacc_dead:
  assumes w: "dead_word n load branch imm w" and u: "t_inst u = dead_inst w a b c r x" "t_enabled u" "\<not> t_fetch_stalled u" 
    "\<not> t_db_word_stalled u"
    and stall: "stall = (0 < sint (s_dt (t_spec_regs u) ! n) \<and> \<not> load)"
    and miss: "missed_deadline (t_spec_regs (dead_regacc imm n stall branch w r x u)) = None"
  shows "regacc_behavior u = Inr (dead_regacc imm n stall branch w r x u)"
proof -
  have n: "n < 8" using w by (simp add: dead_word_def Let_def)
  have un: "unat (of_nat n :: u16) = n" "\<not> (7 < (of_nat n :: u16))" using n by (auto simp: unat_of_nat word_less_nat_alt)
  note f = dead_inst_fields [OF w] dead_inst_flags dead_inst_upds
  define sp where "sp = (if stall then t_spec_regs u else set_dt_status (if branch then SET else UNSET) n (t_spec_regs u))"
  define u' where "u' = u\<lparr>t_deadline_stalled := stall, t_inst := dead_inst w a b c r (\<not> stall \<or> x), t_spec_regs := sp\<rparr>"
  define a' where "a' = get_reg (t_regs u) (i_rs1 (t_inst u)) (s_curr_wp (t_spec_regs u))"
  have wp: "s_curr_wp sp = s_curr_wp (t_spec_regs u)" by (simp add: sp_def set_dt_status_def)
  have "missed_deadline sp = missed_deadline (t_spec_regs (dead_regacc imm n stall branch w r x u))" 
    by (simp add: missed_deadline_def sp_def dead_regacc_def)
  then have check: "check_deadline u' = u'" using miss by (simp add: check_deadline_def u'_def)
  have dead: "deadline_instruction u = Inr u'"
    using u stall by (simp add: deadline_instruction_def destination_regular_deadlines_def Let_def f un upd_inst_def upd_spec_def
       not_less u'_def sp_def)
  have rs1: "i_rs1 (dead_inst w a b c r (\<not> stall \<or> x)) = i_rs1 (t_inst u)"
    using u(1) by (simp add: dead_inst_def)
  define u2 where "u2 = u'\<lparr>t_inst := dead_inst w a' b c r (\<not> stall \<or> x)\<rparr>"
  define u3 where "u3 = u'\<lparr>t_inst := dead_inst w a' (operand imm u) c r (\<not> stall \<or> x)\<rparr>"
  have dw: "double_word_instruction u' = u2"
    using u(4) rs1 by (simp add: double_word_instruction_def Let_def u'_def u2_def wp a'_def upd_inst_def f)
  have imm: "immediate_instruction u2 = u3"
    using dead_inst_fields(2) [OF w, of a' b c r "\<not> stall \<or> x"]
    by (cases imm) (simp_all add: immediate_instruction_def upd_inst_def get_reg_def u'_def u2_def u3_def operand_def dead_inst_upds)
  have u3: "t_inst u3 = dead_inst w a' (operand imm u) c r (\<not> stall \<or> x)" "t_regs u3 = t_regs u" "t_spec_regs u3 = sp"
    by (simp_all add: u3_def u'_def)
  have "regacc_behavior u = Inr (u3\<lparr>t_inst := dead_inst w a' (operand imm u)
      (get_reg (t_regs u) (of_nat n) (s_curr_wp (t_spec_regs u))) r (\<not> stall \<or> x),
      t_spec_regs := sp\<lparr>s_curr_wp := s_curr_wp (t_spec_regs u) mod 32\<rparr>\<rparr>)"
    using u(2,3) by (simp add: regacc_behavior_def regacc_is_not_valid_def Let_def dead check dw imm upd_inst_def upd_spec_def f u3 wp)
  then show ?thesis by (simp add: dead_regacc_def u3_def u'_def sp_def a'_def)
qed

text \<open>
  The stages after it: a stalled instruction changes nothing but the cycle count, any other
  stores the value of \<open>%g1\<close> in the timer and moves on.
\<close>

definition dead_stalls :: "u32 \<Rightarrow> hw_thread \<Rightarrow> hw_thread" where
  "dead_stalls v t = t\<lparr>t_inst := (t_inst t)\<lparr>i_alu_result := v\<rparr>, t_cnt_cycles := t_cnt_cycles t + 6\<rparr>"

definition dead_commits :: "nat \<Rightarrow> u32 \<Rightarrow> hw_thread \<Rightarrow> hw_thread" where
  "dead_commits n v t = t\<lparr>t_inst := (t_inst t)\<lparr>i_alu_result := v\<rparr>, t_cnt_cycles := t_cnt_cycles t + 6, t_cnt_instr := t_cnt_instr t + 1,
     t_pc := (if t_branch_slot t \<noteq> 0 then t_branch_slot t else t_pc t + 4), t_branch_slot := 0,
     t_spec_regs := (t_spec_regs t)\<lparr>s_dt := (s_dt (t_spec_regs t))[n := v]\<rparr>\<rparr>"

lemma execute_dead:
  assumes "dead_word n load branch imm w" "t_inst u = dead_inst w a v c r x" "t_enabled u" "\<not> t_fetch_stalled u"
  shows "execute_behavior u = u\<lparr>t_inst := dead_inst w a v c v x\<rparr>" "mem_behavior cycles (execute_behavior u) mc = Inr (execute_behavior u, mc)"
proof -
  show e: "execute_behavior u = u\<lparr>t_inst := dead_inst w a v c v x\<rparr>"
    using assms by (simp add: execute_behavior_def perform_alu_operations_def alu_switch_def Let_def dead_inst_fields [OF assms(1)]
       dead_inst_flags dead_inst_upds upd_inst_def)
  show "mem_behavior cycles (execute_behavior u) mc = Inr (execute_behavior u, mc)"
    by (simp add: e mem_behavior_def dead_inst_flags)
qed

lemma except_dead:
  assumes w: "dead_word n load branch imm w" and u: "t_inst u = dead_inst w a b c v x" "t_enabled u" "\<not> t_fetch_stalled u"
    "\<not> t_db_word_stalled u" "\<not> t_memory_stalled u" "\<not> is_trapped u" "\<not> s_pll_loaded (t_spec_regs u)" "t_deadline_stalled u \<or> x"
  shows "except_behavior (u, d, tab) = Inr (if t_deadline_stalled u then dead_stalls v u else dead_commits n v u, d, tab)"
proof (cases "t_deadline_stalled u")
  case True
  then show ?thesis
    using u by (simp add: except_behavior_def except_is_not_valid_def Let_def set_dword_state_def dead_inst_flags dead_stalled_def
      dead_stalls_def dead_inst_upds)
next
  case False
  have n: "n < 8" using w by (simp add: dead_word_def Let_def)
  have un: "unat (of_nat n :: u16) = n" using n by (auto simp: unat_of_nat)
  let ?u = "u\<lparr>t_cnt_cycles := t_cnt_cycles u + 6\<rparr>"
  have h: "handle_exceptions ?u = Inr (?u, True)" using u by (simp add: handle_exceptions_def is_trapped_def)
  have p: "inc_pc ?u = Inr (?u\<lparr>t_pc := (if t_branch_slot u \<noteq> 0 then t_branch_slot u else t_pc u + 4), t_branch_slot := 0\<rparr>)"
    using u by (simp add: inc_pc_def advance_pc_def take_branch_def branch_check_def Let_def dead_inst_flags)
  show ?thesis
    using u False n un
    by (simp add: except_behavior_def except_is_not_valid_def Let_def set_dword_state_def dead_inst_flags dead_stalled_def
      dead_commits_def dead_inst_upds commit_instruction_def h p write_regs_def write_special_regs_def dead_inst_fields [OF w] upd_spec_def)
qed


lemma word_pass_dead:
  assumes w: "dead_word n load branch imm w" and t: "awaiting imm w v t"
    and s: "s = decrement_deadline_timers (t_spec_regs t)"
    and stall: "stall = (0 < sint (s_dt s ! n) \<and> \<not> load)"
    and st: "st = (if stall then s_dt_status s else (s_dt_status s)[n := if branch then SET else UNSET])"
    and miss: "MISSED \<notin> set st"
  obtains t' where "word_pass cycles w (t, d, tab, mc) = Inr (t', d, tab, mc)" "awaiting imm w v t'" 
    "t_deadline_stalled t' = stall" "t_regs t' = t_regs t"
    "s_dt (t_spec_regs t') = (if stall then s_dt s else (s_dt s)[n := v])" "s_dt_status (t_spec_regs t') = st"
    "t_pc t' = (if stall then t_pc t else if t_branch_slot t \<noteq> 0 then t_branch_slot t else t_pc t + 4)"
    "t_branch_slot t' = (if stall then t_branch_slot t else 0)"
proof -
  obtain a b c r x where "decode_behavior (fetched w t) = (upd_spec decrement_deadline_timers t)\<lparr>t_inst := dead_inst w a b c r x\<rparr>"
    by (rule decoded_dead [OF w t])
  moreover define u where "u = t\<lparr>t_spec_regs := s, t_inst := dead_inst w a b c r x\<rparr>"
  ultimately have dec: "decode_behavior (fetched w t) = u" by (simp add: s upd_spec_def)
  define u1 where "u1 = dead_regacc imm n stall branch w r x u"
  have u: "t_inst u = dead_inst w a b c r x" "t_enabled u" "\<not> t_fetch_stalled u" "\<not> t_db_word_stalled u" "t_spec_regs u = s"
    "t_regs u = t_regs t"
    using t by (simp_all add: u_def awaiting_def)
  have v: "operand imm t = v" "operand imm u = v" and wf: "wf_special s" "wf_regs (t_regs t)"
    using t operand_regs [of u t imm] u(6) by (auto simp: awaiting_def wf_thread_def s wf_decrement)
  have "s_dt_status (t_spec_regs u1) = st" by (simp add: u1_def dead_regacc_def st u(5) set_dt_status_def)
  then have reg: "regacc_behavior u = Inr u1"
    unfolding u1_def using stall miss u by (intro regacc_dead [OF w u(1-4)]) (simp_all add: missed_deadline_iff u1_def)
  obtain a' c' where u1: "t_inst u1 = dead_inst w a' v c' r (\<not> stall \<or> x)"
    using v by (simp add: u1_def dead_regacc_def u)
  have u1t: "t_enabled u1" "\<not> t_fetch_stalled u1" "\<not> t_db_word_stalled u1" "\<not> t_memory_stalled u1" "\<not> is_trapped u1" 
    "\<not> s_pll_loaded (t_spec_regs u1)" "t_deadline_stalled u1 = stall"
    using t by (auto simp: u1_def u_def dead_regacc_def awaiting_def is_trapped_def s decrement_deadline_timers_def Let_def set_dt_status_def)
  define u2 where "u2 = u1\<lparr>t_inst := dead_inst w a' v c' v (\<not> stall \<or> x)\<rparr>"
  define t' where "t' = (if stall then dead_stalls v u2 else dead_commits n v u2)"
  note ex = execute_dead [OF w u1 u1t(1,2)]
  have "except_behavior (u2, d, tab) = Inr (t', d, tab)"
    unfolding t'_def using u1t except_dead [OF w, of u2 a' v c' v "\<not> stall \<or> x" d tab] by (auto simp: u2_def is_trapped_def)
  then have pass: "word_pass cycles w (t, d, tab, mc) = Inr (t', d, tab, mc)"
    using ex by (simp add: word_pass_def dec reg u2_def)
  show ?thesis
  proof (rule that [OF pass])
    have "wf_thread t'"
      using wf by (auto simp: t'_def dead_stalls_def dead_commits_def u2_def wf_thread_def wf_special_def u1_def u_def
        dead_regacc_def set_dt_status_def)
    moreover have "t_inst t' = dead_inst w a' v c' v (\<not> stall \<or> x)"
      by (simp add: t'_def dead_stalls_def dead_commits_def u2_def dead_inst_upds)
    moreover have "operand imm t' = v"
      using v(1) by (subst operand_regs [of t' t]) (simp_all add: t'_def dead_stalls_def dead_commits_def u2_def u1_def u_def dead_regacc_def)
    moreover have "t_enabled t' \<and> \<not> t_fetch_stalled t' \<and> \<not> t_memory_stalled t' \<and> \<not> t_db_word_stalled t' \<and>
        \<not> is_trapped t' \<and> \<not> s_pll_loaded (t_spec_regs t')"
      using u1t by (auto simp: t'_def dead_stalls_def dead_commits_def u2_def is_trapped_def u1_def u_def dead_regacc_def)
    ultimately show "awaiting imm w v t'"
      unfolding awaiting_def by blast
  qed (use u u1t in \<open>auto simp: t'_def dead_stalls_def dead_commits_def u2_def u1_def dead_regacc_def st set_dt_status_def u_def\<close>)
qed


text \<open>The passes a deadline instruction takes: one for every tick its timer still has, and at least one.\<close>

definition dead_passes :: "bool \<Rightarrow> nat \<Rightarrow> special_reg \<Rightarrow> nat" where
  "dead_passes load n s = (if load then 1 else nat (max 1 (sint (s_dt s ! n))))"

lemma last_pass:
  assumes w: "dead_word n load branch imm w" and t: "awaiting imm w v t" and q: "quiet n 1 (t_spec_regs t)"
    and k: "dead_passes load n (t_spec_regs t) = 1" "- (2 ^ 31) < sint (s_dt (t_spec_regs t) ! n)"
  obtains t' where "word_pass cycles w (t, d, tab, mc) = Inr (t', d, tab, mc)" "\<not> t_deadline_stalled t'" "t_regs t' = t_regs t"
    "s_dt (t_spec_regs t') = (map (\<lambda>x. x - 1) (s_dt (t_spec_regs t)))[n := v]"
    "s_dt_status (t_spec_regs t') = (s_dt_status (t_spec_regs t))[n := if branch then SET else UNSET]"
    "t_pc t' = (if t_branch_slot t \<noteq> 0 then t_branch_slot t else t_pc t + 4)"
proof -
  define s where "s = decrement_deadline_timers (t_spec_regs t)"
  let ?st = "(s_dt_status s)[n := if branch then SET else UNSET]"
  have wf: "wf_special (t_spec_regs t)" "wf_special s" using t by (auto simp: awaiting_def wf_thread_def wf_decrement s_def)
  have n: "n < 8" using w by (simp add: dead_word_def Let_def)
  have dt: "\<not> (0 < sint (s_dt s ! n) \<and> \<not> load)"
  proof (cases load)
    case False
    then have "sint (s_dt (t_spec_regs t) ! n) \<le> 1" using k(1) by (simp add: dead_passes_def)
    moreover have "sint (s_dt s ! n) = sint (s_dt (t_spec_regs t) ! n) - 1"
      using k(2) sint_minus_small [of 1 "s_dt (t_spec_regs t) ! n"] n wf(1) by (simp add: dt_decrement wf_special_def s_def)
    ultimately show ?thesis by simp
  qed simp
  have same: "s_dt_status s ! i = s_dt_status (t_spec_regs t) ! i" if "i < 8" "i \<noteq> n" for i
    unfolding s_def using status_tick_other [OF wf(1) that(1)] quiet_armed [OF q that(1)] that by auto
  have st: "?st = (s_dt_status (t_spec_regs t))[n := if branch then SET else UNSET]"
    by (rule nth_equalityI) (use wf same n in \<open>auto simp: wf_special_def nth_list_update\<close>)
  have miss: "MISSED \<notin> set ?st"
  proof -
    have "MISSED \<notin> set (s_dt_status (t_spec_regs t))"
      using quiet_armed(1) [OF q] wf(1) by (auto simp: in_set_conv_nth wf_special_def)
    then show ?thesis
      unfolding st using set_update_subset_insert [of "s_dt_status (t_spec_regs t)" n "if branch then SET else UNSET"]
      by (auto split: if_splits)
  qed
  obtain t' where "word_pass cycles w (t, d, tab, mc) = Inr (t', d, tab, mc)" "t_deadline_stalled t' = False" "t_regs t' = t_regs t"
    "s_dt (t_spec_regs t') = (s_dt s)[n := v]" "s_dt_status (t_spec_regs t') = ?st"
    "t_pc t' = (if t_branch_slot t \<noteq> 0 then t_branch_slot t else t_pc t + 4)"
    by (rule word_pass_dead [OF w t s_def, of False ?st cycles d tab mc]) (use dt miss in auto)
  then show ?thesis by (intro that [of t']) (simp_all add: st, simp add: s_def decrement_deadline_timers_def Let_def)
qed

lemma waiting_pass:
  assumes w: "dead_word n load branch imm w" and t: "awaiting imm w v t" and q: "quiet n (Suc k) (t_spec_regs t)"
    and k: "dead_passes load n (t_spec_regs t) = Suc k" "0 < k"
  obtains t' where "word_pass cycles w (t, d, tab, mc) = Inr (t', d, tab, mc)" "t_deadline_stalled t'" "awaiting imm w v t'" "t_regs t' = t_regs t"
    "s_dt (t_spec_regs t') = map (\<lambda>x. x - 1) (s_dt (t_spec_regs t))"
    "s_dt_status (t_spec_regs t') = s_dt_status (t_spec_regs t)" "t_pc t' = t_pc t" "t_branch_slot t' = t_branch_slot t" 
    "quiet n k (t_spec_regs t')" "dead_passes load n (t_spec_regs t') = k"
    "sint (s_dt (t_spec_regs t') ! n) = int k"
proof -
  define s where "s = decrement_deadline_timers (t_spec_regs t)"
  have wf: "wf_special (t_spec_regs t)" "wf_special s" using t by (auto simp: awaiting_def wf_thread_def wf_decrement s_def)
  have n: "n < 8" using w by (simp add: dead_word_def Let_def)
  have load: "\<not> load" and d: "sint (s_dt (t_spec_regs t) ! n) = int (Suc k)"
    using k by (auto simp: dead_passes_def split: if_splits)
  have dt: "sint (s_dt s ! n) = int k"
    using d sint_minus_small [of 1 "s_dt (t_spec_regs t) ! n"] n wf(1) by (simp add: dt_decrement wf_special_def s_def)
  have same: "s_dt_status s ! i = s_dt_status (t_spec_regs t) ! i" if "i < 8" for i
    unfolding s_def
  proof (rule status_tick_other [OF wf(1) that], intro impI)
    assume "s_dt_status (t_spec_regs t) ! i = SET"
    then show "1 < sint (s_dt (t_spec_regs t) ! i)"
      using quiet_armed [OF q that] d k(2) by (cases "i = n") auto
  qed
  have st: "s_dt_status s = s_dt_status (t_spec_regs t)"
    by (rule nth_equalityI) (use wf same in \<open>auto simp: wf_special_def\<close>)
  have miss: "MISSED \<notin> set (s_dt_status s)"
    unfolding st using q wf(1) by (auto simp: quiet_def list_all_length in_set_conv_nth wf_special_def)
  have quiet: "quiet n k s"
    using q quiet_tick(2) [OF wf(1) q] same unfolding quiet_def list_all_length s_def by fastforce
  obtain t' where t': "word_pass cycles w (t, d, tab, mc) = Inr (t', d, tab, mc)" "awaiting imm w v t'" "t_deadline_stalled t' = True" "t_regs t' = t_regs t"
    "s_dt (t_spec_regs t') = s_dt s" "s_dt_status (t_spec_regs t') = s_dt_status s" "t_pc t' = t_pc t" "t_branch_slot t' = t_branch_slot t"
    by (rule word_pass_dead [OF w t s_def, of True "s_dt_status s" cycles d tab mc]) (use dt load k miss in auto)
  show ?thesis
  proof (rule that [OF t'(1) _ t'(2)])
    show "quiet n k (t_spec_regs t')" using quiet by (simp add: quiet_def t')
    show "sint (s_dt (t_spec_regs t') ! n) = int k" using dt by (simp add: t')
    show "dead_passes load n (t_spec_regs t') = k" using dt k(2) load by (simp add: dead_passes_def t')
    show "s_dt (t_spec_regs t') = map (\<lambda>x. x - 1) (s_dt (t_spec_regs t))" by (simp add: t' s_def decrement_deadline_timers_def Let_def)
  qed (simp_all add: t' st)
qed



text \<open>
  A deadline instruction takes as many passes as its timer tells, whatever comes behind it, and
  waits still when the fuel is less.
\<close>

lemma run_words_dead:
  assumes "dead_word n load branch imm w" "awaiting imm w v t" "quiet n k (t_spec_regs t)"
    "dead_passes load n (t_spec_regs t) = k" "- (2 ^ 31) < sint (s_dt (t_spec_regs t) ! n)"
  shows "\<exists>t'. (\<forall>fuel. if k \<le> fuel
      then run_words fuel cycles (w # ws) (t, d, tab, mc) = run_words (fuel - k) (cycles + 6 * of_nat k) ws (t', d, tab, mc)
      else \<exists>s'. run_words fuel cycles (w # ws) (t, d, tab, mc) = Inr (s', False)) \<and>
    \<not> t_deadline_stalled t' \<and> t_regs t' = t_regs t \<and>
    s_dt (t_spec_regs t') = (map (\<lambda>x. x - of_nat k) (s_dt (t_spec_regs t)))[n := v] \<and>
    s_dt_status (t_spec_regs t') = (s_dt_status (t_spec_regs t))[n := if branch then SET else UNSET] \<and>
    t_pc t' = (if t_branch_slot t \<noteq> 0 then t_branch_slot t else t_pc t + 4)"
  using assms(2-5)
proof (induction k arbitrary: t cycles)
  case 0
  then show ?case by (simp add: dead_passes_def split: if_splits)
next
  case (Suc k)
  note w = assms(1)
  show ?case
  proof (cases "k = 0")
    case True
    obtain t' where t': "word_pass cycles w (t, d, tab, mc) = Inr (t', d, tab, mc)" "\<not> t_deadline_stalled t'" "t_regs t' = t_regs t"
      "s_dt (t_spec_regs t') = (map (\<lambda>x. x - 1) (s_dt (t_spec_regs t)))[n := v]"
      "s_dt_status (t_spec_regs t') = (s_dt_status (t_spec_regs t))[n := if branch then SET else UNSET]"
      "t_pc t' = (if t_branch_slot t \<noteq> 0 then t_branch_slot t else t_pc t + 4)"
      using Suc.prems True by (auto intro: last_pass [OF w, of v t cycles d tab mc])
    have "if Suc k \<le> fuel
      then run_words fuel cycles (w # ws) (t, d, tab, mc) = run_words (fuel - Suc k) (cycles + 6 * of_nat (Suc k)) ws (t', d, tab, mc)
      else \<exists>s'. run_words fuel cycles (w # ws) (t, d, tab, mc) = Inr (s', False)" for fuel
      using True t'(1,2) by (cases fuel) auto
    moreover have "map (\<lambda>x. x - 1) (s_dt (t_spec_regs t)) = map (\<lambda>x. x - of_nat (Suc k)) (s_dt (t_spec_regs t))"
      using True by simp
    ultimately show ?thesis using t'(2-6) by metis
  next
    case False
    then obtain t1 where t1: "word_pass cycles w (t, d, tab, mc) = Inr (t1, d, tab, mc)" "t_deadline_stalled t1" "awaiting imm w v t1"
      "t_regs t1 = t_regs t" "s_dt (t_spec_regs t1) = map (\<lambda>x. x - 1) (s_dt (t_spec_regs t))"
      "s_dt_status (t_spec_regs t1) = s_dt_status (t_spec_regs t)" "t_pc t1 = t_pc t" "t_branch_slot t1 = t_branch_slot t" 
      "quiet n k (t_spec_regs t1)" "dead_passes load n (t_spec_regs t1) = k"
      "sint (s_dt (t_spec_regs t1) ! n) = int k"
      using waiting_pass [OF w Suc.prems(1-3), of cycles d tab mc] by auto
    have "- (2 ^ 31) < sint (s_dt (t_spec_regs t1) ! n)" by (simp add: t1(11))
    then obtain t' where t': 
      "\<And>fuel. if k \<le> fuel
        then run_words fuel (cycles + 6) (w # ws) (t1, d, tab, mc) = run_words (fuel - k) (cycles + 6 + 6 * of_nat k) ws (t', d, tab, mc)
        else \<exists>s'. run_words fuel (cycles + 6) (w # ws) (t1, d, tab, mc) = Inr (s', False)"
      "\<not> t_deadline_stalled t'" "t_regs t' = t_regs t1"
      "s_dt (t_spec_regs t') = (map (\<lambda>x. x - of_nat k) (s_dt (t_spec_regs t1)))[n := v]"
      "s_dt_status (t_spec_regs t') = (s_dt_status (t_spec_regs t1))[n := if branch then SET else UNSET]"
      "t_pc t' = (if t_branch_slot t1 \<noteq> 0 then t_branch_slot t1 else t_pc t1 + 4)"
      using Suc.IH [OF t1(3,9,10), of "cycles + 6"] by metis
    have "if Suc k \<le> fuel
      then run_words fuel cycles (w # ws) (t, d, tab, mc) = run_words (fuel - Suc k) (cycles + 6 * of_nat (Suc k)) ws (t', d, tab, mc)
      else \<exists>s'. run_words fuel cycles (w # ws) (t, d, tab, mc) = Inr (s', False)" for fuel
    proof (cases fuel)
      case (Suc m)
      then show ?thesis using t'(1) [of m] t1(1,2) by (auto simp: algebra_simps split: if_splits)
    qed auto
    moreover have "map (\<lambda>x. x - of_nat k) (s_dt (t_spec_regs t1)) = map (\<lambda>x. x - of_nat (Suc k)) (s_dt (t_spec_regs t))"
      by (simp add: t1(5) algebra_simps)
    ultimately show ?thesis using t'(2) t'(3-6) [unfolded t1(4,6-8)] by metis
  qed
qed


subsection \<open>Moves\<close>

text \<open>A thread at the start of an instruction, with no stall, trap or mailbox wait pending.\<close>

definition ready :: "hw_thread \<Rightarrow> bool" where
  "ready t \<longleftrightarrow> t_enabled t \<and> \<not> t_fetch_stalled t \<and> \<not> t_memory_stalled t \<and> \<not> t_db_word_stalled t \<and>
     \<not> t_deadline_stalled t \<and> \<not> is_trapped t \<and> \<not> s_pll_loaded (t_spec_regs t) \<and> wf_thread t"

lemma awaiting_ready: "ready t \<Longrightarrow> awaiting imm w (operand imm t) t"
  by (simp add: awaiting_def ready_def)

text \<open>A move decodes to an \<open>or\<close> of \<open>%g0\<close> and the source register, with no other effect.\<close>

definition mov_fields :: "REGISTER_NUMBER \<Rightarrow> REGISTER_NUMBER \<Rightarrow> instruction \<Rightarrow> bool" where
  "mov_fields rs rd i \<longleftrightarrow> i_op1 i = OP_ARITHMETIC_ETC \<and> i_op3 i = OP3_OR \<and> i_rd i = rd \<and> i_rs1 i = 0 \<and> i_rs2 i = rs \<and> \<not> i_use_imm i"

lemma mov_word_fields:
  assumes "rs < 32" "rd = 1 \<or> rd = 2"
  shows "mov_fields rs rd (decode_fields (initialize_with (mov_word rs rd)))"
proof -
  have n: "[0..<32] = [0, 1, 2, 3, 4, 5, 6, 7, 8, 9, 10, 11, 12, 13, 14, 15,
      16, 17, 18, 19, 20, 21, 22, 23, 24, 25, 26, 27, 28, 29, 30, 31]" by code_simp
  have "list_all (\<lambda>k. mov_fields (of_nat k) rd (decode_fields (initialize_with (mov_word (of_nat k) rd)))) [0..<32]" if "rd = 1 \<or> rd = 2"
    unfolding n using that
    by (elim disjE) (simp_all add: mov_fields_def decode_fields_def initialize_with_def mov_word_def Let_def truthy_def)
  moreover have "unat rs \<in> set [0..<32]" using assms(1) by (simp add: word_less_nat_alt)
  ultimately have "mov_fields (of_nat (unat rs)) rd (decode_fields (initialize_with (mov_word (of_nat (unat rs)) rd)))"
    using assms(2) by (simp only: list_all_iff)
  then show ?thesis by simp
qed

lemma mov_decode:
  assumes "rs < 32" "rd = 1 \<or> rd = 2"
  defines "i \<equiv> decode (initialize_with (mov_word rs rd))"
  shows "i_select_special_register i = 0" "i_aluop i = ALU_OR" "i_rd i = rd" "i_rs1 i = 0" "i_rs2 i = rs" 
    "i_use_imm i = False" "i_write_special_registers i = False" "i_write_registers i = True" "i_write_icc i = False"
    "i_carry i = False" "i_read_memory i = False" "i_write_memory i = False" "i_branch i = False" "i_call i = False"
    "i_jump i = False" "i_is_rett i = False" "i_sync_instruction i = False" "i_db_word_instruction i = False"
    "i_increment_window_pointer i = 0" "i_unimplemented i = False"
proof -
  let ?j = "decode_fields (initialize_with (mov_word rs rd))"
  have f: "i_op1 ?j = OP_ARITHMETIC_ETC" "i_op3 ?j = OP3_OR" "i_rd ?j = rd" "i_rs1 ?j = 0" "i_rs2 ?j = rs" "\<not> i_use_imm ?j"
    using mov_word_fields [OF assms(1,2)] by (simp_all add: mov_fields_def)
  have clean: "clean_flags ?j" by (rule clean_fresh)
  have i: "i = alu_reg ALU_OR ?j"
    using f assms(2) by (auto simp: i_def decode_def decode_switch_def decode_arithmetic_def Let_def alu_reg_def)
  show "i_select_special_register i = 0" "i_aluop i = ALU_OR" "i_rd i = rd" "i_rs1 i = 0" "i_rs2 i = rs" 
    "i_use_imm i = False" "i_write_special_registers i = False" "i_write_registers i = True" "i_write_icc i = False"
    "i_carry i = False" "i_read_memory i = False" "i_write_memory i = False" "i_branch i = False" "i_call i = False"
    "i_jump i = False" "i_is_rett i = False" "i_sync_instruction i = False" "i_db_word_instruction i = False"
    "i_unimplemented i = False"
    using f clean by (simp_all add: i alu_reg_def clean_flags_def)
  show "i_increment_window_pointer i = 0" by (simp add: i alu_reg_def decode_fields_def initialize_with_def Let_def)
qed


lemma mov_pass:
  assumes t: "ready t" "quiet 8 1 (t_spec_regs t)" and g: "global_reg (t_regs t) ! 0 = 0" and r: "rs < 32" "rd = 1 \<or> rd = 2"
  obtains t' where "word_pass cycles (mov_word rs rd) (t, d, tab, mc) = Inr (t', d, tab, mc)" "ready t'"
    "t_regs t' = (t_regs t)\<lparr>global_reg := (global_reg (t_regs t))[unat rd := get_reg (t_regs t) rs (s_curr_wp (t_spec_regs t))]\<rparr>"
    "t_spec_regs t' = (decrement_deadline_timers (t_spec_regs t))\<lparr>s_curr_wp := s_curr_wp (t_spec_regs t) mod 32\<rparr>"
    "s_dt_status (t_spec_regs t') = s_dt_status (t_spec_regs t)"
    "t_pc t' = (if t_branch_slot t \<noteq> 0 then t_branch_slot t else t_pc t + 4)" "t_branch_slot t' = 0" "t_id t' = t_id t"
proof -
  define i where "i = decode (initialize_with (mov_word rs rd))"
  define s where "s = decrement_deadline_timers (t_spec_regs t)"
  note f = mov_decode [OF r, folded i_def]
  define u where "u = t\<lparr>t_spec_regs := s, t_inst := i\<rparr>"
  have dec: "decode_behavior (fetched (mov_word rs rd) t) = u"
    using t by (simp add: decode_behavior_def decode_is_not_valid_def fetched_def Let_def ready_def upd_inst_def upd_spec_def
      set_inst_def u_def s_def i_def)
  have wf: "wf_special (t_spec_regs t)" "wf_special s" using t by (auto simp: ready_def wf_thread_def wf_decrement s_def)
  have st: "s_dt_status s ! j = s_dt_status (t_spec_regs t) ! j" "s_dt_status (t_spec_regs t) ! j \<noteq> MISSED" if "j < 8" for j
    unfolding s_def using status_tick_other [OF wf(1) that] quiet_armed [OF t(2) that] that by auto
  then have miss: "missed_deadline s = None" using no_missed [OF wf(2)] by auto
  have status: "s_dt_status s = s_dt_status (t_spec_regs t)"
    by (rule nth_equalityI) (use wf st(1) in \<open>auto simp: wf_special_def\<close>)
  have wp: "s_curr_wp s = s_curr_wp (t_spec_regs t)" "s_pll_loaded s = s_pll_loaded (t_spec_regs t)"
    by (simp_all add: s_def decrement_deadline_timers_def Let_def)
  define v where "v = get_reg (t_regs t) rs (s_curr_wp (t_spec_regs t))"
  define i1 where "i1 = i\<lparr>i_op1_value := 0, i_op2_value := v, i_op3_value := get_reg (t_regs t) rd (s_curr_wp s)\<rparr>"
  define u1 where "u1 = u\<lparr>t_inst := i1, t_spec_regs := s\<lparr>s_curr_wp := s_curr_wp s mod 32\<rparr>\<rparr>"
  have g0: "get_reg (t_regs t) 0 w = 0" for w using g by (simp add: get_reg_def)
  have reg: "regacc_behavior u = Inr u1"
    using t by (simp add: regacc_behavior_def regacc_is_not_valid_def Let_def ready_def u_def u1_def i1_def deadline_instruction_def f
      check_deadline_def miss double_word_instruction_def immediate_instruction_def g0 v_def wp upd_inst_def upd_spec_def)
  define u2 where "u2 = u1\<lparr>t_inst := i1\<lparr>i_alu_result := v\<rparr>\<rparr>"
  have ex: "execute_behavior u1 = u2"
    using t by (simp add: execute_behavior_def ready_def perform_alu_operations_def alu_switch_def Let_def f u1_def u2_def u_def i1_def upd_inst_def)
  have memo: "mem_behavior cycles u2 mc = Inr (u2, mc)" by (simp add: mem_behavior_def u2_def i1_def f)
  define x0 where "x0 = u2\<lparr>t_cnt_cycles := t_cnt_cycles u2 + 6\<rparr>"
  have xi: "t_inst x0 = i1\<lparr>i_alu_result := v\<rparr>" and x: "t_enabled x0" "\<not> t_fetch_stalled x0" "\<not> t_memory_stalled x0" "\<not> t_db_word_stalled x0"
    "\<not> t_deadline_stalled x0" "\<not> is_trapped x0" "t_pc x0 = t_pc t" "t_branch_slot x0 = t_branch_slot t" "t_id x0 = t_id t"
    using t by (simp_all add: x0_def u2_def u1_def u_def ready_def is_trapped_def)
  have fi: "i_select_special_register (t_inst x0) = 0" "\<not> i_write_special_registers (t_inst x0)" "i_write_registers (t_inst x0)" 
    "\<not> i_write_icc (t_inst x0)" "\<not> i_branch (t_inst x0)" "\<not> i_call (t_inst x0)" "\<not> i_jump (t_inst x0)" "\<not> i_is_rett (t_inst x0)"
    "\<not> i_sync_instruction (t_inst x0)" "\<not> i_db_word_instruction (t_inst x0)" "i_alu_result (t_inst x0) = v" "i_rd (t_inst x0) = rd"
    by (simp_all add: xi i1_def f)
  define y where "y = x0\<lparr>t_pc := (if t_branch_slot t \<noteq> 0 then t_branch_slot t else t_pc t + 4), t_branch_slot := 0\<rparr>"
  define z where "z = y\<lparr>t_regs := set_reg (t_regs t) rd v (s_curr_wp s mod 32), t_cnt_instr := t_cnt_instr y + 1\<rparr>"
  have h: "handle_exceptions x0 = Inr (x0, True)" using x by (simp add: handle_exceptions_def)
  have p: "inc_pc x0 = Inr y"
    by (simp add: inc_pc_def advance_pc_def take_branch_def branch_check_def Let_def fi x y_def)
  have yi: "t_inst y = t_inst x0" "t_regs y = t_regs t" "t_spec_regs y = s\<lparr>s_curr_wp := s_curr_wp s mod 32\<rparr>"
    by (simp_all add: y_def x0_def u2_def u1_def u_def)
  have wr: "write_regs y = Inr (y\<lparr>t_regs := set_reg (t_regs t) rd v (s_curr_wp s mod 32)\<rparr>)"
    by (simp add: write_regs_def Let_def yi fi upd_regs_def)
  have commit: "commit_instruction (x0, d, tab) = Inr (z, d, tab)"
    by (simp add: commit_instruction_def fi h p wr write_special_regs_def Let_def x yi z_def)
  have "t_enabled u2" using x by (simp add: x0_def)
  then have ex: "except_behavior (u2, d, tab) = Inr (z, d, tab)"
    using x commit fi by (simp add: except_behavior_def except_is_not_valid_def Let_def x0_def [symmetric] set_dword_state_def dead_stalled_def)
  have regs: "t_regs z = (t_regs t)\<lparr>global_reg := (global_reg (t_regs t))[unat rd := v]\<rparr>"
    using r(2) by (auto simp: z_def set_reg_def)
  have spec: "t_spec_regs z = s\<lparr>s_curr_wp := s_curr_wp (t_spec_regs t) mod 32\<rparr>" by (simp add: z_def yi wp)
  have "ready z" using t(1) wf x
    by (simp add: ready_def wf_thread_def wf_regs_def wf_special_def spec regs wp(2)) (simp add: z_def y_def is_trapped_def)
  show ?thesis
    by (rule that [of z]) (use \<open>ready z\<close> status in \<open>simp_all add: word_pass_def dec reg \<open>execute_behavior u1 = u2\<close> memo ex regs v_def spec flip: s_def\<close>,
      simp_all add: z_def y_def x)
qed


text \<open>What a move leaves for the instruction behind it.\<close>

lemma quiet_curr_wp [simp]: "quiet n k (s\<lparr>s_curr_wp := wp\<rparr>) = quiet n k s"
  by (simp add: quiet_def)

lemma quiet_decrement:
  assumes "wf_special s" "quiet n (Suc k) s" "s_dt_status (decrement_deadline_timers s) = s_dt_status s"
  shows "quiet n k (decrement_deadline_timers s)"
  using assms(2) quiet_tick(2) [OF assms(1,2)] unfolding quiet_def list_all_length assms(3) by fastforce


subsection \<open>What the macros do\<close>



text \<open>The closing macro of a timed block waits for the timer and leaves it at zero, disarmed.\<close>

theorem deadend_waits:
  assumes t: "ready t" and n: "n < 8"
    and k: "k = dead_passes False n (t_spec_regs t)" "quiet n k (t_spec_regs t)" "- (2 ^ 31) < sint (s_dt (t_spec_regs t) ! n)"
  shows "\<exists>t'. (\<forall>fuel. \<exists>s'. run_lines fuel cycles (DEADEND n l) (t, d, tab, mc) = Inr (if k \<le> fuel then ((t', d, tab, mc), True) else (s', False))) \<and>
    s_dt (t_spec_regs t') ! n = 0 \<and> s_dt_status (t_spec_regs t') ! n = UNSET"
proof -
  obtain w where w: "DEADEND n l = [Label (l @ ''_end_end''), Word w]" "dead_word n False False (Some 0) w"
    using dead_words(5) [OF n] by (simp add: DEADEND_def)
  have "awaiting (Some 0) w 0 t" using awaiting_ready [OF t, of "Some 0"] by (simp add: operand_def)
  then obtain t' where t': "\<And>fuel. if k \<le> fuel
       then run_words fuel cycles [w] (t, d, tab, mc) = run_words (fuel - k) (cycles + 6 * of_nat k) [] (t', d, tab, mc)
       else \<exists>s'. run_words fuel cycles [w] (t, d, tab, mc) = Inr (s', False)"
    "s_dt (t_spec_regs t') = (map (\<lambda>x. x - of_nat k) (s_dt (t_spec_regs t)))[n := 0]"
    "s_dt_status (t_spec_regs t') = (s_dt_status (t_spec_regs t))[n := UNSET]"
    using run_words_dead [OF w(2), of 0 t k cycles "[]" d tab mc, unfolded if_False] k by blast
  have "\<exists>s'. run_lines fuel cycles (DEADEND n l) (t, d, tab, mc) = Inr (if k \<le> fuel then ((t', d, tab, mc), True) else (s', False))" for fuel
    using t'(1) [of fuel] by (auto simp: run_lines_def w(1) split: if_splits)
  moreover have "n < length (s_dt (t_spec_regs t))" "n < length (s_dt_status (t_spec_regs t))"
    using t n by (auto simp: ready_def wf_thread_def wf_special_def)
  ultimately show ?thesis using t'(2,3) by (intro exI [of _ t']) simp
qed

text \<open>
  The macros without a number act on timer 1, \<open>DEADL0\<close> too, whose name promises timer 0; the
  opening macro of a timed block is \<open>DEAD\<close>.
\<close>

theorem unnumbered_macros:
  "DEAD_plain r = DEAD 1 r" "DEADLOAD_plain r = DEADLOAD 1 r" "DEADBRANCH_plain r = DEADBRANCH 1 r"
  "DEADLOADBRANCH_plain r = DEADLOADBRANCH 1 r"
  "run_lines fuel cycles (DEADL0 r l) s = run_lines fuel cycles (DEAD 1 r) s"
  "run_lines fuel cycles (DEADSTART n r l) s = run_lines fuel cycles (DEAD n r) s"
  by (simp_all add: DEAD_plain_def DEADLOAD_plain_def DEADBRANCH_plain_def DEADLOADBRANCH_plain_def DEADL0_def DEADSTART_def
      DEAD_def DEADLOAD_def DEADBRANCH_def DEADLOADBRANCH_def run_lines_def)

subsection \<open>The DMA macro\<close>

lemma dma_word:
  defines "i \<equiv> decode (initialize_with 0xC5A00001)"
  shows "i_select_special_register i = SREG_MEM2SP" "i_aluop i = ALU_ADD" "i_rd i = 2" "i_rs1 i = 0" "i_rs2 i = 1" 
    "i_use_imm i = False" "i_write_special_registers i = True" "i_write_registers i = False" "i_write_icc i = False"
    "i_carry i = False" "i_read_memory i = False" "i_write_memory i = False" "i_branch i = False" "i_call i = False"
    "i_jump i = False" "i_is_rett i = False" "i_sync_instruction i = False" "i_db_word_instruction i = False"
    "i_increment_window_pointer i = 0"
  by (simp_all add: i_def decode_def decode_fields_def decode_switch_def decode_memory_def initialize_with_def Let_def truthy_def)

lemma dma_pass:
  assumes t: "ready t" "quiet 8 1 (t_spec_regs t)" and g: "global_reg (t_regs t) ! 0 = 0"
    and m: "global_reg (t_regs t) ! 1 = mem" "global_reg (t_regs t) ! 2 = spm"
  shows "\<exists>t'. word_pass cycles 0xC5A00001 (t, d, tab, mc) = 
     Inr (t', make_transfer (t_id t) (set_spm_target (t_id t) spm (set_mem_source (t_id t) mem d)), tab, mc) \<and>
     t_pc t' = (if t_branch_slot t \<noteq> 0 then t_branch_slot t else t_pc t + 4) \<and> \<not> t_deadline_stalled t'"
proof -
  define i where "i = decode (initialize_with 0xC5A00001)"
  define s where "s = decrement_deadline_timers (t_spec_regs t)"
  note f = dma_word [folded i_def]
  define u where "u = t\<lparr>t_spec_regs := s, t_inst := i\<rparr>"
  have dec: "decode_behavior (fetched 0xC5A00001 t) = u"
    using t by (simp add: decode_behavior_def decode_is_not_valid_def fetched_def Let_def ready_def upd_inst_def upd_spec_def
      set_inst_def u_def s_def i_def)
  have wf: "wf_special (t_spec_regs t)" "wf_special s" using t by (auto simp: ready_def wf_thread_def wf_decrement s_def)
  have "s_dt_status s ! j \<noteq> MISSED" if "j < 8" for j
    unfolding s_def using status_tick_other [OF wf(1) that] quiet_armed [OF t(2) that] that by auto
  then have miss: "missed_deadline s = None" using no_missed [OF wf(2)] by blast
  define i1 where "i1 = i\<lparr>i_op1_value := 0, i_op2_value := mem, i_op3_value := spm\<rparr>"
  define u1 where "u1 = u\<lparr>t_inst := i1, t_spec_regs := s\<lparr>s_curr_wp := s_curr_wp s mod 32\<rparr>\<rparr>"
  have reg: "regacc_behavior u = Inr u1"
    using t g m by (simp add: regacc_behavior_def regacc_is_not_valid_def Let_def ready_def u_def u1_def i1_def deadline_instruction_def f
      check_deadline_def miss double_word_instruction_def immediate_instruction_def get_reg_def upd_inst_def upd_spec_def)
  define u2 where "u2 = u1\<lparr>t_inst := i1\<lparr>i_alu_result := mem\<rparr>\<rparr>"
  have ex: "execute_behavior u1 = u2"
    using t by (simp add: execute_behavior_def ready_def perform_alu_operations_def alu_switch_def Let_def f u1_def u2_def u_def i1_def upd_inst_def)
  have memo: "mem_behavior cycles u2 mc = Inr (u2, mc)" by (simp add: mem_behavior_def u2_def i1_def f)
  define v where "v = u2\<lparr>t_cnt_cycles := t_cnt_cycles u2 + 6\<rparr>"
  have vi: "t_inst v = i1\<lparr>i_alu_result := mem\<rparr>" and v: "t_enabled v" "\<not> t_fetch_stalled v" "\<not> t_memory_stalled v" "\<not> t_db_word_stalled v"
    "\<not> t_deadline_stalled v" "\<not> is_trapped v" "t_pc v = t_pc t" "t_branch_slot v = t_branch_slot t" "t_id v = t_id t"
    using t by (simp_all add: v_def u2_def u1_def u_def ready_def is_trapped_def)
  have fi: "i_select_special_register (t_inst v) = SREG_MEM2SP" "i_write_special_registers (t_inst v)" "\<not> i_write_registers (t_inst v)" 
    "\<not> i_write_icc (t_inst v)" "\<not> i_branch (t_inst v)" "\<not> i_call (t_inst v)" "\<not> i_jump (t_inst v)" "\<not> i_is_rett (t_inst v)"
    "\<not> i_sync_instruction (t_inst v)" "\<not> i_db_word_instruction (t_inst v)" "i_alu_result (t_inst v) = mem" "i_op3_value (t_inst v) = spm"
    by (simp_all add: vi i1_def f)
  define x where "x = v\<lparr>t_pc := (if t_branch_slot t \<noteq> 0 then t_branch_slot t else t_pc t + 4), t_branch_slot := 0\<rparr>"
  have h: "handle_exceptions v = Inr (v, True)" using v by (simp add: handle_exceptions_def)
  have p: "inc_pc v = Inr x"
    by (simp add: inc_pc_def advance_pc_def take_branch_def branch_check_def Let_def fi v x_def)
  have xi: "t_inst x = t_inst v" "t_id x = t_id t" by (simp_all add: x_def v)
  have wr: "write_regs x = Inr x" by (simp add: write_regs_def Let_def xi fi)
  have ws: "write_special_regs (x, d) = Inr (x, make_transfer (t_id t) (set_spm_target (t_id t) spm (set_mem_source (t_id t) mem d)))"
    by (simp add: write_special_regs_def Let_def xi fi)
  have commit: "commit_instruction (v, d, tab) =
     Inr (x\<lparr>t_cnt_instr := t_cnt_instr x + 1\<rparr>, make_transfer (t_id t) (set_spm_target (t_id t) spm (set_mem_source (t_id t) mem d)), tab)"
    by (simp add: commit_instruction_def fi h p wr ws v xi)
  have "t_enabled u2" using v by (simp add: v_def)
  then have "except_behavior (u2, d, tab) =
     Inr (x\<lparr>t_cnt_instr := t_cnt_instr x + 1\<rparr>, make_transfer (t_id t) (set_spm_target (t_id t) spm (set_mem_source (t_id t) mem d)), tab)"
    using v commit fi by (simp add: except_behavior_def except_is_not_valid_def Let_def v_def [symmetric] set_dword_state_def dead_stalled_def)
  then show ?thesis using v by (simp add: word_pass_def dec reg ex memo) (simp add: x_def)
qed


text \<open>
  \<open>DMAMV\<close> hands the DMA unit the two addresses and starts the thread's transfer, in three passes,
  as long as \<open>%g0\<close> reads as zero: the processor adds it to the source address.  The compiler
  does not keep the second address in \<open>%g1\<close>, which the macro overwrites.
\<close>

theorem dmamv_starts_transfer:
  assumes t: "ready t" "quiet 8 3 (t_spec_regs t)" "global_reg (t_regs t) ! 0 = 0" "t_branch_slot t = 0" and fuel: "3 \<le> fuel"
    and r: "rm < 32" "rs < 32" "rs \<noteq> 1" "s_curr_wp (t_spec_regs t) < 32"
    and a: "mem_addr = get_reg (t_regs t) rm (s_curr_wp (t_spec_regs t))" "spm_addr = get_reg (t_regs t) rs (s_curr_wp (t_spec_regs t))"
  shows "\<exists>t'. run_lines fuel cycles (DMAMV rm rs) (t, d, tab, mc) = Inr ((t',
      make_transfer (t_id t) (set_spm_target (t_id t) spm_addr (set_mem_source (t_id t) mem_addr d)), tab, mc), True) \<and>
     t_pc t' = t_pc t + 12"
proof -
  have wp: "s_curr_wp (t_spec_regs t) mod 32 = s_curr_wp (t_spec_regs t)" using r(4) by (rule mod_word_less)
  have len: "length (global_reg (t_regs t)) = 8" and wf: "wf_special (t_spec_regs t)" using t(1) by (auto simp: ready_def wf_thread_def wf_regs_def)
  have q: "quiet 8 1 (t_spec_regs t)" "quiet 8 (Suc 2) (t_spec_regs t)"
    using t(2) by (auto simp: quiet_def list_all_length numeral_3_eq_3)
  let ?s = "decrement_deadline_timers (t_spec_regs t)"
  obtain t1 where t1: "word_pass cycles (mov_word rm 1) (t, d, tab, mc) = Inr (t1, d, tab, mc)" "ready t1"
    "t_regs t1 = (t_regs t)\<lparr>global_reg := (global_reg (t_regs t))[1 := mem_addr]\<rparr>"
    "t_spec_regs t1 = ?s\<lparr>s_curr_wp := s_curr_wp (t_spec_regs t)\<rparr>" "s_dt_status (t_spec_regs t1) = s_dt_status (t_spec_regs t)"
    "t_pc t1 = t_pc t + 4" "t_branch_slot t1 = 0" "t_id t1 = t_id t"
    by (rule mov_pass [OF t(1) q(1) t(3) r(1), of 1 cycles d tab mc]) (use t(4) a(1) wp in auto)
  have "quiet 8 (Suc 1) ?s" by (rule quiet_decrement [OF wf]) (use q(2) t1(4,5) in \<open>simp_all add: numeral_2_eq_2\<close>)
  then have q1: "quiet 8 1 (t_spec_regs t1)" "quiet 8 (Suc 1) (t_spec_regs t1)"
    by (auto simp: t1(4) quiet_def list_all_length)
  have rs: "get_reg (t_regs t1) rs (s_curr_wp (t_spec_regs t1)) = spm_addr"
  proof -
    have "unat rs \<noteq> 1" using r(3) by (metis unat_1 word_unat_eq_iff)
    then show ?thesis by (simp add: a(2) get_reg_def t1(3,4))
  qed
  have wf1: "wf_special (t_spec_regs t1)" using t1(2) by (simp add: ready_def wf_thread_def)
  have g1: "global_reg (t_regs t1) ! 0 = 0" using t(3) by (simp add: t1(3))
  obtain t2 where t2: "word_pass (cycles + 6) (mov_word rs 2) (t1, d, tab, mc) = Inr (t2, d, tab, mc)" "ready t2"
    "t_regs t2 = (t_regs t1)\<lparr>global_reg := (global_reg (t_regs t1))[2 := spm_addr]\<rparr>"
    "t_spec_regs t2 = (decrement_deadline_timers (t_spec_regs t1))\<lparr>s_curr_wp := s_curr_wp (t_spec_regs t1) mod 32\<rparr>"
    "s_dt_status (t_spec_regs t2) = s_dt_status (t_spec_regs t1)" "t_pc t2 = t_pc t1 + 4" "t_branch_slot t2 = 0" "t_id t2 = t_id t"
    by (rule mov_pass [OF t1(2) q1(1) g1 r(2), of 2 "cycles + 6" d tab mc]) (use t1(7,8) rs in auto)
  have "quiet 8 1 (t_spec_regs t2)"
    unfolding t2(4) quiet_curr_wp by (rule quiet_decrement [OF wf1 q1(2)]) (use t2(4,5) in simp)
  then obtain t' where t': "word_pass (12 + cycles) 0xC5A00001 (t2, d, tab, mc) = Inr (t',
      make_transfer (t_id t) (set_spm_target (t_id t) spm_addr (set_mem_source (t_id t) mem_addr d)), tab, mc)"
    "t_pc t' = t_pc t2 + 4" "\<not> t_deadline_stalled t'"
    using dma_pass [OF t2(2), of mem_addr spm_addr "12 + cycles" d tab mc] t(3) len t2(7,8) by (auto simp: t2(3) t1(3))
  obtain f where f: "fuel = Suc (Suc (Suc f))" using fuel by (metis Suc_le_D Suc_le_mono numeral_3_eq_3)
  have "\<not> t_deadline_stalled t1" "\<not> t_deadline_stalled t2" using t1(2) t2(2) by (simp_all add: ready_def)
  then show ?thesis
    using t1(1,6) t2(1,6) t' by (intro exI [of _ t']) (simp add: run_lines_def DMAMV_def f)
qed

subsection \<open>A run of the macros\<close>







end
