(* ===== verification/Sort_Programs.thy ===== *)
theory Sort_Programs
  imports Prelude "HOL-Library.Multiset"
begin

section \<open>The sorting programs (soft/insertsort.c, soft/bubsort.c, soft/mergesort.c)\<close>

text \<open>
  Three programs for the simulator that sort an array of integers in place.  The array is a
  list, an access outside it an error value; indices are natural numbers, since no program
  counts below zero.  The sizes, macros or constants in the source, are parameters.  The
  recursion of the merge sort does not end for every pivot, so it is a partial function.
  The theorems show that each program leaves the sorted array, so that all three agree.
\<close>

lemma upt_first: "[a..<a + Suc n] = a # [Suc a..<Suc a + n]"
  by (simp add: upt_conv_Cons del: upt_Suc)

subsection \<open>Insertion sort\<close>

fun shift_greater :: "int \<Rightarrow> nat \<Rightarrow> int list \<Rightarrow> sim_error + (int list \<times> nat)" where
  "shift_greater index 0 numbers = Inr (numbers, 0)"
| "shift_greater index (Suc j) numbers =
     andThen (array_get numbers j) (\<lambda>v.
       if v > index then andThen (array_set numbers (Suc j) v) (\<lambda>numbers'. shift_greater index j numbers')
       else Inr (numbers, Suc j))"

fun insertion_loop :: "nat list \<Rightarrow> int list \<Rightarrow> sim_error + int list" where
  "insertion_loop [] numbers = Inr numbers"
| "insertion_loop (i # is) numbers =
     andThen (array_get numbers i) (\<lambda>index.
     andThen (shift_greater index i numbers) (\<lambda>(numbers', j).
     andThen (array_set numbers' j index) (\<lambda>numbers''. insertion_loop is numbers'')))"

definition insertionSort :: "int list \<Rightarrow> nat \<Rightarrow> sim_error + int list" where
  "insertionSort numbers array_size = insertion_loop [1..<array_size] numbers"

lemma shift_greater_result:
  assumes "\<forall>v \<in> set hi. v > index" "lo = [] \<or> last lo \<le> index"
  shows "shift_greater index (length lo + length hi) (lo @ hi @ x # ys) =
    Inr (lo @ hd (hi @ [x]) # hi @ ys, length lo)"
  using assms(1)
proof (induction hi arbitrary: x ys rule: rev_induct)
  case Nil
  show ?case
  proof (cases lo rule: rev_cases)
    case (snoc lo' v)
    with assms(2) show ?thesis by (simp add: nth_append)
  qed simp
next
  case (snoc v hi)
  then have "shift_greater index (length lo + length hi) (lo @ hi @ v # v # ys) =
      Inr (lo @ hd (hi @ [v]) # hi @ v # ys, length lo)" by simp
  moreover have "(lo @ hi @ v # x # ys) ! (length lo + length hi) = v"
    "(lo @ hi @ v # x # ys)[Suc (length lo + length hi) := v] = lo @ hi @ v # v # ys"
    by (simp_all add: nth_append list_update_append)
  ultimately show ?case using snoc.prems by (simp add: hd_append)
qed

lemma insertion_step:
  assumes "sorted xs"
  shows "\<exists>zs. insertion_loop (length xs # is) (xs @ x # ys) = insertion_loop is (zs @ ys) \<and>
    sorted zs \<and> mset zs = mset (x # xs) \<and> length zs = Suc (length xs)"
proof -
  define lo hi where "lo = takeWhile (\<lambda>v. v \<le> x) xs" and "hi = dropWhile (\<lambda>v. v \<le> x) xs"
  have xs: "xs = lo @ hi" by (simp add: lo_def hi_def)
  have lo: "\<forall>v \<in> set lo. v \<le> x" by (auto simp: lo_def dest: set_takeWhileD)
  have hi: "\<forall>v \<in> set hi. v > x"
  proof (cases hi)
    case (Cons h t)
    then have "\<not> h \<le> x" using hd_dropWhile [of "\<lambda>v. v \<le> x" xs] by (simp add: hi_def)
    moreover have "\<forall>v \<in> set t. h \<le> v" using assms Cons by (simp add: xs sorted_append)
    ultimately show ?thesis using Cons by auto
  qed simp
  have "lo = [] \<or> last lo \<le> x" using lo last_in_set by blast
  from shift_greater_result [OF hi this, of x ys]
  have "insertion_loop (length xs # is) (xs @ x # ys) = insertion_loop is ((lo @ x # hi) @ ys)"
    by (simp add: xs list_update_append nth_append)
  moreover have "sorted (lo @ x # hi)" "mset (lo @ x # hi) = mset (x # xs)"
    using assms lo hi by (auto simp: xs sorted_append less_imp_le)
  ultimately show ?thesis by (metis length_Cons size_mset)
qed

lemma insertion_loop_result:
  assumes "sorted xs"
  shows "insertion_loop [length xs..<length xs + length ys] (xs @ ys) = Inr (sort (xs @ ys))"
  using assms
proof (induction ys arbitrary: xs)
  case Nil
  then show ?case by (simp add: sorted_sort_id)
next
  case (Cons y ys)
  let ?is = "[Suc (length xs)..<Suc (length xs) + length ys]"
  obtain zs where z: "insertion_loop (length xs # ?is) (xs @ y # ys) = insertion_loop ?is (zs @ ys)"
    "sorted zs" "mset zs = mset (y # xs)" "length zs = Suc (length xs)"
    using insertion_step [OF Cons.prems] by blast
  have "insertion_loop [length xs..<length xs + length (y # ys)] (xs @ y # ys) = insertion_loop ?is (zs @ ys)"
    unfolding list.size add_0_right add_Suc_right upt_first [unfolded add_Suc_right] by (simp only: z(1) add_0_right add_Suc_right)
  also have "\<dots> = Inr (sort (zs @ ys))" using Cons.IH [OF z(2)] z(4) by simp
  also have "sort (zs @ ys) = sort (xs @ y # ys)"
    using z(3) by (intro properties_for_sort) simp_all
  finally show ?case .
qed

lemma insertionSort_result: "insertionSort a (length a) = Inr (sort a)"
proof (cases a)
  case (Cons x xs)
  then show ?thesis using insertion_loop_result [of "[x]" xs] by (simp add: insertionSort_def)
qed (simp add: insertionSort_def)

subsection \<open>Bubble sort\<close>

fun bubble_pass :: "nat list \<Rightarrow> int list \<Rightarrow> sim_error + int list" where
  "bubble_pass [] iarray = Inr iarray"
| "bubble_pass (y # ys) iarray =
     andThen (array_get iarray y) (\<lambda>a.
     andThen (array_get iarray (y + 1)) (\<lambda>b.
     if a > b
     then andThen (array_set iarray (y + 1) a) (\<lambda>iarray'.
          andThen (array_set iarray' y b) (\<lambda>iarray''. bubble_pass ys iarray''))
     else bubble_pass ys iarray))"

fun bubble_sort :: "nat \<Rightarrow> nat \<Rightarrow> int list \<Rightarrow> sim_error + int list" where
  "bubble_sort array_size 0 iarray = Inr iarray"
| "bubble_sort array_size (Suc x) iarray =
     andThen (bubble_pass [0..<array_size - 1] iarray) (\<lambda>iarray'. bubble_sort array_size x iarray')"

text \<open>A pass on the list of the elements.\<close>

fun bubble :: "int list \<Rightarrow> int list" where
  "bubble (a # b # xs) = (if a > b then b # bubble (a # xs) else a # bubble (b # xs))"
| "bubble [] = []"
| "bubble [a] = [a]"

lemma bubble_pass_result:
  "bubble_pass [length pre..<length pre + length xs] (pre @ x # xs) = Inr (pre @ bubble (x # xs))"
proof (induction xs arbitrary: pre x)
  case (Cons b xs)
  have up: "[length pre..<length pre + length (b # xs)] = length pre # [length (pre @ [c])..<length (pre @ [c]) + length xs]" for c :: int
    using upt_first [of "length pre" "length xs"] by (simp del: upt_Suc)
  show ?case
    using Cons.IH [of "pre @ [b]" x] Cons.IH [of "pre @ [x]" b]
    by (simp only: up [of b]) (simp add: nth_append list_update_append del: upt_Suc)
qed simp

lemma mset_bubble: "mset (bubble xs) = mset xs"
  by (induction xs rule: bubble.induct) auto

lemma length_bubble: "length (bubble xs) = length xs"
  by (metis mset_bubble size_mset)

lemma set_bubble: "set (bubble xs) = set xs"
  by (metis mset_bubble set_mset_mset)

lemma bubble_sorted: "sorted xs \<Longrightarrow> bubble xs = xs"
  by (induction xs rule: bubble.induct) auto

lemma bubble_append: "xs \<noteq> [] \<Longrightarrow> sorted vs \<Longrightarrow> \<forall>u \<in> set xs. \<forall>v \<in> set vs. u \<le> v \<Longrightarrow> bubble (xs @ vs) = bubble xs @ vs"
proof (induction xs rule: bubble.induct)
  case (3 a)
  then have "sorted (a # vs)" by simp
  then show ?case using bubble_sorted [of "a # vs"] by simp
qed auto

lemma bubble_last: "xs \<noteq> [] \<Longrightarrow> \<exists>us m. bubble xs = us @ [m] \<and> (\<forall>u \<in> set us. u \<le> m)"
proof (induction xs rule: bubble.induct)
  case (1 a b xs)
  show ?case
  proof (cases "a > b")
    case True
    then obtain us m where "bubble (a # xs) = us @ [m]" "\<forall>u \<in> set us. u \<le> m" using "1.IH"(1) by auto
    moreover then have "a \<le> m" using set_bubble [of "a # xs"] by auto
    ultimately show ?thesis using True by (intro exI [of _ "b # us"]) auto
  next
    case False
    then obtain us m where "bubble (b # xs) = us @ [m]" "\<forall>u \<in> set us. u \<le> m" using "1.IH"(2) by auto
    moreover then have "b \<le> m" using set_bubble [of "b # xs"] by auto
    ultimately show ?thesis using False by (intro exI [of _ "a # us"]) auto
  qed
qed auto

lemma bubble_sort_loop:
  assumes "length us = k" "sorted vs" "\<forall>u \<in> set us. \<forall>v \<in> set vs. u \<le> v"
  shows "bubble_sort (k + length vs) k (us @ vs) = Inr (sort (us @ vs))"
  using assms
proof (induction k arbitrary: us vs)
  case 0
  then show ?case by (simp add: sorted_sort_id)
next
  case (Suc k)
  then have ne: "us \<noteq> []" by auto
  obtain ws m where w: "bubble us = ws @ [m]" "\<forall>u \<in> set ws. u \<le> m" using bubble_last [OF ne] by blast
  have len: "length ws = k" using length_bubble [of us] Suc.prems(1) w(1) by simp
  have set: "insert m (set ws) = set us" using set_bubble [of us] w(1) by simp
  obtain x xs where us: "us = x # xs" using ne by (cases us) auto
  have "bubble_pass [0..<Suc k + length vs - 1] (us @ vs) = Inr (bubble (us @ vs))"
    using bubble_pass_result [of "[]" "xs @ vs" x] Suc.prems(1) by (simp add: us)
  also have "bubble (us @ vs) = ws @ m # vs" using bubble_append [OF ne Suc.prems(2,3)] w(1) by simp
  finally have "bubble_sort (Suc k + length vs) (Suc k) (us @ vs) = bubble_sort (k + length (m # vs)) k (ws @ m # vs)"
    by simp
  also have "\<dots> = Inr (sort (ws @ m # vs))"
    using Suc.prems(2,3) w(2) set len by (intro Suc.IH) auto
  also have "sort (ws @ m # vs) = sort (us @ vs)"
    using mset_bubble [of us] w(1) by (intro properties_for_sort) simp_all
  finally show ?case .
qed

lemma bubble_sort_result: "bubble_sort (length a) (length a) a = Inr (sort a)"
  using bubble_sort_loop [of a "length a" "[]"] by simp

subsection \<open>Merge sort\<close>

text \<open>
  \<open>ShiftTo\<close> moves one element down to an earlier place; \<open>CombineAr\<close> merges the sorted parts
  from \<open>left\<close> to \<open>pivot\<close> and from \<open>pivot + 1\<close> to \<open>right\<close>.  The loop of \<open>CombineAr\<close> reads the
  element at \<open>i\<close> in each round and counts \<open>i\<close> up, so it ends.
\<close>

fun shift_loop :: "nat \<Rightarrow> nat \<Rightarrow> int list \<Rightarrow> sim_error + int list" where
  "shift_loop iDest 0 ar = Inr ar"
| "shift_loop iDest (Suc i) ar =
     (if Suc i > iDest
      then andThen (array_get ar i) (\<lambda>v. andThen (array_set ar (Suc i) v) (\<lambda>ar'. shift_loop iDest i ar'))
      else Inr ar)"

definition ShiftTo :: "int list \<Rightarrow> nat \<Rightarrow> nat \<Rightarrow> sim_error + int list" where
  "ShiftTo ar iDest iSrc =
     andThen (array_get ar iSrc) (\<lambda>StoreSrc.
     andThen (shift_loop iDest iSrc ar) (\<lambda>ar'. array_set ar' iDest StoreSrc))"

lemma shift_loop_length: "shift_loop d i ar = Inr ar' \<Longrightarrow> length ar' = length ar"
  by (induction d i ar rule: shift_loop.induct) (auto split: if_splits simp: andThen_Inr_iff array_set_Inr_iff)

lemma ShiftTo_length: "ShiftTo ar d s = Inr ar' \<Longrightarrow> length ar' = length ar"
  by (auto simp: ShiftTo_def andThen_Inr_iff array_set_Inr_iff dest: shift_loop_length)

function combine_loop :: "int list \<Rightarrow> nat \<Rightarrow> nat \<Rightarrow> nat \<Rightarrow> sim_error + int list" where
  "combine_loop ar right i j =
     (if j \<noteq> right + 1 \<and> i \<noteq> j
      then case array_get ar j of Inl e \<Rightarrow> Inl e
           | Inr b \<Rightarrow>
               (case array_get ar i of Inl e \<Rightarrow> Inl e
                | Inr a \<Rightarrow>
                    if b \<le> a
                    then case ShiftTo ar i j of Inl e \<Rightarrow> Inl e
                         | Inr ar' \<Rightarrow> combine_loop ar' right (i + 1) (j + 1)
                    else combine_loop ar right (i + 1) j)
      else Inr ar)"
  by pat_completeness auto
termination
  by (relation "measure (\<lambda>(ar, right, i, j). length ar - i)") (auto simp: array_get_Inr_iff dest: ShiftTo_length)

definition CombineAr :: "int list \<Rightarrow> nat \<Rightarrow> nat \<Rightarrow> nat \<Rightarrow> sim_error + int list" where
  "CombineAr ar left right pivot = combine_loop ar right left (pivot + 1)"

partial_function (option) MergeS :: "int list \<Rightarrow> nat \<Rightarrow> nat \<Rightarrow> nat \<Rightarrow> (sim_error + int list) option" where
  "MergeS ar left right pivot =
     (if left = right then Some (Inr ar)
      else Option.bind (MergeS ar left pivot ((left + pivot) div 2)) (\<lambda>r1.
        case r1 of Inl e \<Rightarrow> Some (Inl e)
        | Inr ar1 \<Rightarrow> Option.bind (MergeS ar1 (pivot + 1) right ((pivot + right + 1) div 2)) (\<lambda>r2.
            case r2 of Inl e \<Rightarrow> Some (Inl e) | Inr ar2 \<Rightarrow> Some (CombineAr ar2 left right pivot))))"

declare combine_loop.simps [simp del]

lemma shift_loop_result:
  "shift_loop (length p) (length p + length q) (p @ q @ x # r) = Inr (p @ hd (q @ [x]) # q @ r)"
proof (induction q arbitrary: x r rule: rev_induct)
  case Nil
  show ?case by (cases p) simp_all
next
  case (snoc v q)
  moreover have "(p @ q @ v # x # r) ! (length p + length q) = v"
    "(p @ q @ v # x # r)[Suc (length p + length q) := v] = p @ q @ v # v # r"
    by (simp_all add: nth_append list_update_append)
  ultimately show ?case by (simp add: hd_append)
qed

lemma ShiftTo_result: "ShiftTo (p @ q @ x # r) (length p) (length p + length q) = Inr (p @ x # q @ r)"
  by (simp add: ShiftTo_def shift_loop_result nth_append)

text \<open>The merge of two lists that \<open>CombineAr\<close> performs in place: on a tie the right one first.\<close>

fun merge_right :: "int list \<Rightarrow> int list \<Rightarrow> int list" where
  "merge_right [] bs = bs"
| "merge_right as [] = as"
| "merge_right (a # as) (b # bs) = (if b \<le> a then b # merge_right (a # as) bs else a # merge_right as (b # bs))"

lemma mset_merge_right: "mset (merge_right as bs) = mset as + mset bs"
  by (induction as bs rule: merge_right.induct) auto

lemma set_merge_right: "set (merge_right as bs) = set as \<union> set bs"
  by (metis mset_merge_right set_mset_mset set_mset_union)

lemma sorted_merge_right: "sorted as \<Longrightarrow> sorted bs \<Longrightarrow> sorted (merge_right as bs)"
  by (induction as bs rule: merge_right.induct) (auto simp: set_merge_right)

lemma combine_loop_result:
  "combine_loop (p @ as @ bs @ r) (length p + length as + length bs - 1) (length p) (length p + length as) =
     Inr (p @ merge_right as bs @ r)" if "as @ bs \<noteq> []"
  using that
proof (induction as bs arbitrary: p rule: merge_right.induct)
  case (1 bs)
  show ?case by (subst combine_loop.simps) simp
next
  case (2 a as)
  show ?case by (subst combine_loop.simps) simp
next
  case (3 a as b bs)
  let ?ar = "p @ (a # as) @ (b # bs) @ r"
  have get: "?ar ! (length p + length (a # as)) = b" "?ar ! length p = a" by (simp_all add: nth_append)
  show ?case
  proof (cases "b \<le> a")
    case True
    have "ShiftTo ?ar (length p) (length p + length (a # as)) = Inr ((p @ [b]) @ (a # as) @ bs @ r)"
      using ShiftTo_result [of p "a # as" b "bs @ r"] by simp
    then show ?thesis
      using "3.IH"(1) [OF True, of "p @ [b]"] True get by (subst combine_loop.simps) simp
  next
    case False
    then show ?thesis
      using "3.IH"(2) [OF False, of "p @ [a]"] get by (subst combine_loop.simps) simp
  qed
qed

lemma half_between: "(l :: nat) \<le> p \<Longrightarrow> (l + p) div 2 = l \<and> l = p \<or> l \<le> (l + p) div 2 \<and> (l + p) div 2 < p"
  by (cases "l = p") auto

lemma MergeS_result:
  assumes "left \<le> right" "pivot = left \<and> left = right \<or> left \<le> pivot \<and> pivot < right"
    and "length p = left" "left + length xs = Suc right"
  shows "MergeS (p @ xs @ r) left right pivot = Some (Inr (p @ sort xs @ r))"
  using assms
proof (induction "right - left" arbitrary: left right pivot p xs r rule: less_induct)
  case less
  show ?case
  proof (cases "left = right")
    case True
    then obtain x where "xs = [x]" using less.prems by (cases xs) auto
    then show ?thesis using True by (subst MergeS.simps) simp
  next
    case False
    then have piv: "left \<le> pivot" "pivot < right" using less.prems by auto
    define as bs where "as = take (Suc pivot - left) xs" and "bs = drop (Suc pivot - left) xs"
    have xs: "xs = as @ bs" and as: "left + length as = Suc pivot" and bs: "Suc pivot + length bs = Suc right"
      using piv less.prems by (auto simp: as_def bs_def)
    have 1: "MergeS (p @ as @ bs @ r) left pivot ((left + pivot) div 2) = Some (Inr (p @ sort as @ bs @ r))"
      using less.hyps [of pivot left "(left + pivot) div 2" p as "bs @ r"] piv as less.prems(3) half_between [OF piv(1)]
      by auto
    have 2: "MergeS ((p @ sort as) @ bs @ r) (pivot + 1) right ((pivot + right + 1) div 2) =
        Some (Inr ((p @ sort as) @ sort bs @ r))"
      using piv as bs less.prems(3) half_between [of "pivot + 1" right] by (intro less.hyps) (auto simp: ac_simps)
    have "length (sort as @ sort bs) \<noteq> 0" using as piv by auto
    then have "sort as @ sort bs \<noteq> []" by (metis list.size(3))
    then have "CombineAr (p @ sort as @ sort bs @ r) left right pivot = Inr (p @ merge_right (sort as) (sort bs) @ r)"
      using combine_loop_result [of "sort as" "sort bs" p r] as bs less.prems(3)
      by (simp add: CombineAr_def)
    moreover have "merge_right (sort as) (sort bs) = sort xs"
      by (rule properties_for_sort [symmetric]) (simp_all add: mset_merge_right sorted_merge_right xs)
    ultimately show ?thesis
      using 1 2 False by (subst MergeS.simps) (simp add: xs)
  qed
qed

text \<open>
  C21: Each of the three sorting programs leaves the sorted array: insertion and bubble sort
  on any array, the merge sort with the arguments of its program on any array of at least
  three elements.
\<close>

theorem sorting_programs_agree:
  assumes "n = length a"
  shows "insertionSort a n = Inr (sort a) \<and> bubble_sort n n a = Inr (sort a) \<and>
    (3 \<le> n \<longrightarrow> MergeS a 0 (n - 1) (n div 2) = Some (Inr (sort a)))"
proof -
  have "MergeS a 0 (n - 1) (n div 2) = Some (Inr (sort a))" if "3 \<le> n"
    using assms that MergeS_result [of 0 "n - 1" "n div 2" "[]" a "[]"] by simp
  then show ?thesis using assms by (simp add: insertionSort_result bubble_sort_result)
qed

text \<open>The array of the programs.\<close>

lemma sorting_programs_agree_witness:
  "insertionSort [5, 3, 600, 302, 1, 62, 14, 6, 2, 0] 10 = Inr [0, 1, 2, 3, 5, 6, 14, 62, 302, 600] \<and>
   MergeS [11, 3, 600, 302, 1, 62, 14, 6, 2, 0] 0 9 5 = Some (Inr [0, 1, 2, 3, 6, 11, 14, 62, 302, 600])"
  using sorting_programs_agree [of 10 "[5, 3, 600, 302, 1, 62, 14, 6, 2, 0]"]
    sorting_programs_agree [of 10 "[11, 3, 600, 302, 1, 62, 14, 6, 2, 0]"] by simp

end
