(* ===== verification/Graphic_Queue.thy ===== *)
theory Graphic_Queue
  imports Prelude
begin

section \<open>The command queues of the graphic driver (soft/graphic/graphic\_cmd\_queue.c, graphic.c)\<close>

text \<open>
  Two circular queues of 20 cells: the clients send into one while the driver receives from the
  other, and toggling exchanges them.  A pointer to a cell is its index in the array of cells.
  Front points to the cell before the oldest command and end to the first free one.  The locale
  states what the driver and its clients rely on: a pair of bounded queues.
\<close>

abbreviation (input) SIZE_COMMAND_QUEUE :: nat where "SIZE_COMMAND_QUEUE \<equiv> 20"
abbreviation (input) N_COMMAND_QUEUE :: nat where "N_COMMAND_QUEUE \<equiv> 2"
abbreviation (input) N_MAX_GRAPHIC_COMMAND_ARG :: nat where "N_MAX_GRAPHIC_COMMAND_ARG \<equiv> 10"

record graphic_command =
  command_type :: u32
  arg :: "u32 list"

record command_cell =
  cell_next :: nat
  cell_command :: graphic_command

record command_queues =
  command_queue :: "command_cell list"
  queue_front :: "nat list"
  queue_end :: "nat list"
  current_send :: u32
  current_recv :: u32
  is_flushing :: bool

text \<open>The members \<open>command_type\<close> and \<open>arg\<close> copied from one command to another.\<close>

definition copy_command :: "graphic_command \<Rightarrow> graphic_command \<Rightarrow> graphic_command" where
  "copy_command from_c to_c = to_c\<lparr>command_type := command_type from_c,
     arg := fold (\<lambda>i a. a[i := arg from_c ! i]) [0..<N_MAX_GRAPHIC_COMMAND_ARG] (arg to_c)\<rparr>"

definition set_next :: "nat \<Rightarrow> nat \<Rightarrow> command_cell list \<Rightarrow> command_cell list" where
  "set_next k n cs = cs[k := (cs ! k)\<lparr>cell_next := n\<rparr>]"

definition init_one :: "nat \<Rightarrow> command_queues \<Rightarrow> command_queues" where
  "init_one i q =
     (let cs1 = fold (\<lambda>j cs. set_next (i * SIZE_COMMAND_QUEUE + j) (i * SIZE_COMMAND_QUEUE + j + 1) cs)
                  [0..<SIZE_COMMAND_QUEUE - 1] (command_queue q);
          cs2 = set_next (i * SIZE_COMMAND_QUEUE + SIZE_COMMAND_QUEUE - 1) (i * SIZE_COMMAND_QUEUE) cs1
      in q\<lparr>command_queue := cs2,
           queue_front := (queue_front q)[i := i * SIZE_COMMAND_QUEUE],
           queue_end := (queue_end q)[i := i * SIZE_COMMAND_QUEUE + 1]\<rparr>)"

definition graphic_init_queue :: "command_queues \<Rightarrow> command_queues" where
  "graphic_init_queue q = (fold init_one [0..<N_COMMAND_QUEUE] q)\<lparr>current_send := 0, current_recv := 1\<rparr>"

definition graphic_send_command :: "graphic_command \<Rightarrow> command_queues \<Rightarrow> command_queues \<times> bool" where
  "graphic_send_command p_command q =
     (let s = unat (current_send q)
      in if queue_end q ! s = queue_front q ! s then (q, False)
         else let temp = queue_end q ! s;
                  cs = command_queue q;
                  cell = (cs ! temp)\<lparr>cell_command := copy_command p_command (cell_command (cs ! temp))\<rparr>
              in (q\<lparr>command_queue := cs[temp := cell], queue_end := (queue_end q)[s := cell_next cell]\<rparr>, True))"

text \<open>\<open>Some\<close>: the return value is true and the command has been copied to the caller's.\<close>

definition graphic_recv_command ::
  "graphic_command \<Rightarrow> command_queues \<Rightarrow> command_queues \<times> graphic_command option" where
  "graphic_recv_command p_command q =
     (let r = unat (current_recv q);
          temp = command_queue q ! (queue_front q ! r)
      in if cell_next temp = queue_end q ! r then (q, None)
         else let front = cell_next temp
              in (q\<lparr>queue_front := (queue_front q)[r := front]\<rparr>,
                  Some (copy_command (cell_command (command_queue q ! front)) p_command)))"

definition graphic_toggle_command_queue :: "command_queues \<Rightarrow> command_queues" where
  "graphic_toggle_command_queue q = q\<lparr>current_send := current_send q XOR 1, current_recv := current_recv q XOR 1\<rparr>"

subsection \<open>The contract\<close>

locale command_channel =
  fixes send :: "'c \<Rightarrow> 's \<Rightarrow> 's \<times> bool"
    and recv :: "'s \<Rightarrow> 's \<times> 'c option"
    and toggle :: "'s \<Rightarrow> 's"
    and outbox :: "'s \<Rightarrow> 'c list"
    and inbox :: "'s \<Rightarrow> 'c list"
    and inv :: "'s \<Rightarrow> bool"
    and cmd_ok :: "'c \<Rightarrow> bool"
    and capacity :: nat
  assumes send_law: "inv s \<Longrightarrow> cmd_ok c \<Longrightarrow> send c s = (s', ok) \<Longrightarrow> inv s' \<and> inbox s' = inbox s \<and>
      ok = (length (outbox s) < capacity) \<and> outbox s' = (if ok then outbox s @ [c] else outbox s)"
    and recv_law: "inv s \<Longrightarrow> recv s = (s', r) \<Longrightarrow> inv s' \<and> outbox s' = outbox s \<and>
      (case inbox s of [] \<Rightarrow> r = None \<and> inbox s' = [] | c # cs \<Rightarrow> r = Some c \<and> inbox s' = cs)"
    and toggle_law: "inv s \<Longrightarrow> inv (toggle s) \<and> outbox (toggle s) = inbox s \<and> inbox (toggle s) = outbox s"
begin

text \<open>Sending commands one after the other, and receiving until nothing is left.\<close>

primrec send_all :: "'c list \<Rightarrow> 's \<Rightarrow> 's \<times> bool list" where
  "send_all [] s = (s, [])"
| "send_all (c # cs) s = (case send c s of (s1, ok) \<Rightarrow> case send_all cs s1 of (s2, oks) \<Rightarrow> (s2, ok # oks))"

primrec recv_n :: "nat \<Rightarrow> 's \<Rightarrow> 's \<times> 'c option list" where
  "recv_n 0 s = (s, [])"
| "recv_n (Suc n) s = (case recv s of (s1, r) \<Rightarrow> case recv_n n s1 of (s2, rs) \<Rightarrow> (s2, r # rs))"

lemma send_all_result:
  assumes "inv s" "list_all cmd_ok cs" "length (outbox s) + length cs \<le> capacity"
  obtains s' where "send_all cs s = (s', replicate (length cs) True)" "inv s'"
    "outbox s' = outbox s @ cs" "inbox s' = inbox s"
  using assms
proof (induction cs arbitrary: s thesis)
  case (Cons c cs)
  obtain s1 ok where 1: "send c s = (s1, ok)" by (metis surj_pair)
  from send_law [OF Cons.prems(2) _ 1] Cons.prems(3,4)
  have s1: "inv s1" "inbox s1 = inbox s" "ok" "outbox s1 = outbox s @ [c]" by auto
  obtain s2 where "send_all cs s1 = (s2, replicate (length cs) True)" "inv s2" "outbox s2 = outbox s1 @ cs" "inbox s2 = inbox s1"
    using Cons.IH [OF _ s1(1)] Cons.prems(3,4) s1(4) by auto
  then show ?case using Cons.prems(1) [of s2] 1 s1 by simp
qed simp

lemma recv_n_result:
  assumes "inv s"
  obtains s' where "recv_n (length (inbox s)) s = (s', map Some (inbox s))" "inv s'" "inbox s' = []" "outbox s' = outbox s"
  using assms
proof (induction "inbox s" arbitrary: s thesis)
  case Nil
  then show ?case by simp
next
  case (Cons c cs)
  obtain s1 r where 1: "recv s = (s1, r)" by (metis surj_pair)
  from recv_law [OF Cons.prems(2) 1] Cons.hyps(2) [symmetric]
  have s1: "inv s1" "outbox s1 = outbox s" "r = Some c" "inbox s1 = cs" by auto
  obtain s2 where "recv_n (length cs) s1 = (s2, map Some cs)" "inv s2" "inbox s2 = []" "outbox s2 = outbox s1"
    using Cons.hyps(1) [OF s1(4) [symmetric] _ s1(1)] s1(4) by auto
  then show ?case using Cons.prems(1) [of s2] 1 s1 Cons.hyps(2) [symmetric] by simp
qed

text \<open>What is sent to an empty outbox before a toggle is received in its order after it.\<close>

lemma sent_is_received:
  assumes "inv s" "outbox s = []" "list_all cmd_ok cs" "length cs \<le> capacity"
  shows "snd (send_all cs s) = replicate (length cs) True"
    and "snd (recv_n (length cs) (toggle (fst (send_all cs s)))) = map Some cs"
    and "snd (recv (fst (recv_n (length cs) (toggle (fst (send_all cs s)))))) = None"
proof -
  obtain s1 where 1: "send_all cs s = (s1, replicate (length cs) True)" "inv s1" "outbox s1 = cs"
    using send_all_result [OF assms(1,3)] assms(2,4) by auto
  have t: "inv (toggle s1)" "inbox (toggle s1) = cs" using toggle_law [OF 1(2)] 1(3) by auto
  obtain s2 where 2: "recv_n (length cs) (toggle s1) = (s2, map Some cs)" "inv s2" "inbox s2 = []"
    using recv_n_result [OF t(1)] t(2) by metis
  obtain s3 r where "recv s2 = (s3, r)" by (metis surj_pair)
  then have "snd (recv s2) = None" using recv_law [OF 2(2), of s3 r] 2(3) by simp
  then show "snd (send_all cs s) = replicate (length cs) True"
    "snd (recv_n (length cs) (toggle (fst (send_all cs s)))) = map Some cs"
    "snd (recv (fst (recv_n (length cs) (toggle (fst (send_all cs s)))))) = None"
    using 1(1) 2(1) by simp_all
qed

end

subsection \<open>The queues meet the contract\<close>

text \<open>Front and end within a queue, and how many commands lie between them.\<close>

definition front_of :: "command_queues \<Rightarrow> nat \<Rightarrow> nat" where
  "front_of q i = queue_front q ! i - SIZE_COMMAND_QUEUE * i"

definition end_of :: "command_queues \<Rightarrow> nat \<Rightarrow> nat" where
  "end_of q i = queue_end q ! i - SIZE_COMMAND_QUEUE * i"

definition between :: "nat \<Rightarrow> nat \<Rightarrow> nat" where
  "between f e = (if f < e then e - f - 1 else e + 19 - f)"

definition commands :: "command_queues \<Rightarrow> nat \<Rightarrow> graphic_command list" where
  "commands q i = map (\<lambda>k. cell_command (command_queue q ! (SIZE_COMMAND_QUEUE * i + (front_of q i + 1 + k) mod 20)))
     [0..<between (front_of q i) (end_of q i)]"

definition cmd_ok :: "graphic_command \<Rightarrow> bool" where
  "cmd_ok c \<longleftrightarrow> length (arg c) = N_MAX_GRAPHIC_COMMAND_ARG"

definition in_queue :: "nat \<Rightarrow> nat \<Rightarrow> bool" where
  "in_queue i k \<longleftrightarrow> SIZE_COMMAND_QUEUE * i \<le> k \<and> k < SIZE_COMMAND_QUEUE * i + SIZE_COMMAND_QUEUE"

definition wf_cells :: "command_cell list \<Rightarrow> bool" where
  "wf_cells cs \<longleftrightarrow> length cs = 40 \<and> (\<forall>k<40. cmd_ok (cell_command (cs ! k))) \<and>
     (\<forall>i<2. \<forall>k<20. cell_next (cs ! (SIZE_COMMAND_QUEUE * i + k)) = SIZE_COMMAND_QUEUE * i + Suc k mod 20)"

definition wf_queues :: "command_queues \<Rightarrow> bool" where
  "wf_queues q \<longleftrightarrow> wf_cells (command_queue q) \<and> length (queue_front q) = 2 \<and> length (queue_end q) = 2 \<and>
     (\<forall>i<2. in_queue i (queue_front q ! i) \<and> in_queue i (queue_end q ! i)) \<and>
     (current_send q, current_recv q) \<in> {(0, 1), (1, 0)}"

lemma copy_command_copy: "cmd_ok a \<Longrightarrow> cmd_ok b \<Longrightarrow> copy_command a b = a"
proof -
  have "fold (\<lambda>i l. l[i := x ! i]) [0..<n] y = take n x @ drop n y" if "length x = m" "length y = m" "n \<le> m"
    for n m and x y :: "u32 list"
    using that
  proof (induction n)
    case (Suc n)
    then show ?case by (simp add: list_update_append take_Suc_conv_app_nth upd_conv_take_nth_drop)
  qed simp
  then show "cmd_ok a \<Longrightarrow> cmd_ok b \<Longrightarrow> copy_command a b = a"
    by (simp add: copy_command_def cmd_ok_def)
qed

lemma wf_queues_at:
  assumes "wf_queues q" "i < 2"
  obtains f e where "queue_front q ! i = 20 * i + f" "queue_end q ! i = 20 * i + e" "f < 20" "e < 20"
    "front_of q i = f" "end_of q i = e"
proof -
  have "in_queue i (queue_front q ! i)" "in_queue i (queue_end q ! i)" using assms by (auto simp: wf_queues_def)
  then show ?thesis
    by (intro that [of "queue_front q ! i - 20 * i" "queue_end q ! i - 20 * i"])
      (auto simp: in_queue_def front_of_def end_of_def)
qed

lemma between_full: "f < 20 \<Longrightarrow> e < 20 \<Longrightarrow> e = f \<longleftrightarrow> between f e = 19"
  by (auto simp: between_def)

lemma between_less: "f < 20 \<Longrightarrow> e < 20 \<Longrightarrow> between f e < 20"
  by (auto simp: between_def)

lemma mod_20: "(k :: nat) < 40 \<Longrightarrow> k mod 20 = (if k < 20 then k else k - 20)"
  by (simp add: mod_if)

lemma between_Suc: "f < 20 \<Longrightarrow> e < 20 \<Longrightarrow> e \<noteq> f \<Longrightarrow> between f (Suc e mod 20) = Suc (between f e)"
  by (auto simp: between_def mod_20)

lemma between_end: "f < 20 \<Longrightarrow> e < 20 \<Longrightarrow> e \<noteq> f \<Longrightarrow> (f + 1 + between f e) mod 20 = e"
  by (auto simp: between_def mod_20)

lemma between_inner: "f < 20 \<Longrightarrow> e < 20 \<Longrightarrow> k < between f e \<Longrightarrow> (f + 1 + k) mod 20 \<noteq> e"
  by (auto simp: between_def mod_20 split: if_splits)

lemma between_empty: "f < 20 \<Longrightarrow> e < 20 \<Longrightarrow> Suc f mod 20 = e \<longleftrightarrow> between f e = 0"
  by (auto simp: between_def mod_20 split: if_splits)

lemma between_next: "f < 20 \<Longrightarrow> e < 20 \<Longrightarrow> between f e = Suc n \<Longrightarrow> between (Suc f mod 20) e = n"
  by (auto simp: between_def mod_20 split: if_splits)

lemma send_commands:
  assumes "wf_queues q" "cmd_ok c" "graphic_send_command c q = (q', ok)"
  shows "wf_queues q' \<and> current_send q' = current_send q \<and> current_recv q' = current_recv q \<and>
    ok = (length (commands q (unat (current_send q))) < 19) \<and>
    (\<forall>i<2. commands q' i = (if ok \<and> i = unat (current_send q) then commands q i @ [c] else commands q i))"
proof -
  let ?s = "unat (current_send q)"
  have s: "?s < 2" using assms(1) by (auto simp: wf_queues_def)
  obtain f e where fe: "queue_front q ! ?s = 20 * ?s + f" "queue_end q ! ?s = 20 * ?s + e" "f < 20" "e < 20"
    "front_of q ?s = f" "end_of q ?s = e" using wf_queues_at [OF assms(1) s] .
  have len: "length (commands q ?s) = between f e" by (simp add: commands_def fe)
  show ?thesis
  proof (cases "e = f")
    case True
    then show ?thesis using assms between_full [OF fe(3,4)] fe len by (auto simp: graphic_send_command_def)
  next
    case False
    let ?t = "20 * ?s + e"
    define cell where "cell = (command_queue q ! ?t)\<lparr>cell_command := c\<rparr>"
    have t: "?t < 40" using s fe(4) by simp
    have cells: "wf_cells (command_queue q)" using assms(1) by (simp add: wf_queues_def)
    have cc: "copy_command c (cell_command (command_queue q ! ?t)) = c"
      using cells t assms(2) by (intro copy_command_copy) (auto simp: wf_cells_def)
    have nx: "cell_next (command_queue q ! ?t) = 20 * ?s + Suc e mod 20"
      using cells s fe(4) by (simp add: wf_cells_def)
    have q': "q' = q\<lparr>command_queue := (command_queue q)[?t := cell], queue_end := (queue_end q)[?s := 20 * ?s + Suc e mod 20]\<rparr>"
      and ok: "ok" using assms(3) False fe(1,2) nx cc
      by (auto simp: graphic_send_command_def Let_def cell_def)
    have wfc: "wf_cells ((command_queue q)[?t := cell])"
      using cells assms(2) t by (auto simp: wf_cells_def nth_list_update cell_def nx)
    have wf: "wf_queues q'"
      using assms(1) s wfc by (auto simp: wf_queues_def q' in_queue_def nth_list_update)
    have fe': "front_of q' ?s = f" "end_of q' ?s = Suc e mod 20"
      using s assms(1) fe by (auto simp: q' front_of_def end_of_def wf_queues_def)
    have "commands q' ?s = commands q ?s @ [c]"
    proof -
      have "cell_command (command_queue q' ! (20 * ?s + (f + 1 + k) mod 20)) =
          cell_command (command_queue q ! (20 * ?s + (f + 1 + k) mod 20))" if "k < between f e" for k
        using between_inner [OF fe(3,4) that] by (simp add: q')
      moreover have "cell_command (command_queue q' ! ?t) = c"
        using t cells by (simp add: q' cell_def wf_cells_def)
      ultimately show ?thesis
        using between_Suc [OF fe(3,4) False] between_end [OF fe(3,4) False]
        by (simp add: commands_def fe fe')
    qed
    moreover have "commands q' i = commands q i" if i: "i < 2" "i \<noteq> ?s" for i
    proof -
      obtain f' e' where o: "front_of q i = f'" "end_of q i = e'" "f' < 20" "e' < 20"
        using wf_queues_at [OF assms(1) i(1)] by metis
      have same: "front_of q' i = f'" "end_of q' i = e'"
        using i o by (simp_all add: q' front_of_def end_of_def)
      have ne: "20 * i + (f' + 1 + k) mod 20 \<noteq> ?t" for k
      proof
        assume "20 * i + (f' + 1 + k) mod 20 = ?t"
        then have "(20 * i + (f' + 1 + k) mod 20) div 20 = ?t div 20" by simp
        then show False using i(2) fe(4) by simp
      qed
      have "command_queue q' ! (20 * i + (f' + 1 + k) mod 20) = command_queue q ! (20 * i + (f' + 1 + k) mod 20)" for k
        using ne [of k] by (simp add: q')
      then show ?thesis unfolding commands_def o same by simp
    qed
    ultimately show ?thesis
      using wf ok len between_full [OF fe(3,4)] between_less [OF fe(3,4)] False by (auto simp: q')
  qed
qed

lemma recv_commands:
  assumes "wf_queues q" "cmd_ok p" "graphic_recv_command p q = (q', res)"
  shows "wf_queues q' \<and> current_send q' = current_send q \<and> current_recv q' = current_recv q \<and>
    (case commands q (unat (current_recv q)) of
       [] \<Rightarrow> res = None \<and> (\<forall>i<2. commands q' i = commands q i)
     | c # cs \<Rightarrow> res = Some c \<and> commands q' (unat (current_recv q)) = cs \<and>
         (\<forall>i<2. i \<noteq> unat (current_recv q) \<longrightarrow> commands q' i = commands q i))"
proof -
  let ?r = "unat (current_recv q)"
  have r: "?r < 2" using assms(1) by (auto simp: wf_queues_def)
  obtain f e where fe: "queue_front q ! ?r = 20 * ?r + f" "queue_end q ! ?r = 20 * ?r + e" "f < 20" "e < 20"
    "front_of q ?r = f" "end_of q ?r = e" using wf_queues_at [OF assms(1) r] .
  have cells: "wf_cells (command_queue q)" using assms(1) by (simp add: wf_queues_def)
  have nx: "cell_next (command_queue q ! (20 * ?r + f)) = 20 * ?r + Suc f mod 20"
    using cells r fe(3) by (simp add: wf_cells_def)
  show ?thesis
  proof (cases "between f e")
    case 0
    then have "q' = q" "res = None" using assms(3) between_empty [OF fe(3,4)] fe(1,2) nx
      by (auto simp: graphic_recv_command_def Let_def)
    then show ?thesis using assms(1) 0 by (simp add: commands_def fe)
  next
    case (Suc n)
    define c where "c = cell_command (command_queue q ! (20 * ?r + Suc f mod 20))"
    have "20 * ?r + Suc f mod 20 < 40" using r mod_less_divisor [of 20 "Suc f"] by linarith
    then have "cmd_ok c" using cells by (simp add: wf_cells_def c_def)
    then have cc: "copy_command c p = c" using assms(2) by (rule copy_command_copy)
    have q': "q' = q\<lparr>queue_front := (queue_front q)[?r := 20 * ?r + Suc f mod 20]\<rparr>" and res: "res = Some c"
      using assms(3) between_empty [OF fe(3,4)] Suc fe(1,2) nx cc
      by (auto simp: graphic_recv_command_def Let_def c_def)
    have wf: "wf_queues q'"
      using assms(1) r by (auto simp: wf_queues_def q' in_queue_def nth_list_update)
    have fe': "front_of q' ?r = Suc f mod 20" "end_of q' ?r = e"
      using r assms(1) fe by (auto simp: q' front_of_def end_of_def wf_queues_def)
    have cs: "commands q ?r = c # commands q' ?r"
    proof -
      have "[0..<Suc n] = 0 # map Suc [0..<n]" by (simp add: upt_conv_Cons map_Suc_upt del: upt_Suc)
      moreover have "(f + 1 + Suc k) mod 20 = (Suc f mod 20 + 1 + k) mod 20" for k
        using mod_add_left_eq [of "Suc f" 20 "Suc k"] by simp
      moreover have "command_queue q' = command_queue q" by (simp add: q')
      ultimately show ?thesis
        using between_next [OF fe(3,4) Suc]
        by (simp add: commands_def fe fe' Suc c_def o_def)
    qed
    have "commands q' i = commands q i" if i: "i < 2" "i \<noteq> ?r" for i
    proof -
      have "front_of q' i = front_of q i" "end_of q' i = end_of q i"
        using i by (simp_all add: q' front_of_def end_of_def)
      then show ?thesis by (simp add: commands_def q')
    qed
    then show ?thesis using wf res cs by (simp add: q')
  qed
qed

definition outbox :: "command_queues \<Rightarrow> graphic_command list" where
  "outbox q = commands q (unat (current_send q))"

definition inbox :: "command_queues \<Rightarrow> graphic_command list" where
  "inbox q = commands q (unat (current_recv q))"

lemma toggle_commands:
  assumes "wf_queues q"
  shows "wf_queues (graphic_toggle_command_queue q) \<and> outbox (graphic_toggle_command_queue q) = inbox q \<and>
    inbox (graphic_toggle_command_queue q) = outbox q"
proof -
  have "commands (q\<lparr>current_send := a, current_recv := b\<rparr>) i = commands q i" for a b i
    by (simp add: commands_def front_of_def end_of_def)
  moreover have "(current_send q XOR 1, current_recv q XOR 1) = (current_recv q, current_send q)"
    using assms by (auto simp: wf_queues_def)
  ultimately show ?thesis
    using assms by (auto simp: graphic_toggle_command_queue_def outbox_def inbox_def wf_queues_def)
qed

definition no_command :: graphic_command where
  "no_command = \<lparr>command_type = 0, arg = replicate N_MAX_GRAPHIC_COMMAND_ARG 0\<rparr>"

interpretation channel: command_channel graphic_send_command "graphic_recv_command no_command"
  graphic_toggle_command_queue outbox inbox wf_queues cmd_ok 19
proof
  fix s s' :: command_queues and c ok
  assume a: "wf_queues s" "cmd_ok c" "graphic_send_command c s = (s', ok)"
  have "unat (current_recv s) < 2" "unat (current_send s) < 2" "unat (current_recv s) \<noteq> unat (current_send s)"
    using a(1) by (auto simp: wf_queues_def)
  then show "wf_queues s' \<and> inbox s' = inbox s \<and> ok = (length (outbox s) < 19) \<and>
      outbox s' = (if ok then outbox s @ [c] else outbox s)"
    using send_commands [OF a] by (simp add: outbox_def inbox_def)
next
  fix s s' :: command_queues and r
  assume a: "wf_queues s" "graphic_recv_command no_command s = (s', r)"
  have i: "unat (current_recv s) < 2" "unat (current_send s) < 2" "unat (current_send s) \<noteq> unat (current_recv s)"
    using a(1) by (auto simp: wf_queues_def)
  have "cmd_ok no_command" by (simp add: cmd_ok_def no_command_def)
  from recv_commands [OF a(1) this a(2)] i
  show "wf_queues s' \<and> outbox s' = outbox s \<and>
      (case inbox s of [] \<Rightarrow> r = None \<and> inbox s' = [] | c # cs \<Rightarrow> r = Some c \<and> inbox s' = cs)"
    by (cases "commands s (unat (current_recv s))") (simp_all add: outbox_def inbox_def)
qed (simp add: toggle_commands)

subsection \<open>Initialisation\<close>

lemma set_next_simps:
  "length (set_next k n cs) = length cs"
  "cell_command (set_next k n cs ! m) = cell_command (cs ! m)"
  "k < length cs \<Longrightarrow> cell_next (set_next k n cs ! m) = (if m = k then n else cell_next (cs ! m))"
proof -
  show "length (set_next k n cs) = length cs" by (simp add: set_next_def)
  show "cell_command (set_next k n cs ! m) = cell_command (cs ! m)"
    by (cases "k < length cs") (auto simp: set_next_def nth_list_update list_update_beyond)
  show "k < length cs \<Longrightarrow> cell_next (set_next k n cs ! m) = (if m = k then n else cell_next (cs ! m))"
    by (auto simp: set_next_def nth_list_update)
qed

lemma link_cells:
  assumes "b + n \<le> length cs"
  shows "length (fold (\<lambda>j cs. set_next (b + j) (b + j + 1) cs) [0..<n] cs) = length cs"
    "cell_command (fold (\<lambda>j cs. set_next (b + j) (b + j + 1) cs) [0..<n] cs ! m) = cell_command (cs ! m)"
    "cell_next (fold (\<lambda>j cs. set_next (b + j) (b + j + 1) cs) [0..<n] cs ! m) =
       (if b \<le> m \<and> m < b + n then m + 1 else cell_next (cs ! m))"
  using assms by (induction n) (auto simp: set_next_simps)

definition new_queues :: "command_queues \<Rightarrow> bool" where
  "new_queues q \<longleftrightarrow> length (command_queue q) = 40 \<and> (\<forall>k<40. cmd_ok (cell_command (command_queue q ! k))) \<and>
     length (queue_front q) = 2 \<and> length (queue_end q) = 2"

lemma init_one_result:
  assumes "new_queues q" "i < 2"
  shows "new_queues (init_one i q)"
    "cell_next (command_queue (init_one i q) ! m) =
      (if in_queue i m then 20 * i + Suc (m - 20 * i) mod 20 else cell_next (command_queue q ! m))"
    "queue_front (init_one i q) = (queue_front q)[i := 20 * i]"
    "queue_end (init_one i q) = (queue_end q)[i := 20 * i + 1]"
proof -
  have b: "i * 20 + 19 \<le> length (command_queue q)" using assms by (simp add: new_queues_def)
  show "new_queues (init_one i q)"
    using assms link_cells(1,2) [OF b] by (simp add: new_queues_def init_one_def Let_def set_next_simps ac_simps)
  show "queue_front (init_one i q) = (queue_front q)[i := 20 * i]"
    "queue_end (init_one i q) = (queue_end q)[i := 20 * i + 1]"
    by (simp_all add: init_one_def Let_def mult.commute)
  have "m - 20 * i = 19" if "m = i * 20 + 19" using that by simp
  moreover have "Suc (m - 20 * i) mod 20 = Suc m - 20 * i" if "i * 20 \<le> m" "m < i * 20 + 19" using that by simp
  moreover have "i * 20 + 20 - 1 < length (fold (\<lambda>j cs. set_next (i * 20 + j) (i * 20 + j + 1) cs) [0..<20 - 1] (command_queue q))"
    using assms link_cells(1) [OF b] by (simp add: new_queues_def)
  ultimately show "cell_next (command_queue (init_one i q) ! m) =
      (if in_queue i m then 20 * i + Suc (m - 20 * i) mod 20 else cell_next (command_queue q ! m))"
    using link_cells(3) [OF b, of m]
    by (auto simp: init_one_def Let_def set_next_simps in_queue_def mult.commute)
qed

lemma init_queues:
  assumes "new_queues q"
  shows "wf_queues (graphic_init_queue q) \<and> outbox (graphic_init_queue q) = [] \<and> inbox (graphic_init_queue q) = []"
proof -
  let ?q1 = "init_one 0 q"
  let ?q = "init_one 1 ?q1"
  note 1 = init_one_result [OF assms, of 0]
  note 2 = init_one_result [OF 1(1), of 1]
  have q: "graphic_init_queue q = ?q\<lparr>current_send := 0, current_recv := 1\<rparr>"
    by (simp add: graphic_init_queue_def numeral_2_eq_2)
  have nx: "cell_next (command_queue ?q ! (20 * i + k)) = 20 * i + Suc k mod 20" if "i < 2" "k < 20" for i k
  proof -
    have "i = 0 \<or> i = 1" using that by auto
    then show ?thesis using that 1(2) 2(2) by (auto simp: in_queue_def)
  qed
  have front: "queue_front ?q ! 0 = 0" "queue_front ?q ! 1 = 20" "queue_end ?q ! 0 = 1" "queue_end ?q ! 1 = 21"
    "length (queue_front ?q) = 2" "length (queue_end ?q) = 2"
    using 1(3,4) 2(1,3,4) assms by (simp_all add: new_queues_def)
  have two: "i < 2 \<longleftrightarrow> i = 0 \<or> i = 1" for i :: nat by auto
  have "wf_queues (graphic_init_queue q)"
    using 2(1) nx front by (auto simp: q wf_queues_def wf_cells_def new_queues_def two in_queue_def)
  moreover have "commands (graphic_init_queue q) 0 = []" "commands (graphic_init_queue q) 1 = []"
    using front by (simp_all add: commands_def front_of_def end_of_def between_def q)
  ultimately show ?thesis by (simp add: outbox_def inbox_def q)
qed

subsection \<open>The clients' commands and the driver's round\<close>

text \<open>
  The clients fill one command structure, which keeps the arguments of the commands before, and
  send it.  The driver's round receives a command or, when the clients wait for it, exchanges
  the queues.
\<close>

definition set_args :: "u32 \<Rightarrow> u32 list \<Rightarrow> graphic_command \<Rightarrow> graphic_command" where
  "set_args ty args c = c\<lparr>command_type := ty, arg := fold (\<lambda>i a. a[i := args ! i]) [0..<length args] (arg c)\<rparr>"

definition graphic_plot_dot ::
  "u32 \<Rightarrow> u32 \<Rightarrow> u32 \<Rightarrow> u32 \<Rightarrow> u32 \<Rightarrow> graphic_command \<times> command_queues \<Rightarrow> graphic_command \<times> command_queues" where
  "graphic_plot_dot layer x y thickness color st =
     (case st of (c, q) \<Rightarrow>
        let c' = set_args 0 [layer, x, y, thickness, color] c in (c', fst (graphic_send_command c' q)))"

definition graphic_plot_line ::
  "u32 \<Rightarrow> u32 \<Rightarrow> u32 \<Rightarrow> u32 \<Rightarrow> u32 \<Rightarrow> u32 \<Rightarrow> u32 \<Rightarrow> graphic_command \<times> command_queues \<Rightarrow> graphic_command \<times> command_queues" where
  "graphic_plot_line layer start_x start_y end_x end_y thickness color st =
     (case st of (c, q) \<Rightarrow>
        let c' = set_args 1 [layer, start_x, start_y, end_x, end_y, thickness, color] c
        in (c', fst (graphic_send_command c' q)))"

definition graphic_move_direct ::
  "u32 \<Rightarrow> u32 \<Rightarrow> u32 \<Rightarrow> graphic_command \<times> command_queues \<Rightarrow> graphic_command \<times> command_queues" where
  "graphic_move_direct layer x y st =
     (case st of (c, q) \<Rightarrow> let c' = set_args 2 [layer, x, y] c in (c', fst (graphic_send_command c' q)))"

definition driver_receive :: "graphic_command \<Rightarrow> command_queues \<Rightarrow> command_queues \<times> graphic_command option" where
  "driver_receive current q =
     (case graphic_recv_command current q of
        (q', Some c) \<Rightarrow> (q', Some c)
      | (q', None) \<Rightarrow>
          ((if is_flushing q' then graphic_toggle_command_queue q' else q')\<lparr>is_flushing := False\<rparr>, None))"

lemma wf_queues_flushing [simp]: "wf_queues (q\<lparr>is_flushing := b\<rparr>) = wf_queues q"
  "outbox (q\<lparr>is_flushing := b\<rparr>) = outbox q" "inbox (q\<lparr>is_flushing := b\<rparr>) = inbox q"
  by (simp_all add: wf_queues_def outbox_def inbox_def commands_def front_of_def end_of_def)

lemma driver_receive_result:
  assumes "wf_queues q" "driver_receive no_command q = (q', r)"
  shows "wf_queues q' \<and> (case inbox q of
      c # cs \<Rightarrow> r = Some c \<and> inbox q' = cs \<and> outbox q' = outbox q \<and> is_flushing q' = is_flushing q
    | [] \<Rightarrow> r = None \<and> \<not> is_flushing q' \<and>
        (if is_flushing q then inbox q' = outbox q \<and> outbox q' = [] else inbox q' = [] \<and> outbox q' = outbox q))"
proof -
  obtain q1 r1 where 1: "graphic_recv_command no_command q = (q1, r1)" by (metis surj_pair)
  note law = channel.recv_law [OF assms(1) 1]
  have fl: "is_flushing q1 = is_flushing q"
    using 1 by (auto simp: graphic_recv_command_def Let_def split: if_splits)
  show ?thesis
  proof (cases "inbox q")
    case Nil
    then show ?thesis using law assms(2) 1 fl channel.toggle_law [of q1]
      by (auto simp: driver_receive_def)
  next
    case (Cons c cs)
    then show ?thesis using law assms(2) 1 fl by (simp add: driver_receive_def)
  qed
qed

text \<open>
  After the initialisation, up to 19 commands are all accepted and, once the queues are
  exchanged, received in the order in which they were sent, with nothing left after them.
\<close>

theorem commands_in_order:
  assumes "new_queues q" "list_all cmd_ok cs" "length cs \<le> 19"
  shows "snd (channel.send_all cs (graphic_init_queue q)) = replicate (length cs) True \<and>
    snd (channel.recv_n (length cs) (graphic_toggle_command_queue (fst (channel.send_all cs (graphic_init_queue q))))) =
      map Some cs"
  using channel.sent_is_received [of "graphic_init_queue q" cs] init_queues [OF assms(1)] assms(2,3) by simp

text \<open>
  C22: The command queues of the graphic driver implement a pair of first-in first-out
  queues of 19 commands: sending appends to the outbox or refuses when it is full; a round
  of the driver takes the first command of the inbox, and on an empty inbox makes the outbox
  the inbox when the clients wait for it.
\<close>

theorem queues_refine:
  assumes "wf_queues q"
  shows "(cmd_ok c \<longrightarrow> (case graphic_send_command c q of (q', ok) \<Rightarrow>
            wf_queues q' \<and> ok = (length (outbox q) < 19) \<and> inbox q' = inbox q \<and>
            outbox q' = (if length (outbox q) < 19 then outbox q @ [c] else outbox q))) \<and>
    (case driver_receive no_command q of (q', r) \<Rightarrow>
       wf_queues q' \<and>
       (r, inbox q', outbox q') =
         (case inbox q of
            c # cs \<Rightarrow> (Some c, cs, outbox q)
          | [] \<Rightarrow> if is_flushing q then (None, outbox q, []) else (None, [], outbox q)))"
proof -
  obtain q1 ok where 1: "graphic_send_command c q = (q1, ok)" by (metis surj_pair)
  obtain q2 r where 2: "driver_receive no_command q = (q2, r)" by (metis surj_pair)
  show ?thesis
    using channel.send_law [OF assms _ 1] driver_receive_result [OF assms 2] 1 2
    by (auto split: list.splits)
qed

text \<open>Queues before the initialisation.\<close>

definition blank_queues :: command_queues where
  "blank_queues = \<lparr>command_queue = replicate 40 \<lparr>cell_next = 0, cell_command = no_command\<rparr>,
     queue_front = [0, 0], queue_end = [0, 0], current_send = 0, current_recv = 0, is_flushing = False\<rparr>"

lemma blank_new: "new_queues blank_queues"
  by (simp add: new_queues_def blank_queues_def cmd_ok_def no_command_def)

lemma queues_refine_witness:
  "case graphic_send_command (set_args 2 [1, 5, 6] no_command) (graphic_init_queue blank_queues) of (q, ok) \<Rightarrow>
     ok \<and> (case driver_receive no_command (q\<lparr>is_flushing := True\<rparr>) of (q', r) \<Rightarrow>
       r = None \<and> inbox q' = [set_args 2 [1, 5, 6] no_command] \<and> outbox q' = [])"
proof -
  let ?c = "set_args 2 [1, 5, 6] no_command"
  note i = init_queues [OF blank_new]
  obtain q ok where 1: "graphic_send_command ?c (graphic_init_queue blank_queues) = (q, ok)" by (metis surj_pair)
  obtain q' r where 2: "driver_receive no_command (q\<lparr>is_flushing := True\<rparr>) = (q', r)" by (metis surj_pair)
  have "cmd_ok ?c" by (simp add: cmd_ok_def set_args_def no_command_def)
  then have q: "ok" "wf_queues q" "inbox q = []" "outbox q = [?c]"
    using queues_refine [of "graphic_init_queue blank_queues" ?c] i 1 by auto
  then show ?thesis
    using queues_refine [of "q\<lparr>is_flushing := True\<rparr>" ?c] 1 2 by simp
qed

end
