(* ===== verification/Rsa_Prelude.thy ===== *)
theory Rsa_Prelude
  imports Prelude
begin

section \<open>RSAREF: types, results and the value of a digit array\<close>

text \<open>
  \<open>UINT4\<close> is the 32-bit word of the machine the library is built for here, \<open>UINT2\<close> and
  \<open>NN_HALF_DIGIT\<close> 16 bits.  A routine returns 0 or one of the error codes of rsaref.h; the
  model returns a sum.  A loop that need not end gives an option, \<open>None\<close> for not returning.
  An array of digits is the list of its elements, least significant first; output arrays
  are results, with the length the comments of nn.c give them.
\<close>

type_synonym NN_DIGIT = u32
type_synonym NN_HALF_DIGIT = u16
type_synonym bytes = "u8 list"

datatype re_code =
    RE_CONTENT_ENCODING | RE_DATA | RE_DIGEST_ALGORITHM | RE_ENCODING | RE_KEY
  | RE_KEY_ENCODING | RE_LEN | RE_MODULUS_LEN | RE_NEED_RANDOM | RE_PRIVATE_KEY
  | RE_PUBLIC_KEY | RE_SIGNATURE | RE_SIGNATURE_ENCODING | RE_ENCRYPTION_ALGORITHM

abbreviation (input) MAX_RSA_MODULUS_BITS :: nat where "MAX_RSA_MODULUS_BITS \<equiv> 1024"
abbreviation (input) MIN_RSA_MODULUS_BITS :: nat where "MIN_RSA_MODULUS_BITS \<equiv> 508"
abbreviation (input) MAX_RSA_MODULUS_LEN :: nat where "MAX_RSA_MODULUS_LEN \<equiv> 128"
abbreviation (input) MAX_RSA_PRIME_LEN :: nat where "MAX_RSA_PRIME_LEN \<equiv> 64"
abbreviation (input) NN_DIGIT_BITS :: nat where "NN_DIGIT_BITS \<equiv> 32"
abbreviation (input) NN_DIGIT_LEN :: nat where "NN_DIGIT_LEN \<equiv> 4"
abbreviation (input) MAX_NN_DIGITS :: nat where "MAX_NN_DIGITS \<equiv> 33"
abbreviation (input) MAX_NN_DIGIT :: NN_DIGIT where "MAX_NN_DIGIT \<equiv> 0xffffffff"
abbreviation (input) MAX_NN_HALF_DIGIT :: NN_HALF_DIGIT where "MAX_NN_HALF_DIGIT \<equiv> 0xffff"

definition LOW_HALF :: "NN_DIGIT \<Rightarrow> NN_DIGIT" where
  "LOW_HALF x = x AND 0xffff"

definition HIGH_HALF :: "NN_DIGIT \<Rightarrow> NN_DIGIT" where
  "HIGH_HALF x = drop_bit 16 x AND 0xffff"

definition TO_HIGH_HALF :: "NN_DIGIT \<Rightarrow> NN_DIGIT" where
  "TO_HIGH_HALF x = push_bit 16 x"

definition DIGIT_2MSB :: "NN_DIGIT \<Rightarrow> nat" where
  "DIGIT_2MSB x = unat (drop_bit 30 x AND 3)"

text \<open>The number a digit array stands for.\<close>

fun nn_val :: "NN_DIGIT list \<Rightarrow> nat" where
  "nn_val [] = 0"
| "nn_val (d # ds) = unat d + 2 ^ 32 * nn_val ds"

lemma nn_val_append: "nn_val (xs @ ys) = nn_val xs + 2 ^ (32 * length xs) * nn_val ys"
  by (induction xs) (simp_all add: algebra_simps power_add)

lemma nn_val_replicate_0 [simp]: "nn_val (replicate n 0) = 0"
  by (induction n) simp_all

lemma unat_digit_less: "unat (d::u32) < 2 ^ 32"
  using unsigned_less [of d, where ?'a = nat] by simp

lemma nn_val_bound: "nn_val xs < 2 ^ (32 * length xs)"
proof (induction xs)
  case (Cons d ds)
  have "unat d + 2 ^ 32 * nn_val ds < 2 ^ 32 * (nn_val ds + 1)"
    using unat_digit_less [of d] by simp
  also have "\<dots> \<le> 2 ^ 32 * 2 ^ (32 * length ds)"
    using Cons by (intro mult_le_mono) simp_all
  finally show ?case by (simp add: power_add)
qed simp

lemma nn_val_inj: "length xs = length ys \<Longrightarrow> nn_val xs = nn_val ys \<Longrightarrow> xs = ys"
proof (induction xs ys rule: list_induct2)
  case (Cons x xs y ys)
  from Cons.prems have e: "unat x + 2 ^ 32 * nn_val xs = unat y + 2 ^ 32 * nn_val ys" by simp
  from arg_cong [OF e, of "\<lambda>n. n mod 2 ^ 32"] have x: "unat x = unat y"
    using unat_digit_less [of x] unat_digit_less [of y] by simp
  with e have "nn_val xs = nn_val ys" by simp
  with x Cons.IH show ?case by (simp add: word_unat_eq_iff)
qed simp

lemma nn_val_zero_iff: "nn_val xs = 0 \<longleftrightarrow> set xs \<subseteq> {0}"
  by (induction xs) (auto simp: unat_eq_0)

lemma nn_val_take_drop: "n \<le> length xs \<Longrightarrow> nn_val xs = nn_val (take n xs) + 2 ^ (32 * n) * nn_val (drop n xs)"
  using nn_val_append [of "take n xs" "drop n xs"] by (simp add: min_def)

lemma nn_val_less_take: "nn_val xs < 2 ^ (32 * n) \<Longrightarrow> n \<le> length xs \<Longrightarrow> nn_val (drop n xs) = 0"
  using nn_val_take_drop [of n xs] by (cases "nn_val (drop n xs)") auto

subsection \<open>Digits with carry and borrow\<close>

text \<open>
  The comparisons by which the library detects a carry and a borrow, and the values of the
  sum and the difference.
\<close>

lemma carry_iff: "(x + y < (y::u32)) = (2 ^ 32 \<le> unat x + unat y)"
  using unat_digit_less [of x] unat_digit_less [of y]
  by (auto simp: word_less_nat_alt unat_word_ariths mod_if)

lemma unat_sum: "unat (x + y :: u32) = (if 2 ^ 32 \<le> unat x + unat y then unat x + unat y - 2 ^ 32 else unat x + unat y)"
  using unat_digit_less [of x] unat_digit_less [of y]
  by (auto simp: unat_word_ariths mod_if)

lemma unat_diff: "unat (x - y :: u32) = (if unat x < unat y then unat x + 2 ^ 32 - unat y else unat x - unat y)"
  using unat_digit_less [of y] by (auto simp: unat_sub_if')

lemma borrow_iff: "(x - y > 0xffffffff - (y::u32)) = (unat x < unat y)"
  using unat_digit_less [of x] unat_digit_less [of y]
  by (auto simp: word_less_nat_alt unat_diff)

lemma word_eq_of_nat: "unat (x::u32) = n \<Longrightarrow> x = of_nat n"
  by auto

lemma unat_of_bool_word [simp]: "unat (of_bool b :: u32) = of_bool b"
  by (cases b) simp_all

end
