(* ===== verification/Digit.thy ===== *)
theory Digit
  imports Rsa_Prelude
begin

section \<open>Digit arithmetic (digit.c)\<close>

text \<open>
  The product of two digits and the quotient of a double digit by a digit, on halves.  The
  correction loops of the division are modelled by \<open>partial_function\<close>: they return for
  every divisor the routine's comment allows (\<open>NN_DigitDiv_correct\<close>), and for zero they
  need not.
\<close>

definition NN_DigitMult :: "NN_DIGIT \<Rightarrow> NN_DIGIT \<Rightarrow> NN_DIGIT \<times> NN_DIGIT" where
  "NN_DigitMult b c =
     (let bHigh = HIGH_HALF b; bLow = LOW_HALF b; cHigh = HIGH_HALF c; cLow = LOW_HALF c;
          a0 = bLow * cLow;
          t = bLow * cHigh;
          u = bHigh * cLow;
          a1 = bHigh * cHigh;
          t = t + u;
          a1 = (if t < u then a1 + TO_HIGH_HALF 1 else a1);
          u = TO_HIGH_HALF t;
          a0 = a0 + u;
          a1 = (if a0 < u then a1 + 1 else a1);
          a1 = a1 + HIGH_HALF t
      in (a0, a1))"

text \<open>\<open>(t[1], t[0]) -= (x, y)\<close>, as the routine writes it: the low digit first, with the borrow.\<close>

definition sub_low :: "NN_DIGIT \<Rightarrow> NN_DIGIT \<times> NN_DIGIT \<Rightarrow> NN_DIGIT \<times> NN_DIGIT" where
  "sub_low x = (\<lambda>(t0, t1).
     let t0' = t0 - x in (t0', if t0' > MAX_NN_DIGIT - x then t1 - 1 else t1))"

partial_function (option) div_correct_high ::
  "NN_HALF_DIGIT \<Rightarrow> NN_HALF_DIGIT \<Rightarrow> NN_DIGIT \<times> NN_DIGIT \<Rightarrow> NN_HALF_DIGIT \<Rightarrow>
     ((NN_DIGIT \<times> NN_DIGIT) \<times> NN_HALF_DIGIT) option" where
  "div_correct_high cHigh cLow t aHigh =
     (if snd t > ucast cHigh \<or> (snd t = ucast cHigh \<and> fst t \<ge> TO_HIGH_HALF (ucast cLow))
      then let t' = sub_low (TO_HIGH_HALF (ucast cLow)) t
           in div_correct_high cHigh cLow (fst t', snd t' - ucast cHigh) (aHigh + 1)
      else Some (t, aHigh))"

partial_function (option) div_correct_low ::
  "NN_DIGIT \<Rightarrow> NN_DIGIT \<times> NN_DIGIT \<Rightarrow> NN_HALF_DIGIT \<Rightarrow> ((NN_DIGIT \<times> NN_DIGIT) \<times> NN_HALF_DIGIT) option" where
  "div_correct_low c t aLow =
     (if snd t > 0 \<or> (snd t = 0 \<and> fst t \<ge> c)
      then div_correct_low c (sub_low c t) (aLow + 1)
      else Some (t, aLow))"

definition NN_DigitDiv :: "NN_DIGIT \<times> NN_DIGIT \<Rightarrow> NN_DIGIT \<Rightarrow> NN_DIGIT option" where
  "NN_DigitDiv b c =
     (let cHigh = (ucast (HIGH_HALF c) :: NN_HALF_DIGIT);
          cLow = (ucast (LOW_HALF c) :: NN_HALF_DIGIT);
          t = b;
          aHigh = (if cHigh = MAX_NN_HALF_DIGIT then ucast (HIGH_HALF (snd t))
                   else ucast (snd t div (ucast cHigh + 1)) :: NN_HALF_DIGIT);
          u = ucast aHigh * ucast cLow;
          v = ucast aHigh * ucast cHigh;
          t = sub_low (TO_HIGH_HALF u) t;
          t = (fst t, snd t - HIGH_HALF u);
          t = (fst t, snd t - v)
      in Option.bind (div_correct_high cHigh cLow t aHigh) (\<lambda>(t, aHigh).
         let aLow = (if cHigh = MAX_NN_HALF_DIGIT then ucast (LOW_HALF (snd t))
                     else ucast ((TO_HIGH_HALF (snd t) + HIGH_HALF (fst t)) div (ucast cHigh + 1)) :: NN_HALF_DIGIT);
             u = ucast aLow * ucast cLow;
             v = ucast aLow * ucast cHigh;
             t = sub_low u t;
             t = sub_low (TO_HIGH_HALF v) t;
             t = (fst t, snd t - HIGH_HALF v)
         in Option.bind (div_correct_low c t aLow) (\<lambda>(t, aLow).
            Some (TO_HIGH_HALF (ucast aHigh) + ucast aLow))))"

subsection \<open>Halves\<close>

definition dval :: "NN_DIGIT \<times> NN_DIGIT \<Rightarrow> nat" where
  "dval t = unat (fst t) + 2 ^ 32 * unat (snd t)"

lemma mask16: "0xffff = (mask 16 :: u32)"
  by (simp add: mask_eq_exp_minus_1)

lemma unat_LOW_HALF: "unat (LOW_HALF x) = unat x mod 2 ^ 16"
  unfolding LOW_HALF_def mask16 by (simp add: take_bit_eq_mod unat_mod flip: take_bit_eq_mask)

lemma unat_HIGH_HALF: "unat (HIGH_HALF x) = unat x div 2 ^ 16"
proof -
  have "HIGH_HALF x = drop_bit 16 x"
    unfolding HIGH_HALF_def mask16 by (rule bit_word_eqI) (auto simp: bit_simps dest: bit_imp_le_length)
  then show ?thesis by (simp add: drop_bit_eq_div unat_div)
qed

lemma unat_TO_HIGH_HALF: "unat (TO_HIGH_HALF x) = unat x mod 2 ^ 16 * 2 ^ 16"
proof -
  have "unat (TO_HIGH_HALF x) = unat x * 2 ^ 16 mod (2 ^ 16 * 2 ^ 16)"
    by (simp add: TO_HIGH_HALF_def push_bit_eq_mult unat_word_ariths mult.commute)
  then show ?thesis by (simp only: mult_mod_left)
qed

lemma halves: "unat (HIGH_HALF x) < 2 ^ 16" "unat (LOW_HALF x) < 2 ^ 16"
  "unat x = unat (HIGH_HALF x) * 2 ^ 16 + unat (LOW_HALF x)"
  using unat_digit_less [of x] by (simp_all add: unat_HIGH_HALF unat_LOW_HALF)

lemma unat_half_mult:
  "unat x < 2 ^ 16 \<Longrightarrow> unat y < 2 ^ 16 \<Longrightarrow> unat (x * y :: u32) = unat x * unat y"
proof -
  assume a: "unat x < 2 ^ 16" "unat y < 2 ^ 16"
  have "unat x * unat y \<le> (2 ^ 16 - 1) * (2 ^ 16 - 1)" using a by (intro mult_le_mono) auto
  then show ?thesis by (simp add: unat_word_ariths)
qed

lemma mult_halves_exact:
  fixes bh bl ch cl :: nat
  assumes "t = bl * ch + bh * cl - (if k then 2 ^ 32 else 0)" "k = (2 ^ 32 \<le> bl * ch + bh * cl)"
    "a0 = bl * cl + t mod 2 ^ 16 * 2 ^ 16 - (if j then 2 ^ 32 else 0)" "j = (2 ^ 32 \<le> bl * cl + t mod 2 ^ 16 * 2 ^ 16)"
  shows "a0 + 2 ^ 32 * (bh * ch + (if k then 2 ^ 16 else 0) + (if j then 1 else 0) + t div 2 ^ 16)
     = (bh * 2 ^ 16 + bl) * (ch * 2 ^ 16 + cl)"
proof -
  have t: "t + (if k then 2 ^ 32 else 0) = bl * ch + bh * cl" using assms(1,2) by (cases k) simp_all
  have a: "a0 + (if j then 2 ^ 32 else 0) = bl * cl + t mod 2 ^ 16 * 2 ^ 16" using assms(3,4) by (cases j) simp_all
  define q r where "q = t div 2 ^ 16" and "r = t mod 2 ^ 16"
  have qr: "t = q * 2 ^ 16 + r" unfolding q_def r_def by presburger
  have "a0 + 2 ^ 32 * (bh * ch + (if k then 2 ^ 16 else 0) + (if j then 1 else 0) + q)
      = bl * cl + (t + (if k then 2 ^ 32 else 0)) * 2 ^ 16 + 2 ^ 32 * (bh * ch)"
    using a [folded r_def] unfolding qr by (cases k; cases j) (simp_all add: algebra_simps)
  also have "\<dots> = (bh * 2 ^ 16 + bl) * (ch * 2 ^ 16 + cl)" unfolding t by (simp add: algebra_simps)
  finally show ?thesis unfolding q_def .
qed

lemma NN_DigitMult_value: "dval (NN_DigitMult b c) = unat b * unat c"
proof -
  define bh bl ch cl where "bh = unat (HIGH_HALF b)" and "bl = unat (LOW_HALF b)"
    and "ch = unat (HIGH_HALF c)" and "cl = unat (LOW_HALF c)"
  define t0 u where "t0 = LOW_HALF b * HIGH_HALF c" and "u = HIGH_HALF b * LOW_HALF c"
  define t where "t = t0 + u"
  define k where "k \<longleftrightarrow> 2 ^ 32 \<le> bl * ch + bh * cl"
  define a0 where "a0 = LOW_HALF b * LOW_HALF c + TO_HIGH_HALF t"
  define j where "j \<longleftrightarrow> 2 ^ 32 \<le> bl * cl + unat t mod 2 ^ 16 * 2 ^ 16"
  have ut: "unat t0 = bl * ch" "unat u = bh * cl" "unat (LOW_HALF b * LOW_HALF c) = bl * cl"
    unfolding t0_def u_def bh_def bl_def ch_def cl_def by (intro unat_half_mult halves(1,2))+
  have t: "unat t = bl * ch + bh * cl - (if k then 2 ^ 32 else 0)"
    unfolding t_def unat_sum ut k_def by simp
  have a0: "unat a0 = bl * cl + unat t mod 2 ^ 16 * 2 ^ 16 - (if j then 2 ^ 32 else 0)"
    unfolding a0_def unat_sum ut j_def unat_TO_HIGH_HALF by simp
  define A where "A = bh * ch + (if k then 2 ^ 16 else 0) + (if j then 1 else 0) + unat t div 2 ^ 16"
  have e: "unat a0 + 2 ^ 32 * A = unat b * unat c"
    unfolding A_def halves(3) [of b] halves(3) [of c] bh_def [symmetric] bl_def [symmetric] ch_def [symmetric] cl_def [symmetric]
    by (rule mult_halves_exact [OF t k_def a0 j_def])
  have "unat b * unat c \<le> (2 ^ 32 - 1) * (2 ^ 32 - 1)"
    using unat_digit_less [of b] unat_digit_less [of c] by (intro mult_le_mono) auto
  then have A: "A < 2 ^ 32" using e by simp
  have w: "HIGH_HALF b * HIGH_HALF c = of_nat (bh * ch)" "HIGH_HALF t = of_nat (unat t div 2 ^ 16)"
    using unat_digit_less [of t]
    by (simp_all add: bh_def ch_def word_unat_eq_iff [of "HIGH_HALF t"] unat_HIGH_HALF [of t] unat_of_nat take_bit_nat_eq_self)
  have one: "TO_HIGH_HALF 1 = 2 ^ 16" by (simp add: TO_HIGH_HALF_def)
  have r: "NN_DigitMult b c = (a0, of_nat A)"
    using carry_iff [of t0 u] carry_iff [of "LOW_HALF b * LOW_HALF c" "TO_HIGH_HALF t"]
    unfolding NN_DigitMult_def Let_def t0_def [symmetric] u_def [symmetric] t_def [symmetric] a0_def [symmetric] ut
      unat_TO_HIGH_HALF k_def [symmetric] j_def [symmetric] w one A_def
    by simp
  show ?thesis using e A by (simp add: r dval_def unat_of_nat take_bit_nat_eq_self)
qed


subsection \<open>Division\<close>

lemma dval_less: "dval t < 2 ^ 32 * (unat (snd t) + 1)"
  using unat_digit_less [of "fst t"] by (simp add: dval_def)

lemma dval_sub_low:
  assumes "unat x \<le> dval t"
  shows "dval (sub_low x t) = dval t - unat x"
proof -
  obtain t0 t1 where t: "t = (t0, t1)" by force
  have "t1 \<noteq> 0" if "unat t0 < unat x" using assms that by (auto simp: t dval_def)
  then have "unat (t1 - 1) + 1 = unat t1" if "unat t0 < unat x" using that by (simp add: unat_diff word_unat_eq_iff)
  then show ?thesis
    using assms unat_digit_less [of x] unat_diff [of t0 x]
    unfolding t sub_low_def Let_def case_prod_conv borrow_iff dval_def fst_conv snd_conv
    by (cases "unat t0 < unat x") auto
qed

lemma dval_sub_high:
  assumes "2 ^ 32 * unat y \<le> dval t"
  shows "dval (fst t, snd t - y) = dval t - 2 ^ 32 * unat y"
proof -
  have "unat y \<le> unat (snd t)" using assms dval_less [of t] by simp
  then show ?thesis by (simp add: dval_def unat_diff diff_mult_distrib2)
qed

lemma dval_ge: "(snd t > y \<or> (snd t = y \<and> fst t \<ge> x)) = (unat x + 2 ^ 32 * unat y \<le> dval t)"
proof (cases "unat (snd t)" "unat y" rule: linorder_cases)
  case less
  then have "2 ^ 32 * (unat (snd t) + 1) \<le> 2 ^ 32 * unat y" by (intro mult_le_mono) auto
  then show ?thesis using less dval_less [of t] by (simp add: word_less_nat_alt word_unat_eq_iff)
next
  case equal
  then have "snd t = y" by (simp add: word_unat_eq_iff)
  then show ?thesis by (simp add: dval_def word_le_nat_alt)
next
  case greater
  then have "2 ^ 32 * (unat y + 1) \<le> 2 ^ 32 * unat (snd t)" by (intro mult_le_mono) auto
  then show ?thesis using greater unat_digit_less [of x] by (simp add: word_less_nat_alt dval_def)
qed

lemma unat_half_less: "unat (h::u16) < 2 ^ 16"
  using unsigned_less [of h, where ?'a = nat] by simp

lemma unat_half_digit [simp]: "unat (ucast (h::u16) :: u32) = unat h"
  using unat_half_less [of h] by (simp add: unsigned_ucast_eq take_bit_nat_eq_self)

lemma unat_TO_HIGH_half [simp]: "unat (TO_HIGH_HALF (ucast (h::u16))) = unat h * 2 ^ 16"
  using unat_half_less [of h] by (simp add: unat_TO_HIGH_HALF)

lemma div_correct_high_result:
  assumes "C = 2 ^ 32 * unat cHigh + unat cLow * 2 ^ 16" "0 < C"
  shows "\<exists>t'. div_correct_high cHigh cLow t aHigh = Some (t', aHigh + of_nat (dval t div C)) \<and> dval t' = dval t mod C"
proof (induction "dval t" arbitrary: t aHigh rule: less_induct)
  case less
  have guard: "(snd t > ucast cHigh \<or> (snd t = ucast cHigh \<and> fst t \<ge> TO_HIGH_HALF (ucast cLow))) = (C \<le> dval t)"
    unfolding dval_ge assms(1) by (simp add: add.commute)
  show ?case
  proof (cases "C \<le> dval t")
    case True
    let ?s = "sub_low (TO_HIGH_HALF (ucast cLow)) t"
    have s: "dval ?s = dval t - unat cLow * 2 ^ 16"
      using True assms(1) dval_sub_low [of "TO_HIGH_HALF (ucast cLow)" t] by simp
    have "dval (fst ?s, snd ?s - ucast cHigh) = dval ?s - 2 ^ 32 * unat cHigh"
      using True assms(1) s dval_sub_high [of "ucast cHigh" ?s] by simp
    then have d: "dval (fst ?s, snd ?s - ucast cHigh) = dval t - C" using s assms(1) by simp
    then obtain t' where t': "div_correct_high cHigh cLow (fst ?s, snd ?s - ucast cHigh) (aHigh + 1) =
        Some (t', aHigh + 1 + of_nat ((dval t - C) div C))" "dval t' = (dval t - C) mod C"
      using less [of "(fst ?s, snd ?s - ucast cHigh)" "aHigh + 1"] True assms(2) by auto
    moreover have "dval t div C = Suc ((dval t - C) div C)" using True assms(2) by (simp add: le_div_geq)
    ultimately show ?thesis
      using True guard by (subst div_correct_high.simps) (simp add: Let_def le_mod_geq)
  next
    case False
    then show ?thesis by (intro exI [of _ t], subst div_correct_high.simps, subst guard) simp
  qed
qed

lemma div_correct_low_result:
  assumes "0 < c"
  shows "\<exists>t'. div_correct_low c t aLow = Some (t', aLow + of_nat (dval t div unat c)) \<and> dval t' = dval t mod unat c"
proof (induction "dval t" arbitrary: t aLow rule: less_induct)
  case less
  have c: "0 < unat c" using assms by (simp add: word_less_nat_alt)
  have guard: "(snd t > 0 \<or> (snd t = 0 \<and> fst t \<ge> c)) = (unat c \<le> dval t)"
    unfolding dval_ge by simp
  show ?case
  proof (cases "unat c \<le> dval t")
    case True
    have d: "dval (sub_low c t) = dval t - unat c" using True by (rule dval_sub_low)
    obtain t' where t': "div_correct_low c (sub_low c t) (aLow + 1) =
        Some (t', aLow + 1 + of_nat ((dval t - unat c) div unat c))" "dval t' = (dval t - unat c) mod unat c"
      using less [of "sub_low c t" "aLow + 1"] d True c by auto
    moreover have "dval t div unat c = Suc ((dval t - unat c) div unat c)" using True c by (simp add: le_div_geq)
    ultimately show ?thesis
      using True guard by (subst div_correct_low.simps) (simp add: le_mod_geq)
  next
    case False
    then show ?thesis by (intro exI [of _ t], subst div_correct_low.simps, subst guard) simp
  qed
qed

lemma shift_split: "(x::nat) * 2 ^ 16 = 2 ^ 32 * (x div 2 ^ 16) + x mod 2 ^ 16 * 2 ^ 16"
proof -
  define q r where "q = x div 2 ^ 16" and "r = x mod 2 ^ 16"
  have "x = q * 2 ^ 16 + r" by (simp add: q_def r_def)
  then show ?thesis unfolding q_def [symmetric] r_def [symmetric] by simp
qed

lemma est_div: "1 + h = (k::nat) \<Longrightarrow> x div k * h \<le> x"
  by (metis div_times_less_eq_dividend le_add2 le_trans mult_le_mono2)

text \<open>Subtracting a half digit's multiple of \<open>c\<close>, shifted up or not, as the routine does it.\<close>

lemma sub_high_product:
  assumes "a * (2 ^ 16 * unat c) \<le> dval t" "a = unat (aH::u16)" "u = ucast aH * LOW_HALF c" "v = ucast aH * HIGH_HALF c"
  shows "dval (fst (sub_low (TO_HIGH_HALF u) t), snd (sub_low (TO_HIGH_HALF u) t) - HIGH_HALF u - v) = dval t - a * (2 ^ 16 * unat c)"
proof -
  have u: "unat u = a * unat (LOW_HALF c)" and v: "unat v = a * unat (HIGH_HALF c)"
    unfolding assms(2-4) by (simp_all add: unat_half_mult halves(1,2) [simplified] unat_half_less [simplified])
  define ul uh where "ul = unat u mod 2 ^ 16 * 2 ^ 16" and "uh = unat u div 2 ^ 16"
  have "unat u * 2 ^ 16 = 2 ^ 32 * uh + ul" unfolding ul_def uh_def by (rule shift_split)
  then have e: "a * (2 ^ 16 * unat c) = ul + 2 ^ 32 * uh + 2 ^ 32 * unat v"
    unfolding u v halves(3) [of c] by (simp add: algebra_simps)
  let ?s = "sub_low (TO_HIGH_HALF u) t"
  have 1: "dval ?s = dval t - ul"
    using assms(1) e dval_sub_low [of "TO_HIGH_HALF u" t] by (simp add: unat_TO_HIGH_HALF ul_def)
  have 2: "dval (fst ?s, snd ?s - HIGH_HALF u) = dval t - ul - 2 ^ 32 * uh"
    using assms(1) e 1 dval_sub_high [of "HIGH_HALF u" ?s] by (simp add: unat_HIGH_HALF uh_def)
  show ?thesis
    using assms(1) e 2 dval_sub_high [of v "(fst ?s, snd ?s - HIGH_HALF u)"] by simp
qed

lemma sub_low_product:
  assumes "a * unat c \<le> dval t" "a = unat (aL::u16)" "u = ucast aL * LOW_HALF c" "v = ucast aL * HIGH_HALF c"
    "s = sub_low (TO_HIGH_HALF v) (sub_low u t)"
  shows "dval (fst s, snd s - HIGH_HALF v) = dval t - a * unat c"
proof -
  have u: "unat u = a * unat (LOW_HALF c)" and v: "unat v = a * unat (HIGH_HALF c)"
    unfolding assms(2-4) by (simp_all add: unat_half_mult halves(1,2) [simplified] unat_half_less [simplified])
  define vl vh where "vl = unat v mod 2 ^ 16 * 2 ^ 16" and "vh = unat v div 2 ^ 16"
  have "unat v * 2 ^ 16 = 2 ^ 32 * vh + vl" unfolding vl_def vh_def by (rule shift_split)
  then have e: "a * unat c = unat u + vl + 2 ^ 32 * vh"
    unfolding u v halves(3) [of c] by (simp add: algebra_simps)
  have 1: "dval (sub_low u t) = dval t - unat u"
    using assms(1) e dval_sub_low [of u t] by simp
  have 2: "dval s = dval t - unat u - vl"
    using assms(1,5) e 1 dval_sub_low [of "TO_HIGH_HALF v" "sub_low u t"] by (simp add: unat_TO_HIGH_HALF vl_def)
  show ?thesis
    using assms(1) e 2 dval_sub_high [of "HIGH_HALF v" s] by (simp add: unat_HIGH_HALF vh_def)
qed

text \<open>The estimate of a half digit of the quotient, both ways the routine computes it.\<close>

lemma half_estimate:
  assumes "unat x < 2 ^ 16 * (unat (HIGH_HALF c) + 1)"
    "e = (if (ucast (HIGH_HALF c) :: u16) = MAX_NN_HALF_DIGIT then ucast (y :: u32)
          else ucast (x div (HIGH_HALF c + 1)) :: u16)"
    "unat (HIGH_HALF c) = 2 ^ 16 - 1 \<Longrightarrow> unat y = unat x div 2 ^ 16"
  shows "unat e = unat x div (unat (HIGH_HALF c) + 1)"
proof -
  have h: "unat (HIGH_HALF c) < 2 ^ 16" by (rule halves(1))
  have q: "unat x div (unat (HIGH_HALF c) + 1) < 2 ^ 16" using assms(1) by (simp add: less_mult_imp_div_less)
  have low: "unat (ucast w :: u16) = unat w" if "unat w < 2 ^ 16" for w :: u32
    using that by (simp add: unsigned_ucast_eq take_bit_nat_eq_self)
  have max: "((ucast (HIGH_HALF c) :: u16) = MAX_NN_HALF_DIGIT) = (unat (HIGH_HALF c) = 2 ^ 16 - 1)"
    using low [OF h] by (simp add: word_unat_eq_iff)
  show ?thesis
  proof (cases "unat (HIGH_HALF c) = 2 ^ 16 - 1")
    case True
    then have "e = ucast y" using assms(2) max by simp
    then show ?thesis using low [of y] assms(3) [OF True] q True by simp
  next
    case False
    have "unat (HIGH_HALF c + 1) = unat (HIGH_HALF c) + 1" using h by (simp add: unat_sum)
    then have d: "unat (x div (HIGH_HALF c + 1)) = unat x div (unat (HIGH_HALF c) + 1)" by (simp add: unat_div)
    then show ?thesis using False max assms(2) low [of "x div (HIGH_HALF c + 1)"] q by simp
  qed
qed

text \<open>
  The divisor of the comment: larger than the high digit, with a nonzero high half.  The
  loops then return, and the result is the quotient.
\<close>

lemma NN_DigitDiv_value:
  assumes "snd b < c" "0 < HIGH_HALF c"
  shows "NN_DigitDiv b c = Some (of_nat (dval b div unat c))"
proof -
  define C cH cL where "C = unat c" and "cH = unat (HIGH_HALF c)" and "cL = unat (LOW_HALF c)"
  have c: "C = cH * 2 ^ 16 + cL" "cL < 2 ^ 16" "cH < 2 ^ 16" "0 < cH"
    using halves [of c] assms(2) by (simp_all add: C_def cH_def cL_def word_less_nat_alt)
  have C: "0 < C" "C < 2 ^ 16 * (cH + 1)" using c by simp_all
  have T: "dval b < 2 ^ 32 * C"
  proof -
    have "dval b < 2 ^ 32 * (unat (snd b) + 1)" by (rule dval_less)
    also have "\<dots> \<le> 2 ^ 32 * C" using assms(1) by (intro mult_le_mono) (simp_all add: word_less_nat_alt C_def)
    finally show ?thesis .
  qed
  have hc: "unat (ucast (HIGH_HALF c) :: u16) = cH" "unat (ucast (LOW_HALF c) :: u16) = cL"
    using c by (simp_all add: unsigned_ucast_eq cH_def [symmetric] cL_def [symmetric] take_bit_nat_eq_self)
  then have hw: "(ucast (ucast (HIGH_HALF c) :: u16) :: u32) = HIGH_HALF c" "(ucast (ucast (LOW_HALF c) :: u16) :: u32) = LOW_HALF c"
    by (simp_all add: word_unat_eq_iff cH_def cL_def)
  define aH where "aH = (if (ucast (HIGH_HALF c) :: u16) = MAX_NN_HALF_DIGIT then ucast (HIGH_HALF (snd b))
      else ucast (snd b div (HIGH_HALF c + 1)) :: u16)"
  have aH: "unat aH = unat (snd b) div (cH + 1)"
    using assms(1) C unfolding cH_def
    by (intro half_estimate [OF _ aH_def]) (simp_all add: word_less_nat_alt C_def cH_def unat_HIGH_HALF)
  have aHle: "unat aH * (2 ^ 16 * C) \<le> dval b"
  proof -
    have "unat aH * (2 ^ 16 * C) \<le> unat aH * (2 ^ 16 * (2 ^ 16 * (cH + 1)))" using C by (intro mult_le_mono) simp_all
    also have "\<dots> = 2 ^ 32 * (unat (snd b) div (cH + 1) * (cH + 1))" by (simp add: aH algebra_simps)
    also have "\<dots> \<le> 2 ^ 32 * unat (snd b)" by (intro mult_le_mono2 div_times_less_eq_dividend)
    also have "\<dots> \<le> dval b" by (simp add: dval_def)
    finally show ?thesis .
  qed
  define u v where "u = ucast aH * LOW_HALF c" and "v = ucast aH * HIGH_HALF c"
  define t1 where "t1 = (fst (sub_low (TO_HIGH_HALF u) b), snd (sub_low (TO_HIGH_HALF u) b) - HIGH_HALF u - v)"
  have t1: "dval t1 = dval b - unat aH * (2 ^ 16 * C)"
    unfolding t1_def C_def by (rule sub_high_product [OF _ refl u_def v_def]) (use aHle C_def in simp)
  obtain t2 where hi: "div_correct_high (ucast (HIGH_HALF c)) (ucast (LOW_HALF c)) t1 aH =
      Some (t2, aH + of_nat (dval t1 div (2 ^ 16 * C)))" "dval t2 = dval t1 mod (2 ^ 16 * C)"
    using div_correct_high_result [of "2 ^ 16 * C" "ucast (HIGH_HALF c)" "ucast (LOW_HALF c)" t1 aH] hc c(1) C(1)
    by (auto simp: algebra_simps)
  define qH where "qH = dval b div (2 ^ 16 * C)"
  have split: "dval b = dval t1 + unat aH * (2 ^ 16 * C)" using t1 aHle by simp
  have t2: "dval t2 = dval b mod (2 ^ 16 * C)" unfolding hi(2) split by simp
  have qH: "qH = dval t1 div (2 ^ 16 * C) + unat aH" unfolding qH_def split using C(1) by simp
  have qHb: "qH < 2 ^ 16" unfolding qH_def using T by (intro less_mult_imp_div_less) simp
  have aH': "aH + of_nat (dval t1 div (2 ^ 16 * C)) = of_nat qH" unfolding qH by simp
  have t2b: "dval t2 < 2 ^ 16 * C" unfolding t2 using C(1) by simp
  have s2: "unat (snd t2) \<le> cH"
  proof -
    have "2 ^ 32 * unat (snd t2) \<le> dval t2" by (simp add: dval_def)
    also have "\<dots> < 2 ^ 32 * (cH + 1)" using t2b C by simp
    finally show ?thesis by simp
  qed
  define x where "x = TO_HIGH_HALF (snd t2) + HIGH_HALF (fst t2)"
  have x: "unat x = dval t2 div 2 ^ 16"
  proof -
    have "unat (snd t2) < 2 ^ 16" using s2 c(3) by simp
    then have "unat x = unat (snd t2) * 2 ^ 16 + unat (fst t2) div 2 ^ 16"
      using halves(1) [of "fst t2"] by (simp add: x_def unat_sum unat_TO_HIGH_HALF unat_HIGH_HALF)
    also have "\<dots> = dval t2 div 2 ^ 16" by (simp add: dval_def)
    finally show ?thesis .
  qed
  define aL where "aL = (if (ucast (HIGH_HALF c) :: u16) = MAX_NN_HALF_DIGIT then ucast (LOW_HALF (snd t2))
      else ucast (x div (HIGH_HALF c + 1)) :: u16)"
  have xC: "unat x < C" unfolding x using t2b by (intro less_mult_imp_div_less) (simp add: mult.commute)
  have aL: "unat aL = unat x div (cH + 1)"
    unfolding cH_def
  proof (rule half_estimate [OF _ aL_def])
    show "unat x < 2 ^ 16 * (unat (HIGH_HALF c) + 1)" using xC C(2) cH_def by simp
    show "unat (LOW_HALF (snd t2)) = unat x div 2 ^ 16" 
      using s2 c(3) unat_digit_less [of "fst t2"] by (simp add: unat_LOW_HALF x dval_def flip: div_mult2_eq)
  qed
  have aLle: "unat aL * C \<le> dval t2"
  proof -
    have "unat aL * C \<le> unat aL * (2 ^ 16 * (cH + 1))" using C by (intro mult_le_mono) simp_all
    also have "\<dots> = 2 ^ 16 * (unat x div (cH + 1) * (cH + 1))" by (simp add: aL algebra_simps)
    also have "\<dots> \<le> 2 ^ 16 * unat x" by (intro mult_le_mono2 div_times_less_eq_dividend)
    also have "\<dots> \<le> dval t2" by (simp add: x)
    finally show ?thesis .
  qed
  define u' v' where "u' = ucast aL * LOW_HALF c" and "v' = ucast aL * HIGH_HALF c"
  define s3 where "s3 = sub_low (TO_HIGH_HALF v') (sub_low u' t2)"
  define t3 where "t3 = (fst s3, snd s3 - HIGH_HALF v')"
  have t3: "dval t3 = dval t2 - unat aL * C"
    unfolding t3_def C_def by (rule sub_low_product [OF _ refl u'_def v'_def s3_def]) (use aLle C_def in simp)
  have "0 < c" using C(1) by (simp add: C_def word_less_nat_alt)
  then obtain t4 where lo: "div_correct_low c t3 aL = Some (t4, aL + of_nat (dval t3 div C))"
    using div_correct_low_result [of c t3 aL] C_def by auto
  define qL where "qL = dval t2 div C"
  have split2: "dval t2 = dval t3 + unat aL * C" using t3 aLle by simp
  have qL: "qL = dval t3 div C + unat aL" unfolding qL_def split2 using C(1) by simp
  have qLb: "qL < 2 ^ 16" unfolding qL_def using t2b by (intro less_mult_imp_div_less) simp
  have aL': "aL + of_nat (dval t3 div C) = of_nat qL" unfolding qL by simp
  have q: "dval b div C = qH * 2 ^ 16 + qL"
  proof -
    have "dval b = qH * (2 ^ 16 * C) + dval t2" unfolding qH_def t2 by (rule div_mult_mod_eq [symmetric])
    then have "dval b = qH * 2 ^ 16 * C + dval t2" by (simp only: mult.assoc)
    then show ?thesis unfolding qL_def using C(1) by simp
  qed
  have "NN_DigitDiv b c = Some (TO_HIGH_HALF (ucast (of_nat qH :: u16)) + ucast (of_nat qL :: u16))"
    unfolding NN_DigitDiv_def Let_def hw aH_def [symmetric] u_def [symmetric] v_def [symmetric] fst_conv snd_conv
      t1_def [symmetric] hi(1) aH' bind.bind_lunit case_prod_conv x_def [symmetric] aL_def [symmetric]
      u'_def [symmetric] v'_def [symmetric] s3_def [symmetric] t3_def [symmetric] lo aL' by simp
  moreover have "TO_HIGH_HALF (ucast (of_nat qH :: u16)) + ucast (of_nat qL :: u16) = of_nat (qH * 2 ^ 16 + qL)"
  proof -
    have "unat (TO_HIGH_HALF (ucast (of_nat qH :: u16)) + ucast (of_nat qL :: u16)) = qH * 2 ^ 16 + qL"
      using qHb qLb by (simp add: unat_sum unat_of_nat take_bit_nat_eq_self)
    then show ?thesis by (rule word_eq_of_nat)
  qed
  ultimately show ?thesis using q C_def by simp
qed

text \<open>
  The product of two digits computed on halves is the double-digit product, with no
  carry lost.
\<close>

theorem NN_DigitMult_correct: "dval (NN_DigitMult b c) = unat b * unat c"
  by (rule NN_DigitMult_value)

text \<open>
  The division of two digits by one, on halves, returns the quotient whenever it fits
  in a digit and the divisor has a high half.
\<close>

theorem NN_DigitDiv_correct:
  assumes "snd b < c" "0 < HIGH_HALF c"
  shows "\<exists>a. NN_DigitDiv b c = Some a \<and> unat a = dval b div unat c"
proof -
  have "dval b < 2 ^ 32 * (unat (snd b) + 1)" by (rule dval_less)
  also have "\<dots> \<le> 2 ^ 32 * unat c" using assms(1) by (intro mult_le_mono2) (simp add: word_less_nat_alt)
  finally have "dval b div unat c < 2 ^ 32" by (intro less_mult_imp_div_less) simp
  then show ?thesis using NN_DigitDiv_value [OF assms] by (simp add: unat_of_nat take_bit_nat_eq_self)
qed

end
