(* ===== verification/Nn.thy ===== *)
theory Nn
  imports Digit
begin

section \<open>Natural numbers as digit arrays (nn.c)\<close>

text \<open>
  An array of \<open>digits\<close> digits is a list of that length, so the parameter \<open>digits\<close> of the
  routines is the length of the lists; a caller that passes part of an array passes
  \<open>take\<close> of it.  Every routine reads an element before it writes the same one, so the
  results do not depend on whether the output is also an input.  Loops with a carry are
  recursions along the lists; loops from the most significant end run over the reversed
  list.  The theorems give each routine its value on numbers, \<open>nn_val\<close>.
\<close>

subsection \<open>Conversion to and from byte strings\<close>

text \<open>The bytes are read from the end of the string: \<open>bs\<close> is what is left of it, reversed.\<close>

fun decode_digit :: "nat \<Rightarrow> NN_DIGIT \<Rightarrow> bytes \<Rightarrow> NN_DIGIT \<times> bytes" where
  "decode_digit u t [] = (t, [])"
| "decode_digit u t (x # bs) =
     (if u < NN_DIGIT_BITS then decode_digit (u + 8) (t OR push_bit u (ucast x)) bs else (t, x # bs))"

fun decode_digits :: "nat \<Rightarrow> bytes \<Rightarrow> NN_DIGIT list" where
  "decode_digits 0 bs = []"
| "decode_digits (Suc n) bs =
     (if bs = [] then 0 # decode_digits n []
      else let (t, rest) = decode_digit 0 0 bs in t # decode_digits n rest)"

definition NN_Decode :: "nat \<Rightarrow> bytes \<Rightarrow> NN_DIGIT list" where
  "NN_Decode digits b = decode_digits digits (rev b)"

text \<open>The bytes are written from the end of the string: \<open>n\<close> are still to be written.\<close>

function encode_digit :: "nat \<Rightarrow> nat \<Rightarrow> NN_DIGIT \<Rightarrow> bytes" where
  "encode_digit n u t =
     (if 0 < n \<and> u < NN_DIGIT_BITS then ucast (drop_bit u t) # encode_digit (n - 1) (u + 8) t else [])"
  by pat_completeness auto
termination by (relation "measure (\<lambda>(n, u, t). n)") auto

declare encode_digit.simps [simp del]

fun encode_digits :: "nat \<Rightarrow> NN_DIGIT list \<Rightarrow> bytes" where
  "encode_digits n [] = replicate n 0"
| "encode_digits n (d # ds) = (let e = encode_digit n 0 d in e @ encode_digits (n - length e) ds)"

definition NN_Encode :: "nat \<Rightarrow> NN_DIGIT list \<Rightarrow> bytes" where
  "NN_Encode len b = rev (encode_digits len b)"

subsection \<open>Assignment\<close>

definition NN_Assign :: "NN_DIGIT list \<Rightarrow> nat \<Rightarrow> NN_DIGIT list" where
  "NN_Assign b digits = take digits b"

definition NN_AssignZero :: "nat \<Rightarrow> NN_DIGIT list" where
  "NN_AssignZero digits = replicate digits 0"

definition NN_Assign2Exp :: "nat \<Rightarrow> nat \<Rightarrow> NN_DIGIT list" where
  "NN_Assign2Exp b digits =
     (if b \<ge> digits * NN_DIGIT_BITS then NN_AssignZero digits
      else (NN_AssignZero digits)[b div NN_DIGIT_BITS := push_bit (b mod NN_DIGIT_BITS) 1])"

definition NN_ASSIGN_DIGIT :: "NN_DIGIT \<Rightarrow> nat \<Rightarrow> NN_DIGIT list" where
  "NN_ASSIGN_DIGIT b digits = (NN_AssignZero digits)[0 := b]"

subsection \<open>Addition and subtraction\<close>

fun add_loop :: "NN_DIGIT \<Rightarrow> NN_DIGIT list \<Rightarrow> NN_DIGIT list \<Rightarrow> NN_DIGIT list \<times> NN_DIGIT" where
  "add_loop carry (b # bs) (c # cs) =
     (let ai = b + carry in
      if ai < carry then (let (as, k) = add_loop carry bs cs in (c # as, k))
      else let ai = ai + c; (as, k) = add_loop (if ai < c then 1 else 0) bs cs in (ai # as, k))"
| "add_loop carry _ _ = ([], carry)"

definition NN_Add :: "NN_DIGIT list \<Rightarrow> NN_DIGIT list \<Rightarrow> NN_DIGIT list \<times> NN_DIGIT" where
  "NN_Add b c = add_loop 0 b c"

fun sub_loop :: "NN_DIGIT \<Rightarrow> NN_DIGIT list \<Rightarrow> NN_DIGIT list \<Rightarrow> NN_DIGIT list \<times> NN_DIGIT" where
  "sub_loop borrow (b # bs) (c # cs) =
     (let ai = b - borrow in
      if ai > MAX_NN_DIGIT - borrow
      then (let (as, k) = sub_loop borrow bs cs in ((MAX_NN_DIGIT - c) # as, k))
      else let ai = ai - c; (as, k) = sub_loop (if ai > MAX_NN_DIGIT - c then 1 else 0) bs cs in (ai # as, k))"
| "sub_loop borrow _ _ = ([], borrow)"

definition NN_Sub :: "NN_DIGIT list \<Rightarrow> NN_DIGIT list \<Rightarrow> NN_DIGIT list \<times> NN_DIGIT" where
  "NN_Sub b c = sub_loop 0 b c"

text \<open>
  \<open>a = b + c * d\<close> and \<open>a = b - c * d\<close> for a digit \<open>c\<close>.  Both callers pass the same array
  for \<open>a\<close> and \<open>b\<close>, so the return without writing, for \<open>c = 0\<close>, leaves \<open>b\<close>.
\<close>

fun add_digit_mult_loop ::
  "NN_DIGIT \<Rightarrow> NN_DIGIT \<Rightarrow> NN_DIGIT list \<Rightarrow> NN_DIGIT list \<Rightarrow> NN_DIGIT list \<times> NN_DIGIT" where
  "add_digit_mult_loop carry c (b # bs) (d # ds) =
     (let t = NN_DigitMult c d;
          a = b + carry;
          carry = (if a < carry then 1 else 0);
          a = a + fst t;
          carry = (if a < fst t then carry + 1 else carry);
          carry = carry + snd t;
          (as, k) = add_digit_mult_loop carry c bs ds
      in (a # as, k))"
| "add_digit_mult_loop carry c _ _ = ([], carry)"

definition NN_AddDigitMult ::
  "NN_DIGIT list \<Rightarrow> NN_DIGIT \<Rightarrow> NN_DIGIT list \<Rightarrow> NN_DIGIT list \<times> NN_DIGIT" where
  "NN_AddDigitMult b c d = (if c = 0 then (b, 0) else add_digit_mult_loop 0 c b d)"

fun sub_digit_mult_loop ::
  "NN_DIGIT \<Rightarrow> NN_DIGIT \<Rightarrow> NN_DIGIT list \<Rightarrow> NN_DIGIT list \<Rightarrow> NN_DIGIT list \<times> NN_DIGIT" where
  "sub_digit_mult_loop borrow c (b # bs) (d # ds) =
     (let t = NN_DigitMult c d;
          a = b - borrow;
          borrow = (if a > MAX_NN_DIGIT - borrow then 1 else 0);
          a = a - fst t;
          borrow = (if a > MAX_NN_DIGIT - fst t then borrow + 1 else borrow);
          borrow = borrow + snd t;
          (as, k) = sub_digit_mult_loop borrow c bs ds
      in (a # as, k))"
| "sub_digit_mult_loop borrow c _ _ = ([], borrow)"

definition NN_SubDigitMult ::
  "NN_DIGIT list \<Rightarrow> NN_DIGIT \<Rightarrow> NN_DIGIT list \<Rightarrow> NN_DIGIT list \<times> NN_DIGIT" where
  "NN_SubDigitMult b c d = (if c = 0 then (b, 0) else sub_digit_mult_loop 0 c b d)"

subsection \<open>Comparison and length\<close>

fun cmp_scan :: "NN_DIGIT list \<Rightarrow> NN_DIGIT list \<Rightarrow> int" where
  "cmp_scan (a # as) (b # bs) = (if a > b then 1 else if a < b then - 1 else cmp_scan as bs)"
| "cmp_scan _ _ = 0"

definition NN_Cmp :: "NN_DIGIT list \<Rightarrow> NN_DIGIT list \<Rightarrow> int" where
  "NN_Cmp a b = cmp_scan (rev a) (rev b)"

definition NN_EQUAL :: "NN_DIGIT list \<Rightarrow> NN_DIGIT list \<Rightarrow> bool" where
  "NN_EQUAL a b \<longleftrightarrow> NN_Cmp a b = 0"

definition NN_EVEN :: "NN_DIGIT list \<Rightarrow> bool" where
  "NN_EVEN a \<longleftrightarrow> length a = 0 \<or> a ! 0 AND 1 = 0"

fun NN_Zero :: "NN_DIGIT list \<Rightarrow> bool" where
  "NN_Zero [] = True"
| "NN_Zero (a # as) = (if a \<noteq> 0 then False else NN_Zero as)"

fun digits_scan :: "NN_DIGIT list \<Rightarrow> nat" where
  "digits_scan [] = 0"
| "digits_scan (a # as) = (if a \<noteq> 0 then Suc (length as) else digits_scan as)"

definition NN_Digits :: "NN_DIGIT list \<Rightarrow> nat" where
  "NN_Digits a = digits_scan (rev a)"

fun digit_bits_loop :: "nat \<Rightarrow> NN_DIGIT \<Rightarrow> nat" where
  "digit_bits_loop 0 a = 0"
| "digit_bits_loop (Suc n) a = (if a = 0 then 0 else Suc (digit_bits_loop n (drop_bit 1 a)))"

definition NN_DigitBits :: "NN_DIGIT \<Rightarrow> nat" where
  "NN_DigitBits a = digit_bits_loop NN_DIGIT_BITS a"

definition NN_Bits :: "NN_DIGIT list \<Rightarrow> nat" where
  "NN_Bits a = (let digits = NN_Digits a
     in if digits = 0 then 0 else (digits - 1) * NN_DIGIT_BITS + NN_DigitBits (a ! (digits - 1)))"

subsection \<open>Shifts\<close>

text \<open>A shift by a digit's width or more returns before it writes its output, here \<open>a0\<close>.\<close>

fun lshift_loop :: "NN_DIGIT \<Rightarrow> nat \<Rightarrow> NN_DIGIT list \<Rightarrow> NN_DIGIT list \<times> NN_DIGIT" where
  "lshift_loop carry c [] = ([], carry)"
| "lshift_loop carry c (b # bs) =
     (let (as, k) = lshift_loop (if c \<noteq> 0 then drop_bit (NN_DIGIT_BITS - c) b else 0) c bs
      in ((push_bit c b OR carry) # as, k))"

definition NN_LShift :: "NN_DIGIT list \<Rightarrow> NN_DIGIT list \<Rightarrow> nat \<Rightarrow> NN_DIGIT list \<times> NN_DIGIT" where
  "NN_LShift a0 b c = (if c \<ge> NN_DIGIT_BITS then (a0, 0) else lshift_loop 0 c b)"

fun rshift_loop :: "NN_DIGIT \<Rightarrow> nat \<Rightarrow> NN_DIGIT list \<Rightarrow> NN_DIGIT list \<times> NN_DIGIT" where
  "rshift_loop carry c [] = ([], carry)"
| "rshift_loop carry c (b # bs) =
     (let (as, k) = rshift_loop (if c \<noteq> 0 then push_bit (NN_DIGIT_BITS - c) b else 0) c bs
      in ((drop_bit c b OR carry) # as, k))"

definition NN_RShift :: "NN_DIGIT list \<Rightarrow> NN_DIGIT list \<Rightarrow> nat \<Rightarrow> NN_DIGIT list \<times> NN_DIGIT" where
  "NN_RShift a0 b c =
     (if c \<ge> NN_DIGIT_BITS then (a0, 0)
      else case rshift_loop 0 c (rev b) of (as, k) \<Rightarrow> (rev as, k))"

subsection \<open>Multiplication\<close>

text \<open>One row: \<open>t[i..] += b[i] * c\<close>, with the carry added to the digit above.\<close>

definition mult_row :: "nat \<Rightarrow> NN_DIGIT \<Rightarrow> NN_DIGIT list \<Rightarrow> NN_DIGIT list \<Rightarrow> NN_DIGIT list" where
  "mult_row i bi c t =
     (let (seg, carry) = NN_AddDigitMult (take (length c) (drop i t)) bi c;
          t = take i t @ seg @ drop (i + length c) t
      in t[i + length c := t ! (i + length c) + carry])"

fun mult_loop :: "nat \<Rightarrow> NN_DIGIT list \<Rightarrow> NN_DIGIT list \<Rightarrow> NN_DIGIT list \<Rightarrow> NN_DIGIT list" where
  "mult_loop i [] c t = t"
| "mult_loop i (b # bs) c t = mult_loop (Suc i) bs c (mult_row i b c t)"

definition NN_Mult :: "NN_DIGIT list \<Rightarrow> NN_DIGIT list \<Rightarrow> NN_DIGIT list" where
  "NN_Mult b c =
     mult_loop 0 (take (NN_Digits b) b) (take (NN_Digits c) c) (NN_AssignZero (2 * length b))"


subsection \<open>The value of sums and differences\<close>

lemma carry_digit: "unat (x + c :: u32) + 2 ^ 32 * unat (if x + c < c then 1 else 0 :: u32) = unat x + unat c"
  unfolding carry_iff unat_sum by (cases "2 ^ 32 \<le> unat x + unat c") auto

lemma borrow_digit: "unat (x - c :: u32) + unat c = unat x + 2 ^ 32 * unat (if x - c > MAX_NN_DIGIT - c then 1 else 0 :: u32)"
  using unat_digit_less [of c] unfolding borrow_iff unat_diff by (cases "unat x < unat c") auto

lemma carry_step:
  fixes x v :: nat
  assumes "x + 2 ^ 32 * k' = s" "v + y = r + k'"
  shows "x + 2 ^ 32 * v + 2 ^ 32 * y = s + 2 ^ 32 * r"
  using arg_cong [OF assms(2), of "\<lambda>z. 2 ^ 32 * z"] assms(1) by (simp add: distrib_left)

lemma borrow_step:
  fixes x v :: nat
  assumes "x + c + p = b + 2 ^ 32 * k'" "v + w + k' = r + y"
  shows "x + 2 ^ 32 * v + (c + 2 ^ 32 * w) + p = b + 2 ^ 32 * r + 2 ^ 32 * y"
  using arg_cong [OF assms(2), of "\<lambda>z. 2 ^ 32 * z"] assms(1) by (simp add: distrib_left)

lemma pow_Suc_digit: "2 ^ (32 * Suc n) * (k::nat) = 2 ^ 32 * (2 ^ (32 * n) * k)"
  by (simp add: power_add)

lemma add_loop_value:
  "length bs = length cs \<Longrightarrow> unat carry \<le> 1 \<Longrightarrow> add_loop carry bs cs = (as, k) \<Longrightarrow>
     length as = length bs \<and> unat k \<le> 1 \<and> nn_val as + 2 ^ (32 * length bs) * unat k = nn_val bs + nn_val cs + unat carry"
proof (induction carry bs cs arbitrary: as k rule: add_loop.induct)
  case (1 carry b bs c cs)
  show ?case
  proof (cases "b + carry < carry")
    case True
    then obtain as' where r: "add_loop carry bs cs = (as', k)" "as = c # as'"
      using 1(5) by (auto simp: Let_def split: prod.splits)
    have "2 ^ 32 \<le> unat b + unat carry" using True by (simp add: carry_iff)
    then have b: "unat b + unat carry = 2 ^ 32" "unat carry = 1" using 1(4) unat_digit_less [of b] by simp_all
    have ih: "length as' = length bs \<and> unat k \<le> 1 \<and>
        nn_val as' + 2 ^ (32 * length bs) * unat k = nn_val bs + nn_val cs + unat carry"
      using 1(1) [OF refl True _ 1(4) r(1)] 1(3) by auto
    have "unat c + 2 ^ 32 * unat carry = unat b + unat c + unat carry" using b by simp
    from carry_step [OF this, of "nn_val as'" _ "nn_val bs + nn_val cs"] ih r(2)
    show ?thesis by (simp add: pow_Suc_digit del: mult_Suc_right)
  next
    case False
    define carry' where "carry' = (if b + carry + c < c then 1 else 0 :: u32)"
    obtain as' where r: "add_loop carry' bs cs = (as', k)" "as = (b + carry + c) # as'"
      using 1(5) False by (auto simp: Let_def carry'_def split: prod.splits)
    have s: "unat (b + carry) = unat b + unat carry" using False by (simp add: carry_iff unat_sum)
    have e: "unat (b + carry + c) + 2 ^ 32 * unat carry' = unat b + unat c + unat carry"
      using carry_digit [of "b + carry" c] s unfolding carry'_def by simp
    have "length as' = length bs \<and> unat k \<le> 1 \<and>
        nn_val as' + 2 ^ (32 * length bs) * unat k = nn_val bs + nn_val cs + unat carry'"
      using 1(2) [OF refl False refl, folded carry'_def, OF _ _ r(1)] 1(3) unfolding carry'_def by simp
    with carry_step [OF e, of "nn_val as'" _ "nn_val bs + nn_val cs"] r(2)
    show ?thesis by (simp add: pow_Suc_digit del: mult_Suc_right)
  qed
qed simp_all

lemma NN_Add_value:
  assumes "length b = length c" "NN_Add b c = (a, k)"
  shows "length a = length b" "unat k \<le> 1" "nn_val a + 2 ^ (32 * length b) * unat k = nn_val b + nn_val c"
  using add_loop_value [of b c 0 a k] assms by (simp_all add: NN_Add_def)

lemma sub_loop_value:
  "length bs = length cs \<Longrightarrow> unat borrow \<le> 1 \<Longrightarrow> sub_loop borrow bs cs = (as, k) \<Longrightarrow>
     length as = length bs \<and> unat k \<le> 1 \<and> nn_val as + nn_val cs + unat borrow = nn_val bs + 2 ^ (32 * length bs) * unat k"
proof (induction borrow bs cs arbitrary: as k rule: sub_loop.induct)
  case (1 borrow b bs c cs)
  show ?case
  proof (cases "b - borrow > MAX_NN_DIGIT - borrow")
    case True
    then obtain as' where r: "sub_loop borrow bs cs = (as', k)" "as = (MAX_NN_DIGIT - c) # as'"
      using 1(5) by (auto simp: Let_def split: prod.splits)
    have "unat b < unat borrow" using True unfolding borrow_iff .
    then have b: "unat b = 0" "unat borrow = 1" using 1(4) by simp_all
    have "unat (MAX_NN_DIGIT - c) + unat c = 2 ^ 32 - 1" using unat_digit_less [of c] by (simp add: unat_diff)
    then have e: "unat (MAX_NN_DIGIT - c) + unat c + unat borrow = unat b + 2 ^ 32 * unat borrow" using b by simp
    have ih: "length as' = length bs \<and> unat k \<le> 1 \<and>
        nn_val as' + nn_val cs + unat borrow = nn_val bs + 2 ^ (32 * length bs) * unat k"
      using 1(1) [OF refl True _ 1(4) r(1)] 1(3) by auto
    with borrow_step [OF e, of "nn_val as'" "nn_val cs" "nn_val bs"] r(2)
    show ?thesis by (simp add: pow_Suc_digit del: mult_Suc_right)
  next
    case False
    define borrow' where "borrow' = (if b - borrow - c > MAX_NN_DIGIT - c then 1 else 0 :: u32)"
    obtain as' where r: "sub_loop borrow' bs cs = (as', k)" "as = (b - borrow - c) # as'"
      using 1(5) False by (auto simp: Let_def borrow'_def split: prod.splits)
    have nb: "\<not> unat b < unat borrow" using False unfolding borrow_iff .
    then have s: "unat (b - borrow) + unat borrow = unat b" by (simp add: unat_diff)
    have e: "unat (b - borrow - c) + unat c + unat borrow = unat b + 2 ^ 32 * unat borrow'"
      using borrow_digit [of "b - borrow" c] s unfolding borrow'_def by simp
    have "length as' = length bs \<and> unat k \<le> 1 \<and>
        nn_val as' + nn_val cs + unat borrow' = nn_val bs + 2 ^ (32 * length bs) * unat k"
      using 1(2) [OF refl False refl, folded borrow'_def, OF _ _ r(1)] 1(3) unfolding borrow'_def by simp
    with borrow_step [OF e, of "nn_val as'" "nn_val cs" "nn_val bs"] r(2)
    show ?thesis by (simp add: pow_Suc_digit del: mult_Suc_right)
  qed
qed simp_all

lemma NN_Sub_value:
  assumes "length b = length c" "NN_Sub b c = (a, k)"
  shows "length a = length b" "unat k \<le> 1" "nn_val a + nn_val c = nn_val b + 2 ^ (32 * length b) * unat k"
  using sub_loop_value [of b c 0 a k] assms by (simp_all add: NN_Sub_def)

lemma NN_Sub_no_borrow:
  assumes "length b = length c" "nn_val c \<le> nn_val b"
  shows "snd (NN_Sub b c) = 0" "length (fst (NN_Sub b c)) = length b" "nn_val (fst (NN_Sub b c)) = nn_val b - nn_val c"
proof -
  obtain a k where r: "NN_Sub b c = (a, k)" by force
  note v = NN_Sub_value [OF assms(1) r]
  have "nn_val a < 2 ^ (32 * length b)" using nn_val_bound [of a] v(1) by simp
  then have "2 ^ (32 * length b) * unat k < 2 ^ (32 * length b) * 1" using v(3) assms(2) by linarith
  then have "k = 0" by (simp add: unat_eq_0)
  then show "snd (NN_Sub b c) = 0" "length (fst (NN_Sub b c)) = length b" "nn_val (fst (NN_Sub b c)) = nn_val b - nn_val c"
    using v r by simp_all
qed

subsection \<open>Rows of a product\<close>

lemma unat_incr_if: "unat x \<le> 1 \<Longrightarrow> unat (if P then x + 1 else x :: u32) = unat x + unat (if P then 1 else 0 :: u32)"
  by (simp add: unat_sum)

lemma digit_product_bound: "unat (c::u32) * unat (d::u32) + 2 ^ 32 * 2 \<le> 2 ^ 32 * 2 ^ 32 + 1"
proof -
  have "unat c * unat d \<le> (2 ^ 32 - 1) * (2 ^ 32 - 1)"
    using unat_digit_less [of c] unat_digit_less [of d] by (intro mult_le_mono) auto
  then show ?thesis by simp
qed

text \<open>One digit of a row: the carries never overflow.\<close>

lemma add_row_digit:
  fixes b carry c d :: u32
  assumes "t = NN_DigitMult c d" "k1 = (if b + carry < carry then 1 else 0 :: u32)"
    "k2 = (if b + carry + fst t < fst t then k1 + 1 else k1)"
  shows "unat (b + carry + fst t) + 2 ^ 32 * unat (k2 + snd t) = unat b + unat c * unat d + unat carry"
proof -
  define j where "j = (if b + carry + fst t < fst t then 1 else 0 :: u32)"
  have k1: "unat k1 \<le> 1" by (simp add: assms(2))
  have k2: "unat k2 = unat k1 + unat j" unfolding assms(3) j_def by (rule unat_incr_if [OF k1])
  have p: "unat (fst t) + 2 ^ 32 * unat (snd t) = unat c * unat d"
    using NN_DigitMult_value [of c d] by (simp add: assms(1) dval_def)
  have 1: "unat (b + carry) + 2 ^ 32 * unat k1 = unat b + unat carry" unfolding assms(2) by (rule carry_digit)
  have 2: "unat (b + carry + fst t) + 2 ^ 32 * unat j = unat (b + carry) + unat (fst t)" unfolding j_def by (rule carry_digit)
  have e: "unat (b + carry + fst t) + 2 ^ 32 * (unat k2 + unat (snd t)) = unat b + unat c * unat d + unat carry"
    using 1 2 p k2 by (simp add: distrib_left)
  then have "2 ^ 32 * (unat k2 + unat (snd t)) < 2 ^ 32 * 2 ^ 32"
    using digit_product_bound [of c d] unat_digit_less [of b] unat_digit_less [of carry] by linarith
  then have "unat (k2 + snd t) = unat k2 + unat (snd t)" by (simp add: unat_sum)
  with e show ?thesis by simp
qed

lemma sub_row_digit:
  fixes b borrow c d :: u32
  assumes "t = NN_DigitMult c d" "k1 = (if b - borrow > MAX_NN_DIGIT - borrow then 1 else 0 :: u32)"
    "k2 = (if b - borrow - fst t > MAX_NN_DIGIT - fst t then k1 + 1 else k1)"
  shows "unat (b - borrow - fst t) + unat c * unat d + unat borrow = unat b + 2 ^ 32 * unat (k2 + snd t)"
proof -
  define j where "j = (if b - borrow - fst t > MAX_NN_DIGIT - fst t then 1 else 0 :: u32)"
  have k1: "unat k1 \<le> 1" by (simp add: assms(2))
  have k2: "unat k2 = unat k1 + unat j" unfolding assms(3) j_def by (rule unat_incr_if [OF k1])
  have p: "unat (fst t) + 2 ^ 32 * unat (snd t) = unat c * unat d"
    using NN_DigitMult_value [of c d] by (simp add: assms(1) dval_def)
  have 1: "unat (b - borrow) + unat borrow = unat b + 2 ^ 32 * unat k1" unfolding assms(2) by (rule borrow_digit)
  have 2: "unat (b - borrow - fst t) + unat (fst t) = unat (b - borrow) + 2 ^ 32 * unat j" unfolding j_def by (rule borrow_digit)
  have e: "unat (b - borrow - fst t) + unat c * unat d + unat borrow = unat b + 2 ^ 32 * (unat k2 + unat (snd t))"
    using 1 2 p k2 by (simp add: distrib_left)
  then have "2 ^ 32 * (unat k2 + unat (snd t)) < 2 ^ 32 * 2 ^ 32"
    using digit_product_bound [of c d] unat_digit_less [of "b - borrow - fst t"] unat_digit_less [of borrow] by linarith
  then have "unat (k2 + snd t) = unat k2 + unat (snd t)" by (simp add: unat_sum)
  with e show ?thesis by simp
qed

lemma mult_nn_val_Cons: "c * nn_val (d # ds) = c * unat d + 2 ^ 32 * (c * nn_val ds)"
  by (simp add: distrib_left mult.left_commute)

lemma add_digit_mult_loop_value:
  "length bs = length ds \<Longrightarrow> add_digit_mult_loop carry c bs ds = (as, k) \<Longrightarrow>
     length as = length bs \<and> nn_val as + 2 ^ (32 * length bs) * unat k = nn_val bs + unat c * nn_val ds + unat carry"
proof (induction carry c bs ds arbitrary: as k rule: add_digit_mult_loop.induct)
  case (1 carry c b bs d ds)
  define t where "t = NN_DigitMult c d"
  define k1 where "k1 = (if b + carry < carry then 1 else 0 :: u32)"
  define k2 where "k2 = (if b + carry + fst t < fst t then k1 + 1 else k1)"
  obtain as' where r: "add_digit_mult_loop (k2 + snd t) c bs ds = (as', k)" "as = (b + carry + fst t) # as'"
    using 1(3) unfolding add_digit_mult_loop.simps Let_def t_def [symmetric] k1_def [symmetric] k2_def [symmetric]
    by (auto split: prod.splits)
  have "length as' = length bs \<and>
      nn_val as' + 2 ^ (32 * length bs) * unat k = nn_val bs + unat c * nn_val ds + unat (k2 + snd t)"
    using 1(1) [OF refl refl refl refl refl refl, folded t_def, folded k1_def, folded k2_def, OF _ r(1)] 1(2) by simp
  with carry_step [OF add_row_digit [OF t_def k1_def k2_def], of "nn_val as'" _ "nn_val bs + unat c * nn_val ds"] r(2)
  show ?case unfolding mult_nn_val_Cons by (simp add: pow_Suc_digit distrib_left del: mult_Suc_right)
qed simp_all

lemma sub_digit_mult_loop_value:
  "length bs = length ds \<Longrightarrow> sub_digit_mult_loop borrow c bs ds = (as, k) \<Longrightarrow>
     length as = length bs \<and> nn_val as + unat c * nn_val ds + unat borrow = nn_val bs + 2 ^ (32 * length bs) * unat k"
proof (induction borrow c bs ds arbitrary: as k rule: sub_digit_mult_loop.induct)
  case (1 borrow c b bs d ds)
  define t where "t = NN_DigitMult c d"
  define k1 where "k1 = (if b - borrow > MAX_NN_DIGIT - borrow then 1 else 0 :: u32)"
  define k2 where "k2 = (if b - borrow - fst t > MAX_NN_DIGIT - fst t then k1 + 1 else k1)"
  obtain as' where r: "sub_digit_mult_loop (k2 + snd t) c bs ds = (as', k)" "as = (b - borrow - fst t) # as'"
    using 1(3) unfolding sub_digit_mult_loop.simps Let_def t_def [symmetric] k1_def [symmetric] k2_def [symmetric]
    by (auto split: prod.splits)
  have "length as' = length bs \<and>
      nn_val as' + unat c * nn_val ds + unat (k2 + snd t) = nn_val bs + 2 ^ (32 * length bs) * unat k"
    using 1(1) [OF refl refl refl refl refl refl, folded t_def, folded k1_def, folded k2_def, OF _ r(1)] 1(2) by simp
  with borrow_step [OF sub_row_digit [OF t_def k1_def k2_def], of "nn_val as'" "unat c * nn_val ds" "nn_val bs"] r(2)
  show ?case unfolding mult_nn_val_Cons by (simp add: pow_Suc_digit distrib_left del: mult_Suc_right)
qed simp_all

lemma NN_AddDigitMult_value:
  assumes "length b = length d" "NN_AddDigitMult b c d = (a, k)"
  shows "length a = length b" "nn_val a + 2 ^ (32 * length b) * unat k = nn_val b + unat c * nn_val d"
  using add_digit_mult_loop_value [of b d 0 c a k] assms by (auto simp: NN_AddDigitMult_def split: if_splits)

lemma NN_SubDigitMult_value:
  assumes "length b = length d" "NN_SubDigitMult b c d = (a, k)"
  shows "length a = length b" "nn_val a + unat c * nn_val d = nn_val b + 2 ^ (32 * length b) * unat k"
  using sub_digit_mult_loop_value [of b d 0 c a k] assms by (auto simp: NN_SubDigitMult_def split: if_splits)

subsection \<open>Comparison and length\<close>

lemma nn_val_snoc: "nn_val (xs @ [x]) = nn_val xs + 2 ^ (32 * length xs) * unat x"
  by (simp add: nn_val_append)

lemma msd_less:
  assumes "length xs = length ys" "unat x < unat y"
  shows "nn_val (xs @ [x]) < nn_val (ys @ [y])"
proof -
  have "nn_val (xs @ [x]) < 2 ^ (32 * length xs) * (unat x + 1)"
    using nn_val_bound [of xs] by (simp add: nn_val_snoc)
  also have "\<dots> \<le> 2 ^ (32 * length xs) * unat y" using assms(2) by (intro mult_le_mono2) simp
  also have "\<dots> \<le> nn_val (ys @ [y])" using assms(1) by (simp add: nn_val_snoc)
  finally show ?thesis .
qed

lemma NN_Cmp_value: "length a = length b \<Longrightarrow> NN_Cmp a b = sgn (int (nn_val a) - int (nn_val b))"
proof (induction a arbitrary: b rule: rev_induct)
  case (snoc x xs)
  then obtain ys y where b: "b = ys @ [y]" "length xs = length ys" by (cases b rule: rev_cases) auto
  show ?case
  proof (cases "unat x" "unat y" rule: linorder_cases)
    case less
    then show ?thesis using msd_less [OF b(2) less] unfolding b by (simp add: NN_Cmp_def word_less_nat_alt)
  next
    case equal
    then have "x = y" by (simp add: word_unat_eq_iff)
    then show ?thesis using snoc.IH [OF b(2)] unfolding b(1) by (simp add: NN_Cmp_def nn_val_snoc b(2))
  next
    case greater
    then show ?thesis using msd_less [OF b(2) [symmetric] greater] unfolding b by (simp add: NN_Cmp_def word_less_nat_alt)
  qed
qed (simp add: NN_Cmp_def)

lemma NN_Cmp_simps:
  assumes "length a = length b"
  shows "0 \<le> NN_Cmp a b \<longleftrightarrow> nn_val b \<le> nn_val a" "NN_Cmp a b < 0 \<longleftrightarrow> nn_val a < nn_val b"
    "NN_Cmp a b = 0 \<longleftrightarrow> a = b" "0 < NN_Cmp a b \<longleftrightarrow> nn_val b < nn_val a"
  using nn_val_inj [OF assms] unfolding NN_Cmp_value [OF assms] by (auto simp: sgn_if)

lemma NN_Zero_value: "NN_Zero a \<longleftrightarrow> nn_val a = 0"
  by (induction a rule: NN_Zero.induct) (auto simp: unat_eq_0)

lemma NN_Digits_split:
  "NN_Digits a \<le> length a \<and> drop (NN_Digits a) a = replicate (length a - NN_Digits a) 0 \<and>
     (0 < NN_Digits a \<longrightarrow> a ! (NN_Digits a - 1) \<noteq> 0)"
proof (induction a rule: rev_induct)
  case (snoc x xs)
  show ?case
  proof (cases "x = 0")
    case True
    then have d: "NN_Digits (xs @ [x]) = NN_Digits xs" by (simp add: NN_Digits_def)
    have "xs ! (NN_Digits xs - 1) = (xs @ [x]) ! (NN_Digits xs - 1)" if "0 < NN_Digits xs"
    proof -
      have "NN_Digits xs - 1 < length xs" using snoc.IH that by linarith
      then show ?thesis by (simp add: nth_append)
    qed
    then show ?thesis using snoc.IH True unfolding d by (simp add: Suc_diff_le replicate_append_same [symmetric])
  next
    case False
    then show ?thesis by (simp add: NN_Digits_def nth_append)
  qed
qed (simp add: NN_Digits_def)

lemma NN_Digits_le: "NN_Digits a \<le> length a"
  using NN_Digits_split by blast

lemma nn_val_take_Digits: "nn_val (take (NN_Digits a) a) = nn_val a"
proof -
  have "a = take (NN_Digits a) a @ replicate (length a - NN_Digits a) 0"
    using NN_Digits_split [of a] by (metis append_take_drop_id)
  then have "nn_val a = nn_val (take (NN_Digits a) a @ replicate (length a - NN_Digits a) 0)" by simp
  then show ?thesis by (simp add: nn_val_append)
qed

lemma NN_Digits_zero_iff: "NN_Digits a = 0 \<longleftrightarrow> nn_val a = 0"
proof
  assume "NN_Digits a = 0"
  then show "nn_val a = 0" using nn_val_take_Digits [of a] by simp
next
  assume z: "nn_val a = 0"
  show "NN_Digits a = 0"
  proof (rule ccontr)
    assume "NN_Digits a \<noteq> 0"
    then have "a ! (NN_Digits a - 1) \<in> set a" "a ! (NN_Digits a - 1) \<noteq> 0" using NN_Digits_split [of a] by auto
    then show False using z by (auto simp: nn_val_zero_iff)
  qed
qed

lemma digit_bits_loop_value:
  "unat a < 2 ^ n \<Longrightarrow> digit_bits_loop n a \<le> n \<and> unat a < 2 ^ digit_bits_loop n a \<and>
     (a \<noteq> 0 \<longrightarrow> 0 < digit_bits_loop n a \<and> 2 ^ (digit_bits_loop n a - 1) \<le> unat a)"
proof (induction n a rule: digit_bits_loop.induct)
  case (2 n a)
  show ?case
  proof (cases "a = 0")
    case False
    have d: "unat (drop_bit 1 a) = unat a div 2" by (simp add: drop_bit_eq_div unat_div)
    note ih = 2(1) [OF False]
    have "unat a div 2 < 2 ^ n" using 2(2) by simp
    note ih = ih [unfolded d, OF this]
    have "unat a div 2 < 2 ^ digit_bits_loop n (drop_bit 1 a)" using ih by blast
    then have a: "unat a < 2 ^ Suc (digit_bits_loop n (drop_bit 1 a))" by (simp add: div_less_iff_less_mult)
    have "2 ^ digit_bits_loop n (drop_bit 1 a) \<le> unat a"
    proof (cases "drop_bit 1 a = 0")
      case True
      then have "unat a div 2 = 0" using d by simp
      moreover have "digit_bits_loop n 0 = 0" by (cases n) simp_all
      ultimately show ?thesis using True False by (simp add: Suc_le_eq unat_gt_0)
    next
      case nz: False
      then have "2 * 2 ^ (digit_bits_loop n (drop_bit 1 a) - 1) \<le> 2 * (unat a div 2)" using ih by simp
      moreover have "2 * 2 ^ (digit_bits_loop n (drop_bit 1 a) - 1) = (2::nat) ^ digit_bits_loop n (drop_bit 1 a)"
        using ih nz by (simp flip: power_Suc)
      ultimately show ?thesis by simp
    qed
    then show ?thesis using False a ih by simp
  qed simp
qed (simp add: unat_eq_0)

lemma NN_DigitBits_bounds:
  "NN_DigitBits a \<le> 32" "unat a < 2 ^ NN_DigitBits a"
  "a \<noteq> 0 \<Longrightarrow> 0 < NN_DigitBits a \<and> 2 ^ (NN_DigitBits a - 1) \<le> unat a"
  using digit_bits_loop_value [of a 32] unat_digit_less [of a] by (simp_all add: NN_DigitBits_def)

lemma NN_Bits_value: 
  "nn_val a < 2 ^ NN_Bits a \<and> (nn_val a \<noteq> 0 \<longrightarrow> 2 ^ (NN_Bits a - 1) \<le> nn_val a)"
proof (cases "NN_Digits a")
  case 0
  then show ?thesis using NN_Digits_zero_iff [of a] by (simp add: NN_Bits_def)
next
  case (Suc n)
  define x where "x = a ! n"
  have n: "n < length a" "x \<noteq> 0" using NN_Digits_split [of a] Suc by (auto simp: x_def)
  note b = NN_DigitBits_bounds(2) [of x] NN_DigitBits_bounds(3) [OF n(2)]
  have v: "nn_val a = nn_val (take n a) + 2 ^ (32 * n) * unat x"
    using nn_val_take_Digits [of a] n by (simp add: Suc take_Suc_conv_app_nth nn_val_snoc x_def)
  have bits: "NN_Bits a = 32 * n + NN_DigitBits x" using Suc by (simp add: NN_Bits_def x_def)
  have "nn_val a < 2 ^ (32 * n) * (unat x + 1)" using nn_val_bound [of "take n a"] n v by simp
  also have "\<dots> \<le> 2 ^ (32 * n) * 2 ^ NN_DigitBits x" using b by (intro mult_le_mono2) simp
  finally have 1: "nn_val a < 2 ^ NN_Bits a" by (simp add: bits power_add)
  have "2 ^ (NN_Bits a - 1) = 2 ^ (32 * n) * (2::nat) ^ (NN_DigitBits x - 1)" using b by (simp add: bits flip: power_add)
  also have "\<dots> \<le> 2 ^ (32 * n) * unat x" using b by (intro mult_le_mono2) simp
  also have "\<dots> \<le> nn_val a" by (simp add: v)
  finally show ?thesis using 1 by blast
qed

subsection \<open>Shifts\<close>

lemma unat_drop_bit: "unat (drop_bit n (x::u32)) = unat x div 2 ^ n"
  using unat_digit_less [of x] by (simp only: unsigned_drop_bit_eq, simp add: drop_bit_eq_div take_bit_nat_eq_self)

lemma unat_push_bit: "unat (push_bit n (x::u32)) = unat x * 2 ^ n mod 2 ^ 32"
  by (simp only: unsigned_push_bit_eq, simp add: take_bit_eq_mod push_bit_eq_mult)

lemma bit_small_digit: "unat (x::u32) < 2 ^ n \<Longrightarrow> bit x k \<Longrightarrow> k < n"
proof -
  assume a: "unat x < 2 ^ n" "bit x k"
  then have "bit (unat x) k" by (simp add: bit_unsigned_iff)
  moreover have "take_bit n (unat x) = unat x" using a(1) by (simp add: take_bit_nat_eq_self)
  ultimately show "k < n" by (metis bit_take_bit_iff)
qed

lemma or_disjoint: "(\<And>k. \<not> (bit a k \<and> bit b k)) \<Longrightarrow> (a::u32) OR b = a + b"
  by (rule disjunctive_add [symmetric]) auto

lemma unat_or_disjoint:
  assumes "\<And>k. \<not> (bit a k \<and> bit b k)" "unat (a::u32) + unat b < 2 ^ 32"
  shows "unat (a OR b) = unat a + unat b"
  using assms(2) by (simp add: or_disjoint [OF assms(1)] unat_sum)

lemma lshift_digit:
  fixes b :: u32
  assumes "c < 32" "unat carry < 2 ^ c" "k' = (if c \<noteq> 0 then drop_bit (32 - c) b else 0)"
  shows "unat (push_bit c b OR carry) + 2 ^ 32 * unat k' = unat b * 2 ^ c + unat carry" "unat k' < 2 ^ c"
proof -
  have p: "2 ^ (32 - c) * 2 ^ c = (2::nat) ^ 32" using assms(1) by (simp flip: power_add)
  have k: "unat k' = unat b div 2 ^ (32 - c)"
    using assms(3) unat_digit_less [of b] by (cases "c = 0") (simp_all add: unat_drop_bit)
  have m: "unat b * 2 ^ c mod 2 ^ 32 = unat b mod 2 ^ (32 - c) * 2 ^ c"
    unfolding p [symmetric] by (rule mult_mod_left [symmetric])
  have "unat b mod 2 ^ (32 - c) * 2 ^ c + unat carry < (unat b mod 2 ^ (32 - c) + 1) * 2 ^ c" using assms(2) by simp
  also have "\<dots> \<le> 2 ^ (32 - c) * 2 ^ c" by (intro mult_le_mono1) (simp add: Suc_le_eq)
  finally have fin: "unat b mod 2 ^ (32 - c) * 2 ^ c + unat carry < 2 ^ 32" unfolding p .
  have "unat (push_bit c b OR carry) = unat (push_bit c b) + unat carry"
  proof (rule unat_or_disjoint)
    show "\<not> (bit (push_bit c b) k \<and> bit carry k)" for k
      using bit_small_digit [OF assms(2), of k] by (auto simp: bit_simps)
    show "unat (push_bit c b) + unat carry < 2 ^ 32" unfolding unat_push_bit m by (rule fin)
  qed
  moreover have "(unat b mod 2 ^ (32 - c) + unat b div 2 ^ (32 - c) * 2 ^ (32 - c)) * 2 ^ c = unat b * 2 ^ c"
    by (simp only: mod_div_mult_eq)
  ultimately show "unat (push_bit c b OR carry) + 2 ^ 32 * unat k' = unat b * 2 ^ c + unat carry"
    unfolding unat_push_bit m unfolding k p [symmetric] by (simp only: distrib_right distrib_left mult_ac add_ac)
  show "unat k' < 2 ^ c" unfolding k using unat_digit_less [of b] by (intro less_mult_imp_div_less) (simp add: p mult.commute [of "2 ^ c"])
qed

lemma lshift_loop_value:
  "c < 32 \<Longrightarrow> unat carry < 2 ^ c \<Longrightarrow> lshift_loop carry c bs = (as, k) \<Longrightarrow>
     length as = length bs \<and> unat k < 2 ^ c \<and> nn_val as + 2 ^ (32 * length bs) * unat k = nn_val bs * 2 ^ c + unat carry"
proof (induction carry c bs arbitrary: as k rule: lshift_loop.induct)
  case (2 carry c b bs)
  define k' where "k' = (if c \<noteq> 0 then drop_bit (32 - c) b else 0)"
  obtain as' where r: "lshift_loop k' c bs = (as', k)" "as = (push_bit c b OR carry) # as'"
    using 2(4) by (auto simp: k'_def split: prod.splits)
  note d = lshift_digit [OF 2(2,3) k'_def]
  have "length as' = length bs \<and> unat k < 2 ^ c \<and> nn_val as' + 2 ^ (32 * length bs) * unat k = nn_val bs * 2 ^ c + unat k'"
    using 2(1) [folded k'_def, OF 2(2) d(2) r(1)] by simp
  with carry_step [OF d(1), of "nn_val as'" _ "nn_val bs * 2 ^ c"] r(2)
  show ?case by (simp add: pow_Suc_digit distrib_left distrib_right mult.assoc del: mult_Suc_right)
qed simp

lemma NN_LShift_value:
  assumes "c < 32" "NN_LShift a0 b c = (a, k)"
  shows "length a = length b" "nn_val a + 2 ^ (32 * length b) * unat k = nn_val b * 2 ^ c"
  using lshift_loop_value [of c 0 b a k] assms by (auto simp: NN_LShift_def)

lemma rshift_digit:
  fixes b :: u32
  assumes "c < 32" "r < 2 ^ c" "carry = push_bit (32 - c) (of_nat r)"
    "k' = (if c \<noteq> 0 then push_bit (32 - c) b else 0)"
  shows "unat (drop_bit c b OR carry) = r * 2 ^ (32 - c) + unat b div 2 ^ c" 
    "k' = push_bit (32 - c) (of_nat (unat b mod 2 ^ c))"
proof -
  have p: "2 ^ c * 2 ^ (32 - c) = (2::nat) ^ 32" using assms(1) by (simp flip: power_add)
  have r: "unat (of_nat r :: u32) = r"
    using assms(1,2) power_strict_increasing [of c 32 "2::nat"] by (simp add: unat_of_nat take_bit_nat_eq_self)
  have "(r + 1) * 2 ^ (32 - c) \<le> 2 ^ c * 2 ^ (32 - c)" using assms(2) by (intro mult_le_mono1) simp
  then have b1: "r * 2 ^ (32 - c) + 2 ^ (32 - c) \<le> 2 ^ 32" by (simp add: p)
  have pos: "(0::nat) < 2 ^ (32 - c)" by simp
  have uc: "unat carry = r * 2 ^ (32 - c)"
  proof -
    have "r * 2 ^ (32 - c) < 2 ^ 32" using b1 pos by linarith
    then show ?thesis unfolding assms(3) unat_push_bit r by (rule mod_less)
  qed
  have ud: "unat (drop_bit c b) < 2 ^ (32 - c)"
    unfolding unat_drop_bit using unat_digit_less [of b] by (intro less_mult_imp_div_less) (simp add: p mult.commute)
  have "unat (drop_bit c b OR carry) = unat (drop_bit c b) + unat carry"
  proof (rule unat_or_disjoint)
    show "\<not> (bit (drop_bit c b) k \<and> bit carry k)" for k
      using bit_small_digit [OF ud, of k] assms(3) by (auto simp: bit_simps)
    show "unat (drop_bit c b) + unat carry < 2 ^ 32" using ud uc b1 by linarith
  qed
  then show "unat (drop_bit c b OR carry) = r * 2 ^ (32 - c) + unat b div 2 ^ c" by (simp add: uc unat_drop_bit)
  have "push_bit (32 - c) b = push_bit (32 - c) (of_nat (unat b mod 2 ^ c))"
  proof -
    have "unat (of_nat (unat b mod 2 ^ c) :: u32) = unat b mod 2 ^ c"
      using unat_digit_less [of b] le_less_trans [OF mod_less_eq_dividend, of "unat b" "2 ^ 32"]
      by (simp add: unat_of_nat take_bit_nat_eq_self)
    then have "unat (push_bit (32 - c) (of_nat (unat b mod 2 ^ c) :: u32)) = unat b mod 2 ^ c * 2 ^ (32 - c) mod 2 ^ 32"
      by (simp add: unat_push_bit)
    also have "\<dots> = unat b * 2 ^ (32 - c) mod 2 ^ 32"
      unfolding p [symmetric] mult_mod_left by simp
    finally show ?thesis by (simp add: word_unat_eq_iff unat_push_bit)
  qed
  then show "k' = push_bit (32 - c) (of_nat (unat b mod 2 ^ c))" using assms(4) by auto
qed

lemma rshift_step:
  fixes N V W b r :: nat
  assumes "N = (r * 2 ^ 32 + b) * P + V" "c < 32" "W = (b mod 2 ^ c * P + V) div 2 ^ c"
  shows "N div 2 ^ c = (r * 2 ^ (32 - c) + b div 2 ^ c) * P + W"
proof -
  have p: "2 ^ (32 - c) * 2 ^ c = (2::nat) ^ 32" using assms(2) by (simp flip: power_add)
  have "(r * 2 ^ (32 - c) + b div 2 ^ c) * 2 ^ c + b mod 2 ^ c = r * (2 ^ (32 - c) * 2 ^ c) + (b div 2 ^ c * 2 ^ c + b mod 2 ^ c)"
    by (simp only: distrib_right mult.assoc add.assoc)
  also have "\<dots> = r * 2 ^ 32 + b" by (simp only: p div_mult_mod_eq)
  finally have "r * 2 ^ 32 + b = (r * 2 ^ (32 - c) + b div 2 ^ c) * 2 ^ c + b mod 2 ^ c" by (rule sym)
  then have "N = (b mod 2 ^ c * P + V) + ((r * 2 ^ (32 - c) + b div 2 ^ c) * P) * 2 ^ c"
    unfolding assms(1) by (simp only: distrib_right distrib_left mult_ac add_ac)
  then have "N div 2 ^ c = (b mod 2 ^ c * P + V) div 2 ^ c + (r * 2 ^ (32 - c) + b div 2 ^ c) * P"
    by simp
  then show ?thesis using assms(3) by simp
qed

lemma rshift_loop_value:
  "c < 32 \<Longrightarrow> r < 2 ^ c \<Longrightarrow> carry = push_bit (32 - c) (of_nat r) \<Longrightarrow> rshift_loop carry c bs = (as, k) \<Longrightarrow>
     length as = length bs \<and> nn_val (rev as) = (r * 2 ^ (32 * length bs) + nn_val (rev bs)) div 2 ^ c"
proof (induction carry c bs arbitrary: as k r rule: rshift_loop.induct)
  case (2 carry c b bs)
  define k' where "k' = (if c \<noteq> 0 then push_bit (32 - c) b else 0)"
  obtain as' where r: "rshift_loop k' c bs = (as', k)" "as = (drop_bit c b OR carry) # as'"
    using 2(5) by (auto simp: k'_def split: prod.splits)
  note d = rshift_digit [OF 2(2,3,4) k'_def]
  have ih: "length as' = length bs \<and>
      nn_val (rev as') = (unat b mod 2 ^ c * 2 ^ (32 * length bs) + nn_val (rev bs)) div 2 ^ c"
    by (rule 2(1) [folded k'_def, OF 2(2) _ d(2) r(1)]) simp
  have "(r * 2 ^ (32 * length (b # bs)) + nn_val (rev (b # bs))) div 2 ^ c =
      (r * 2 ^ (32 - c) + unat b div 2 ^ c) * 2 ^ (32 * length bs) + nn_val (rev as')"
    by (rule rshift_step [OF _ 2(2)])
      (use ih in \<open>simp_all add: nn_val_snoc power_add algebra_simps\<close>)
  then show ?case using ih r(2) d(1) by (simp add: nn_val_snoc mult.commute)
qed simp

lemma NN_RShift_value:
  assumes "c < 32" "NN_RShift a0 b c = (a, k)"
  shows "length a = length b" "nn_val a = nn_val b div 2 ^ c"
proof -
  obtain as where r: "rshift_loop 0 c (rev b) = (as, k)" "a = rev as"
    using assms by (auto simp: NN_RShift_def split: prod.splits)
  from rshift_loop_value [OF assms(1), of 0 0 "rev b" as k] r
  show "length a = length b" "nn_val a = nn_val b div 2 ^ c" by simp_all
qed

subsection \<open>Multiplication\<close>

lemma nn_val_window:
  assumes "i + n \<le> length t"
  shows "nn_val t = nn_val (take i t) + 2 ^ (32 * i) * nn_val (take n (drop i t)) + 2 ^ (32 * (i + n)) * nn_val (drop (i + n) t)"
proof -
  have "nn_val (drop i t) = nn_val (take n (drop i t)) + 2 ^ (32 * n) * nn_val (drop (i + n) t)"
    using nn_val_take_drop [of n "drop i t"] assms by (simp add: add.commute)
  then show ?thesis using nn_val_take_drop [of i t] assms by (simp add: distrib_left power_add mult.assoc)
qed

lemma nn_val_nth_zero:
  assumes "nn_val t < 2 ^ (32 * n)" "n \<le> j" "j < length t"
  shows "t ! j = 0"
proof -
  have "nn_val (drop n t) = 0" using nn_val_less_take [OF assms(1)] assms(2,3) by simp
  moreover have "t ! j \<in> set (drop n t)"
    using nth_mem [of "j - n" "drop n t"] assms(2,3) by simp
  ultimately show ?thesis by (auto simp: nn_val_zero_iff)
qed

lemma nn_val_update: "j < length t \<Longrightarrow> nn_val (t[j := x]) + 2 ^ (32 * j) * unat (t ! j) = nn_val t + 2 ^ (32 * j) * unat x"
proof (induction t arbitrary: j)
  case (Cons a t)
  show ?case
  proof (cases j)
    case (Suc i)
    with Cons have "nn_val (t[i := x]) + 2 ^ (32 * i) * unat (t ! i) = nn_val t + 2 ^ (32 * i) * unat x" by simp
    from arg_cong [OF this, of "\<lambda>z. 2 ^ 32 * z"] Suc show ?thesis by (simp add: pow_Suc_digit distrib_left del: mult_Suc_right)
  qed simp
qed simp

lemma mult_row_value:
  assumes "nn_val t < 2 ^ (32 * (i + length c))" "i + length c < length t"
  shows "length (mult_row i b c t) = length t" "nn_val (mult_row i b c t) = nn_val t + 2 ^ (32 * i) * (unat b * nn_val c)"
proof -
  define n where "n = length c"
  obtain seg k where r: "NN_AddDigitMult (take n (drop i t)) b c = (seg, k)" by force
  have l: "length (take n (drop i t)) = n" "length (take n (drop i t)) = length c" using assms(2) by (simp_all add: n_def)
  note v = NN_AddDigitMult_value [OF l(2) r, unfolded l(1)]
  define t' where "t' = take i t @ seg @ drop (i + n) t"
  have lt: "length t' = length t" "i + n < length t" using v(1) assms(2) by (simp_all add: t'_def n_def)
  have t0: "t ! (i + n) = 0" using assms by (intro nn_val_nth_zero [of t "i + n"]) (simp_all add: n_def)
  have t'n: "t' ! (i + n) = t ! (i + n)" using lt(2) v(1) by (simp add: t'_def nth_append)
  have m: "mult_row i b c t = t'[i + n := k]" using r t0 t'n by (simp add: mult_row_def Let_def t'_def n_def)
  show "length (mult_row i b c t) = length t" by (simp add: m lt)
  have 1: "nn_val t' + 2 ^ (32 * (i + n)) * unat k = nn_val t + 2 ^ (32 * i) * (unat b * nn_val c)"
  proof -
    have "nn_val t' = nn_val (take i t) + 2 ^ (32 * i) * nn_val seg + 2 ^ (32 * (i + n)) * nn_val (drop (i + n) t)"
      using lt(2) v(1) by (simp add: t'_def nn_val_append power_add distrib_left mult.assoc min_def)
    moreover have "nn_val t = nn_val (take i t) + 2 ^ (32 * i) * nn_val (take n (drop i t)) + 2 ^ (32 * (i + n)) * nn_val (drop (i + n) t)"
      using lt(2) by (intro nn_val_window) simp
    moreover have "2 ^ (32 * i) * (nn_val seg + 2 ^ (32 * n) * unat k) = 2 ^ (32 * i) * (nn_val (take n (drop i t)) + unat b * nn_val c)"
      using v(2) by simp
    ultimately show ?thesis by (simp add: power_add distrib_left mult.assoc)
  qed
  moreover have "nn_val (t'[i + n := k]) = nn_val t' + 2 ^ (32 * (i + n)) * unat k"
    using nn_val_update [of "i + n" t' k] lt t'n t0 by simp
  ultimately show "nn_val (mult_row i b c t) = nn_val t + 2 ^ (32 * i) * (unat b * nn_val c)" by (simp add: m)
qed

lemma mult_loop_value:
  "nn_val t < 2 ^ (32 * (i + length c)) \<Longrightarrow> i + length bs + length c \<le> length t \<Longrightarrow>
     length (mult_loop i bs c t) = length t \<and> nn_val (mult_loop i bs c t) = nn_val t + 2 ^ (32 * i) * (nn_val bs * nn_val c)"
proof (induction i bs c t rule: mult_loop.induct)
  case (2 i b bs c t)
  have row: "length (mult_row i b c t) = length t" "nn_val (mult_row i b c t) = nn_val t + 2 ^ (32 * i) * (unat b * nn_val c)"
    using 2(2,3) by (auto intro!: mult_row_value)
  have "unat b * nn_val c + 2 ^ (32 * length c) \<le> (unat b + 1) * 2 ^ (32 * length c)" using nn_val_bound [of c] by (simp add: less_imp_le)
  also have "\<dots> \<le> 2 ^ 32 * 2 ^ (32 * length c)" using unat_digit_less [of b] by (intro mult_le_mono1) simp
  finally have "2 ^ (32 * i) * (unat b * nn_val c + 2 ^ (32 * length c)) \<le> 2 ^ (32 * i) * (2 ^ 32 * 2 ^ (32 * length c))"
    by (rule mult_le_mono2)
  then have "2 ^ (32 * i) * 2 ^ (32 * length c) + 2 ^ (32 * i) * (unat b * nn_val c) \<le> 2 ^ (32 * (Suc i + length c))"
    by (simp add: distrib_left power_add mult_ac)
  moreover have "nn_val t < 2 ^ (32 * i) * 2 ^ (32 * length c)" using 2(2) by (simp add: distrib_left power_add)
  ultimately have "nn_val (mult_row i b c t) < 2 ^ (32 * (Suc i + length c))" unfolding row(2) by linarith
  from 2(1) [OF this] 2(3) row show ?case by (simp add: distrib_left distrib_right power_add mult_ac)
qed simp

lemma NN_Mult_value:
  assumes "length b = length c"
  shows "length (NN_Mult b c) = 2 * length b" "nn_val (NN_Mult b c) = nn_val b * nn_val c"
  using mult_loop_value [of "NN_AssignZero (2 * length b)" 0 "take (NN_Digits c) c" "take (NN_Digits b) b"]
    NN_Digits_le [of b] NN_Digits_le [of c] assms
  by (simp_all add: NN_Mult_def NN_AssignZero_def nn_val_take_Digits)

subsection \<open>Conversion\<close>

text \<open>The number a byte string stands for, most significant byte first.\<close>

fun le_val :: "bytes \<Rightarrow> nat" where
  "le_val [] = 0"
| "le_val (x # xs) = unat x + 2 ^ 8 * le_val xs"

definition bytes_val :: "bytes \<Rightarrow> nat" where
  "bytes_val b = le_val (rev b)"

lemma unat_byte_less: "unat (x::u8) < 2 ^ 8"
  using unsigned_less [of x, where ?'a = nat] by simp

lemma le_val_append: "le_val (xs @ ys) = le_val xs + 2 ^ (8 * length xs) * le_val ys"
  by (induction xs) (simp_all add: algebra_simps power_add)

lemma le_val_replicate_0 [simp]: "le_val (replicate n 0) = 0"
  by (induction n) simp_all

lemma le_val_bound: "le_val xs < 2 ^ (8 * length xs)"
proof (induction xs)
  case (Cons x xs)
  have "unat x + 2 ^ 8 * le_val xs < 2 ^ 8 * (le_val xs + 1)"
    using unat_byte_less [of x] by simp
  also have "\<dots> \<le> 2 ^ 8 * 2 ^ (8 * length xs)"
    using Cons by (intro mult_le_mono2) simp
  finally show ?case by (simp add: power_add)
qed simp

lemma le_val_inj: "length xs = length ys \<Longrightarrow> le_val xs = le_val ys \<Longrightarrow> xs = ys"
proof (induction xs ys rule: list_induct2)
  case (Cons x xs y ys)
  from Cons.prems have e: "unat x + 2 ^ 8 * le_val xs = unat y + 2 ^ 8 * le_val ys" by simp
  from arg_cong [OF e, of "\<lambda>n. n mod 2 ^ 8"] have x: "unat x = unat y"
    using unat_byte_less [of x] unat_byte_less [of y] by simp
  with e have "le_val xs = le_val ys" by simp
  with x Cons.IH show ?case by (simp add: word_unat_eq_iff)
qed simp

lemma bytes_val_bound: "bytes_val b < 2 ^ (8 * length b)"
  using le_val_bound [of "rev b"] by (simp add: bytes_val_def)

lemma bytes_val_inj: "length a = length b \<Longrightarrow> bytes_val a = bytes_val b \<Longrightarrow> a = b"
  using le_val_inj [of "rev a" "rev b"] by (simp add: bytes_val_def)

lemma unat_ucast_byte [simp]: "unat (ucast (x::u8) :: u32) = unat x"
  using unat_byte_less [of x] by (simp add: unsigned_ucast_eq take_bit_nat_eq_self)

lemma decode_digit_value:
  "i \<le> 4 \<Longrightarrow> unat t < 2 ^ (8 * i) \<Longrightarrow> \<exists>t'. decode_digit (8 * i) t bs = (t', drop (4 - i) bs) \<and>
     unat t' = unat t + 2 ^ (8 * i) * le_val (take (4 - i) bs)"
proof (induction bs arbitrary: i t)
  case (Cons x bs)
  show ?case
  proof (cases "i = 4")
    case False
    define t' where "t' = t OR push_bit (8 * i) (ucast x)"
    have i: "i < 4" using Cons.prems(1) False by simp
    have "(unat x + 1) * 2 ^ (8 * i) \<le> 2 ^ 8 * 2 ^ (8 * i)" using unat_byte_less [of x] by (intro mult_le_mono1) simp
    also have "(2::nat) ^ 8 * 2 ^ (8 * i) = 2 ^ (8 * Suc i)" by (simp add: power_add)
    finally have "unat x * 2 ^ (8 * i) + 2 ^ (8 * i) \<le> 2 ^ (8 * Suc i)" unfolding distrib_right by simp
    then have b: "unat t + unat x * 2 ^ (8 * i) < 2 ^ (8 * Suc i)" using Cons.prems(2) by linarith
    also have p: "(2::nat) ^ (8 * Suc i) \<le> 2 ^ 32" using i by (intro power_increasing) simp_all
    finally have b32: "unat t + unat x * 2 ^ (8 * i) < 2 ^ 32" .
    then have u: "unat (push_bit (8 * i) (ucast x :: u32)) = unat x * 2 ^ (8 * i)" by (simp add: unat_push_bit)
    have t': "unat t' = unat t + unat x * 2 ^ (8 * i)"
      unfolding t'_def
    proof (subst unat_or_disjoint)
      show "\<not> (bit t k \<and> bit (push_bit (8 * i) (ucast x :: u32)) k)" for k
        using bit_small_digit [OF Cons.prems(2), of k] by (auto simp: bit_simps)
    qed (use u b32 in simp_all)
    obtain t'' where r: "decode_digit (8 * Suc i) t' bs = (t'', drop (4 - Suc i) bs)"
      "unat t'' = unat t' + 2 ^ (8 * Suc i) * le_val (take (4 - Suc i) bs)"
      using Cons.IH [of "Suc i" t'] i b t' by auto
    have "4 - i = Suc (4 - Suc i)" using i by simp
    then show ?thesis using r i t' by (simp add: t'_def power_add distrib_left mult_ac add_ac)
  qed simp
qed simp

lemma decode_digits_value:
  "length (decode_digits n bs) = n \<and> nn_val (decode_digits n bs) = le_val (take (4 * n) bs)"
proof (induction n bs rule: decode_digits.induct)
  case (2 n bs)
  show ?case
  proof (cases "bs = []")
    case True
    then show ?thesis using 2(1) by simp
  next
    case False
    obtain t where t: "decode_digit 0 0 bs = (t, drop 4 bs)" "unat t = le_val (take 4 bs)"
      using decode_digit_value [of 0 0 bs] by auto
    have "take (4 * Suc n) bs = take 4 bs @ take (4 * n) (drop 4 bs)" by (simp add: take_add)
    moreover have "2 ^ (8 * min (length bs) 4) * le_val (take (4 * n) (drop 4 bs)) = 2 ^ 32 * le_val (take (4 * n) (drop 4 bs))"
      by (cases "length bs \<le> 4") (simp_all add: min_def)
    ultimately have "le_val (take (4 * Suc n) bs) = unat t + 2 ^ 32 * le_val (take (4 * n) (drop 4 bs))"
      using t(2) by (simp add: le_val_append)
    then show ?thesis using 2(2) [OF False t(1) [symmetric] refl] False t(1) by simp
  qed
qed simp

lemma NN_Decode_value:
  "length (NN_Decode n b) = n" "length b \<le> 4 * n \<Longrightarrow> nn_val (NN_Decode n b) = bytes_val b"
  using decode_digits_value [of n "rev b"] by (simp_all add: NN_Decode_def bytes_val_def)

lemma unat_low_byte: "unat (ucast (t::u32) :: u8) = unat t mod 2 ^ 8"
  by (simp add: unsigned_ucast_eq take_bit_eq_mod)

lemma mod_digit_step: "(x::nat) mod 2 ^ 8 + 2 ^ 8 * (x div 2 ^ 8 mod 2 ^ k) = x mod 2 ^ (8 + k)"
  by (simp add: power_add mod_mult2_eq)

lemma encode_digit_value:
  "i \<le> 4 \<Longrightarrow> length (encode_digit n (8 * i) t) = min n (4 - i) \<and>
     le_val (encode_digit n (8 * i) t) = unat t div 2 ^ (8 * i) mod 2 ^ (8 * min n (4 - i))"
proof (induction n arbitrary: i)
  case 0
  then show ?case by (simp add: encode_digit.simps)
next
  case (Suc n)
  show ?case
  proof (cases "i = 4")
    case True
    then show ?thesis by (simp add: encode_digit.simps)
  next
    case False
    with Suc.prems have i: "i < 4" "Suc i \<le> 4" by simp_all
    have e: "encode_digit (Suc n) (8 * i) t = ucast (drop_bit (8 * i) t) # encode_digit n (8 * Suc i) t"
      using i by (subst encode_digit.simps) (simp add: add.commute)
    have m: "min (Suc n) (4 - i) = Suc (min n (4 - Suc i))" using i by simp
    have d: "unat t div 2 ^ (8 * Suc i) = unat t div 2 ^ (8 * i) div 2 ^ 8"
      by (simp add: power_add mult.commute flip: div_mult2_eq)
    have "le_val (encode_digit (Suc n) (8 * i) t) = unat t div 2 ^ (8 * i) mod 2 ^ 8 +
        2 ^ 8 * (unat t div 2 ^ (8 * i) div 2 ^ 8 mod 2 ^ (8 * min n (4 - Suc i)))"
      using Suc.IH [OF i(2)] unfolding d e by (simp add: unat_low_byte unat_drop_bit)
    also have "\<dots> = unat t div 2 ^ (8 * i) mod 2 ^ (8 * min (Suc n) (4 - i))"
      unfolding mod_digit_step m by simp
    finally show ?thesis using Suc.IH [OF i(2)] e m by simp
  qed
qed

lemma encode_digits_0 [simp]: "encode_digits 0 ds = []"
  by (induction ds) (simp_all add: encode_digit.simps)

lemma encode_digits_value:
  "length (encode_digits n ds) = n \<and> le_val (encode_digits n ds) = nn_val ds mod 2 ^ (8 * n)"
proof (induction n ds rule: encode_digits.induct)
  case (2 n d ds)
  define e where "e = encode_digit n 0 d"
  have l: "length e = min n 4" and v: "le_val e = unat d mod 2 ^ (8 * min n 4)"
    using encode_digit_value [of 0 n d] by (simp_all add: e_def)
  show ?case
  proof (cases "n \<le> 4")
    case True
    have "nn_val (d # ds) mod 2 ^ (8 * n) = unat d mod 2 ^ (8 * n)"
    proof -
      have "(2::nat) ^ 32 = 2 ^ (8 * n) * 2 ^ (32 - 8 * n)" using True by (simp flip: power_add)
      then show ?thesis by (simp only: nn_val.simps mult.assoc mod_mult_self2)
    qed
    then show ?thesis using True l v by (simp add: e_def [symmetric] Let_def del: nn_val.simps)
  next
    case False
    then have n: "8 * n = 32 + 8 * (n - 4)" and le: "length e = 4" using l by simp_all
    have "unat d < 2 ^ 32" by (rule unat_digit_less)
    then have "(unat d + 2 ^ 32 * nn_val ds) mod 2 ^ (8 * n) = unat d + 2 ^ 32 * (nn_val ds mod 2 ^ (8 * (n - 4)))"
      unfolding n power_add mod_mult2_eq by simp
    then show ?thesis
      using 2 [OF refl] l v le False unat_digit_less [of d]
      by (simp add: e_def [symmetric] Let_def le_val_append)
  qed
qed simp

lemma NN_Encode_value:
  "length (NN_Encode len b) = len" "bytes_val (NN_Encode len b) = nn_val b mod 2 ^ (8 * len)"
  using encode_digits_value [of len b] by (simp_all add: NN_Encode_def bytes_val_def)

lemma le_val_take: "le_val (take k xs) = le_val xs mod 2 ^ (8 * k)"
proof (cases "k \<le> length xs")
  case True
  have "le_val xs = le_val (take k xs) + 2 ^ (8 * k) * le_val (drop k xs)"
    using le_val_append [of "take k xs" "drop k xs"] True by simp
  moreover have "le_val (take k xs) < 2 ^ (8 * k)" using le_val_bound [of "take k xs"] True by simp
  ultimately show ?thesis by simp
next
  case False
  then have "le_val xs < 2 ^ (8 * k)"
    using le_val_bound [of xs] by (meson less_le_trans mult_le_mono2 nat_le_linear one_le_numeral power_increasing)
  then show ?thesis using False by simp
qed

lemma NN_Decode_mod: "nn_val (NN_Decode n b) = bytes_val b mod 2 ^ (32 * n)"
  using decode_digits_value [of n "rev b"] le_val_take [of "4 * n" "rev b"] by (simp add: NN_Decode_def bytes_val_def)

lemma NN_Assign2Exp_value:
  "length (NN_Assign2Exp b n) = n" "b < 32 * n \<Longrightarrow> nn_val (NN_Assign2Exp b n) = 2 ^ b"
proof -
  show "length (NN_Assign2Exp b n) = n" by (simp add: NN_Assign2Exp_def NN_AssignZero_def)
  assume b: "b < 32 * n"
  then have i: "b div 32 < n" by (simp add: div_less_iff_less_mult mult.commute)
  have "b mod 32 < 32" by simp
  then have lt: "(2::nat) ^ (b mod 32) < 2 ^ 32" by (intro power_strict_increasing) simp_all
  define x :: u32 where "x = push_bit (b mod 32) 1"
  have "x = of_nat (2 ^ (b mod 32))" by (simp add: x_def push_bit_eq_mult)
  then have u: "unat x = 2 ^ (b mod 32)" using lt by (simp only: unat_of_nat) (simp add: take_bit_nat_eq_self)
  have "nn_val (NN_Assign2Exp b n) = 2 ^ (32 * (b div 32)) * 2 ^ (b mod 32)"
    using nn_val_update [of "b div 32" "NN_AssignZero n" x] b i
    unfolding NN_Assign2Exp_def x_def [symmetric] by (simp add: NN_AssignZero_def u)
  then show "nn_val (NN_Assign2Exp b n) = 2 ^ b" by (simp flip: power_add)
qed

end
