(* ===== verification/Nn_Div.thy ===== *)
theory Nn_Div
  imports Nn "HOL-Library.Monad_Syntax"
begin

section \<open>Long division (nn.c)\<close>

text \<open>
  The correction loop of the division is a partial function into option; \<open>NN_Div_value\<close>
  shows that it returns.  For the divisor 0 the routine returns before writing its outputs,
  and is given their earlier contents \<open>a0\<close> and \<open>b0\<close>.
\<close>

subsection \<open>Division\<close>

text \<open>
  The correction of an estimate: \<open>seg\<close> is \<open>cc[i..i+ddDigits)\<close> and \<open>msd\<close> is
  \<open>cc[i+ddDigits]\<close>.
\<close>

partial_function (option) div_correct ::
  "NN_DIGIT list \<Rightarrow> NN_DIGIT list \<Rightarrow> NN_DIGIT \<Rightarrow> NN_DIGIT \<Rightarrow> (NN_DIGIT list \<times> NN_DIGIT \<times> NN_DIGIT) option" where
  "div_correct dd seg msd ai =
     (if msd \<noteq> 0 \<or> NN_Cmp seg dd \<ge> 0
      then div_correct dd (fst (NN_Sub seg dd)) (msd - snd (NN_Sub seg dd)) (ai + 1)
      else Some (seg, msd, ai))"

definition div_estimate :: "NN_DIGIT \<Rightarrow> NN_DIGIT \<times> NN_DIGIT \<Rightarrow> NN_DIGIT option" where
  "div_estimate t x = (if t = MAX_NN_DIGIT then Some (snd x) else NN_DigitDiv x (t + 1))"

definition div_digit :: "NN_DIGIT list \<Rightarrow> nat \<Rightarrow> NN_DIGIT list \<Rightarrow> (NN_DIGIT list \<times> NN_DIGIT) option" where
  "div_digit dd i cc =
     (let n = length dd; t = dd ! (n - 1)
      in do {
        ai \<leftarrow> div_estimate t (cc ! (i + n - 1), cc ! (i + n));
        (let (seg, borrow) = NN_SubDigitMult (take n (drop i cc)) ai dd
         in do {
           (seg, msd, ai) \<leftarrow> div_correct dd seg (cc ! (i + n) - borrow) ai;
           Some (take i cc @ seg @ msd # drop (Suc (i + n)) cc, ai)
         })
      })"

text \<open>The loop over the quotient's digits: \<open>k\<close> of them are left, the next is digit \<open>k - 1\<close>.\<close>

fun div_loop ::
  "NN_DIGIT list \<Rightarrow> nat \<Rightarrow> NN_DIGIT list \<Rightarrow> NN_DIGIT list \<Rightarrow> (NN_DIGIT list \<times> NN_DIGIT list) option" where
  "div_loop dd 0 cc a = Some (cc, a)"
| "div_loop dd (Suc i) cc a = do { (cc, ai) \<leftarrow> div_digit dd i cc; div_loop dd i cc (a[i := ai]) }"

definition NN_Div ::
  "NN_DIGIT list \<Rightarrow> NN_DIGIT list \<Rightarrow> NN_DIGIT list \<Rightarrow> NN_DIGIT list \<Rightarrow> (NN_DIGIT list \<times> NN_DIGIT list) option" where
  "NN_Div a0 b0 c d =
     (let cDigits = length c; dDigits = length d; ddDigits = NN_Digits d
      in if ddDigits = 0 then Some (a0, b0)
      else let shift = NN_DIGIT_BITS - NN_DigitBits (d ! (ddDigits - 1));
               (low, carry) = NN_LShift (NN_AssignZero cDigits) c shift;
               cc = low @ carry # NN_AssignZero (ddDigits - Suc cDigits);
               dd = fst (NN_LShift (NN_AssignZero ddDigits) (take ddDigits d) shift)
           in do {
             (cc, a) \<leftarrow> div_loop dd (Suc cDigits - ddDigits) cc (NN_AssignZero cDigits);
             Some (a, fst (NN_RShift (NN_AssignZero ddDigits) (take ddDigits cc) shift) @ NN_AssignZero (dDigits - ddDigits))
           })"

subsection \<open>The value of a quotient digit\<close>

lemma div_correct_result:
  assumes "0 < nn_val dd"
  shows "length seg = length dd \<Longrightarrow>
    \<exists>seg'. length seg' = length dd \<and> nn_val seg' = (nn_val seg + 2 ^ (32 * length dd) * unat msd) mod nn_val dd \<and>
      div_correct dd seg msd ai =
        Some (seg', 0, ai + of_nat ((nn_val seg + 2 ^ (32 * length dd) * unat msd) div nn_val dd))"
proof (induction "nn_val seg + 2 ^ (32 * length dd) * unat msd" arbitrary: seg msd ai rule: less_induct)
  case less
  define P :: nat where "P = 2 ^ (32 * length dd)"
  define W where "W = nn_val seg + P * unat msd"
  have D: "nn_val dd < P" using nn_val_bound [of dd] by (simp add: P_def)
  have guard: "(msd \<noteq> 0 \<or> NN_Cmp seg dd \<ge> 0) = (nn_val dd \<le> W)"
  proof (cases "msd = 0")
    case False
    then have "1 \<le> unat msd" by (simp add: Suc_le_eq unat_gt_0)
    from mult_le_mono2 [OF this, of P] D have "nn_val dd \<le> W" unfolding W_def by linarith
    then show ?thesis using False by simp
  qed (simp add: W_def NN_Cmp_simps less.prems)
  show ?case
  proof (cases "nn_val dd \<le> W")
    case False
    then have "msd = 0" "W = nn_val seg" using guard by (auto simp: W_def)
    then show ?thesis using False less.prems unfolding P_def [symmetric] W_def [symmetric]
      by (intro exI [of _ seg], subst div_correct.simps, subst guard) simp
  next
    case True
    obtain s k where r: "NN_Sub seg dd = (s, k)" by force
    note v = NN_Sub_value [OF less.prems r, folded P_def, unfolded less.prems, folded P_def]
    have "unat k \<le> unat msd"
    proof (rule ccontr)
      assume "\<not> unat k \<le> unat msd"
      then have "unat msd = 0" "unat k = 1" using v(2) by linarith+
      then have "nn_val s + nn_val dd = W + P" using v(3) by (simp add: W_def)
      then show False using True nn_val_bound [of s] v(1) less.prems by (simp add: P_def)
    qed
    then have k: "unat (msd - k) = unat msd - unat k" by (simp add: unat_sub_if')
    have "P * unat k \<le> P * unat msd" using \<open>unat k \<le> unat msd\<close> by (rule mult_le_mono2)
    then have W': "nn_val s + P * unat (msd - k) = W - nn_val dd"
      using v(3) True unfolding k W_def diff_mult_distrib2 by linarith
    have lt: "nn_val s + P * unat (msd - k) < W" using W' True assms by simp
    obtain seg' where ih: "length seg' = length dd" "nn_val seg' = (W - nn_val dd) mod nn_val dd"
      "div_correct dd s (msd - k) (ai + 1) = Some (seg', 0, ai + 1 + of_nat ((W - nn_val dd) div nn_val dd))"
      using less.hyps [OF lt [unfolded W_def P_def], of "ai + 1"] v(1) less.prems unfolding P_def [symmetric] W' by auto
    have "W div nn_val dd = Suc ((W - nn_val dd) div nn_val dd)" "W mod nn_val dd = (W - nn_val dd) mod nn_val dd"
      using True assms by (simp_all add: le_div_geq le_mod_geq)
    then show ?thesis using ih True unfolding P_def [symmetric] W_def [symmetric]
      by (intro exI [of _ seg'], subst div_correct.simps, subst guard) (simp add: r add.assoc)
  qed
qed

lemma nn_val_last:
  assumes "0 < length dd"
  shows "nn_val dd < 2 ^ (32 * (length dd - 1)) * (unat (dd ! (length dd - 1)) + 1)"
    "2 ^ (32 * (length dd - 1)) * unat (dd ! (length dd - 1)) \<le> nn_val dd"
proof -
  from assms obtain ds d where dd: "dd = ds @ [d]" by (cases dd rule: rev_cases) auto
  show "nn_val dd < 2 ^ (32 * (length dd - 1)) * (unat (dd ! (length dd - 1)) + 1)"
    "2 ^ (32 * (length dd - 1)) * unat (dd ! (length dd - 1)) \<le> nn_val dd"
    using nn_val_bound [of ds] by (simp_all add: dd nn_val_snoc)
qed

text \<open>
  The estimate is not above the quotient of the window \<open>lo @ [x0, x1]\<close>, when the divisor's
  top digit is at least half the radix.
\<close>

lemma div_estimate_result:
  assumes "dd = ds @ [t]" "length lo = length ds" "2 ^ 31 \<le> unat t"
    "nn_val (lo @ [x0, x1]) < 2 ^ 32 * nn_val dd"
  shows "\<exists>e. div_estimate t (x0, x1) = Some e \<and> unat e * nn_val dd \<le> nn_val (lo @ [x0, x1])"
proof -
  define Q :: nat where "Q = 2 ^ (32 * length ds)"
  define W where "W = nn_val (lo @ [x0, x1])"
  have W: "W = nn_val lo + Q * (unat x0 + 2 ^ 32 * unat x1)"
    by (simp add: W_def nn_val_append Q_def assms(2))
  have D: "nn_val dd < Q * (unat t + 1)" using nn_val_bound [of ds] by (simp add: assms(1) nn_val_snoc Q_def)
  show ?thesis
  proof (cases "t = MAX_NN_DIGIT")
    case True
    have "unat x1 * nn_val dd \<le> unat x1 * (Q * 2 ^ 32)" using D True by (intro mult_le_mono2) simp
    also have "\<dots> \<le> W" by (simp add: W distrib_left)
    finally show ?thesis using True by (simp add: div_estimate_def W_def)
  next
    case False
    then have t: "unat (t + 1) = unat t + 1" using unat_digit_less [of t] by (simp add: unat_sum word_unat_eq_iff)
    have "2 ^ 32 * nn_val dd < 2 ^ 32 * (Q * (unat t + 1))" using D by (rule mult_strict_left_mono) simp
    then have "Q * (2 ^ 32 * unat x1) < Q * (2 ^ 32 * (unat t + 1))"
      using assms(4) unfolding W_def [symmetric] by (simp add: W distrib_left mult.left_commute)
    then have "unat x1 < unat t + 1" by simp
    then have "snd (x0, x1) < t + 1" by (simp add: word_less_nat_alt t)
    moreover have "0 < HIGH_HALF (t + 1)"
    proof -
      have "0 < unat (HIGH_HALF (t + 1))" using assms(3) by (simp add: unat_HIGH_HALF t)
      then show ?thesis by (simp add: unat_gt_0 word_neq_0_conv)
    qed
    ultimately have e: "NN_DigitDiv (x0, x1) (t + 1) = Some (of_nat (dval (x0, x1) div unat (t + 1)))"
      by (rule NN_DigitDiv_value)
    define q where "q = dval (x0, x1) div unat (t + 1)"
    have "q * nn_val dd \<le> q * (Q * unat (t + 1))" using D t by (intro mult_le_mono2) simp
    also have "\<dots> = Q * (q * unat (t + 1))" by simp
    also have "\<dots> \<le> Q * dval (x0, x1)" unfolding q_def by (intro mult_le_mono2) (rule div_times_less_eq_dividend)
    also have "\<dots> \<le> W" by (simp add: W dval_def)
    finally have le: "q * nn_val dd \<le> W" .
    have "unat (of_nat q :: u32) \<le> q" by (simp add: unat_of_nat take_bit_eq_mod)
    then have "unat (of_nat q :: u32) * nn_val dd \<le> W" using le mult_le_mono1 le_trans by blast
    then show ?thesis using False e by (simp add: div_estimate_def W_def q_def)
  qed
qed

lemma div_digit_result:
  assumes dd: "dd = ds @ [t]" "2 ^ 31 \<le> unat t"
    and i: "i + length dd < length cc" and w: "nn_val (drop i cc) < 2 ^ 32 * nn_val dd"
  shows "\<exists>cc' ai. div_digit dd i cc = Some (cc', ai) \<and> length cc' = length cc \<and> take i cc' = take i cc \<and>
    unat ai = nn_val (drop i cc) div nn_val dd \<and> nn_val (drop i cc') = nn_val (drop i cc) mod nn_val dd"
proof -
  define n where "n = length dd"
  define W where "W = nn_val (drop i cc)"
  define seg0 where "seg0 = take n (drop i cc)"
  define x1 where "x1 = cc ! (i + n)"
  define rest where "rest = drop (Suc (i + n)) cc"
  have n: "0 < n" "n - 1 = length ds" by (simp_all add: n_def dd(1))
  have ic: "i + n < length cc" using i by (simp add: n_def)
  have l0: "length seg0 = n" using ic by (simp add: seg0_def)
  have split: "drop i cc = seg0 @ x1 # rest"
    using id_take_nth_drop [of n "drop i cc"] ic by (simp add: seg0_def x1_def rest_def add.commute)
  have "nn_val (drop i cc) < 2 ^ (32 * Suc n)"
    using w nn_val_bound [of dd] by (simp add: n_def power_add)
  from nn_val_less_take [OF this] ic have rest: "nn_val rest = 0"
    by (simp add: rest_def add.commute)
  have WP: "W = nn_val seg0 + 2 ^ (32 * n) * unat x1" by (simp add: W_def split nn_val_append l0 rest)
  have "cc ! (i + n - 1) = last seg0" using ic n(1) by (simp add: seg0_def last_conv_nth)
  moreover obtain lo x0 where lo: "seg0 = lo @ [x0]" using l0 n(1) by (cases seg0 rule: rev_cases) auto
  ultimately have x0: "cc ! (i + n - 1) = x0" by simp
  have Wl: "nn_val (lo @ [x0, x1]) = W" by (simp add: WP lo nn_val_append power_add distrib_left l0 [symmetric])
  obtain e where e: "div_estimate t (x0, x1) = Some e" "unat e * nn_val dd \<le> W"
    using div_estimate_result [OF dd(1) _ dd(2), of lo x0 x1] w l0 n unfolding Wl by (auto simp: W_def lo)
  obtain seg k where s: "NN_SubDigitMult seg0 e dd = (seg, k)" by force
  note v = NN_SubDigitMult_value [OF _ s, unfolded l0, OF n_def]
  have "unat k \<le> unat x1"
  proof (rule ccontr)
    assume "\<not> unat k \<le> unat x1"
    then have "2 ^ (32 * n) * unat x1 + 2 ^ (32 * n) \<le> 2 ^ (32 * n) * unat k"
      using mult_le_mono2 [of "unat x1 + 1" "unat k" "2 ^ (32 * n)"] by (simp add: distrib_left)
    then show False using e(2) v(2) nn_val_bound [of seg] unfolding WP v(1) by linarith
  qed
  from mult_le_mono2 [OF this] this have "2 ^ (32 * n) * unat k \<le> 2 ^ (32 * n) * unat x1"
    "unat (x1 - k) = unat x1 - unat k" by (simp_all add: unat_diff)
  then have W': "nn_val seg + 2 ^ (32 * n) * unat (x1 - k) = W - unat e * nn_val dd"
    using v(2) e(2) unfolding WP by (simp add: diff_mult_distrib2)
  have dpos: "0 < nn_val dd" using w by (cases "nn_val dd") simp_all
  obtain seg' where c: "length seg' = n" "nn_val seg' = (W - unat e * nn_val dd) mod nn_val dd"
    "div_correct dd seg (x1 - k) e = Some (seg', 0, e + of_nat ((W - unat e * nn_val dd) div nn_val dd))"
    using div_correct_result [OF dpos, of seg "x1 - k" e, folded n_def, unfolded W'] v(1) by auto
  define cc' where "cc' = take i cc @ seg' @ 0 # rest"
  have "W mod nn_val dd = (W - unat e * nn_val dd) mod nn_val dd"
    using e(2) by (metis le_add_diff_inverse2 mod_mult_self1)
  moreover have q: "W div nn_val dd = unat e + (W - unat e * nn_val dd) div nn_val dd"
    using e(2) dpos by (metis add.commute div_mult_self1 le_add_diff_inverse2 not_less0)
  moreover have "W div nn_val dd < 2 ^ 32" using w by (intro less_mult_imp_div_less) (simp add: W_def)
  ultimately have ai: "unat (e + of_nat ((W - unat e * nn_val dd) div nn_val dd)) = W div nn_val dd"
    and m: "nn_val seg' = W mod nn_val dd"
    using c(2) by (simp_all add: unat_sum unat_of_nat take_bit_nat_eq_self)
  have t: "dd ! (n - 1) = t" by (simp add: n_def dd(1))
  have "div_digit dd i cc = Some (cc', e + of_nat ((W - unat e * nn_val dd) div nn_val dd))"
    unfolding div_digit_def Let_def n_def [symmetric] t x0 x1_def [symmetric] seg0_def [symmetric] rest_def [symmetric]
    using e(1) s c(3) by (simp add: cc'_def)
  moreover have "length cc' = length cc" using ic c(1) by (simp add: cc'_def rest_def)
  moreover have "take i cc' = take i cc" "drop i cc' = seg' @ 0 # rest" using ic by (simp_all add: cc'_def)
  ultimately show ?thesis using ai m rest unfolding W_def by (simp add: nn_val_append)
qed

subsection \<open>The quotient and the remainder\<close>

lemma div_split_low:
  fixes P W D L V :: nat
  assumes "0 < D" "V = L + P * (W mod D)"
  shows "(L + P * W) div D = P * (W div D) + V div D" "(L + P * W) mod D = V mod D"
proof -
  have "P * W = P * (W mod D) + P * (W div D) * D"
    unfolding mult.assoc distrib_left [symmetric] by simp
  then have e: "L + P * W = V + P * (W div D) * D" unfolding assms(2) by simp
  show "(L + P * W) div D = P * (W div D) + V div D" unfolding e using assms(1) by simp
  show "(L + P * W) mod D = V mod D" unfolding e by simp
qed

lemma div_loop_result:
  assumes dd: "dd = ds @ [t]" "2 ^ 31 \<le> unat t"
  shows "k + length dd \<le> length cc \<Longrightarrow> k \<le> length a \<Longrightarrow> nn_val (drop k cc) < nn_val dd \<Longrightarrow>
    \<exists>cc' a'. div_loop dd k cc a = Some (cc', a') \<and> length cc' = length cc \<and> length a' = length a \<and>
      drop k a' = drop k a \<and> nn_val (take k a') = nn_val cc div nn_val dd \<and> nn_val cc' = nn_val cc mod nn_val dd"
proof (induction k arbitrary: cc a)
  case (Suc i)
  have dpos: "0 < nn_val dd" using Suc.prems(3) by simp
  have il: "i < length cc" "i \<le> length cc" and ii: "i + length dd < length cc" using Suc.prems(1) by simp_all
  have d: "drop i cc = cc ! i # drop (Suc i) cc" using il(1) by (simp add: Cons_nth_drop_Suc)
  have "nn_val (drop i cc) < 2 ^ 32 * (nn_val (drop (Suc i) cc) + 1)" unfolding d using unat_digit_less [of "cc ! i"] by simp
  also have "\<dots> \<le> 2 ^ 32 * nn_val dd" using Suc.prems(3) by (intro mult_le_mono2) simp
  finally have w: "nn_val (drop i cc) < 2 ^ 32 * nn_val dd" .
  define W where "W = nn_val (drop i cc)"
  obtain cc1 ai where r: "div_digit dd i cc = Some (cc1, ai)" and l1: "length cc1 = length cc"
    and t1: "take i cc1 = take i cc" and ai: "unat ai = W div nn_val dd" and d1: "nn_val (drop i cc1) = W mod nn_val dd"
    using div_digit_result [OF dd ii w] unfolding W_def by blast
  have lt: "nn_val (drop i cc1) < nn_val dd" unfolding d1 using dpos by simp
  obtain cc2 a2 where ih: "div_loop dd i cc1 (a[i := ai]) = Some (cc2, a2)" "length cc2 = length cc" "length a2 = length a"
      "drop i a2 = drop i (a[i := ai])" "nn_val (take i a2) = nn_val cc1 div nn_val dd" "nn_val cc2 = nn_val cc1 mod nn_val dd"
    using Suc.IH [of cc1 "a[i := ai]", OF _ _ lt] Suc.prems ii l1 by auto
  have c1: "nn_val cc1 = nn_val (take i cc) + 2 ^ (32 * i) * (W mod nn_val dd)"
    and c0: "nn_val cc = nn_val (take i cc) + 2 ^ (32 * i) * W"
    using nn_val_take_drop [of i cc1] nn_val_take_drop [of i cc] il(2) unfolding l1 t1 d1 W_def by simp_all
  note s = div_split_low [OF dpos c1, folded c0]
  have ia: "i < length a" using Suc.prems(2) by simp
  have dr: "drop i a2 = ai # drop (Suc i) a" unfolding ih(4) using ia by (simp add: Cons_nth_drop_Suc [symmetric])
  have "drop (Suc i) a2 = drop 1 (drop i a2)" by (simp add: add.commute)
  then have "drop (Suc i) a2 = drop (Suc i) a" unfolding dr by simp
  moreover have "a2 ! i = ai" using arg_cong [OF dr, of hd] ia ih(3) by (simp add: hd_drop_conv_nth)
  then have "nn_val (take (Suc i) a2) = nn_val cc div nn_val dd"
    using ia ih(3,5) s(1) ai by (simp add: take_Suc_conv_app_nth nn_val_snoc)
  ultimately show ?case using r ih s(2) by simp
qed simp

lemma normalized_top:
  fixes ds :: "NN_DIGIT list"
  assumes "length ds = length ds'" "nn_val (ds' @ [t]) = nn_val (ds @ [d]) * 2 ^ s" "2 ^ 31 \<le> unat d * 2 ^ s"
  shows "2 ^ 31 \<le> unat t"
proof (rule ccontr)
  assume "\<not> 2 ^ 31 \<le> unat t"
  then have "unat t + 1 \<le> 2 ^ 31" by simp
  define P :: nat where "P = 2 ^ (32 * length ds)"
  have "nn_val (ds' @ [t]) < P * (unat t + 1)" using nn_val_bound [of ds'] assms(1) by (simp add: nn_val_snoc P_def)
  also have "\<dots> \<le> P * 2 ^ 31" using \<open>unat t + 1 \<le> 2 ^ 31\<close> by (rule mult_le_mono2)
  also have "\<dots> \<le> P * (unat d * 2 ^ s)" using assms(3) by (rule mult_le_mono2)
  also have "\<dots> \<le> nn_val (ds @ [d]) * 2 ^ s" by (simp add: nn_val_snoc P_def)
  finally show False using assms(2) by simp
qed

lemma NN_Div_value:
  assumes "0 < nn_val d"
  shows "\<exists>a b. NN_Div a0 b0 c d = Some (a, b) \<and> length a = length c \<and> length b = length d \<and>
    nn_val a = nn_val c div nn_val d \<and> nn_val b = nn_val c mod nn_val d"
proof -
  define n m where "n = NN_Digits d" and "m = length c"
  have n: "0 < n" "n \<le> length d" using assms NN_Digits_zero_iff [of d] NN_Digits_le [of d] by (auto simp: n_def)
  define x where "x = d ! (n - 1)"
  have "x \<noteq> 0" using NN_Digits_split [of d] n(1) by (simp add: x_def n_def)
  note bits = NN_DigitBits_bounds(1) [of x] NN_DigitBits_bounds(3) [OF this]
  define s where "s = 32 - NN_DigitBits x"
  have s: "s \<le> 31" "s < 32" using bits(1) conjunct1 [OF bits(2)] unfolding s_def by linarith+
  obtain low k where lk: "NN_LShift (NN_AssignZero m) c s = (low, k)" by force
  note lv = NN_LShift_value [OF s(2) lk, folded m_def]
  obtain dd k' where dk: "NN_LShift (NN_AssignZero n) (take n d) s = (dd, k')" by force
  note dv = NN_LShift_value [OF s(2) dk]
  have ldd: "length dd = n" using dv(1) n by simp
  have dx: "take n d = take (n - 1) d @ [x]" using n by (cases n) (simp_all add: take_Suc_conv_app_nth x_def)
  have xs: "2 ^ 31 \<le> unat x * 2 ^ s" "unat x * 2 ^ s < 2 ^ 32"
  proof -
    have "(2::nat) ^ 31 = 2 ^ (NN_DigitBits x - 1) * 2 ^ s" using bits by (simp add: s_def flip: power_add)
    then show "2 ^ 31 \<le> unat x * 2 ^ s" using mult_le_mono1 [OF conjunct2 [OF bits(2)], of "2 ^ s"] by linarith
    have "unat x * 2 ^ s < 2 ^ NN_DigitBits x * 2 ^ s" using NN_DigitBits_bounds(2) [of x] by simp
    also have "\<dots> = 2 ^ 32" using bits(1) by (simp add: s_def flip: power_add)
    finally show "unat x * 2 ^ s < 2 ^ 32" .
  qed
  define P :: nat where "P = 2 ^ (32 * (n - 1))"
  have D32: "2 ^ (32 * n) = P * 2 ^ 32" using n(1) by (cases n) (simp_all add: P_def power_add)
  have vd: "nn_val (take n d) = nn_val d" unfolding n_def by (rule nn_val_take_Digits)
  have "nn_val d < P * (unat x + 1)"
    using nn_val_bound [of "take (n - 1) d"] n by (simp add: vd [symmetric] dx nn_val_snoc P_def)
  then have "nn_val d * 2 ^ s < P * (unat x + 1) * 2 ^ s" by simp
  also have "\<dots> \<le> P * 2 ^ 32"
  proof -
    have "unat x + 1 \<le> 2 ^ NN_DigitBits x" using NN_DigitBits_bounds(2) [of x] by simp
    from mult_le_mono1 [OF this, of "2 ^ s"] have "(unat x + 1) * 2 ^ s \<le> 2 ^ 32" using bits(1) by (simp add: s_def flip: power_add)
    then show ?thesis unfolding mult.assoc by (rule mult_le_mono2)
  qed
  finally have "nn_val d * 2 ^ s < 2 ^ (32 * n)" unfolding D32 .
  moreover have "nn_val dd + 2 ^ (32 * n) * unat k' = nn_val d * 2 ^ s" using dv(2) n by (simp add: vd)
  ultimately have "2 ^ (32 * n) * unat k' < 2 ^ (32 * n) * 1" by linarith
  then have "k' = 0" by (simp add: unat_eq_0)
  then have D: "nn_val dd = nn_val d * 2 ^ s" using dv(2) by (simp add: vd)
  obtain ds t where dt: "dd = ds @ [t]" using ldd n(1) by (cases dd rule: rev_cases) auto
  have ht: "2 ^ 31 \<le> unat t"
  proof (rule normalized_top)
    show "length (take (n - 1) d) = length ds" using ldd n by (auto simp: dt)
    show "nn_val (ds @ [t]) = nn_val (take (n - 1) d @ [x]) * 2 ^ s" unfolding dx [symmetric] dt [symmetric] vd by (rule D)
  qed (rule xs(1))
  define cc where "cc = low @ k # NN_AssignZero (n - Suc m)"
  have lcc: "length cc = max (Suc m) n" using lv(1) by (simp add: cc_def NN_AssignZero_def)
  have C: "nn_val cc = nn_val c * 2 ^ s" using lv by (simp add: cc_def nn_val_append NN_AssignZero_def)
  have Dlow: "P * 2 ^ 31 \<le> nn_val dd"
  proof -
    have "P = 2 ^ (32 * length ds)" using ldd by (auto simp: P_def dt)
    then have "nn_val dd = nn_val ds + P * unat t" by (simp add: dt nn_val_snoc)
    with mult_le_mono2 [OF ht, of P] show ?thesis by linarith
  qed
  have small: "nn_val (drop (Suc m - n) cc) < nn_val dd"
  proof -
    have "nn_val cc < 2 ^ (32 * m) * 2 ^ s" unfolding C using nn_val_bound [of c] by (simp add: m_def)
    also have "\<dots> \<le> 2 ^ (32 * m) * 2 ^ 31" using s(1) by (intro mult_le_mono2 power_increasing) simp_all
    also have "(2::nat) ^ (32 * m) \<le> 2 ^ (32 * (Suc m - n)) * P" unfolding P_def power_add [symmetric]
      using n(1) by (intro power_increasing) (simp_all add: diff_mult_distrib2)
    finally have "nn_val cc < 2 ^ (32 * (Suc m - n)) * (P * 2 ^ 31)" by (simp add: mult.assoc)
    moreover have "2 ^ (32 * (Suc m - n)) * nn_val (drop (Suc m - n) cc) \<le> nn_val cc"
      using nn_val_take_drop [of "Suc m - n" cc] lcc by simp
    ultimately have "2 ^ (32 * (Suc m - n)) * nn_val (drop (Suc m - n) cc) < 2 ^ (32 * (Suc m - n)) * (P * 2 ^ 31)" by linarith
    then show ?thesis using Dlow by simp
  qed
  obtain cc' a where r: "div_loop dd (Suc m - n) cc (NN_AssignZero m) = Some (cc', a)" and l: "length cc' = length cc" "length a = m"
    "drop (Suc m - n) a = drop (Suc m - n) (NN_AssignZero m)"
    and q: "nn_val (take (Suc m - n) a) = nn_val cc div nn_val dd" "nn_val cc' = nn_val cc mod nn_val dd"
  proof -
    have "Suc m - n + length dd \<le> length cc" "Suc m - n \<le> length (NN_AssignZero m)"
      unfolding lcc ldd using n(1) by (auto simp: NN_AssignZero_def)
    from div_loop_result [OF dt ht this small] that show thesis by (auto simp: NN_AssignZero_def)
  qed
  have va: "nn_val a = nn_val c div nn_val d"
    using nn_val_take_drop [of "Suc m - n" a] n(1) l q(1) by (simp add: NN_AssignZero_def C D)
  have vc: "nn_val cc' = nn_val c mod nn_val d * 2 ^ s" unfolding q(2) C D by (simp add: mult_mod_left)
  have "nn_val cc' < nn_val dd" unfolding q(2) D using assms by simp
  then have "nn_val cc' < 2 ^ (32 * n)" using nn_val_bound [of dd] by (simp add: ldd)
  then have "nn_val (drop n cc') = 0" by (rule nn_val_less_take) (simp add: l lcc)
  then have tc: "nn_val (take n cc') = nn_val cc'" using nn_val_take_drop [of n cc'] by (simp add: l lcc)
  obtain b k2 where rs: "NN_RShift (NN_AssignZero n) (take n cc') s = (b, k2)" by force
  note rv = NN_RShift_value [OF s(2) rs, unfolded tc vc]
  have "NN_Div a0 b0 c d = Some (a, b @ NN_AssignZero (length d - n))"
    using n(1) r lk dk rs unfolding NN_Div_def Let_def n_def [symmetric] m_def [symmetric] x_def [symmetric] s_def [symmetric]
    by (simp add: cc_def)
  moreover have "length b = n" using rv(1) l lcc by simp
  ultimately show ?thesis using va rv(2) l(2) n(2) by (simp add: m_def nn_val_append NN_AssignZero_def)
qed

end
