(* ===== verification/Nn_Mod.thy ===== *)
theory Nn_Mod
  imports Nn_Div
begin

section \<open>Modular arithmetic (nn.c)\<close>

text \<open>
  The routines that rest on the division.  Euclid's loops are partial functions into option;
  the theorems show that they return.  A local array that the C code leaves uninitialised
  until its first assignment is written as zeros here: its contents are never read.
\<close>

subsection \<open>Modular arithmetic\<close>

definition NN_Mod :: "NN_DIGIT list \<Rightarrow> NN_DIGIT list \<Rightarrow> NN_DIGIT list \<Rightarrow> NN_DIGIT list option" where
  "NN_Mod a0 b c = map_option snd (NN_Div (NN_AssignZero (length b)) a0 b c)"

definition NN_ModMult ::
  "NN_DIGIT list \<Rightarrow> NN_DIGIT list \<Rightarrow> NN_DIGIT list \<Rightarrow> NN_DIGIT list \<Rightarrow> NN_DIGIT list option" where
  "NN_ModMult a0 b c d = NN_Mod a0 (NN_Mult b c) d"

text \<open>
  Exponentiation, two bits of the exponent at a time from its most significant digit; the
  routine counts its steps in the global \<open>DivCount\<close>.
\<close>

definition modexp_step ::
  "NN_DIGIT list list \<Rightarrow> NN_DIGIT list \<Rightarrow> NN_DIGIT \<Rightarrow> NN_DIGIT list \<Rightarrow> NN_DIGIT list option" where
  "modexp_step bPower d ci t = do {
     t \<leftarrow> NN_ModMult t t t d;
     t \<leftarrow> NN_ModMult t t t d;
     (let s = DIGIT_2MSB ci in if s \<noteq> 0 then NN_ModMult t t (bPower ! (s - 1)) d else Some t)
   }"

fun modexp_bits ::
  "NN_DIGIT list list \<Rightarrow> NN_DIGIT list \<Rightarrow> nat \<Rightarrow> NN_DIGIT \<Rightarrow> NN_DIGIT list \<times> u32 \<Rightarrow> (NN_DIGIT list \<times> u32) option" where
  "modexp_bits bPower d 0 ci st = Some st"
| "modexp_bits bPower d (Suc j) ci (t, DivCount) = do {
     t \<leftarrow> modexp_step bPower d ci t;
     modexp_bits bPower d j (push_bit 2 ci) (t, DivCount + 1)
   }"

text \<open>The digits of the exponent, the most significant first.\<close>

fun modexp_digits ::
  "NN_DIGIT list list \<Rightarrow> NN_DIGIT list \<Rightarrow> NN_DIGIT list \<Rightarrow> NN_DIGIT list \<times> u32 \<Rightarrow> (NN_DIGIT list \<times> u32) option" where
  "modexp_digits bPower d [] st = Some st"
| "modexp_digits bPower d (ci # c) st = do {
     st \<leftarrow> modexp_bits bPower d (NN_DIGIT_BITS div 2) ci st;
     modexp_digits bPower d c st
   }"

definition NN_ModExp ::
  "NN_DIGIT list \<Rightarrow> NN_DIGIT list \<Rightarrow> NN_DIGIT list \<Rightarrow> u32 \<Rightarrow> (NN_DIGIT list \<times> u32) option" where
  "NN_ModExp b c d DivCount =
     (let dDigits = length d; zero = NN_AssignZero dDigits
      in do {
        b2 \<leftarrow> NN_ModMult zero b b d;
        b3 \<leftarrow> NN_ModMult zero b2 b d;
        modexp_digits [b, b2, b3] d (rev (take (NN_Digits c) c)) (NN_ASSIGN_DIGIT 1 dDigits, DivCount)
      })"

definition NN_ModExpCount :: "u32 \<Rightarrow> u32" where
  "NN_ModExpCount DivCount = DivCount"

definition NN_ResetCount :: "u32 \<Rightarrow> u32" where
  "NN_ResetCount DivCount = 0"

subsection \<open>Inverse and greatest common divisor\<close>

record euclid =
  u1 :: "NN_DIGIT list"
  u3 :: "NN_DIGIT list"
  v1 :: "NN_DIGIT list"
  v3 :: "NN_DIGIT list"
  u1Sign :: int

definition modinv_step :: "euclid \<Rightarrow> euclid option" where
  "modinv_step s =
     (let digits = length (u3 s); zero = NN_AssignZero digits
      in do {
        (q, t3) \<leftarrow> NN_Div zero zero (u3 s) (v3 s);
        (let w = NN_Mult q (v1 s);
             t1 = fst (NN_Add (u1 s) (take digits w))
         in Some \<lparr>u1 = v1 s, u3 = v3 s, v1 = t1, v3 = t3, u1Sign = - u1Sign s\<rparr>)
      })"

partial_function (option) modinv_loop :: "euclid \<Rightarrow> euclid option" where
  "modinv_loop s = (if \<not> NN_Zero (v3 s) then do { s \<leftarrow> modinv_step s; modinv_loop s } else Some s)"

definition NN_ModInv :: "NN_DIGIT list \<Rightarrow> NN_DIGIT list \<Rightarrow> NN_DIGIT list option" where
  "NN_ModInv b c =
     (let digits = length c
      in do {
        s \<leftarrow> modinv_loop \<lparr>u1 = NN_ASSIGN_DIGIT 1 digits, u3 = NN_Assign b digits, v1 = NN_AssignZero digits,
               v3 = NN_Assign c digits, u1Sign = 1\<rparr>;
        Some (if u1Sign s < 0 then fst (NN_Sub c (u1 s)) else NN_Assign (u1 s) digits)
      })"

partial_function (option) gcd_loop :: "NN_DIGIT list \<Rightarrow> NN_DIGIT list \<Rightarrow> NN_DIGIT list option" where
  "gcd_loop u v =
     (if \<not> NN_Zero v then do { t \<leftarrow> NN_Mod (NN_AssignZero (length v)) u v; gcd_loop v t } else Some u)"

definition NN_Gcd :: "NN_DIGIT list \<Rightarrow> NN_DIGIT list \<Rightarrow> NN_DIGIT list option" where
  "NN_Gcd b c = gcd_loop (NN_Assign b (length c)) (NN_Assign c (length c))"

subsection \<open>The values of the modular routines\<close>

lemma NN_Mod_value:
  assumes "0 < nn_val c"
  shows "\<exists>a. NN_Mod a0 b c = Some a \<and> length a = length c \<and> nn_val a = nn_val b mod nn_val c"
  using NN_Div_value [OF assms, of "NN_AssignZero (length b)" a0 b] by (auto simp: NN_Mod_def)

lemma NN_ModMult_value:
  assumes "0 < nn_val d" "length b = length c"
  shows "\<exists>a. NN_ModMult a0 b c d = Some a \<and> length a = length d \<and> nn_val a = nn_val b * nn_val c mod nn_val d"
  using NN_Mod_value [OF assms(1), of a0 "NN_Mult b c"] NN_Mult_value [OF assms(2)] by (simp add: NN_ModMult_def)

lemma nn_val_ASSIGN_DIGIT: "0 < n \<Longrightarrow> nn_val (NN_ASSIGN_DIGIT x n) = unat x"
  by (cases n) (simp_all add: NN_ASSIGN_DIGIT_def NN_AssignZero_def)

lemma length_ASSIGN_DIGIT [simp]: "length (NN_ASSIGN_DIGIT x n) = n"
  by (simp add: NN_ASSIGN_DIGIT_def NN_AssignZero_def)

lemma nn_val_pos_length: "0 < nn_val d \<Longrightarrow> 0 < length d"
  by (cases d) simp_all

subsection \<open>Exponentiation\<close>

lemma DIGIT_2MSB_value: "DIGIT_2MSB x = unat x div 2 ^ 30"
proof -
  have "unat (drop_bit 30 x) < 2 ^ 2"
    unfolding unat_drop_bit using unat_digit_less [of x] by (intro less_mult_imp_div_less) simp
  moreover have "drop_bit 30 x AND 3 = take_bit 2 (drop_bit 30 x)" by (simp add: take_bit_eq_mask mask_eq_exp_minus_1)
  ultimately show ?thesis by (simp add: DIGIT_2MSB_def unsigned_take_bit_eq unat_drop_bit take_bit_nat_eq_self)
qed

lemma power_mod_cong: "(a::nat) mod d = b mod d \<Longrightarrow> a ^ n mod d = b ^ n mod d"
  by (metis power_mod)

lemma modexp_step_value:
  assumes "0 < nn_val d" "length t = length d"
    and p: "length p = 3" "\<And>j. j < 3 \<Longrightarrow> length (p ! j) = length d \<and> nn_val (p ! j) mod nn_val d = nn_val b ^ Suc j mod nn_val d"
  shows "\<exists>t'. modexp_step p d ci t = Some t' \<and> length t' = length d \<and> nn_val t' < nn_val d \<and>
    nn_val t' mod nn_val d = nn_val t ^ 4 * nn_val b ^ DIGIT_2MSB ci mod nn_val d"
proof -
  define D T B where "D = nn_val d" and "T = nn_val t" and "B = nn_val b"
  obtain t1 where t1: "NN_ModMult t t t d = Some t1" "length t1 = length d" "nn_val t1 = T * T mod D"
    using NN_ModMult_value [OF assms(1), of t t t] by (auto simp: D_def T_def)
  obtain t2 where t2: "NN_ModMult t1 t1 t1 d = Some t2" "length t2 = length d" "nn_val t2 = T * T mod D * (T * T mod D) mod D"
    using NN_ModMult_value [OF assms(1), of t1 t1 t1] t1(3) by (auto simp: D_def)
  have v2: "nn_val t2 = T ^ 4 mod D" by (simp add: t2(3) mod_mult_eq power4_eq_xxxx mult.assoc)
  define s where "s = DIGIT_2MSB ci"
  show ?thesis
  proof (cases "s = 0")
    case True
    then show ?thesis using t1(1) t2(1,2) v2 assms(1) unfolding modexp_step_def Let_def s_def [symmetric]
      by (simp flip: D_def T_def B_def)
  next
    case False
    have "s < 4" unfolding s_def DIGIT_2MSB_value using unat_digit_less [of ci] by (intro less_mult_imp_div_less) simp
    with False have j: "s - 1 < 3" "Suc (s - 1) = s" by simp_all
    note pj = p(2) [OF j(1), unfolded j(2)]
    obtain t3 where t3: "NN_ModMult t2 t2 (p ! (s - 1)) d = Some t3" "length t3 = length d"
      "nn_val t3 = nn_val t2 * nn_val (p ! (s - 1)) mod D"
      using NN_ModMult_value [OF assms(1), of t2 "p ! (s - 1)" t2] t2(2) pj by (auto simp: D_def)
    have "nn_val t3 = nn_val t2 * (nn_val (p ! (s - 1)) mod D) mod D" by (simp add: t3(3) mod_mult_right_eq)
    also have "\<dots> = T ^ 4 * B ^ s mod D" using pj unfolding D_def [symmetric] B_def [symmetric] v2
      by (simp add: mod_mult_eq)
    finally show ?thesis using t1(1) t2(1) t3(1,2) False assms(1) unfolding modexp_step_def Let_def s_def [symmetric]
      by (simp flip: D_def T_def B_def)
  qed
qed

lemma digit_top_bits:
  assumes "Suc n \<le> 16"
  shows "4 ^ n * (unat ci div 2 ^ 30) + unat (push_bit 2 (ci::u32)) div 2 ^ (32 - 2 * n) = unat ci div 2 ^ (32 - 2 * Suc n)"
proof -
  define h l where "h = unat ci div 2 ^ 30" and "l = unat ci mod 2 ^ 30"
  have ci: "unat ci = h * 2 ^ 30 + l" by (simp add: h_def l_def)
  have l: "l < 2 ^ 30" by (simp add: l_def)
  define k where "k = 30 - 2 * n"
  have k: "32 - 2 * n = k + 2" "32 - 2 * Suc n = k" "30 = k + 2 * n" using assms by (simp_all add: k_def)
  have "(h * 2 ^ 30 + l) * 2 ^ 2 = l * 4 + h * 2 ^ 32" by (simp add: distrib_right)
  then have "unat (push_bit 2 ci) = (l * 4 + h * 2 ^ 32) mod 2 ^ 32" by (simp only: unat_push_bit ci)
  also have "\<dots> = l * 4" using l unfolding mod_mult_self1 by simp
  finally have "unat (push_bit 2 ci) = l * 4" .
  then have 1: "unat (push_bit 2 ci) div 2 ^ (k + 2) = l div 2 ^ k"
    by (simp add: power_add div_mult2_eq mult.commute [of _ 4])
  have "(2::nat) ^ 30 = 2 ^ (2 * n) * 2 ^ k" using assms by (simp add: k_def flip: power_add)
  then have "unat ci = l + h * 2 ^ (2 * n) * 2 ^ k" by (simp only: ci mult.assoc add.commute)
  then have "unat ci div 2 ^ k = l div 2 ^ k + h * 2 ^ (2 * n)" by (simp only: div_mult_self1 power_not_zero) simp
  moreover have "(2::nat) ^ (2 * n) = 4 ^ n" unfolding power_mult by simp
  ultimately show ?thesis unfolding k(1,2) 1 h_def [symmetric] by simp
qed

lemma modexp_bits_value:
  assumes "0 < nn_val d"
    and p: "length p = 3" "\<And>j. j < 3 \<Longrightarrow> length (p ! j) = length d \<and> nn_val (p ! j) mod nn_val d = nn_val b ^ Suc j mod nn_val d"
  shows "n \<le> 16 \<Longrightarrow> length t = length d \<Longrightarrow>
    \<exists>t'. modexp_bits p d n ci (t, k) = Some (t', k + of_nat n) \<and> length t' = length d \<and> (0 < n \<longrightarrow> nn_val t' < nn_val d) \<and>
      nn_val t' mod nn_val d = nn_val t ^ 4 ^ n * nn_val b ^ (unat ci div 2 ^ (32 - 2 * n)) mod nn_val d"
proof (induction n arbitrary: ci t k)
  case 0
  then show ?case using unat_digit_less [of ci] by simp
next
  case (Suc n)
  obtain t1 where t1: "modexp_step p d ci t = Some t1" "length t1 = length d" "nn_val t1 < nn_val d"
    "nn_val t1 mod nn_val d = nn_val t ^ 4 * nn_val b ^ DIGIT_2MSB ci mod nn_val d"
    using modexp_step_value [OF assms(1) Suc.prems(2) p, of ci] by blast
  obtain t2 where t2: "modexp_bits p d n (push_bit 2 ci) (t1, k + 1) = Some (t2, k + 1 + of_nat n)" "length t2 = length d"
    "0 < n \<longrightarrow> nn_val t2 < nn_val d"
    "nn_val t2 mod nn_val d = nn_val t1 ^ 4 ^ n * nn_val b ^ (unat (push_bit 2 ci) div 2 ^ (32 - 2 * n)) mod nn_val d"
    using Suc.IH [OF _ t1(2), of "push_bit 2 ci" "k + 1"] Suc.prems(1) by auto
  define e where "e = unat (push_bit 2 ci) div 2 ^ (32 - 2 * n)"
  have "nn_val t2 mod nn_val d = (nn_val t1 ^ 4 ^ n mod nn_val d) * nn_val b ^ e mod nn_val d"
    unfolding t2(4) e_def by (simp add: mod_mult_left_eq)
  also have "nn_val t1 ^ 4 ^ n mod nn_val d = (nn_val t ^ 4 * nn_val b ^ DIGIT_2MSB ci) ^ 4 ^ n mod nn_val d"
    by (rule power_mod_cong) (rule t1(4))
  also have "(nn_val t ^ 4 * nn_val b ^ DIGIT_2MSB ci) ^ 4 ^ n = nn_val t ^ 4 ^ Suc n * nn_val b ^ (4 ^ n * (unat ci div 2 ^ 30))"
    by (simp add: power_mult_distrib DIGIT_2MSB_value mult.commute flip: power_mult)
  finally have "nn_val t2 mod nn_val d =
      nn_val t ^ 4 ^ Suc n * nn_val b ^ (4 ^ n * (unat ci div 2 ^ 30) + e) mod nn_val d"
    by (simp only: mod_mult_left_eq power_add mult.assoc)
  then have v: "nn_val t2 mod nn_val d = nn_val t ^ 4 ^ Suc n * nn_val b ^ (unat ci div 2 ^ (32 - 2 * Suc n)) mod nn_val d"
    unfolding e_def digit_top_bits [OF Suc.prems(1)] .
  have "nn_val t2 < nn_val d" using t1(3) t2(1,3) by (cases n) auto
  then show ?case using t1(1) t2(1,2) v by (simp add: add.assoc)
qed

lemma modexp_digits_value:
  assumes "0 < nn_val d"
    and p: "length p = 3" "\<And>j. j < 3 \<Longrightarrow> length (p ! j) = length d \<and> nn_val (p ! j) mod nn_val d = nn_val b ^ Suc j mod nn_val d"
  shows "length t = length d \<Longrightarrow>
    \<exists>t'. modexp_digits p d c (t, k) = Some (t', k + of_nat (16 * length c)) \<and> length t' = length d \<and>
      (c \<noteq> [] \<longrightarrow> nn_val t' < nn_val d) \<and>
      nn_val t' mod nn_val d = nn_val t ^ 2 ^ (32 * length c) * nn_val b ^ nn_val (rev c) mod nn_val d"
proof (induction c arbitrary: t k)
  case (Cons ci c)
  obtain t1 where t1: "modexp_bits p d 16 ci (t, k) = Some (t1, k + of_nat 16)" "length t1 = length d" "nn_val t1 < nn_val d"
    "nn_val t1 mod nn_val d = nn_val t ^ 2 ^ 32 * nn_val b ^ unat ci mod nn_val d"
    using modexp_bits_value [OF assms(1) p, of 16 t ci k] Cons.prems by auto
  obtain t2 where t2: "modexp_digits p d c (t1, k + of_nat 16) = Some (t2, k + of_nat 16 + of_nat (16 * length c))" "length t2 = length d"
    "c \<noteq> [] \<longrightarrow> nn_val t2 < nn_val d"
    "nn_val t2 mod nn_val d = nn_val t1 ^ 2 ^ (32 * length c) * nn_val b ^ nn_val (rev c) mod nn_val d"
    using Cons.IH [OF t1(2)] by blast
  define N where "N = (2::nat) ^ (32 * length c)"
  have "nn_val t2 mod nn_val d = (nn_val t1 ^ N mod nn_val d) * nn_val b ^ nn_val (rev c) mod nn_val d"
    unfolding t2(4) N_def by (simp add: mod_mult_left_eq)
  also have "nn_val t1 ^ N mod nn_val d = (nn_val t ^ 2 ^ 32 * nn_val b ^ unat ci) ^ N mod nn_val d"
    by (rule power_mod_cong) (rule t1(4))
  also have "(nn_val t ^ 2 ^ 32 * nn_val b ^ unat ci) ^ N = nn_val t ^ (2 ^ 32 * N) * nn_val b ^ (unat ci * N)"
    by (simp only: power_mult_distrib power_mult)
  finally have "nn_val t2 mod nn_val d = nn_val t ^ (2 ^ 32 * N) * nn_val b ^ (unat ci * N + nn_val (rev c)) mod nn_val d"
    by (simp only: mod_mult_left_eq power_add mult.assoc)
  moreover have "2 ^ 32 * N = 2 ^ (32 * length (ci # c))" by (simp add: N_def power_add)
  moreover have "unat ci * N + nn_val (rev c) = nn_val (rev (ci # c))" by (simp add: nn_val_snoc N_def)
  ultimately have v: "nn_val t2 mod nn_val d = nn_val t ^ 2 ^ (32 * length (ci # c)) * nn_val b ^ nn_val (rev (ci # c)) mod nn_val d" by simp
  have "nn_val t2 < nn_val d" using t1(3) t2(1,3) by (cases c) auto
  then show ?case using t1(1) t2(1,2) v by (simp add: add.assoc)
qed simp

lemma NN_ModExp_value:
  assumes "0 < nn_val d" "length b = length d" "0 < nn_val c"
  shows "\<exists>a. NN_ModExp b c d k = Some (a, k + of_nat (16 * NN_Digits c)) \<and> length a = length d \<and>
    nn_val a = nn_val b ^ nn_val c mod nn_val d"
proof -
  define z where "z = NN_AssignZero (length d)"
  obtain b2 where b2: "NN_ModMult z b b d = Some b2" "length b2 = length d" "nn_val b2 = nn_val b * nn_val b mod nn_val d"
    using NN_ModMult_value [OF assms(1), of b b z] by auto
  obtain b3 where b3: "NN_ModMult z b2 b d = Some b3" "length b3 = length d" "nn_val b3 = nn_val b2 * nn_val b mod nn_val d"
    using NN_ModMult_value [OF assms(1), of b2 b z] b2(2) assms(2) by auto
  have p: "length ([b, b2, b3] ! j) = length d \<and> nn_val ([b, b2, b3] ! j) mod nn_val d = nn_val b ^ Suc j mod nn_val d"
    if "j < 3" for j
  proof -
    have "j = 0 \<or> j = 1 \<or> j = 2" using that by auto
    moreover have "nn_val b3 = nn_val b ^ 3 mod nn_val d"
      unfolding b3(3) b2(3) by (simp add: mod_mult_left_eq power3_eq_cube)
    ultimately show ?thesis using assms(2) b2 b3(2) by (auto simp: power2_eq_square numeral_3_eq_3)
  qed
  define c' where "c' = rev (take (NN_Digits c) c)"
  have c': "length c' = NN_Digits c" "nn_val (rev c') = nn_val c" using NN_Digits_le [of c] by (simp_all add: c'_def nn_val_take_Digits)
  then have ne: "c' \<noteq> []" using assms(3) by auto
  obtain t where t: "modexp_digits [b, b2, b3] d c' (NN_ASSIGN_DIGIT 1 (length d), k) = Some (t, k + of_nat (16 * NN_Digits c))"
    "length t = length d" "nn_val t < nn_val d"
    "nn_val t mod nn_val d = 1 ^ 2 ^ (32 * length c') * nn_val b ^ nn_val c mod nn_val d"
    using modexp_digits_value [OF assms(1) _ p, of "NN_ASSIGN_DIGIT 1 (length d)" c' k] ne
      nn_val_ASSIGN_DIGIT [OF nn_val_pos_length [OF assms(1)], of 1] unfolding c' by auto
  then show ?thesis using b2(1) b3(1) unfolding NN_ModExp_def Let_def z_def [symmetric] c'_def [symmetric] by simp
qed

subsection \<open>Greatest common divisor\<close>

lemma gcd_loop_value:
  "length u = length v \<Longrightarrow> \<exists>a. gcd_loop u v = Some a \<and> length a = length v \<and> nn_val a = gcd (nn_val u) (nn_val v)"
proof (induction "nn_val v" arbitrary: u v rule: less_induct)
  case less
  show ?case
  proof (cases "NN_Zero v")
    case True
    then show ?thesis using less.prems by (subst gcd_loop.simps) (simp add: NN_Zero_value)
  next
    case False
    then have pos: "0 < nn_val v" by (simp add: NN_Zero_value)
    obtain t where t: "NN_Mod (NN_AssignZero (length v)) u v = Some t" "length t = length v" "nn_val t = nn_val u mod nn_val v"
      using NN_Mod_value [OF pos] by blast
    have "nn_val t < nn_val v" using t(3) pos by simp
    from less.hyps [OF this, of v] t obtain a where "gcd_loop v t = Some a" "length a = length v"
      "nn_val a = gcd (nn_val v) (nn_val u mod nn_val v)" by auto
    then show ?thesis using False t(1) by (subst gcd_loop.simps) (simp add: gcd_red_nat [of "nn_val u"])
  qed
qed

lemma NN_Gcd_value:
  "length b = length c \<Longrightarrow> \<exists>a. NN_Gcd b c = Some a \<and> length a = length c \<and> nn_val a = gcd (nn_val b) (nn_val c)"
  using gcd_loop_value [of b c] by (simp add: NN_Gcd_def NN_Assign_def)

subsection \<open>Inverse\<close>

text \<open>
  The invariant of the extended algorithm for \<open>b\<close> modulo \<open>c\<close>, with \<open>n\<close> digits: the products
  stay at \<open>c\<close>, so no addition overflows, and \<open>u1\<close> and \<open>v1\<close> are cofactors up to the sign.
\<close>

definition euclid_inv :: "nat \<Rightarrow> nat \<Rightarrow> nat \<Rightarrow> euclid \<Rightarrow> bool" where
  "euclid_inv n b c s \<longleftrightarrow>
     length (u1 s) = n \<and> length (u3 s) = n \<and> length (v1 s) = n \<and> length (v3 s) = n \<and> u1Sign s \<in> {1, - 1} \<and>
     nn_val (v1 s) * nn_val (u3 s) + nn_val (u1 s) * nn_val (v3 s) = c \<and> nn_val (u1 s) \<le> c \<and> nn_val (v1 s) \<le> c \<and>
     gcd (nn_val (u3 s)) (nn_val (v3 s)) = gcd b c \<and>
     int c dvd int (nn_val (u1 s)) * int b - u1Sign s * int (nn_val (u3 s)) \<and>
     int c dvd int (nn_val (v1 s)) * int b + u1Sign s * int (nn_val (v3 s))"

lemma cofactor_step:
  fixes c b u v U V q s :: int
  assumes "c dvd u * b - s * U" "c dvd v * b + s * V"
  shows "c dvd (u + q * v) * b + - s * (U - q * V)"
proof -
  have "(u + q * v) * b + - s * (U - q * V) = (u * b - s * U) + q * (v * b + s * V)" by (simp add: algebra_simps)
  then show ?thesis using assms by (simp add: dvd_add dvd_mult)
qed

lemma modinv_step_inv:
  assumes inv: "euclid_inv n b c s" and c: "c < 2 ^ (32 * n)" and pos: "0 < nn_val (v3 s)"
  shows "\<exists>s'. modinv_step s = Some s' \<and> euclid_inv n b c s' \<and> nn_val (v3 s') < nn_val (v3 s)"
proof -
  define U V u v where "U = nn_val (u3 s)" and "V = nn_val (v3 s)" and "u = nn_val (u1 s)" and "v = nn_val (v1 s)"
  define z where "z = NN_AssignZero n"
  note i = inv [unfolded euclid_inv_def, folded U_def V_def u_def v_def]
  obtain q t3 where d: "NN_Div z z (u3 s) (v3 s) = Some (q, t3)" "length q = n" "length t3 = n"
    "nn_val q = U div V" "nn_val t3 = U mod V"
    using NN_Div_value [OF pos, of z z "u3 s"] i unfolding U_def V_def by auto
  define w where "w = NN_Mult q (v1 s)"
  have w: "length w = 2 * n" "nn_val w = U div V * v"
    using NN_Mult_value [of q "v1 s"] d(2,4) i by (simp_all add: w_def v_def)
  define S where "S = u + U div V * v"
  have SV: "S * V + v * (U mod V) = c"
  proof -
    have "S * V + v * (U mod V) = v * (U div V * V + U mod V) + u * V" by (simp only: S_def distrib_right distrib_left mult_ac add_ac)
    then show ?thesis using i by simp
  qed
  have Sc: "S \<le> c"
  proof -
    have "S * 1 \<le> S * V" using pos by (intro mult_le_mono2) (simp add: V_def Suc_le_eq)
    then show ?thesis using SV by linarith
  qed
  have "nn_val w < 2 ^ (32 * n)" using Sc c unfolding w(2) S_def by linarith
  then have tw: "nn_val (take n w) = U div V * v" "length (take n w) = n"
    using nn_val_less_take [of w n] nn_val_take_drop [of n w] w by simp_all
  obtain t1 k where a: "NN_Add (u1 s) (take n w) = (t1, k)" by force
  have lu: "length (u1 s) = length (take n w)" "length (u1 s) = n" using i tw(2) by simp_all
  note av = NN_Add_value [OF lu(1) a, unfolded tw(1) lu(2), folded u_def, folded S_def]
  have "2 ^ (32 * n) * unat k < 2 ^ (32 * n) * 1" using av(3) Sc c by linarith
  then have "k = 0" by (simp add: unat_eq_0)
  then have t1: "nn_val t1 = S" "length t1 = n" using av by simp_all
  define s' where "s' = \<lparr>u1 = v1 s, u3 = v3 s, v1 = t1, v3 = t3, u1Sign = - u1Sign s\<rparr>"
  have "modinv_step s = Some s'"
    using i d(1) a unfolding modinv_step_def Let_def by (simp add: z_def s'_def w_def)
  moreover have "euclid_inv n b c s'"
  proof -
    have "int (U mod V) = int U - int (U div V) * int V" by (simp add: zmod_int zdiv_int minus_div_mult_eq_mod)
    then have "int c dvd int S * int b + - u1Sign s * int (U mod V)"
      using cofactor_step [of "int c" "int u" "int b" "u1Sign s" "int U" "int v" "int V" "int (U div V)"] i
      by (simp add: S_def)
    moreover have "gcd V (U mod V) = gcd b c" using i by (simp flip: gcd_red_nat)
    ultimately show ?thesis using i d t1 SV Sc
      unfolding euclid_inv_def s'_def by (auto simp flip: U_def V_def u_def v_def)
  qed
  moreover have "nn_val (v3 s') < nn_val (v3 s)" using d(5) pos by (simp add: s'_def V_def)
  ultimately show ?thesis by blast
qed

lemma modinv_loop_inv:
  assumes c: "c < 2 ^ (32 * n)"
  shows "euclid_inv n b c s \<Longrightarrow> \<exists>s'. modinv_loop s = Some s' \<and> euclid_inv n b c s' \<and> nn_val (v3 s') = 0"
proof (induction "nn_val (v3 s)" arbitrary: s rule: less_induct)
  case less
  show ?case
  proof (cases "NN_Zero (v3 s)")
    case True
    then show ?thesis using less.prems by (subst modinv_loop.simps) (simp add: NN_Zero_value)
  next
    case False
    then have "0 < nn_val (v3 s)" by (simp add: NN_Zero_value)
    from modinv_step_inv [OF less.prems c this] obtain s1 where
      s1: "modinv_step s = Some s1" "euclid_inv n b c s1" "nn_val (v3 s1) < nn_val (v3 s)" by blast
    from less.hyps [OF s1(3,2)] show ?thesis using False s1(1) by (subst modinv_loop.simps) simp
  qed
qed

lemma NN_ModInv_value:
  assumes "coprime (nn_val b) (nn_val c)" "length b = length c" "0 < nn_val c"
  shows "\<exists>a. NN_ModInv b c = Some a \<and> length a = length c \<and> nn_val a \<le> nn_val c \<and>
    nn_val a * nn_val b mod nn_val c = 1 mod nn_val c"
proof -
  define B C where "B = nn_val b" and "C = nn_val c"
  define s0 where "s0 = \<lparr>u1 = NN_ASSIGN_DIGIT 1 (length c), u3 = NN_Assign b (length c), v1 = NN_AssignZero (length c),
    v3 = NN_Assign c (length c), u1Sign = 1\<rparr>"
  have "euclid_inv (length c) B C s0"
    using nn_val_ASSIGN_DIGIT [OF nn_val_pos_length [OF assms(3)], of 1] assms
    by (simp add: euclid_inv_def s0_def NN_AssignZero_def NN_Assign_def B_def C_def)
  then obtain s where s: "modinv_loop s0 = Some s" "euclid_inv (length c) B C s" "nn_val (v3 s) = 0"
    using modinv_loop_inv [of C "length c" B s0] nn_val_bound [of c] by (auto simp: C_def)
  note i = s(2) [unfolded euclid_inv_def]
  have U: "nn_val (u3 s) = 1" using i s(3) assms(1) by (simp add: B_def C_def coprime_iff_gcd_eq_1)
  define u where "u = nn_val (u1 s)"
  have inv: "int C dvd int u * int B - u1Sign s" using i U by (simp add: u_def)
  define a where "a = (if u1Sign s < 0 then fst (NN_Sub c (u1 s)) else NN_Assign (u1 s) (length c))"
  have "NN_ModInv b c = Some a"
    unfolding NN_ModInv_def Let_def s0_def [symmetric] s(1) by (simp add: a_def)
  moreover have "length a = length c \<and> nn_val a \<le> C \<and> int C dvd int (nn_val a) * int B - 1"
  proof (cases "u1Sign s < 0")
    case True
    then have "u1Sign s = - 1" using i by auto
    have le: "nn_val (u1 s) \<le> nn_val c" "length c = length (u1 s)" using i by (simp_all add: C_def)
    note ns = NN_Sub_no_borrow [OF le(2,1)]
    have "int (C - u) * int B - 1 = int C * int B - (int u * int B - u1Sign s)"
      using le(1) \<open>u1Sign s = - 1\<close> by (simp add: C_def u_def of_nat_diff left_diff_distrib)
    then show ?thesis using ns inv True by (simp add: a_def C_def u_def dvd_diff)
  next
    case False
    then have "u1Sign s = 1" using i by auto
    then show ?thesis using inv i by (simp add: a_def NN_Assign_def u_def)
  qed
  moreover have "nn_val a * B mod C = 1 mod C" if "int C dvd int (nn_val a) * int B - 1"
  proof -
    have "int (nn_val a * B) mod int C = 1 mod int C" using that by (simp add: mod_eq_dvd_iff)
    then have "int (nn_val a * B mod C) = int (1 mod C)" by (simp only: zmod_int of_nat_1)
    then show ?thesis by (simp only: of_nat_eq_iff)
  qed
  ultimately show ?thesis by (auto simp: B_def C_def)
qed

end
