(* ===== verification/Nn_Properties.thy ===== *)
theory Nn_Properties
  imports Nn_Mod
begin

section \<open>Properties of the natural-number arithmetic\<close>

text \<open>
  What the routines of nn.c compute, on the numbers the digit arrays stand for: each of
  them is the arithmetic operation its comment names, and the ones with loops return.
\<close>

lemma NN_DigitDiv_correct_witness:
  "\<exists>a. NN_DigitDiv (5, 0x1000) 0xffff0001 = Some a \<and> unat a = dval (5, 0x1000) div unat (0xffff0001 :: NN_DIGIT)"
  by (rule NN_DigitDiv_correct) (simp_all add: HIGH_HALF_def)

text \<open>
  Byte strings and digit arrays convert to each other and back without loss, when the
  target is long enough.
\<close>

theorem NN_Decode_Encode:
  assumes "length b \<le> 4 * length a" "len \<le> 4 * length a" "nn_val a < 2 ^ (8 * len)"
  shows "NN_Encode (length b) (NN_Decode (length a) b) = b \<and> NN_Decode (length a) (NN_Encode len a) = a"
proof
  have "bytes_val (NN_Encode (length b) (NN_Decode (length a) b)) = bytes_val b"
    using assms(1) bytes_val_bound [of b] by (simp add: NN_Encode_value NN_Decode_value)
  then show "NN_Encode (length b) (NN_Decode (length a) b) = b" by (intro bytes_val_inj) (simp add: NN_Encode_value)
  show "NN_Decode (length a) (NN_Encode len a) = a"
    using assms by (intro nn_val_inj) (simp_all add: NN_Decode_value NN_Encode_value)
qed

lemma NN_Decode_Encode_witness:
  "NN_Encode (length [1, 2, 3, 4, 5 :: u8]) (NN_Decode (length [0x02030405, 1 :: NN_DIGIT]) [1, 2, 3, 4, 5]) = [1, 2, 3, 4, 5] \<and>
    NN_Decode (length [0x02030405, 1 :: NN_DIGIT]) (NN_Encode 5 [0x02030405, 1]) = [0x02030405, 1]"
  by (rule NN_Decode_Encode) simp_all

text \<open>
  Subtraction undoes addition: the difference is the first summand and its borrow is
  the carry of the sum, which is set exactly when the sum needs another digit.
\<close>

theorem NN_Add_Sub:
  assumes "length b = length c"
  shows "fst (NN_Sub (fst (NN_Add b c)) c) = b \<and>
    snd (NN_Sub (fst (NN_Add b c)) c) = snd (NN_Add b c) \<and>
    (snd (NN_Add b c) = 0 \<longleftrightarrow> nn_val b + nn_val c < 2 ^ (32 * length b)) \<and>
    nn_val (fst (NN_Add b c)) = (nn_val b + nn_val c) mod 2 ^ (32 * length b)"
proof -
  define P :: nat where "P = 2 ^ (32 * length b)"
  obtain a k where r: "NN_Add b c = (a, k)" by force
  note v = NN_Add_value [OF assms r, folded P_def]
  have l: "length a = length c" using v(1) assms by simp
  obtain d j where s: "NN_Sub a c = (d, j)" by force
  note w = NN_Sub_value [OF l s, unfolded v(1), folded P_def]
  have b: "nn_val a < P" "nn_val b < P" "nn_val c < P" "nn_val d < P"
    using nn_val_bound [of a] nn_val_bound [of b] nn_val_bound [of c] nn_val_bound [of d] v(1) w(1) assms by (simp_all add: P_def)
  have k: "unat k = 0 \<or> unat k = 1" "unat j = 0 \<or> unat j = 1" using v(2) w(2) by auto
  have "unat j = unat k \<and> nn_val d = nn_val b" using k v(3) w(3) b by auto
  then have "j = k" "d = b" using w(1) by (auto simp: word_unat_eq_iff intro: nn_val_inj)
  moreover have "(k = 0) = (nn_val b + nn_val c < P)" using k(1) v(3) b(1) by (auto simp: unat_eq_0 [symmetric])
  moreover have "nn_val a = (nn_val b + nn_val c) mod P" using b(1) unfolding v(3) [symmetric] by simp
  ultimately show ?thesis using r s by (simp add: P_def)
qed

lemma NN_Add_Sub_witness:
  "fst (NN_Sub (fst (NN_Add [0xffffffff, 1] [1, 0xffffffff])) [1, 0xffffffff]) = [0xffffffff, 1] \<and>
    snd (NN_Sub (fst (NN_Add [0xffffffff, 1] [1, 0xffffffff])) [1, 0xffffffff]) = snd (NN_Add [0xffffffff, 1] [1, 0xffffffff]) \<and>
    (snd (NN_Add [0xffffffff, 1] [1, 0xffffffff]) = 0 \<longleftrightarrow>
       nn_val [0xffffffff, 1] + nn_val [1, 0xffffffff] < 2 ^ (32 * length [0xffffffff, 1 :: NN_DIGIT])) \<and>
    nn_val (fst (NN_Add [0xffffffff, 1] [1, 0xffffffff])) =
      (nn_val [0xffffffff, 1] + nn_val [1, 0xffffffff]) mod 2 ^ (32 * length [0xffffffff, 1 :: NN_DIGIT])"
  by (rule NN_Add_Sub) simp

text \<open>
  The schoolbook product of two digit arrays is their product, in twice the digits.
\<close>

theorem NN_Mult_correct:
  assumes "length b = length c"
  shows "length (NN_Mult b c) = 2 * length b \<and> nn_val (NN_Mult b c) = nn_val b * nn_val c"
  using NN_Mult_value [OF assms] by simp

lemma NN_Mult_correct_witness:
  "length (NN_Mult [0xffffffff, 7] [0xffffffff, 0]) = 2 * length [0xffffffff, 7 :: NN_DIGIT] \<and>
    nn_val (NN_Mult [0xffffffff, 7] [0xffffffff, 0]) = nn_val [0xffffffff, 7] * nn_val [0xffffffff, 0]"
  by (rule NN_Mult_correct) simp

text \<open>
  C24: Long division by a divisor that is not zero returns, its correction loops included,
  with the quotient and a remainder below the divisor.
\<close>

theorem NN_Div_correct:
  assumes "0 < nn_val d"
  shows "\<exists>a b. NN_Div a0 b0 c d = Some (a, b) \<and> length a = length c \<and> length b = length d \<and>
    nn_val c = nn_val a * nn_val d + nn_val b \<and> nn_val b < nn_val d"
  using NN_Div_value [OF assms, of a0 b0 c] assms by (metis div_mult_mod_eq mod_less_divisor)

lemma NN_Div_correct_witness:
  "\<exists>a b. NN_Div [] [] [1, 2, 3] [0, 0xffffffff, 0] = Some (a, b) \<and> length a = length [1, 2, 3 :: NN_DIGIT] \<and>
    length b = length [0, 0xffffffff, 0 :: NN_DIGIT] \<and>
    nn_val [1, 2, 3] = nn_val a * nn_val [0, 0xffffffff, 0] + nn_val b \<and> nn_val b < nn_val [0, 0xffffffff, 0]"
  by (rule NN_Div_correct) simp

text \<open>
  C23: Modular exponentiation returns, for a modulus and an exponent that are not zero, the
  power modulo the modulus, and adds 16 steps per significant digit of the exponent to the
  step counter.
\<close>

theorem NN_ModExp_correct:
  assumes "0 < nn_val d" "length b = length d" "0 < nn_val c"
  shows "\<exists>a. NN_ModExp b c d DivCount = Some (a, DivCount + of_nat (16 * NN_Digits c)) \<and> length a = length d \<and>
    nn_val a = nn_val b ^ nn_val c mod nn_val d"
  by (rule NN_ModExp_value [OF assms])

lemma NN_ModExp_correct_witness:
  "\<exists>a. NN_ModExp [7, 0] [5] [0, 3] 0 = Some (a, 0 + of_nat (16 * NN_Digits [5])) \<and> length a = length [0, 3 :: NN_DIGIT] \<and>
    nn_val a = nn_val [7, 0] ^ nn_val [5] mod nn_val [0, 3]"
  by (rule NN_ModExp_correct) simp_all

text \<open>
  C25: The modified extended Euclidean algorithm returns, and its result is an inverse, for
  coprime arguments and a modulus that is not zero.
\<close>

theorem NN_ModInv_correct:
  assumes "coprime (nn_val b) (nn_val c)" "length b = length c" "0 < nn_val c"
  shows "\<exists>a. NN_ModInv b c = Some a \<and> length a = length c \<and> nn_val a \<le> nn_val c \<and>
    nn_val a * nn_val b mod nn_val c = 1 mod nn_val c"
  by (rule NN_ModInv_value [OF assms])

lemma NN_ModInv_correct_witness:
  "\<exists>a. NN_ModInv [5, 0] [0, 1] = Some a \<and> length a = length [0, 1 :: NN_DIGIT] \<and> nn_val a \<le> nn_val [0, 1] \<and>
    nn_val a * nn_val [5, 0] mod nn_val [0, 1] = 1 mod nn_val [0, 1]"
proof (rule NN_ModInv_correct)
  have "gcd (5::nat) 4294967296 = gcd 5 (4294967296 mod 5)" by (metis gcd.commute gcd_red_nat)
  then show "coprime (nn_val [5, 0]) (nn_val [0, 1])" by (simp add: coprime_iff_gcd_eq_1)
qed simp_all

text \<open>
  The Euclidean algorithm on digit arrays returns the greatest common divisor, for all
  arguments.
\<close>

theorem NN_Gcd_correct:
  assumes "length b = length c"
  shows "\<exists>a. NN_Gcd b c = Some a \<and> length a = length c \<and> nn_val a = gcd (nn_val b) (nn_val c)"
  by (rule NN_Gcd_value [OF assms])

lemma NN_Gcd_correct_witness:
  "\<exists>a. NN_Gcd [6, 4] [9, 0] = Some a \<and> length a = length [9, 0 :: NN_DIGIT] \<and> nn_val a = gcd (nn_val [6, 4]) (nn_val [9, 0])"
  by (rule NN_Gcd_correct) simp

end
