(* ===== verification/Block_Hash.thy ===== *)
theory Block_Hash
  imports Nn
begin

section \<open>Block-wise digests: what MD2 and MD5 share\<close>

text \<open>
  Both digests keep a chaining state and a buffer of at most one block.  \<open>array_write\<close> is
  the copy of bytes into an array at an index (\<open>MD5_memcpy\<close>, \<open>MD2_memcpy\<close>, \<open>R_memcpy\<close>),
  \<open>block_loop\<close> the loop of an update over the full blocks of what is left of its input.
  The locale states what a digest promises to a caller that feeds a message in pieces.
\<close>

definition array_write :: "'a list \<Rightarrow> nat \<Rightarrow> 'a list \<Rightarrow> 'a list" where
  "array_write buf i src = take i buf @ src @ drop (i + length src) buf"

lemma length_array_write [simp]: "i + length src \<le> length buf \<Longrightarrow> length (array_write buf i src) = length buf"
  by (simp add: array_write_def)

lemma take_array_write: "i + length src \<le> length buf \<Longrightarrow> take (i + length src) (array_write buf i src) = take i buf @ src"
  by (simp add: array_write_def)

function block_loop :: "nat \<Rightarrow> ('s \<Rightarrow> bytes \<Rightarrow> 's) \<Rightarrow> 's \<Rightarrow> bytes \<Rightarrow> 's \<times> bytes" where
  "block_loop n transform state input =
     (if 0 < n \<and> n \<le> length input
      then block_loop n transform (transform state (take n input)) (drop n input)
      else (state, input))"
  by pat_completeness auto
termination by (relation "measure (\<lambda>(n, transform, state, input). length input)") auto

declare block_loop.simps [simp del]

lemma block_loop_short: "length input < n \<Longrightarrow> block_loop n transform state input = (state, input)"
  by (subst block_loop.simps) simp

lemma block_loop_full:
  "0 < n \<Longrightarrow> n \<le> length input \<Longrightarrow>
    block_loop n transform state input = block_loop n transform (transform state (take n input)) (drop n input)"
  by (subst block_loop.simps) simp

lemma block_loop_rest: "0 < n \<Longrightarrow> length (snd (block_loop n transform state input)) = length input mod n"
proof (induction n transform state input rule: block_loop.induct)
  case (1 n transform state input)
  show ?case
  proof (cases "n \<le> length input")
    case True
    with 1 have "length (snd (block_loop n transform (transform state (take n input)) (drop n input))) = (length input - n) mod n"
      by simp
    then show ?thesis unfolding block_loop_full [OF 1(2) True] by (simp only: le_mod_geq [OF True])
  next
    case False
    then show ?thesis by (simp add: block_loop_short)
  qed
qed

lemma block_loop_append:
  "0 < n \<Longrightarrow> block_loop n transform state xs = (state', rest) \<Longrightarrow>
    block_loop n transform state (xs @ ys) = block_loop n transform state' (rest @ ys)"
proof (induction n transform state xs rule: block_loop.induct)
  case (1 n transform state xs)
  show ?case
  proof (cases "n \<le> length xs")
    case True
    then have "block_loop n transform (transform state (take n xs)) (drop n xs) = (state', rest)"
      using 1(3) unfolding block_loop_full [OF 1(2) True] by simp
    from 1(1) [OF _ 1(2) this] 1(2) True
    have "block_loop n transform (transform state (take n xs)) (drop n xs @ ys) = block_loop n transform state' (rest @ ys)" by simp
    moreover have "n \<le> length (xs @ ys)" using True by simp
    ultimately show ?thesis unfolding block_loop_full [OF 1(2) \<open>n \<le> length (xs @ ys)\<close>] using True by simp
  next
    case False
    then show ?thesis using 1(3) by (simp add: block_loop_short)
  qed
qed

text \<open>A buffer that holds \<open>i\<close> pending bytes, filled up by the input: the update's two cases.\<close>

definition buffer_update ::
  "nat \<Rightarrow> ('s \<Rightarrow> bytes \<Rightarrow> 's) \<Rightarrow> 's \<Rightarrow> bytes \<Rightarrow> nat \<Rightarrow> bytes \<Rightarrow> 's \<times> bytes" where
  "buffer_update n transform state buffer index input =
     (let partLen = n - index
      in if length input \<ge> partLen
      then let buffer = array_write buffer index (take partLen input);
               state = transform state buffer;
               (state, rest) = block_loop n transform state (drop partLen input)
           in (state, array_write buffer 0 rest)
      else (state, array_write buffer index input))"

lemma buffer_update_spec:
  assumes n: "length buffer = n" "i < n" and r: "buffer_update n transform state buffer i input = (state', buffer')"
    and j: "j = (i + length input) mod n"
  shows "block_loop n transform state (take i buffer @ input) = (state', take j buffer')" "length buffer' = n"
proof -
  have "block_loop n transform state (take i buffer @ input) = (state', take j buffer') \<and> length buffer' = n"
  proof (cases "n - i \<le> length input")
    case True
    define b where "b = array_write buffer i (take (n - i) input)"
    have b: "b = take i buffer @ take (n - i) input" "length b = n" using n True by (simp_all add: b_def array_write_def)
    obtain s rest where l: "block_loop n transform (transform state b) (drop (n - i) input) = (s, rest)" by force
    have "length rest = length (drop (n - i) input) mod n"
      using block_loop_rest [of n transform "transform state b" "drop (n - i) input"] n l by simp
    also have "\<dots> = j" using n True by (simp add: j le_mod_geq add.commute)
    finally have rest: "length rest = j" .
    have sb: "state' = s" "buffer' = array_write b 0 rest"
      using r True l unfolding buffer_update_def Let_def b_def [symmetric] by auto
    have "j < n" using n(2) by (simp add: j)
    then have "take j buffer' = rest" "length buffer' = n" unfolding sb using rest b(2) by (simp_all add: array_write_def)
    moreover have "block_loop n transform state (take i buffer @ input) = (s, rest)"
      using n True l by (subst block_loop_full) (simp_all add: b(1))
    ultimately show ?thesis by (simp add: sb)
  next
    case False
    then have "i + length input < n" by simp
    then have "j = i + length input" by (simp add: j)
    then show ?thesis using r n False take_array_write [of i input buffer] \<open>i + length input < n\<close>
      unfolding buffer_update_def Let_def by (auto simp: block_loop_short)
  qed
  then show "block_loop n transform state (take i buffer @ input) = (state', take j buffer')" "length buffer' = n" by simp_all
qed

subsection \<open>The contract of a digest\<close>

text \<open>
  \<open>view\<close> is the part of a context its results depend on.  An update on the rest of a message
  continues the update on its beginning, and neither an update nor the digest looks beyond
  the view.
\<close>

locale incremental_digest =
  fixes update :: "'c \<Rightarrow> bytes \<Rightarrow> 'c" and view :: "'c \<Rightarrow> 'v" and final :: "'c \<Rightarrow> bytes" and ok :: "'c \<Rightarrow> bool"
    and fits :: "nat \<Rightarrow> bool"
  assumes ok_update: "ok c \<Longrightarrow> fits (length x) \<Longrightarrow> ok (update c x)"
    and view_append: "ok c \<Longrightarrow> fits (length x + length y) \<Longrightarrow> view (update (update c x) y) = view (update c (x @ y))"
    and view_update: "ok c \<Longrightarrow> ok d \<Longrightarrow> view c = view d \<Longrightarrow> fits (length x) \<Longrightarrow> view (update c x) = view (update d x)"
    and view_final: "ok c \<Longrightarrow> ok d \<Longrightarrow> view c = view d \<Longrightarrow> final c = final d"
    and view_nil: "ok c \<Longrightarrow> view (update c []) = view c"
    and fits_less: "fits n \<Longrightarrow> m \<le> n \<Longrightarrow> fits m"
begin

lemma fits_append: "fits (length (x @ y)) \<Longrightarrow> fits (length x)" "fits (length (x @ y)) \<Longrightarrow> fits (length y)"
  by (auto elim: fits_less)

lemma pieces:
  "ok c \<Longrightarrow> fits (length (concat xs)) \<Longrightarrow> ok (foldl update c xs) \<and> view (foldl update c xs) = view (update c (concat xs))"
proof (induction xs rule: rev_induct)
  case (snoc x xs)
  then have f: "fits (length (concat xs))" "fits (length x)" "fits (length (concat xs) + length x)"
    using fits_append [of "concat xs" x] by simp_all
  have ih: "ok (foldl update c xs)" "view (foldl update c xs) = view (update c (concat xs))"
    using snoc.IH snoc.prems(1) f(1) by simp_all
  have "view (update (foldl update c xs) x) = view (update (update c (concat xs)) x)"
    by (rule view_update [OF ih(1) ok_update [OF snoc.prems(1) f(1)] ih(2) f(2)])
  also have "\<dots> = view (update c (concat xs @ x))" by (rule view_append [OF snoc.prems(1) f(3)])
  finally show ?case using ok_update [OF ih(1) f(2)] by simp
qed (simp add: view_nil)

lemma final_pieces:
  assumes "ok c" "fits (length (concat xs))"
  shows "final (foldl update c xs) = final (update c (concat xs))"
  using pieces [OF assms] by (intro view_final ok_update assms) simp_all

end

end
