(* ===== verification/Md2.thy ===== *)
theory Md2
  imports Block_Hash
begin

section \<open>The MD2 message digest (md2c.c)\<close>

text \<open>
  The context is a record, its count of pending bytes a number below 16.  A block changes the
  state and the checksum together.  The theorems hold for inputs shorter than
  \<open>2 ^ 32 - 15\<close> bytes, where the loop counter of the update does not wrap.
\<close>

record MD2_CTX =
  md2_state :: bytes
  md2_checksum :: bytes
  md2_count :: nat
  md2_buffer :: bytes

definition PI_SUBST :: bytes where
  "PI_SUBST =
    [41, 46, 67, 201, 162, 216, 124, 1, 61, 54, 84, 161, 236, 240, 6, 19, 98, 167,
     5, 243, 192, 199, 115, 140, 152, 147, 43, 217, 188, 76, 130, 202, 30, 155, 87,
     60, 253, 212, 224, 22, 103, 66, 111, 24, 138, 23, 229, 18, 190, 78, 196, 214,
     218, 158, 222, 73, 160, 251, 245, 142, 187, 47, 238, 122, 169, 104, 121, 145,
     21, 178, 7, 63, 148, 194, 16, 137, 11, 34, 95, 33, 128, 127, 93, 154, 90, 144,
     50, 39, 53, 62, 204, 231, 191, 247, 151, 3, 255, 25, 48, 179, 72, 165, 181,
     209, 215, 94, 146, 42, 172, 86, 170, 198, 79, 184, 56, 210, 150, 164, 125, 182,
     118, 252, 107, 226, 156, 116, 4, 241, 69, 157, 112, 89, 100, 113, 135, 32, 134,
     91, 207, 101, 230, 45, 168, 2, 27, 96, 37, 173, 174, 176, 185, 246, 28, 70, 97,
     105, 52, 64, 126, 15, 85, 71, 163, 35, 221, 81, 175, 58, 195, 92, 249, 206,
     186, 197, 234, 38, 44, 83, 13, 110, 133, 40, 132, 9, 211, 223, 205, 244, 65,
     129, 77, 82, 106, 220, 55, 200, 108, 193, 171, 250, 36, 225, 123, 8, 12, 189,
     177, 74, 120, 136, 149, 139, 227, 99, 232, 109, 233, 203, 213, 254, 59, 0, 29,
     57, 242, 239, 183, 14, 102, 88, 208, 228, 166, 119, 114, 248, 235, 117, 75, 10,
     49, 68, 80, 180, 143, 237, 31, 26, 219, 153, 141, 51, 159, 17, 131, 20]"

definition md2_PADDING :: "nat \<Rightarrow> bytes" where
  "md2_PADDING n = replicate n (of_nat n)"

subsection \<open>The transformation of a block\<close>

fun md2_round :: "u8 \<Rightarrow> bytes \<Rightarrow> bytes \<times> u8" where
  "md2_round t [] = ([], t)"
| "md2_round t (xj # x) =
     (let t = xj XOR PI_SUBST ! unat t; (x, t') = md2_round t x in (t # x, t'))"

fun md2_rounds :: "nat list \<Rightarrow> u8 \<Rightarrow> bytes \<Rightarrow> bytes" where
  "md2_rounds [] t x = x"
| "md2_rounds (i # is) t x = (let (x, t) = md2_round t x in md2_rounds is (t + of_nat i) x)"

fun md2_checksum_loop :: "u8 \<Rightarrow> bytes \<Rightarrow> bytes \<Rightarrow> bytes" where
  "md2_checksum_loop t (c # checksum) (b # block) =
     (let t = c XOR PI_SUBST ! unat (b XOR t) in t # md2_checksum_loop t checksum block)"
| "md2_checksum_loop t _ _ = []"

definition MD2Transform :: "bytes \<times> bytes \<Rightarrow> bytes \<Rightarrow> bytes \<times> bytes" where
  "MD2Transform = (\<lambda>(state, checksum) block.
     let x = state @ block @ map2 (\<lambda>s b. s XOR b) state block;
         x = md2_rounds [0..<18] 0 x
     in (take 16 x, md2_checksum_loop (checksum ! 15) checksum block))"

subsection \<open>The operations\<close>

definition MD2Init :: "MD2_CTX \<Rightarrow> MD2_CTX" where
  "MD2Init context = context\<lparr>md2_count := 0, md2_state := replicate 16 0, md2_checksum := replicate 16 0\<rparr>"

definition MD2Update :: "MD2_CTX \<Rightarrow> bytes \<Rightarrow> MD2_CTX" where
  "MD2Update context input =
     (let index = md2_count context;
          ((state, checksum), buffer) =
            buffer_update 16 MD2Transform (md2_state context, md2_checksum context) (md2_buffer context) index input
      in \<lparr>md2_state = state, md2_checksum = checksum, md2_count = (index + length input) mod 16, md2_buffer = buffer\<rparr>)"

definition MD2Final :: "MD2_CTX \<Rightarrow> bytes" where
  "MD2Final context =
     (let index = md2_count context;
          padLen = 16 - index;
          context = MD2Update context (md2_PADDING padLen);
          context = MD2Update context (md2_checksum context)
      in take 16 (md2_state context))"

subsection \<open>The substitution\<close>

lemma length_PI_SUBST: "length PI_SUBST = 256"
  by (simp add: PI_SUBST_def)

lemma distinct_PI_SUBST: "distinct (map unat PI_SUBST)"
  by (simp add: PI_SUBST_def)

subsection \<open>Updates\<close>

definition md2_ok :: "MD2_CTX \<Rightarrow> bool" where
  "md2_ok c \<longleftrightarrow> length (md2_buffer c) = 16 \<and> md2_count c < 16"

definition md2_pending :: "MD2_CTX \<Rightarrow> bytes" where
  "md2_pending c = take (md2_count c) (md2_buffer c)"

definition md2_chain :: "MD2_CTX \<Rightarrow> bytes \<times> bytes" where
  "md2_chain c = (md2_state c, md2_checksum c)"

definition md2_view :: "MD2_CTX \<Rightarrow> (bytes \<times> bytes) \<times> bytes" where
  "md2_view c = (md2_chain c, md2_pending c)"

lemma MD2Update_spec:
  assumes "md2_ok c"
  shows "md2_ok (MD2Update c x)"
    "block_loop 16 MD2Transform (md2_chain c) (md2_pending c @ x) = md2_view (MD2Update c x)"
    "md2_count (MD2Update c x) = (md2_count c + length x) mod 16"
proof -
  obtain s k b where r: "buffer_update 16 MD2Transform (md2_chain c) (md2_buffer c) (md2_count c) x = ((s, k), b)"
    by (metis prod.exhaust)
  have u: "MD2Update c x = \<lparr>md2_state = s, md2_checksum = k, md2_count = (md2_count c + length x) mod 16, md2_buffer = b\<rparr>"
    by (simp add: MD2Update_def r [unfolded md2_chain_def])
  show "md2_count (MD2Update c x) = (md2_count c + length x) mod 16" by (simp add: u)
  note s = buffer_update_spec [OF _ _ r refl]
  show "md2_ok (MD2Update c x)" using s(2) assms by (simp add: md2_ok_def u)
  show "block_loop 16 MD2Transform (md2_chain c) (md2_pending c @ x) = md2_view (MD2Update c x)"
    using s(1) assms by (simp add: md2_ok_def md2_pending_def md2_view_def md2_chain_def u)
qed

lemma md2_count_pending: "md2_ok c \<Longrightarrow> length (md2_pending c) = md2_count c"
  by (simp add: md2_ok_def md2_pending_def)

lemma md2_view_final:
  assumes "md2_ok c" "md2_ok d" "md2_view c = md2_view d"
  shows "MD2Final c = MD2Final d"
proof -
  have e: "md2_chain c = md2_chain d" "md2_pending c = md2_pending d" using assms(3) by (simp_all add: md2_view_def)
  then have n: "md2_count c = md2_count d" using md2_count_pending assms(1,2) by metis
  define p where "p = md2_PADDING (16 - md2_count d)"
  have v: "md2_view (MD2Update c p) = md2_view (MD2Update d p)"
    unfolding MD2Update_spec(2) [OF assms(1), symmetric] MD2Update_spec(2) [OF assms(2), symmetric] e ..
  then have k: "md2_checksum (MD2Update c p) = md2_checksum (MD2Update d p)" "md2_chain (MD2Update c p) = md2_chain (MD2Update d p)"
    "md2_pending (MD2Update c p) = md2_pending (MD2Update d p)"
    by (simp_all add: md2_view_def md2_chain_def)
  note okc = MD2Update_spec(1) [OF assms(1), of p] and okd = MD2Update_spec(1) [OF assms(2), of p]
  have "md2_view (MD2Update (MD2Update c p) x) = md2_view (MD2Update (MD2Update d p) x)" for x
    unfolding MD2Update_spec(2) [OF okc, symmetric] MD2Update_spec(2) [OF okd, symmetric] k ..
  then have "md2_state (MD2Update (MD2Update c p) x) = md2_state (MD2Update (MD2Update d p) x)" for x
    unfolding md2_view_def md2_chain_def by (metis fst_conv)
  then show ?thesis unfolding MD2Final_def Let_def n p_def [symmetric] k(1) by simp
qed

lemma md2_view_append:
  assumes "md2_ok c"
  shows "md2_view (MD2Update (MD2Update c x) y) = md2_view (MD2Update c (x @ y))"
proof -
  note u = MD2Update_spec [OF assms]
  note w = MD2Update_spec(2) [OF u(1)]
  have "block_loop 16 MD2Transform (md2_chain c) (md2_pending c @ x) = (md2_chain (MD2Update c x), md2_pending (MD2Update c x))"
    using u(2) [of x] by (simp add: md2_view_def)
  from block_loop_append [OF _ this, of y] show ?thesis unfolding w [symmetric] u(2) [symmetric] by simp
qed

definition md2_fits :: "nat \<Rightarrow> bool" where
  "md2_fits n \<longleftrightarrow> n < 2 ^ 32 - 15"

interpretation md2: incremental_digest MD2Update md2_view MD2Final md2_ok md2_fits
proof
  fix c d :: MD2_CTX and x y :: bytes and m n :: nat
  show "md2_ok c \<Longrightarrow> md2_fits (length x) \<Longrightarrow> md2_ok (MD2Update c x)" by (rule MD2Update_spec(1))
  show "md2_ok c \<Longrightarrow> md2_fits (length x + length y) \<Longrightarrow> md2_view (MD2Update (MD2Update c x) y) = md2_view (MD2Update c (x @ y))"
    by (rule md2_view_append)
  show "md2_ok c \<Longrightarrow> md2_ok d \<Longrightarrow> md2_view c = md2_view d \<Longrightarrow> md2_fits (length x) \<Longrightarrow>
      md2_view (MD2Update c x) = md2_view (MD2Update d x)"
    unfolding MD2Update_spec(2) [symmetric] by (simp add: md2_view_def)
  show "md2_ok c \<Longrightarrow> md2_ok d \<Longrightarrow> md2_view c = md2_view d \<Longrightarrow> MD2Final c = MD2Final d" by (rule md2_view_final)
  show "md2_view (MD2Update c []) = md2_view c" if "md2_ok c"
    using md2_count_pending [OF that] that unfolding MD2Update_spec(2) [OF that, symmetric]
    by (simp add: md2_view_def block_loop_short md2_ok_def)
  show "md2_fits n \<Longrightarrow> m \<le> n \<Longrightarrow> md2_fits m" by (simp add: md2_fits_def)
qed

subsection \<open>The digest of a message\<close>

text \<open>
  The one-shot digest: the message padded to a multiple of 16 bytes with the number of bytes
  added, transformed block by block, and then the checksum as one block more.
\<close>

definition md2_padded :: "bytes \<Rightarrow> bytes" where
  "md2_padded m = m @ replicate (16 - length m mod 16) (of_nat (16 - length m mod 16))"

definition md2_digest :: "bytes \<Rightarrow> bytes" where
  "md2_digest m =
     (let (state, checksum) = fst (block_loop 16 MD2Transform (replicate 16 0, replicate 16 0) (md2_padded m))
      in fst (MD2Transform (state, checksum) checksum))"

lemma length_md2_round [simp]: "length (fst (md2_round t x)) = length x"
  by (induction t x rule: md2_round.induct) (simp_all add: Let_def case_prod_beta)

lemma length_md2_rounds [simp]: "length (md2_rounds is t x) = length x"
  by (induction "is" t x rule: md2_rounds.induct) (simp_all add: case_prod_beta)

lemma length_md2_checksum_loop [simp]: "length (md2_checksum_loop t c b) = min (length c) (length b)"
  by (induction t c b rule: md2_checksum_loop.induct) (simp_all add: Let_def)

lemma length_MD2Transform:
  "length b = 16 \<Longrightarrow> length (snd s) = 16 \<Longrightarrow> length (snd (MD2Transform s b)) = 16"
  "length b = 16 \<Longrightarrow> length (fst (MD2Transform s b)) = 16"
  by (simp_all add: MD2Transform_def case_prod_beta)

lemma length_block_loop_checksum:
  "length (snd s) = 16 \<Longrightarrow> length (snd (fst (block_loop 16 MD2Transform s x))) = 16"
proof (induction "length x" arbitrary: s x rule: less_induct)
  case less
  show ?case
  proof (cases "16 \<le> length x")
    case True
    have "length (drop 16 x) < length x" using True by simp
    from less.hyps [OF this, of "MD2Transform s (take 16 x)"] show ?thesis
      using True less.prems unfolding block_loop_full [OF zero_less_numeral True] by (simp add: length_MD2Transform)
  next
    case False
    then show ?thesis using less.prems by (simp add: block_loop_short)
  qed
qed

lemma MD2Final_spec:
  assumes "length (md2_buffer c) = 16"
  shows "MD2Final (MD2Update (MD2Init c) m) = md2_digest m"
proof -
  define c0 c1 where "c0 = MD2Init c" and "c1 = MD2Update c0 m"
  have ok0: "md2_ok c0" using assms by (simp add: md2_ok_def c0_def MD2Init_def)
  have p0: "md2_pending c0 = []" "md2_count c0 = 0" "md2_chain c0 = (replicate 16 0, replicate 16 0)"
    by (simp_all add: md2_pending_def c0_def MD2Init_def md2_chain_def)
  note s1 = MD2Update_spec [OF ok0, of m, folded c1_def, unfolded p0 append_Nil add_0]
  define p where "p = md2_PADDING (16 - length m mod 16)"
  define c2 where "c2 = MD2Update c1 p"
  note s2 = MD2Update_spec [OF s1(1), of p, folded c2_def]
  have lp: "length p = 16 - length m mod 16" by (simp add: p_def md2_PADDING_def)
  have "md2_count c2 = (length m mod 16 + (16 - length m mod 16)) mod 16" by (simp only: s2(3) s1(3) lp)
  also have "length m mod 16 + (16 - length m mod 16) = 16" by simp
  finally have n2: "md2_count c2 = 0" by simp
  have b: "block_loop 16 MD2Transform (replicate 16 0, replicate 16 0) (md2_padded m) = (md2_chain c2, [])"
    using block_loop_append [OF _ s1(2) [unfolded md2_view_def], of p] s2(2) n2
    by (simp add: md2_padded_def p_def md2_PADDING_def md2_view_def md2_pending_def)
  then have l: "length (md2_checksum c2) = 16"
    using length_block_loop_checksum [of "(replicate 16 0, replicate 16 0)" "md2_padded m"] by (simp add: md2_chain_def)
  define c3 where "c3 = MD2Update c2 (md2_checksum c2)"
  note s3 = MD2Update_spec(2) [OF s2(1), of "md2_checksum c2", folded c3_def]
  have "md2_chain c3 = MD2Transform (md2_chain c2) (md2_checksum c2)"
    using s3 n2 l by (simp add: md2_view_def md2_pending_def block_loop_full block_loop_short)
  then have "md2_state c3 = fst (MD2Transform (md2_chain c2) (md2_checksum c2))" by (simp add: md2_chain_def prod_eq_iff)
  moreover have "length (md2_state c3) = 16" unfolding calculation by (simp add: length_MD2Transform l)
  ultimately have "take 16 (md2_state c3) = fst (MD2Transform (md2_chain c2) (md2_checksum c2))" by simp
  moreover have "MD2Final c1 = take 16 (md2_state c3)"
    unfolding MD2Final_def Let_def s1(3) p_def [symmetric] c2_def [symmetric] c3_def ..
  moreover have "md2_digest m = fst (MD2Transform (md2_chain c2) (md2_checksum c2))"
    unfolding md2_digest_def b by (simp add: md2_chain_def)
  ultimately show ?thesis by (simp add: c1_def c0_def)
qed

end
