(* ===== verification/Md5.thy ===== *)
theory Md5
  imports Block_Hash
begin

section \<open>The MD5 message digest (md5c.c)\<close>

text \<open>
  The context is a record; its count is the pair of its two words, low word first.  The
  buffer starts with the bytes the caller's structure held, a parameter of \<open>MD5Init\<close>.
  Lengths are \<open>unsigned int\<close>: the theorems hold for inputs shorter than \<open>2 ^ 32 - 63\<close>
  bytes, where the loop counter of the update does not wrap.
\<close>

record MD5_CTX =
  md5_state :: "u32 list"
  md5_count :: "u32 \<times> u32"
  md5_buffer :: bytes

abbreviation (input) S11 :: nat where "S11 \<equiv> 7"
abbreviation (input) S12 :: nat where "S12 \<equiv> 12"
abbreviation (input) S13 :: nat where "S13 \<equiv> 17"
abbreviation (input) S14 :: nat where "S14 \<equiv> 22"
abbreviation (input) S21 :: nat where "S21 \<equiv> 5"
abbreviation (input) S22 :: nat where "S22 \<equiv> 9"
abbreviation (input) S23 :: nat where "S23 \<equiv> 14"
abbreviation (input) S24 :: nat where "S24 \<equiv> 20"
abbreviation (input) S31 :: nat where "S31 \<equiv> 4"
abbreviation (input) S32 :: nat where "S32 \<equiv> 11"
abbreviation (input) S33 :: nat where "S33 \<equiv> 16"
abbreviation (input) S34 :: nat where "S34 \<equiv> 23"
abbreviation (input) S41 :: nat where "S41 \<equiv> 6"
abbreviation (input) S42 :: nat where "S42 \<equiv> 10"
abbreviation (input) S43 :: nat where "S43 \<equiv> 15"
abbreviation (input) S44 :: nat where "S44 \<equiv> 21"

text \<open>The basic functions and the four kinds of step.\<close>

definition md5_F :: "u32 \<Rightarrow> u32 \<Rightarrow> u32 \<Rightarrow> u32" where
  "md5_F x y z = (x AND y) OR (NOT x AND z)"

definition md5_G :: "u32 \<Rightarrow> u32 \<Rightarrow> u32 \<Rightarrow> u32" where
  "md5_G x y z = (x AND z) OR (y AND NOT z)"

definition md5_H :: "u32 \<Rightarrow> u32 \<Rightarrow> u32 \<Rightarrow> u32" where
  "md5_H x y z = (x XOR y) XOR z"

definition md5_I :: "u32 \<Rightarrow> u32 \<Rightarrow> u32 \<Rightarrow> u32" where
  "md5_I x y z = y XOR (x OR NOT z)"

definition ROTATE_LEFT :: "u32 \<Rightarrow> nat \<Rightarrow> u32" where
  "ROTATE_LEFT x n = push_bit n x OR drop_bit (32 - n) x"

definition FF :: "u32 \<Rightarrow> u32 \<Rightarrow> u32 \<Rightarrow> u32 \<Rightarrow> u32 \<Rightarrow> nat \<Rightarrow> u32 \<Rightarrow> u32" where
  "FF a b c d x s ac = ROTATE_LEFT (a + (md5_F b c d + x + ac)) s + b"

definition GG :: "u32 \<Rightarrow> u32 \<Rightarrow> u32 \<Rightarrow> u32 \<Rightarrow> u32 \<Rightarrow> nat \<Rightarrow> u32 \<Rightarrow> u32" where
  "GG a b c d x s ac = ROTATE_LEFT (a + (md5_G b c d + x + ac)) s + b"

definition HH :: "u32 \<Rightarrow> u32 \<Rightarrow> u32 \<Rightarrow> u32 \<Rightarrow> u32 \<Rightarrow> nat \<Rightarrow> u32 \<Rightarrow> u32" where
  "HH a b c d x s ac = ROTATE_LEFT (a + (md5_H b c d + x + ac)) s + b"

definition II :: "u32 \<Rightarrow> u32 \<Rightarrow> u32 \<Rightarrow> u32 \<Rightarrow> u32 \<Rightarrow> nat \<Rightarrow> u32 \<Rightarrow> u32" where
  "II a b c d x s ac = ROTATE_LEFT (a + (md5_I b c d + x + ac)) s + b"

text \<open>Words as bytes, the least significant byte first.\<close>

fun md5_Encode :: "u32 list \<Rightarrow> bytes" where
  "md5_Encode [] = []"
| "md5_Encode (w # ws) =
     [ucast (w AND 0xff), ucast (drop_bit 8 w AND 0xff), ucast (drop_bit 16 w AND 0xff), ucast (drop_bit 24 w AND 0xff)]
     @ md5_Encode ws"

fun md5_Decode :: "bytes \<Rightarrow> u32 list" where
  "md5_Decode (b0 # b1 # b2 # b3 # bs) =
     (ucast b0 OR push_bit 8 (ucast b1) OR push_bit 16 (ucast b2) OR push_bit 24 (ucast b3)) # md5_Decode bs"
| "md5_Decode _ = []"

subsection \<open>The transformation of a block\<close>

definition md5_round1 :: "u32 list \<Rightarrow> u32 \<times> u32 \<times> u32 \<times> u32 \<Rightarrow> u32 \<times> u32 \<times> u32 \<times> u32" where
  "md5_round1 x = (\<lambda>(a, b, c, d).
     let a = FF a b c d (x ! 0) S11 0xd76aa478;
         d = FF d a b c (x ! 1) S12 0xe8c7b756;
         c = FF c d a b (x ! 2) S13 0x242070db;
         b = FF b c d a (x ! 3) S14 0xc1bdceee;
         a = FF a b c d (x ! 4) S11 0xf57c0faf;
         d = FF d a b c (x ! 5) S12 0x4787c62a;
         c = FF c d a b (x ! 6) S13 0xa8304613;
         b = FF b c d a (x ! 7) S14 0xfd469501;
         a = FF a b c d (x ! 8) S11 0x698098d8;
         d = FF d a b c (x ! 9) S12 0x8b44f7af;
         c = FF c d a b (x ! 10) S13 0xffff5bb1;
         b = FF b c d a (x ! 11) S14 0x895cd7be;
         a = FF a b c d (x ! 12) S11 0x6b901122;
         d = FF d a b c (x ! 13) S12 0xfd987193;
         c = FF c d a b (x ! 14) S13 0xa679438e;
         b = FF b c d a (x ! 15) S14 0x49b40821
     in (a, b, c, d))"

definition md5_round2 :: "u32 list \<Rightarrow> u32 \<times> u32 \<times> u32 \<times> u32 \<Rightarrow> u32 \<times> u32 \<times> u32 \<times> u32" where
  "md5_round2 x = (\<lambda>(a, b, c, d).
     let a = GG a b c d (x ! 1) S21 0xf61e2562;
         d = GG d a b c (x ! 6) S22 0xc040b340;
         c = GG c d a b (x ! 11) S23 0x265e5a51;
         b = GG b c d a (x ! 0) S24 0xe9b6c7aa;
         a = GG a b c d (x ! 5) S21 0xd62f105d;
         d = GG d a b c (x ! 10) S22 0x2441453;
         c = GG c d a b (x ! 15) S23 0xd8a1e681;
         b = GG b c d a (x ! 4) S24 0xe7d3fbc8;
         a = GG a b c d (x ! 9) S21 0x21e1cde6;
         d = GG d a b c (x ! 14) S22 0xc33707d6;
         c = GG c d a b (x ! 3) S23 0xf4d50d87;
         b = GG b c d a (x ! 8) S24 0x455a14ed;
         a = GG a b c d (x ! 13) S21 0xa9e3e905;
         d = GG d a b c (x ! 2) S22 0xfcefa3f8;
         c = GG c d a b (x ! 7) S23 0x676f02d9;
         b = GG b c d a (x ! 12) S24 0x8d2a4c8a
     in (a, b, c, d))"

definition md5_round3 :: "u32 list \<Rightarrow> u32 \<times> u32 \<times> u32 \<times> u32 \<Rightarrow> u32 \<times> u32 \<times> u32 \<times> u32" where
  "md5_round3 x = (\<lambda>(a, b, c, d).
     let a = HH a b c d (x ! 5) S31 0xfffa3942;
         d = HH d a b c (x ! 8) S32 0x8771f681;
         c = HH c d a b (x ! 11) S33 0x6d9d6122;
         b = HH b c d a (x ! 14) S34 0xfde5380c;
         a = HH a b c d (x ! 1) S31 0xa4beea44;
         d = HH d a b c (x ! 4) S32 0x4bdecfa9;
         c = HH c d a b (x ! 7) S33 0xf6bb4b60;
         b = HH b c d a (x ! 10) S34 0xbebfbc70;
         a = HH a b c d (x ! 13) S31 0x289b7ec6;
         d = HH d a b c (x ! 0) S32 0xeaa127fa;
         c = HH c d a b (x ! 3) S33 0xd4ef3085;
         b = HH b c d a (x ! 6) S34 0x4881d05;
         a = HH a b c d (x ! 9) S31 0xd9d4d039;
         d = HH d a b c (x ! 12) S32 0xe6db99e5;
         c = HH c d a b (x ! 15) S33 0x1fa27cf8;
         b = HH b c d a (x ! 2) S34 0xc4ac5665
     in (a, b, c, d))"

definition md5_round4 :: "u32 list \<Rightarrow> u32 \<times> u32 \<times> u32 \<times> u32 \<Rightarrow> u32 \<times> u32 \<times> u32 \<times> u32" where
  "md5_round4 x = (\<lambda>(a, b, c, d).
     let a = II a b c d (x ! 0) S41 0xf4292244;
         d = II d a b c (x ! 7) S42 0x432aff97;
         c = II c d a b (x ! 14) S43 0xab9423a7;
         b = II b c d a (x ! 5) S44 0xfc93a039;
         a = II a b c d (x ! 12) S41 0x655b59c3;
         d = II d a b c (x ! 3) S42 0x8f0ccc92;
         c = II c d a b (x ! 10) S43 0xffeff47d;
         b = II b c d a (x ! 1) S44 0x85845dd1;
         a = II a b c d (x ! 8) S41 0x6fa87e4f;
         d = II d a b c (x ! 15) S42 0xfe2ce6e0;
         c = II c d a b (x ! 6) S43 0xa3014314;
         b = II b c d a (x ! 13) S44 0x4e0811a1;
         a = II a b c d (x ! 4) S41 0xf7537e82;
         d = II d a b c (x ! 11) S42 0xbd3af235;
         c = II c d a b (x ! 2) S43 0x2ad7d2bb;
         b = II b c d a (x ! 9) S44 0xeb86d391
     in (a, b, c, d))"

definition MD5Transform :: "u32 list \<Rightarrow> bytes \<Rightarrow> u32 list" where
  "MD5Transform state block =
     (let x = md5_Decode block;
          (a, b, c, d) = md5_round4 x (md5_round3 x (md5_round2 x (md5_round1 x (state ! 0, state ! 1, state ! 2, state ! 3))))
      in [state ! 0 + a, state ! 1 + b, state ! 2 + c, state ! 3 + d])"

subsection \<open>The operations\<close>

definition MD5Init :: "MD5_CTX \<Rightarrow> MD5_CTX" where
  "MD5Init context = context\<lparr>md5_count := (0, 0),
     md5_state := [0x67452301, 0xefcdab89, 0x98badcfe, 0x10325476]\<rparr>"

definition md5_index :: "MD5_CTX \<Rightarrow> nat" where
  "md5_index context = unat (drop_bit 3 (fst (md5_count context)) AND 0x3f)"

definition md5_add_bits :: "u32 \<times> u32 \<Rightarrow> u32 \<Rightarrow> u32 \<times> u32" where
  "md5_add_bits = (\<lambda>(c0, c1) inputLen.
     let c0 = c0 + push_bit 3 inputLen;
         c1 = (if c0 < push_bit 3 inputLen then c1 + 1 else c1)
     in (c0, c1 + drop_bit 29 inputLen))"

definition MD5Update :: "MD5_CTX \<Rightarrow> bytes \<Rightarrow> MD5_CTX" where
  "MD5Update context input =
     (let index = md5_index context;
          (state, buffer) = buffer_update 64 MD5Transform (md5_state context) (md5_buffer context) index input
      in \<lparr>md5_state = state, md5_count = md5_add_bits (md5_count context) (of_nat (length input)), md5_buffer = buffer\<rparr>)"

definition md5_PADDING :: bytes where
  "md5_PADDING = 0x80 # replicate 63 0"

definition MD5Final :: "MD5_CTX \<Rightarrow> bytes" where
  "MD5Final context =
     (let bits = md5_Encode [fst (md5_count context), snd (md5_count context)];
          index = md5_index context;
          padLen = (if index < 56 then 56 - index else 120 - index);
          context = MD5Update context (take padLen md5_PADDING);
          context = MD5Update context bits
      in md5_Encode (md5_state context))"

subsection \<open>The count of bits\<close>

definition md5_bits :: "u32 \<times> u32 \<Rightarrow> nat" where
  "md5_bits c = unat (fst c) + 2 ^ 32 * unat (snd c)"

lemma md5_bits_less: "md5_bits c < 2 ^ 64"
  using unat_digit_less [of "fst c"] mult_le_mono2 [of "unat (snd c)" "2 ^ 32 - 1" "2 ^ 32"] unat_digit_less [of "snd c"]
  by (simp add: md5_bits_def)

lemma md5_bits_inj: "md5_bits c = md5_bits d \<Longrightarrow> c = d"
  using nn_val_inj [of "[fst c, snd c]" "[fst d, snd d]"] by (simp add: md5_bits_def prod_eq_iff)

lemma low_word_mod: "(x::nat) < 2 ^ 32 \<Longrightarrow> (x + 2 ^ 32 * z) mod 2 ^ 64 = x + 2 ^ 32 * (z mod 2 ^ 32)"
  using mod_mult2_eq [of "x + 2 ^ 32 * z" "2 ^ 32" "2 ^ 32"] by simp

lemma double_word_sum:
  fixes c0 c1 s h :: u32
  shows "md5_bits (c0 + s, (if c0 + s < s then c1 + 1 else c1) + h) =
    (md5_bits (c0, c1) + unat s + 2 ^ 32 * unat h) mod 2 ^ 64"
proof -
  define k where "k = (if c0 + s < s then 1 else 0 :: u32)"
  have k: "unat (c0 + s) + 2 ^ 32 * unat k = unat c0 + unat s" unfolding k_def by (rule carry_digit)
  have e: "(if c0 + s < s then c1 + 1 else c1) + h = c1 + h + k" by (simp add: k_def)
  have "unat (c1 + h + k) = (unat c1 + unat h + unat k) mod 2 ^ 32" by (simp add: unat_word_ariths mod_simps)
  then have "md5_bits (c0 + s, c1 + h + k) = unat (c0 + s) + 2 ^ 32 * ((unat c1 + unat h + unat k) mod 2 ^ 32)"
    by (simp add: md5_bits_def)
  also have "\<dots> = (unat (c0 + s) + 2 ^ 32 * (unat c1 + unat h + unat k)) mod 2 ^ 64"
    by (rule low_word_mod [symmetric]) (rule unat_digit_less)
  also have "unat (c0 + s) + 2 ^ 32 * (unat c1 + unat h + unat k) = md5_bits (c0, c1) + unat s + 2 ^ 32 * unat h"
    using k by (simp add: md5_bits_def)
  finally show ?thesis unfolding e .
qed

lemma shifted_length:
  assumes "n < 2 ^ 32"
  shows "unat (push_bit 3 (of_nat n :: u32)) + 2 ^ 32 * unat (drop_bit 29 (of_nat n :: u32)) = 8 * n"
proof -
  have "unat (of_nat n :: u32) = n" using assms by (simp add: unat_of_nat take_bit_nat_eq_self)
  then have "unat (push_bit 3 (of_nat n :: u32)) = n * 8 mod (2 ^ 29 * 8)" "unat (drop_bit 29 (of_nat n :: u32)) = n div 2 ^ 29"
    by (simp_all add: unat_push_bit unat_drop_bit)
  then have "unat (push_bit 3 (of_nat n :: u32)) + 2 ^ 32 * unat (drop_bit 29 (of_nat n :: u32)) = 8 * (n mod 2 ^ 29) + 8 * (2 ^ 29 * (n div 2 ^ 29))"
    unfolding mult_mod_left [symmetric] by simp
  also have "\<dots> = 8 * n" unfolding distrib_left [symmetric] by simp
  finally show ?thesis .
qed

lemma md5_add_bits_value: "n < 2 ^ 32 \<Longrightarrow> md5_bits (md5_add_bits c (of_nat n)) = (md5_bits c + 8 * n) mod 2 ^ 64"
  using double_word_sum [of "fst c" "push_bit 3 (of_nat n)" "snd c" "drop_bit 29 (of_nat n)"] shifted_length [of n]
  by (simp add: md5_add_bits_def Let_def case_prod_beta add.assoc)

lemma md5_index_value: "md5_index c = md5_bits (md5_count c) div 8 mod 64"
proof -
  define x y where "x = fst (md5_count c)" and "y = unat (snd (md5_count c))"
  have "drop_bit 3 x AND 0x3f = take_bit 6 (drop_bit 3 x)" by (simp add: take_bit_eq_mask mask_eq_exp_minus_1)
  then have "md5_index c = unat x div 8 mod 64"
    by (simp add: md5_index_def x_def unat_mod unat_drop_bit take_bit_eq_mod)
  moreover have "(unat x + 2 ^ 32 * y) div 8 mod 64 = unat x div 8 mod 64"
  proof -
    have "unat x + 2 ^ 32 * y = unat x + y * 2 ^ 29 * 8" by simp
    then have "(unat x + 2 ^ 32 * y) div 8 = unat x div 8 + y * 2 ^ 29" by (simp only: div_mult_self1 zero_neq_numeral not_False_eq_True)
    also have "\<dots> = unat x div 8 + y * 2 ^ 23 * 64" by simp
    finally show ?thesis by (simp only: mod_mult_self1)
  qed
  ultimately show ?thesis by (simp add: md5_bits_def x_def y_def)
qed

lemma md5_index_less: "md5_index c < 64"
  by (simp add: md5_index_value)

lemma md5_index_add:
  assumes "n < 2 ^ 32" "md5_count d = md5_add_bits (md5_count c) (of_nat n)"
  shows "md5_index d = (md5_index c + n) mod 64"
proof -
  have "md5_index d = (md5_bits (md5_count c) + 8 * n) mod 2 ^ 64 div 8 mod 64"
    using assms by (simp add: md5_index_value md5_add_bits_value)
  also have "(md5_bits (md5_count c) + 8 * n) mod 2 ^ 64 div 8 = (md5_bits (md5_count c) + 8 * n) div 8 mod 2 ^ 61"
    using mod_mult2_eq [of "md5_bits (md5_count c) + 8 * n" 8 "2 ^ 61"] by simp
  also have "\<dots> mod 64 = (md5_bits (md5_count c) + 8 * n) div 8 mod 64"
    by (rule mod_mod_cancel) simp
  also have "\<dots> = (md5_bits (md5_count c) div 8 + n) mod 64" by (simp add: add.commute)
  finally show ?thesis by (simp add: md5_index_value mod_simps add.commute)
qed

subsection \<open>Updates\<close>

definition md5_ok :: "MD5_CTX \<Rightarrow> bool" where
  "md5_ok c \<longleftrightarrow> length (md5_buffer c) = 64"

definition md5_pending :: "MD5_CTX \<Rightarrow> bytes" where
  "md5_pending c = take (md5_index c) (md5_buffer c)"

definition md5_view :: "MD5_CTX \<Rightarrow> u32 list \<times> (u32 \<times> u32) \<times> bytes" where
  "md5_view c = (md5_state c, md5_count c, md5_pending c)"

text \<open>The abstract update: the blocks of what is pending and the input, and the count.\<close>

lemma MD5Update_spec:
  assumes "md5_ok c" "length x < 2 ^ 32"
  shows "md5_ok (MD5Update c x)"
    "block_loop 64 MD5Transform (md5_state c) (md5_pending c @ x) = (md5_state (MD5Update c x), md5_pending (MD5Update c x))"
    "md5_count (MD5Update c x) = md5_add_bits (md5_count c) (of_nat (length x))"
proof -
  obtain s b where r: "buffer_update 64 MD5Transform (md5_state c) (md5_buffer c) (md5_index c) x = (s, b)" by force
  have u: "MD5Update c x = \<lparr>md5_state = s, md5_count = md5_add_bits (md5_count c) (of_nat (length x)), md5_buffer = b\<rparr>"
    by (simp add: MD5Update_def r)
  then show c: "md5_count (MD5Update c x) = md5_add_bits (md5_count c) (of_nat (length x))" by simp
  note i = md5_index_add [OF assms(2) c]
  note s = buffer_update_spec [OF assms(1) [unfolded md5_ok_def] md5_index_less r i]
  show "md5_ok (MD5Update c x)"
    "block_loop 64 MD5Transform (md5_state c) (md5_pending c @ x) = (md5_state (MD5Update c x), md5_pending (MD5Update c x))"
    using s by (simp_all add: md5_ok_def md5_pending_def u)
qed

lemma md5_add_bits_append:
  "m + n < 2 ^ 32 \<Longrightarrow> md5_add_bits (md5_add_bits c (of_nat m)) (of_nat n) = md5_add_bits c (of_nat (m + n))"
  by (rule md5_bits_inj) (simp add: md5_add_bits_value mod_simps algebra_simps del: of_nat_add)

lemma md5_view_append:
  assumes "md5_ok c" "length x + length y < 2 ^ 32"
  shows "md5_view (MD5Update (MD5Update c x) y) = md5_view (MD5Update c (x @ y))"
proof -
  have l: "length x < 2 ^ 32" "length y < 2 ^ 32" "length (x @ y) < 2 ^ 32" using assms(2) by simp_all
  note u = MD5Update_spec [OF assms(1) l(1)]
  note v = MD5Update_spec [OF u(1) l(2)]
  note w = MD5Update_spec [OF assms(1) l(3)]
  have "(md5_state (MD5Update (MD5Update c x) y), md5_pending (MD5Update (MD5Update c x) y)) =
      (md5_state (MD5Update c (x @ y)), md5_pending (MD5Update c (x @ y)))"
    using block_loop_append [OF _ u(2), of y] unfolding v(2) [symmetric] w(2) [symmetric] by simp
  moreover have "md5_count (MD5Update (MD5Update c x) y) = md5_count (MD5Update c (x @ y))"
    unfolding v(3) u(3) w(3) md5_add_bits_append [OF assms(2)] by simp
  ultimately show ?thesis by (simp add: md5_view_def)
qed

lemma md5_view_update:
  assumes "md5_ok c" "md5_ok d" "md5_view c = md5_view d" "length x < 2 ^ 32"
  shows "md5_view (MD5Update c x) = md5_view (MD5Update d x)"
  using MD5Update_spec [OF assms(1,4)] MD5Update_spec [OF assms(2,4)] assms(3) by (simp add: md5_view_def)

lemma length_md5_Encode [simp]: "length (md5_Encode ws) = 4 * length ws"
  by (induction ws) simp_all

lemma md5_view_final:
  assumes "md5_ok c" "md5_ok d" "md5_view c = md5_view d"
  shows "MD5Final c = MD5Final d"
proof -
  have i: "md5_index c = md5_index d" "md5_count c = md5_count d" using assms(3) by (simp_all add: md5_view_def md5_index_def)
  define p b where "p = take (if md5_index d < 56 then 56 - md5_index d else 120 - md5_index d) md5_PADDING"
    and "b = md5_Encode [fst (md5_count d), snd (md5_count d)]"
  have l: "length p < 2 ^ 32" "length b < 2 ^ 32" by (simp_all add: p_def b_def md5_PADDING_def)
  have "md5_view (MD5Update (MD5Update c p) b) = md5_view (MD5Update (MD5Update d p) b)"
    using assms l by (intro md5_view_update MD5Update_spec(1))
  then show ?thesis unfolding MD5Final_def Let_def i p_def [symmetric] b_def [symmetric] by (simp add: md5_view_def)
qed

definition md5_fits :: "nat \<Rightarrow> bool" where
  "md5_fits n \<longleftrightarrow> n < 2 ^ 32 - 63"

interpretation md5: incremental_digest MD5Update md5_view MD5Final md5_ok md5_fits
proof
  fix c d :: MD5_CTX and x y :: bytes and m n :: nat
  show "md5_ok c \<Longrightarrow> md5_fits (length x) \<Longrightarrow> md5_ok (MD5Update c x)"
    by (rule MD5Update_spec(1)) (simp_all add: md5_fits_def)
  show "md5_ok c \<Longrightarrow> md5_fits (length x + length y) \<Longrightarrow> md5_view (MD5Update (MD5Update c x) y) = md5_view (MD5Update c (x @ y))"
    by (rule md5_view_append) (simp_all add: md5_fits_def)
  show "md5_ok c \<Longrightarrow> md5_ok d \<Longrightarrow> md5_view c = md5_view d \<Longrightarrow> md5_fits (length x) \<Longrightarrow>
      md5_view (MD5Update c x) = md5_view (MD5Update d x)"
    by (rule md5_view_update) (simp_all add: md5_fits_def)
  show "md5_ok c \<Longrightarrow> md5_ok d \<Longrightarrow> md5_view c = md5_view d \<Longrightarrow> MD5Final c = MD5Final d"
    by (rule md5_view_final)
  show "md5_view (MD5Update c []) = md5_view c" if "md5_ok c"
  proof -
    have "length (md5_pending c) < 64" using that md5_index_less [of c] by (simp add: md5_pending_def md5_ok_def)
    then show ?thesis using MD5Update_spec [OF that, of "[]"]
      by (simp add: md5_view_def block_loop_short md5_add_bits_def Let_def case_prod_beta)
  qed
  show "md5_fits n \<Longrightarrow> m \<le> n \<Longrightarrow> md5_fits m" by (simp add: md5_fits_def)
qed

subsection \<open>The digest of a message\<close>

text \<open>
  The one-shot digest: the message, a one bit, zeros up to 56 modulo 64, and the length in
  bits in eight bytes, transformed block by block from the initial state.
\<close>

definition md5_padded :: "bytes \<Rightarrow> bytes" where
  "md5_padded m = m @ 0x80 # replicate ((119 - length m mod 64) mod 64) 0 @
     md5_Encode [of_nat (8 * length m), of_nat (8 * length m div 2 ^ 32)]"

definition md5_digest :: "bytes \<Rightarrow> bytes" where
  "md5_digest m = md5_Encode (fst (block_loop 64 MD5Transform [0x67452301, 0xefcdab89, 0x98badcfe, 0x10325476] (md5_padded m)))"

lemma length_md5_padded: "length (md5_padded m) mod 64 = 0"
proof -
  define r where "r = length m mod 64"
  have "r < 64" by (simp add: r_def)
  have "length (md5_padded m) mod 64 = (length m + (9 + (119 - r) mod 64)) mod 64" by (simp add: md5_padded_def r_def add.left_commute)
  also have "\<dots> = (r + (9 + (119 - r) mod 64)) mod 64" unfolding r_def by (rule mod_add_left_eq [symmetric])
  also have "r + (9 + (119 - r) mod 64) = r + 9 + (119 - r) mod 64" by simp
  also have "(r + 9 + (119 - r) mod 64) mod 64 = (r + 9 + (119 - r)) mod 64" by (rule mod_add_right_eq)
  also have "r + 9 + (119 - r) = 128" using \<open>r < 64\<close> by simp
  finally show ?thesis by simp
qed

lemma MD5Final_spec:
  assumes "md5_fits (length m)" "length (md5_buffer c) = 64"
  shows "MD5Final (MD5Update (MD5Init c) m) = md5_digest m"
proof -
  define c0 c1 where "c0 = MD5Init c" and "c1 = MD5Update c0 m"
  have ok0: "md5_ok c0" using assms(2) by (simp add: md5_ok_def c0_def MD5Init_def)
  have p0: "md5_pending c0 = []" "md5_count c0 = (0, 0)" "md5_state c0 = [0x67452301, 0xefcdab89, 0x98badcfe, 0x10325476]"
    by (simp_all add: md5_pending_def c0_def MD5Init_def md5_index_def)
  have lm: "length m < 2 ^ 32" using assms(1) by (simp add: md5_fits_def)
  note s1 = MD5Update_spec [OF ok0 lm, folded c1_def, unfolded p0 append_Nil]
  have b1: "md5_bits (md5_count c1) = 8 * length m" using lm md5_add_bits_value [OF lm, of "(0, 0)"] by (simp add: s1(3)) (simp add: md5_bits_def)
  have i1: "md5_index c1 = length m mod 64" by (simp add: md5_index_value b1)
  have ct: "[fst (md5_count c1), snd (md5_count c1)] = [of_nat (8 * length m), of_nat (8 * length m div 2 ^ 32)]"
  proof (rule nn_val_inj)
    have "8 * length m div 2 ^ 32 < 2 ^ 32" using lm by (intro less_mult_imp_div_less) simp
    then have "unat (of_nat (8 * length m div 2 ^ 32) :: u32) = 8 * length m div 2 ^ 32" by (simp add: unat_of_nat take_bit_nat_eq_self)
    moreover have "unat (of_nat (8 * length m) :: u32) = 8 * length m mod 2 ^ 32" by (simp add: unat_of_nat take_bit_eq_mod del: of_nat_mult)
    ultimately have "nn_val [of_nat (8 * length m), of_nat (8 * length m div 2 ^ 32)] =
        8 * length m mod 2 ^ 32 + 2 ^ 32 * (8 * length m div 2 ^ 32)"
      by (simp only: nn_val.simps mult_0_right add_0_right)
    also have "\<dots> = 8 * length m" by (rule mod_mult_div_eq)
    also have "\<dots> = nn_val [fst (md5_count c1), snd (md5_count c1)]" using b1 by (simp add: md5_bits_def)
    finally show "nn_val [fst (md5_count c1), snd (md5_count c1)] = nn_val [of_nat (8 * length m), of_nat (8 * length m div 2 ^ 32)]"
      by (rule sym)
  qed simp
  define r where "r = length m mod 64"
  define p where "p = take (if r < 56 then 56 - r else 120 - r) md5_PADDING"
  have "r < 64" by (simp add: r_def)
  then have p: "p = 0x80 # replicate ((119 - r) mod 64) 0"
  proof (cases "r < 56")
    case True
    then have "(119 - r) mod 64 = 55 - r" "56 - r = Suc (55 - r)" by (simp_all add: mod_if)
    then show ?thesis using True by (simp add: p_def md5_PADDING_def take_Suc_Cons)
  next
    case False
    then have "(119 - r) mod 64 = 119 - r" "120 - r = Suc (119 - r)" using \<open>r < 64\<close> by simp_all
    then show ?thesis using False \<open>r < 64\<close> by (simp add: p_def md5_PADDING_def take_Suc_Cons)
  qed
  define b where "b = md5_Encode [of_nat (8 * length m), of_nat (8 * length m div 2 ^ 32)]"
  have lp: "length p < 2 ^ 32" "length b < 2 ^ 32" by (simp_all add: p_def b_def md5_PADDING_def)
  note s2 = MD5Update_spec [OF s1(1) lp(1)]
  note s3 = MD5Update_spec [OF s2(1) lp(2)]
  define c3 where "c3 = MD5Update (MD5Update c1 p) b"
  have "block_loop 64 MD5Transform [0x67452301, 0xefcdab89, 0x98badcfe, 0x10325476] ((m @ p) @ b) = (md5_state c3, md5_pending c3)"
    using block_loop_append [OF _ s1(2), of "p @ b"] block_loop_append [OF _ s2(2), of b] s3(2) by (simp add: c3_def)
  then have "md5_digest m = md5_Encode (md5_state c3)"
    by (simp add: md5_digest_def md5_padded_def p r_def [symmetric] b_def)
  moreover have "MD5Final c1 = md5_Encode (md5_state c3)"
    unfolding MD5Final_def Let_def i1 r_def [symmetric] p_def [symmetric] ct b_def [symmetric] c3_def ..
  ultimately show ?thesis by (simp add: c1_def c0_def)
qed

end
