(* ===== verification/R_Random.thy ===== *)
theory R_Random
  imports Md5
begin

section \<open>Random objects (r_random.c)\<close>

text \<open>
  A random structure collects 256 bytes of seed by adding their digests into a 16-byte state,
  and then gives out the digests of the successive states.  The local digest context of the
  code starts with unspecified contents, written as zeros; by \<open>MD5Final_spec\<close> the digest
  does not depend on them.
\<close>

record R_RANDOM_STRUCT =
  bytesNeeded :: nat
  r_state :: bytes
  outputAvailable :: nat
  r_output :: bytes

definition RANDOM_BYTES_NEEDED :: nat where
  "RANDOM_BYTES_NEEDED = 256"

definition local_MD5_CTX :: MD5_CTX where
  "local_MD5_CTX = \<lparr>md5_state = replicate 4 0, md5_count = (0, 0), md5_buffer = replicate 64 0\<rparr>"

definition R_RandomInit :: "R_RANDOM_STRUCT \<Rightarrow> R_RANDOM_STRUCT" where
  "R_RandomInit randomStruct =
     randomStruct\<lparr>bytesNeeded := RANDOM_BYTES_NEEDED, r_state := replicate 16 0, outputAvailable := 0\<rparr>"

text \<open>The addition of a digest to the state, from their last bytes; \<open>x\<close> is the carry.\<close>

fun add_digest :: "u32 \<Rightarrow> bytes \<Rightarrow> bytes \<Rightarrow> bytes" where
  "add_digest x (s # state) (d # digest) =
     (let x = x + (ucast s + ucast d) in ucast x # add_digest (drop_bit 8 x) state digest)"
| "add_digest x _ _ = []"

definition R_RandomUpdate :: "R_RANDOM_STRUCT \<Rightarrow> bytes \<Rightarrow> R_RANDOM_STRUCT" where
  "R_RandomUpdate randomStruct block =
     (let context = MD5Init local_MD5_CTX;
          context = MD5Update context block;
          digest = MD5Final context;
          state = rev (add_digest 0 (rev (r_state randomStruct)) (rev digest))
      in randomStruct\<lparr>r_state := state,
           bytesNeeded := (if bytesNeeded randomStruct < length block then 0
                           else bytesNeeded randomStruct - length block)\<rparr>)"

definition R_GetRandomBytesNeeded :: "R_RANDOM_STRUCT \<Rightarrow> nat" where
  "R_GetRandomBytesNeeded randomStruct = bytesNeeded randomStruct"

text \<open>The increment of the state, from its last byte: it goes on while the byte was zero.\<close>

fun increment_state :: "bytes \<Rightarrow> bytes" where
  "increment_state [] = []"
| "increment_state (s # state) = (s + 1) # (if s \<noteq> 0 then state else increment_state state)"

definition next_output :: "bytes \<Rightarrow> bytes \<times> bytes" where
  "next_output state =
     (let context = MD5Init local_MD5_CTX;
          context = MD5Update context state;
          output = MD5Final context
      in (rev (increment_state (rev state)), output))"

text \<open>The bytes given out, and then the state, the output and how much of it is left.\<close>

function generate_loop :: "nat \<Rightarrow> nat \<Rightarrow> bytes \<times> bytes \<Rightarrow> bytes \<times> (bytes \<times> bytes) \<times> nat" where
  "generate_loop blockLen available s =
     (if blockLen > available
      then let (block, s', available') = generate_loop (blockLen - available) 16 (next_output (fst s))
           in (drop (16 - available) (snd s) @ block, s', available')
      else (take blockLen (drop (16 - available) (snd s)), s, available - blockLen))"
  by pat_completeness auto
termination
  by (relation "measure (\<lambda>(blockLen, available, s). 2 * blockLen + (if available = 0 then 1 else 0))") auto

declare generate_loop.simps [simp del]

definition R_GenerateBytes :: "nat \<Rightarrow> R_RANDOM_STRUCT \<Rightarrow> re_code + bytes \<times> R_RANDOM_STRUCT" where
  "R_GenerateBytes blockLen randomStruct =
     (if bytesNeeded randomStruct \<noteq> 0 then Inl RE_NEED_RANDOM
      else let (block, (state, output), available) =
                 generate_loop blockLen (outputAvailable randomStruct) (r_state randomStruct, r_output randomStruct)
           in Inr (block, randomStruct\<lparr>r_state := state, r_output := output, outputAvailable := available\<rparr>))"

definition R_RandomFinal :: "R_RANDOM_STRUCT \<Rightarrow> R_RANDOM_STRUCT" where
  "R_RandomFinal randomStruct =
     \<lparr>bytesNeeded = 0, r_state = replicate 16 0, outputAvailable = 0, r_output = replicate 16 0\<rparr>"

subsection \<open>Well-formed structures\<close>

definition random_ok :: "R_RANDOM_STRUCT \<Rightarrow> bool" where
  "random_ok r \<longleftrightarrow> length (r_state r) = 16 \<and> length (r_output r) = 16 \<and> outputAvailable r \<le> 16"

lemma length_MD5Transform: "length (MD5Transform s b) = 4"
  by (simp add: MD5Transform_def case_prod_beta Let_def)

lemma length_md5_loop: "length s = 4 \<Longrightarrow> length (fst (block_loop 64 MD5Transform s x)) = 4"
proof (induction "length x" arbitrary: s x rule: less_induct)
  case less
  show ?case
  proof (cases "64 \<le> length x")
    case True
    then have "length (drop 64 x) < length x" by simp
    from less.hyps [OF this, of "MD5Transform s (take 64 x)"] show ?thesis
      unfolding block_loop_full [OF zero_less_numeral True] by (simp add: length_MD5Transform)
  next
    case False
    then show ?thesis using less.prems by (simp add: block_loop_short)
  qed
qed

lemma length_md5_digest [simp]: "length (md5_digest m) = 16"
  using length_md5_loop by (simp add: md5_digest_def)

lemma local_digest: "md5_fits (length m) \<Longrightarrow> MD5Final (MD5Update (MD5Init local_MD5_CTX) m) = md5_digest m"
  by (rule MD5Final_spec) (simp_all add: local_MD5_CTX_def)

lemma length_add_digest [simp]: "length (add_digest x s d) = min (length s) (length d)"
  by (induction x s d rule: add_digest.induct) (simp_all add: Let_def)

lemma length_increment_state [simp]: "length (increment_state s) = length s"
  by (induction s) simp_all

lemma next_output_value: "length s = 16 \<Longrightarrow> next_output s = (rev (increment_state (rev s)), md5_digest s)"
  using local_digest [of s] by (simp add: next_output_def md5_fits_def)

subsection \<open>The state as a number\<close>

lemma byte_carry: "y mod 2 ^ 8 + 2 ^ 8 * ((y div 2 ^ 8 + z) mod 2 ^ k) = (y + 2 ^ 8 * z :: nat) mod 2 ^ (8 + k)"
  using mod_digit_step [of "y + 2 ^ 8 * z" k] by (simp add: add.commute)

lemma add_digest_value:
  "length s = length d \<Longrightarrow> unat x \<le> 1 \<Longrightarrow> le_val (add_digest x s d) = (unat x + le_val s + le_val d) mod 2 ^ (8 * length s)"
proof (induction x s d rule: add_digest.induct)
  case (1 x s state d digest)
  define y :: u32 where "y = x + (ucast s + ucast d)"
  have b: "unat s < 2 ^ 8" "unat d < 2 ^ 8" by (rule unat_byte_less)+
  have y: "unat y = unat x + unat s + unat d" using b 1(3) by (simp add: y_def unat_sum)
  have c: "unat (drop_bit 8 y) = unat y div 2 ^ 8" by (rule unat_drop_bit)
  have le: "unat (drop_bit 8 y) \<le> 1" using y b 1(3) by (simp add: c div_le_mono less_mult_imp_div_less)
  have "le_val (add_digest x (s # state) (d # digest)) =
      unat y mod 2 ^ 8 + 2 ^ 8 * ((unat y div 2 ^ 8 + le_val state + le_val digest) mod 2 ^ (8 * length state))"
    using 1(1) [OF y_def _ le] 1(2) by (simp add: Let_def c unat_low_byte flip: y_def)
  also have "\<dots> = (unat y + 2 ^ 8 * (le_val state + le_val digest)) mod 2 ^ (8 + 8 * length state)"
    using byte_carry [of "unat y" "le_val state + le_val digest"] by (simp only: add.assoc)
  finally show ?case using 1(2) by (simp add: y add_ac)
qed simp_all

lemma le_val_map_pred_step: "le_val (map (\<lambda>b. b - 1) (increment_state s)) = (le_val (map (\<lambda>b. b - 1) s) + 1) mod 2 ^ (8 * length s)"
proof (induction s)
  case (Cons b s)
  define V where "V = le_val (map (\<lambda>b. b - 1) s)"
  have V: "V < 2 ^ (8 * length s)" using le_val_bound [of "map (\<lambda>b. b - 1) s"] by (simp add: V_def)
  show ?case
  proof (cases "b = 0")
    case True
    have "unat (- 1 :: u8) = 2 ^ 8 - 1" by (simp add: unsigned_minus_1_eq_mask mask_eq_exp_minus_1)
    then have "(le_val (map (\<lambda>b. b - 1) (b # s)) + 1) mod 2 ^ (8 * length (b # s)) = (2 ^ 8 * (V + 1)) mod (2 ^ 8 * 2 ^ (8 * length s))"
      using True by (simp add: V_def power_add)
    also have "\<dots> = 2 ^ 8 * ((V + 1) mod 2 ^ (8 * length s))" by (rule mult_mod_right [symmetric])
    finally show ?thesis using Cons True by (simp add: V_def)
  next
    case False
    then have "unat b = unat (b - 1) + 1" using unat_minus_one [of b] unat_gt_0 [of b] by simp
    moreover have "unat b < 2 ^ 8" by (rule unat_byte_less)
    ultimately have "unat (b - 1) + 2 ^ 8 * V + 1 < 2 ^ 8 * (V + 1)" by simp
    also have "\<dots> \<le> 2 ^ 8 * 2 ^ (8 * length s)" using V by (intro mult_le_mono2) simp
    finally have "unat (b - 1) + 2 ^ 8 * V + 1 < 2 ^ (8 * length (b # s))" by (simp add: power_add)
    then have "(le_val (map (\<lambda>b. b - 1) (b # s)) + 1) mod 2 ^ (8 * length (b # s)) = unat (b - 1) + 2 ^ 8 * V + 1"
      by (simp add: V_def)
    then show ?thesis using False \<open>unat b = unat (b - 1) + 1\<close> by (simp add: V_def)
  qed
qed simp

lemma generate_loop_short:
  "n \<le> a \<Longrightarrow> generate_loop n a s = (take n (drop (16 - a) (snd s)), s, a - n)"
  by (subst generate_loop.simps) simp

lemma generate_loop_long:
  "a < n \<Longrightarrow> generate_loop n a s = (case generate_loop (n - a) 16 (next_output (fst s)) of
     (block, t, a') \<Rightarrow> (drop (16 - a) (snd s) @ block, t, a'))"
  by (subst generate_loop.simps) (simp add: Let_def)

lemma generate_loop_split:
  "a \<le> 16 \<Longrightarrow> length (fst s) = 16 \<Longrightarrow> length (snd s) = 16 \<Longrightarrow> generate_loop m a s = (x, s', a') \<Longrightarrow>
    a' \<le> 16 \<and> length (fst s') = 16 \<and> length (snd s') = 16 \<and> length x = m \<and>
    generate_loop (m + n) a s = (case generate_loop n a' s' of (y, t, b) \<Rightarrow> (x @ y, t, b))"
proof (induction m a s arbitrary: x rule: generate_loop.induct)
  case (1 m a s)
  show ?case
  proof (cases "a < m")
    case True
    obtain x' where r: "generate_loop (m - a) 16 (next_output (fst s)) = (x', s', a')" "x = drop (16 - a) (snd s) @ x'"
      using 1(5) True unfolding generate_loop_long [OF True] by (auto split: prod.splits)
    have l: "length (fst (next_output (fst s))) = 16" "length (snd (next_output (fst s))) = 16"
      using 1(3) by (simp_all add: next_output_value)
    have ih: "a' \<le> 16 \<and> length (fst s') = 16 \<and> length (snd s') = 16 \<and> length x' = m - a \<and>
        generate_loop (m - a + n) 16 (next_output (fst s)) = (case generate_loop n a' s' of (y, t, b) \<Rightarrow> (x' @ y, t, b))"
      using 1(1) [OF _ _ l r(1)] True by simp
    have "m + n - a = m - a + n" "a < m + n" using True by simp_all
    then show ?thesis using ih r(2) True 1(2,4) generate_loop_long [of a "m + n" s] by (auto split: prod.splits)
  next
    case False
    then have le: "m \<le> a" by simp
    have r: "x = take m (drop (16 - a) (snd s))" "s' = s" "a' = a - m" using 1(5) unfolding generate_loop_short [OF le] by auto
    have d: "drop (16 - (a - m)) (snd s) = drop m (drop (16 - a) (snd s))" using le 1(2) by (simp add: add.commute)
    have x: "length x = m" using le 1(2,4) by (simp add: r(1))
    show ?thesis
    proof (cases "a < m + n")
      case True
      then have "a - m < n" "m + n - a = n - (a - m)" using le by simp_all
      moreover obtain y t b where g: "generate_loop (n - (a - m)) 16 (next_output (fst s)) = (y, t, b)" by (metis prod.exhaust)
      ultimately have "generate_loop (m + n) a s = (drop (16 - a) (snd s) @ y, t, b)"
        "generate_loop n (a - m) s = (drop m (drop (16 - a) (snd s)) @ y, t, b)"
        using generate_loop_long [OF True, of s] generate_loop_long [of "a - m" n s] unfolding d by simp_all
      moreover have "take m D @ drop m D @ y = D @ y" for D :: bytes by (simp flip: append_assoc)
      moreover have "a - m \<le> 16" using 1(2) by simp
      ultimately show ?thesis using 1(3,4) x unfolding r by (simp del: drop_drop)
    next
      case False
      then have "n \<le> a - m" "m + n \<le> a" by simp_all
      then show ?thesis using 1(2,3,4) x generate_loop_short [of "m + n" a s] generate_loop_short [of n "a - m" s]
        unfolding r d by (simp add: take_add)
    qed
  qed
qed

lemma R_GenerateBytes_ok:
  assumes "random_ok r" "R_GenerateBytes n r = Inr (block, r')"
  shows "length block = n \<and> random_ok r'"
proof -
  obtain s' a' where "generate_loop n (outputAvailable r) (r_state r, r_output r) = (block, s', a')"
    and "r' = r\<lparr>r_state := fst s', r_output := snd s', outputAvailable := a'\<rparr>"
    using assms(2) by (auto simp: R_GenerateBytes_def split: if_splits prod.splits)
  with generate_loop_split [of "outputAvailable r" "(r_state r, r_output r)" n block s' a'] assms(1)
  show ?thesis by (simp add: random_ok_def)
qed

lemma R_GenerateBytes_seeded:
  assumes "random_ok r" "bytesNeeded r = 0"
  shows "\<exists>block r'. R_GenerateBytes n r = Inr (block, r') \<and> length block = n \<and> random_ok r' \<and> bytesNeeded r' = 0"
proof -
  obtain block s' a' where g: "generate_loop n (outputAvailable r) (r_state r, r_output r) = (block, s', a')"
    by (metis prod.exhaust)
  define r' where "r' = r\<lparr>r_state := fst s', r_output := snd s', outputAvailable := a'\<rparr>"
  have b: "R_GenerateBytes n r = Inr (block, r')"
    using assms(2) g by (simp add: R_GenerateBytes_def r'_def split: prod.splits)
  have "bytesNeeded r' = 0" using assms(2) by (simp add: r'_def)
  then show ?thesis using b R_GenerateBytes_ok [OF assms(1) b] by blast
qed

end
