(* ===== verification/Digest_Properties.thy ===== *)
theory Digest_Properties
  imports Md2 R_Random
begin

section \<open>Properties of the digests and of the random objects\<close>

text \<open>
  The digests of a message fed in pieces are the one-shot digests; the random object gives
  out bytes once it has enough seed, in an order that does not depend on how they are asked
  for, and from states that do not repeat.
\<close>

subsection \<open>Digests in pieces\<close>

text \<open>
  C28: However a message is cut into updates, the MD5 context digests it as the function on
  the whole padded message does: its blocks, the bit 1, zeros and the 64-bit length.
\<close>

theorem MD5_message:
  assumes "md5_fits (length (concat xs))" "length (md5_buffer c) = 64"
  shows "MD5Final (foldl MD5Update (MD5Init c) xs) = md5_digest (concat xs)"
proof -
  have "md5_ok (MD5Init c)" using assms(2) by (simp add: md5_ok_def MD5Init_def)
  then show ?thesis using md5.final_pieces [OF _ assms(1)] MD5Final_spec [OF assms] by simp
qed

lemma MD5_message_witness:
  "MD5Final (foldl MD5Update (MD5Init local_MD5_CTX) [[0x61], [], replicate 100 0x62]) =
    md5_digest (concat [[0x61], [], replicate 100 0x62])"
  by (rule MD5_message) (simp_all add: md5_fits_def local_MD5_CTX_def)

theorem MD2_message:
  assumes "md2_fits (length (concat xs))" "length (md2_buffer c) = 16"
  shows "MD2Final (foldl MD2Update (MD2Init c) xs) = md2_digest (concat xs)"
proof -
  have "md2_ok (MD2Init c)" using assms(2) by (simp add: md2_ok_def MD2Init_def)
  then show ?thesis using md2.final_pieces [OF _ assms(1)] MD2Final_spec [OF assms(2)] by simp
qed

lemma MD2_message_witness:
  "MD2Final (foldl MD2Update
      (MD2Init \<lparr>md2_state = [], md2_checksum = [], md2_count = 0, md2_buffer = replicate 16 7\<rparr>) [[0x61], replicate 30 0x62]) =
    md2_digest (concat [[0x61], replicate 30 0x62])"
  by (rule MD2_message) (simp_all add: md2_fits_def)

subsection \<open>Random bytes\<close>

lemma bytesNeeded_updates:
  "bytesNeeded (foldl R_RandomUpdate r xs) = bytesNeeded r - length (concat xs)"
  by (induction xs arbitrary: r) (simp_all add: R_RandomUpdate_def Let_def)

theorem random_seeded:
  "R_GenerateBytes n (foldl R_RandomUpdate (R_RandomInit r) xs) = Inl RE_NEED_RANDOM \<longleftrightarrow> length (concat xs) < 256"
  using bytesNeeded_updates [of "R_RandomInit r" xs]
  by (auto simp: R_GenerateBytes_def R_RandomInit_def RANDOM_BYTES_NEEDED_def split: prod.splits)

theorem random_update_state:
  assumes "length (r_state r) = 16" "md5_fits (length block)"
  shows "bytes_val (r_state (R_RandomUpdate r block)) = (bytes_val (r_state r) + bytes_val (md5_digest block)) mod 2 ^ 128"
  using add_digest_value [of "rev (r_state r)" "rev (md5_digest block)" 0] assms local_digest [OF assms(2)]
  by (simp add: R_RandomUpdate_def Let_def bytes_val_def)

lemma random_update_state_witness:
  "bytes_val (r_state (R_RandomUpdate (R_RandomInit \<lparr>bytesNeeded = 3, r_state = [], outputAvailable = 0, r_output = []\<rparr>) [1, 2])) =
    (bytes_val (r_state (R_RandomInit \<lparr>bytesNeeded = 3, r_state = [], outputAvailable = 0, r_output = []\<rparr>)) +
      bytes_val (md5_digest [1, 2])) mod 2 ^ 128"
  by (rule random_update_state) (simp_all add: R_RandomInit_def md5_fits_def)

text \<open>
  Random bytes taken in two calls are those taken in one.
\<close>

theorem random_bytes_split:
  assumes "random_ok r" "R_GenerateBytes m r = Inr (x, r')"
  shows "R_GenerateBytes (m + n) r = (case R_GenerateBytes n r' of Inl e \<Rightarrow> Inl e | Inr (y, r'') \<Rightarrow> Inr (x @ y, r''))"
proof -
  obtain s' a' where g: "generate_loop m (outputAvailable r) (r_state r, r_output r) = (x, s', a')"
    and z: "bytesNeeded r = 0" and r': "r' = r\<lparr>r_state := fst s', r_output := snd s', outputAvailable := a'\<rparr>"
    using assms(2) by (auto simp: R_GenerateBytes_def split: if_splits prod.splits)
  have "generate_loop (m + n) (outputAvailable r) (r_state r, r_output r) =
      (case generate_loop n a' s' of (y, t, b) \<Rightarrow> (x @ y, t, b))"
    using generate_loop_split [OF _ _ _ g] assms(1) by (simp add: random_ok_def)
  then show ?thesis by (simp add: R_GenerateBytes_def z r' split: prod.splits)
qed

definition sample_random :: R_RANDOM_STRUCT where
  "sample_random = \<lparr>bytesNeeded = 0, r_state = replicate 16 9, outputAvailable = 5, r_output = replicate 16 3\<rparr>"

lemma random_bytes_split_witness:
  "R_GenerateBytes (4 + 30) sample_random = (case R_GenerateBytes 30 (sample_random\<lparr>outputAvailable := 1\<rparr>) of
     Inl e \<Rightarrow> Inl e | Inr (y, r'') \<Rightarrow> Inr ([3, 3, 3, 3] @ y, r''))"
proof (rule random_bytes_split)
  show "random_ok sample_random" by (simp add: random_ok_def sample_random_def)
  show "R_GenerateBytes 4 sample_random = Inr ([3, 3, 3, 3], sample_random\<lparr>outputAvailable := 1\<rparr>)"
    by (simp add: R_GenerateBytes_def sample_random_def generate_loop_short numeral_eq_Suc)
qed

text \<open>
  The number of a state whose bytes are read one lower is a counter: the increment adds one,
  its carry runs when a byte wraps from zero in that reading.
\<close>

definition state_counter :: "bytes \<Rightarrow> nat" where
  "state_counter s = bytes_val (map (\<lambda>b. b - 1) s)"

lemma state_counter_next:
  "length s = 16 \<Longrightarrow> state_counter (fst (next_output s)) = (state_counter s + 1) mod 2 ^ 128"
  using le_val_map_pred_step [of "rev s"]
  by (simp add: next_output_value state_counter_def bytes_val_def rev_map)

lemma state_counter_iterate:
  "length s = 16 \<Longrightarrow> length (((\<lambda>s. fst (next_output s)) ^^ k) s) = 16 \<and>
    state_counter (((\<lambda>s. fst (next_output s)) ^^ k) s) = (state_counter s + k) mod 2 ^ 128"
proof (induction k)
  case 0
  then show ?case using bytes_val_bound [of "map (\<lambda>b. b - 1) s"] by (simp add: state_counter_def)
next
  case (Suc k)
  then show ?case by (simp add: state_counter_next next_output_value [THEN arg_cong [of _ _ "\<lambda>p. length (fst p)"]] mod_Suc_eq)
qed

text \<open>
  C30: The state of the random generator does not repeat within 2^128 blocks of output.
\<close>

theorem random_states_distinct:
  assumes "length s = 16" "i < j" "j < 2 ^ 128"
  shows "((\<lambda>s. fst (next_output s)) ^^ i) s \<noteq> ((\<lambda>s. fst (next_output s)) ^^ j) s"
proof
  assume "((\<lambda>s. fst (next_output s)) ^^ i) s = ((\<lambda>s. fst (next_output s)) ^^ j) s"
  then have "(state_counter s + i) mod 2 ^ 128 = (state_counter s + j) mod 2 ^ 128"
    using state_counter_iterate [OF assms(1)] by metis
  then have "2 ^ 128 dvd state_counter s + j - (state_counter s + i)"
    using assms(2) mod_eq_dvd_iff_nat [of "state_counter s + i" "state_counter s + j" "2 ^ 128"] by simp
  from dvd_imp_le [OF this] show False using assms(2,3) by simp
qed

lemma random_states_distinct_witness:
  "((\<lambda>s. fst (next_output s)) ^^ 3) (replicate 16 0) \<noteq> ((\<lambda>s. fst (next_output s)) ^^ 700) (replicate 16 0)"
  by (rule random_states_distinct) simp_all

end
