(* ===== verification/Fermat.thy ===== *)
theory Fermat
  imports Complex_Main
begin

section \<open>Number theory for the RSA routines\<close>

text \<open>
  Primes, Fermat's little theorem, and the exponents for which raising to a power and back is
  the identity modulo a product of distinct primes.  An RSA key with two primes has one
  prime in each factor; nothing below needs more than that the primes of a factor are
  distinct.
\<close>

definition is_prime :: "nat \<Rightarrow> bool" where
  "is_prime p \<longleftrightarrow> 1 < p \<and> (\<forall>d. d dvd p \<longrightarrow> d = 1 \<or> d = p)"

lemma is_prime_code: "is_prime p \<longleftrightarrow> 1 < p \<and> list_all (\<lambda>d. p mod d \<noteq> 0) [2..<p]"
proof -
  have "(\<forall>d. d dvd p \<longrightarrow> d = 1 \<or> d = p) \<longleftrightarrow> (\<forall>d\<in>{2..<p}. \<not> d dvd p)" if "1 < p"
  proof (intro iffI ballI allI impI notI)
    fix d assume a: "\<forall>d. d dvd p \<longrightarrow> d = 1 \<or> d = p" "d \<in> {2..<p}" "d dvd p"
    from a(1) [rule_format, OF a(3)] a(2) show False by simp
  next
    fix d assume a: "\<forall>d\<in>{2..<p}. \<not> d dvd p" "d dvd p"
    have "d \<le> p" using a(2) that by (simp add: dvd_imp_le)
    moreover have "d \<noteq> 0" using a(2) that by (cases "d = 0") simp_all
    ultimately show "d = 1 \<or> d = p" using a by (cases "d \<in> {2..<p}") auto
  qed
  then show ?thesis by (cases "1 < p") (simp_all add: is_prime_def list_all_iff mod_eq_0_iff_dvd)
qed

lemma prime_coprime: "is_prime p \<Longrightarrow> \<not> p dvd a \<Longrightarrow> coprime p a"
proof -
  assume p: "is_prime p" "\<not> p dvd a"
  then have "gcd p a = 1 \<or> gcd p a = p" by (auto simp: is_prime_def)
  with p(2) show "coprime p a" by (metis coprime_iff_gcd_eq_1 gcd_dvd2)
qed

lemma prime_dvd_mult: "is_prime p \<Longrightarrow> p dvd a * b \<Longrightarrow> p dvd a \<or> p dvd b"
  using prime_coprime [of p a] by (metis coprime_dvd_mult_right_iff)

lemma distinct_primes_coprime: "is_prime p \<Longrightarrow> is_prime q \<Longrightarrow> p \<noteq> q \<Longrightarrow> coprime p q"
  by (rule prime_coprime) (auto simp: is_prime_def)

lemma prime_not_dvd_fact: "is_prime p \<Longrightarrow> k < p \<Longrightarrow> \<not> p dvd fact k"
proof (induction k)
  case 0
  then show ?case by (auto simp: is_prime_def)
next
  case (Suc k)
  show ?case
  proof
    assume "p dvd fact (Suc k)"
    then have "p dvd Suc k \<or> p dvd fact k" using Suc.prems(1) prime_dvd_mult [of p "Suc k" "fact k"] by simp
    then show False using Suc by (auto dest: dvd_imp_le)
  qed
qed

lemma prime_dvd_choose:
  assumes "is_prime p" "0 < k" "k < p"
  shows "p dvd (p choose k)"
proof -
  have "fact k * fact (p - k) * (p choose k) = (fact p :: nat)" using assms(3) by (intro binomial_fact_lemma) simp
  moreover have "p dvd fact p" using assms by (intro dvd_fact) simp_all
  ultimately have "p dvd fact k * fact (p - k) * (p choose k)" by metis
  then have "p dvd fact k \<or> p dvd fact (p - k) \<or> p dvd (p choose k)"
    using prime_dvd_mult [OF assms(1)] by blast
  then show ?thesis using prime_not_dvd_fact [OF assms(1), of k] prime_not_dvd_fact [OF assms(1), of "p - k"] assms by simp
qed

lemma fermat: "is_prime p \<Longrightarrow> a ^ p mod p = a mod (p::nat)"
proof (induction a)
  case 0
  then show ?case by (simp add: is_prime_def power_0_left)
next
  case (Suc a)
  have p: "1 < p" using Suc.prems by (simp add: is_prime_def)
  have "(a + 1) ^ p = (\<Sum>k\<le>p. (p choose k) * a ^ k)"
    using binomial [of a 1 p] by simp
  also have "\<dots> = (\<Sum>k\<in>{0, p} \<union> {0<..<p}. (p choose k) * a ^ k)"
    using p by (intro sum.cong) auto
  also have "\<dots> = (\<Sum>k\<in>{0, p}. (p choose k) * a ^ k) + (\<Sum>k\<in>{0<..<p}. (p choose k) * a ^ k)"
    by (intro sum.union_disjoint) auto
  also have "(\<Sum>k\<in>{0, p}. (p choose k) * a ^ k) = 1 + a ^ p" using p by simp
  finally have e: "Suc a ^ p = (\<Sum>k\<in>{0<..<p}. (p choose k) * a ^ k) + (1 + a ^ p)" by simp
  have "p dvd (\<Sum>k\<in>{0<..<p}. (p choose k) * a ^ k)"
    by (intro dvd_sum dvd_mult2 prime_dvd_choose Suc.prems) simp_all
  then have "Suc a ^ p mod p = (1 + a ^ p) mod p" unfolding e by (auto elim!: dvdE)
  also have "\<dots> = (1 + a mod p) mod p" by (metis Suc.IH Suc.prems mod_add_right_eq)
  finally show ?case by (simp add: mod_simps)
qed

lemma fermat_unit:
  assumes "is_prime p" "\<not> p dvd a"
  shows "a ^ (p - 1) mod p = 1"
proof -
  have p: "1 < p" using assms(1) by (simp add: is_prime_def)
  have a: "0 < a" using assms(2) by (cases a) simp_all
  have "a * a ^ (p - 1) = a ^ p" using p by (cases p) simp_all
  then have "a * a ^ (p - 1) mod p = a * 1 mod p" using fermat [OF assms(1), of a] by simp
  moreover have "a * 1 \<le> a * a ^ (p - 1)" using a by (intro mult_le_mono2) (simp add: Suc_le_eq)
  ultimately have "p dvd a * a ^ (p - 1) - a * 1" by (metis mod_eq_dvd_iff_nat)
  then have "p dvd a * (a ^ (p - 1) - 1)" by (simp add: diff_mult_distrib2)
  then have "p dvd a ^ (p - 1) - 1" using prime_dvd_mult [OF assms(1)] assms(2) by blast
  moreover have "1 \<le> a ^ (p - 1)" using a by (simp add: Suc_le_eq)
  ultimately have "a ^ (p - 1) mod p = 1 mod p" by (metis mod_eq_dvd_iff_nat)
  then show ?thesis using p by simp
qed

lemma prime_exponent:
  assumes "is_prime p" "0 < k" "k mod (p - 1) = 1 mod (p - 1)"
  shows "a ^ k mod p = a mod p"
proof (cases "p dvd a")
  case True
  then have "p dvd a ^ k" using assms(2) by (metis dvd_power dvd_trans)
  with True show ?thesis by (simp add: mod_eq_0_iff_dvd)
next
  case False
  have "1 \<le> k" using assms(2) by simp
  from iffD1 [OF mod_eq_dvd_iff_nat [OF this] assms(3)] have "p - 1 dvd k - 1" .
  then obtain j where "k - 1 = (p - 1) * j" by (auto elim: dvdE)
  then have k: "k = (p - 1) * j + 1" using assms(2) by simp
  have "a ^ k = (a ^ (p - 1)) ^ j * a" unfolding k by (simp add: power_add power_mult)
  then have "a ^ k mod p = ((a ^ (p - 1) mod p) ^ j mod p) * a mod p" by (simp add: mod_simps power_mod)
  also have "\<dots> = a mod p" using fermat_unit [OF assms(1) False] by (simp add: mod_simps)
  finally show ?thesis .
qed

subsection \<open>Exponents that are inverse modulo a factor\<close>

definition rsa_factor :: "nat \<Rightarrow> nat \<Rightarrow> nat \<Rightarrow> bool" where
  "rsa_factor p e d \<longleftrightarrow> 0 < e \<and> 0 < d \<and> (\<exists>rs. distinct rs \<and> prod_list rs = p \<and>
     list_all (\<lambda>r. is_prime r \<and> e * d mod (r - 1) = 1 mod (r - 1)) rs)"

lemma primes_dvd:
  "distinct rs \<Longrightarrow> list_all is_prime rs \<Longrightarrow> (\<And>r. r \<in> set rs \<Longrightarrow> r dvd n) \<Longrightarrow> prod_list rs dvd (n::nat)"
proof (induction rs)
  case (Cons r rs)
  have "coprime r (prod_list rs)" using Cons.prems(1,2)
  proof (induction rs)
    case (Cons q rs)
    then show ?case using distinct_primes_coprime [of r q] by simp
  qed simp
  moreover have "r dvd n" "prod_list rs dvd n" using Cons by simp_all
  ultimately show ?case by (simp add: divides_mult)
qed simp

lemma rsa_factor_inverse:
  assumes "rsa_factor p e d"
  shows "a ^ (e * d) mod p = a mod p"
proof -
  obtain rs where rs: "distinct rs" "prod_list rs = p" "list_all (\<lambda>r. is_prime r \<and> e * d mod (r - 1) = 1 mod (r - 1)) rs"
    and pos: "0 < e * d" using assms by (auto simp: rsa_factor_def)
  have "a \<le> a ^ (e * d)" using pos by (cases "a = 0") (simp_all add: self_le_power)
  moreover have "r dvd a ^ (e * d) - a" if "r \<in> set rs" for r
    using prime_exponent [of r "e * d" a] rs(3) pos that calculation
    by (auto simp: list_all_iff mod_eq_dvd_iff_nat)
  then have "p dvd a ^ (e * d) - a" unfolding rs(2) [symmetric]
    using rs(1,3) by (intro primes_dvd) (auto simp: list_all_iff)
  ultimately show ?thesis by (simp add: mod_eq_dvd_iff_nat)
qed

lemma crt_unique:
  assumes "coprime p q" "x mod p = y mod p" "x mod q = y mod (q::nat)" "x < p * q" "y < p * q"
  shows "x = y"
proof -
  have "x = y" if "x \<le> y" "x mod p = y mod p" "x mod q = y mod q" "y < p * q" for x y
  proof -
    have "p dvd y - x" "q dvd y - x" using that(1-3) by (metis mod_eq_dvd_iff_nat)+
    then have "p * q dvd y - x" using assms(1) by (rule divides_mult)
    then show ?thesis using that(1,4) by (auto dest: dvd_imp_le)
  qed
  then show ?thesis using assms by (metis nat_le_linear)
qed

end
