(* ===== verification/Rsa.thy ===== *)
theory Rsa
  imports Nn_Mod R_Random Fermat
begin

section \<open>RSA encryption and decryption (rsa.c)\<close>

text \<open>
  The four PKCS #1 operations and the two raw ones.  A result is an error code or the output
  block; the count of exponentiation steps, a global of nn.c, is threaded through and
  returned (the private operation prints it, which is not modelled).  Lengths are numbers:
  an input is no longer than a block of 128 bytes, so no length computation wraps.  The
  model covers keys whose modulus has at least two bytes and whose fields have the array
  lengths of rsaref.h.
\<close>

record R_RSA_PUBLIC_KEY =
  pub_bits :: nat
  pub_modulus :: bytes
  pub_exponent :: bytes

record R_RSA_PRIVATE_KEY =
  priv_bits :: nat
  priv_modulus :: bytes
  priv_publicExponent :: bytes
  priv_exponent :: bytes
  priv_prime :: "bytes list"
  priv_primeExponent :: "bytes list"
  priv_coefficient :: bytes

subsection \<open>The raw operations\<close>

definition RSAPublicBlock :: "bytes \<Rightarrow> R_RSA_PUBLIC_KEY \<Rightarrow> u32 \<Rightarrow> ((re_code + bytes) \<times> u32) option" where
  "RSAPublicBlock input publicKey DivCount =
     (let m = NN_Decode MAX_NN_DIGITS input;
          n = NN_Decode MAX_NN_DIGITS (pub_modulus publicKey);
          e = NN_Decode MAX_NN_DIGITS (pub_exponent publicKey);
          nDigits = NN_Digits n;
          eDigits = NN_Digits e
      in if NN_Cmp (take nDigits m) (take nDigits n) \<ge> 0 then Some (Inl RE_DATA, DivCount)
      else do {
        (c, DivCount) \<leftarrow> NN_ModExp (take nDigits m) (take eDigits e) (take nDigits n) DivCount;
        Some (Inr (NN_Encode ((pub_bits publicKey + 7) div 8) c), DivCount)
      })"

text \<open>The difference \<open>mP - mQ\<close> modulo \<open>p\<close>.\<close>

definition crt_difference :: "NN_DIGIT list \<Rightarrow> NN_DIGIT list \<Rightarrow> NN_DIGIT list \<Rightarrow> NN_DIGIT list" where
  "crt_difference mP mQ p =
     (if NN_Cmp mP mQ \<ge> 0 then fst (NN_Sub mP mQ)
      else let t = fst (NN_Sub mQ mP) in fst (NN_Sub p t))"

definition RSAPrivateBlock :: "bytes \<Rightarrow> R_RSA_PRIVATE_KEY \<Rightarrow> u32 \<Rightarrow> ((re_code + bytes) \<times> u32) option" where
  "RSAPrivateBlock input privateKey DivCount =
     (let c = NN_Decode MAX_NN_DIGITS input;
          n = NN_Decode MAX_NN_DIGITS (priv_modulus privateKey);
          p = NN_Decode MAX_NN_DIGITS (priv_prime privateKey ! 0);
          q = NN_Decode MAX_NN_DIGITS (priv_prime privateKey ! 1);
          dP = NN_Decode MAX_NN_DIGITS (priv_primeExponent privateKey ! 0);
          dQ = NN_Decode MAX_NN_DIGITS (priv_primeExponent privateKey ! 1);
          qInv = NN_Decode MAX_NN_DIGITS (priv_coefficient privateKey);
          cDigits = NN_Digits c;
          nDigits = NN_Digits n;
          pDigits = NN_Digits p
      in if NN_Cmp (take nDigits c) (take nDigits n) \<ge> 0 then Some (Inl RE_DATA, DivCount)
      else do {
        cP \<leftarrow> NN_Mod (NN_AssignZero pDigits) (take cDigits c) (take pDigits p);
        cQ \<leftarrow> NN_Mod (NN_AssignZero pDigits) (take cDigits c) (take pDigits q);
        (mP, DivCount) \<leftarrow> NN_ModExp cP (take pDigits dP) (take pDigits p) DivCount;
        (mQ, DivCount) \<leftarrow> NN_ModExp cQ (take pDigits dQ) (take pDigits q) (NN_ResetCount DivCount);
        (let t = crt_difference mP mQ (take pDigits p)
         in do {
           t \<leftarrow> NN_ModMult t t (take pDigits qInv) (take pDigits p);
           (let t = NN_Mult t (take pDigits q);
                t = fst (NN_Add (take nDigits t) (take nDigits (mQ @ NN_AssignZero (nDigits - pDigits))))
            in Some (Inr (NN_Encode ((priv_bits privateKey + 7) div 8) t), DivCount))
         })
      })"

subsection \<open>The PKCS #1 operations\<close>

text \<open>
  A random byte is drawn until one is not zero.  The status of \<open>R_GenerateBytes\<close> is not
  looked at: without enough seed the byte keeps its earlier value, at first the
  unspecified contents \<open>byte\<close> of the local variable.
\<close>

partial_function (option) nonzero_byte :: "u8 \<Rightarrow> R_RANDOM_STRUCT \<Rightarrow> (u8 \<times> R_RANDOM_STRUCT) option" where
  "nonzero_byte byte randomStruct =
     (let (byte, randomStruct) = (case R_GenerateBytes 1 randomStruct of
            Inl status \<Rightarrow> (byte, randomStruct) | Inr (block, r) \<Rightarrow> (block ! 0, r))
      in if byte = 0 then nonzero_byte byte randomStruct else Some (byte, randomStruct))"

fun nonzero_bytes :: "nat \<Rightarrow> u8 \<Rightarrow> R_RANDOM_STRUCT \<Rightarrow> (bytes \<times> R_RANDOM_STRUCT) option" where
  "nonzero_bytes 0 byte randomStruct = Some ([], randomStruct)"
| "nonzero_bytes (Suc n) byte randomStruct = do {
     (byte, randomStruct) \<leftarrow> nonzero_byte byte randomStruct;
     (pad, randomStruct) \<leftarrow> nonzero_bytes n byte randomStruct;
     Some (byte # pad, randomStruct)
   }"

definition RSAPublicEncrypt ::
  "u8 \<Rightarrow> bytes \<Rightarrow> R_RSA_PUBLIC_KEY \<Rightarrow> R_RANDOM_STRUCT \<Rightarrow> u32 \<Rightarrow> ((re_code + bytes) \<times> R_RANDOM_STRUCT \<times> u32) option" where
  "RSAPublicEncrypt byte input publicKey randomStruct DivCount =
     (let modulusLen = (pub_bits publicKey + 7) div 8; inputLen = length input
      in if inputLen + 11 > modulusLen then Some (Inl RE_LEN, randomStruct, DivCount)
      else do {
        (pad, randomStruct) \<leftarrow> nonzero_bytes (modulusLen - inputLen - 1 - 2) byte randomStruct;
        (let pkcsBlock = [0, 2] @ pad @ [0] @ input
         in do {
           (status, DivCount) \<leftarrow> RSAPublicBlock pkcsBlock publicKey DivCount;
           Some (status, randomStruct, DivCount)
         })
      })"

definition RSAPrivateEncrypt :: "bytes \<Rightarrow> R_RSA_PRIVATE_KEY \<Rightarrow> u32 \<Rightarrow> ((re_code + bytes) \<times> u32) option" where
  "RSAPrivateEncrypt input privateKey DivCount =
     (let modulusLen = (priv_bits privateKey + 7) div 8; inputLen = length input
      in if inputLen + 11 > modulusLen then Some (Inl RE_LEN, DivCount)
      else let pkcsBlock = [0, 1] @ replicate (modulusLen - inputLen - 1 - 2) 0xff @ [0] @ input
           in RSAPrivateBlock pkcsBlock privateKey DivCount)"

text \<open>\<open>for (; i < limit; i++) if (stop (block[i])) break;\<close>\<close>

function scan_block :: "(u8 \<Rightarrow> bool) \<Rightarrow> bytes \<Rightarrow> nat \<Rightarrow> nat \<Rightarrow> nat" where
  "scan_block stop block limit i = (if i < limit \<and> \<not> stop (block ! i) then scan_block stop block limit (Suc i) else i)"
  by pat_completeness auto
termination by (relation "measure (\<lambda>(stop, block, limit, i). limit - i)") auto

declare scan_block.simps [simp del]

definition unpad_type1 :: "bytes \<Rightarrow> nat \<Rightarrow> re_code + bytes" where
  "unpad_type1 pkcsBlock modulusLen =
     (if pkcsBlock ! 0 \<noteq> 0 \<or> pkcsBlock ! 1 \<noteq> 1 then Inl RE_DATA
      else let i = scan_block (\<lambda>b. b \<noteq> 0xff) pkcsBlock (modulusLen - 1) 2
           in if pkcsBlock ! i \<noteq> 0 then Inl RE_DATA
           else let i = i + 1; outputLen = modulusLen - i
                in if outputLen + 11 > modulusLen then Inl RE_DATA else Inr (take outputLen (drop i pkcsBlock)))"

definition unpad_type2 :: "bytes \<Rightarrow> nat \<Rightarrow> re_code + bytes" where
  "unpad_type2 pkcsBlock modulusLen =
     (if pkcsBlock ! 0 \<noteq> 0 \<or> pkcsBlock ! 1 \<noteq> 2 then Inl RE_DATA
      else let i = scan_block (\<lambda>b. b = 0) pkcsBlock (modulusLen - 1) 2;
               i = i + 1
           in if i \<ge> modulusLen then Inl RE_DATA
           else let outputLen = modulusLen - i
                in if outputLen + 11 > modulusLen then Inl RE_DATA else Inr (take outputLen (drop i pkcsBlock)))"

definition RSAPublicDecrypt :: "bytes \<Rightarrow> R_RSA_PUBLIC_KEY \<Rightarrow> u32 \<Rightarrow> ((re_code + bytes) \<times> u32) option" where
  "RSAPublicDecrypt input publicKey DivCount =
     (let modulusLen = (pub_bits publicKey + 7) div 8; inputLen = length input
      in if inputLen > modulusLen then Some (Inl RE_LEN, DivCount)
      else do {
        (status, DivCount) \<leftarrow> RSAPublicBlock input publicKey DivCount;
        Some (andThen status (\<lambda>pkcsBlock.
          if length pkcsBlock \<noteq> modulusLen then Inl RE_LEN else unpad_type1 pkcsBlock modulusLen), DivCount)
      })"

definition RSAPrivateDecrypt :: "bytes \<Rightarrow> R_RSA_PRIVATE_KEY \<Rightarrow> u32 \<Rightarrow> ((re_code + bytes) \<times> u32) option" where
  "RSAPrivateDecrypt input privateKey DivCount =
     (let modulusLen = (priv_bits privateKey + 7) div 8; inputLen = length input
      in if inputLen > modulusLen then Some (Inl RE_LEN, DivCount)
      else do {
        (status, DivCount) \<leftarrow> RSAPrivateBlock input privateKey DivCount;
        Some (andThen status (\<lambda>pkcsBlock.
          if length pkcsBlock \<noteq> modulusLen then Inl RE_LEN else unpad_type2 pkcsBlock modulusLen), DivCount)
      })"

subsection \<open>Padding\<close>

lemma scan_block_found:
  "i \<le> k \<Longrightarrow> k \<le> limit \<Longrightarrow> (\<And>j. i \<le> j \<Longrightarrow> j < k \<Longrightarrow> \<not> stop (block ! j)) \<Longrightarrow> k = limit \<or> stop (block ! k) \<Longrightarrow>
    scan_block stop block limit i = k"
proof (induction "k - i" arbitrary: i)
  case 0
  then show ?case by (subst scan_block.simps) auto
next
  case (Suc x)
  then have "i < limit" "\<not> stop (block ! i)" by simp_all
  then show ?case using Suc by (subst scan_block.simps) simp
qed

lemma padded_nth:
  "j < length pad \<Longrightarrow> ([0, t] @ pad @ [0] @ input) ! (2 + j) = pad ! j"
  "([0, t] @ pad @ [0] @ input) ! (2 + length pad) = (0 :: u8)"
  "drop (2 + length pad + 1) ([0, t] @ pad @ [0] @ input) = input"
  by (simp_all add: nth_append)

lemma scan_padding:
  assumes "list_all (\<lambda>b. \<not> stop b) pad" "stop 0" "block = [0, t] @ pad @ [0] @ input"
  shows "scan_block stop block (length block - 1) 2 = 2 + length pad"
proof (rule scan_block_found)
  show "\<not> stop (block ! j)" if "2 \<le> j" "j < 2 + length pad" for j
  proof -
    from that obtain i where "j = 2 + i" "i < length pad" by (metis add_less_cancel_left le_iff_add)
    then show ?thesis using assms(1) padded_nth(1) [of i pad t input] unfolding assms(3)
      by (simp add: list_all_length)
  qed
  have "stop (block ! (2 + length pad))" unfolding assms(3) padded_nth(2) by (rule assms(2))
  then show "2 + length pad = length block - 1 \<or> stop (block ! (2 + length pad))" ..
qed (simp_all add: assms(3))

lemma unpad_type2_padded:
  assumes "list_all (\<lambda>b. b \<noteq> 0) pad" "8 \<le> length pad" "block = [0, 2] @ pad @ [0] @ input"
  shows "unpad_type2 block (length block) = (if input = [] then Inl RE_DATA else Inr input)"
proof -
  have s: "scan_block (\<lambda>b. b = 0) block (length block - 1) 2 = 2 + length pad"
    by (rule scan_padding [OF _ _ assms(3)]) (simp_all add: assms(1))
  show ?thesis using assms(2) padded_nth(3) [of pad 2 input] unfolding unpad_type2_def Let_def s
    by (cases input) (simp_all add: assms(3))
qed

lemma unpad_type1_padded:
  assumes "8 \<le> n" "block = [0, 1] @ replicate n 0xff @ [0] @ input"
  shows "unpad_type1 block (length block) = Inr input"
proof -
  have "list_all (\<lambda>b. \<not> b \<noteq> 0xff) (replicate n (0xff :: u8))" by (simp add: list_all_iff)
  note s = scan_padding [OF this _ assms(2), simplified length_replicate]
  have z: "block ! (2 + n) = 0" using padded_nth(2) [of 1 "replicate n 0xff" input] unfolding assms(2) by simp
  show ?thesis using assms(1) z padded_nth(3) [of "replicate n 0xff" 1 input] s
    unfolding unpad_type1_def Let_def by (simp add: assms(2))
qed

subsection \<open>The raw operations on numbers\<close>

lemma NN_Digits_least: "nn_val a < 2 ^ (32 * k) \<Longrightarrow> NN_Digits a \<le> k"
proof (rule ccontr)
  assume a: "nn_val a < 2 ^ (32 * k)" "\<not> NN_Digits a \<le> k"
  define n where "n = NN_Digits a - 1"
  have n: "n < length a" "k \<le> n" "a ! n \<noteq> 0" using a(2) NN_Digits_split [of a] by (auto simp: n_def)
  then have "a ! n = 0" using nn_val_nth_zero [of a k n] a(1) by simp
  with n(3) show False ..
qed

lemma nn_val_below_Digits: "nn_val a < 2 ^ (32 * NN_Digits a)"
  using nn_val_bound [of "take (NN_Digits a) a"] NN_Digits_le [of a] by (simp add: nn_val_take_Digits)

lemma nn_val_take_small: "nn_val a < 2 ^ (32 * n) \<Longrightarrow> n \<le> length a \<Longrightarrow> nn_val (take n a) = nn_val a"
  using nn_val_take_drop [of n a] nn_val_less_take [of a n] by simp

text \<open>A field decoded into the digits of a number at least as large.\<close>

lemma decode_field:
  assumes "length x \<le> 132" "bytes_val x \<le> nn_val n" "length n = 33"
  shows "length (take (NN_Digits n) (NN_Decode 33 x)) = NN_Digits n"
    "nn_val (take (NN_Digits n) (NN_Decode 33 x)) = bytes_val x"
proof -
  have l: "NN_Digits n \<le> 33" using NN_Digits_le [of n] assms(3) by simp
  have v: "nn_val (NN_Decode 33 x) = bytes_val x" using assms(1) by (simp add: NN_Decode_value)
  show "length (take (NN_Digits n) (NN_Decode 33 x)) = NN_Digits n" using l by (simp add: NN_Decode_value)
  show "nn_val (take (NN_Digits n) (NN_Decode 33 x)) = bytes_val x"
    using nn_val_take_small [of "NN_Decode 33 x" "NN_Digits n"] nn_val_below_Digits [of n] assms(2) l
    by (simp add: v NN_Decode_value)
qed

lemma NN_Encode_small:
  "nn_val b < 2 ^ (8 * len) \<Longrightarrow> bytes_val (NN_Encode len b) = nn_val b"
  by (simp add: NN_Encode_value)

lemma RSAPublicBlock_value:
  assumes key: "length (pub_modulus key) \<le> 132" "length (pub_exponent key) \<le> 132" "0 < bytes_val (pub_exponent key)"
    and len: "L = (pub_bits key + 7) div 8" "bytes_val (pub_modulus key) < 2 ^ (8 * L)"
    and input: "length x \<le> 132" "bytes_val x < bytes_val (pub_modulus key)"
  shows "\<exists>y k'. RSAPublicBlock x key k = Some (Inr y, k') \<and> length y = L \<and>
    bytes_val y = bytes_val x ^ bytes_val (pub_exponent key) mod bytes_val (pub_modulus key)"
proof -
  define n e where "n = NN_Decode 33 (pub_modulus key)" and "e = NN_Decode 33 (pub_exponent key)"
  have n: "nn_val n = bytes_val (pub_modulus key)" "length n = 33" using key(1) by (simp_all add: n_def NN_Decode_value)
  have e: "nn_val (take (NN_Digits e) e) = bytes_val (pub_exponent key)"
    using key(2) by (simp add: nn_val_take_Digits) (simp add: e_def NN_Decode_value)
  define m where "m = take (NN_Digits n) (NN_Decode 33 x)"
  have m: "length m = NN_Digits n" "nn_val m = bytes_val x"
    unfolding m_def using decode_field [of x n] input n by simp_all
  have n': "length (take (NN_Digits n) n) = NN_Digits n" "nn_val (take (NN_Digits n) n) = nn_val n"
    using NN_Digits_le [of n] by (simp_all add: nn_val_take_Digits)
  have c: "\<not> NN_Cmp m (take (NN_Digits n) n) \<ge> 0" using NN_Cmp_simps(1) [of m "take (NN_Digits n) n"] input(2) n m n' by simp
  obtain c k' where x: "NN_ModExp m (take (NN_Digits e) e) (take (NN_Digits n) n) k = Some (c, k')"
    "nn_val c = bytes_val x ^ bytes_val (pub_exponent key) mod bytes_val (pub_modulus key)"
    using NN_ModExp_value [of "take (NN_Digits n) n" m "take (NN_Digits e) e" k] m n' e n(1) input(2) key(3) by auto
  have "0 < bytes_val (pub_modulus key)" using input(2) by simp
  then have "nn_val c < bytes_val (pub_modulus key)" unfolding x(2) by (rule mod_less_divisor)
  then have "nn_val c < 2 ^ (8 * L)" using len(2) by (rule less_trans)
  then show ?thesis
    using x(1) c NN_Encode_small [of c L] unfolding RSAPublicBlock_def Let_def n_def [symmetric] e_def [symmetric] m_def [symmetric] len(1) [symmetric]
    by (simp add: NN_Encode_value x(2))
qed

lemma crt_difference_value:
  assumes "length mP = length p" "length mQ = length p" "nn_val mP < nn_val p" "nn_val mQ < nn_val p"
  shows "length (crt_difference mP mQ p) = length p" "nn_val (crt_difference mP mQ p) < nn_val p"
    "(nn_val (crt_difference mP mQ p) + nn_val mQ) mod nn_val p = nn_val mP"
proof -
  have "length (crt_difference mP mQ p) = length p \<and> nn_val (crt_difference mP mQ p) < nn_val p \<and>
    (nn_val (crt_difference mP mQ p) + nn_val mQ) mod nn_val p = nn_val mP"
  proof (cases "nn_val mQ \<le> nn_val mP")
    case True
    then show ?thesis using NN_Sub_no_borrow [of mP mQ] assms by (simp add: crt_difference_def NN_Cmp_simps)
  next
    case False
    define t where "t = fst (NN_Sub mQ mP)"
    have t: "length t = length p" "nn_val t = nn_val mQ - nn_val mP"
      using NN_Sub_no_borrow [of mQ mP] False assms by (simp_all add: t_def)
    have d: "crt_difference mP mQ p = fst (NN_Sub p t)" using False assms by (simp add: crt_difference_def NN_Cmp_simps t_def)
    have s: "length (fst (NN_Sub p t)) = length p" "nn_val (fst (NN_Sub p t)) = nn_val p - (nn_val mQ - nn_val mP)"
      using NN_Sub_no_borrow [of p t] t assms by simp_all
    have "nn_val p - (nn_val mQ - nn_val mP) + nn_val mQ = nn_val mP + nn_val p" using False assms(4) by simp
    then show ?thesis using False assms(3,4) by (simp add: d s)
  qed
  then show "length (crt_difference mP mQ p) = length p" "nn_val (crt_difference mP mQ p) < nn_val p"
    "(nn_val (crt_difference mP mQ p) + nn_val mQ) mod nn_val p = nn_val mP" by simp_all
qed

text \<open>The Chinese remainder theorem in Garner's form.\<close>

lemma garner_value:
  fixes P Q :: nat
  assumes "T1 = T0 * QI mod P" "Q * QI mod P = 1 mod P" "(T0 + MQ) mod P = MP" "MQ < Q" "0 < P"
  shows "T1 * Q + MQ < P * Q" "(T1 * Q + MQ) mod P = MP" "(T1 * Q + MQ) mod Q = MQ"
proof -
  have "T1 + 1 \<le> P" using assms(1,5) by (simp add: Suc_le_eq)
  then have "(T1 + 1) * Q \<le> P * Q" by (rule mult_le_mono1)
  then show "T1 * Q + MQ < P * Q" using assms(4) by simp
  have "T1 * Q mod P = T0 * (Q * QI mod P) mod P" unfolding assms(1) by (simp add: mod_simps mult_ac)
  also have "\<dots> = T0 mod P" unfolding assms(2) by (simp only: mod_mult_right_eq mult_1_right)
  finally have "(T1 * Q + MQ) mod P = (T0 + MQ) mod P" by (metis mod_add_left_eq)
  then show "(T1 * Q + MQ) mod P = MP" using assms(3) by simp
  show "(T1 * Q + MQ) mod Q = MQ" using assms(4) by simp
qed

definition rsa_private_values :: "R_RSA_PRIVATE_KEY \<Rightarrow> nat \<Rightarrow> nat \<Rightarrow> nat \<Rightarrow> nat \<Rightarrow> bool" where
  "rsa_private_values key p q dP dQ \<longleftrightarrow>
     length (priv_modulus key) \<le> 132 \<and> length (priv_prime key ! 0) \<le> 132 \<and> length (priv_prime key ! 1) \<le> 132 \<and>
     length (priv_primeExponent key ! 0) \<le> 132 \<and> length (priv_primeExponent key ! 1) \<le> 132 \<and>
     length (priv_coefficient key) \<le> 132 \<and>
     bytes_val (priv_prime key ! 0) = p \<and> bytes_val (priv_prime key ! 1) = q \<and> bytes_val (priv_modulus key) = p * q \<and>
     bytes_val (priv_primeExponent key ! 0) = dP \<and> bytes_val (priv_primeExponent key ! 1) = dQ \<and>
     0 < q \<and> q < p \<and> 0 < dP \<and> dP \<le> p \<and> 0 < dQ \<and> dQ \<le> p \<and>
     bytes_val (priv_coefficient key) \<le> p \<and> q * bytes_val (priv_coefficient key) mod p = 1 mod p"

lemma RSAPrivateBlock_value:
  assumes key: "rsa_private_values key P Q DP DQ"
    and len: "L = (priv_bits key + 7) div 8" "P * Q < 2 ^ (8 * L)"
    and input: "length x \<le> 132" "bytes_val x < P * Q"
  shows "\<exists>y k'. RSAPrivateBlock x key k = Some (Inr y, k') \<and> length y = L \<and> bytes_val y < P * Q \<and>
    bytes_val y mod P = bytes_val x ^ DP mod P \<and> bytes_val y mod Q = bytes_val x ^ DQ mod Q"
proof -
  note K = key [unfolded rsa_private_values_def]
  define c n p q dP dQ qInv where "c = NN_Decode 33 x" and "n = NN_Decode 33 (priv_modulus key)"
    and "p = NN_Decode 33 (priv_prime key ! 0)" and "q = NN_Decode 33 (priv_prime key ! 1)"
    and "dP = NN_Decode 33 (priv_primeExponent key ! 0)" and "dQ = NN_Decode 33 (priv_primeExponent key ! 1)"
    and "qInv = NN_Decode 33 (priv_coefficient key)"
  define pD nD where "pD = NN_Digits p" and "nD = NN_Digits n"
  define X QI where "X = bytes_val x" and "QI = bytes_val (priv_coefficient key)"
  have n: "nn_val n = P * Q" "length n = 33" and p: "nn_val p = P" "length p = 33"
    using K by (simp_all add: n_def p_def NN_Decode_value)
  have pos: "0 < P" "0 < Q" "Q < P" using K by simp_all
  have cv: "nn_val (take (NN_Digits c) c) = X" using input(1) by (simp add: nn_val_take_Digits) (simp add: c_def NN_Decode_value X_def)
  define p' q' dP' dQ' qI' where "p' = take pD p" and "q' = take pD q" and "dP' = take pD dP" and "dQ' = take pD dQ"
    and "qI' = take pD qInv"
  have p': "length p' = pD" "nn_val p' = P" using NN_Digits_le [of p] p by (simp_all add: p'_def pD_def nn_val_take_Digits)
  have q': "length q' = pD" "nn_val q' = Q" and dP': "nn_val dP' = DP" and dQ': "nn_val dQ' = DQ"
    and qI': "length qI' = pD" "nn_val qI' = QI"
    using decode_field [of "priv_prime key ! 1" p] decode_field [of "priv_primeExponent key ! 0" p]
      decode_field [of "priv_primeExponent key ! 1" p] decode_field [of "priv_coefficient key" p] K p
    by (simp_all add: q'_def dP'_def dQ'_def qI'_def q_def dP_def dQ_def qInv_def pD_def QI_def)
  have nb: "P * Q < 2 ^ (32 * nD)" using nn_val_below_Digits [of n] n(1) by (simp add: nD_def)
  have PP: "P < 2 ^ (32 * pD)" using nn_val_below_Digits [of p] p(1) by (simp add: pD_def)
  have "P \<le> P * Q" "Q \<le> P * Q" using pos by simp_all
  then have "nn_val p < 2 ^ (32 * nD)" using nb p(1) by linarith
  then have pn: "pD \<le> nD" unfolding pD_def by (rule NN_Digits_least)
  have "P * Q < 2 ^ (32 * pD) * 2 ^ (32 * pD)" using PP pos by (intro mult_strict_mono) simp_all
  then have nD2: "nD \<le> 2 * pD" unfolding nD_def using n(1) by (intro NN_Digits_least) (simp add: power_add [symmetric] mult_2)
  have ltc: "\<not> NN_Cmp (take nD c) (take nD n) \<ge> 0"
  proof -
    have "length (take nD c) = length (take nD n)" "nn_val (take nD n) = P * Q" "nn_val (take nD c) = X"
      using decode_field [of x n] input n nn_val_take_Digits [of n] by (simp_all add: c_def nD_def X_def NN_Decode_value)
    then show ?thesis using NN_Cmp_simps(1) [of "take nD c" "take nD n"] input(2) by (simp add: X_def)
  qed
  obtain cP where cP: "NN_Mod (NN_AssignZero pD) (take (NN_Digits c) c) p' = Some cP" "length cP = pD" "nn_val cP = X mod P"
    using NN_Mod_value [of p' "NN_AssignZero pD" "take (NN_Digits c) c"] p' pos by (auto simp: cv)
  obtain cQ where cQ: "NN_Mod (NN_AssignZero pD) (take (NN_Digits c) c) q' = Some cQ" "length cQ = pD" "nn_val cQ = X mod Q"
    using NN_Mod_value [of q' "NN_AssignZero pD" "take (NN_Digits c) c"] q' pos by (auto simp: cv)
  obtain mP k1 where mP: "NN_ModExp cP dP' p' k = Some (mP, k1)" "length mP = pD" "nn_val mP = X ^ DP mod P"
    using NN_ModExp_value [of p' cP dP' k] p' cP dP' K pos by (auto simp: power_mod)
  obtain mQ k2 where mQ: "NN_ModExp cQ dQ' q' (NN_ResetCount k1) = Some (mQ, k2)" "length mQ = pD" "nn_val mQ = X ^ DQ mod Q"
    using NN_ModExp_value [of q' cQ dQ' "NN_ResetCount k1"] q' cQ dQ' K pos by (auto simp: power_mod)
  have lt: "nn_val mP < P" "nn_val mQ < Q" using pos by (simp_all add: mP mQ)
  define t0 where "t0 = crt_difference mP mQ p'"
  have t0: "length t0 = pD" "(nn_val t0 + nn_val mQ) mod P = nn_val mP"
    using crt_difference_value [of mP p' mQ] mP(2) mQ(2) p' lt pos by (simp_all add: t0_def)
  obtain t1 where t1: "NN_ModMult t0 t0 qI' p' = Some t1" "length t1 = pD" "nn_val t1 = nn_val t0 * QI mod P"
    using NN_ModMult_value [of p' t0 qI' t0] p' qI' t0(1) pos by auto
  note g = garner_value [OF t1(3) _ t0(2) lt(2) pos(1)]
  have g: "nn_val t1 * Q + nn_val mQ < P * Q" "(nn_val t1 * Q + nn_val mQ) mod P = nn_val mP" "(nn_val t1 * Q + nn_val mQ) mod Q = nn_val mQ"
    using g K by (simp_all add: QI_def)
  define t2 where "t2 = NN_Mult t1 q'"
  have t2: "length t2 = 2 * pD" "nn_val t2 = nn_val t1 * Q" using NN_Mult_value [of t1 q'] t1(2) q' by (simp_all add: t2_def)
  define s u where "s = take nD t2" and "u = take nD (mQ @ NN_AssignZero (nD - pD))"
  have s: "length s = nD" "nn_val s = nn_val t1 * Q"
    using nn_val_take_small [of t2 nD] t2 nD2 g(1) nb by (simp_all add: s_def)
  have u: "length u = nD" "nn_val u = nn_val mQ"
    using pn mQ(2) by (simp_all add: u_def nn_val_append NN_AssignZero_def)
  obtain t3 k3 where a: "NN_Add s u = (t3, k3)" by force
  note av = NN_Add_value [OF _ a, unfolded s u]
  have t3: "nn_val t3 = nn_val t1 * Q + nn_val mQ"
  proof -
    have "2 ^ (32 * nD) * unat k3 < 2 ^ (32 * nD) * 1" using av(3) g(1) nb by linarith
    then show ?thesis using av(3) by simp
  qed
  have "RSAPrivateBlock x key k = Some (Inr (NN_Encode L t3), k2)"
    unfolding RSAPrivateBlock_def Let_def c_def [symmetric] n_def [symmetric] p_def [symmetric] q_def [symmetric]
      dP_def [symmetric] dQ_def [symmetric] qInv_def [symmetric] pD_def [symmetric] nD_def [symmetric] p'_def [symmetric]
      q'_def [symmetric] dP'_def [symmetric] dQ'_def [symmetric] qI'_def [symmetric] len(1) [symmetric]
    using ltc cP(1) cQ(1) mP(1) mQ(1) t1(1) a by (simp add: t0_def [symmetric] t2_def [symmetric] s_def [symmetric] u_def [symmetric] del: take_append)
  moreover have "bytes_val (NN_Encode L t3) = nn_val t3" using g(1) len(2) unfolding t3 [symmetric] by (intro NN_Encode_small) simp
  ultimately show ?thesis using g mP(3) mQ(3) unfolding t3 [symmetric] by (simp add: NN_Encode_value X_def)
qed

subsection \<open>Key pairs\<close>

text \<open>
  A public and a private key that belong together: the fields have their arrays' lengths and
  hold a modulus of \<open>bits\<close> bits that is the product of two coprime factors, the public
  exponent, its inverses for the two factors, and the inverse of the second factor.
\<close>

definition rsa_pair :: "R_RSA_PUBLIC_KEY \<Rightarrow> R_RSA_PRIVATE_KEY \<Rightarrow> nat \<Rightarrow> nat \<Rightarrow> nat \<Rightarrow> nat \<Rightarrow> nat \<Rightarrow> bool" where
  "rsa_pair pub priv p q e dP dQ \<longleftrightarrow>
     pub_bits pub = priv_bits priv \<and> 0 < priv_bits priv \<and> priv_bits priv \<le> MAX_RSA_MODULUS_BITS \<and>
     pub_modulus pub = priv_modulus priv \<and>
     length (pub_exponent pub) = MAX_RSA_MODULUS_LEN \<and> bytes_val (pub_exponent pub) = e \<and>
     rsa_private_values priv p q dP dQ \<and> coprime p q \<and> rsa_factor p e dP \<and> rsa_factor q e dQ \<and>
     2 ^ (priv_bits priv - 1) \<le> p * q \<and> p * q < 2 ^ priv_bits priv"

lemma rsa_pair_length:
  assumes "rsa_pair pub priv p q e dP dQ" "L = (priv_bits priv + 7) div 8"
  shows "p * q < 2 ^ (8 * L)" "L \<le> 128" "0 < L" "2 ^ (8 * (L - 1)) \<le> p * q"
proof -
  note K = assms(1) [unfolded rsa_pair_def]
  have L: "priv_bits priv \<le> 8 * L" "8 * (L - 1) \<le> priv_bits priv - 1" "L \<le> 128" "0 < L"
    using K assms(2) by linarith+
  then show "L \<le> 128" "0 < L" by simp_all
  have "p * q < 2 ^ priv_bits priv" using K by simp
  also have "\<dots> \<le> 2 ^ (8 * L)" using L(1) by (intro power_increasing) simp_all
  finally show "p * q < 2 ^ (8 * L)" .
  have "(2::nat) ^ (8 * (L - 1)) \<le> 2 ^ (priv_bits priv - 1)" using L(2) by (intro power_increasing) simp_all
  then show "2 ^ (8 * (L - 1)) \<le> p * q" using K by linarith
qed

lemma power_inverse_mod:
  assumes "rsa_factor p e d" "y mod p = x ^ d mod p" "p dvd n"
  shows "(y ^ e mod n) mod p = x mod p"
proof -
  have "(y ^ e mod n) mod p = (y mod p) ^ e mod p" using assms(3) by (simp add: mod_mod_cancel power_mod)
  also have "\<dots> = x ^ (e * d) mod p" by (simp add: assms(2) power_mod power_mult [symmetric] mult.commute)
  finally show ?thesis by (simp add: rsa_factor_inverse [OF assms(1)])
qed

lemma inverse_power_mod:
  assumes "rsa_factor p e d" "z mod p = (x ^ e mod n) ^ d mod p" "p dvd n"
  shows "z mod p = x mod p"
proof -
  have "z mod p = ((x ^ e mod n) mod p) ^ d mod p" by (simp add: assms(2) power_mod)
  also have "\<dots> = x ^ (e * d) mod p" using assms(3) by (simp add: mod_mod_cancel power_mod power_mult [symmetric])
  finally show ?thesis by (simp add: rsa_factor_inverse [OF assms(1)])
qed

lemma RSA_public_private:
  assumes key: "rsa_pair pub priv p q e dP dQ" and len: "length x = (priv_bits priv + 7) div 8" and x: "bytes_val x < p * q"
  shows "\<exists>y k'. RSAPublicBlock x pub k = Some (Inr y, k') \<and> length y = length x \<and> (\<forall>k. \<exists>k''. RSAPrivateBlock y priv k = Some (Inr x, k''))"
proof -
  note K = key [unfolded rsa_pair_def]
  note V = K [THEN conjunct2, unfolded rsa_private_values_def]
  note L = rsa_pair_length [OF key len]
  obtain y k' where y: "RSAPublicBlock x pub k = Some (Inr y, k')" "length y = length x" "bytes_val y = bytes_val x ^ e mod (p * q)"
    using RSAPublicBlock_value [of pub "length x" x k] K V L len x by (auto simp: rsa_factor_def)
  have lt: "bytes_val y < p * q" using x unfolding y(3) by (intro mod_less_divisor) linarith
  have "\<exists>k''. RSAPrivateBlock y priv k0 = Some (Inr x, k'')" for k0
  proof -
    obtain z k'' where z: "RSAPrivateBlock y priv k0 = Some (Inr z, k'')" "length z = length x" "bytes_val z < p * q"
      "bytes_val z mod p = bytes_val y ^ dP mod p" "bytes_val z mod q = bytes_val y ^ dQ mod q"
      using RSAPrivateBlock_value [of priv p q dP dQ "length x" y k0] K L len lt y(2) by auto
    have "bytes_val z = bytes_val x"
    proof (rule crt_unique [OF _ _ _ z(3) x])
      show "bytes_val z mod p = bytes_val x mod p"
        by (rule inverse_power_mod [of p e dP _ _ "p * q"]) (use K z(4) in \<open>simp_all add: y(3)\<close>)
      show "bytes_val z mod q = bytes_val x mod q"
        by (rule inverse_power_mod [of q e dQ _ _ "p * q"]) (use K z(5) in \<open>simp_all add: y(3)\<close>)
    qed (use K in simp)
    then have "z = x" by (rule bytes_val_inj [OF z(2)])
    then show ?thesis using z(1) by blast
  qed
  then show ?thesis using y by blast
qed

lemma RSA_private_public:
  assumes key: "rsa_pair pub priv p q e dP dQ" and len: "length x = (priv_bits priv + 7) div 8" and x: "bytes_val x < p * q"
  shows "\<exists>y k'. RSAPrivateBlock x priv k = Some (Inr y, k') \<and> length y = length x \<and> (\<forall>k. \<exists>k''. RSAPublicBlock y pub k = Some (Inr x, k''))"
proof -
  note K = key [unfolded rsa_pair_def]
  note V = K [THEN conjunct2, unfolded rsa_private_values_def]
  note L = rsa_pair_length [OF key len]
  obtain y k' where y: "RSAPrivateBlock x priv k = Some (Inr y, k')" "length y = length x" "bytes_val y < p * q"
    "bytes_val y mod p = bytes_val x ^ dP mod p" "bytes_val y mod q = bytes_val x ^ dQ mod q"
    using RSAPrivateBlock_value [of priv p q dP dQ "length x" x k] K L len x by auto
  have "\<exists>k''. RSAPublicBlock y pub k0 = Some (Inr x, k'')" for k0
  proof -
    obtain z k'' where z: "RSAPublicBlock y pub k0 = Some (Inr z, k'')" "length z = length x" "bytes_val z = bytes_val y ^ e mod (p * q)"
      using RSAPublicBlock_value [of pub "length x" y k0] K V L len y(2,3) by (auto simp: rsa_factor_def)
    have lt: "bytes_val z < p * q" using x unfolding z(3) by (intro mod_less_divisor) linarith
    have "bytes_val z = bytes_val x"
    proof (rule crt_unique [OF _ _ _ lt x])
      show "bytes_val z mod p = bytes_val x mod p"
        unfolding z(3) by (rule power_inverse_mod [of p e dP]) (use K y(4) in simp_all)
      show "bytes_val z mod q = bytes_val x mod q"
        unfolding z(3) by (rule power_inverse_mod [of q e dQ]) (use K y(5) in simp_all)
    qed (use K in simp)
    then have "z = x" by (rule bytes_val_inj [OF z(2)])
    then show ?thesis using z(1) by blast
  qed
  then show ?thesis using y by blast
qed

end
