(* ===== verification/Rsa_Properties.thy ===== *)
theory Rsa_Properties
  imports Rsa
begin

section \<open>Properties of the RSA operations\<close>

text \<open>
  What one key of a pair encrypts, the other decrypts; the errors of the operations; and the
  sample pair at which the properties are applied, with a modulus of 94 bits whose two
  factors are products of small distinct primes.
\<close>

subsection \<open>Random padding\<close>

lemma nonzero_byte_result: "nonzero_byte byte r = Some y \<Longrightarrow> fst y \<noteq> 0"
  by (rule nonzero_byte.raw_induct [of "\<lambda>byte r y. fst y \<noteq> 0"])
    (auto split: sum.splits if_splits prod.splits)

lemma nonzero_bytes_result:
  "nonzero_bytes n byte r = Some (pad, r') \<Longrightarrow> length pad = n \<and> list_all (\<lambda>b. b \<noteq> 0) pad"
  by (induction n arbitrary: byte r pad) (auto split: Option.bind_splits dest!: nonzero_byte_result)

lemma bytes_val_zero_Cons: "bytes_val (0 # b) = bytes_val b"
  by (simp add: bytes_val_def le_val_append)

text \<open>A block that starts with a zero byte is below the modulus.\<close>

lemma block_below_modulus:
  assumes "rsa_pair pub priv p q e dP dQ" "length (0 # b) = (priv_bits priv + 7) div 8"
  shows "bytes_val (0 # b) < p * q"
proof -
  have "bytes_val b < 2 ^ (8 * length b)" by (rule bytes_val_bound)
  also have "\<dots> \<le> p * q" using rsa_pair_length(4) [OF assms(1) refl] assms(2) [symmetric] by simp
  finally show ?thesis by (simp add: bytes_val_zero_Cons)
qed

subsection \<open>Encryption and decryption\<close>

lemma encrypted_block:
  assumes "rsa_pair pub priv p q e dP dQ" "length input + 11 \<le> (priv_bits priv + 7) div 8"
    "nonzero_bytes ((priv_bits priv + 7) div 8 - length input - 3) byte r = Some (pad, r')"
  shows "\<exists>y k'. RSAPublicEncrypt byte input pub r k = Some (Inr y, r', k') \<and> length y = (priv_bits priv + 7) div 8 \<and>
    (\<forall>k0. map_option fst (RSAPrivateDecrypt y priv k0) = Some (if input = [] then Inl RE_DATA else Inr input))"
proof -
  define L where "L = (priv_bits priv + 7) div 8"
  have bits: "pub_bits pub = priv_bits priv" using assms(1) by (simp add: rsa_pair_def)
  have three: "L - length input - 1 - 2 = L - length input - 3" by simp
  have pad: "length pad = L - length input - 3" "list_all (\<lambda>b. b \<noteq> 0) pad"
    using nonzero_bytes_result [OF assms(3)] by (simp_all add: L_def)
  define block where "block = [0, 2] @ pad @ [0] @ input"
  have l: "length block = L" "8 \<le> length pad" using assms(2) pad(1) by (simp_all add: block_def L_def)
  have lt: "bytes_val block < p * q" using block_below_modulus [OF assms(1), of "2 # pad @ [0] @ input"] l(1)
    by (simp add: block_def L_def)
  obtain y k' where y: "RSAPublicBlock block pub k = Some (Inr y, k')" "length y = L"
    "\<forall>k. \<exists>k''. RSAPrivateBlock y priv k = Some (Inr block, k'')"
    using RSA_public_private [OF assms(1) _ lt, of k] l(1) by (auto simp: L_def)
  have "RSAPublicEncrypt byte input pub r k = Some (Inr y, r', k')"
    using assms(2,3) y(1) unfolding RSAPublicEncrypt_def Let_def bits L_def [symmetric] three block_def by simp
  moreover have "map_option fst (RSAPrivateDecrypt y priv k0) = Some (if input = [] then Inl RE_DATA else Inr input)" for k0
    using y(2) y(3) [rule_format, of k0] l(1) unpad_type2_padded [OF pad(2) l(2) block_def]
    unfolding RSAPrivateDecrypt_def Let_def L_def [symmetric] by auto
  ultimately show ?thesis using y(2) by (auto simp: L_def)
qed

lemma RSAPublicEncrypt_result:
  assumes "rsa_pair pub priv p q e dP dQ" "RSAPublicEncrypt byte input pub r k = Some (Inr y, r', k')"
  shows "length y = (priv_bits priv + 7) div 8 \<and>
    (\<forall>k0. map_option fst (RSAPrivateDecrypt y priv k0) = Some (if input = [] then Inl RE_DATA else Inr input))"
proof -
  have bits: "pub_bits pub = priv_bits priv" using assms(1) by (simp add: rsa_pair_def)
  have three: "L - length input - 1 - 2 = L - length input - 3" for L by simp
  have len: "length input + 11 \<le> (priv_bits priv + 7) div 8"
    using assms(2) by (auto simp: RSAPublicEncrypt_def bits Let_def split: if_splits)
  then obtain pad r'' where "nonzero_bytes ((priv_bits priv + 7) div 8 - length input - 3) byte r = Some (pad, r'')"
    using assms(2) unfolding RSAPublicEncrypt_def Let_def bits three by (auto split: Option.bind_splits)
  from encrypted_block [OF assms(1) len this, of k] assms(2) show ?thesis by auto
qed

lemma signed_block:
  assumes "rsa_pair pub priv p q e dP dQ" "length input + 11 \<le> (priv_bits priv + 7) div 8"
  shows "\<exists>y k'. RSAPrivateEncrypt input priv k = Some (Inr y, k') \<and> length y = (priv_bits priv + 7) div 8 \<and>
    (\<forall>k0. map_option fst (RSAPublicDecrypt y pub k0) = Some (Inr input))"
proof -
  define L where "L = (priv_bits priv + 7) div 8"
  have bits: "pub_bits pub = priv_bits priv" using assms(1) by (simp add: rsa_pair_def)
  have three: "L - length input - 1 - 2 = L - length input - 3" by simp
  define block where "block = [0, 1] @ replicate (L - length input - 3) 0xff @ [0 :: u8] @ input"
  have l: "length block = L" "8 \<le> L - length input - 3" using assms(2) by (simp_all add: block_def L_def)
  have lt: "bytes_val block < p * q"
    using block_below_modulus [OF assms(1), of "1 # replicate (L - length input - 3) 0xff @ [0] @ input"] l(1)
    by (simp add: block_def L_def)
  obtain y k' where y: "RSAPrivateBlock block priv k = Some (Inr y, k')" "length y = L"
    "\<forall>k. \<exists>k''. RSAPublicBlock y pub k = Some (Inr block, k'')"
    using RSA_private_public [OF assms(1) _ lt, of k] l(1) by (auto simp: L_def)
  have "RSAPrivateEncrypt input priv k = Some (Inr y, k')"
    using assms(2) y(1) unfolding RSAPrivateEncrypt_def Let_def L_def [symmetric] three block_def by simp
  moreover have "map_option fst (RSAPublicDecrypt y pub k0) = Some (Inr input)" for k0
    using y(2) y(3) [rule_format, of k0] l(1) unpad_type1_padded [OF l(2) block_def]
    unfolding RSAPublicDecrypt_def Let_def bits L_def [symmetric] by auto
  ultimately show ?thesis using y(2) by (auto simp: L_def)
qed

text \<open>
  C26: What RSA public-key encryption makes of a message that leaves eleven bytes of the
  modulus, private-key decryption by the Chinese remainder theorem returns, except the empty
  message, which it rejects as RE_DATA.
\<close>

theorem RSA_encrypt_decrypt:
  assumes "rsa_pair pub priv p q e dP dQ" "length input + 11 \<le> (priv_bits priv + 7) div 8"
    "nonzero_bytes ((priv_bits priv + 7) div 8 - length input - 3) byte r = Some (pad, r')"
  shows "\<exists>y k'. RSAPublicEncrypt byte input pub r k = Some (Inr y, r', k') \<and>
    map_option fst (RSAPrivateDecrypt y priv k0) = Some (if input = [] then Inl RE_DATA else Inr input)"
  using encrypted_block [OF assms] by blast

text \<open>
  What RSA private-key encryption makes of a message that leaves eleven bytes of the
  modulus, public-key decryption returns, the empty message included.
\<close>

theorem RSA_sign_verify:
  assumes "rsa_pair pub priv p q e dP dQ" "length input + 11 \<le> (priv_bits priv + 7) div 8"
  shows "\<exists>y k'. RSAPrivateEncrypt input priv k = Some (Inr y, k') \<and>
    map_option fst (RSAPublicDecrypt y pub k0) = Some (Inr input)"
  using signed_block [OF assms] by blast

subsection \<open>A sample pair\<close>

definition in_field :: "nat \<Rightarrow> bytes \<Rightarrow> bytes" where
  "in_field n b = replicate (n - length b) 0 @ b"

definition sample_public :: R_RSA_PUBLIC_KEY where
  "sample_public = \<lparr>pub_bits = 94,
     pub_modulus = in_field 128 [46, 150, 72, 137, 28, 250, 195, 233, 128, 70, 28, 118], pub_exponent = in_field 128 [11]\<rparr>"

definition sample_private :: R_RSA_PRIVATE_KEY where
  "sample_private = \<lparr>priv_bits = 94,
     priv_modulus = in_field 128 [46, 150, 72, 137, 28, 250, 195, 233, 128, 70, 28, 118],
     priv_publicExponent = in_field 128 [11], priv_exponent = in_field 128 [8, 243],
     priv_prime = [in_field 64 [2, 35, 45, 225, 177, 100, 6], in_field 64 [21, 203, 194, 117, 89, 105]],
     priv_primeExponent = [in_field 64 [8, 243], in_field 64 [8, 243]],
     priv_coefficient = in_field 64 [31, 204, 181, 40, 242, 141]\<rparr>"

lemma bytes_val_in_field [simp]: "bytes_val (in_field n b) = bytes_val b"
  by (simp add: in_field_def bytes_val_def le_val_append)

lemma length_in_field [simp]: "length b \<le> n \<Longrightarrow> length (in_field n b) = n"
  by (simp add: in_field_def)

text \<open>Primes below 289 have no divisor below 17.\<close>

lemma is_prime_small:
  assumes "1 < p" "p < 289" "list_all (\<lambda>d. p mod d \<noteq> 0 \<or> d = p) [2, 3, 4, 5, 6, 7, 8, 9, 10, 11, 12, 13, 14, 15, 16]"
  shows "is_prime p"
proof -
  have small: "d = 1 \<or> d = p" if "d dvd p" "d < 17" for d
  proof (cases "2 \<le> d")
    case True
    then have "d \<in> set [2, 3, 4, 5, 6, 7, 8, 9, 10, 11, 12, 13, 14, 15, 16]" using that(2) by (simp only: set_simps insert_iff empty_iff) arith
    then have "p mod d \<noteq> 0 \<or> d = p" using assms(3) unfolding list_all_iff by blast
    then show ?thesis using that(1) by (simp add: mod_eq_0_iff_dvd)
  next
    case False
    then show ?thesis using that(1) assms(1) by (cases d) auto
  qed
  have "d = 1 \<or> d = p" if dp: "d dvd p" for d
  proof (cases "d < 17")
    case False
    obtain e where e: "p = d * e" using dp by (auto simp: dvd_def)
    have "e < 17"
    proof (rule ccontr)
      assume "\<not> e < 17"
      then have "17 * 17 \<le> d * e" using False by (intro mult_le_mono) simp_all
      then show False using e assms(2) by simp
    qed
    then show ?thesis using small [of e] e assms(1) by auto
  qed (use small dp in blast)
  then show ?thesis using assms(1) by (simp add: is_prime_def)
qed

lemma inverse_coprime: "q * i mod p = (1::nat) \<Longrightarrow> coprime p q"
proof -
  assume i: "q * i mod p = 1"
  have "gcd p q dvd q * i mod p" by (intro dvd_mod) simp_all
  then show "coprime p q" by (simp add: i coprime_iff_gcd_eq_1)
qed

lemma rsa_factorI:
  "0 < e \<Longrightarrow> 0 < d \<Longrightarrow> distinct rs \<Longrightarrow> prod_list rs = p \<Longrightarrow> list_all is_prime rs \<Longrightarrow>
    list_all (\<lambda>r. e * d mod (r - 1) = 1 mod (r - 1)) rs \<Longrightarrow> rsa_factor p e d"
  unfolding rsa_factor_def list_all_iff by blast

lemma sample_primes: "list_all is_prime [2, 5, 11, 19, 31, 41, 61, 73, 181, 281, 3, 7, 13, 29, 37, 43, 71, 127, 211]"
  by (simp add: is_prime_small)

lemma sample_factors:
  "rsa_factor 601629920420870 11 2291" "rsa_factor 23964885014889 11 2291"
proof -
  show "rsa_factor 601629920420870 11 2291"
    by (rule rsa_factorI [of _ _ "[2, 5, 11, 19, 31, 41, 61, 73, 181, 281]"]) (use sample_primes in simp_all)
  show "rsa_factor 23964885014889 11 2291"
    by (rule rsa_factorI [of _ _ "[3, 7, 13, 29, 37, 43, 71, 127, 211]"]) (use sample_primes in simp_all)
qed

lemma sample_values:
  "bytes_val [46, 150, 72, 137, 28, 250, 195, 233, 128, 70, 28, 118] = 601629920420870 * 23964885014889"
  "bytes_val [11] = 11" "bytes_val [8, 243] = 2291" "bytes_val [2, 35, 45, 225, 177, 100, 6] = 601629920420870"
  "bytes_val [21, 203, 194, 117, 89, 105] = 23964885014889" "bytes_val [31, 204, 181, 40, 242, 141] = 34964073149069"
  by (simp_all add: bytes_val_def)

lemma sample_pair: "rsa_pair sample_public sample_private 601629920420870 23964885014889 11 2291 2291"
proof -
  have "coprime 601629920420870 (23964885014889::nat)" by (rule inverse_coprime [of _ 34964073149069]) simp
  then show ?thesis
    using sample_factors by (simp add: rsa_pair_def rsa_private_values_def sample_public_def sample_private_def sample_values)
qed

definition seeded_random :: R_RANDOM_STRUCT where
  "seeded_random = \<lparr>bytesNeeded = 0, r_state = replicate 16 0, outputAvailable = 16, r_output = replicate 16 7\<rparr>"

lemma nonzero_byte_available:
  "bytesNeeded r = 0 \<Longrightarrow> 0 < outputAvailable r \<Longrightarrow> outputAvailable r \<le> 16 \<Longrightarrow> r_output r = replicate 16 x \<Longrightarrow> x \<noteq> 0 \<Longrightarrow>
    nonzero_byte b r = Some (x, r\<lparr>outputAvailable := outputAvailable r - 1\<rparr>)"
  by (subst nonzero_byte.simps) (simp add: R_GenerateBytes_def generate_loop_short Suc_le_eq take_Suc)

lemma nonzero_bytes_available:
  "n \<le> outputAvailable r \<Longrightarrow> bytesNeeded r = 0 \<Longrightarrow> outputAvailable r \<le> 16 \<Longrightarrow> r_output r = replicate 16 x \<Longrightarrow> x \<noteq> 0 \<Longrightarrow>
    nonzero_bytes n b r = Some (replicate n x, r\<lparr>outputAvailable := outputAvailable r - n\<rparr>)"
  by (induction n arbitrary: b r) (simp_all add: nonzero_byte_available)

lemma RSA_encrypt_decrypt_witness:
  "\<exists>y k'. RSAPublicEncrypt 0 [200] sample_public seeded_random 0 =
      Some (Inr y, seeded_random\<lparr>outputAvailable := 8\<rparr>, k') \<and>
    map_option fst (RSAPrivateDecrypt y sample_private 0) = Some (if [200 :: u8] = [] then Inl RE_DATA else Inr [200])"
proof (rule RSA_encrypt_decrypt [OF sample_pair])
  show "nonzero_bytes ((priv_bits sample_private + 7) div 8 - length [200 :: u8] - 3) 0 seeded_random =
      Some (replicate 8 7, seeded_random\<lparr>outputAvailable := 8\<rparr>)"
    by (subst nonzero_bytes_available [where x = 7]) (simp_all add: sample_private_def seeded_random_def)
qed (simp add: sample_private_def)

lemma RSA_sign_verify_witness:
  "\<exists>y k'. RSAPrivateEncrypt [200] sample_private 0 = Some (Inr y, k') \<and>
    map_option fst (RSAPublicDecrypt y sample_public 0) = Some (Inr [200])"
  by (rule RSA_sign_verify [OF sample_pair]) (simp add: sample_private_def)

end
