(* ===== verification/R_Sign.thy ===== *)
theory R_Sign
  imports Rsa_Properties Md2
begin

section \<open>Digests and signatures by parts (r_enhanc.c: Digest, Sign and Verify)\<close>

text \<open>
  A status of 0 is \<open>None\<close>.  The members of the union of the two digest contexts are kept
  apart in the record: the algorithm says which of them an operation uses.  Computing a
  digest clears the context it was computed in.
\<close>

definition DA_MD2 :: int where "DA_MD2 = 3"
definition DA_MD5 :: int where "DA_MD5 = 5"

lemmas DA_defs = DA_MD2_def DA_MD5_def

record R_DIGEST_CTX =
  digestAlgorithm :: int
  ctx_md2 :: MD2_CTX
  ctx_md5 :: MD5_CTX

record R_SIGNATURE_CTX =
  digestContext :: R_DIGEST_CTX

definition cleared_MD2_CTX :: MD2_CTX where
  "cleared_MD2_CTX = \<lparr>md2_state = replicate 16 0, md2_checksum = replicate 16 0, md2_count = 0, md2_buffer = replicate 16 0\<rparr>"

definition R_DigestInit :: "R_DIGEST_CTX \<Rightarrow> int \<Rightarrow> re_code option \<times> R_DIGEST_CTX" where
  "R_DigestInit context alg =
     (let context = context\<lparr>digestAlgorithm := alg\<rparr>
      in if alg = DA_MD2 then (None, context\<lparr>ctx_md2 := MD2Init (ctx_md2 context)\<rparr>)
         else if alg = DA_MD5 then (None, context\<lparr>ctx_md5 := MD5Init (ctx_md5 context)\<rparr>)
         else (Some RE_DIGEST_ALGORITHM, context))"

definition R_DigestUpdate :: "R_DIGEST_CTX \<Rightarrow> bytes \<Rightarrow> re_code option \<times> R_DIGEST_CTX" where
  "R_DigestUpdate context partIn =
     (None, if digestAlgorithm context = DA_MD2
            then context\<lparr>ctx_md2 := MD2Update (ctx_md2 context) partIn\<rparr>
            else context\<lparr>ctx_md5 := MD5Update (ctx_md5 context) partIn\<rparr>)"

definition R_DigestFinal :: "R_DIGEST_CTX \<Rightarrow> re_code option \<times> bytes \<times> R_DIGEST_CTX" where
  "R_DigestFinal context =
     (if digestAlgorithm context = DA_MD2
      then (None, MD2Final (ctx_md2 context), context\<lparr>ctx_md2 := cleared_MD2_CTX\<rparr>)
      else (None, MD5Final (ctx_md5 context), context\<lparr>ctx_md5 := local_MD5_CTX\<rparr>))"

definition DIGEST_INFO_A :: bytes where
  "DIGEST_INFO_A = [0x30, 0x20, 0x30, 0x0c, 0x06, 0x08, 0x2a, 0x86, 0x48, 0x86, 0xf7, 0x0d, 0x02]"

definition DIGEST_INFO_B :: bytes where
  "DIGEST_INFO_B = [0x05, 0x00, 0x04, 0x10]"

definition DIGEST_INFO_LEN :: nat where
  "DIGEST_INFO_LEN = length DIGEST_INFO_A + 1 + length DIGEST_INFO_B + 16"

definition R_EncodeDigestInfo :: "int \<Rightarrow> bytes \<Rightarrow> bytes" where
  "R_EncodeDigestInfo alg digest =
     DIGEST_INFO_A @ [if alg = DA_MD2 then 2 else 5] @ DIGEST_INFO_B @ take 16 digest"

subsection \<open>Signing\<close>

definition R_SignInit :: "R_SIGNATURE_CTX \<Rightarrow> int \<Rightarrow> re_code option \<times> R_SIGNATURE_CTX" where
  "R_SignInit context alg =
     (let (status, d) = R_DigestInit (digestContext context) alg in (status, context\<lparr>digestContext := d\<rparr>))"

definition R_SignUpdate :: "R_SIGNATURE_CTX \<Rightarrow> bytes \<Rightarrow> re_code option \<times> R_SIGNATURE_CTX" where
  "R_SignUpdate context partIn =
     (let (status, d) = R_DigestUpdate (digestContext context) partIn in (status, context\<lparr>digestContext := d\<rparr>))"

definition R_SignFinal ::
  "R_SIGNATURE_CTX \<Rightarrow> R_RSA_PRIVATE_KEY \<Rightarrow> u32 \<Rightarrow> ((re_code + bytes) \<times> R_SIGNATURE_CTX \<times> u32) option" where
  "R_SignFinal context privateKey DivCount =
     (let (status, digest, d) = R_DigestFinal (digestContext context);
          context = context\<lparr>digestContext := d\<rparr>
      in case status of
           Some code \<Rightarrow> Some (Inl code, context, DivCount)
         | None \<Rightarrow> do {
             (result, DivCount) \<leftarrow>
               RSAPrivateEncrypt (R_EncodeDigestInfo (digestAlgorithm d) digest) privateKey DivCount;
             case result of
               Inl code \<Rightarrow> Some (Inl RE_PRIVATE_KEY, context, DivCount)
             | Inr signature \<Rightarrow>
                 Some (Inr signature, context\<lparr>digestContext := snd (R_DigestInit d (digestAlgorithm d))\<rparr>, DivCount)
           })"

text \<open>The variant that signs an encoded digest it is given.\<close>

definition R_SignFinal2 :: "bytes \<Rightarrow> R_RSA_PRIVATE_KEY \<Rightarrow> u32 \<Rightarrow> ((re_code + bytes) \<times> u32) option" where
  "R_SignFinal2 context privateKey DivCount = do {
     (result, DivCount) \<leftarrow> RSAPrivateEncrypt (take DIGEST_INFO_LEN context) privateKey DivCount;
     case result of
       Inl code \<Rightarrow> Some (Inl RE_PRIVATE_KEY, DivCount)
     | Inr signature \<Rightarrow> Some (Inr signature, DivCount)
   }"

subsection \<open>Verifying\<close>

definition R_VerifyInit :: "R_SIGNATURE_CTX \<Rightarrow> int \<Rightarrow> re_code option \<times> R_SIGNATURE_CTX" where
  "R_VerifyInit context alg =
     (let (status, d) = R_DigestInit (digestContext context) alg in (status, context\<lparr>digestContext := d\<rparr>))"

definition R_VerifyUpdate :: "R_SIGNATURE_CTX \<Rightarrow> bytes \<Rightarrow> re_code option \<times> R_SIGNATURE_CTX" where
  "R_VerifyUpdate context partIn =
     (let (status, d) = R_DigestUpdate (digestContext context) partIn in (status, context\<lparr>digestContext := d\<rparr>))"

definition R_VerifyFinal ::
  "R_SIGNATURE_CTX \<Rightarrow> bytes \<Rightarrow> R_RSA_PUBLIC_KEY \<Rightarrow> u32 \<Rightarrow> (re_code option \<times> R_SIGNATURE_CTX \<times> u32) option" where
  "R_VerifyFinal context signature publicKey DivCount =
     (if length signature > 128 then Some (Some RE_LEN, context, DivCount)
      else let (status, digest, d) = R_DigestFinal (digestContext context);
               context = context\<lparr>digestContext := d\<rparr>
      in case status of
           Some code \<Rightarrow> Some (Some code, context, DivCount)
         | None \<Rightarrow> do {
             (result, DivCount) \<leftarrow> RSAPublicDecrypt signature publicKey DivCount;
             case result of
               Inl code \<Rightarrow> Some (Some RE_PUBLIC_KEY, context, DivCount)
             | Inr originalDigestInfo \<Rightarrow>
                 if length originalDigestInfo \<noteq> DIGEST_INFO_LEN \<or>
                    originalDigestInfo \<noteq> R_EncodeDigestInfo (digestAlgorithm d) digest
                 then Some (Some RE_SIGNATURE, context, DivCount)
                 else Some (None, context\<lparr>digestContext := snd (R_DigestInit d (digestAlgorithm d))\<rparr>, DivCount)
           })"

subsection \<open>Whole blocks\<close>

text \<open>
  The context of these operations is a local variable; \<open>context\<close> is what it holds at first.
\<close>

definition R_DigestBlock :: "R_DIGEST_CTX \<Rightarrow> bytes \<Rightarrow> int \<Rightarrow> re_code + bytes" where
  "R_DigestBlock context block alg =
     (let (status, context) = R_DigestInit context alg in case status of Some code \<Rightarrow> Inl code | None \<Rightarrow>
      let (status, context) = R_DigestUpdate context block in case status of Some code \<Rightarrow> Inl code | None \<Rightarrow>
      let (status, digest, context) = R_DigestFinal context in case status of Some code \<Rightarrow> Inl code | None \<Rightarrow>
      Inr digest)"

definition R_SignBlock ::
  "R_SIGNATURE_CTX \<Rightarrow> bytes \<Rightarrow> int \<Rightarrow> R_RSA_PRIVATE_KEY \<Rightarrow> u32 \<Rightarrow> ((re_code + bytes) \<times> u32) option" where
  "R_SignBlock context block alg privateKey DivCount =
     (let (status, context) = R_SignInit context alg
      in case status of Some code \<Rightarrow> Some (Inl code, DivCount) | None \<Rightarrow>
      let (status, context) = R_SignUpdate context block
      in case status of Some code \<Rightarrow> Some (Inl code, DivCount) | None \<Rightarrow> do {
        (result, context, DivCount) \<leftarrow> R_SignFinal context privateKey DivCount;
        Some (result, DivCount)
      })"

definition R_VerifyBlockSignature ::
  "R_SIGNATURE_CTX \<Rightarrow> bytes \<Rightarrow> bytes \<Rightarrow> int \<Rightarrow> R_RSA_PUBLIC_KEY \<Rightarrow> u32 \<Rightarrow> (re_code option \<times> u32) option" where
  "R_VerifyBlockSignature context block signature alg publicKey DivCount =
     (let (status, context) = R_VerifyInit context alg
      in case status of Some code \<Rightarrow> Some (Some code, DivCount) | None \<Rightarrow>
      let (status, context) = R_VerifyUpdate context block
      in case status of Some code \<Rightarrow> Some (Some code, DivCount) | None \<Rightarrow> do {
        (status, context, DivCount) \<leftarrow> R_VerifyFinal context signature publicKey DivCount;
        Some (status, DivCount)
      })"

subsection \<open>The digest of a message\<close>

definition digest_ok :: "R_DIGEST_CTX \<Rightarrow> bool" where
  "digest_ok c \<longleftrightarrow> length (md2_buffer (ctx_md2 c)) = 16 \<and> length (md5_buffer (ctx_md5 c)) = 64"

definition digest_fits :: "nat \<Rightarrow> bool" where
  "digest_fits n \<longleftrightarrow> md2_fits n \<and> md5_fits n"

definition message_digest :: "int \<Rightarrow> bytes \<Rightarrow> bytes" where
  "message_digest alg msg = (if alg = DA_MD2 then md2_digest msg else md5_digest msg)"

text \<open>A digest context is one of its two members, with the laws of both.\<close>

definition digest_inv :: "R_DIGEST_CTX \<Rightarrow> bool" where
  "digest_inv c \<longleftrightarrow> (if digestAlgorithm c = DA_MD2 then md2_ok (ctx_md2 c) else md5_ok (ctx_md5 c))"

definition digest_view :: "R_DIGEST_CTX \<Rightarrow> ((bytes \<times> bytes) \<times> bytes) + (u32 list \<times> (u32 \<times> u32) \<times> bytes)" where
  "digest_view c = (if digestAlgorithm c = DA_MD2 then Inl (md2_view (ctx_md2 c)) else Inr (md5_view (ctx_md5 c)))"

interpretation digest: incremental_digest "\<lambda>c x. snd (R_DigestUpdate c x)" digest_view
  "\<lambda>c. fst (snd (R_DigestFinal c))" digest_inv digest_fits
proof
  fix c d :: R_DIGEST_CTX and x y :: bytes and m n :: nat
  show "digest_inv c \<Longrightarrow> digest_fits (length x) \<Longrightarrow> digest_inv (snd (R_DigestUpdate c x))"
    by (auto simp: digest_inv_def digest_fits_def R_DigestUpdate_def md2.ok_update md5.ok_update)
  show "digest_inv c \<Longrightarrow> digest_fits (length x + length y) \<Longrightarrow>
      digest_view (snd (R_DigestUpdate (snd (R_DigestUpdate c x)) y)) = digest_view (snd (R_DigestUpdate c (x @ y)))"
    by (auto simp: digest_inv_def digest_fits_def R_DigestUpdate_def digest_view_def md2.view_append md5.view_append)
  show "digest_inv c \<Longrightarrow> digest_inv d \<Longrightarrow> digest_view c = digest_view d \<Longrightarrow> digest_fits (length x) \<Longrightarrow>
      digest_view (snd (R_DigestUpdate c x)) = digest_view (snd (R_DigestUpdate d x))"
    by (auto simp: digest_inv_def digest_fits_def R_DigestUpdate_def digest_view_def
        intro: md2.view_update md5.view_update split: if_splits)
  show "digest_inv c \<Longrightarrow> digest_inv d \<Longrightarrow> digest_view c = digest_view d \<Longrightarrow>
      fst (snd (R_DigestFinal c)) = fst (snd (R_DigestFinal d))"
    by (auto simp: digest_inv_def R_DigestFinal_def digest_view_def
        intro: md2.view_final md5.view_final split: if_splits)
  show "digest_inv c \<Longrightarrow> digest_view (snd (R_DigestUpdate c [])) = digest_view c"
    by (auto simp: digest_inv_def R_DigestUpdate_def digest_view_def md2.view_nil md5.view_nil)
  show "digest_fits n \<Longrightarrow> m \<le> n \<Longrightarrow> digest_fits m"
    using md2.fits_less md5.fits_less by (auto simp: digest_fits_def)
qed

lemma length_md2_digest [simp]: "length (md2_digest m) = 16"
  using length_block_loop_checksum [of "(replicate 16 0, replicate 16 0)" "md2_padded m"]
  by (simp add: md2_digest_def case_prod_beta length_MD2Transform)

lemma length_message_digest [simp]: "length (message_digest alg m) = 16"
  by (simp add: message_digest_def)

lemma digest_once:
  assumes "digest_ok c" "R_DigestInit c alg = (None, c')" "digest_fits (length msg)"
  shows "fst (snd (R_DigestFinal (snd (R_DigestUpdate c' msg)))) = message_digest alg msg" "digest_inv c'"
    "digestAlgorithm c' = alg"
  using assms MD2Final_spec [of "ctx_md2 c" msg] MD5Final_spec [of msg "ctx_md5 c"]
  by (auto simp: R_DigestInit_def R_DigestUpdate_def R_DigestFinal_def message_digest_def digest_ok_def digest_fits_def
      digest_inv_def md2_ok_def md5_ok_def MD2Init_def MD5Init_def Let_def DA_defs split: if_splits)

lemma R_DigestInit_status: "fst (R_DigestInit c alg) = None \<longleftrightarrow> alg = DA_MD2 \<or> alg = DA_MD5"
  by (simp add: R_DigestInit_def Let_def)
lemma R_SignBlock_value:
  assumes "digest_ok (digestContext c)" "digest_fits (length block)" "alg = DA_MD2 \<or> alg = DA_MD5"
  shows "R_SignBlock c block alg priv k = do {
    (result, k) \<leftarrow> RSAPrivateEncrypt (R_EncodeDigestInfo alg (message_digest alg block)) priv k;
    Some (case result of Inl code \<Rightarrow> Inl RE_PRIVATE_KEY | Inr signature \<Rightarrow> Inr signature, k)
  }"
proof -
  obtain d where d: "R_DigestInit (digestContext c) alg = (None, d)"
    using assms(3) R_DigestInit_status [of "digestContext c" alg] by (metis prod.collapse)
  note o = digest_once [OF assms(1) d assms(2)]
  define d1 where "d1 = snd (R_DigestUpdate d block)"
  obtain d2 where f: "R_DigestFinal d1 = (None, message_digest alg block, d2)" "digestAlgorithm d2 = alg"
    using o unfolding d1_def by (auto simp: R_DigestFinal_def R_DigestUpdate_def split: if_splits)
  have u: "R_DigestUpdate d block = (None, d1)" unfolding d1_def by (simp add: R_DigestUpdate_def)
  show ?thesis
    by (simp add: R_SignBlock_def R_SignInit_def R_SignUpdate_def R_SignFinal_def d u f
        split: Option.bind_split sum.split prod.split)
qed

lemma R_VerifyBlockSignature_value:
  assumes "digest_ok (digestContext c)" "digest_fits (length block)" "alg = DA_MD2 \<or> alg = DA_MD5"
    "length signature \<le> 128"
  shows "R_VerifyBlockSignature c block signature alg pub k = do {
    (result, k) \<leftarrow> RSAPublicDecrypt signature pub k;
    Some (case result of Inl code \<Rightarrow> Some RE_PUBLIC_KEY
      | Inr info \<Rightarrow> if info = R_EncodeDigestInfo alg (message_digest alg block) then None else Some RE_SIGNATURE, k)
  }"
proof -
  obtain d where d: "R_DigestInit (digestContext c) alg = (None, d)"
    using assms(3) R_DigestInit_status [of "digestContext c" alg] by (metis prod.collapse)
  note o = digest_once [OF assms(1) d assms(2)]
  define d1 where "d1 = snd (R_DigestUpdate d block)"
  obtain d2 where f: "R_DigestFinal d1 = (None, message_digest alg block, d2)" "digestAlgorithm d2 = alg"
    using o unfolding d1_def by (auto simp: R_DigestFinal_def R_DigestUpdate_def split: if_splits)
  have u: "R_DigestUpdate d block = (None, d1)" unfolding d1_def by (simp add: R_DigestUpdate_def)
  have "length (R_EncodeDigestInfo alg (message_digest alg block)) = DIGEST_INFO_LEN"
    by (simp add: R_EncodeDigestInfo_def DIGEST_INFO_LEN_def)
  with assms(4) show ?thesis
    by (auto simp: R_VerifyBlockSignature_def R_VerifyInit_def R_VerifyUpdate_def R_VerifyFinal_def d u f
        split: Option.bind_split sum.split prod.split)
qed

lemma bad_algorithm:
  assumes "alg \<noteq> DA_MD2" "alg \<noteq> DA_MD5"
  shows "R_SignBlock c block alg priv k = Some (Inl RE_DIGEST_ALGORITHM, k)"
    "R_VerifyBlockSignature c block signature alg pub k = Some (Some RE_DIGEST_ALGORITHM, k)"
    "R_DigestBlock (digestContext c) block alg = Inl RE_DIGEST_ALGORITHM"
  using assms by (simp_all add: R_SignBlock_def R_SignInit_def R_VerifyBlockSignature_def R_VerifyInit_def
      R_DigestBlock_def R_DigestInit_def)

lemma R_EncodeDigestInfo_inject:
  assumes "alg = DA_MD2 \<or> alg = DA_MD5" "alg' = DA_MD2 \<or> alg' = DA_MD5" "length d = 16" "length d' = 16"
  shows "R_EncodeDigestInfo alg d = R_EncodeDigestInfo alg' d' \<longleftrightarrow> alg = alg' \<and> d = d'"
  using assms by (auto simp: R_EncodeDigestInfo_def DA_defs)

lemma signed_verified:
  assumes key: "rsa_pair pub priv p q e dP dQ" "45 \<le> (priv_bits priv + 7) div 8"
    and algs: "alg = DA_MD2 \<or> alg = DA_MD5" "alg' = DA_MD2 \<or> alg' = DA_MD5"
    and ctx: "digest_ok (digestContext c)" "digest_ok (digestContext c')"
    and fits: "digest_fits (length block)" "digest_fits (length block')"
  shows "\<exists>s k'. R_SignBlock c block alg priv k = Some (Inr s, k') \<and> length s = (priv_bits priv + 7) div 8 \<and>
    (\<forall>k0. map_option fst (R_VerifyBlockSignature c' block' s alg' pub k0) =
      Some (if alg' = alg \<and> message_digest alg' block' = message_digest alg block then None else Some RE_SIGNATURE))"
proof -
  define info where "info = R_EncodeDigestInfo alg (message_digest alg block)"
  have "length info + 11 \<le> (priv_bits priv + 7) div 8"
    using key(2) by (simp add: info_def R_EncodeDigestInfo_def DIGEST_INFO_A_def DIGEST_INFO_B_def)
  from signed_block [OF key(1) this, of k] obtain s k' where s: "RSAPrivateEncrypt info priv k = Some (Inr s, k')"
    "length s = (priv_bits priv + 7) div 8" "\<forall>k0. map_option fst (RSAPublicDecrypt s pub k0) = Some (Inr info)"
    by blast
  have "R_SignBlock c block alg priv k = Some (Inr s, k')"
    using R_SignBlock_value [OF ctx(1) fits(1) algs(1), of priv k] s(1) by (simp add: info_def)
  moreover have "map_option fst (R_VerifyBlockSignature c' block' s alg' pub k0) =
      Some (if alg' = alg \<and> message_digest alg' block' = message_digest alg block then None else Some RE_SIGNATURE)" for k0
  proof -
    have "length s \<le> 128" using s(2) rsa_pair_length(2) [OF key(1) refl] by simp
    moreover obtain k'' where "RSAPublicDecrypt s pub k0 = Some (Inr info, k'')" using s(3) by auto
    ultimately show ?thesis
      using R_VerifyBlockSignature_value [OF ctx(2) fits(2) algs(2), of s pub k0]
        R_EncodeDigestInfo_inject [OF algs(1,2), of "message_digest alg block" "message_digest alg' block'"]
      by (auto simp: info_def)
  qed
  ultimately show ?thesis using s(2) by blast
qed

subsection \<open>Signing in parts\<close>

lemma sign_updates:
  "foldl (\<lambda>c x. snd (R_SignUpdate c x)) c xs =
    c\<lparr>digestContext := foldl (\<lambda>d x. snd (R_DigestUpdate d x)) (digestContext c) xs\<rparr>"
  by (induction xs arbitrary: c) (simp_all add: R_SignUpdate_def case_prod_beta)

lemma sign_parts:
  assumes "digest_ok (digestContext c)" "R_SignInit c alg = (None, c')" "digest_fits (length (concat xs))"
  shows "map_option fst (R_SignFinal (foldl (\<lambda>c x. snd (R_SignUpdate c x)) c' xs) priv k) =
    map_option fst (R_SignBlock c (concat xs) alg priv k)"
proof -
  obtain d where d: "R_DigestInit (digestContext c) alg = (None, d)" "c' = c\<lparr>digestContext := d\<rparr>"
    using assms(2) by (auto simp: R_SignInit_def split: prod.splits)
  then have alg: "alg = DA_MD2 \<or> alg = DA_MD5" using R_DigestInit_status [of "digestContext c" alg] by simp
  define dx where "dx = foldl (\<lambda>d x. snd (R_DigestUpdate d x)) d xs"
  note o = digest_once [OF assms(1) d(1) assms(3)]
  have "fst (snd (R_DigestFinal dx)) = message_digest alg (concat xs)"
    unfolding dx_def using digest.final_pieces [OF o(2) assms(3)] o(1) by simp
  moreover have "digestAlgorithm dx = alg"
    unfolding dx_def using o(3) by (induction xs arbitrary: d) (simp_all add: R_DigestUpdate_def)
  ultimately obtain d2 where f: "R_DigestFinal dx = (None, message_digest alg (concat xs), d2)" "digestAlgorithm d2 = alg"
    by (auto simp: R_DigestFinal_def split: if_splits)
  show ?thesis
    unfolding R_SignBlock_value [OF assms(1,3) alg] sign_updates R_SignFinal_def d(2)
    by (simp add: dx_def [symmetric] f split: Option.bind_split sum.split prod.split)
qed

end
