(* ===== verification/Desc.thy ===== *)
theory Desc
  imports Des_Tables
begin

section \<open>The data encryption standard (desc.c)\<close>

text \<open>
  A block is the pair of its two words, a key schedule the list of its 32 words.  The three
  context structures are records; their updates are a step on a block each, and one loop
  over the blocks of the input.
\<close>

type_synonym des_block = "u32 \<times> u32"

subsection \<open>Blocks and bytes\<close>

definition Pack :: "bytes \<Rightarrow> des_block" where
  "Pack outof =
     (let w = (\<lambda>i. ((push_bit 24 (ucast (outof ! i)) OR push_bit 16 (ucast (outof ! (i + 1)))) OR
                 push_bit 8 (ucast (outof ! (i + 2)))) OR ucast (outof ! (i + 3)) :: u32)
      in (w 0, w 4))"

definition Unpack :: "des_block \<Rightarrow> bytes" where
  "Unpack outof =
     (let b = (\<lambda>w. [ucast (drop_bit 24 w AND 0xff), ucast (drop_bit 16 w AND 0xff),
                  ucast (drop_bit 8 w AND 0xff), ucast (w AND 0xff)])
      in b (fst outof) @ b (snd outof))"

subsection \<open>The key schedule\<close>

definition des_pc1m :: "bytes \<Rightarrow> bool list" where
  "des_pc1m key = map (\<lambda>l. key ! (l div 8) AND BYTE_BIT ! (l mod 8) \<noteq> 0) PC1"

definition des_pcr :: "bool list \<Rightarrow> nat \<Rightarrow> bool list" where
  "des_pcr pc1m i =
     map (\<lambda>j. let l = j + TOTAL_ROTATIONS ! i
              in if j < 28 then (if l < 28 then pc1m ! l else pc1m ! (l - 28))
                 else (if l < 56 then pc1m ! l else pc1m ! (l - 28))) [0..<56]"

definition des_kn :: "bool list \<Rightarrow> u32 \<times> u32" where
  "des_kn pcr =
     (foldl (\<lambda>k j. if pcr ! (PC2 ! j) then k OR BIG_BYTE ! j else k) 0 [0..<24],
      foldl (\<lambda>k j. if pcr ! (PC2 ! (j + 24)) then k OR BIG_BYTE ! j else k) 0 [0..<24])"

definition cook_pair :: "u32 \<times> u32 \<Rightarrow> u32 \<times> u32" where
  "cook_pair = (\<lambda>(raw0, raw1).
     (((push_bit 6 (raw0 AND 0x00fc0000) OR push_bit 10 (raw0 AND 0x00000fc0)) OR
         drop_bit 10 (raw1 AND 0x00fc0000)) OR drop_bit 6 (raw1 AND 0x00000fc0),
      ((push_bit 12 (raw0 AND 0x0003f000) OR push_bit 16 (raw0 AND 0x0000003f)) OR
         drop_bit 4 (raw1 AND 0x0003f000)) OR (raw1 AND 0x0000003f)))"

text \<open>
  The pairs are stored from the first place up when encrypting, from the last place down
  when decrypting; \<open>cooked\<close> is the index the pointer stands for.
\<close>

fun CookKey_loop :: "bool \<Rightarrow> nat \<Rightarrow> u32 list \<Rightarrow> (u32 \<times> u32) list \<Rightarrow> u32 list" where
  "CookKey_loop encrypt cooked subkeys [] = subkeys"
| "CookKey_loop encrypt cooked subkeys (raw # kn) =
     (let (c0, c1) = cook_pair raw;
          subkeys = subkeys[cooked := c0, cooked + 1 := c1];
          cooked = (if encrypt then cooked + 1 + 1 else cooked + 1 - 3)
      in CookKey_loop encrypt cooked subkeys kn)"

definition CookKey :: "(u32 \<times> u32) list \<Rightarrow> bool \<Rightarrow> u32 list" where
  "CookKey kn encrypt = CookKey_loop encrypt (if encrypt then 0 else 30) (replicate 32 0) kn"

definition DESKey :: "bytes \<Rightarrow> bool \<Rightarrow> u32 list" where
  "DESKey key encrypt =
     (let pc1m = des_pc1m key
      in CookKey (map (\<lambda>i. des_kn (des_pcr pc1m i)) [0..<16]) encrypt)"

subsection \<open>The function on a block\<close>

text \<open>
  \<open>work = ((x >> n) ^ y) & m; y ^= work; x ^= work << n\<close>, the exchange of the bits of \<open>y\<close>
  under the mask with those of \<open>x\<close> above them.
\<close>

definition bit_exchange :: "nat \<Rightarrow> u32 \<Rightarrow> des_block \<Rightarrow> des_block" where
  "bit_exchange n m = (\<lambda>(x, y).
     let work = (drop_bit n x XOR y) AND m in (x XOR push_bit n work, y XOR work))"

definition rotate_left1 :: "u32 \<Rightarrow> u32" where
  "rotate_left1 x = (push_bit 1 x OR (drop_bit 31 x AND 1)) AND 0xffffffff"

definition rotate_right1 :: "u32 \<Rightarrow> u32" where
  "rotate_right1 x = push_bit 31 x OR drop_bit 1 x"

definition des_initial :: "des_block \<Rightarrow> des_block" where
  "des_initial = (\<lambda>(left, right).
     let (left, right) = bit_exchange 4 0x0f0f0f0f (left, right);
         (left, right) = bit_exchange 16 0x0000ffff (left, right);
         (right, left) = bit_exchange 2 0x33333333 (right, left);
         (right, left) = bit_exchange 8 0x00ff00ff (right, left);
         right = rotate_left1 right;
         (left, right) = bit_exchange 0 0xaaaaaaaa (left, right);
         left = rotate_left1 left
     in (left, right))"

definition des_f :: "u32 \<Rightarrow> u32 \<Rightarrow> u32 \<Rightarrow> u32" where
  "des_f right k0 k1 =
     (let work = push_bit 28 right OR drop_bit 4 right;
          work = work XOR k0;
          fval = SP7 ! unat (work AND 0x3f);
          fval = fval OR SP5 ! unat (drop_bit 8 work AND 0x3f);
          fval = fval OR SP3 ! unat (drop_bit 16 work AND 0x3f);
          fval = fval OR SP1 ! unat (drop_bit 24 work AND 0x3f);
          work = right XOR k1;
          fval = fval OR SP8 ! unat (work AND 0x3f);
          fval = fval OR SP6 ! unat (drop_bit 8 work AND 0x3f);
          fval = fval OR SP4 ! unat (drop_bit 16 work AND 0x3f);
          fval = fval OR SP2 ! unat (drop_bit 24 work AND 0x3f)
      in fval)"

fun des_rounds :: "u32 list \<Rightarrow> des_block \<Rightarrow> des_block" where
  "des_rounds (k0 # k1 # k2 # k3 # subkeys) (left, right) =
     (let left = left XOR des_f right k0 k1;
          right = right XOR des_f left k2 k3
      in des_rounds subkeys (left, right))"
| "des_rounds _ lr = lr"

definition des_final :: "des_block \<Rightarrow> des_block" where
  "des_final = (\<lambda>(left, right).
     let right = rotate_right1 right;
         (left, right) = bit_exchange 0 0xaaaaaaaa (left, right);
         left = rotate_right1 left;
         (left, right) = bit_exchange 8 0x00ff00ff (left, right);
         (left, right) = bit_exchange 2 0x33333333 (left, right);
         (right, left) = bit_exchange 16 0x0000ffff (right, left);
         (right, left) = bit_exchange 4 0x0f0f0f0f (right, left)
     in (right, left))"

definition DESFunction :: "des_block \<Rightarrow> u32 list \<Rightarrow> des_block" where
  "DESFunction block subkeys = des_final (des_rounds (take 32 subkeys) (des_initial block))"

subsection \<open>Cipher block chaining\<close>

definition xor_block :: "des_block \<Rightarrow> des_block \<Rightarrow> des_block" where
  "xor_block a b = (fst a XOR fst b, snd a XOR snd b)"

text \<open>The loop over the blocks of eight bytes, for the step of a context.\<close>

fun cbc_loop :: "('c \<Rightarrow> des_block \<Rightarrow> 'c \<times> des_block) \<Rightarrow> nat \<Rightarrow> 'c \<Rightarrow> bytes \<Rightarrow> 'c \<times> bytes" where
  "cbc_loop step 0 context input = (context, [])"
| "cbc_loop step (Suc n) context input =
     (let (context, work) = step context (Pack (take 8 input));
          (context, output) = cbc_loop step n context (drop 8 input)
      in (context, Unpack work @ output))"

definition cbc_update :: "('c \<Rightarrow> des_block \<Rightarrow> 'c \<times> des_block) \<Rightarrow> 'c \<Rightarrow> bytes \<Rightarrow> re_code + 'c \<times> bytes" where
  "cbc_update step context input =
     (if length input mod 8 \<noteq> 0 then Inl RE_LEN else Inr (cbc_loop step (length input div 8) context input))"

record DES_CBC_CTX =
  des_subkeys :: "u32 list"
  des_iv :: des_block
  des_originalIV :: des_block
  des_encrypt :: bool

definition DES_CBCInit :: "bytes \<Rightarrow> bytes \<Rightarrow> bool \<Rightarrow> DES_CBC_CTX" where
  "DES_CBCInit key iv encrypt =
     \<lparr>des_subkeys = DESKey key encrypt, des_iv = Pack iv, des_originalIV = Pack iv, des_encrypt = encrypt\<rparr>"

definition des_cbc_step :: "DES_CBC_CTX \<Rightarrow> des_block \<Rightarrow> DES_CBC_CTX \<times> des_block" where
  "des_cbc_step context inputBlock =
     (let work = (if des_encrypt context then xor_block inputBlock (des_iv context) else inputBlock);
          work = DESFunction work (des_subkeys context)
      in if des_encrypt context then (context\<lparr>des_iv := work\<rparr>, work)
         else (context\<lparr>des_iv := inputBlock\<rparr>, xor_block work (des_iv context)))"

definition DES_CBCUpdate :: "DES_CBC_CTX \<Rightarrow> bytes \<Rightarrow> re_code + DES_CBC_CTX \<times> bytes" where
  "DES_CBCUpdate = cbc_update des_cbc_step"

definition DES_CBCRestart :: "DES_CBC_CTX \<Rightarrow> DES_CBC_CTX" where
  "DES_CBCRestart context = context\<lparr>des_iv := des_originalIV context\<rparr>"

record DESX_CBC_CTX =
  desx_subkeys :: "u32 list"
  desx_iv :: des_block
  desx_inputWhitener :: des_block
  desx_outputWhitener :: des_block
  desx_originalIV :: des_block
  desx_encrypt :: bool

definition DESX_CBCInit :: "bytes \<Rightarrow> bytes \<Rightarrow> bool \<Rightarrow> DESX_CBC_CTX" where
  "DESX_CBCInit key iv encrypt =
     \<lparr>desx_subkeys = DESKey key encrypt, desx_iv = Pack iv, desx_inputWhitener = Pack (drop 8 key),
      desx_outputWhitener = Pack (drop 16 key), desx_originalIV = Pack iv, desx_encrypt = encrypt\<rparr>"

definition desx_cbc_step :: "DESX_CBC_CTX \<Rightarrow> des_block \<Rightarrow> DESX_CBC_CTX \<times> des_block" where
  "desx_cbc_step context inputBlock =
     (let work = (if desx_encrypt context
                  then xor_block (xor_block inputBlock (desx_iv context)) (desx_inputWhitener context)
                  else xor_block inputBlock (desx_outputWhitener context));
          work = DESFunction work (desx_subkeys context)
      in if desx_encrypt context
         then let work = xor_block work (desx_outputWhitener context) in (context\<lparr>desx_iv := work\<rparr>, work)
         else (context\<lparr>desx_iv := inputBlock\<rparr>,
               xor_block work (xor_block (desx_iv context) (desx_inputWhitener context))))"

definition DESX_CBCUpdate :: "DESX_CBC_CTX \<Rightarrow> bytes \<Rightarrow> re_code + DESX_CBC_CTX \<times> bytes" where
  "DESX_CBCUpdate = cbc_update desx_cbc_step"

definition DESX_CBCRestart :: "DESX_CBC_CTX \<Rightarrow> DESX_CBC_CTX" where
  "DESX_CBCRestart context = context\<lparr>desx_iv := desx_originalIV context\<rparr>"

record DES3_CBC_CTX =
  des3_subkeys :: "u32 list list"
  des3_iv :: des_block
  des3_originalIV :: des_block
  des3_encrypt :: bool

definition DES3_CBCInit :: "bytes \<Rightarrow> bytes \<Rightarrow> bool \<Rightarrow> DES3_CBC_CTX" where
  "DES3_CBCInit key iv encrypt =
     \<lparr>des3_subkeys =
        [DESKey (if encrypt then key else drop 16 key) encrypt,
         DESKey (drop 8 key) (\<not> encrypt),
         DESKey (if encrypt then drop 16 key else key) encrypt],
      des3_iv = Pack iv, des3_originalIV = Pack iv, des3_encrypt = encrypt\<rparr>"

definition des3_cbc_step :: "DES3_CBC_CTX \<Rightarrow> des_block \<Rightarrow> DES3_CBC_CTX \<times> des_block" where
  "des3_cbc_step context inputBlock =
     (let work = (if des3_encrypt context then xor_block inputBlock (des3_iv context) else inputBlock);
          work = DESFunction work (des3_subkeys context ! 0);
          work = DESFunction work (des3_subkeys context ! 1);
          work = DESFunction work (des3_subkeys context ! 2)
      in if des3_encrypt context then (context\<lparr>des3_iv := work\<rparr>, work)
         else (context\<lparr>des3_iv := inputBlock\<rparr>, xor_block work (des3_iv context)))"

definition DES3_CBCUpdate :: "DES3_CBC_CTX \<Rightarrow> bytes \<Rightarrow> re_code + DES3_CBC_CTX \<times> bytes" where
  "DES3_CBCUpdate = cbc_update des3_cbc_step"

definition DES3_CBCRestart :: "DES3_CBC_CTX \<Rightarrow> DES3_CBC_CTX" where
  "DES3_CBCRestart context = context\<lparr>des3_iv := des3_originalIV context\<rparr>"

subsection \<open>The permutations\<close>

lemma bit_exchange_involution:
  assumes "drop_bit n (push_bit n m) = m"
  shows "bit_exchange n m (bit_exchange n m (x, y)) = (x, y)"
proof -
  define w where "w = (drop_bit n x XOR y) AND m"
  have "drop_bit n (push_bit n w) = (drop_bit n x XOR y) AND drop_bit n (push_bit n m)"
    unfolding w_def by (rule bit_word_eqI) (auto simp: bit_simps)
  then have w: "drop_bit n (push_bit n w) = w" by (simp add: assms w_def)
  have "(drop_bit n x XOR w) XOR (y XOR w) = (drop_bit n x XOR y) XOR (w XOR w)"
    by (simp only: xor.assoc xor.commute xor.left_commute)
  then have again: "(drop_bit n (x XOR push_bit n w) XOR (y XOR w)) AND m = w"
    by (simp only: drop_bit_xor w w_def [symmetric] xor_self_eq xor.right_neutral)
  have "bit_exchange n m (x, y) = (x XOR push_bit n w, y XOR w)"
    by (simp add: bit_exchange_def Let_def w_def)
  moreover have "bit_exchange n m (x XOR push_bit n w, y XOR w) = (x, y)"
    by (simp only: bit_exchange_def Let_def prod.case again xor.assoc xor_self_eq xor.right_neutral)
  ultimately show ?thesis by simp
qed

lemma bit_exchange_cases:
  "bit_exchange 4 0x0f0f0f0f (bit_exchange 4 0x0f0f0f0f p) = p"
  "bit_exchange 16 0x0000ffff (bit_exchange 16 0x0000ffff p) = p"
  "bit_exchange 2 0x33333333 (bit_exchange 2 0x33333333 p) = p"
  "bit_exchange 8 0x00ff00ff (bit_exchange 8 0x00ff00ff p) = p"
  "bit_exchange 0 0xaaaaaaaa (bit_exchange 0 0xaaaaaaaa p) = p"
  by (cases p; simp add: bit_exchange_involution)+

lemma rotate_inverse: "rotate_left1 (rotate_right1 x) = x"
proof (rule bit_word_eqI)
  fix n assume "n < LENGTH(32)"
  then have n: "n < 32" by simp
  have m: "(0xffffffff :: u32) = mask 32" by (simp add: mask_eq_exp_minus_1)
  show "bit (rotate_left1 (rotate_right1 x)) n = bit x n"
    unfolding rotate_left1_def rotate_right1_def m bit_and_iff bit_or_iff bit_push_bit_iff bit_drop_bit_eq bit_mask_iff comp_def
    using n by (cases "n = 0") (auto simp: bit_1_iff dest: bit_imp_le_length)
qed

lemma exchange_swap: "bit_exchange 0 m (y, x) = prod.swap (bit_exchange 0 m (x, y))"
  by (simp add: bit_exchange_def Let_def xor.commute)

lemma des_initial_alt:
  "des_initial p =
     (let p = bit_exchange 4 0x0f0f0f0f p; p = bit_exchange 16 0x0000ffff p;
          p = bit_exchange 2 0x33333333 (prod.swap p); p = bit_exchange 8 0x00ff00ff p;
          p = bit_exchange 0 0xaaaaaaaa (snd p, rotate_left1 (fst p))
      in (rotate_left1 (fst p), snd p))"
  by (simp add: des_initial_def Let_def case_prod_beta prod.swap_def)

lemma des_final_alt:
  "des_final p =
     (let p = bit_exchange 0 0xaaaaaaaa (fst p, rotate_right1 (snd p));
          p = bit_exchange 8 0x00ff00ff (rotate_right1 (fst p), snd p);
          p = bit_exchange 2 0x33333333 p; p = bit_exchange 16 0x0000ffff (prod.swap p)
      in bit_exchange 4 0x0f0f0f0f p)"
  by (simp add: des_final_def Let_def case_prod_beta prod.swap_def)

lemma rotate_inverse': "rotate_right1 (rotate_left1 x) = x"
proof (rule bit_word_eqI)
  fix n assume "n < LENGTH(32)"
  then have n: "n < 32" by simp
  have m: "(0xffffffff :: u32) = mask 32" by (simp add: mask_eq_exp_minus_1)
  show "bit (rotate_right1 (rotate_left1 x)) n = bit x n"
    unfolding rotate_left1_def rotate_right1_def m bit_and_iff bit_or_iff bit_push_bit_iff bit_drop_bit_eq bit_mask_iff comp_def
    using n by (cases "n = 31") (auto simp: bit_1_iff dest: bit_imp_le_length)
qed

lemma exchange_swapped: "bit_exchange 0 m (snd p, fst p) = prod.swap (bit_exchange 0 m p)"
  using exchange_swap [of m "snd p" "fst p"] by simp

lemma des_final_initial: "des_final (prod.swap (des_initial block)) = block"
proof -
  define q where "q = bit_exchange 8 0x00ff00ff (bit_exchange 2 0x33333333 (prod.swap
    (bit_exchange 16 0x0000ffff (bit_exchange 4 0x0f0f0f0f block))))"
  define p where "p = bit_exchange 0 0xaaaaaaaa (snd q, rotate_left1 (fst q))"
  have i: "des_initial block = (rotate_left1 (fst p), snd p)"
    by (simp add: des_initial_alt Let_def flip: q_def p_def)
  have "bit_exchange 0 0xaaaaaaaa (snd p, fst p) = prod.swap (bit_exchange 0 0xaaaaaaaa p)"
    by (rule exchange_swapped)
  also have "\<dots> = (rotate_left1 (fst q), snd q)" by (simp add: p_def bit_exchange_cases)
  finally have p: "bit_exchange 0 0xaaaaaaaa (snd p, fst p) = (rotate_left1 (fst q), snd q)" .
  show ?thesis
    by (simp add: i des_final_alt Let_def rotate_inverse' p) (simp add: q_def bit_exchange_cases)
qed

lemma des_initial_final: "des_initial (des_final (l, r)) = (r, l)"
proof -
  define q where "q = bit_exchange 0 0xaaaaaaaa (l, rotate_right1 r)"
  have "bit_exchange 0 0xaaaaaaaa (snd q, fst q) = prod.swap (bit_exchange 0 0xaaaaaaaa q)"
    using exchange_swap [of _ "snd q" "fst q"] by simp
  also have "\<dots> = (rotate_right1 r, l)" by (simp add: q_def bit_exchange_cases)
  finally have "bit_exchange 0 0xaaaaaaaa (snd q, fst q) = (rotate_right1 r, l)" .
  then show ?thesis
    by (simp add: des_initial_alt des_final_alt Let_def bit_exchange_cases rotate_inverse flip: q_def)
qed

subsection \<open>The function is inverted by the reversed key schedule\<close>

fun reverse_pairs :: "'a list \<Rightarrow> 'a list" where
  "reverse_pairs (k0 # k1 # ks) = reverse_pairs ks @ [k0, k1]"
| "reverse_pairs _ = []"

lemma reverse_pairs_append: "even (length xs) \<Longrightarrow> reverse_pairs (xs @ ys) = reverse_pairs ys @ reverse_pairs xs"
  by (induction xs rule: reverse_pairs.induct) auto

lemma length_reverse_pairs: "even (length xs) \<Longrightarrow> length (reverse_pairs xs) = length xs"
  by (induction xs rule: reverse_pairs.induct) auto

lemma reverse_reverse_pairs: "even (length xs) \<Longrightarrow> reverse_pairs (reverse_pairs xs) = xs"
  by (induction xs rule: reverse_pairs.induct) (auto simp: reverse_pairs_append length_reverse_pairs)

lemma des_rounds_append: "length ks mod 4 = 0 \<Longrightarrow> des_rounds (ks @ ls) p = des_rounds ls (des_rounds ks p)"
proof (induction ks p rule: des_rounds.induct)
  case (1 k0 k1 k2 k3 subkeys left right)
  then show ?case by (simp add: Let_def)
qed auto

lemma des_rounds_reverse:
  "length ks mod 4 = 0 \<Longrightarrow> des_rounds (reverse_pairs ks) (prod.swap (des_rounds ks p)) = prod.swap p"
proof (induction ks p rule: des_rounds.induct)
  case (1 k0 k1 k2 k3 ks left right)
  define l r where "l = left XOR des_f right k0 k1" and "r = right XOR des_f l k2 k3"
  have m: "length ks mod 4 = 0" using 1(2) by simp
  then have "length (reverse_pairs ks) mod 4 = 0" by (subst length_reverse_pairs) presburger+
  moreover have "des_rounds (reverse_pairs ks) (prod.swap (des_rounds ks (l, r))) = (r, l)"
    using 1(1) [OF l_def r_def m] by simp
  moreover have "r XOR des_f l k2 k3 = right" "l XOR des_f right k0 k1 = left" by (simp_all add: r_def l_def xor.assoc)
  ultimately show ?case
    by (simp add: des_rounds_append flip: l_def r_def)
qed auto

lemma DESFunction_reverse:
  assumes "length ks = 32"
  shows "DESFunction (DESFunction block ks) (reverse_pairs ks) = block"
proof -
  have "DESFunction (DESFunction block ks) (reverse_pairs ks) = des_final (des_rounds (reverse_pairs ks) (prod.swap (des_rounds ks (des_initial block))))"
    using assms by (simp add: DESFunction_def length_reverse_pairs) (metis des_initial_final swap_simp surj_pair)
  also have "\<dots> = des_final (prod.swap (des_initial block))" using assms by (simp add: des_rounds_reverse)
  finally show ?thesis by (simp add: des_final_initial)
qed

text \<open>The decrypting schedule holds the pairs of the encrypting one in the reverse order.\<close>

abbreviation cooked :: "u32 \<times> u32 \<Rightarrow> u32 list" where
  "cooked raw \<equiv> [fst (cook_pair raw), snd (cook_pair raw)]"

lemma CookKey_loop_encrypt:
  "length subkeys = c + 2 * length kn \<Longrightarrow>
   CookKey_loop True c subkeys kn = take c subkeys @ concat (map cooked kn)"
proof (induction kn arbitrary: c subkeys)
  case (Cons raw kn)
  have "take (c + 1 + 1) (subkeys[c := x, c + 1 := y]) = take c subkeys @ [x, y]" for x y
    using Cons(2) by (simp add: take_Suc_conv_app_nth)
  with Cons show ?case by (simp add: Let_def case_prod_beta)
qed simp

lemma CookKey_loop_decrypt:
  "length subkeys \<ge> 2 * length kn \<Longrightarrow>
   CookKey_loop False (2 * length kn - 2) subkeys kn = concat (map cooked (rev kn)) @ drop (2 * length kn) subkeys"
proof (induction kn arbitrary: subkeys)
  case (Cons raw kn)
  obtain z0 z1 zs where z: "drop (2 * length kn) subkeys = z0 # z1 # zs"
    using Cons(2) by (cases "drop (2 * length kn) subkeys" rule: reverse_pairs.cases) (auto dest: arg_cong [of _ _ length])
  have "drop (2 * length kn + 2) subkeys = zs"
    using arg_cong [OF z, of "drop 2"] by (simp add: add.commute)
  with z have "drop (2 * length kn) (subkeys[2 * length kn := x, 2 * length kn + 1 := y]) =
      x # y # drop (2 * length kn + 2) subkeys" for x y
    by (simp add: drop_update_swap)
  with Cons show ?case by (simp add: Let_def case_prod_beta)
qed simp

lemma reverse_pairs_concat: "reverse_pairs (concat (map cooked kn)) = concat (map cooked (rev kn))"
  by (induction kn) auto

lemma length_cooked: "length (concat (map cooked kn)) = 2 * length kn"
  by (induction kn) auto

lemma CookKey_schedules:
  assumes "length kn = 16"
  shows "CookKey kn False = reverse_pairs (CookKey kn True)" and "length (CookKey kn e) = 32"
proof -
  have e: "CookKey kn True = concat (map cooked kn)"
    using assms by (simp add: CookKey_def CookKey_loop_encrypt)
  have d: "CookKey kn False = concat (map cooked (rev kn))"
    using assms CookKey_loop_decrypt [of kn "replicate 32 0"] by (simp add: CookKey_def)
  show "CookKey kn False = reverse_pairs (CookKey kn True)" by (simp add: e d reverse_pairs_concat)
  show "length (CookKey kn e) = 32"
    using assms by (cases e) (simp_all add: e d length_cooked del: length_concat)
qed

lemma DESKey_schedules:
  "DESKey key False = reverse_pairs (DESKey key True)" "length (DESKey key e) = 32"
  by (simp_all add: DESKey_def CookKey_schedules)

lemma DESFunction_inverse:
  "DESFunction (DESFunction block (DESKey key e)) (DESKey key (\<not> e)) = block"
proof (cases e)
  case True
  then show ?thesis by (simp add: DESKey_schedules DESFunction_reverse)
next
  case False
  have "DESKey key True = reverse_pairs (DESKey key False)"
    by (simp add: DESKey_schedules(1) reverse_reverse_pairs DESKey_schedules(2))
  with False show ?thesis by (simp add: DESFunction_reverse DESKey_schedules(2) del: DESKey_schedules(1))
qed

subsection \<open>Decryption undoes encryption\<close>

lemma bit_byte_of_word:
  fixes w :: u32
  shows "bit (ucast (ucast (drop_bit k w AND 0xff) :: 8 word) :: u32) n \<longleftrightarrow> n < 8 \<and> bit w (k + n)"
proof -
  have m: "(0xff :: u32) = mask 8" by (simp add: mask_eq_exp_minus_1)
  show ?thesis by (auto simp: m bit_simps dest: bit_imp_le_length)
qed

lemma word_bytes_inverse:
  fixes w :: u32
  shows "((push_bit 24 (ucast (ucast (drop_bit 24 w AND 0xff) :: 8 word)) OR
     push_bit 16 (ucast (ucast (drop_bit 16 w AND 0xff) :: 8 word))) OR
     push_bit 8 (ucast (ucast (drop_bit 8 w AND 0xff) :: 8 word))) OR ucast (ucast (w AND 0xff) :: 8 word) = w"
proof (rule bit_word_eqI)
  fix n assume "n < LENGTH(32)"
  then have n: "n < 32" by simp
  have b: "bit (ucast (ucast (w AND 0xff) :: 8 word) :: u32) i \<longleftrightarrow> i < 8 \<and> bit w i" for i
    using bit_byte_of_word [of 0 w i] by simp
  have n': "n < 8 \<or> 8 \<le> n \<and> n < 16 \<or> 16 \<le> n \<and> n < 24 \<or> 24 \<le> n" by arith
  show "bit (((push_bit 24 (ucast (ucast (drop_bit 24 w AND 0xff) :: 8 word)) OR
     push_bit 16 (ucast (ucast (drop_bit 16 w AND 0xff) :: 8 word))) OR
     push_bit 8 (ucast (ucast (drop_bit 8 w AND 0xff) :: 8 word))) OR ucast (ucast (w AND 0xff) :: 8 word) :: u32) n = bit w n"
    unfolding bit_or_iff bit_push_bit_iff bit_byte_of_word b using n n' by (elim disjE) (simp_all, linarith+)
qed

lemma Pack_Unpack: "Pack (Unpack w @ bs) = w"
  by (cases w) (simp add: Pack_def Unpack_def word_bytes_inverse)

lemma bytes_word_inverse:
  fixes a b c d :: "8 word"
  defines "w \<equiv> ((push_bit 24 (ucast a) OR push_bit 16 (ucast b)) OR push_bit 8 (ucast c)) OR ucast d :: u32"
  shows "ucast (drop_bit 24 w AND 0xff) = a" "ucast (drop_bit 16 w AND 0xff) = b"
    "ucast (drop_bit 8 w AND 0xff) = c" "ucast (w AND 0xff) = d"
proof -
  have m: "(0xff :: u32) = mask 8" by (simp add: mask_eq_exp_minus_1)
  have z: "\<not> bit (x :: 8 word) n" if "8 \<le> n" for x n using that by (auto dest: bit_imp_le_length)
  have w: "bit w n = (if n < 8 then bit d n else if n < 16 then bit c (n - 8)
      else if n < 24 then bit b (n - 16) else n < 32 \<and> bit a (n - 24))" for n
    by (auto simp: w_def bit_simps z)
  show "ucast (drop_bit 24 w AND 0xff) = a" unfolding m by (rule bit_word_eqI) (simp add: bit_simps w)
  show "ucast (drop_bit 16 w AND 0xff) = b" unfolding m by (rule bit_word_eqI) (simp add: bit_simps w)
  show "ucast (drop_bit 8 w AND 0xff) = c" unfolding m by (rule bit_word_eqI) (simp add: bit_simps w)
  show "ucast (w AND 0xff) = d" unfolding m by (rule bit_word_eqI) (simp add: bit_simps w)
qed

lemma Unpack_Pack: 
  assumes "length bs = 8" 
  shows "Unpack (Pack bs) = bs"
proof -
  obtain b0 b1 b2 b3 b4 b5 b6 b7 where "bs = [b0, b1, b2, b3, b4, b5, b6, b7]"
    using assms by (auto simp: length_Suc_conv numeral_eq_Suc)
  then show ?thesis by (simp add: Pack_def Unpack_def bytes_word_inverse del: push_bit_or drop_bit_or)
qed

lemma length_Unpack [simp]: "length (Unpack w) = 8"
  by (simp add: Unpack_def)

text \<open>
  What the three modes share: the step of an encrypting context is undone by the step of a
  decrypting context in step with it, and both stay in step.
\<close>

locale chained_cipher =
  fixes step :: "'c \<Rightarrow> des_block \<Rightarrow> 'c \<times> des_block" and sync :: "'c \<Rightarrow> 'c \<Rightarrow> bool"
  assumes step_inverse: "sync e d \<Longrightarrow>
    snd (step d (snd (step e b))) = b \<and> sync (fst (step e b)) (fst (step d (snd (step e b))))"
begin

lemma loop_inverse:
  assumes "sync e d" and "length input = 8 * n"
  shows "\<exists>e' d' outs. cbc_loop step n e input = (e', outs) \<and> length outs = 8 * n \<and>
    cbc_loop step n d outs = (d', input) \<and> sync e' d'"
  using assms
proof (induction n arbitrary: e d input)
  case (Suc n)
  let ?w = "snd (step e (Pack (take 8 input)))"
  let ?e = "fst (step e (Pack (take 8 input)))" and ?d = "fst (step d ?w)"
  have s: "snd (step d ?w) = Pack (take 8 input)" "sync ?e ?d" using step_inverse [OF Suc(2)] by auto
  obtain e' d' outs where "cbc_loop step n ?e (drop 8 input) = (e', outs)" "length outs = 8 * n"
    "cbc_loop step n ?d outs = (d', drop 8 input)" "sync e' d'"
    using Suc(1) [OF s(2), of "drop 8 input"] Suc(3) by auto
  moreover have "Pack (take 8 (Unpack ?w @ outs)) = ?w" using Pack_Unpack [of ?w "[]"] by simp
  ultimately show ?case
    using Suc(3) s(1) by (simp add: case_prod_beta Unpack_Pack)
qed simp

lemma update_inverse:
  assumes "sync e d"
  shows "case cbc_update step e input of
      Inl code \<Rightarrow> code = RE_LEN \<and> length input mod 8 \<noteq> 0
    | Inr (e', outs) \<Rightarrow> length outs = length input \<and>
        (\<exists>d'. cbc_update step d outs = Inr (d', input) \<and> sync e' d')"
proof (cases "length input mod 8 = 0")
  case True
  then have "length input = 8 * (length input div 8)" by presburger
  from loop_inverse [OF assms this] this show ?thesis by (auto simp: cbc_update_def True)
qed (simp add: cbc_update_def)

end

definition des_sync :: "DES_CBC_CTX \<Rightarrow> DES_CBC_CTX \<Rightarrow> bool" where
  "des_sync e d \<longleftrightarrow> (\<exists>key. des_subkeys e = DESKey key True \<and> des_subkeys d = DESKey key False) \<and>
     des_encrypt e \<and> \<not> des_encrypt d \<and> des_iv e = des_iv d \<and> des_originalIV e = des_originalIV d"

definition desx_sync :: "DESX_CBC_CTX \<Rightarrow> DESX_CBC_CTX \<Rightarrow> bool" where
  "desx_sync e d \<longleftrightarrow> (\<exists>key. desx_subkeys e = DESKey key True \<and> desx_subkeys d = DESKey key False) \<and>
     desx_encrypt e \<and> \<not> desx_encrypt d \<and> desx_iv e = desx_iv d \<and> desx_originalIV e = desx_originalIV d \<and>
     desx_inputWhitener e = desx_inputWhitener d \<and> desx_outputWhitener e = desx_outputWhitener d"

definition des3_sync :: "DES3_CBC_CTX \<Rightarrow> DES3_CBC_CTX \<Rightarrow> bool" where
  "des3_sync e d \<longleftrightarrow>
     (\<exists>k1 k2 k3. des3_subkeys e = [DESKey k1 True, DESKey k2 False, DESKey k3 True] \<and>
        des3_subkeys d = [DESKey k3 False, DESKey k2 True, DESKey k1 False]) \<and>
     des3_encrypt e \<and> \<not> des3_encrypt d \<and> des3_iv e = des3_iv d \<and> des3_originalIV e = des3_originalIV d"

lemma xor_block_cancel [simp]: "xor_block (xor_block a b) b = a"
  by (simp add: xor_block_def xor.assoc)

lemma xor_block_cancel2: "xor_block a (xor_block b c) = xor_block (xor_block a c) b"
  by (simp add: xor_block_def xor.assoc xor.commute xor.left_commute)

lemmas DESFunction_pair = DESFunction_inverse [of _ _ True, simplified] DESFunction_inverse [of _ _ False, simplified]

interpretation des: chained_cipher des_cbc_step des_sync
  by unfold_locales (auto simp: des_sync_def des_cbc_step_def Let_def DESFunction_pair)

interpretation desx: chained_cipher desx_cbc_step desx_sync
  by unfold_locales (auto simp: desx_sync_def desx_cbc_step_def Let_def DESFunction_pair xor_block_cancel2)

interpretation des3: chained_cipher des3_cbc_step des3_sync
  by unfold_locales (auto simp: des3_sync_def des3_cbc_step_def Let_def DESFunction_pair)

lemma init_sync:
  "des_sync (DES_CBCInit key iv True) (DES_CBCInit key iv False)"
  "desx_sync (DESX_CBCInit key iv True) (DESX_CBCInit key iv False)"
  "des3_sync (DES3_CBCInit key iv True) (DES3_CBCInit key iv False)"
  by (auto simp: des_sync_def desx_sync_def des3_sync_def DES_CBCInit_def DESX_CBCInit_def DES3_CBCInit_def)

text \<open>
  C27: In each of the three modes (DES, DESX, triple DES) an update of an encrypting context
  fails exactly for a length that is no multiple of eight, and otherwise the decrypting
  context of the same key and vector maps its output back to the input.
\<close>

theorem CBC_encrypt_decrypt:
  "(case DES_CBCUpdate (DES_CBCInit key iv True) input of
      Inl code \<Rightarrow> code = RE_LEN \<and> length input mod 8 \<noteq> 0
    | Inr (e, outs) \<Rightarrow> length outs = length input \<and>
        (\<exists>d. DES_CBCUpdate (DES_CBCInit key iv False) outs = Inr (d, input))) \<and>
   (case DESX_CBCUpdate (DESX_CBCInit key iv True) input of
      Inl code \<Rightarrow> code = RE_LEN \<and> length input mod 8 \<noteq> 0
    | Inr (e, outs) \<Rightarrow> length outs = length input \<and>
        (\<exists>d. DESX_CBCUpdate (DESX_CBCInit key iv False) outs = Inr (d, input))) \<and>
   (case DES3_CBCUpdate (DES3_CBCInit key iv True) input of
      Inl code \<Rightarrow> code = RE_LEN \<and> length input mod 8 \<noteq> 0
    | Inr (e, outs) \<Rightarrow> length outs = length input \<and>
        (\<exists>d. DES3_CBCUpdate (DES3_CBCInit key iv False) outs = Inr (d, input)))"
  using des.update_inverse [OF init_sync(1) [of key iv], of input]
    desx.update_inverse [OF init_sync(2) [of key iv], of input]
    des3.update_inverse [OF init_sync(3) [of key iv], of input]
  by (auto simp: DES_CBCUpdate_def DESX_CBCUpdate_def DES3_CBCUpdate_def split: sum.splits)

end
