(* ===== verification/R_Envelope.thy ===== *)
theory R_Envelope
  imports Desc Rsa_Properties
begin

section \<open>Envelopes by parts (r_enhanc.c: Seal and Open)\<close>

text \<open>
  An envelope context holds a cipher context, a buffer of eight bytes and how much of it is
  in use.  The members of the union of the three cipher contexts are kept apart in the
  record: the algorithm says which of them an operation uses, and no other is ever read.  An
  update returns the context and the bytes it has written to \<open>partOut\<close>.
\<close>

definition EA_DES_CBC :: int where "EA_DES_CBC = 1"
definition EA_DES_EDE2_CBC :: int where "EA_DES_EDE2_CBC = 2"
definition EA_DES_EDE3_CBC :: int where "EA_DES_EDE3_CBC = 3"
definition EA_DESX_CBC :: int where "EA_DESX_CBC = 4"

lemmas EA_defs = EA_DES_CBC_def EA_DES_EDE2_CBC_def EA_DES_EDE3_CBC_def EA_DESX_CBC_def

record R_ENVELOPE_CTX =
  encryptionAlgorithm :: int
  cipher_des :: DES_CBC_CTX
  cipher_des3 :: DES3_CBC_CTX
  cipher_desx :: DESX_CBC_CTX
  env_buffer :: bytes
  bufferLen :: nat

definition env_PADDING :: "nat \<Rightarrow> bytes" where
  "env_PADDING n = replicate n (of_nat n)"

definition CipherInit :: "R_ENVELOPE_CTX \<Rightarrow> int \<Rightarrow> bytes \<Rightarrow> bytes \<Rightarrow> bool \<Rightarrow> re_code + R_ENVELOPE_CTX" where
  "CipherInit context alg key iv encrypt =
     (if alg = EA_DES_CBC then Inr (context\<lparr>cipher_des := DES_CBCInit key iv encrypt\<rparr>)
      else if alg = EA_DESX_CBC then Inr (context\<lparr>cipher_desx := DESX_CBCInit key iv encrypt\<rparr>)
      else if alg = EA_DES_EDE2_CBC \<or> alg = EA_DES_EDE3_CBC
      then Inr (context\<lparr>cipher_des3 := DES3_CBCInit key iv encrypt\<rparr>)
      else Inl RE_ENCRYPTION_ALGORITHM)"

text \<open>The status of the update is not looked at: on an error nothing is written.\<close>

definition CipherUpdate :: "R_ENVELOPE_CTX \<Rightarrow> bytes \<Rightarrow> R_ENVELOPE_CTX \<times> bytes" where
  "CipherUpdate context input =
     (if encryptionAlgorithm context = EA_DES_CBC
      then case DES_CBCUpdate (cipher_des context) input of
          Inl status \<Rightarrow> (context, []) | Inr (c, outs) \<Rightarrow> (context\<lparr>cipher_des := c\<rparr>, outs)
      else if encryptionAlgorithm context = EA_DESX_CBC
      then case DESX_CBCUpdate (cipher_desx context) input of
          Inl status \<Rightarrow> (context, []) | Inr (c, outs) \<Rightarrow> (context\<lparr>cipher_desx := c\<rparr>, outs)
      else case DES3_CBCUpdate (cipher_des3 context) input of
          Inl status \<Rightarrow> (context, []) | Inr (c, outs) \<Rightarrow> (context\<lparr>cipher_des3 := c\<rparr>, outs))"

definition CipherRestart :: "R_ENVELOPE_CTX \<Rightarrow> R_ENVELOPE_CTX" where
  "CipherRestart context =
     (if encryptionAlgorithm context = EA_DES_CBC
      then context\<lparr>cipher_des := DES_CBCRestart (cipher_des context)\<rparr>
      else if encryptionAlgorithm context = EA_DESX_CBC
      then context\<lparr>cipher_desx := DESX_CBCRestart (cipher_desx context)\<rparr>
      else context\<lparr>cipher_des3 := DES3_CBCRestart (cipher_des3 context)\<rparr>)"

subsection \<open>Sealing\<close>

definition R_SealUpdate :: "R_ENVELOPE_CTX \<Rightarrow> bytes \<Rightarrow> R_ENVELOPE_CTX \<times> bytes" where
  "R_SealUpdate context partIn =
     (let tempLen = 8 - bufferLen context
      in if length partIn < tempLen
         then (context\<lparr>env_buffer := array_write (env_buffer context) (bufferLen context) partIn,
                 bufferLen := bufferLen context + length partIn\<rparr>, [])
         else let context = context\<lparr>env_buffer :=
                    array_write (env_buffer context) (bufferLen context) (take tempLen partIn)\<rparr>;
                  (context, first) = CipherUpdate context (env_buffer context);
                  partIn = drop tempLen partIn;
                  tempLen = 8 * (length partIn div 8);
                  (context, rest) = CipherUpdate context (take tempLen partIn);
                  partIn = drop tempLen partIn
              in (context\<lparr>env_buffer := array_write (env_buffer context) 0 partIn, bufferLen := length partIn\<rparr>,
                  first @ rest))"

definition R_SealFinal :: "R_ENVELOPE_CTX \<Rightarrow> R_ENVELOPE_CTX \<times> bytes" where
  "R_SealFinal context =
     (let padLen = 8 - bufferLen context;
          context = context\<lparr>env_buffer :=
            array_write (env_buffer context) (bufferLen context) (replicate padLen (of_nat padLen))\<rparr>;
          (context, partOut) = CipherUpdate context (env_buffer context);
          context = CipherRestart context
      in (context\<lparr>bufferLen := 0\<rparr>, partOut))"

subsection \<open>Opening\<close>

definition R_OpenUpdate :: "R_ENVELOPE_CTX \<Rightarrow> bytes \<Rightarrow> R_ENVELOPE_CTX \<times> bytes" where
  "R_OpenUpdate context partIn =
     (let tempLen = 8 - bufferLen context
      in if length partIn \<le> tempLen
         then (context\<lparr>env_buffer := array_write (env_buffer context) (bufferLen context) partIn,
                 bufferLen := bufferLen context + length partIn\<rparr>, [])
         else let context = context\<lparr>env_buffer :=
                    array_write (env_buffer context) (bufferLen context) (take tempLen partIn)\<rparr>;
                  (context, first) = CipherUpdate context (env_buffer context);
                  partIn = drop tempLen partIn;
                  tempLen = 8 * ((length partIn - 1) div 8);
                  (context, rest) = CipherUpdate context (take tempLen partIn);
                  partIn = drop tempLen partIn
              in (context\<lparr>env_buffer := array_write (env_buffer context) 0 partIn, bufferLen := length partIn\<rparr>,
                  first @ rest))"

text \<open>On an error the context is not restarted, but its cipher has made a step.\<close>

definition R_OpenFinal :: "R_ENVELOPE_CTX \<Rightarrow> (re_code + bytes) \<times> R_ENVELOPE_CTX" where
  "R_OpenFinal context =
     (if bufferLen context = 0 then (Inr [], (CipherRestart context)\<lparr>bufferLen := 0\<rparr>)
      else if bufferLen context \<noteq> 8 then (Inl RE_KEY, context)
      else let (context, lastPart) = CipherUpdate context (env_buffer context);
               padLen = unat (lastPart ! 7)
           in if padLen = 0 \<or> padLen > 8 then (Inl RE_KEY, context)
              else if take padLen (drop (8 - padLen) lastPart) \<noteq> env_PADDING padLen then (Inl RE_KEY, context)
              else (Inr (take (8 - padLen) lastPart), (CipherRestart context)\<lparr>bufferLen := 0\<rparr>))"

subsection \<open>Setting up\<close>

text \<open>
  The key and the vector are random; the key is encrypted for every recipient.  The result
  is the encrypted keys and the vector, or the status; the context and the random structure
  are returned in either case.  \<open>byte i\<close> is what the local variable of the \<open>i\<close>-th encryption
  holds at first.
\<close>

fun seal_keys ::
  "(nat \<Rightarrow> u8) \<Rightarrow> bytes \<Rightarrow> R_RSA_PUBLIC_KEY list \<Rightarrow> R_RANDOM_STRUCT \<Rightarrow> u32
   \<Rightarrow> ((re_code + bytes list) \<times> R_RANDOM_STRUCT \<times> u32) option" where
  "seal_keys byte key [] randomStruct DivCount = Some (Inr [], randomStruct, DivCount)"
| "seal_keys byte key (publicKey # publicKeys) randomStruct DivCount = do {
     (status, randomStruct, DivCount) \<leftarrow> RSAPublicEncrypt (byte 0) key publicKey randomStruct DivCount;
     case status of
       Inl code \<Rightarrow> Some (Inl RE_PUBLIC_KEY, randomStruct, DivCount)
     | Inr encryptedKey \<Rightarrow> do {
         (status, randomStruct, DivCount) \<leftarrow> seal_keys (byte \<circ> Suc) key publicKeys randomStruct DivCount;
         Some (map_sum id ((#) encryptedKey) status, randomStruct, DivCount)
       }
   }"

definition R_SealInit ::
  "(nat \<Rightarrow> u8) \<Rightarrow> R_ENVELOPE_CTX \<Rightarrow> R_RSA_PUBLIC_KEY list \<Rightarrow> int \<Rightarrow> R_RANDOM_STRUCT \<Rightarrow> u32
   \<Rightarrow> ((re_code + bytes list \<times> bytes) \<times> R_ENVELOPE_CTX \<times> R_RANDOM_STRUCT \<times> u32) option" where
  "R_SealInit byte context publicKeys alg randomStruct DivCount =
     (let context = context\<lparr>encryptionAlgorithm := alg\<rparr>;
          keyLen = (if alg = EA_DES_CBC then 8 else 24)
      in case R_GenerateBytes keyLen randomStruct of
           Inl status \<Rightarrow> Some (Inl status, context, randomStruct, DivCount)
         | Inr (key, randomStruct) \<Rightarrow>
       (case R_GenerateBytes 8 randomStruct of
           Inl status \<Rightarrow> Some (Inl status, context, randomStruct, DivCount)
         | Inr (iv, randomStruct) \<Rightarrow>
             let key = (if alg = EA_DES_EDE2_CBC then array_write key 16 (take 8 key) else key)
             in case CipherInit context alg key iv True of
                  Inl status \<Rightarrow> Some (Inl status, context, randomStruct, DivCount)
                | Inr context \<Rightarrow> do {
                    (status, randomStruct, DivCount) \<leftarrow> seal_keys byte key publicKeys randomStruct DivCount;
                    case status of
                      Inl code \<Rightarrow> Some (Inl code, context, randomStruct, DivCount)
                    | Inr encryptedKeys \<Rightarrow>
                        Some (Inr (encryptedKeys, iv), context\<lparr>bufferLen := 0\<rparr>, randomStruct, DivCount)
                  }))"

definition R_OpenInit ::
  "R_ENVELOPE_CTX \<Rightarrow> int \<Rightarrow> bytes \<Rightarrow> bytes \<Rightarrow> R_RSA_PRIVATE_KEY \<Rightarrow> u32
   \<Rightarrow> ((re_code + R_ENVELOPE_CTX) \<times> u32) option" where
  "R_OpenInit context alg encryptedKey iv privateKey DivCount =
     (if length encryptedKey > 128 then Some (Inl RE_LEN, DivCount)
      else let context = context\<lparr>encryptionAlgorithm := alg\<rparr>
      in do {
        (status, DivCount) \<leftarrow> RSAPrivateDecrypt encryptedKey privateKey DivCount;
        case status of
          Inl code \<Rightarrow> Some (Inl RE_PRIVATE_KEY, DivCount)
        | Inr key \<Rightarrow>
            if length key \<noteq> (if alg = EA_DES_CBC then 8 else 24) then Some (Inl RE_PRIVATE_KEY, DivCount)
            else case CipherInit context alg key iv False of
                   Inl code \<Rightarrow> Some (Inl code, DivCount)
                 | Inr context \<Rightarrow> Some (Inr (context\<lparr>bufferLen := 0\<rparr>), DivCount)
      })"

subsection \<open>The cipher on whole blocks\<close>

lemma cbc_loop_take: "length x = 8 * n \<Longrightarrow> cbc_loop step n c (x @ y) = cbc_loop step n c x"
proof (induction n arbitrary: c x)
  case (Suc n)
  then have "take 8 (x @ y) = take 8 x" "drop 8 (x @ y) = drop 8 x @ y" by simp_all
  with Suc show ?case by simp
qed simp

lemma cbc_loop_append:
  "length x = 8 * m \<Longrightarrow> cbc_loop step (m + n) c (x @ y) =
     (case cbc_loop step m c x of (c1, o1) \<Rightarrow> (case cbc_loop step n c1 y of (c2, o2) \<Rightarrow> (c2, o1 @ o2)))"
proof (induction m arbitrary: c x)
  case (Suc m)
  then have "take 8 (x @ y) = take 8 x" "drop 8 (x @ y) = drop 8 x @ y" by simp_all
  with Suc show ?case by (simp split: prod.splits)
qed simp

lemma length_cbc_loop: "cbc_loop step n c x = (c', outs) \<Longrightarrow> length outs = 8 * n"
  by (induction n arbitrary: c x c' outs) (auto split: prod.splits)

lemma whole_blocks: "length x mod 8 = 0 \<Longrightarrow> \<exists>m. length x = 8 * m"
  by presburger

lemma cbc_update_append:
  assumes "length x mod 8 = 0" "length y mod 8 = 0"
    "cbc_update step c x = Inr (c1, o1)" "cbc_update step c1 y = Inr (c2, o2)"
  shows "cbc_update step c (x @ y) = Inr (c2, o1 @ o2)"
proof -
  obtain m n where l: "length x = 8 * m" "length y = 8 * n" using assms(1,2) whole_blocks by meson
  then have "cbc_loop step m c x = (c1, o1)" "cbc_loop step n c1 y = (c2, o2)"
    using assms(3,4) by (simp_all add: cbc_update_def)
  with l cbc_loop_append [of x m step n c y] show ?thesis by (simp add: cbc_update_def)
qed

lemma cbc_update_whole:
  assumes "length x mod 8 = 0"
  obtains c' outs where "cbc_update step c x = Inr (c', outs)" "length outs = length x"
proof -
  obtain m where m: "length x = 8 * m" using assms whole_blocks by blast
  obtain c' outs where l: "cbc_loop step m c x = (c', outs)" by fastforce
  then have "cbc_update step c x = Inr (c', outs)" by (simp add: cbc_update_def m)
  then show ?thesis using length_cbc_loop [OF l] m that by simp
qed

lemma two_updates:
  assumes "length x mod 8 = 0" "length y mod 8 = 0"
  obtains c1 o1 c2 o2 where "cbc_update step c x = Inr (c1, o1)" "cbc_update step c1 y = Inr (c2, o2)"
    "cbc_update step c (x @ y) = Inr (c2, o1 @ o2)" "length o1 = length x"
proof -
  obtain c1 o1 where 1: "cbc_update step c x = Inr (c1, o1)" "length o1 = length x"
    by (rule cbc_update_whole [OF assms(1)])
  obtain c2 o2 where 2: "cbc_update step c1 y = Inr (c2, o2)" by (rule cbc_update_whole [OF assms(2)])
  show ?thesis by (rule that [OF 1(1) 2 cbc_update_append [OF assms 1(1) 2] 1(2)])
qed

lemmas CipherUpdate_defs = CipherUpdate_def DES_CBCUpdate_def DESX_CBCUpdate_def DES3_CBCUpdate_def

lemma CipherUpdate_Nil [simp]: "CipherUpdate c [] = (c, [])"
  by (simp add: CipherUpdate_defs cbc_update_def)

lemma CipherUpdate_append:
  assumes "length x mod 8 = 0" "length y mod 8 = 0"
  shows "CipherUpdate c (x @ y) =
    (case CipherUpdate c x of (c1, o1) \<Rightarrow> (case CipherUpdate c1 y of (c2, o2) \<Rightarrow> (c2, o1 @ o2)))"
proof -
  obtain a1 p1 a2 p2 where 1: "cbc_update des_cbc_step (cipher_des c) x = Inr (a1, p1)"
    "cbc_update des_cbc_step a1 y = Inr (a2, p2)" "cbc_update des_cbc_step (cipher_des c) (x @ y) = Inr (a2, p1 @ p2)"
    by (rule two_updates [OF assms])
  obtain b1 q1 b2 q2 where 2: "cbc_update desx_cbc_step (cipher_desx c) x = Inr (b1, q1)"
    "cbc_update desx_cbc_step b1 y = Inr (b2, q2)" "cbc_update desx_cbc_step (cipher_desx c) (x @ y) = Inr (b2, q1 @ q2)"
    by (rule two_updates [OF assms])
  obtain c1 r1 c2 r2 where 3: "cbc_update des3_cbc_step (cipher_des3 c) x = Inr (c1, r1)"
    "cbc_update des3_cbc_step c1 y = Inr (c2, r2)" "cbc_update des3_cbc_step (cipher_des3 c) (x @ y) = Inr (c2, r1 @ r2)"
    by (rule two_updates [OF assms])
  show ?thesis by (simp add: CipherUpdate_defs 1 2 3)
qed

lemma CipherUpdate_frame:
  "CipherUpdate (c\<lparr>env_buffer := b, bufferLen := n\<rparr>) x =
     (case CipherUpdate c x of (c', outs) \<Rightarrow> (c'\<lparr>env_buffer := b, bufferLen := n\<rparr>, outs))"
  by (simp add: CipherUpdate_def split: sum.splits prod.splits)

lemma CipherUpdate_fields:
  "env_buffer (fst (CipherUpdate c x)) = env_buffer c" "bufferLen (fst (CipherUpdate c x)) = bufferLen c"
  "encryptionAlgorithm (fst (CipherUpdate c x)) = encryptionAlgorithm c"
  by (simp_all add: CipherUpdate_def split: sum.splits prod.splits)

lemma length_CipherUpdate:
  assumes "length x mod 8 = 0"
  shows "length (snd (CipherUpdate c x)) = length x"
proof -
  obtain d1 o1 where 1: "cbc_update des_cbc_step (cipher_des c) x = Inr (d1, o1)" "length o1 = length x"
    using cbc_update_whole [OF assms] by metis
  obtain d2 o2 where 2: "cbc_update desx_cbc_step (cipher_desx c) x = Inr (d2, o2)" "length o2 = length x"
    using cbc_update_whole [OF assms] by metis
  obtain d3 o3 where 3: "cbc_update des3_cbc_step (cipher_des3 c) x = Inr (d3, o3)" "length o3 = length x"
    using cbc_update_whole [OF assms] by metis
  show ?thesis by (simp add: CipherUpdate_defs 1 2 3)
qed

subsection \<open>Parts and blocks\<close>

text \<open>
  What both directions keep: of the parts seen so far, whole blocks have gone through the
  cipher and the rest is in the buffer.
\<close>

definition chunked :: "R_ENVELOPE_CTX \<Rightarrow> bytes \<Rightarrow> R_ENVELOPE_CTX \<Rightarrow> bytes \<Rightarrow> bool" where
  "chunked c0 msg c outs \<longleftrightarrow> length (env_buffer c) = 8 \<and> bufferLen c \<le> 8 \<and>
     (\<exists>whole c1. msg = whole @ take (bufferLen c) (env_buffer c) \<and> length whole mod 8 = 0 \<and>
        CipherUpdate c0 whole = (c1, outs) \<and> c = c1\<lparr>env_buffer := env_buffer c, bufferLen := bufferLen c\<rparr>)"

lemma chunked_init: "length (env_buffer c) = 8 \<Longrightarrow> bufferLen c = 0 \<Longrightarrow> chunked c [] c []"
  by (simp add: chunked_def)

lemma chunked_length: "chunked c0 msg c outs \<Longrightarrow> length msg mod 8 = bufferLen c mod 8"
  by (auto simp: chunked_def)

lemma chunked_short:
  assumes "chunked c0 msg c outs" "bufferLen c + length part \<le> 8"
  shows "chunked c0 (msg @ part) (c\<lparr>env_buffer := array_write (env_buffer c) (bufferLen c) part,
    bufferLen := bufferLen c + length part\<rparr>) outs"
proof -
  obtain whole c1 where w: "msg = whole @ take (bufferLen c) (env_buffer c)" "length whole mod 8 = 0"
    "CipherUpdate c0 whole = (c1, outs)" "c = c1\<lparr>env_buffer := env_buffer c, bufferLen := bufferLen c\<rparr>"
    using assms(1) by (auto simp: chunked_def)
  have "c\<lparr>env_buffer := b, bufferLen := n\<rparr> = c1\<lparr>env_buffer := b, bufferLen := n\<rparr>" for b n
    by (subst w(4)) simp
  then show ?thesis
    using assms w(1-3) by (auto simp: chunked_def take_array_write)
qed

lemma chunked_full:
  assumes "chunked c0 msg c outs" "t = 8 - bufferLen c" "t \<le> length part"
    "8 * k \<le> length part - t" "length part - t - 8 * k \<le> 8"
    and b: "b = array_write (env_buffer c) (bufferLen c) (take t part)"
    and 1: "CipherUpdate (c\<lparr>env_buffer := b\<rparr>) b = (c1, o1)"
    and 2: "CipherUpdate c1 (take (8 * k) (drop t part)) = (c2, o2)"
  shows "chunked c0 (msg @ part) (c2\<lparr>env_buffer := array_write (env_buffer c2) 0 (drop (8 * k) (drop t part)),
    bufferLen := length (drop (8 * k) (drop t part))\<rparr>) (outs @ o1 @ o2)"
proof -
  obtain whole ci where w: "msg = whole @ take (bufferLen c) (env_buffer c)" "length whole mod 8 = 0"
    "CipherUpdate c0 whole = (ci, outs)" "c = ci\<lparr>env_buffer := env_buffer c, bufferLen := bufferLen c\<rparr>"
    using assms(1) by (auto simp: chunked_def)
  have len: "length (env_buffer c) = 8" "bufferLen c \<le> 8" using assms(1) by (simp_all add: chunked_def)
  have b': "b = take (bufferLen c) (env_buffer c) @ take t part" "length b = 8"
    using len assms(2,3) by (simp_all add: b array_write_def)
  have c: "c\<lparr>env_buffer := b\<rparr> = ci\<lparr>env_buffer := b, bufferLen := bufferLen c\<rparr>"
    by (subst w(4)) simp
  obtain d1 where d1: "CipherUpdate ci b = (d1, o1)" "c1 = d1\<lparr>env_buffer := b, bufferLen := bufferLen c\<rparr>"
    using 1 unfolding c CipherUpdate_frame by (auto split: prod.splits)
  obtain d2 where d2: "CipherUpdate d1 (take (8 * k) (drop t part)) = (d2, o2)"
    "c2 = d2\<lparr>env_buffer := b, bufferLen := bufferLen c\<rparr>"
    using 2 unfolding d1(2) CipherUpdate_frame by (auto split: prod.splits)
  have "CipherUpdate c0 (whole @ b @ take (8 * k) (drop t part)) = (d2, outs @ o1 @ o2)"
    using w(2) b'(2) assms(4) by (simp add: CipherUpdate_append w(3) d1(1) d2(1))
  moreover have "msg @ part = (whole @ b @ take (8 * k) (drop t part)) @ drop (8 * k) (drop t part)"
    by (simp add: w(1) b'(1) del: drop_drop)
  moreover have "length (whole @ b @ take (8 * k) (drop t part)) mod 8 = 0"
    using w(2) b'(2) assms(4) by simp presburger
  ultimately show ?thesis
    using assms(5) b'(2) unfolding chunked_def
    by (intro conjI exI [of _ "whole @ b @ take (8 * k) (drop t part)"] exI [of _ d2])
      (simp_all add: d2(2) array_write_def)
qed

lemma whole_part: "8 * (n div 8) \<le> n \<and> n - 8 * (n div 8) < (8::nat)"
  by presburger

lemma whole_part_below: "0 < n \<Longrightarrow> 8 * ((n - 1) div 8) < n \<and> n - 8 * ((n - 1) div 8) \<le> (8::nat)"
  by presburger

lemma R_SealUpdate_chunked:
  assumes "chunked c0 msg c outs" "bufferLen c < 8" "R_SealUpdate c part = (c', o')"
  shows "chunked c0 (msg @ part) c' (outs @ o') \<and> bufferLen c' < 8"
proof (cases "length part < 8 - bufferLen c")
  case True
  then show ?thesis using chunked_short [OF assms(1), of part] assms(2,3) by (auto simp: R_SealUpdate_def)
next
  case False
  define t k b where "t = 8 - bufferLen c" and "k = length (drop t part) div 8"
    and "b = array_write (env_buffer c) (bufferLen c) (take t part)"
  obtain c1 o1 where 1: "CipherUpdate (c\<lparr>env_buffer := b\<rparr>) b = (c1, o1)" by fastforce
  obtain c2 o2 where 2: "CipherUpdate c1 (take (8 * k) (drop t part)) = (c2, o2)" by fastforce
  have upd: "env_buffer (c\<lparr>env_buffer := b\<rparr>) = b" by simp
  have c': "c' = c2\<lparr>env_buffer := array_write (env_buffer c2) 0 (drop (8 * k) (drop t part)),
      bufferLen := length (drop (8 * k) (drop t part))\<rparr>" "o' = o1 @ o2"
    using assms(3) False unfolding R_SealUpdate_def Let_def t_def [symmetric] b_def [symmetric]
      upd 1 prod.case k_def [symmetric] 2 by simp_all
  have "t \<le> length part" using False by (simp add: t_def)
  moreover have "8 * k \<le> length part - t" "length part - t - 8 * k < 8"
    using whole_part [of "length part - t"] by (simp_all add: k_def)
  moreover note chunked_full [OF assms(1) t_def _ _ _ b_def 1 2]
  ultimately show ?thesis unfolding c' by simp
qed

lemma R_OpenUpdate_chunked:
  assumes "chunked c0 msg c outs" "bufferLen c = 0 \<longleftrightarrow> msg = []" "R_OpenUpdate c part = (c', o')"
  shows "chunked c0 (msg @ part) c' (outs @ o') \<and> (bufferLen c' = 0 \<longleftrightarrow> msg @ part = [])"
proof (cases "length part \<le> 8 - bufferLen c")
  case True
  moreover have "bufferLen c \<le> 8" using assms(1) by (simp add: chunked_def)
  ultimately show ?thesis
    using chunked_short [OF assms(1), of part] assms(2,3) by (auto simp: R_OpenUpdate_def)
next
  case False
  define t k b where "t = 8 - bufferLen c" and "k = (length (drop t part) - 1) div 8"
    and "b = array_write (env_buffer c) (bufferLen c) (take t part)"
  obtain c1 o1 where 1: "CipherUpdate (c\<lparr>env_buffer := b\<rparr>) b = (c1, o1)" by fastforce
  obtain c2 o2 where 2: "CipherUpdate c1 (take (8 * k) (drop t part)) = (c2, o2)" by fastforce
  have upd: "env_buffer (c\<lparr>env_buffer := b\<rparr>) = b" by simp
  have c': "c' = c2\<lparr>env_buffer := array_write (env_buffer c2) 0 (drop (8 * k) (drop t part)),
      bufferLen := length (drop (8 * k) (drop t part))\<rparr>" "o' = o1 @ o2"
    using assms(3) False unfolding R_OpenUpdate_def Let_def t_def [symmetric] b_def [symmetric]
      upd 1 prod.case k_def [symmetric] 2 by simp_all
  have t: "t < length part" using False by (simp add: t_def)
  then have "8 * k < length part - t" "length part - t - 8 * k \<le> 8"
    using whole_part_below [of "length part - t"] by (simp_all add: k_def)
  with t chunked_full [OF assms(1) t_def _ _ _ b_def 1 2] show ?thesis unfolding c' by auto
qed

subsection \<open>Messages in parts\<close>

text \<open>Sealing and opening a message that comes in parts, all the output put together.\<close>

fun seal_parts :: "R_ENVELOPE_CTX \<Rightarrow> bytes list \<Rightarrow> R_ENVELOPE_CTX \<times> bytes" where
  "seal_parts context [] = R_SealFinal context"
| "seal_parts context (partIn # parts) =
     (let (context, partOut) = R_SealUpdate context partIn;
          (context, rest) = seal_parts context parts
      in (context, partOut @ rest))"

definition prepend :: "bytes \<Rightarrow> re_code + bytes \<Rightarrow> re_code + bytes" where
  "prepend outs status = (case status of Inl code \<Rightarrow> Inl code | Inr rest \<Rightarrow> Inr (outs @ rest))"

lemma prepend_simps [simp]:
  "prepend outs (Inl code) = Inl code" "prepend outs (Inr rest) = Inr (outs @ rest)"
  "prepend [] status = status" "prepend outs (prepend o2 status) = prepend (outs @ o2) status"
  "prepend outs status = Inr m \<longleftrightarrow> (\<exists>rest. status = Inr rest \<and> m = outs @ rest)"
  by (auto simp: prepend_def split: sum.splits)

fun open_parts :: "R_ENVELOPE_CTX \<Rightarrow> bytes list \<Rightarrow> (re_code + bytes) \<times> R_ENVELOPE_CTX" where
  "open_parts context [] = R_OpenFinal context"
| "open_parts context (partIn # parts) =
     (let (context, partOut) = R_OpenUpdate context partIn;
          (status, context) = open_parts context parts
      in (prepend partOut status, context))"

text \<open>What a sealed message is: the blocks of the message and its padding, as one update.\<close>

definition seal_pad :: "bytes \<Rightarrow> bytes" where
  "seal_pad msg = msg @ env_PADDING (8 - length msg mod 8)"

definition unpad :: "bytes \<Rightarrow> re_code + bytes" where
  "unpad padded =
     (let padLen = unat (last padded)
      in if padLen = 0 \<or> padLen > 8 \<or> drop (length padded - padLen) padded \<noteq> env_PADDING padLen then Inl RE_KEY
         else Inr (take (length padded - padLen) padded))"

lemma length_seal_pad: "length (seal_pad msg) mod 8 = 0"
  unfolding seal_pad_def env_PADDING_def by simp presburger

lemma unpad_seal_pad: "unpad (seal_pad msg) = Inr msg"
proof -
  define n where "n = 8 - length msg mod 8"
  have n: "0 < n" "n \<le> 8" by (simp_all add: n_def)
  then have "last (seal_pad msg) = of_nat n" by (simp add: seal_pad_def env_PADDING_def flip: n_def)
  moreover have "unat (of_nat n :: u8) = n" using n by (simp add: unat_of_nat)
  ultimately show ?thesis using n by (simp add: unpad_def Let_def) (simp add: seal_pad_def env_PADDING_def flip: n_def)
qed

lemma R_SealFinal_chunked:
  assumes "chunked c0 msg c outs" "bufferLen c < 8" "R_SealFinal c = (c', o')" "CipherUpdate c0 (seal_pad msg) = (c1, o1)"
  shows "o1 = outs @ o' \<and> bufferLen c' = 0 \<and> length (env_buffer c') = 8 \<and>
    (\<exists>b n. c' = (CipherRestart c1)\<lparr>env_buffer := b, bufferLen := n\<rparr>)"
proof -
  obtain whole ci where w: "msg = whole @ take (bufferLen c) (env_buffer c)" "length whole mod 8 = 0"
    "CipherUpdate c0 whole = (ci, outs)" "c = ci\<lparr>env_buffer := env_buffer c, bufferLen := bufferLen c\<rparr>"
    and len: "length (env_buffer c) = 8"
    using assms(1) by (auto simp: chunked_def)
  define b where "b = array_write (env_buffer c) (bufferLen c) (env_PADDING (8 - bufferLen c))"
  have b: "b = take (bufferLen c) (env_buffer c) @ env_PADDING (8 - bufferLen c)" "length b = 8"
    using len assms(2) by (simp_all add: b_def array_write_def env_PADDING_def)
  have "length msg mod 8 = bufferLen c" using chunked_length [OF assms(1)] assms(2) by simp
  then have "seal_pad msg = whole @ b" by (simp add: seal_pad_def b(1) w(1))
  then obtain o2 where o2: "CipherUpdate ci b = (c1, o2)" "o1 = outs @ o2"
    using assms(4) w(2) b(2) by (auto simp: CipherUpdate_append w(3) split: prod.splits)
  have c: "c\<lparr>env_buffer := b\<rparr> = ci\<lparr>env_buffer := b, bufferLen := bufferLen c\<rparr>"
    by (subst w(4)) simp
  have upd: "env_buffer (c\<lparr>env_buffer := b\<rparr>) = b" by simp
  have "c' = (CipherRestart (c1\<lparr>env_buffer := b, bufferLen := bufferLen c\<rparr>))\<lparr>bufferLen := 0\<rparr> \<and> o' = o2"
    using assms(3) unfolding R_SealFinal_def Let_def env_PADDING_def [symmetric] b_def [symmetric] upd
    unfolding c CipherUpdate_frame o2(1) by simp
  moreover have "(CipherRestart (c1\<lparr>env_buffer := b, bufferLen := n\<rparr>))\<lparr>bufferLen := 0\<rparr> =
      (CipherRestart c1)\<lparr>env_buffer := b, bufferLen := 0\<rparr>" for n
    by (simp add: CipherRestart_def)
  ultimately show ?thesis using o2(2) b(2) by auto
qed

lemma seal_parts_chunked:
  assumes "chunked c0 msg c outs" "bufferLen c < 8" "seal_parts c xs = (c', o')"
    "CipherUpdate c0 (seal_pad (msg @ concat xs)) = (c1, o1)"
  shows "o1 = outs @ o' \<and> bufferLen c' = 0 \<and> length (env_buffer c') = 8 \<and>
    (\<exists>b n. c' = (CipherRestart c1)\<lparr>env_buffer := b, bufferLen := n\<rparr>)"
  using assms
proof (induction xs arbitrary: msg c outs o')
  case Nil
  then show ?case using R_SealFinal_chunked by simp
next
  case (Cons x xs)
  obtain c2 o2 o3 where u: "R_SealUpdate c x = (c2, o2)" "seal_parts c2 xs = (c', o3)" "o' = o2 @ o3"
    using Cons(4) by (auto split: prod.splits)
  show ?case
    using Cons(1) [OF _ _ u(2), of "msg @ x" "outs @ o2"] R_SealUpdate_chunked [OF Cons(2,3) u(1)] Cons(5) u(3) by simp
qed

text \<open>The outcome of opening, for any bytes: it depends on the whole of them alone.\<close>

definition open_outcome :: "R_ENVELOPE_CTX \<Rightarrow> bytes \<Rightarrow> re_code + bytes" where
  "open_outcome context input =
     (if input = [] then Inr []
      else if length input mod 8 \<noteq> 0 then Inl RE_KEY
      else unpad (snd (CipherUpdate context input)))"

lemma unpad_append:
  assumes "length y = 8"
  shows "unpad (x @ y) = prepend x (unpad y)"
proof -
  have "last (x @ y) = last y" using assms by (cases y) auto
  moreover have "drop (length (x @ y) - n) (x @ y) = drop (8 - n) y" "take (length (x @ y) - n) (x @ y) = x @ take (8 - n) y"
    if "n \<le> 8" for n using that assms by simp_all
  ultimately show ?thesis using assms by (auto simp: unpad_def Let_def not_less)
qed

lemma R_OpenFinal_chunked:
  assumes "chunked c0 msg c outs" "bufferLen c = 0 \<longleftrightarrow> msg = []" "R_OpenFinal c = (status, c')"
  shows "prepend outs status = open_outcome c0 msg \<and>
    (\<forall>m. status = Inr m \<longrightarrow> bufferLen c' = 0 \<and> length (env_buffer c') = 8 \<and>
      (\<exists>b n. c' = (CipherRestart (fst (CipherUpdate c0 msg)))\<lparr>env_buffer := b, bufferLen := n\<rparr>))"
proof -
  obtain whole ci where w: "msg = whole @ take (bufferLen c) (env_buffer c)" "length whole mod 8 = 0"
    "CipherUpdate c0 whole = (ci, outs)" "c = ci\<lparr>env_buffer := env_buffer c, bufferLen := bufferLen c\<rparr>"
    and len: "length (env_buffer c) = 8" "bufferLen c \<le> 8"
    using assms(1) by (auto simp: chunked_def)
  have restart: "(CipherRestart (x\<lparr>env_buffer := b, bufferLen := n\<rparr>))\<lparr>bufferLen := 0\<rparr> =
      (CipherRestart x)\<lparr>env_buffer := b, bufferLen := 0\<rparr>" for x b n
    by (simp add: CipherRestart_def)
  consider "bufferLen c = 0" | "0 < bufferLen c" "bufferLen c < 8" | "bufferLen c = 8" using len(2) by linarith
  then show ?thesis
  proof cases
    case 1
    then have "msg = []" using assms(2) by blast
    with w(1) have "whole = []" by simp
    then have o: "outs = []" "ci = c0" using w(3) by simp_all
    obtain b n where bn: "c = c0\<lparr>env_buffer := b, bufferLen := n\<rparr>" "length b = 8" using w(4) o(2) len(1) by metis
    have "status = Inr []" "c' = (CipherRestart c)\<lparr>bufferLen := 0\<rparr>"
      using assms(3) 1 by (simp_all add: R_OpenFinal_def)
    then show ?thesis
      using o(1) \<open>msg = []\<close> bn(2) unfolding bn(1) restart by (auto simp: open_outcome_def)
  next
    case 2
    then have "length msg mod 8 \<noteq> 0" using chunked_length [OF assms(1)] by simp
    moreover have "status = Inl RE_KEY" using assms(3) 2 by (simp add: R_OpenFinal_def)
    ultimately show ?thesis by (auto simp: open_outcome_def)
  next
    case 3
    obtain c1 lastPart where l: "CipherUpdate ci (env_buffer c) = (c1, lastPart)" by fastforce
    have ll: "length lastPart = 8" using length_CipherUpdate [of "env_buffer c" ci] l len(1) by simp
    have msg: "msg = whole @ env_buffer c" "msg \<noteq> []" "length msg mod 8 = 0"
      using w(1,2) 3 len(1) by auto
    have u: "CipherUpdate c0 msg = (c1, outs @ lastPart)"
      using w(2,3) len(1) l by (simp add: msg(1) CipherUpdate_append)
    have uc: "CipherUpdate c (env_buffer c) = (c1\<lparr>env_buffer := env_buffer c, bufferLen := bufferLen c\<rparr>, lastPart)"
      by (subst (1) w(4)) (simp add: CipherUpdate_frame l)
    have last: "lastPart ! 7 = last lastPart" "take n (drop (8 - n) lastPart) = drop (8 - n) lastPart" for n
      using ll last_conv_nth [of lastPart] by fastforce+
    define d where "d = c1\<lparr>env_buffer := env_buffer c, bufferLen := bufferLen c\<rparr>"
    define n where "n = unat (last lastPart)"
    have "R_OpenFinal c = (if n = 0 \<or> n > 8 then (Inl RE_KEY, d)
        else if drop (8 - n) lastPart \<noteq> env_PADDING n then (Inl RE_KEY, d)
        else (Inr (take (8 - n) lastPart), (CipherRestart d)\<lparr>bufferLen := 0\<rparr>))"
      unfolding R_OpenFinal_def uc Let_def prod.case last d_def [symmetric] n_def [symmetric] by (simp add: 3)
    moreover have "unpad lastPart = (if n = 0 \<or> n > 8 then Inl RE_KEY
        else if drop (8 - n) lastPart \<noteq> env_PADDING n then Inl RE_KEY else Inr (take (8 - n) lastPart))"
      unfolding unpad_def Let_def n_def [symmetric] ll by simp
    ultimately have s: "status = unpad lastPart" "status = Inr m \<Longrightarrow> c' = (CipherRestart d)\<lparr>bufferLen := 0\<rparr>" for m
      using assms(3) by (auto split: if_splits)
    have "open_outcome c0 msg = prepend outs status"
      using msg(2,3) by (simp add: open_outcome_def u s(1) unpad_append [OF ll])
    with s(2) len(1) show ?thesis by (auto simp: u restart d_def)
  qed
qed

lemma open_parts_chunked:
  assumes "chunked c0 msg c outs" "bufferLen c = 0 \<longleftrightarrow> msg = []" "open_parts c xs = (status, c')"
  shows "prepend outs status = open_outcome c0 (msg @ concat xs) \<and>
    (\<forall>m. status = Inr m \<longrightarrow> bufferLen c' = 0 \<and> length (env_buffer c') = 8 \<and>
      (\<exists>b n. c' = (CipherRestart (fst (CipherUpdate c0 (msg @ concat xs))))\<lparr>env_buffer := b, bufferLen := n\<rparr>))"
  using assms
proof (induction xs arbitrary: msg c outs status)
  case Nil
  then have "R_OpenFinal c = (status, c')" by simp
  from R_OpenFinal_chunked [OF Nil(1,2) this] show ?case unfolding concat.simps append_Nil2 .
next
  case (Cons x xs)
  obtain c2 o2 st where u: "R_OpenUpdate c x = (c2, o2)" "open_parts c2 xs = (st, c')" "status = prepend o2 st"
    using Cons(4) by (auto split: prod.splits)
  have m: "prepend outs status = prepend (outs @ o2) st" "(\<exists>m. status = Inr m) \<longleftrightarrow> (\<exists>m. st = Inr m)"
    by (auto simp: u(3))
  show ?case
    using Cons(1) [OF _ _ u(2), of "msg @ x" "outs @ o2"] R_OpenUpdate_chunked [OF Cons(2,3) u(1)] m by auto
qed

lemma open_parts_outcome:
  assumes "length (env_buffer c) = 8" "bufferLen c = 0"
  shows "fst (open_parts c xs) = open_outcome c (concat xs)"
proof -
  obtain st c' where o: "open_parts c xs = (st, c')" by fastforce
  then show ?thesis
    using open_parts_chunked [OF chunked_init [OF assms] _ o] assms(2) by (simp add: o)
qed

subsection \<open>Contexts in step\<close>

definition envelope_sync :: "R_ENVELOPE_CTX \<Rightarrow> R_ENVELOPE_CTX \<Rightarrow> bool" where
  "envelope_sync e d \<longleftrightarrow> encryptionAlgorithm e = encryptionAlgorithm d \<and>
     (if encryptionAlgorithm e = EA_DES_CBC then des_sync (cipher_des e) (cipher_des d)
      else if encryptionAlgorithm e = EA_DESX_CBC then desx_sync (cipher_desx e) (cipher_desx d)
      else des3_sync (cipher_des3 e) (cipher_des3 d))"

definition envelope_pair :: "R_ENVELOPE_CTX \<Rightarrow> R_ENVELOPE_CTX \<Rightarrow> bool" where
  "envelope_pair e d \<longleftrightarrow> envelope_sync e d \<and> bufferLen e = 0 \<and> bufferLen d = 0 \<and>
     length (env_buffer e) = 8 \<and> length (env_buffer d) = 8"

lemma envelope_sync_frame [simp]:
  "envelope_sync (e\<lparr>env_buffer := b, bufferLen := n\<rparr>) (d\<lparr>env_buffer := b', bufferLen := n'\<rparr>) = envelope_sync e d"
  by (simp add: envelope_sync_def)

lemma envelope_sync_restart: "envelope_sync e d \<Longrightarrow> envelope_sync (CipherRestart e) (CipherRestart d)"
  by (auto simp: envelope_sync_def CipherRestart_def DES_CBCRestart_def DESX_CBCRestart_def DES3_CBCRestart_def
      des_sync_def desx_sync_def des3_sync_def)

lemma envelope_update_inverse:
  assumes "envelope_sync e d" "length x mod 8 = 0"
  shows "\<exists>d'. CipherUpdate d (snd (CipherUpdate e x)) = (d', x) \<and> envelope_sync (fst (CipherUpdate e x)) d'"
proof -
  consider "encryptionAlgorithm e = EA_DES_CBC" | "encryptionAlgorithm e \<noteq> EA_DES_CBC" "encryptionAlgorithm e = EA_DESX_CBC"
    | "encryptionAlgorithm e \<noteq> EA_DES_CBC" "encryptionAlgorithm e \<noteq> EA_DESX_CBC" by blast
  then show ?thesis
  proof cases
    case 1
    then show ?thesis
      using assms(1) des.update_inverse [of "cipher_des e" "cipher_des d" x] assms(2)
      by (auto simp: envelope_sync_def CipherUpdate_defs split: sum.splits)
  next
    case 2
    then show ?thesis
      using assms(1) desx.update_inverse [of "cipher_desx e" "cipher_desx d" x] assms(2)
      by (auto simp: envelope_sync_def CipherUpdate_defs split: sum.splits)
  next
    case 3
    then show ?thesis
      using assms(1) des3.update_inverse [of "cipher_des3 e" "cipher_des3 d" x] assms(2)
      by (auto simp: envelope_sync_def CipherUpdate_defs split: sum.splits)
  qed
qed

lemma seal_open:
  assumes "envelope_pair e d" "seal_parts e xs = (e', outs)" "concat ys = outs"
  shows "\<exists>d'. open_parts d ys = (Inr (concat xs), d') \<and> envelope_pair e' d'"
proof -
  note P = assms(1) [unfolded envelope_pair_def]
  obtain e1 o1 where e1: "CipherUpdate e (seal_pad (concat xs)) = (e1, o1)" by fastforce
  have s: "o1 = outs" "bufferLen e' = 0" "length (env_buffer e') = 8"
    "\<exists>b n. e' = (CipherRestart e1)\<lparr>env_buffer := b, bufferLen := n\<rparr>"
    using seal_parts_chunked [OF chunked_init _ assms(2)] e1 P by auto
  obtain d1 where d1: "CipherUpdate d outs = (d1, seal_pad (concat xs))" "envelope_sync e1 d1"
    using envelope_update_inverse [OF _ length_seal_pad, of e d "concat xs"] P e1 s(1) by auto
  obtain st d' where o: "open_parts d ys = (st, d')" by fastforce
  have "length outs = length (seal_pad (concat xs))"
    using length_CipherUpdate [OF length_seal_pad, of e "concat xs"] e1 s(1) by simp
  then have "outs \<noteq> []" "length outs mod 8 = 0"
    by (auto simp: length_seal_pad) (auto simp: seal_pad_def env_PADDING_def)
  then have st: "st = Inr (concat xs)"
    using open_parts_outcome [of d ys] P o by (simp add: open_outcome_def assms(3) d1(1) unpad_seal_pad)
  have "bufferLen d' = 0 \<and> length (env_buffer d') = 8 \<and>
      (\<exists>b n. d' = (CipherRestart d1)\<lparr>env_buffer := b, bufferLen := n\<rparr>)"
    using open_parts_chunked [OF chunked_init _ o] P st by (simp add: assms(3) d1(1))
  with s(2-4) envelope_sync_restart [OF d1(2)] show ?thesis
    by (auto simp: o st envelope_pair_def)
qed

lemma CipherInit_sync:
  assumes "CipherInit c alg key iv True = Inr e" "CipherInit c' alg key iv False = Inr d"
    "encryptionAlgorithm c = alg" "encryptionAlgorithm c' = alg"
  shows "envelope_sync e d"
  using assms init_sync [of key iv]
  by (auto simp: CipherInit_def envelope_sync_def EA_defs split: if_splits)

end
