(* ===== verification/Envelope_Properties.thy ===== *)
theory Envelope_Properties
  imports R_Envelope
begin

section \<open>Properties of envelopes\<close>

text \<open>
  The random key reaches the recipient, so that sealing and opening contexts are in step; a
  message sealed in any parts is opened from any parts; the outcome of opening depends on
  the bytes alone, not on how they are cut.
\<close>

lemma seal_keys_result:
  "seal_keys byte key pubs r k = Some (Inr keys, r', k') \<Longrightarrow>
    length keys = length pubs \<and>
    (\<forall>i < length pubs. \<exists>b r1 k1 r2 k2. RSAPublicEncrypt b key (pubs ! i) r1 k1 = Some (Inr (keys ! i), r2, k2))"
proof (induction byte key pubs r k arbitrary: keys r' k' rule: seal_keys.induct)
  case (2 byte key pub pubs r k)
  obtain y r1 k1 ys where y: "RSAPublicEncrypt (byte 0) key pub r k = Some (Inr y, r1, k1)"
    "seal_keys (byte \<circ> Suc) key pubs r1 k1 = Some (Inr ys, r', k')" "keys = y # ys"
    using 2(2) by (auto split: Option.bind_splits sum.splits)
      (metis map_sum.simps(1) map_sum.simps(2) obj_sumE sum.inject(2) sum.distinct(1))
  from 2(1) [OF _ _ _ _ y(2)] y(1) have ih: "length ys = length pubs"
    "\<forall>i < length pubs. \<exists>b r1 k1 r2 k2. RSAPublicEncrypt b key (pubs ! i) r1 k1 = Some (Inr (ys ! i), r2, k2)"
    by auto
  show ?case
  proof (intro conjI allI impI)
    fix i assume "i < length (pub # pubs)"
    then show "\<exists>b r1 k1 r2 k2. RSAPublicEncrypt b key ((pub # pubs) ! i) r1 k1 = Some (Inr (keys ! i), r2, k2)"
    proof (cases i)
      case 0
      show ?thesis unfolding 0 y(3) nth_Cons_0 by (intro exI) (rule y(1))
    next
      case (Suc j)
      then show ?thesis using ih(2) \<open>i < length (pub # pubs)\<close> by (simp add: y(3))
    qed
  qed (use ih(1) y(3) in simp)
qed simp

lemma seal_open_init:
  assumes key: "rsa_pair (pubs ! i) priv p q e dP dQ" "i < length pubs" and "random_ok r"
    and buffers: "length (env_buffer ce) = 8" "length (env_buffer cd) = 8"
    and seal: "R_SealInit byte ce pubs alg r k = Some (Inr (keys, iv), ctx, r', k')"
  shows "\<exists>d. map_option fst (R_OpenInit cd alg (keys ! i) iv priv k0) = Some (Inr d) \<and> envelope_pair ctx d"
proof -
  define n :: nat where "n = (if alg = EA_DES_CBC then 8 else 24)"
  obtain key0 r1 r2 where g: "R_GenerateBytes n r = Inr (key0, r1)" "R_GenerateBytes 8 r1 = Inr (iv, r2)"
    and c: "(let key = (if alg = EA_DES_EDE2_CBC then array_write key0 16 (take 8 key0) else key0)
      in case CipherInit (ce\<lparr>encryptionAlgorithm := alg\<rparr>) alg key iv True of
           Inl status \<Rightarrow> Some (Inl status, ce\<lparr>encryptionAlgorithm := alg\<rparr>, r2, k)
         | Inr context \<Rightarrow> do {
             (status, randomStruct, DivCount) \<leftarrow> seal_keys byte key pubs r2 k;
             case status of
               Inl code \<Rightarrow> Some (Inl code, context, randomStruct, DivCount)
             | Inr encryptedKeys \<Rightarrow> Some (Inr (encryptedKeys, iv), context\<lparr>bufferLen := 0\<rparr>, randomStruct, DivCount)
           }) = Some (Inr (keys, iv), ctx, r', k')"
    using seal unfolding R_SealInit_def Let_def n_def
    by (auto split: sum.splits Option.bind_splits)
  define key' where "key' = (if alg = EA_DES_EDE2_CBC then array_write key0 16 (take 8 key0) else key0)"
  have l: "length key' = n"
    using R_GenerateBytes_ok [OF assms(3) g(1)] by (auto simp: key'_def n_def EA_defs)
  obtain ctx0 where ctx0: "CipherInit (ce\<lparr>encryptionAlgorithm := alg\<rparr>) alg key' iv True = Inr ctx0" "ctx = ctx0\<lparr>bufferLen := 0\<rparr>"
    and s: "seal_keys byte key' pubs r2 k = Some (Inr keys, r', k')"
    using c unfolding Let_def key'_def [symmetric] by (auto split: sum.splits Option.bind_splits)
  obtain b q1 k1 q2 k2 where "RSAPublicEncrypt b key' (pubs ! i) q1 k1 = Some (Inr (keys ! i), q2, k2)"
    using seal_keys_result [OF s] key(2) by blast
  note R = RSAPublicEncrypt_result [OF key(1) this]
  have "key' \<noteq> []" using l by (auto simp: n_def split: if_splits)
  then have "map_option fst (RSAPrivateDecrypt (keys ! i) priv k0) = Some (Inr key')" using R by simp
  then obtain k3 where d: "RSAPrivateDecrypt (keys ! i) priv k0 = Some (Inr key', k3)" by auto
  have "\<not> length (keys ! i) > 128" using R rsa_pair_length(2) [OF key(1) refl] by simp
  moreover obtain d0 where d0: "CipherInit (cd\<lparr>encryptionAlgorithm := alg\<rparr>) alg key' iv False = Inr d0"
    using ctx0(1) by (auto simp: CipherInit_def split: if_splits)
  ultimately have "R_OpenInit cd alg (keys ! i) iv priv k0 = Some (Inr (d0\<lparr>bufferLen := 0\<rparr>), k3)"
    using l by (simp add: R_OpenInit_def d n_def)
  moreover have "envelope_sync ctx0 d0" by (rule CipherInit_sync [OF ctx0(1) d0]) simp_all
  moreover have "length (env_buffer ctx0) = 8" "length (env_buffer d0) = 8"
    using ctx0(1) d0 buffers by (auto simp: CipherInit_def split: if_splits)
  ultimately show ?thesis
    using envelope_sync_frame [where e = ctx0 and b = "env_buffer ctx0" and n = 0 and d = d0 and b' = "env_buffer d0" and n' = 0] by (simp add: ctx0(2) envelope_pair_def)
qed

end
