(* ===== verification/R_Encode.thy ===== *)
theory R_Encode
  imports Rsa_Prelude
begin

section \<open>The RFC 1113 printable encoding (r_encode.c)\<close>

text \<open>
  A quantum of three bytes is four characters of six bits.  The routines return their output
  block, or the error code; a decoding that fails has written the blocks before the failure,
  which the callers do not read.  \<open>unsigned int\<close> values of six bits are words.
\<close>

definition ENCODING :: "u32 \<Rightarrow> u8" where
  "ENCODING i = ucast (if i < 26 then i + 0x41 else if i < 52 then i - 26 + 0x61
     else if i < 62 then i - 52 + 0x30 else if i = 62 then 0x2b else 0x2f)"

definition ENCODING_PAD :: u8 where
  "ENCODING_PAD = 0x3d"

definition IS_ENCODING :: "u8 \<Rightarrow> bool" where
  "IS_ENCODING c \<longleftrightarrow>
     (c \<ge> 0x41 \<and> c \<le> 0x5a) \<or> (c \<ge> 0x61 \<and> c \<le> 0x7a) \<or> (c \<ge> 0x30 \<and> c \<le> 0x39) \<or> c = 0x2b \<or> c = 0x2f"

definition DECODING :: "u8 \<Rightarrow> u32" where
  "DECODING c = (if c = 0x2b then 62 else if c = 0x2f then 63
     else if c \<le> 0x39 then ucast c - 0x30 + 52 else if c \<le> 0x5a then ucast c - 0x41 else ucast c - 0x61 + 26)"

definition EncodeQuantum :: "bytes \<Rightarrow> bytes" where
  "EncodeQuantum quantum =
     (let temp = push_bit 16 (ucast (quantum ! 0)) :: u32;
          temp = temp OR push_bit 8 (ucast (quantum ! 1));
          temp = temp OR ucast (quantum ! 2);
          a = drop_bit 18 temp AND 0x3f;
          b = drop_bit 12 temp AND 0x3f;
          c = drop_bit 6 temp AND 0x3f;
          d = temp AND 0x3f
      in [ENCODING a, ENCODING b, ENCODING c, ENCODING d])"

definition DecodeQuantum :: "bytes \<Rightarrow> re_code + bytes" where
  "DecodeQuantum encodedQuantum =
     (if \<not> IS_ENCODING (encodedQuantum ! 0) \<or> \<not> IS_ENCODING (encodedQuantum ! 1) \<or>
         \<not> IS_ENCODING (encodedQuantum ! 2) \<or> \<not> IS_ENCODING (encodedQuantum ! 3)
      then Inl RE_ENCODING
      else let a = DECODING (encodedQuantum ! 0);
               b = DECODING (encodedQuantum ! 1);
               c = DECODING (encodedQuantum ! 2);
               d = DECODING (encodedQuantum ! 3);
               temp = push_bit 18 a;
               temp = temp OR push_bit 12 b;
               temp = temp OR push_bit 6 c;
               temp = temp OR d
           in Inr [ucast (drop_bit 16 temp), ucast (drop_bit 8 temp), ucast temp])"

text \<open>The last quantum has one, two or three bytes; padding stands for the missing ones.\<close>

definition EncodeLastQuantum :: "bytes \<Rightarrow> bytes" where
  "EncodeLastQuantum quantum =
     (let quantumLen = length quantum;
          temp = push_bit 16 (ucast (quantum ! 0)) :: u32;
          temp = (if quantumLen \<ge> 2 then temp OR push_bit 8 (ucast (quantum ! 1)) else temp);
          temp = (if quantumLen = 3 then temp OR ucast (quantum ! 2) else temp);
          a = drop_bit 18 temp AND 0x3f;
          b = drop_bit 12 temp AND 0x3f;
          c = drop_bit 6 temp AND 0x3f;
          d = temp AND 0x3f
      in [ENCODING a, ENCODING b,
          if quantumLen \<ge> 2 then ENCODING c else ENCODING_PAD,
          if quantumLen = 3 then ENCODING d else ENCODING_PAD])"

definition DecodeLastQuantum :: "bytes \<Rightarrow> re_code + bytes" where
  "DecodeLastQuantum encodedQuantum =
     (if \<not> IS_ENCODING (encodedQuantum ! 0) \<or> \<not> IS_ENCODING (encodedQuantum ! 1) \<or>
         \<not> IS_ENCODING (encodedQuantum ! 2) \<and> encodedQuantum ! 2 \<noteq> ENCODING_PAD \<or>
         \<not> IS_ENCODING (encodedQuantum ! 3) \<and> encodedQuantum ! 3 \<noteq> ENCODING_PAD
      then Inl RE_ENCODING
      else let quantumLen = (if encodedQuantum ! 2 = ENCODING_PAD then 1
                 else if encodedQuantum ! 3 = ENCODING_PAD then 2 else 3 :: nat);
               a = DECODING (encodedQuantum ! 0);
               b = DECODING (encodedQuantum ! 1);
               c = DECODING (encodedQuantum ! 2);
               d = DECODING (encodedQuantum ! 3);
               temp = push_bit 18 a;
               temp = temp OR push_bit 12 b;
               temp = (if quantumLen \<ge> 2 then temp OR push_bit 6 c else temp);
               temp = (if quantumLen = 3 then temp OR d else temp)
           in Inr (take quantumLen [ucast (drop_bit 16 temp), ucast (drop_bit 8 temp), ucast temp]))"

text \<open>The loops: \<open>n\<close> full quanta, and then the last one.\<close>

fun encode_quanta :: "nat \<Rightarrow> bytes \<Rightarrow> bytes" where
  "encode_quanta 0 block = EncodeLastQuantum block"
| "encode_quanta (Suc n) block = EncodeQuantum (take 3 block) @ encode_quanta n (drop 3 block)"

definition R_EncodePEMBlock :: "bytes \<Rightarrow> bytes" where
  "R_EncodePEMBlock block = (if length block < 1 then [] else encode_quanta ((length block - 1) div 3) block)"

fun decode_quanta :: "nat \<Rightarrow> bytes \<Rightarrow> re_code + bytes" where
  "decode_quanta 0 encodedBlock = DecodeLastQuantum encodedBlock"
| "decode_quanta (Suc n) encodedBlock =
     andThen (DecodeQuantum (take 4 encodedBlock)) (\<lambda>block.
     andThen (decode_quanta n (drop 4 encodedBlock)) (\<lambda>rest. Inr (block @ rest)))"

definition R_DecodePEMBlock :: "bytes \<Rightarrow> re_code + bytes" where
  "R_DecodePEMBlock encodedBlock =
     (if length encodedBlock mod 4 \<noteq> 0 then Inl RE_ENCODING
      else if length encodedBlock < 1 then Inr []
      else decode_quanta ((length encodedBlock - 1) div 4) encodedBlock)"

subsection \<open>Characters\<close>

lemma encoding_table:
  "\<forall>n\<in>set [0..<64]. IS_ENCODING (ENCODING (of_nat n)) \<and> DECODING (ENCODING (of_nat n)) = of_nat n \<and>
     ENCODING (of_nat n) \<noteq> ENCODING_PAD"
  unfolding IS_ENCODING_def ENCODING_def DECODING_def ENCODING_PAD_def
  by code_simp

lemma six_bits: "0x3f = (mask 6 :: u32)"
  by (simp add: mask_eq_exp_minus_1)

lemma encoding_six:
  "IS_ENCODING (ENCODING (x AND 0x3f))" "DECODING (ENCODING (x AND 0x3f)) = x AND 0x3f" "ENCODING (x AND 0x3f) \<noteq> ENCODING_PAD"
proof -
  have "unat (x AND 0x3f) < 64" unfolding six_bits take_bit_eq_mask [symmetric] by (simp add: take_bit_eq_mod unat_mod)
  then have "unat (x AND 0x3f) \<in> set [0..<64]" by simp
  from bspec [OF encoding_table this]
  show "IS_ENCODING (ENCODING (x AND 0x3f))" "DECODING (ENCODING (x AND 0x3f)) = x AND 0x3f" "ENCODING (x AND 0x3f) \<noteq> ENCODING_PAD"
    by simp_all
qed

subsection \<open>Quanta\<close>

lemma regroup:
  fixes t :: u32
  shows "((push_bit 18 (drop_bit 18 t AND 0x3f) OR push_bit 12 (drop_bit 12 t AND 0x3f)) OR
      push_bit 6 (drop_bit 6 t AND 0x3f)) OR (t AND 0x3f) = take_bit 24 t"
proof (rule bit_word_eqI)
  fix n :: nat
  consider "n < 6" | "6 \<le> n" "n < 12" | "12 \<le> n" "n < 18" | "18 \<le> n" by linarith
  then show "bit (((push_bit 18 (drop_bit 18 t AND 0x3f) OR push_bit 12 (drop_bit 12 t AND 0x3f)) OR
      push_bit 6 (drop_bit 6 t AND 0x3f)) OR (t AND 0x3f)) n \<longleftrightarrow> bit (take_bit 24 t) n"
    unfolding six_bits by cases (auto simp: bit_simps dest: bit_imp_le_length)
qed

text \<open>The three bytes of a word of 24 bits.\<close>

lemma three_bytes:
  fixes x y z :: u8
  defines "t \<equiv> (push_bit 16 (ucast x) OR push_bit 8 (ucast y)) OR (ucast z :: u32)"
  shows "take_bit 24 t = t" "ucast (drop_bit 16 t) = x" "ucast (drop_bit 8 t) = y" "ucast t = z"
proof -
  have b: "bit t n \<longleftrightarrow> (16 \<le> n \<and> bit x (n - 16)) \<or> (8 \<le> n \<and> bit y (n - 8)) \<or> bit z n" if "n < 32" for n
    using that unfolding t_def by (auto simp: bit_simps dest: bit_imp_le_length)
  have l: "bit w n \<Longrightarrow> n < 8" for w :: u8 and n using bit_imp_le_length [of w n] by simp
  show "take_bit 24 t = t"
    by (rule bit_word_eqI) (use l in \<open>fastforce simp: bit_simps b\<close>)
  show "ucast (drop_bit 16 t) = x" by (rule bit_word_eqI) (use l in \<open>fastforce simp: bit_simps b\<close>)
  show "ucast (drop_bit 8 t) = y" by (rule bit_word_eqI) (use l in \<open>fastforce simp: bit_simps b\<close>)
  show "ucast t = z" by (rule bit_word_eqI) (use l in \<open>fastforce simp: bit_simps b\<close>)
qed

lemma nth_quantum:
  "[a, b, c, d] ! 0 = a" "[a, b, c, d] ! 1 = b" "[a, b, c, d] ! 2 = c" "[a, b, c, d] ! 3 = d"
  "[a] ! 0 = a" "[a, b] ! 0 = a" "[a, b] ! 1 = b" "[a, b, c] ! 0 = a" "[a, b, c] ! 1 = b" "[a, b, c] ! 2 = c"
  by simp_all

lemma DecodeQuantum_EncodeQuantum: "DecodeQuantum (EncodeQuantum [x, y, z]) = Inr [x, y, z]"
proof -
  define t :: u32 where "t = (push_bit 16 (ucast x) OR push_bit 8 (ucast y)) OR ucast z"
  have r: "((push_bit 18 (drop_bit 18 t AND 0x3f) OR push_bit 12 (drop_bit 12 t AND 0x3f)) OR
      push_bit 6 (drop_bit 6 t AND 0x3f)) OR (t AND 0x3f) = t"
    unfolding regroup t_def by (rule three_bytes)
  show ?thesis
    unfolding EncodeQuantum_def Let_def nth_quantum t_def [symmetric] DecodeQuantum_def encoding_six r
    using three_bytes [of x y z, folded t_def] by (simp add: encoding_six)
qed

lemma low_bits_zero:
  "push_bit 16 (ucast x :: u32) AND 0x3f = 0" "drop_bit 6 (push_bit 16 (ucast x :: u32)) AND 0x3f = 0"
  "(push_bit 16 (ucast x :: u32) OR push_bit 8 w) AND 0x3f = 0"
  unfolding six_bits by (rule bit_word_eqI; auto simp: bit_simps)+

lemma DecodeLastQuantum_EncodeLastQuantum:
  assumes "length q = 1 \<or> length q = 2 \<or> length q = 3"
  shows "DecodeLastQuantum (EncodeLastQuantum q) = Inr q"
proof -
  consider (1) x where "q = [x]" | (2) x y where "q = [x, y]" | (3) x y z where "q = [x, y, z]"
    using assms by (auto simp: length_Suc_conv numeral_eq_Suc)
  then show ?thesis
  proof cases
    case 1
    define t :: u32 where "t = push_bit 16 (ucast x)"
    have r: "push_bit 18 (drop_bit 18 t AND 0x3f) OR push_bit 12 (drop_bit 12 t AND 0x3f) = t"
      using regroup [of t] three_bytes(1) [of x 0 0] by (simp add: low_bits_zero t_def)
    have b: "ucast (drop_bit 16 t) = x" using three_bytes(2) [of x 0 0] by (simp add: t_def)
    show ?thesis unfolding 1 EncodeLastQuantum_def Let_def nth_quantum t_def [symmetric]
      by (simp add: DecodeLastQuantum_def encoding_six r b Let_def del: push_bit_and)
  next
    case 2
    define t :: u32 where "t = push_bit 16 (ucast x) OR push_bit 8 (ucast y)"
    have r: "(push_bit 18 (drop_bit 18 t AND 0x3f) OR push_bit 12 (drop_bit 12 t AND 0x3f)) OR
        push_bit 6 (drop_bit 6 t AND 0x3f) = t"
      using regroup [of t] three_bytes(1) [of x y 0] by (simp add: low_bits_zero t_def)
    have b: "ucast (drop_bit 16 t) = x" "ucast (drop_bit 8 t) = y" using three_bytes(2,3) [of x y 0] by (simp_all add: t_def)
    show ?thesis unfolding 2 EncodeLastQuantum_def Let_def nth_quantum
      by (simp add: DecodeLastQuantum_def encoding_six r b Let_def del: push_bit_and flip: t_def)
  next
    case 3
    define t :: u32 where "t = (push_bit 16 (ucast x) OR push_bit 8 (ucast y)) OR ucast z"
    have r: "((push_bit 18 (drop_bit 18 t AND 0x3f) OR push_bit 12 (drop_bit 12 t AND 0x3f)) OR
        push_bit 6 (drop_bit 6 t AND 0x3f)) OR (t AND 0x3f) = t"
      unfolding regroup t_def by (rule three_bytes)
    show ?thesis unfolding 3 EncodeLastQuantum_def Let_def nth_quantum
      using three_bytes [of x y z, folded t_def]
      by (simp add: DecodeLastQuantum_def encoding_six r Let_def del: push_bit_and flip: t_def)
  qed
qed

subsection \<open>Blocks\<close>

lemma length_EncodeQuantum [simp]: "length (EncodeQuantum q) = 4" "length (EncodeLastQuantum q) = 4"
  by (simp_all add: EncodeQuantum_def EncodeLastQuantum_def Let_def)

lemma decode_encode_quanta:
  "3 * n < length block \<Longrightarrow> length block \<le> 3 * n + 3 \<Longrightarrow>
     decode_quanta n (encode_quanta n block) = Inr block \<and> length (encode_quanta n block) = 4 * n + 4"
proof (induction n block rule: encode_quanta.induct)
  case (1 block)
  then have "length block = 1 \<or> length block = 2 \<or> length block = 3" by linarith
  then show ?case by (simp add: DecodeLastQuantum_EncodeLastQuantum)
next
  case (2 n block)
  from 2(2) obtain x y z rest where b: "block = x # y # z # rest"
    by (cases block; cases "tl block"; cases "tl (tl block)") auto
  have "take 3 block = [x, y, z]" "drop 3 block = rest" by (simp_all add: b)
  then show ?case using 2 by (simp add: DecodeQuantum_EncodeQuantum b)
qed

lemma R_Decode_Encode: "R_DecodePEMBlock (R_EncodePEMBlock block) = Inr block"
proof (cases "length block < 1")
  case True
  then show ?thesis by (simp add: R_EncodePEMBlock_def R_DecodePEMBlock_def)
next
  case False
  define n where "n = (length block - 1) div 3"
  have "3 * n < length block" "length block \<le> 3 * n + 3" using False unfolding n_def by linarith+
  note d = decode_encode_quanta [OF this]
  have e: "R_EncodePEMBlock block = encode_quanta n block" using False by (simp add: R_EncodePEMBlock_def n_def)
  have "(4 * n + 4) mod 4 = 0" "(4 * n + 4 - 1) div 4 = n" by simp_all
  then show ?thesis using d unfolding e R_DecodePEMBlock_def by simp
qed

definition legal_encoding :: "bytes \<Rightarrow> bool" where
  "legal_encoding e \<longleftrightarrow> length e mod 4 = 0 \<and> list_all IS_ENCODING (take (length e - 2) e) \<and>
     list_all (\<lambda>c. IS_ENCODING c \<or> c = ENCODING_PAD) (drop (length e - 2) e)"

lemma decode_quanta_error:
  "length e = 4 * n + 4 \<Longrightarrow> decode_quanta n e = Inl r \<longleftrightarrow> r = RE_ENCODING \<and> \<not> legal_encoding e"
proof (induction n e rule: decode_quanta.induct)
  case (1 e)
  then obtain a b c d where "e = [a, b, c, d]" by (auto simp: length_Suc_conv numeral_eq_Suc)
  then show ?case by (auto simp: DecodeLastQuantum_def legal_encoding_def nth_quantum Let_def)
next
  case (2 n e)
  then obtain a b c d rest where e: "e = a # b # c # d # rest" and l: "length rest = 4 * n + 4"
    by (auto simp: length_Suc_conv numeral_eq_Suc)
  have t: "take 4 e = [a, b, c, d]" "drop 4 e = rest" by (simp_all add: e)
  have tr: "take (length e - 2) e = a # b # c # d # take (length rest - 2) rest" "drop (length e - 2) e = drop (length rest - 2) rest"
  proof -
    have "length e - 2 = Suc (Suc (Suc (Suc (length rest - 2))))" using l by (simp add: e)
    then show "take (length e - 2) e = a # b # c # d # take (length rest - 2) rest" "drop (length e - 2) e = drop (length rest - 2) rest"
      unfolding \<open>length e - 2 = _\<close> by (simp_all add: e del: length_Cons)
  qed
  have leg: "legal_encoding e \<longleftrightarrow> IS_ENCODING a \<and> IS_ENCODING b \<and> IS_ENCODING c \<and> IS_ENCODING d \<and> legal_encoding rest"
    unfolding legal_encoding_def tr by (auto simp: l 2(2))
  show ?case
  proof (cases "DecodeQuantum [a, b, c, d]")
    case (Inl r')
    then have "\<not> (IS_ENCODING a \<and> IS_ENCODING b \<and> IS_ENCODING c \<and> IS_ENCODING d)" "r' = RE_ENCODING"
      by (auto simp: DecodeQuantum_def nth_quantum Let_def split: if_splits)
    then show ?thesis using Inl by (auto simp: t leg)
  next
    case (Inr q)
    then have ok: "IS_ENCODING a \<and> IS_ENCODING b \<and> IS_ENCODING c \<and> IS_ENCODING d"
      by (auto simp: DecodeQuantum_def nth_quantum split: if_splits)
    have "decode_quanta n rest = Inl r \<longleftrightarrow> r = RE_ENCODING \<and> \<not> legal_encoding rest"
      using 2(1) l t by simp
    then show ?thesis using Inr ok by (cases "decode_quanta n rest") (auto simp: t leg)
  qed
qed

subsection \<open>The properties\<close>

text \<open>
  C29: Decoding the printable encoding of a byte string returns the byte string.
\<close>

theorem R_Encode_Decode: "R_DecodePEMBlock (R_EncodePEMBlock block) = Inr block"
  by (rule R_Decode_Encode)

text \<open>
  C31: Decoding fails, with RE_ENCODING, exactly for the strings that are not legal: a legal
  string is a whole number of quanta of four in which every character but the last two is
  one of the 64 of the code, and each of the last two is one of them or the padding
  character. Three padding characters are refused, and padding followed by a character is
  accepted.
\<close>

theorem R_DecodePEMBlock_error:
  "R_DecodePEMBlock e = Inl r \<longleftrightarrow> r = RE_ENCODING \<and> \<not> legal_encoding e"
proof (cases "length e mod 4 = 0 \<and> e \<noteq> []")
  case True
  define n where "n = (length e - 1) div 4"
  have "length e = 4 * n + 4"
  proof -
    from True obtain k where "length e = 4 * Suc k" by (metis dvd_def length_0_conv mod_0_imp_dvd mult_0_right not0_implies_Suc)
    then show ?thesis by (simp add: n_def)
  qed
  moreover have "R_DecodePEMBlock e = decode_quanta n e" using True by (simp add: R_DecodePEMBlock_def n_def Suc_le_eq)
  ultimately show ?thesis by (simp add: decode_quanta_error)
qed (auto simp: R_DecodePEMBlock_def legal_encoding_def)

end
