(* ===== verification/R_Pem.thy ===== *)
theory R_Pem
  imports R_Sign Envelope_Properties R_Encode
begin

section \<open>Privacy-enhanced mail blocks (r_enhanc.c: the PEM operations)\<close>

text \<open>
  Signatures, keys and sealed contents in the printable encoding.  Local variables that the
  code leaves uninitialised are parameters: the contexts, the 24 bytes of
  \<open>encryptedPart\<close>, and the \<open>status\<close> that \<open>DecryptPEMUpdateFinal\<close> looks at after a loop that
  need not have set it.  A decoded signature or key of more bytes than the array it is
  decoded into is carried on whole.
\<close>

abbreviation (input) MAX_SIGNATURE_LEN :: nat where "MAX_SIGNATURE_LEN \<equiv> 128"

definition ENCODED_CONTENT_LEN :: "nat \<Rightarrow> nat" where
  "ENCODED_CONTENT_LEN len = 4 * len div 3 + 3"

definition ENCRYPTED_CONTENT_LEN :: "nat \<Rightarrow> nat" where
  "ENCRYPTED_CONTENT_LEN len = ENCODED_CONTENT_LEN (len + 8)"

subsection \<open>Signatures\<close>

definition R_SignPEMBlock ::
  "R_SIGNATURE_CTX \<Rightarrow> bytes \<Rightarrow> bool \<Rightarrow> int \<Rightarrow> R_RSA_PRIVATE_KEY \<Rightarrow> u32
   \<Rightarrow> ((re_code + bytes \<times> bytes option) \<times> u32) option" where
  "R_SignPEMBlock context content recode alg privateKey DivCount = do {
     (status, DivCount) \<leftarrow> R_SignBlock context content alg privateKey DivCount;
     Some (case status of
         Inl code \<Rightarrow> Inl code
       | Inr signature \<Rightarrow>
           Inr (R_EncodePEMBlock signature, if recode then Some (R_EncodePEMBlock content) else None), DivCount)
   }"

definition R_VerifyPEMSignature ::
  "R_SIGNATURE_CTX \<Rightarrow> bytes \<Rightarrow> bytes \<Rightarrow> bool \<Rightarrow> int \<Rightarrow> R_RSA_PUBLIC_KEY \<Rightarrow> u32
   \<Rightarrow> (re_code option \<times> bytes option \<times> u32) option" where
  "R_VerifyPEMSignature context encodedContent encodedSignature recode alg publicKey DivCount =
     (if length encodedSignature > ENCODED_CONTENT_LEN MAX_SIGNATURE_LEN
      then Some (Some RE_SIGNATURE_ENCODING, None, DivCount)
      else case (if recode then R_DecodePEMBlock encodedContent else Inr encodedContent) of
          Inl code \<Rightarrow> Some (Some RE_CONTENT_ENCODING, None, DivCount)
        | Inr content \<Rightarrow> (case R_DecodePEMBlock encodedSignature of
            Inl code \<Rightarrow> Some (Some RE_SIGNATURE_ENCODING, Some content, DivCount)
          | Inr signature \<Rightarrow> do {
              (status, DivCount) \<leftarrow> R_VerifyBlockSignature context content signature alg publicKey DivCount;
              Some (status, Some content, DivCount)
            }))"

subsection \<open>Sealed contents\<close>

text \<open>The loop over blocks of 24 bytes; the 24 bytes of \<open>encryptedPart\<close> are encoded each time.\<close>

fun encrypt_blocks :: "nat \<Rightarrow> R_ENVELOPE_CTX \<Rightarrow> bytes \<Rightarrow> bytes \<Rightarrow> R_ENVELOPE_CTX \<times> bytes" where
  "encrypt_blocks 0 context encryptedPart input = (context, [])"
| "encrypt_blocks (Suc n) context encryptedPart input =
     (let (context, part) = R_SealUpdate context (take 24 input);
          encryptedPart = array_write encryptedPart 0 part;
          (context, rest) = encrypt_blocks n context encryptedPart (drop 24 input)
      in (context, R_EncodePEMBlock (take 24 encryptedPart) @ rest))"

definition EncryptPEMUpdateFinal :: "R_ENVELOPE_CTX \<Rightarrow> bytes \<Rightarrow> bytes \<Rightarrow> R_ENVELOPE_CTX \<times> bytes" where
  "EncryptPEMUpdateFinal context encryptedPart input =
     (let i = length input div 24;
          (context, blocks) = encrypt_blocks i context encryptedPart input;
          (context, part) = R_SealUpdate context (drop (24 * i) input);
          (context, rest) = R_SealFinal context
      in (context, blocks @ R_EncodePEMBlock (part @ rest)))"

fun decrypt_blocks ::
  "nat \<Rightarrow> re_code option \<Rightarrow> R_ENVELOPE_CTX \<Rightarrow> bytes \<Rightarrow> bytes \<Rightarrow> re_code option \<times> R_ENVELOPE_CTX \<times> bytes" where
  "decrypt_blocks 0 status context encryptedPart input = (status, context, [])"
| "decrypt_blocks (Suc n) status context encryptedPart input =
     (case R_DecodePEMBlock (take 32 input) of
        Inl code \<Rightarrow> (Some code, context, [])
      | Inr decoded \<Rightarrow>
          (let encryptedPart = array_write encryptedPart 0 decoded;
               (context, part) = R_OpenUpdate context (take 24 encryptedPart);
               (status, context, rest) = decrypt_blocks n None context encryptedPart (drop 32 input)
           in (status, context, part @ rest)))"

definition DecryptPEMUpdateFinal ::
  "re_code option \<Rightarrow> R_ENVELOPE_CTX \<Rightarrow> bytes \<Rightarrow> bytes \<Rightarrow> (re_code + bytes) \<times> R_ENVELOPE_CTX" where
  "DecryptPEMUpdateFinal status context encryptedPart input =
     (let i = length input div 32
      in case decrypt_blocks i status context encryptedPart input of
           (Some code, context, blocks) \<Rightarrow> (Inl code, context)
         | (None, context, blocks) \<Rightarrow>
             (case R_DecodePEMBlock (drop (32 * i) input) of
                Inl code \<Rightarrow> (Inl code, context)
              | Inr decoded \<Rightarrow>
                  (case R_OpenUpdate context decoded of (context, part) \<Rightarrow>
                  (case R_OpenFinal context of
                     (Inl code, context) \<Rightarrow> (Inl code, context)
                   | (Inr rest, context) \<Rightarrow> (Inr (blocks @ part @ rest), context)))))"

definition R_SealPEMBlock ::
  "(nat \<Rightarrow> u8) \<Rightarrow> R_SIGNATURE_CTX \<Rightarrow> R_ENVELOPE_CTX \<Rightarrow> bytes \<times> bytes \<Rightarrow> bytes \<Rightarrow> int \<Rightarrow> R_RSA_PUBLIC_KEY
   \<Rightarrow> R_RSA_PRIVATE_KEY \<Rightarrow> R_RANDOM_STRUCT \<Rightarrow> u32
   \<Rightarrow> ((re_code + bytes \<times> bytes \<times> bytes \<times> bytes) \<times> R_RANDOM_STRUCT \<times> u32) option" where
  "R_SealPEMBlock byte signContext context encryptedParts content alg publicKey privateKey randomStruct DivCount = do {
     (status, DivCount) \<leftarrow> R_SignBlock signContext content alg privateKey DivCount;
     case status of
       Inl code \<Rightarrow> Some (Inl code, randomStruct, DivCount)
     | Inr signature \<Rightarrow> do {
         (status, context, randomStruct, DivCount) \<leftarrow>
           R_SealInit byte context [publicKey] EA_DES_CBC randomStruct DivCount;
         case status of
           Inl code \<Rightarrow> Some (Inl code, randomStruct, DivCount)
         | Inr (encryptedKeys, iv) \<Rightarrow>
             (let encryptedKey = R_EncodePEMBlock (encryptedKeys ! 0);
                  (context, encryptedContent) = EncryptPEMUpdateFinal context (fst encryptedParts) content;
                  (context, encryptedSignature) = EncryptPEMUpdateFinal context (snd encryptedParts) signature
              in Some (Inr (encryptedContent, encryptedKey, encryptedSignature, iv), randomStruct, DivCount))
       }
   }"

text \<open>An error of the decryption is mapped to the part it was met in.\<close>

definition pem_error :: "re_code \<Rightarrow> re_code \<Rightarrow> re_code" where
  "pem_error encoding status = (if status = RE_LEN \<or> status = RE_ENCODING then encoding else RE_KEY)"

definition R_OpenPEMBlock ::
  "R_SIGNATURE_CTX \<Rightarrow> R_ENVELOPE_CTX \<Rightarrow> bytes \<times> bytes \<Rightarrow> re_code option \<times> re_code option
   \<Rightarrow> bytes \<Rightarrow> bytes \<Rightarrow> bytes \<Rightarrow> bytes \<Rightarrow> int \<Rightarrow> R_RSA_PRIVATE_KEY \<Rightarrow> R_RSA_PUBLIC_KEY \<Rightarrow> u32
   \<Rightarrow> ((re_code + bytes) \<times> u32) option" where
  "R_OpenPEMBlock signContext context encryptedParts statuses
     encryptedContent encryptedKey encryptedSignature iv alg privateKey publicKey DivCount =
     (if length encryptedKey > ENCODED_CONTENT_LEN 128 then Some (Inl RE_KEY_ENCODING, DivCount)
      else if length encryptedSignature > ENCRYPTED_CONTENT_LEN MAX_SIGNATURE_LEN
      then Some (Inl RE_SIGNATURE_ENCODING, DivCount)
      else case R_DecodePEMBlock encryptedKey of
        Inl code \<Rightarrow> Some (Inl RE_KEY_ENCODING, DivCount)
      | Inr encryptedKeyBlock \<Rightarrow> do {
          (status, DivCount) \<leftarrow> R_OpenInit context EA_DES_CBC encryptedKeyBlock iv privateKey DivCount;
          case status of
            Inl code \<Rightarrow> Some (Inl code, DivCount)
          | Inr context \<Rightarrow>
            (case DecryptPEMUpdateFinal (fst statuses) context (fst encryptedParts) encryptedContent of
               (Inl code, context) \<Rightarrow> Some (Inl (pem_error RE_CONTENT_ENCODING code), DivCount)
             | (Inr content, context) \<Rightarrow>
            (case DecryptPEMUpdateFinal (snd statuses) context (snd encryptedParts) encryptedSignature of
               (Inl code, context) \<Rightarrow> Some (Inl (pem_error RE_SIGNATURE_ENCODING code), DivCount)
             | (Inr signature, context) \<Rightarrow> do {
                 (status, DivCount) \<leftarrow>
                   R_VerifyBlockSignature signContext content signature alg publicKey DivCount;
                 Some (case status of None \<Rightarrow> Inr content | Some code \<Rightarrow> Inl code, DivCount)
               }))
        })"
subsection \<open>Encoded blocks\<close>

lemma length_encode_quanta: "length (encode_quanta n block) = 4 * n + 4"
  by (induction n arbitrary: block) simp_all

lemma length_R_EncodePEMBlock: "length (R_EncodePEMBlock block) = 4 * ((length block + 2) div 3)"
proof (cases "length block < 1")
  case False
  then have "(length block - 1) div 3 + 1 = (length block + 2) div 3" by presburger
  with False show ?thesis by (simp add: R_EncodePEMBlock_def length_encode_quanta)
qed (simp add: R_EncodePEMBlock_def)

lemma length_encoded_block:
  assumes "length block \<le> 128"
  shows "length (R_EncodePEMBlock block) \<le> ENCODED_CONTENT_LEN 128"
proof -
  have "(length block + 2) div 3 \<le> 130 div 3" using assms by (intro div_le_mono) simp
  then show ?thesis by (simp add: length_R_EncodePEMBlock ENCODED_CONTENT_LEN_def)
qed

text \<open>The pieces of 24 bytes that the loops take.\<close>

fun chunks :: "nat \<Rightarrow> bytes \<Rightarrow> bytes list" where
  "chunks 0 x = []"
| "chunks (Suc n) x = take 24 x # chunks n (drop 24 x)"

lemma concat_chunks: "concat (chunks n x) = take (24 * n) x"
  by (induction n arbitrary: x) (simp_all add: take_add)

lemma chunked_outs: "chunked c0 msg c outs \<Longrightarrow> length outs + bufferLen c = length msg"
proof -
  assume "chunked c0 msg c outs"
  then obtain whole c1 where w: "msg = whole @ take (bufferLen c) (env_buffer c)" "length whole mod 8 = 0"
    "CipherUpdate c0 whole = (c1, outs)" "length (env_buffer c) = 8" "bufferLen c \<le> 8"
    by (auto simp: chunked_def)
  then show ?thesis using length_CipherUpdate [OF w(2), of c0] by simp
qed

lemma R_SealUpdate_length:
  assumes "length (env_buffer c) = 8" "bufferLen c = 0" "R_SealUpdate c part = (c', outs)"
  shows "length outs = 8 * (length part div 8)" "bufferLen c' = length part mod 8" "length (env_buffer c') = 8"
proof -
  note s = R_SealUpdate_chunked [OF chunked_init [OF assms(1,2)] _ assms(3)]
  have c: "chunked c part c' outs" "bufferLen c' < 8" using s assms(2) by simp_all
  show m: "bufferLen c' = length part mod 8" using chunked_length [OF c(1)] c(2) by simp
  show "length outs = 8 * (length part div 8)" using chunked_outs [OF c(1)] m by presburger
  show "length (env_buffer c') = 8" using c(1) by (simp add: chunked_def)
qed

lemma R_SealFinal_length:
  assumes "length (env_buffer c) = 8" "bufferLen c < 8" "R_SealFinal c = (c', outs)"
  shows "length outs = 8"
proof -
  define b where "b = array_write (env_buffer c) (bufferLen c) (replicate (8 - bufferLen c) (of_nat (8 - bufferLen c)))"
  obtain c1 o1 where u: "CipherUpdate (c\<lparr>env_buffer := b\<rparr>) b = (c1, o1)" by fastforce
  have upd: "env_buffer (c\<lparr>env_buffer := b\<rparr>) = b" by simp
  have "outs = o1" using assms(3) unfolding R_SealFinal_def Let_def b_def [symmetric] upd u by simp
  moreover have "length b = 8" using assms(1,2) by (simp add: b_def array_write_def)
  ultimately show ?thesis using length_CipherUpdate [of b "c\<lparr>env_buffer := b\<rparr>"] u by simp
qed

lemma encrypt_blocks_pieces:
  assumes "length (env_buffer e) = 8" "bufferLen e = 0" "24 * n \<le> length input" "encrypt_blocks n e ep input = (e', outs)"
  shows "\<exists>blocks. length blocks = n \<and> (\<forall>b \<in> set blocks. length b = 24) \<and> outs = concat (map R_EncodePEMBlock blocks) \<and>
    bufferLen e' = 0 \<and> length (env_buffer e') = 8 \<and>
    (\<forall>parts. seal_parts e (chunks n input @ parts) = (case seal_parts e' parts of (c, rest) \<Rightarrow> (c, concat blocks @ rest)))"
  using assms
proof (induction n arbitrary: e ep input outs)
  case (Suc n)
  obtain e1 part where u: "R_SealUpdate e (take 24 input) = (e1, part)" by fastforce
  obtain o2 where r: "encrypt_blocks n e1 (array_write ep 0 part) (drop 24 input) = (e', o2)"
    "outs = R_EncodePEMBlock (take 24 (array_write ep 0 part)) @ o2"
    using Suc(5) by (auto simp: u Let_def split: prod.splits)
  note l = R_SealUpdate_length [OF Suc(2,3) u]
  have len: "length part = 24" "bufferLen e1 = 0" using l(1,2) Suc(4) by simp_all
  have le: "24 * n \<le> length (drop 24 input)" using Suc(4) by simp
  obtain blocks where b: "length blocks = n" "\<forall>b \<in> set blocks. length b = 24" "o2 = concat (map R_EncodePEMBlock blocks)"
    "bufferLen e' = 0" "length (env_buffer e') = 8"
    "\<forall>parts. seal_parts e1 (chunks n (drop 24 input) @ parts) = (case seal_parts e' parts of (c, rest) \<Rightarrow> (c, concat blocks @ rest))"
    using Suc(1) [OF l(3) len(2) le r(1)] by blast
  have "seal_parts e (chunks (Suc n) input @ parts) =
      (case seal_parts e' parts of (c, rest) \<Rightarrow> (c, concat (part # blocks) @ rest))" for parts
    using b(6) by (simp add: u split: prod.splits)
  then show ?case
    using b len by (intro exI [of _ "part # blocks"]) (auto simp: r(2) array_write_def)
qed simp

lemma EncryptPEM_pieces:
  assumes "length (env_buffer e) = 8" "bufferLen e = 0" "EncryptPEMUpdateFinal e ep input = (e', outs)"
  shows "\<exists>blocks rest parts. (\<forall>b \<in> set blocks. length b = 24) \<and> length rest < 24 \<and>
    outs = concat (map R_EncodePEMBlock blocks) @ R_EncodePEMBlock rest \<and>
    seal_parts e parts = (e', concat blocks @ rest) \<and> concat parts = input \<and> (blocks = [] \<longleftrightarrow> length input < 16)"
proof -
  define n where "n = length input div 24"
  have n: "24 * n \<le> length input" "length input - 24 * n < 24" unfolding n_def by presburger+
  obtain e1 o1 where 1: "encrypt_blocks n e ep input = (e1, o1)" by fastforce
  obtain e2 part where 2: "R_SealUpdate e1 (drop (24 * n) input) = (e2, part)" by fastforce
  obtain e3 rest where 3: "R_SealFinal e2 = (e3, rest)" by fastforce
  have o: "e' = e3" "outs = o1 @ R_EncodePEMBlock (part @ rest)"
    using assms(3) 1 2 3 unfolding EncryptPEMUpdateFinal_def Let_def n_def [symmetric] by simp_all
  obtain blocks where b: "length blocks = n" "\<forall>b \<in> set blocks. length b = 24" "o1 = concat (map R_EncodePEMBlock blocks)"
    "bufferLen e1 = 0" "length (env_buffer e1) = 8"
    "\<forall>parts. seal_parts e (chunks n input @ parts) = (case seal_parts e1 parts of (c, rest) \<Rightarrow> (c, concat blocks @ rest))"
    using encrypt_blocks_pieces [OF assms(1,2) n(1) 1] by blast
  note l = R_SealUpdate_length [OF b(5,4) 2]
  have lr: "length rest = 8" using R_SealFinal_length [OF l(3) _ 3] l(2) by simp
  have s: "seal_parts e (chunks n input @ [drop (24 * n) input]) = (e', concat blocks @ part @ rest)"
    using b(6) by (simp add: 2 3 o(1))
  have c: "concat (chunks n input @ [drop (24 * n) input]) = input" by (simp add: concat_chunks)
  have lp: "length part = 8 * ((length input - 24 * n) div 8)" using l(1) by simp
  show ?thesis
  proof (cases "length (part @ rest) < 24")
    case True
    then have "8 * ((length input - 24 * n) div 8) < 16" using lp lr by simp
    then have "(length input - 24 * n) div 8 < 2" by linarith
    then have "length input - 24 * n < 16" by (simp add: div_less_iff_less_mult)
    moreover have "blocks = [] \<longleftrightarrow> n = 0" using b(1) by auto
    ultimately have "blocks = [] \<longleftrightarrow> length input < 16" using n(1) by (cases n) auto
    then show ?thesis using b(2,3) o(2) s c True by blast
  next
    case False
    then have "length (part @ rest) = 24" using lp lr n(2) by simp
    moreover have "\<not> length input < 16" using False lp lr by simp
    ultimately show ?thesis
      using b(2,3) o(2) s c
      by (intro exI [of _ "blocks @ [part @ rest]"] exI [of _ "[]"] exI [of _ "chunks n input @ [drop (24 * n) input]"])
        (auto simp: R_EncodePEMBlock_def)
  qed
qed

lemma decrypt_blocks_pieces:
  assumes "\<forall>b \<in> set blocks. length b = 24" "decrypt_blocks (length blocks) st d ep (concat (map R_EncodePEMBlock blocks) @ x) = (st', d', outs)"
  shows "st' = (if blocks = [] then st else None) \<and> (blocks = [] \<longrightarrow> d' = d) \<and>
    (\<forall>parts. open_parts d (blocks @ parts) = (case open_parts d' parts of (s, c) \<Rightarrow> (prepend outs s, c)))"
  using assms
proof (induction blocks arbitrary: st d ep outs)
  case (Cons b blocks)
  have l: "length (R_EncodePEMBlock b) = 32" "length b = 24" using Cons(2) by (simp_all add: length_R_EncodePEMBlock)
  have t: "take 24 (array_write ep 0 b) = b" using l(2) by (simp add: array_write_def)
  obtain d1 part where u: "R_OpenUpdate d b = (d1, part)" by fastforce
  obtain o2 where r: "decrypt_blocks (length blocks) None d1 (array_write ep 0 b) (concat (map R_EncodePEMBlock blocks) @ x) = (st', d', o2)"
    "outs = part @ o2"
    using Cons(3) by (auto simp: l R_Decode_Encode t u split: prod.splits)
  have "st' = None \<and> (\<forall>parts. open_parts d1 (blocks @ parts) = (case open_parts d' parts of (s, c) \<Rightarrow> (prepend o2 s, c)))"
    using Cons(1) [OF _ r(1)] Cons(2) by (simp split: if_splits)
  then show ?case by (simp add: u r(2) split: prod.splits)
qed simp

lemma DecryptPEM_pieces:
  assumes "\<forall>b \<in> set blocks. length b = 24" "length rest < 22"
  shows "DecryptPEMUpdateFinal st d ep (concat (map R_EncodePEMBlock blocks) @ R_EncodePEMBlock rest) =
    (if blocks = [] \<and> st \<noteq> None then (Inl (the st), d) else open_parts d (blocks @ [rest]))"
proof -
  let ?input = "concat (map R_EncodePEMBlock blocks) @ R_EncodePEMBlock rest"
  have lb: "length (concat (map R_EncodePEMBlock blocks)) = 32 * length blocks"
    using assms(1) by (induction blocks) (simp_all add: length_R_EncodePEMBlock)
  have "(length rest + 2) div 3 \<le> 23 div 3" using assms(2) by (intro div_le_mono) simp
  then have "length (R_EncodePEMBlock rest) < 32" by (simp add: length_R_EncodePEMBlock)
  then have n: "length ?input div 32 = length blocks" using lb by simp
  obtain st' d' outs where r: "decrypt_blocks (length blocks) st d ep ?input = (st', d', outs)" by (metis prod.exhaust)
  note p = decrypt_blocks_pieces [OF assms(1) r]
  have dr: "drop (32 * length blocks) ?input = R_EncodePEMBlock rest" using lb by simp
  show ?thesis
  proof (cases "blocks = [] \<and> st \<noteq> None")
    case True
    then show ?thesis using p r unfolding DecryptPEMUpdateFinal_def Let_def n by auto
  next
    case False
    then have "st' = None" using p by auto
    then have "DecryptPEMUpdateFinal st d ep ?input = (case open_parts d' [rest] of (s, c) \<Rightarrow> (prepend outs s, c))"
      unfolding DecryptPEMUpdateFinal_def Let_def n r dr R_Decode_Encode
      by (simp split: prod.splits sum.splits)
    then show ?thesis using p False by auto
  qed
qed

lemma seal_parts_length:
  assumes "length (env_buffer e) = 8" "bufferLen e = 0" "seal_parts e parts = (e', outs)"
  shows "length outs = 8 * (length (concat parts) div 8) + 8"
proof -
  obtain e1 o1 where e1: "CipherUpdate e (seal_pad (concat parts)) = (e1, o1)" by fastforce
  then have "o1 = outs" using seal_parts_chunked [OF chunked_init [OF assms(1,2)] _ assms(3)] assms(2) by simp
  then have "length outs = length (seal_pad (concat parts))"
    using length_CipherUpdate [OF length_seal_pad, of e "concat parts"] e1 by simp
  then show ?thesis by (simp add: seal_pad_def env_PADDING_def) presburger
qed

lemma pem_inverse:
  assumes "envelope_pair e d" "EncryptPEMUpdateFinal e ep input = (e', outs)"
  shows "\<exists>d'. envelope_pair e' d' \<and> DecryptPEMUpdateFinal st d ep' outs =
    (if length input < 16 \<and> st \<noteq> None then (Inl (the st), d) else (Inr input, d'))"
proof -
  have P: "length (env_buffer e) = 8" "bufferLen e = 0" using assms(1) by (simp_all add: envelope_pair_def)
  obtain blocks rest parts where b: "\<forall>b \<in> set blocks. length b = 24" "length rest < 24"
    "outs = concat (map R_EncodePEMBlock blocks) @ R_EncodePEMBlock rest"
    "seal_parts e parts = (e', concat blocks @ rest)" "concat parts = input" "blocks = [] \<longleftrightarrow> length input < 16"
    using EncryptPEM_pieces [OF P assms(2)] by blast
  have "length (concat blocks) = 24 * length blocks" using b(1) by (induction blocks) auto
  then have "24 * length blocks + length rest = 8 * (length input div 8) + 8"
    using seal_parts_length [OF P b(4)] b(5) by simp
  moreover have "24 * m + n = 8 * k + 8 \<Longrightarrow> n < 24 \<Longrightarrow> n < 22" for m n k :: nat by presburger
  ultimately have "length rest < 22" using b(2) by blast
  moreover obtain d' where "open_parts d (blocks @ [rest]) = (Inr input, d')" "envelope_pair e' d'"
    using seal_open [OF assms(1) b(4), of "blocks @ [rest]"] b(5) by auto
  ultimately show ?thesis using DecryptPEM_pieces [OF b(1), of rest st d ep'] b(3,6) by auto
qed

lemma length_EncryptPEM:
  assumes "length (env_buffer e) = 8" "bufferLen e = 0" "EncryptPEMUpdateFinal e ep input = (e', outs)" "length input \<le> 128"
  shows "length outs \<le> ENCRYPTED_CONTENT_LEN 128"
proof -
  obtain blocks rest parts where b: "\<forall>b \<in> set blocks. length b = 24" "length rest < 24"
    "outs = concat (map R_EncodePEMBlock blocks) @ R_EncodePEMBlock rest"
    "seal_parts e parts = (e', concat blocks @ rest)" "concat parts = input"
    using EncryptPEM_pieces [OF assms(1-3)] by blast
  have "length (concat blocks) = 24 * length blocks" "length (concat (map R_EncodePEMBlock blocks)) = 32 * length blocks"
    using b(1) by (induction blocks) (simp_all add: length_R_EncodePEMBlock)
  then have l: "24 * length blocks + length rest = 8 * (length input div 8) + 8"
    "length outs = 32 * length blocks + 4 * ((length rest + 2) div 3)"
    using seal_parts_length [OF assms(1,2) b(4)] b(3,5) by (simp_all add: length_R_EncodePEMBlock)
  have "length input div 8 \<le> 16" using div_le_mono [OF assms(4), of 8] by simp
  then have "24 * length blocks + length rest \<le> 136" using l(1) by linarith
  moreover have "(length rest + 2) div 3 * 3 \<le> length rest + 2" by (rule div_times_less_eq_dividend)
  ultimately have "length outs \<le> 184" using l(2) by linarith
  then show ?thesis by (simp add: ENCRYPTED_CONTENT_LEN_def ENCODED_CONTENT_LEN_def)
qed

lemma sealed_opened:
  assumes recipient: "rsa_pair pub priv p q e dP dQ"
    and signer: "rsa_pair spub spriv p' q' e' dP' dQ'" "45 \<le> (priv_bits spriv + 7) div 8"
    and ctx: "digest_ok (digestContext sc)" "digest_ok (digestContext sc')"
      "length (env_buffer ec) = 8" "length (env_buffer ec') = 8" "random_ok r"
    and fits: "digest_fits (length content)"
    and seal: "R_SealPEMBlock byte sc ec eps content alg pub spriv r k =
      Some (Inr (encryptedContent, encryptedKey, encryptedSignature, iv), r', k')"
  shows "map_option fst (R_OpenPEMBlock sc' ec' eps' statuses encryptedContent encryptedKey encryptedSignature iv alg priv spub k0) =
    Some (if length content < 16 \<and> fst statuses \<noteq> None then Inl (pem_error RE_CONTENT_ENCODING (the (fst statuses)))
          else Inr content)"
proof -
  obtain s k1 where s: "R_SignBlock sc content alg spriv k = Some (Inr s, k1)"
    using seal unfolding R_SealPEMBlock_def by (auto split: Option.bind_splits sum.splits)
  obtain keys ctx r1 k2 where i: "R_SealInit byte ec [pub] EA_DES_CBC r k1 = Some (Inr (keys, iv), ctx, r1, k2)"
    using seal unfolding R_SealPEMBlock_def s by (auto split: Option.bind_splits sum.splits prod.splits)
  obtain c1 where c1: "EncryptPEMUpdateFinal ctx (fst eps) content = (c1, encryptedContent)"
    and c2: "encryptedSignature = snd (EncryptPEMUpdateFinal c1 (snd eps) s)"
    and ek: "encryptedKey = R_EncodePEMBlock (keys ! 0)"
    using seal unfolding R_SealPEMBlock_def s by (auto simp: i split: prod.splits)
  then obtain c3 where c3: "EncryptPEMUpdateFinal c1 (snd eps) s = (c3, encryptedSignature)" by (metis prod.collapse)
  have alg: "alg = DA_MD2 \<or> alg = DA_MD5" using s bad_algorithm(1) by fastforce
  note sv = signed_verified [OF signer alg alg ctx(1,2) fits fits, of k]
  have ls: "45 \<le> length s" "length s \<le> 128"
    and v: "map_option fst (R_VerifyBlockSignature sc' content s alg spub k0) = Some None" for k0
    using sv s signer(2) rsa_pair_length(2) [OF signer(1) refl] by auto
  obtain d where d: "map_option fst (R_OpenInit ec' EA_DES_CBC (keys ! 0) iv priv k0) = Some (Inr d)" "envelope_pair ctx d"
    using seal_open_init [of "[pub]" 0 priv p q e dP dQ r ec ec' byte EA_DES_CBC k1 keys iv ctx r1 k2 k0]
      recipient ctx(3-5) i by auto
  then obtain k3 where d3: "R_OpenInit ec' EA_DES_CBC (keys ! 0) iv priv k0 = Some (Inr d, k3)" by auto
  obtain d1 where d1: "envelope_pair c1 d1" "DecryptPEMUpdateFinal (fst statuses) d (fst eps') encryptedContent =
      (if length content < 16 \<and> fst statuses \<noteq> None then (Inl (the (fst statuses)), d) else (Inr content, d1))"
    using pem_inverse [OF d(2) c1] by blast
  obtain d2 where d2: "DecryptPEMUpdateFinal (snd statuses) d1 (snd eps') encryptedSignature = (Inr s, d2)"
    using pem_inverse [OF d1(1) c3, of "snd statuses" "snd eps'"] ls(1) by auto
  have le: "length encryptedSignature \<le> ENCRYPTED_CONTENT_LEN 128"
    using length_EncryptPEM [OF _ _ c3 ls(2)] d1(1) by (simp add: envelope_pair_def)
  have "length (keys ! 0) \<le> 128" using d3 by (auto simp: R_OpenInit_def split: if_splits)
  then have lk: "length encryptedKey \<le> ENCODED_CONTENT_LEN 128"
    unfolding ek by (rule length_encoded_block)
  obtain k4 where "R_VerifyBlockSignature sc' content s alg spub k3 = Some (None, k4)" using v [of k3] by auto
  with le lk show ?thesis
    unfolding R_OpenPEMBlock_def by (simp add: ek R_Decode_Encode d3 d1(2) d2 not_less [symmetric])
qed

end
