(* ===== verification/Sample_Keys.thy ===== *)
theory Sample_Keys
  imports Rsa_Properties R_Sign
begin

section \<open>Sample keys and a sample random structure\<close>

text \<open>
  Two key pairs at which the properties of signatures and envelopes are applied: a recipient
  with a modulus of 146 bits, the shortest that takes a key of eight bytes, and a signer with
  a modulus of 360 bits, the shortest that takes an encoded digest.  Their factors are
  products of distinct small primes.  The random structure has one block of output left and
  the zero state behind it, whose digest is computed here step by step.
\<close>

subsection \<open>Primes\<close>

lemma more_primes:
  "list_all is_prime [2, 3, 5, 7, 11, 13, 17, 19, 29, 31, 37, 41, 43, 47, 53, 59, 61, 71, 73, 79, 83, 97, 101, 103, 107, 109, 113, 127, 131, 137, 139, 149, 151, 157, 163, 167, 173, 179, 181, 191, 193, 197, 211, 223, 227, 229, 233, 239, 241, 251, 257, 263, 269, 271, 277, 281, 283]"
  by (simp add: is_prime_small)

subsection \<open>The recipient\<close>

definition recipient_public :: R_RSA_PUBLIC_KEY where
  "recipient_public = \<lparr>pub_bits = 146,
     pub_modulus = in_field 128 [2, 34, 181, 45, 63, 101, 188, 201, 89, 199, 11, 207, 35, 198, 224, 157, 172, 134, 54],
     pub_exponent = in_field 128 [11]\<rparr>"

definition recipient_private :: R_RSA_PRIVATE_KEY where
  "recipient_private = \<lparr>priv_bits = 146,
     priv_modulus = in_field 128 [2, 34, 181, 45, 63, 101, 188, 201, 89, 199, 11, 207, 35, 198, 224, 157, 172, 134, 54],
     priv_publicExponent = in_field 128 [11],
     priv_exponent = in_field 128 [2, 182, 103, 45, 50, 145, 191, 163],
     priv_prime = [in_field 64 [1, 253, 194, 239, 201, 77, 53, 164, 6, 138], in_field 64 [1, 18, 141, 227, 28, 33, 201, 225, 98, 223]],
     priv_primeExponent = [in_field 64 [26, 184, 143, 243], in_field 64 [1, 27, 127, 53, 163]],
     priv_coefficient = in_field 64 [185, 229, 15, 69, 192, 124, 230, 49, 87]\<rparr>"

lemma recipient_factors:
  "rsa_factor 9403439400614403245706 11 448303091"
  "rsa_factor 5064631922706924790495 11 4756288931"
proof -
  show "rsa_factor 9403439400614403245706 11 448303091"
    by (rule rsa_factorI [of _ _ "[283, 271, 269, 251, 241, 233, 41, 37, 19, 17, 11, 3, 2]"])
      (use more_primes in simp_all)
  show "rsa_factor 5064631922706924790495 11 4756288931"
    by (rule rsa_factorI [of _ _ "[281, 277, 263, 257, 239, 229, 43, 31, 29, 13, 7, 5]"])
      (use more_primes in simp_all)
qed

lemma recipient_values:
  "bytes_val [2, 34, 181, 45, 63, 101, 188, 201, 89, 199, 11, 207, 35, 198, 224, 157, 172, 134, 54] = 9403439400614403245706 * 5064631922706924790495"
  "bytes_val [1, 253, 194, 239, 201, 77, 53, 164, 6, 138] = 9403439400614403245706"
  "bytes_val [1, 18, 141, 227, 28, 33, 201, 225, 98, 223] = 5064631922706924790495"
  "bytes_val [26, 184, 143, 243] = 448303091" "bytes_val [1, 27, 127, 53, 163] = 4756288931"
  "bytes_val [185, 229, 15, 69, 192, 124, 230, 49, 87] = 3429153141488634704215"
  by (simp_all add: bytes_val_def)

lemma recipient_pair: "rsa_pair recipient_public recipient_private 9403439400614403245706 5064631922706924790495 11 448303091 4756288931"
proof -
  have "coprime 9403439400614403245706 (5064631922706924790495::nat)"
    by (rule inverse_coprime [of _ 3429153141488634704215]) simp
  then show ?thesis
    using recipient_factors by (simp add: rsa_pair_def rsa_private_values_def recipient_public_def recipient_private_def recipient_values sample_values)
qed

subsection \<open>The signer\<close>

definition signer_public :: R_RSA_PUBLIC_KEY where
  "signer_public = \<lparr>pub_bits = 360,
     pub_modulus = in_field 128 [212, 169, 155, 191, 224, 169, 90, 208, 40, 62, 0, 105, 217, 85, 190, 107, 219, 203, 76, 181, 24, 223, 77, 49, 231, 179, 75, 146, 238, 172, 176, 108, 28, 151, 235, 150, 78, 188, 59, 111, 83, 85, 139, 18, 194],
     pub_exponent = in_field 128 [11]\<rparr>"

definition signer_private :: R_RSA_PRIVATE_KEY where
  "signer_private = \<lparr>priv_bits = 360,
     priv_modulus = in_field 128 [212, 169, 155, 191, 224, 169, 90, 208, 40, 62, 0, 105, 217, 85, 190, 107, 219, 203, 76, 181, 24, 223, 77, 49, 231, 179, 75, 146, 238, 172, 176, 108, 28, 151, 235, 150, 78, 188, 59, 111, 83, 85, 139, 18, 194],
     priv_publicExponent = in_field 128 [11],
     priv_exponent = in_field 128 [15, 47, 60, 106, 206, 59, 138, 246, 61, 100, 246, 20, 179, 163],
     priv_prime = [in_field 64 [15, 158, 137, 48, 38, 114, 14, 230, 100, 253, 152, 49, 218, 72, 78, 93, 58, 36, 167, 181, 119, 41, 179], in_field 64 [13, 157, 137, 234, 214, 42, 153, 152, 54, 199, 183, 136, 250, 46, 110, 54, 53, 245, 161, 209, 21, 29, 54]],
     priv_primeExponent = [in_field 64 [97, 144, 77, 20, 153, 119, 108, 163], in_field 64 [13, 115, 240, 196, 172, 152, 101, 142, 182, 3]],
     priv_coefficient = in_field 64 [1, 178, 108, 253, 235, 154, 19, 128, 5, 59, 243, 207, 164, 173, 174, 217, 65, 35, 143, 103, 81, 211, 205]\<rparr>"

lemma signer_factors:
  "rsa_factor 1496029888401766687530877514837884583844470999213353395 11 7030203769194769571"
  "rsa_factor 1304094867165363508006758352291992623378580254252932406 11 63529489027217063065091"
proof -
  show "rsa_factor 1496029888401766687530877514837884583844470999213353395 11 7030203769194769571"
    by (rule rsa_factorI [of _ _ "[281, 277, 263, 257, 239, 229, 227, 197, 193, 181, 173, 163, 149, 137, 113, 109, 103, 97, 73, 61, 59, 47, 37, 31, 17, 13, 5, 3]"])
      (use more_primes in simp_all)
  show "rsa_factor 1304094867165363508006758352291992623378580254252932406 11 63529489027217063065091"
    by (rule rsa_factorI [of _ _ "[283, 271, 269, 251, 241, 233, 223, 211, 191, 179, 167, 157, 151, 139, 127, 107, 101, 83, 79, 71, 53, 43, 41, 29, 19, 11, 7, 2]"])
      (use more_primes in simp_all)
qed

lemma signer_values:
  "bytes_val [212, 169, 155, 191, 224, 169, 90, 208, 40, 62, 0, 105, 217, 85, 190, 107, 219, 203, 76, 181, 24, 223, 77, 49, 231, 179, 75, 146, 238, 172, 176, 108, 28, 151, 235, 150, 78, 188, 59, 111, 83, 85, 139, 18, 194] = 1496029888401766687530877514837884583844470999213353395 * 1304094867165363508006758352291992623378580254252932406"
  "bytes_val [15, 158, 137, 48, 38, 114, 14, 230, 100, 253, 152, 49, 218, 72, 78, 93, 58, 36, 167, 181, 119, 41, 179] = 1496029888401766687530877514837884583844470999213353395"
  "bytes_val [13, 157, 137, 234, 214, 42, 153, 152, 54, 199, 183, 136, 250, 46, 110, 54, 53, 245, 161, 209, 21, 29, 54] = 1304094867165363508006758352291992623378580254252932406"
  "bytes_val [97, 144, 77, 20, 153, 119, 108, 163] = 7030203769194769571" "bytes_val [13, 115, 240, 196, 172, 152, 101, 142, 182, 3] = 63529489027217063065091"
  "bytes_val [1, 178, 108, 253, 235, 154, 19, 128, 5, 59, 243, 207, 164, 173, 174, 217, 65, 35, 143, 103, 81, 211, 205] = 162537969719606442992187766311217375628420656617608141"
  by (simp_all add: bytes_val_def)

lemma signer_pair: "rsa_pair signer_public signer_private 1496029888401766687530877514837884583844470999213353395 1304094867165363508006758352291992623378580254252932406 11 7030203769194769571 63529489027217063065091"
proof -
  have "coprime 1496029888401766687530877514837884583844470999213353395 (1304094867165363508006758352291992623378580254252932406::nat)"
    by (rule inverse_coprime [of _ 162537969719606442992187766311217375628420656617608141]) simp
  then show ?thesis
    using signer_factors by (simp add: rsa_pair_def rsa_private_values_def signer_public_def signer_private_def signer_values sample_values)
qed

subsection \<open>The digest of the zero state\<close>

lemma zero_steps1:
  "FF 1732584193 4023233417 2562383102 271733878 0 7 3614090360 = 2770331508"
  "FF 271733878 2770331508 4023233417 2562383102 0 12 3905402710 = 563434206"
  "FF 2562383102 563434206 2770331508 4023233417 0 17 606105819 = 2482154320"
  "FF 4023233417 2482154320 563434206 2770331508 0 22 3250441966 = 3471340928"
  "FF 2770331508 3471340928 2482154320 563434206 128 7 4118548399 = 393606687"
  "FF 563434206 393606687 3471340928 2482154320 0 12 1200080426 = 282756382"
  "FF 2482154320 282756382 393606687 3471340928 0 17 2821735955 = 3705453125"
  "FF 3471340928 3705453125 282756382 393606687 0 22 4249261313 = 2228536440"
  "FF 393606687 2228536440 3705453125 282756382 0 7 1770035416 = 1868358402"
  "FF 282756382 1868358402 2228536440 3705453125 0 12 2336552879 = 3031303697"
  "FF 3705453125 3031303697 1868358402 2228536440 0 17 4294925233 = 1701447810"
  "FF 2228536440 1701447810 3031303697 1868358402 0 22 2304563134 = 855188641"
  "FF 1868358402 855188641 1701447810 3031303697 0 7 1804603682 = 3765731040"
  "FF 3031303697 3765731040 855188641 1701447810 0 12 4254626195 = 3929599068"
  "FF 1701447810 3929599068 3765731040 855188641 128 17 2792965006 = 1562174981"
  "FF 855188641 1562174981 3929599068 3765731040 0 22 1236535329 = 3333828495"
  by (simp_all add: FF_def md5_F_def ROTATE_LEFT_def)

lemma zero_steps2:
  "GG 3765731040 3333828495 1562174981 3929599068 0 5 4129170786 = 2140174724"
  "GG 3929599068 2140174724 3333828495 1562174981 0 9 3225465664 = 3617771160"
  "GG 1562174981 3617771160 2140174724 3333828495 0 14 643717713 = 1062891359"
  "GG 3333828495 1062891359 3617771160 2140174724 0 20 3921069994 = 2763090269"
  "GG 2140174724 2763090269 1062891359 3617771160 0 5 3593408605 = 4222603613"
  "GG 3617771160 4222603613 2763090269 1062891359 0 9 38016083 = 536371848"
  "GG 1062891359 536371848 4222603613 2763090269 0 14 3634488961 = 4050813046"
  "GG 2763090269 4050813046 536371848 4222603613 128 20 3889429448 = 2030739446"
  "GG 4222603613 2030739446 4050813046 536371848 0 5 568446438 = 1284433688"
  "GG 536371848 1284433688 2030739446 4050813046 128 9 3275163606 = 3231957870"
  "GG 4050813046 3231957870 1284433688 2030739446 0 14 4107603335 = 1560186401"
  "GG 2030739446 1560186401 3231957870 1284433688 0 20 1163531501 = 295124836"
  "GG 1284433688 295124836 1560186401 3231957870 0 5 2850285829 = 2077437862"
  "GG 3231957870 2077437862 295124836 1560186401 0 9 4243563512 = 1226884052"
  "GG 1560186401 1226884052 2077437862 295124836 0 14 1735328473 = 2924531647"
  "GG 295124836 2924531647 1226884052 2077437862 0 20 2368359562 = 1822253796"
  by (simp_all add: GG_def md5_G_def ROTATE_LEFT_def)

lemma zero_steps3:
  "HH 2077437862 1822253796 2924531647 1226884052 0 4 4294588738 = 3897219668"
  "HH 1226884052 3897219668 1822253796 2924531647 0 11 2272392833 = 3117810220"
  "HH 2924531647 3117810220 3897219668 1822253796 0 16 1839030562 = 2773703451"
  "HH 1822253796 2773703451 3117810220 3897219668 128 23 4259657740 = 251855914"
  "HH 3897219668 251855914 2773703451 3117810220 0 4 2763975236 = 402988932"
  "HH 3117810220 402988932 251855914 2773703451 128 11 1272893353 = 1755149636"
  "HH 2773703451 1755149636 402988932 251855914 0 16 4139469664 = 2114097390"
  "HH 251855914 2114097390 1755149636 402988932 0 23 3200236656 = 3799039947"
  "HH 402988932 3799039947 2114097390 1755149636 0 4 681279174 = 997214846"
  "HH 1755149636 997214846 3799039947 2114097390 0 11 3936430074 = 1132796496"
  "HH 2114097390 1132796496 997214846 3799039947 0 16 3572445317 = 4108191687"
  "HH 3799039947 4108191687 1132796496 997214846 0 23 76029189 = 1368889825"
  "HH 997214846 1368889825 4108191687 1132796496 0 4 3654602809 = 313625792"
  "HH 1132796496 313625792 1368889825 4108191687 0 11 3873151461 = 3639241682"
  "HH 4108191687 3639241682 313625792 1368889825 0 16 530742520 = 3701283871"
  "HH 1368889825 3701283871 3639241682 313625792 0 23 3299628645 = 2251530644"
  by (simp_all add: HH_def md5_H_def ROTATE_LEFT_def)

lemma zero_steps4:
  "II 313625792 2251530644 3701283871 3639241682 0 6 4096336452 = 663341876"
  "II 3639241682 663341876 2251530644 3701283871 0 10 1126891415 = 3730895403"
  "II 3701283871 3730895403 663341876 2251530644 128 15 2878612391 = 422814326"
  "II 2251530644 422814326 3730895403 663341876 0 21 4237533241 = 3982810694"
  "II 663341876 3982810694 422814326 3730895403 0 6 1700485571 = 1506640934"
  "II 3730895403 1506640934 3982810694 422814326 0 10 2399980690 = 3034062374"
  "II 422814326 3034062374 1506640934 3982810694 0 15 4293915773 = 3726516803"
  "II 3982810694 3726516803 3034062374 1506640934 0 21 2240044497 = 548789303"
  "II 1506640934 548789303 3726516803 3034062374 0 6 1873313359 = 3903744150"
  "II 3034062374 3903744150 548789303 3726516803 0 10 4264355552 = 1699260039"
  "II 3726516803 1699260039 3903744150 548789303 0 15 2734768916 = 2141254409"
  "II 548789303 2141254409 1699260039 3903744150 0 21 1309151649 = 2020745712"
  "II 3903744150 2020745712 2141254409 1699260039 128 6 4149444226 = 3469657161"
  "II 1699260039 3469657161 2020745712 2141254409 0 10 3174756917 = 2498098093"
  "II 2141254409 2498098093 3469657161 2020745712 0 15 718787259 = 2512057723"
  "II 2020745712 2512057723 2498098093 3469657161 0 21 3951481745 = 3492520027"
  by (simp_all add: II_def md5_I_def ROTATE_LEFT_def)

abbreviation (input) zero_words :: "u32 list" where
  "zero_words \<equiv> [0, 0, 0, 0, 128, 0, 0, 0, 0, 0, 0, 0, 0, 0, 128, 0]"

lemma let_step: "e = v \<Longrightarrow> f v = r \<Longrightarrow> Let e f = r"
  by simp

lemma zero_round1: "md5_round1 zero_words (1732584193, 4023233417, 2562383102, 271733878) = (3765731040, 3333828495, 1562174981, 3929599068)"
  by (simp only: md5_round1_def prod.case) ((rule let_step, simp add: zero_steps1)+, simp)

lemma zero_round2: "md5_round2 zero_words (3765731040, 3333828495, 1562174981, 3929599068) = (2077437862, 1822253796, 2924531647, 1226884052)"
  by (simp only: md5_round2_def prod.case) ((rule let_step, simp add: zero_steps2)+, simp)

lemma zero_round3: "md5_round3 zero_words (2077437862, 1822253796, 2924531647, 1226884052) = (313625792, 2251530644, 3701283871, 3639241682)"
  by (simp only: md5_round3_def prod.case) ((rule let_step, simp add: zero_steps3)+, simp)

lemma zero_round4: "md5_round4 zero_words (313625792, 2251530644, 3701283871, 3639241682) = (3469657161, 3492520027, 2512057723, 2498098093)"
  by (simp only: md5_round4_def prod.case) ((rule let_step, simp add: zero_steps4)+, simp)

lemma zeros: "replicate 16 (0 :: 8 word) = [0, 0, 0, 0, 0, 0, 0, 0, 0, 0, 0, 0, 0, 0, 0, 0]"
  "replicate 39 (0 :: 8 word) = [0, 0, 0, 0, 0, 0, 0, 0, 0, 0, 0, 0, 0, 0, 0, 0, 0, 0, 0, 0, 0, 0, 0, 0, 0, 0, 0, 0, 0, 0, 0, 0, 0, 0, 0, 0, 0, 0, 0]"
  by (simp_all add: numeral_eq_Suc)

lemma zero_padded: "md5_padded (replicate 16 0) = [0, 0, 0, 0, 0, 0, 0, 0, 0, 0, 0, 0, 0, 0, 0, 0, 128, 0, 0, 0, 0, 0, 0, 0, 0, 0, 0, 0, 0, 0, 0, 0, 0, 0, 0, 0, 0, 0, 0, 0, 0, 0, 0, 0, 0, 0, 0, 0, 0, 0, 0, 0, 0, 0, 0, 0, 128, 0, 0, 0, 0, 0, 0, 0]"
  by (simp only: zeros(1)) (simp add: md5_padded_def zeros(2))

lemma zero_decoded: "md5_Decode (md5_padded (replicate 16 0)) = zero_words"
  by (simp only: zero_padded md5_Decode.simps) simp

lemma zero_transform:
  "MD5Transform [0x67452301, 0xefcdab89, 0x98badcfe, 0x10325476] (md5_padded (replicate 16 0)) =
    [907274058, 3220786148, 779473529, 2769831971]"
  by (simp only: MD5Transform_def zero_decoded Let_def) (simp add: zero_round1 zero_round2 zero_round3 zero_round4)

lemma zero_digest: "md5_digest (replicate 16 0) = [74, 231, 19, 54, 228, 75, 249, 191, 121, 210, 117, 46, 35, 72, 24, 165]"
proof -
  have l: "length (md5_padded (replicate 16 0)) = 64" by (simp only: zero_padded) simp
  have "block_loop 64 MD5Transform s (md5_padded (replicate 16 0)) =
      (MD5Transform s (md5_padded (replicate 16 0)), [])" for s
    using l by (subst block_loop_full) (simp_all add: block_loop_short)
  then show ?thesis by (simp add: md5_digest_def zero_transform)
qed

end
