(* ===== verification/Pem_Properties.thy ===== *)
theory Pem_Properties
  imports R_Pem Sample_Keys
begin

section \<open>Signed and sealed messages\<close>

text \<open>
  The properties of the operations of \<open>r_enhanc.c\<close> on whole messages, with the samples at
  which they are applied: an empty envelope context, digest contexts and the keys of
  \<open>Sample_Keys\<close>.
\<close>

subsection \<open>Random bytes that are not zero\<close>

lemma nonzero_bytes_next:
  "n \<le> outputAvailable r \<Longrightarrow> bytesNeeded r = 0 \<Longrightarrow> outputAvailable r \<le> 16 \<Longrightarrow> length (r_output r) = 16 \<Longrightarrow>
    list_all (\<lambda>b. b \<noteq> 0) (r_output r) \<Longrightarrow>
    nonzero_bytes n b r =
      Some (take n (drop (16 - outputAvailable r) (r_output r)), r\<lparr>outputAvailable := outputAvailable r - n\<rparr>)"
proof (induction n arbitrary: b r)
  case (Suc n)
  define i where "i = 16 - outputAvailable r"
  have i: "i < length (r_output r)" "16 - (outputAvailable r - 1) = Suc i" using Suc(2,4,5) by (simp_all add: i_def)
  have "R_GenerateBytes 1 r = Inr (take 1 (drop i (r_output r)), r\<lparr>outputAvailable := outputAvailable r - 1\<rparr>)"
    using Suc(2,3) by (simp add: R_GenerateBytes_def generate_loop_short i_def)
  moreover have "take 1 (drop i (r_output r)) = [r_output r ! i]"
    using i(1) by (simp add: take_Suc_conv_app_nth)
  moreover have "r_output r ! i \<noteq> 0" using Suc(6) i(1) by (simp add: list_all_length)
  ultimately have "nonzero_byte b r = Some (r_output r ! i, r\<lparr>outputAvailable := outputAvailable r - 1\<rparr>)"
    by (subst nonzero_byte.simps) simp
  moreover have "nonzero_bytes n b' (r\<lparr>outputAvailable := outputAvailable r - 1\<rparr>) =
      Some (take n (drop (Suc i) (r_output r)), r\<lparr>outputAvailable := outputAvailable r - Suc n\<rparr>)" for b'
    using Suc(1) [of "r\<lparr>outputAvailable := outputAvailable r - 1\<rparr>" b'] Suc(2-6) i(2) by simp
  moreover have "drop i (r_output r) = r_output r ! i # drop (Suc i) (r_output r)"
    using i(1) by (rule Cons_nth_drop_Suc [symmetric])
  ultimately show ?case by (simp flip: i_def)
qed simp

lemma R_GenerateBytes_refill:
  assumes "outputAvailable r = 0" "length (r_output r) = 16" "0 < n"
  shows "R_GenerateBytes n r =
    R_GenerateBytes n (r\<lparr>r_state := fst (next_output (r_state r)), r_output := snd (next_output (r_state r)), outputAvailable := 16\<rparr>)"
  using assms generate_loop_long [of 0 n "(r_state r, r_output r)"]
  by (simp add: R_GenerateBytes_def split: prod.splits)

lemma nonzero_bytes_refill:
  assumes "outputAvailable r = 0" "length (r_output r) = 16" "0 < n" "bytesNeeded r = 0"
  shows "nonzero_bytes n b r =
    nonzero_bytes n b (r\<lparr>r_state := fst (next_output (r_state r)), r_output := snd (next_output (r_state r)), outputAvailable := 16\<rparr>)"
proof -
  let ?r = "r\<lparr>r_state := fst (next_output (r_state r)), r_output := snd (next_output (r_state r)), outputAvailable := 16\<rparr>"
  obtain x where "R_GenerateBytes 1 ?r = Inr x"
    using assms(4) by (auto simp: R_GenerateBytes_def case_prod_beta)
  moreover have "R_GenerateBytes 1 r = R_GenerateBytes 1 ?r" by (rule R_GenerateBytes_refill [OF assms(1,2)]) simp
  ultimately have "nonzero_byte b r = nonzero_byte b ?r" by (subst (1 2) nonzero_byte.simps) simp
  then show ?thesis using assms(3) by (cases n) simp_all
qed

subsection \<open>The samples\<close>

definition sample_signature :: R_SIGNATURE_CTX where
  "sample_signature = \<lparr>digestContext = \<lparr>digestAlgorithm = 0,
     ctx_md2 = \<lparr>md2_state = replicate 16 0, md2_checksum = replicate 16 0, md2_count = 0, md2_buffer = replicate 16 0\<rparr>,
     ctx_md5 = local_MD5_CTX\<rparr>\<rparr>"

definition sample_envelope :: R_ENVELOPE_CTX where
  "sample_envelope = \<lparr>encryptionAlgorithm = 0,
     cipher_des = DES_CBCInit (replicate 8 0) (replicate 8 0) True,
     cipher_des3 = DES3_CBCInit (replicate 24 0) (replicate 8 0) True,
     cipher_desx = DESX_CBCInit (replicate 24 0) (replicate 8 0) True,
     env_buffer = replicate 8 0, bufferLen = 0\<rparr>"

lemma sample_contexts [simp]:
  "digest_ok (digestContext sample_signature)" "length (env_buffer sample_envelope) = 8" "bufferLen sample_envelope = 0"
  "random_ok seeded_random"
  by (simp_all add: sample_signature_def digest_ok_def sample_envelope_def local_MD5_CTX_def random_ok_def seeded_random_def)

lemma digest_fits_small: "n \<le> 1000 \<Longrightarrow> digest_fits n"
  by (simp add: digest_fits_def md2_fits_def md5_fits_def)

lemma sample_bits: "priv_bits recipient_private = 146" "priv_bits signer_private = 360"
  by (simp_all add: recipient_private_def signer_private_def)

lemma zero_digest_nonzero: "list_all (\<lambda>b. b \<noteq> 0) (md5_digest (replicate 16 0))"
  by (simp add: zero_digest)

lemma sample_seal:
  "\<exists>y ctx r' k'. R_SealInit b ce [recipient_public] EA_DES_CBC seeded_random k = Some (Inr ([y], replicate 8 7), ctx, r', k')"
proof -
  let ?r = "\<lambda>n. seeded_random\<lparr>outputAvailable := n\<rparr>"
  have g: "R_GenerateBytes 8 seeded_random = Inr (replicate 8 7, ?r 8)"
    "R_GenerateBytes 8 (?r 8) = Inr (replicate 8 7, ?r 0)"
    by (simp_all add: R_GenerateBytes_def generate_loop_short seeded_random_def)
  define s where "s = (?r 0)\<lparr>r_state := fst (next_output (replicate 16 0)), r_output := md5_digest (replicate 16 0), outputAvailable := 16\<rparr>"
  have s: "snd (next_output (replicate 16 0)) = md5_digest (replicate 16 0)" by (simp add: next_output_value)
  have "nonzero_bytes 8 (b 0) (?r 0) = nonzero_bytes 8 (b 0) s"
    by (subst nonzero_bytes_refill) (simp_all add: seeded_random_def s_def s)
  also have "\<dots> = Some (take 8 (drop (16 - outputAvailable s) (r_output s)), s\<lparr>outputAvailable := outputAvailable s - 8\<rparr>)"
    by (rule nonzero_bytes_next) (simp_all add: s_def zero_digest_nonzero seeded_random_def)
  finally have "nonzero_bytes ((priv_bits recipient_private + 7) div 8 - length (replicate 8 (7 :: u8)) - 3) (b 0) (?r 0) =
      Some (take 8 (drop (16 - outputAvailable s) (r_output s)), s\<lparr>outputAvailable := outputAvailable s - 8\<rparr>)"
    by (simp add: sample_bits)
  from encrypted_block [OF recipient_pair _ this, of k] obtain y k' where
    "RSAPublicEncrypt (b 0) (replicate 8 7) recipient_public (?r 0) k = Some (Inr y, s\<lparr>outputAvailable := outputAvailable s - 8\<rparr>, k')"
    by (auto simp: sample_bits)
  then show ?thesis
    by (simp add: R_SealInit_def g CipherInit_def EA_defs Let_def)
qed

subsection \<open>Signatures\<close>

text \<open>
  C32: A signature, with a key whose modulus takes an encoded digest, is made, is as long as
  the modulus, and is accepted for a message and an algorithm exactly when the algorithm is
  that of the signature and the digests agree; otherwise the status is RE_SIGNATURE.
\<close>

theorem Sign_Verify:
  assumes "rsa_pair pub priv p q e dP dQ" "45 \<le> (priv_bits priv + 7) div 8"
    "alg = DA_MD2 \<or> alg = DA_MD5" "alg' = DA_MD2 \<or> alg' = DA_MD5"
    "digest_ok (digestContext c)" "digest_ok (digestContext c')" "digest_fits (length block)" "digest_fits (length block')"
  shows "\<exists>s k'. R_SignBlock c block alg priv k = Some (Inr s, k') \<and> length s = (priv_bits priv + 7) div 8 \<and>
    (\<forall>k0. map_option fst (R_VerifyBlockSignature c' block' s alg' pub k0) =
      Some (if alg' = alg \<and> message_digest alg' block' = message_digest alg block then None else Some RE_SIGNATURE))"
  by (rule signed_verified [OF assms])

theorem Sign_Verify_witness:
  "\<exists>s k'. R_SignBlock sample_signature [200] DA_MD5 signer_private 0 = Some (Inr s, k') \<and> length s = (priv_bits signer_private + 7) div 8 \<and>
    (\<forall>k0. map_option fst (R_VerifyBlockSignature sample_signature [100] s DA_MD2 signer_public k0) =
      Some (if DA_MD2 = DA_MD5 \<and> message_digest DA_MD2 [100] = message_digest DA_MD5 [200] then None else Some RE_SIGNATURE))"
  by (rule Sign_Verify [OF signer_pair]) (simp_all add: sample_bits digest_fits_small)

text \<open>
  However a message is cut into updates, signing it in parts gives what signing it as
  one block gives.
\<close>

theorem Sign_in_parts:
  assumes "digest_ok (digestContext c)" "R_SignInit c alg = (None, c')" "digest_fits (length (concat xs))"
  shows "map_option fst (R_SignFinal (foldl (\<lambda>c x. snd (R_SignUpdate c x)) c' xs) priv k) =
    map_option fst (R_SignBlock c (concat xs) alg priv k)"
  by (rule sign_parts [OF assms])

theorem Sign_in_parts_witness:
  "map_option fst (R_SignFinal (foldl (\<lambda>c x. snd (R_SignUpdate c x)) (snd (R_SignInit sample_signature DA_MD2)) [[1, 2], [], [3]]) signer_private 0) =
    map_option fst (R_SignBlock sample_signature (concat [[1, 2], [], [3]]) DA_MD2 signer_private 0)"
  by (rule Sign_in_parts) (simp_all add: digest_fits_small R_SignInit_def R_DigestInit_def case_prod_beta DA_defs)

theorem PEM_sign_verify:
  assumes "rsa_pair pub priv p q e dP dQ" "45 \<le> (priv_bits priv + 7) div 8" "alg = DA_MD2 \<or> alg = DA_MD5"
    "digest_ok (digestContext c)" "digest_ok (digestContext c')" "digest_fits (length content)"
  shows "\<exists>sig printed k'. R_SignPEMBlock c content recode alg priv k = Some (Inr (sig, printed), k') \<and>
    printed = (if recode then Some (R_EncodePEMBlock content) else None) \<and>
    (\<forall>k0. map_option (\<lambda>(status, text, _). (status, text))
        (R_VerifyPEMSignature c' (case printed of Some x \<Rightarrow> x | None \<Rightarrow> content) sig recode alg pub k0) =
      Some (None, Some content))"
proof -
  obtain s k' where s: "R_SignBlock c content alg priv k = Some (Inr s, k')" "length s = (priv_bits priv + 7) div 8"
    "\<forall>k0. map_option fst (R_VerifyBlockSignature c' content s alg pub k0) = Some None"
    using signed_verified [OF assms(1,2,3,3,4,5,6,6), of k] by auto
  have "length s \<le> 128" using s(2) rsa_pair_length(2) [OF assms(1) refl] by simp
  then have l: "length (R_EncodePEMBlock s) \<le> ENCODED_CONTENT_LEN 128"
    by (rule length_encoded_block)
  have "map_option (\<lambda>(status, text, _). (status, text))
      (R_VerifyPEMSignature c' (if recode then R_EncodePEMBlock content else content) (R_EncodePEMBlock s) recode alg pub k0) =
    Some (None, Some content)" for k0
  proof -
    obtain k1 where "R_VerifyBlockSignature c' content s alg pub k0 = Some (None, k1)" using s(3) by auto
    then show ?thesis using l by (simp add: R_VerifyPEMSignature_def R_Decode_Encode)
  qed
  then show ?thesis using s(1) by (cases recode) (simp_all add: R_SignPEMBlock_def)
qed

theorem PEM_sign_verify_witness:
  "\<exists>sig printed k'. R_SignPEMBlock sample_signature [200] True DA_MD2 signer_private 0 = Some (Inr (sig, printed), k') \<and>
    printed = (if True then Some (R_EncodePEMBlock [200]) else None) \<and>
    (\<forall>k0. map_option (\<lambda>(status, text, _). (status, text))
        (R_VerifyPEMSignature sample_signature (case printed of Some x \<Rightarrow> x | None \<Rightarrow> [200]) sig True DA_MD2 signer_public k0) =
      Some (None, Some [200]))"
  by (rule PEM_sign_verify [OF signer_pair]) (simp_all add: sample_bits digest_fits_small)

subsection \<open>Envelopes\<close>

text \<open>
  C33: Each recipient of a sealed message opens it to the message, in every mode and however
  either side cuts it into updates.
\<close>

theorem Seal_Open:
  assumes "rsa_pair (pubs ! i) priv p q e dP dQ" "i < length pubs" "random_ok r"
    "length (env_buffer ce) = 8" "length (env_buffer cd) = 8"
    "R_SealInit byte ce pubs alg r k = Some (Inr (keys, iv), ctx, r', k')"
    "concat parts2 = snd (seal_parts ctx parts)"
  shows "\<exists>d k2. R_OpenInit cd alg (keys ! i) iv priv k0 = Some (Inr d, k2) \<and>
    fst (open_parts d parts2) = Inr (concat parts)"
proof -
  obtain d where d: "map_option fst (R_OpenInit cd alg (keys ! i) iv priv k0) = Some (Inr d)" "envelope_pair ctx d"
    using seal_open_init [OF assms(1-6)] by blast
  obtain k2 where "R_OpenInit cd alg (keys ! i) iv priv k0 = Some (Inr d, k2)" using d(1) by auto
  moreover have "fst (open_parts d parts2) = Inr (concat parts)"
    using seal_open [OF d(2) surjective_pairing assms(7)] by auto
  ultimately show ?thesis by blast
qed

theorem Seal_Open_witness:
  "\<exists>y ctx r' k'. R_SealInit (\<lambda>_. 0) sample_envelope [recipient_public] EA_DES_CBC seeded_random 0 =
      Some (Inr ([y], replicate 8 7), ctx, r', k') \<and>
    (\<exists>d k2. R_OpenInit sample_envelope EA_DES_CBC ([y] ! 0) (replicate 8 7) recipient_private 0 = Some (Inr d, k2) \<and>
      fst (open_parts d [snd (seal_parts ctx [[1, 2], [3]])]) = Inr (concat [[1, 2], [3]]))"
proof -
  obtain y ctx r' k' where s: "R_SealInit (\<lambda>_. 0) sample_envelope [recipient_public] EA_DES_CBC seeded_random 0 =
      Some (Inr ([y], replicate 8 7), ctx, r', k')"
    using sample_seal by blast
  note Seal_Open [where pubs = "[recipient_public]" and i = 0, unfolded nth_Cons_0, OF recipient_pair _ _ _ _ s, of sample_envelope "[snd (seal_parts ctx [[1, 2], [3]])]" "[[1, 2], [3]]" 0]
  then show ?thesis using s by simp
qed

text \<open>
  However a ciphertext is cut into updates, opening it gives the unpadded plaintext,
  the empty message for the empty ciphertext, and RE_KEY for a length that is no multiple of
  eight or a wrong padding.
\<close>

theorem R_Open_in_parts:
  assumes "length (env_buffer c) = 8" "bufferLen c = 0" "concat parts = input"
  shows "fst (open_parts c parts) =
    (if input = [] then Inr []
     else if length input mod 8 \<noteq> 0 then Inl RE_KEY
     else unpad (snd (CipherUpdate c input)))"
  using open_parts_outcome [OF assms(1,2), of parts] unfolding assms(3) open_outcome_def .

theorem R_Open_in_parts_witness:
  "fst (open_parts sample_envelope [[1, 2], [3]]) =
    (if [1, 2, 3 :: u8] = [] then Inr []
     else if length [1, 2, 3 :: u8] mod 8 \<noteq> 0 then Inl RE_KEY
     else unpad (snd (CipherUpdate sample_envelope [1, 2, 3])))"
  by (rule R_Open_in_parts) simp_all

subsection \<open>Sealed and signed mail\<close>

text \<open>
  C36: A sealed and signed mail block opens to its content, except that for a content of
  fewer than 16 bytes the status that the code never sets decides.
\<close>

theorem PEM_seal_open:
  assumes "rsa_pair pub priv p q e dP dQ" "rsa_pair spub spriv p' q' e' dP' dQ'" "45 \<le> (priv_bits spriv + 7) div 8"
    "digest_ok (digestContext sc)" "digest_ok (digestContext sc')"
    "length (env_buffer ec) = 8" "length (env_buffer ec') = 8" "random_ok r" "digest_fits (length content)"
    "R_SealPEMBlock byte sc ec parts content alg pub spriv r k =
      Some (Inr (encryptedContent, encryptedKey, encryptedSignature, iv), r', k')"
  shows "map_option fst (R_OpenPEMBlock sc' ec' parts' statuses encryptedContent encryptedKey encryptedSignature iv alg priv spub k0) =
    Some (if length content < 16 \<and> fst statuses \<noteq> None then Inl (pem_error RE_CONTENT_ENCODING (the (fst statuses)))
          else Inr content)"
  by (rule sealed_opened [OF assms])

lemma sample_seal_pem:
  "\<exists>content key sig iv r' k'. R_SealPEMBlock (\<lambda>_. 0) sample_signature sample_envelope parts [1, 2] DA_MD5 recipient_public
      signer_private seeded_random 0 = Some (Inr (content, key, sig, iv), r', k')"
proof -
  obtain s k1 where s: "R_SignBlock sample_signature [1, 2] DA_MD5 signer_private 0 = Some (Inr s, k1)"
    using signed_verified [OF signer_pair, of DA_MD5 DA_MD5 sample_signature sample_signature "[1, 2]" "[1, 2]" 0]
    by (auto simp: sample_bits digest_fits_small)
  obtain y ctx r' k' where i: "R_SealInit (\<lambda>_. 0) sample_envelope [recipient_public] EA_DES_CBC seeded_random k1 =
      Some (Inr ([y], replicate 8 7), ctx, r', k')"
    using sample_seal by blast
  then show ?thesis by (simp add: R_SealPEMBlock_def s i case_prod_beta Let_def)
qed

theorem PEM_seal_open_witness:
  "\<exists>content key sig iv r' k'.
    R_SealPEMBlock (\<lambda>_. 0) sample_signature sample_envelope ([], []) [1, 2] DA_MD5 recipient_public signer_private seeded_random 0 =
      Some (Inr (content, key, sig, iv), r', k') \<and>
    map_option fst (R_OpenPEMBlock sample_signature sample_envelope ([], []) (Some RE_LEN, None) content key sig iv DA_MD5
      recipient_private signer_public 0) = Some (Inl RE_CONTENT_ENCODING)"
proof -
  obtain content key sig iv r' k' where s: "R_SealPEMBlock (\<lambda>_. 0) sample_signature sample_envelope ([], []) [1, 2] DA_MD5
      recipient_public signer_private seeded_random 0 = Some (Inr (content, key, sig, iv), r', k')"
    using sample_seal_pem by blast
  from PEM_seal_open [OF recipient_pair signer_pair _ _ _ _ _ _ _ s, of sample_signature sample_envelope "([], [])" "(Some RE_LEN, None)" 0]
  show ?thesis using s by (simp add: sample_bits digest_fits_small pem_error_def)
qed

end
