(* ===== verification/Prime.thy ===== *)
theory Prime
  imports Nn_Mod R_Random Fermat
begin

section \<open>Probable primes (prime.c)\<close>

text \<open>
  Trial division by four small primes, Fermat's test to the base 2, and the search for a
  probable prime from a random start.  The count of exponentiation steps is threaded
  through as in \<open>NN_ModExp\<close>; the search is a partial function, shown to return.  Local
  arrays are the results of the assignments that fill them.
\<close>

definition SMALL_PRIMES :: "NN_DIGIT list" where
  "SMALL_PRIMES = [3, 5, 7, 11]"

fun small_factor_loop :: "NN_DIGIT list \<Rightarrow> NN_DIGIT list \<Rightarrow> bool option" where
  "small_factor_loop a [] = Some False"
| "small_factor_loop a (s # primes) =
     (let t = NN_ASSIGN_DIGIT s 1
      in if length a = 1 \<and> NN_Cmp a t = 0 then Some False
      else do {
        t \<leftarrow> NN_Mod t a t;
        if NN_Zero t then Some True else small_factor_loop a primes
      })"

definition SmallFactor :: "NN_DIGIT list \<Rightarrow> bool option" where
  "SmallFactor a = small_factor_loop a SMALL_PRIMES"

definition FermatTest :: "NN_DIGIT list \<Rightarrow> u32 \<Rightarrow> (bool \<times> u32) option" where
  "FermatTest a DivCount =
     (let t = NN_ASSIGN_DIGIT 2 (length a)
      in do {
        (u, DivCount) \<leftarrow> NN_ModExp t a a DivCount;
        Some (NN_EQUAL t u, DivCount)
      })"

definition ProbablePrime :: "NN_DIGIT list \<Rightarrow> u32 \<Rightarrow> (bool \<times> u32) option" where
  "ProbablePrime a DivCount = do {
     small \<leftarrow> SmallFactor a;
     if \<not> small then FermatTest a DivCount else Some (False, DivCount)
   }"

partial_function (option) prime_search ::
  "NN_DIGIT list \<Rightarrow> NN_DIGIT list \<Rightarrow> NN_DIGIT list \<Rightarrow> u32 \<Rightarrow> ((re_code + NN_DIGIT list) \<times> u32) option" where
  "prime_search t d a DivCount = do {
     (probable, DivCount) \<leftarrow> ProbablePrime a DivCount;
     if probable then Some (Inr a, DivCount)
     else if NN_Cmp a t > 0 then Some (Inl RE_DATA, DivCount)
     else prime_search t d (fst (NN_Add a d)) DivCount
   }"

text \<open>The adjustment of the random number to the range and to the step.\<close>

definition prime_adjust ::
  "NN_DIGIT list \<Rightarrow> NN_DIGIT list \<Rightarrow> NN_DIGIT list \<Rightarrow> NN_DIGIT list \<Rightarrow> NN_DIGIT list option" where
  "prime_adjust a b c d =
     (let digits = length a;
          t = fst (NN_Sub c b);
          u = NN_ASSIGN_DIGIT 1 digits;
          t = fst (NN_Add t u)
      in do {
        a \<leftarrow> NN_Mod a a t;
        (let a = fst (NN_Add a b)
         in do {
           t \<leftarrow> NN_Mod t a d;
           (let a = fst (NN_Sub a t);
                a = fst (NN_Add a u);
                a = (if NN_Cmp a b < 0 then fst (NN_Add a d) else a);
                a = (if NN_Cmp a c > 0 then fst (NN_Sub a d) else a)
            in Some a)
         })
      })"

definition GeneratePrime ::
  "NN_DIGIT list \<Rightarrow> NN_DIGIT list \<Rightarrow> NN_DIGIT list \<Rightarrow> nat \<Rightarrow> R_RANDOM_STRUCT \<Rightarrow> u32
   \<Rightarrow> ((re_code + NN_DIGIT list) \<times> R_RANDOM_STRUCT \<times> u32) option" where
  "GeneratePrime b c d digits randomStruct DivCount =
     (case R_GenerateBytes (digits * NN_DIGIT_LEN) randomStruct of
        Inl status \<Rightarrow> Some (Inl status, randomStruct, DivCount)
      | Inr (block, randomStruct) \<Rightarrow> do {
          a \<leftarrow> prime_adjust (NN_Decode digits block) b c d;
          (let t = fst (NN_Sub (NN_Assign c digits) d)
           in do {
             (result, DivCount) \<leftarrow> prime_search t d a DivCount;
             Some (result, randomStruct, DivCount)
           })
        })"

subsection \<open>The tests\<close>

text \<open>A probable prime of \<open>n\<close> digits: the test on the number.\<close>

definition probable_prime :: "nat \<Rightarrow> nat \<Rightarrow> bool" where
  "probable_prime n a \<longleftrightarrow> list_all (\<lambda>s. a mod s = 0 \<longrightarrow> n = 1 \<and> a = s) [3, 5, 7, 11] \<and> 2 ^ a mod a = 2"

fun has_factor :: "nat \<Rightarrow> nat \<Rightarrow> nat list \<Rightarrow> bool" where
  "has_factor n a [] = False"
| "has_factor n a (s # primes) = (\<not> (n = 1 \<and> a = s) \<and> (a mod s = 0 \<or> has_factor n a primes))"

lemma small_factor_loop_value:
  "list_all (\<lambda>s. 0 < unat s) primes \<Longrightarrow>
    small_factor_loop a primes = Some (has_factor (length a) (nn_val a) (map unat primes))"
proof (induction primes)
  case (Cons s primes)
  define t where "t = NN_ASSIGN_DIGIT s (Suc 0)"
  have t: "length t = 1" "nn_val t = unat s" by (simp_all add: t_def nn_val_ASSIGN_DIGIT)
  have pos: "0 < nn_val t" using Cons(2) t(2) by simp
  have cmp: "NN_Cmp a t = 0 \<longleftrightarrow> nn_val a = unat s" if "length a = 1"
    using NN_Cmp_simps(3) [of a t] t that by (auto intro: nn_val_inj)
  obtain m where m: "NN_Mod t a t = Some m" "length m = 1" "nn_val m = nn_val a mod unat s"
    using NN_Mod_value [OF pos, of t a] t by auto
  have z: "NN_Zero m \<longleftrightarrow> nn_val a mod unat s = 0" using m(3) by (simp add: NN_Zero_value)
  have "small_factor_loop a primes = Some (has_factor (length a) (nn_val a) (map unat primes))"
    using Cons by simp
  then show ?case using cmp
    by (cases "length a = 1") (auto simp: t_def [symmetric] m(1) z Let_def)
qed simp

lemma small_primes_factor:
  "has_factor n a [3, 5, 7, 11] \<longleftrightarrow> \<not> list_all (\<lambda>s. a mod s = 0 \<longrightarrow> n = 1 \<and> a = s) [3, 5, 7, 11]"
proof (cases "n = 1 \<and> a \<in> {3, 5, 7, 11}")
  case True
  then show ?thesis by auto
qed auto

lemma ProbablePrime_value:
  assumes "0 < nn_val a"
  shows "map_option fst (ProbablePrime a k) = Some (probable_prime (length a) (nn_val a))"
proof -
  define f where "f = has_factor (length a) (nn_val a) [3, 5, 7, 11]"
  have f: "SmallFactor a = Some f"
    unfolding SmallFactor_def SMALL_PRIMES_def f_def by (subst small_factor_loop_value) simp_all
  have n: "0 < length a" using assms by (rule nn_val_pos_length)
  obtain u k' where u: "NN_ModExp (NN_ASSIGN_DIGIT 2 (length a)) a a k = Some (u, k')" "length u = length a"
    "nn_val u = 2 ^ nn_val a mod nn_val a"
    using NN_ModExp_value [OF assms _ assms, of "NN_ASSIGN_DIGIT 2 (length a)" k] nn_val_ASSIGN_DIGIT [OF n, of 2] by auto
  have "NN_EQUAL (NN_ASSIGN_DIGIT 2 (length a)) u \<longleftrightarrow> 2 ^ nn_val a mod nn_val a = 2"
    using u NN_Cmp_simps(3) [of "NN_ASSIGN_DIGIT 2 (length a)" u] nn_val_ASSIGN_DIGIT [OF n, of 2]
    by (auto simp: NN_EQUAL_def intro: nn_val_inj)
  moreover have "probable_prime (length a) (nn_val a) \<longleftrightarrow> \<not> f \<and> 2 ^ nn_val a mod nn_val a = 2"
    by (simp only: probable_prime_def f_def small_primes_factor not_not)
  ultimately show ?thesis by (simp add: ProbablePrime_def f FermatTest_def u(1))
qed

text \<open>Every prime passes, 2 and, in more than one digit, the small primes excepted.\<close>

lemma prime_probable:
  assumes "is_prime p" "p \<noteq> 2" "n = 1 \<or> p \<notin> {3, 5, 7, 11}"
  shows "probable_prime n p"
proof -
  have "p mod s \<noteq> 0" if "p \<noteq> s" "s \<noteq> 1" for s
    using that assms(1) unfolding is_prime_def mod_eq_0_iff_dvd by metis
  note n = this
  have d: "p mod 3 = 0 \<longrightarrow> p = 3" "p mod 5 = 0 \<longrightarrow> p = 5" "p mod 7 = 0 \<longrightarrow> p = 7" "p mod 11 = 0 \<longrightarrow> p = 11"
    using n [of 3] n [of 5] n [of 7] n [of 11] by fastforce+
  have "2 ^ p mod p = 2"
    using fermat [OF assms(1), of 2] assms(1,2) by (simp add: is_prime_def)
  moreover have "n = 1 \<or> p \<noteq> 3 \<and> p \<noteq> 5 \<and> p \<noteq> 7 \<and> p \<noteq> 11" using assms(3) by simp
  ultimately have e: "p mod 3 = 0 \<longrightarrow> n = 1 \<and> p = 3" "p mod 5 = 0 \<longrightarrow> n = 1 \<and> p = 5"
    "p mod 7 = 0 \<longrightarrow> n = 1 \<and> p = 7" "p mod 11 = 0 \<longrightarrow> n = 1 \<and> p = 11" "2 ^ p mod p = 2"
    using d by satx+
  show ?thesis unfolding probable_prime_def list.pred_inject by (intro conjI e) (simp only: list.pred_inject)
qed

subsection \<open>The search\<close>

text \<open>The numbers looked at: from \<open>a\<close> to \<open>c\<close> in steps of \<open>d\<close>.\<close>

definition candidates :: "nat \<Rightarrow> nat \<Rightarrow> nat \<Rightarrow> nat list" where
  "candidates a c d = map (\<lambda>i. a + i * d) [0..<(c - a) div d + 1]"

lemma candidates_step:
  assumes "0 < d" "a \<le> c"
  shows "candidates a c d = a # (if a + d \<le> c then candidates (a + d) c d else [])"
proof (cases "a + d \<le> c")
  case True
  then have "(c - a) div d = (c - (a + d)) div d + 1"
    using assms le_div_geq [of d "c - a"] by simp
  then have "candidates a c d = map (\<lambda>i. a + i * d) [0..<Suc ((c - (a + d)) div d + 1)]"
    by (simp add: candidates_def del: upt_Suc)
  also have "\<dots> = a # map (\<lambda>i. a + (i + 1) * d) [0..<(c - (a + d)) div d + 1]"
    unfolding map_upt_Suc by simp
  finally show ?thesis using True by (simp add: candidates_def algebra_simps)
next
  case False
  then have "(c - a) div d = 0" using assms by simp
  then show ?thesis using False by (simp add: candidates_def)
qed

lemma in_map_upt: "x \<in> set (map f [0..<n]) \<longleftrightarrow> (\<exists>i < n. x = f i)"
  by auto

lemma candidates_iff:
  "0 < d \<Longrightarrow> a \<le> c \<Longrightarrow> x \<in> set (candidates a c d) \<longleftrightarrow> a \<le> x \<and> x \<le> c \<and> x mod d = a mod d"
proof -
  assume d: "0 < d" and c: "a \<le> c"
  have "(\<exists>i < (c - a) div d + 1. x = a + i * d) \<longleftrightarrow> a \<le> x \<and> x \<le> c \<and> x mod d = a mod d" (is "?l \<longleftrightarrow> ?r")
  proof
    assume ?l
    then obtain i where "i < (c - a) div d + 1" and x: "x = a + i * d" by blast
    then have i: "i \<le> (c - a) div d" "x = a + i * d" by simp_all
    then have "i * d \<le> c - a" using d by (metis div_times_less_eq_dividend mult_le_mono1 order_trans)
    with i(2) c show ?r by simp
  next
    assume r: ?r
    then obtain i where "x - a = i * d" by (metis mod_eq_dvd_iff_nat dvd_def mult.commute)
    with r have "x = a + i * d" by linarith
    moreover have "(x - a) div d \<le> (c - a) div d" using r by (intro div_le_mono diff_le_mono) simp
    ultimately show ?l using \<open>x = a + i * d\<close> d by (intro exI [of _ i]) (simp add: le_imp_less_Suc)
  qed
  then show ?thesis unfolding candidates_def in_map_upt .
qed

definition search_result :: "nat \<Rightarrow> nat list \<Rightarrow> re_code + nat" where
  "search_result n xs = (case find (probable_prime n) xs of Some p \<Rightarrow> Inr p | None \<Rightarrow> Inl RE_DATA)"

lemma prime_search_value:
  assumes "length t = length a" "length d = length a" "nn_val t + nn_val d = c" "0 < nn_val d" "0 < nn_val a"
    "nn_val a \<le> c" "c < 2 ^ (32 * length a)"
  shows "\<exists>r k'. prime_search t d a k = Some (r, k') \<and> map_sum id nn_val r = search_result (length a) (candidates (nn_val a) c (nn_val d)) \<and>
    (\<forall>p. r = Inr p \<longrightarrow> length p = length a)"
  using assms
proof (induction "c - nn_val a" arbitrary: a k rule: less_induct)
  case less
  obtain k1 where p: "ProbablePrime a k = Some (probable_prime (length a) (nn_val a), k1)"
    using ProbablePrime_value [OF less(6), of k] by auto
  note step = candidates_step [OF less(5,7)]
  show ?case
  proof (cases "probable_prime (length a) (nn_val a)")
    case True
    then show ?thesis by (subst prime_search.simps) (simp add: p step search_result_def)
  next
    case False
    note P = False
    show ?thesis
    proof (cases "NN_Cmp a t > 0")
      case True
      then have "\<not> nn_val a + nn_val d \<le> c" using NN_Cmp_simps(4) [of a t] less(2,4) by simp
      then show ?thesis using P True by (subst prime_search.simps) (simp add: p step search_result_def)
    next
      case False
      then have le: "nn_val a + nn_val d \<le> c" using NN_Cmp_simps(4) [of a t] less(2,4) by simp
      obtain a' j where a': "NN_Add a d = (a', j)" by fastforce
      have v: "length a' = length a" "nn_val a' = nn_val a + nn_val d"
      proof -
        note w = NN_Add_value [OF less(3) [symmetric] a']
        show "length a' = length a" by (rule w(1))
        have "nn_val a' + 2 ^ (32 * length a) * unat j < 2 ^ (32 * length a)" using w(3) le less(8) by simp
        then have "unat j = 0" by (cases "unat j") auto
        then show "nn_val a' = nn_val a + nn_val d" using w(3) by simp
      qed
      have "c - nn_val a' < c - nn_val a" using v(2) le less(5) by simp
      moreover have pre: "length t = length a'" "length d = length a'" "0 < nn_val a'" "nn_val a' \<le> c" "c < 2 ^ (32 * length a')"
        using less(2,3,6,8) le by (simp_all add: v)
      ultimately obtain r k' where
        "prime_search t d a' k1 = Some (r, k') \<and> map_sum id nn_val r = search_result (length a') (candidates (nn_val a') c (nn_val d)) \<and>
          (\<forall>p. r = Inr p \<longrightarrow> length p = length a')"
        using less(1) [OF _ pre(1,2) less(4,5) pre(3-5), of k1] by blast
      then show ?thesis using P False le
        by (subst prime_search.simps) (simp add: p step search_result_def a' v)
    qed
  qed
qed

subsection \<open>The start\<close>

text \<open>The start for a random number \<open>x\<close>, on numbers.\<close>

definition prime_start :: "nat \<Rightarrow> nat \<Rightarrow> nat \<Rightarrow> nat \<Rightarrow> nat" where
  "prime_start b c d x =
     (let a = x mod (c - b + 1) + b;
          a = a - a mod d + 1;
          a = (if a < b then a + d else a)
      in if c < a then a - d else a)"

lemma random_in_range: "b \<le> c \<Longrightarrow> x mod (c - b + 1) + b \<le> (c :: nat)"
proof -
  assume "b \<le> c"
  moreover have "x mod (c - b + 1) < c - b + 1" by (rule mod_less_divisor) simp
  ultimately show ?thesis by linarith
qed

lemma prime_start_range:
  assumes "0 < d" "d \<le> c - b"
  shows "b \<le> prime_start b c d x" "prime_start b c d x \<le> c" "prime_start b c d x mod d = 1 mod d"
proof -
  define y where "y = x mod (c - b + 1) + b"
  have y: "b \<le> y" "y \<le> c"
    using random_in_range [of b c x] assms by (simp_all add: y_def)
  have r: "y mod d < d" "y mod d \<le> y" using assms(1) by simp_all
  have m: "(y - y mod d + 1) mod d = 1 mod d" by (metis dvd_minus_mod dvd_eq_mod_eq_0 mod_add_left_eq add_0)
  define z where "z = y - y mod d + 1"
  have z: "z mod d = 1 mod d" "z \<le> c + 1" "b < z + d" using m y r by (simp_all add: z_def)
  have s: "prime_start b c d x = (if z < b then z + d else if c < z then z - d else z)"
    using assms z unfolding prime_start_def Let_def y_def [symmetric] z_def [symmetric] by auto
  show "b \<le> prime_start b c d x" "prime_start b c d x \<le> c" using assms z unfolding s by auto
  have "(z - d) mod d = 1 mod d" if "c < z"
  proof -
    have "d \<le> z" using that assms by simp
    then show ?thesis using z(1) le_mod_geq [of d z] by simp
  qed
  then show "prime_start b c d x mod d = 1 mod d" using z(1) unfolding s by auto
qed

lemma NN_Add_small:
  assumes "length b = length c" "nn_val b + nn_val c < 2 ^ (32 * length b)"
  shows "length (fst (NN_Add b c)) = length b" "nn_val (fst (NN_Add b c)) = nn_val b + nn_val c"
proof -
  obtain a k where r: "NN_Add b c = (a, k)" by force
  note v = NN_Add_value [OF assms(1) r]
  show "length (fst (NN_Add b c)) = length b" using v(1) r by simp
  have "nn_val a + 2 ^ (32 * length b) * unat k < 2 ^ (32 * length b)" using v(3) assms(2) by simp
  then have "unat k = 0" by (cases "unat k") auto
  then show "nn_val (fst (NN_Add b c)) = nn_val b + nn_val c" using v(3) r by simp
qed

lemma prime_adjust_value:
  assumes l: "length b = length a" "length c = length a" "length d = length a"
    and range: "0 < nn_val b" "0 < nn_val d" "nn_val d \<le> nn_val c - nn_val b"
    and carry: "nn_val c + 1 < 2 ^ (32 * length a) \<or> nn_val c mod nn_val d \<noteq> 0"
  shows "\<exists>s. prime_adjust a b c d = Some s \<and> length s = length a \<and>
    nn_val s = prime_start (nn_val b) (nn_val c) (nn_val d) (nn_val a)"
proof -
  define n where "n = length a"
  define M :: nat where "M = 2 ^ (32 * n)"
  have c: "nn_val c < M" using nn_val_bound [of c] l by (simp add: M_def n_def)
  have n: "0 < n" using nn_val_pos_length [OF range(2)] l by (simp add: n_def)
  define u where "u = NN_ASSIGN_DIGIT 1 n"
  have u: "length u = n" "nn_val u = 1" using nn_val_ASSIGN_DIGIT [OF n] by (simp_all add: u_def)
  define t0 where "t0 = fst (NN_Sub c b)"
  have t0: "length t0 = n" "nn_val t0 = nn_val c - nn_val b"
    using NN_Sub_no_borrow [of c b] l range by (simp_all add: t0_def n_def)
  define t where "t = fst (NN_Add t0 u)"
  have t: "length t = n" "nn_val t = nn_val c - nn_val b + 1"
    using NN_Add_small [of t0 u] t0 u c range by (simp_all add: t_def M_def)
  have tp: "0 < nn_val t" using t(2) by simp
  obtain a1 where a1: "NN_Mod a a t = Some a1" "length a1 = n" "nn_val a1 = nn_val a mod nn_val t"
    using NN_Mod_value [OF tp, of a a] t(1) by auto
  define a2 where "a2 = fst (NN_Add a1 b)"
  define y where "y = nn_val a mod (nn_val c - nn_val b + 1) + nn_val b"
  have y: "nn_val b \<le> y" "y \<le> nn_val c"
    using random_in_range [of "nn_val b" "nn_val c" "nn_val a"] range by (simp_all add: y_def)
  have a2: "length a2 = n" "nn_val a2 = y"
    using NN_Add_small [of a1 b] a1 l y c by (simp_all add: a2_def n_def M_def y_def t)
  obtain t2 where t2: "NN_Mod t a2 d = Some t2" "length t2 = n" "nn_val t2 = y mod nn_val d"
    using NN_Mod_value [OF range(2), of t a2] l a2 by (auto simp: n_def)
  define a3 where "a3 = fst (NN_Sub a2 t2)"
  have a3: "length a3 = n" "nn_val a3 = y - y mod nn_val d"
    using NN_Sub_no_borrow [of a2 t2] a2 t2 by (simp_all add: a3_def)
  define a4 where "a4 = fst (NN_Add a3 u)"
  have "y - y mod nn_val d + 1 < M"
  proof (cases "nn_val c + 1 < M")
    case False
    then have "nn_val c mod nn_val d \<noteq> 0" using carry by (simp add: M_def n_def)
    then have "y - y mod nn_val d < nn_val c" using y(2) range by (cases "y = nn_val c") (auto intro!: diff_less)
    then show ?thesis using c by simp
  qed (use y in simp)
  then have a4: "length a4 = n" "nn_val a4 = y - y mod nn_val d + 1"
    using NN_Add_small [of a3 u] a3 u by (simp_all add: a4_def M_def)
  define a5 where "a5 = (if NN_Cmp a4 b < 0 then fst (NN_Add a4 d) else a4)"
  have a5: "length a5 = n" "nn_val a5 = (if nn_val a4 < nn_val b then nn_val a4 + nn_val d else nn_val a4)"
    using NN_Cmp_simps(2) [of a4 b] NN_Add_small [of a4 d] a4(1) l c range by (simp_all add: a5_def n_def M_def)
  define a6 where "a6 = (if NN_Cmp a5 c > 0 then fst (NN_Sub a5 d) else a5)"
  have a6: "length a6 = n" "nn_val a6 = (if nn_val c < nn_val a5 then nn_val a5 - nn_val d else nn_val a5)"
    using NN_Cmp_simps(4) [of a5 c] NN_Sub_no_borrow [of a5 d] a5(1) l range by (simp_all add: a6_def n_def)
  have "prime_adjust a b c d = Some a6"
    unfolding prime_adjust_def Let_def n_def [symmetric] u_def [symmetric] t0_def [symmetric] t_def [symmetric]
    by (simp add: a1(1) t2(1) a5_def a6_def flip: a2_def a3_def a4_def)
  moreover have "nn_val a6 = prime_start (nn_val b) (nn_val c) (nn_val d) (nn_val a)"
    by (simp add: a6(2) a5(2) a4(2) prime_start_def y_def Let_def)
  ultimately show ?thesis using a6(1) by (simp add: n_def)
qed

text \<open>What the generation of a prime returns, in terms of the random number.\<close>

lemma GeneratePrime_value:
  assumes l: "length b = n" "length c = n" "length d = n"
    and range: "0 < nn_val b" "0 < nn_val d" "nn_val d \<le> nn_val c - nn_val b"
    and carry: "nn_val c + 1 < 2 ^ (32 * n) \<or> nn_val c mod nn_val d \<noteq> 0"
    and random: "R_GenerateBytes (n * 4) r = Inr (block, r')" "length block = n * 4"
  shows "\<exists>res k'. GeneratePrime b c d n r k = Some (res, r', k') \<and>
    map_sum id nn_val res = search_result n (candidates (prime_start (nn_val b) (nn_val c) (nn_val d) (bytes_val block)) (nn_val c) (nn_val d)) \<and>
    (\<forall>p. res = Inr p \<longrightarrow> length p = n)"
proof -
  note d = NN_Decode_value(1) [of n block] NN_Decode_value(2) [of block n]
  obtain s where s: "prime_adjust (NN_Decode n block) b c d = Some s" "length s = n"
    "nn_val s = prime_start (nn_val b) (nn_val c) (nn_val d) (bytes_val block)"
    using prime_adjust_value [of b "NN_Decode n block" c d] d random(2) l range carry by auto
  note R = prime_start_range [OF range(2,3), of "bytes_val block"]
  define t where "t = fst (NN_Sub (NN_Assign c n) d)"
  have a: "NN_Assign c n = c" using l by (simp add: NN_Assign_def)
  have t: "length t = n" "nn_val t + nn_val d = nn_val c"
    using NN_Sub_no_borrow [of c d] l range by (simp_all add: t_def a)
  obtain res k' where "prime_search t d s k = Some (res, k') \<and>
      map_sum id nn_val res = search_result (length s) (candidates (nn_val s) (nn_val c) (nn_val d)) \<and>
      (\<forall>p. res = Inr p \<longrightarrow> length p = length s)"
    using prime_search_value [of t s d "nn_val c" k] t s l range R nn_val_bound [of c] by auto
  then show ?thesis unfolding GeneratePrime_def random(1) using s by (simp flip: t_def)
qed

text \<open>What a search that is seeded returns.\<close>

lemma GeneratePrime_range:
  assumes l: "length b = n" "length c = n" "length d = n"
    and range: "0 < nn_val b" "0 < nn_val d" "nn_val d \<le> nn_val c - nn_val b"
    and carry: "nn_val c + 1 < 2 ^ (32 * n) \<or> nn_val c mod nn_val d \<noteq> 0"
    and random: "random_ok r" "bytesNeeded r = 0"
  shows "\<exists>res r' k'. GeneratePrime b c d n r k = Some (res, r', k') \<and> random_ok r' \<and> bytesNeeded r' = 0 \<and>
    (res = Inl RE_DATA \<or> (\<exists>p. res = Inr p \<and> length p = n \<and> nn_val b \<le> nn_val p \<and> nn_val p \<le> nn_val c \<and>
      nn_val p mod nn_val d = 1 mod nn_val d \<and> probable_prime n (nn_val p)))"
proof -
  obtain block r' where g: "R_GenerateBytes (n * 4) r = Inr (block, r')" "length block = n * 4" "random_ok r'" "bytesNeeded r' = 0"
    using R_GenerateBytes_seeded [OF random] by blast
  define s where "s = prime_start (nn_val b) (nn_val c) (nn_val d) (bytes_val block)"
  note S = prime_start_range [OF range(2,3), of "bytes_val block", folded s_def]
  obtain res k' where v: "GeneratePrime b c d n r k = Some (res, r', k')"
    "map_sum id nn_val res = search_result n (candidates s (nn_val c) (nn_val d))" "\<forall>p. res = Inr p \<longrightarrow> length p = n"
    using GeneratePrime_value [OF l range carry g(1,2), of k] by (auto simp: s_def)
  have "res = Inl RE_DATA \<or> (\<exists>p. res = Inr p \<and> length p = n \<and> nn_val b \<le> nn_val p \<and> nn_val p \<le> nn_val c \<and>
      nn_val p mod nn_val d = 1 mod nn_val d \<and> probable_prime n (nn_val p))"
  proof (cases "find (probable_prime n) (candidates s (nn_val c) (nn_val d))")
    case None
    then show ?thesis using v(2) by (cases res) (simp_all add: search_result_def)
  next
    case (Some x)
    then obtain p where p: "res = Inr p" "nn_val p = x" using v(2) by (cases res) (simp_all add: search_result_def)
    have "probable_prime n x" "x \<in> set (candidates s (nn_val c) (nn_val d))"
      using Some by (auto simp: find_Some_iff)
    then show ?thesis using p v(3) S candidates_iff [OF range(2) S(2), of x] by auto
  qed
  then show ?thesis using v(1) g by blast
qed

end
