(* ===== verification/R_Dh.thy ===== *)
theory R_Dh
  imports Prime
begin

section \<open>Diffie-Hellman key agreement (r_dh.c)\<close>

text \<open>
  Parameters, the set-up of a party and the agreed key.  The lengths of a parameter
  structure are those of its lists.  Lengths in bits are unsigned 32-bit numbers: one less
  than zero is the largest.
\<close>

record R_DH_PARAMS =
  dh_prime :: bytes
  dh_generator :: bytes

definition DH_PRIME_LEN :: "nat \<Rightarrow> nat" where
  "DH_PRIME_LEN bits = (bits + 7) div 8"

definition minus_one :: "nat \<Rightarrow> nat" where
  "minus_one n = (if n = 0 then 2 ^ 32 - 1 else n - 1)"

text \<open>The lower and the upper end of the numbers of \<open>bits\<close> bits.\<close>

definition bit_range :: "nat \<Rightarrow> nat \<Rightarrow> NN_DIGIT list \<times> NN_DIGIT list" where
  "bit_range bits pDigits =
     (let t = NN_Assign2Exp (minus_one bits) pDigits;
          u = NN_Assign t pDigits;
          v = NN_ASSIGN_DIGIT 1 pDigits;
          v = fst (NN_Sub t v);
          u = fst (NN_Add u v)
      in (t, u))"

text \<open>
  The digits are in arrays of \<open>MAX_NN_DIGITS\<close>, and nothing compares the length asked for with
  them: a prime of more than 1056 bits is written past their ends, which is the value \<open>None\<close>.
\<close>

definition R_GenerateDHParams ::
  "nat \<Rightarrow> nat \<Rightarrow> R_RANDOM_STRUCT \<Rightarrow> u32 \<Rightarrow> ((re_code + R_DH_PARAMS) \<times> R_RANDOM_STRUCT \<times> u32) option" where
  "R_GenerateDHParams primeBits subPrimeBits randomStruct DivCount =
     (let pDigits = (primeBits + NN_DIGIT_BITS - 1) div NN_DIGIT_BITS;
          (t, u) = bit_range subPrimeBits pDigits;
          v = NN_ASSIGN_DIGIT 2 pDigits
      in if MAX_NN_DIGITS < pDigits then None
      else do {
        (status, randomStruct, DivCount) \<leftarrow> GeneratePrime t u v pDigits randomStruct DivCount;
        case status of
          Inl code \<Rightarrow> Some (Inl code, randomStruct, DivCount)
        | Inr q \<Rightarrow>
            (let (t, u) = bit_range primeBits pDigits;
                 v = fst (NN_LShift v q 1)
             in do {
               (status, randomStruct, DivCount) \<leftarrow> GeneratePrime t u v pDigits randomStruct DivCount;
               case status of
                 Inl code \<Rightarrow> Some (Inl code, randomStruct, DivCount)
               | Inr p \<Rightarrow>
                   (let g = NN_ASSIGN_DIGIT 2 pDigits
                    in do {
                      (t, u) \<leftarrow> NN_Div t u p q;
                      (g, DivCount) \<leftarrow> NN_ModExp g t p DivCount;
                      Some (Inr \<lparr>dh_prime = NN_Encode (DH_PRIME_LEN primeBits) p,
                                 dh_generator = NN_Encode (DH_PRIME_LEN primeBits) g\<rparr>, randomStruct, DivCount)
                    })
             })
      })"

text \<open>The public and the private value of a party.\<close>

definition R_SetupDHAgreement ::
  "nat \<Rightarrow> R_DH_PARAMS \<Rightarrow> R_RANDOM_STRUCT \<Rightarrow> u32 \<Rightarrow> ((re_code + bytes \<times> bytes) \<times> R_RANDOM_STRUCT \<times> u32) option" where
  "R_SetupDHAgreement privateValueLen params randomStruct DivCount =
     (let p = NN_Decode MAX_NN_DIGITS (dh_prime params);
          pDigits = NN_Digits p;
          g = NN_Decode pDigits (dh_generator params)
      in case R_GenerateBytes privateValueLen randomStruct of
           Inl status \<Rightarrow> Some (Inl status, randomStruct, DivCount)
         | Inr (privateValue, randomStruct) \<Rightarrow>
             (let x = NN_Decode pDigits privateValue;
                  xDigits = NN_Digits x
              in do {
                (y, DivCount) \<leftarrow> NN_ModExp g (take xDigits x) (take pDigits p) DivCount;
                Some (Inr (NN_Encode (length (dh_prime params)) y, privateValue), randomStruct, DivCount)
              }))"

definition R_ComputeDHAgreedKey ::
  "bytes \<Rightarrow> bytes \<Rightarrow> R_DH_PARAMS \<Rightarrow> u32 \<Rightarrow> ((re_code + bytes) \<times> u32) option" where
  "R_ComputeDHAgreedKey otherPublicValue privateValue params DivCount =
     (let p = NN_Decode MAX_NN_DIGITS (dh_prime params);
          pDigits = NN_Digits p;
          x = NN_Decode pDigits privateValue;
          xDigits = NN_Digits x;
          y = NN_Decode pDigits (take (length (dh_prime params)) otherPublicValue)
      in if NN_Cmp y (take pDigits p) \<ge> 0 then Some (Inl RE_DATA, DivCount)
      else do {
        (z, DivCount) \<leftarrow> NN_ModExp y (take xDigits x) (take pDigits p) DivCount;
        Some (Inr (NN_Encode (length (dh_prime params)) z), DivCount)
      })"

subsection \<open>Exponentiation with an exponent that may be zero\<close>

lemma NN_ModExp_zero:
  assumes "0 < nn_val d" "length b = length d" "nn_val c = 0"
  shows "NN_ModExp b c d k = Some (NN_ASSIGN_DIGIT 1 (length d), k)"
proof -
  define z where "z = NN_AssignZero (length d)"
  obtain b2 where b2: "NN_ModMult z b b d = Some b2" "length b2 = length d"
    using NN_ModMult_value [OF assms(1), of b b z] by auto
  obtain b3 where "NN_ModMult z b2 b d = Some b3"
    using NN_ModMult_value [OF assms(1), of b2 b z] b2(2) assms(2) by auto
  moreover have "NN_Digits c = 0" using assms(3) by (simp add: NN_Digits_zero_iff)
  ultimately show ?thesis using b2(1) by (simp add: NN_ModExp_def Let_def flip: z_def)
qed

lemma NN_ModExp_total:
  assumes "1 < nn_val d" "length b = length d"
  shows "\<exists>a k'. NN_ModExp b c d k = Some (a, k') \<and> length a = length d \<and> nn_val a = nn_val b ^ nn_val c mod nn_val d"
proof (cases "nn_val c = 0")
  case True
  have "0 < length d" using assms(1) nn_val_pos_length [of d] by simp
  then show ?thesis using NN_ModExp_zero [of d b c k] assms True by (simp add: nn_val_ASSIGN_DIGIT)
next
  case False
  then show ?thesis using NN_ModExp_value [of d b c k] assms by auto
qed

subsection \<open>The agreement\<close>

text \<open>The number a byte string stands for among the digits of the prime.\<close>

definition dh_number :: "R_DH_PARAMS \<Rightarrow> bytes \<Rightarrow> nat" where
  "dh_number params b = nn_val (NN_Decode (NN_Digits (NN_Decode MAX_NN_DIGITS (dh_prime params))) b)"

definition dh_params_ok :: "R_DH_PARAMS \<Rightarrow> bool" where
  "dh_params_ok params \<longleftrightarrow> length (dh_prime params) \<le> 132 \<and> 1 < bytes_val (dh_prime params)"

lemma dh_modulus:
  assumes "dh_params_ok params" "p = NN_Decode MAX_NN_DIGITS (dh_prime params)" "n = NN_Digits p"
  shows "nn_val (take n p) = bytes_val (dh_prime params)" "length (take n p) = n" "1 < nn_val (take n p)"
    "bytes_val (dh_prime params) < 2 ^ (8 * length (dh_prime params))"
proof -
  have "nn_val p = bytes_val (dh_prime params)" using assms by (simp add: dh_params_ok_def NN_Decode_value)
  then show "nn_val (take n p) = bytes_val (dh_prime params)" using assms(3) by (simp add: nn_val_take_Digits)
  then show "1 < nn_val (take n p)" using assms(1) by (simp add: dh_params_ok_def)
  show "length (take n p) = n" using assms(3) NN_Digits_le [of p] by simp
  show "bytes_val (dh_prime params) < 2 ^ (8 * length (dh_prime params))" by (rule bytes_val_bound)
qed

lemma R_SetupDHAgreement_value:
  assumes ok: "dh_params_ok params" and r: "R_GenerateBytes len r = Inr (x, r')"
  shows "\<exists>y k'. R_SetupDHAgreement len params r k = Some (Inr (y, x), r', k') \<and> length y = length (dh_prime params) \<and>
    bytes_val y = dh_number params (dh_generator params) ^ dh_number params x mod bytes_val (dh_prime params)"
proof -
  define p where "p = NN_Decode MAX_NN_DIGITS (dh_prime params)"
  define n where "n = NN_Digits p"
  note m = dh_modulus [OF ok p_def n_def]
  define g where "g = NN_Decode n (dh_generator params)"
  define X where "X = NN_Decode n x"
  have v: "nn_val (take (NN_Digits X) X) = dh_number params x" "nn_val g = dh_number params (dh_generator params)" "length g = n"
    by (simp_all add: nn_val_take_Digits dh_number_def X_def g_def NN_Decode_value flip: p_def n_def)
  obtain a k' where a: "NN_ModExp g (take (NN_Digits X) X) (take n p) k = Some (a, k')" "length a = n"
    "nn_val a = dh_number params (dh_generator params) ^ dh_number params x mod bytes_val (dh_prime params)"
    using NN_ModExp_total [OF m(3), of g "take (NN_Digits X) X" k] m(1,2) v by auto
  have s: "R_SetupDHAgreement len params r k = Some (Inr (NN_Encode (length (dh_prime params)) a, x), r', k')"
    unfolding R_SetupDHAgreement_def Let_def by (simp add: r a(1) flip: p_def n_def g_def X_def)
  have "nn_val a < bytes_val (dh_prime params)" using m(1,3) a(3) by simp
  then have "nn_val a < 2 ^ (8 * length (dh_prime params))" using m(4) by simp
  then show ?thesis using s a(3) by (simp add: NN_Encode_value)
qed

lemma R_ComputeDHAgreedKey_value:
  assumes ok: "dh_params_ok params" and y: "length y = length (dh_prime params)"
  shows "\<exists>res k'. R_ComputeDHAgreedKey y x params k = Some (res, k') \<and>
    (if dh_number params y < bytes_val (dh_prime params)
     then \<exists>z. res = Inr z \<and> length z = length (dh_prime params) \<and>
       bytes_val z = dh_number params y ^ dh_number params x mod bytes_val (dh_prime params)
     else res = Inl RE_DATA)"
proof -
  define p where "p = NN_Decode MAX_NN_DIGITS (dh_prime params)"
  define n where "n = NN_Digits p"
  note m = dh_modulus [OF ok p_def n_def]
  define Y where "Y = NN_Decode n y"
  define X where "X = NN_Decode n x"
  have v: "nn_val (take (NN_Digits X) X) = dh_number params x" "nn_val Y = dh_number params y" "length Y = n"
    by (simp_all add: nn_val_take_Digits dh_number_def X_def Y_def NN_Decode_value flip: p_def n_def)
  have c: "NN_Cmp Y (take n p) \<ge> 0 \<longleftrightarrow> bytes_val (dh_prime params) \<le> dh_number params y"
    using NN_Cmp_simps(1) [of Y "take n p"] v m by simp
  obtain a k' where a: "NN_ModExp Y (take (NN_Digits X) X) (take n p) k = Some (a, k')" "length a = n"
    "nn_val a = dh_number params y ^ dh_number params x mod bytes_val (dh_prime params)"
    using NN_ModExp_total [OF m(3), of Y "take (NN_Digits X) X" k] m(1,2) v by auto
  have ty: "take (length (dh_prime params)) y = y" using y by simp
  have s: "R_ComputeDHAgreedKey y x params k =
      (if bytes_val (dh_prime params) \<le> dh_number params y then Some (Inl RE_DATA, k)
       else Some (Inr (NN_Encode (length (dh_prime params)) a), k'))"
    unfolding R_ComputeDHAgreedKey_def Let_def ty by (simp add: c a(1) flip: p_def n_def Y_def X_def)
  have "nn_val a < bytes_val (dh_prime params)" using m(1,3) a(3) by simp
  then have "nn_val a < 2 ^ (8 * length (dh_prime params))" using m(4) by simp
  then show ?thesis using s a(3) by (simp add: NN_Encode_value)
qed

text \<open>A public value stands for the same number among the digits of the prime.\<close>

lemma dh_number_small:
  assumes "dh_params_ok params" "length y = length (dh_prime params)" "bytes_val y < bytes_val (dh_prime params)"
  shows "dh_number params y = bytes_val y"
proof -
  define p where "p = NN_Decode MAX_NN_DIGITS (dh_prime params)"
  define n where "n = NN_Digits p"
  note m = dh_modulus [OF assms(1) p_def n_def]
  have "bytes_val y < 2 ^ (32 * n)" using assms(3) nn_val_bound [of "take n p"] m(1,2) by simp
  then show ?thesis by (simp add: dh_number_def NN_Decode_mod flip: p_def n_def)
qed

lemma dh_agreement:
  assumes ok: "dh_params_ok params"
    and A: "R_SetupDHAgreement lenA params rA kA = Some (Inr (yA, xA), rA', kA')"
    and B: "R_SetupDHAgreement lenB params rB kB = Some (Inr (yB, xB), rB', kB')"
  shows "\<exists>z. map_option fst (R_ComputeDHAgreedKey yB xA params k) = Some (Inr z) \<and> length z = length (dh_prime params) \<and>
    bytes_val z = dh_number params (dh_generator params) ^ (dh_number params xA * dh_number params xB) mod bytes_val (dh_prime params)"
proof -
  define P G where "P = bytes_val (dh_prime params)" and "G = dh_number params (dh_generator params)"
  have P: "1 < P" using ok by (simp add: dh_params_ok_def P_def)
  obtain x r' where "R_GenerateBytes lenB rB = Inr (x, r')"
    using B by (auto simp: R_SetupDHAgreement_def Let_def split: sum.splits)
  from R_SetupDHAgreement_value [OF ok this, of kB] B
  have y: "length yB = length (dh_prime params)" "bytes_val yB = G ^ dh_number params xB mod P" by (auto simp: P_def G_def)
  then have "bytes_val yB < P" using P by simp
  then have n: "dh_number params yB = bytes_val yB" using dh_number_small [OF ok y(1)] by (simp add: P_def)
  obtain res k' where r: "R_ComputeDHAgreedKey yB xA params k = Some (res, k')"
    "\<exists>z. res = Inr z \<and> length z = length (dh_prime params) \<and> bytes_val z = bytes_val yB ^ dh_number params xA mod P"
    using R_ComputeDHAgreedKey_value [OF ok y(1), of xA k] \<open>bytes_val yB < P\<close> by (auto simp: n P_def)
  have "bytes_val yB ^ dh_number params xA mod P = G ^ (dh_number params xA * dh_number params xB) mod P"
    unfolding y(2) by (simp add: power_mod power_mult [symmetric] mult.commute)
  then show ?thesis using r by (auto simp: P_def G_def)
qed

subsection \<open>The parameters\<close>

lemma bit_range_value:
  assumes "0 < bits" "bits \<le> 32 * n" "bit_range bits n = (t, u)"
  shows "length t = n" "length u = n" "nn_val t = 2 ^ (bits - 1)" "nn_val u = 2 ^ bits - 1"
proof -
  have t: "t = NN_Assign2Exp (bits - 1) n" using assms(1,3) by (simp add: bit_range_def minus_one_def Let_def)
  have T: "length t = n" "nn_val t = 2 ^ (bits - 1)" using assms(1,2) NN_Assign2Exp_value [of "bits - 1" n] by (simp_all add: t)
  then show "length t = n" "nn_val t = 2 ^ (bits - 1)" .
  have n: "0 < n" using assms(1,2) by simp
  define v where "v = fst (NN_Sub t (NN_ASSIGN_DIGIT 1 n))"
  have v: "length v = n" "nn_val v = 2 ^ (bits - 1) - 1"
    using NN_Sub_no_borrow [of t "NN_ASSIGN_DIGIT 1 n"] T nn_val_ASSIGN_DIGIT [OF n, of 1] by (simp_all add: v_def)
  have u: "u = fst (NN_Add t v)"
    using assms(1,3) T(1) by (auto simp: bit_range_def minus_one_def Let_def NN_Assign_def v_def)
  have two: "(2::nat) ^ bits = 2 ^ (bits - 1) + 2 ^ (bits - 1)" using assms(1) by (cases bits) simp_all
  have le: "(2::nat) ^ bits \<le> 2 ^ (32 * n)" using assms(2) by (intro power_increasing) simp_all
  have pos: "(0::nat) < 2 ^ bits" "(0::nat) < 2 ^ (bits - 1)" by simp_all
  have sum: "nn_val t + nn_val v = 2 ^ bits - 1" using T v(2) two pos by linarith
  have "nn_val t + nn_val v < 2 ^ (32 * length t)" unfolding sum T(1) using le pos by linarith
  then show "length u = n" "nn_val u = 2 ^ bits - 1" using NN_Add_small [of t v] T(1) v(1) sum by (simp_all add: u)
qed

text \<open>The parts of a generated structure: the prime, the subprime and the generator.\<close>

definition dh_generated :: "nat \<Rightarrow> nat \<Rightarrow> R_DH_PARAMS \<Rightarrow> nat \<Rightarrow> nat \<Rightarrow> bool" where
  "dh_generated P s params p q \<longleftrightarrow>
     bytes_val (dh_prime params) = p \<and> length (dh_prime params) = DH_PRIME_LEN P \<and>
     2 ^ (P - 1) \<le> p \<and> p < 2 ^ P \<and> 2 ^ (s - 1) \<le> q \<and> q < 2 ^ s \<and> p mod (2 * q) = 1 \<and>
     probable_prime ((P + 31) div 32) p \<and> probable_prime ((P + 31) div 32) q \<and>
     bytes_val (dh_generator params) = 2 ^ ((p - 1) div q) mod p"

lemma div_one_more: "p mod (2 * q) = 1 \<Longrightarrow> 1 < q \<Longrightarrow> p div q = (p - 1) div (q :: nat)"
proof -
  assume p: "p mod (2 * q) = 1" and q: "1 < q"
  obtain m where "p = 2 * q * m + 1" using p by (metis mult_div_mod_eq)
  then have "p = 1 + q * (2 * m)" by simp
  moreover have "(1 + q * (2 * m)) div q = 2 * m" by (rule div_nat_eqI) (use q in simp_all)
  moreover have "(q * (2 * m)) div q = 2 * m" using q by (intro nonzero_mult_div_cancel_left) simp
  ultimately show ?thesis by (metis add_diff_cancel_left')
qed

lemma encode_below: "nn_val p < 2 ^ P \<Longrightarrow> bytes_val (NN_Encode (DH_PRIME_LEN P) p) = nn_val p"
proof -
  assume p: "nn_val p < 2 ^ P"
  have "P \<le> 8 * DH_PRIME_LEN P" unfolding DH_PRIME_LEN_def by presburger
  then have "(2::nat) ^ P \<le> 2 ^ (8 * DH_PRIME_LEN P)" by (intro power_increasing) simp_all
  with p have "nn_val p < 2 ^ (8 * DH_PRIME_LEN P)" by (rule less_le_trans)
  then show ?thesis by (simp add: NN_Encode_value)
qed

lemma generated_dh_params:
  assumes s: "3 \<le> s" "s + 2 \<le> P" "P \<le> 1056" and r: "random_ok r" "bytesNeeded r = 0"
  shows "\<exists>res r' k'. R_GenerateDHParams P s r k = Some (res, r', k') \<and>
    (res = Inl RE_DATA \<or> (\<exists>params p q. res = Inr params \<and> dh_generated P s params p q))"
proof -
  define n where "n = (P + 32 - 1) div 32"
  have n2: "n = (P + 31) div 32" by (simp add: n_def)
  have n1: "P \<le> 32 * n" unfolding n2 by presburger
  then have "0 < n" using s by simp
  note n = n1 n2 this
  have fits: "\<not> 33 < n" using less_mult_imp_div_less [of "P + 31" 34 32] s(3) unfolding n2 by simp
  obtain t u where tu: "bit_range s n = (t, u)" by fastforce
  note T = bit_range_value [OF _ _ tu]
  define v where "v = NN_ASSIGN_DIGIT 2 n"
  have v: "length v = n" "nn_val v = 2" using nn_val_ASSIGN_DIGIT [OF n(3), of 2] by (simp_all add: v_def)
  have s2: "(4::nat) \<le> 2 ^ (s - 1)" "(2::nat) ^ s = 2 * 2 ^ (s - 1)"
  proof -
    have "(2::nat) ^ 2 \<le> 2 ^ (s - 1)" using s(1) by (intro power_increasing) simp_all
    then show "(4::nat) \<le> 2 ^ (s - 1)" by simp
    show "(2::nat) ^ s = 2 * 2 ^ (s - 1)" using s(1) by (cases s) simp_all
  qed
  have odd: "((2::nat) ^ x - 1) mod (2 * y) \<noteq> 0" if "0 < x" for x y
  proof -
    have "odd ((2::nat) ^ x - 1)" using that by simp
    then show ?thesis by (metis dvd_triv_left dvd_trans mod_0_imp_dvd)
  qed
  have lt: "length t = n" "length u = n" "length v = n" "nn_val t = 2 ^ (s - 1)" "nn_val u = 2 ^ s - 1"
    using T v(1) s n(1) by simp_all
  have le: "0 < nn_val t" "0 < nn_val v" "nn_val v \<le> nn_val u - nn_val t" "nn_val u mod nn_val v \<noteq> 0"
    using s2 s odd [of s 1] by (simp_all only: lt v) simp_all
  obtain res1 r1 k1 where 1: "GeneratePrime t u v n r k = Some (res1, r1, k1)" "random_ok r1" "bytesNeeded r1 = 0"
    "res1 = Inl RE_DATA \<or> (\<exists>q. res1 = Inr q \<and> length q = n \<and> nn_val t \<le> nn_val q \<and> nn_val q \<le> nn_val u \<and>
      nn_val q mod nn_val v = 1 mod nn_val v \<and> probable_prime n (nn_val q))"
    using GeneratePrime_range [OF lt(1-3) le(1-3) disjI2 [OF le(4)] r, of k] by blast
  show ?thesis
  proof (cases res1)
    case (Inl code)
    then show ?thesis using 1(1,4) unfolding R_GenerateDHParams_def Let_def n_def [symmetric] tu v_def [symmetric]
      using fits by auto
  next
    case (Inr q)
    have q: "length q = n" "2 ^ (s - 1) \<le> nn_val q" "nn_val q < 2 ^ s" "probable_prime n (nn_val q)"
      using 1(4) Inr T s n(1) s2 by auto
    obtain t' u' where tu': "bit_range P n = (t', u')" by fastforce
    note T' = bit_range_value [OF _ n(1) tu']
    obtain v' j where v': "NN_LShift v q 1 = (v', j)" by fastforce
    have "(2::nat) ^ (s + 1) \<le> 2 ^ (P - 1)" using s(2) by (intro power_increasing) simp_all
    then have pw: "2 * 2 ^ s \<le> (2::nat) ^ (P - 1)" "(2::nat) ^ P = 2 * 2 ^ (P - 1)"
      using s by (simp_all, cases P) simp_all
    have "(2::nat) ^ P \<le> 2 ^ (32 * n)" using n(1) by (intro power_increasing) simp_all
    then have lt: "2 * nn_val q < 2 ^ (32 * n)" using q(3) pw by linarith
    have V: "length v' = n" "nn_val v' = 2 * nn_val q"
    proof -
      note w = NN_LShift_value [OF _ v'] 
      show "length v' = n" using w(1) q(1) by simp
      have w2: "nn_val v' + 2 ^ (32 * n) * unat j = 2 * nn_val q" using w(2) q(1) by simp
      then have "unat j = 0" using lt by (cases "unat j") auto
      then show "nn_val v' = 2 * nn_val q" using w2 by simp
    qed
    have lp: "length t' = n" "length u' = n" and vp: "nn_val t' = 2 ^ (P - 1)" "nn_val u' = 2 ^ P - 1" using T' s by simp_all
    have le': "nn_val v' \<le> nn_val u' - nn_val t'" "0 < nn_val v'" "0 < nn_val t'"
      unfolding vp V(2) using q(2,3) pw s2 by linarith+
    have nz: "nn_val u' mod nn_val v' \<noteq> 0" unfolding vp V(2) using odd [of P "nn_val q"] s by simp
    obtain res2 r2 k2 where 2: "GeneratePrime t' u' v' n r1 k1 = Some (res2, r2, k2)"
      "res2 = Inl RE_DATA \<or> (\<exists>p. res2 = Inr p \<and> length p = n \<and> nn_val t' \<le> nn_val p \<and> nn_val p \<le> nn_val u' \<and>
        nn_val p mod nn_val v' = 1 mod nn_val v' \<and> probable_prime n (nn_val p))"
      using GeneratePrime_range [OF lp V(1) le'(3,2,1) disjI2 [OF nz] 1(2,3), of k1] by blast
    show ?thesis
    proof (cases res2)
      case (Inl code)
      then show ?thesis using 1(1) 2 Inr unfolding R_GenerateDHParams_def Let_def n_def [symmetric] tu v_def [symmetric]
        using fits by (auto simp: tu' v' [unfolded One_nat_def])
    next
      case inr: (Inr p)
      have p0: "length p = n" "2 ^ (P - 1) \<le> nn_val p" "nn_val p \<le> 2 ^ P - 1" "nn_val p mod (2 * nn_val q) = 1 mod (2 * nn_val q)"
        "probable_prime n (nn_val p)"
        using 2(2) unfolding inr vp V(2) by simp_all
      have "(0::nat) < 2 ^ P" by simp
      then have "nn_val p < 2 ^ P" using p0(3) by linarith
      moreover have "1 mod (2 * nn_val q) = 1" using q(2) s2 by simp
      ultimately have p: "length p = n" "2 ^ (P - 1) \<le> nn_val p" "nn_val p < 2 ^ P" "nn_val p mod (2 * nn_val q) = 1"
        "probable_prime n (nn_val p)"
        using p0 by simp_all
      have g: "length v = length p" "nn_val v = 2" using v p(1) by simp_all
      obtain a b where d: "NN_Div t' u' p q = Some (a, b)" "nn_val a = nn_val p div nn_val q"
        using NN_Div_value [of q t' u' p] q(2) s2 by auto
      have "1 < nn_val p" using p(2) pw s2 by simp
      then obtain x k3 where x: "NN_ModExp v a p k2 = Some (x, k3)" "nn_val x = 2 ^ (nn_val p div nn_val q) mod nn_val p"
        using NN_ModExp_total [of p v a k2] g d(2) by auto
      define params where "params = \<lparr>dh_prime = NN_Encode (DH_PRIME_LEN P) p, dh_generator = NN_Encode (DH_PRIME_LEN P) x\<rparr>"
      have res: "R_GenerateDHParams P s r k = Some (Inr params, r2, k3)"
        unfolding R_GenerateDHParams_def Let_def n_def [symmetric] tu v_def [symmetric]
        using fits by (simp add: 1(1) Inr tu' v' [unfolded One_nat_def] 2(1) inr d(1) x(1) params_def)
      have "nn_val x < nn_val p" using x(2) \<open>1 < nn_val p\<close> by simp
      then have "nn_val x < 2 ^ P" using p(3) by simp
      then have "dh_generated P s params (nn_val p) (nn_val q)"
        using p q s2 encode_below x(2) div_one_more [OF p(4)]
        by (simp add: dh_generated_def params_def NN_Encode_value(1) flip: n(2))
      then show ?thesis using res by blast
    qed
  qed
qed

text \<open>A longer prime overruns the arrays.\<close>

lemma overlong_dh_params: "1056 < P \<Longrightarrow> R_GenerateDHParams P s r k = None"
proof -
  assume "1056 < P"
  then have "33 < (P + 32 - 1) div 32" using less_eq_div_iff_mult_less_eq [of 32 34 "P + 32 - 1"] by simp
  then show ?thesis unfolding R_GenerateDHParams_def Let_def by (simp only: split_beta if_True)
qed

text \<open>The generator has the order of the subprime, when the prime is one.\<close>

lemma generator_order:
  assumes "dh_generated P s params p q" "is_prime p" "2 < p"
  shows "bytes_val (dh_generator params) ^ q mod p = 1"
proof -
  have m: "p mod (2 * q) = 1" and g: "bytes_val (dh_generator params) = 2 ^ ((p - 1) div q) mod p"
    using assms(1) by (simp_all add: dh_generated_def)
  have "q dvd p - 1"
    using m by (metis One_nat_def dvd_minus_mod dvd_mult_left mult.commute)
  then have "(2 ^ ((p - 1) div q)) ^ q = (2::nat) ^ (p - 1)" by (simp flip: power_mult)
  then have "bytes_val (dh_generator params) ^ q mod p = 2 ^ (p - 1) mod p" unfolding g by (simp add: power_mod)
  moreover have "\<not> p dvd 2" using assms(3) by (auto dest: dvd_imp_le)
  ultimately show ?thesis using fermat_unit [OF assms(2), of 2] by simp
qed

end
