(* ===== verification/R_Keygen.thy ===== *)
theory R_Keygen
  imports Prime Rsa
begin

section \<open>Key-pair generation (r_keygen.c)\<close>

text \<open>
  An RSA key pair of a given length and public exponent.  The loops that look for a prime
  whose predecessor is prime to the exponent need not end, and are a partial function.
\<close>

record R_RSA_PROTO_KEY =
  proto_bits :: nat
  useFermat4 :: bool

definition RelativelyPrime :: "NN_DIGIT list \<Rightarrow> NN_DIGIT list \<Rightarrow> bool option" where
  "RelativelyPrime a b =
     (let t = NN_AssignZero (length a);
          t = array_write t 0 b
      in do {
        t \<leftarrow> NN_Gcd t a;
        (let u = NN_ASSIGN_DIGIT 1 (length a) in Some (NN_EQUAL t u))
      })"

definition RSAFilter :: "NN_DIGIT list \<Rightarrow> NN_DIGIT list \<Rightarrow> bool option" where
  "RSAFilter a b =
     (let t = NN_ASSIGN_DIGIT 1 (length a);
          aMinus1 = fst (NN_Sub a t)
      in RelativelyPrime aMinus1 b)"

partial_function (option) filtered_prime ::
  "NN_DIGIT list \<Rightarrow> NN_DIGIT list \<Rightarrow> NN_DIGIT list \<Rightarrow> nat \<Rightarrow> NN_DIGIT list \<Rightarrow> R_RANDOM_STRUCT \<Rightarrow> u32
   \<Rightarrow> ((re_code + NN_DIGIT list) \<times> R_RANDOM_STRUCT \<times> u32) option" where
  "filtered_prime t u v pDigits e randomStruct DivCount = do {
     (status, randomStruct, DivCount) \<leftarrow> GeneratePrime t u v pDigits randomStruct DivCount;
     (case status of
        Inl code \<Rightarrow> Some (Inl code, randomStruct, DivCount)
      | Inr p \<Rightarrow> do {
          ok \<leftarrow> RSAFilter p e;
          if ok then Some (Inr p, randomStruct, DivCount)
          else filtered_prime t u v pDigits e randomStruct DivCount
        })
   }"

text \<open>The range of a prime of \<open>bits\<close> bits, and the step.\<close>

definition prime_range :: "nat \<Rightarrow> nat \<Rightarrow> NN_DIGIT list \<times> NN_DIGIT list \<times> NN_DIGIT list" where
  "prime_range bits pDigits =
     (let t = NN_Assign2Exp (bits - 1) pDigits;
          u = NN_Assign2Exp (bits - 2) pDigits;
          t = fst (NN_Add t u);
          v = NN_ASSIGN_DIGIT 1 pDigits;
          v = fst (NN_Sub t v);
          u = fst (NN_Add u v);
          v = NN_ASSIGN_DIGIT 2 pDigits
      in (t, u, v))"

text \<open>The fields of the key pair, from the two primes and the exponent.\<close>

definition key_fields ::
  "nat \<Rightarrow> nat \<Rightarrow> nat \<Rightarrow> NN_DIGIT list \<Rightarrow> NN_DIGIT list \<Rightarrow> NN_DIGIT list \<Rightarrow> (R_RSA_PUBLIC_KEY \<times> R_RSA_PRIVATE_KEY) option" where
  "key_fields bits nDigits pDigits e p q =
     (let (p, q) = (if NN_Cmp p q < 0 then (q, p) else (p, q));
          n = NN_Mult p q
      in do {
        qInv \<leftarrow> NN_ModInv q p;
        (let t = NN_ASSIGN_DIGIT 1 pDigits;
             pMinus1 = fst (NN_Sub p t);
             qMinus1 = fst (NN_Sub q t);
             phiN = NN_Mult pMinus1 qMinus1
         in do {
           d \<leftarrow> NN_ModInv e (take nDigits phiN);
           dP \<leftarrow> NN_Mod (NN_AssignZero pDigits) d pMinus1;
           dQ \<leftarrow> NN_Mod (NN_AssignZero pDigits) d qMinus1;
           (let modulus = NN_Encode MAX_RSA_MODULUS_LEN (take nDigits n);
                exponent = NN_Encode MAX_RSA_MODULUS_LEN (take 1 e)
            in Some (\<lparr>pub_bits = bits, pub_modulus = modulus, pub_exponent = exponent\<rparr>,
                     \<lparr>priv_bits = bits, priv_modulus = modulus, priv_publicExponent = exponent,
                      priv_exponent = NN_Encode MAX_RSA_MODULUS_LEN d,
                      priv_prime = [NN_Encode MAX_RSA_PRIME_LEN p, NN_Encode MAX_RSA_PRIME_LEN q],
                      priv_primeExponent = [NN_Encode MAX_RSA_PRIME_LEN dP, NN_Encode MAX_RSA_PRIME_LEN dQ],
                      priv_coefficient = NN_Encode MAX_RSA_PRIME_LEN qInv\<rparr>))
         })
      })"

definition R_GeneratePEMKeys ::
  "R_RSA_PROTO_KEY \<Rightarrow> R_RANDOM_STRUCT \<Rightarrow> u32
   \<Rightarrow> ((re_code + R_RSA_PUBLIC_KEY \<times> R_RSA_PRIVATE_KEY) \<times> R_RANDOM_STRUCT \<times> u32) option" where
  "R_GeneratePEMKeys protoKey randomStruct DivCount =
     (if proto_bits protoKey < MIN_RSA_MODULUS_BITS \<or> proto_bits protoKey > MAX_RSA_MODULUS_BITS
      then Some (Inl RE_MODULUS_LEN, randomStruct, DivCount)
      else
        (let nDigits = (proto_bits protoKey + NN_DIGIT_BITS - 1) div NN_DIGIT_BITS;
             pDigits = (nDigits + 1) div 2;
             pBits = (proto_bits protoKey + 1) div 2;
             qBits = proto_bits protoKey - pBits;
             e = NN_ASSIGN_DIGIT (if useFermat4 protoKey then 65537 else 3) nDigits;
             (t, u, v) = prime_range pBits pDigits
         in do {
           (status, randomStruct, DivCount) \<leftarrow> filtered_prime t u v pDigits (take 1 e) randomStruct DivCount;
           case status of
             Inl code \<Rightarrow> Some (Inl code, randomStruct, DivCount)
           | Inr p \<Rightarrow>
               (let (t, u, v) = prime_range qBits pDigits
                in do {
                  (status, randomStruct, DivCount) \<leftarrow> filtered_prime t u v pDigits (take 1 e) randomStruct DivCount;
                  case status of
                    Inl code \<Rightarrow> Some (Inl code, randomStruct, DivCount)
                  | Inr q \<Rightarrow> do {
                      keys \<leftarrow> key_fields (proto_bits protoKey) nDigits pDigits e p q;
                      Some (Inr keys, randomStruct, DivCount)
                    }
                })
         }))"

subsection \<open>The filter\<close>

lemma RelativelyPrime_value:
  assumes "length b \<le> length a" "0 < length a"
  shows "RelativelyPrime a b = Some (coprime (nn_val a) (nn_val b))"
proof -
  define t where "t = array_write (NN_AssignZero (length a)) 0 b"
  have t: "length t = length a" "nn_val t = nn_val b"
    using assms(1) by (simp_all add: t_def array_write_def NN_AssignZero_def nn_val_append drop_replicate)
  obtain g where g: "NN_Gcd t a = Some g" "length g = length a" "nn_val g = gcd (nn_val b) (nn_val a)"
    using NN_Gcd_value [of t a] t by auto
  have "NN_EQUAL g (NN_ASSIGN_DIGIT 1 (length a)) \<longleftrightarrow> nn_val g = 1"
    using g(2) NN_Cmp_simps(3) [of g "NN_ASSIGN_DIGIT 1 (length a)"] nn_val_ASSIGN_DIGIT [OF assms(2), of 1]
    by (auto simp: NN_EQUAL_def intro: nn_val_inj)
  then show ?thesis
    using g(1,3) by (simp add: RelativelyPrime_def coprime_iff_gcd_eq_1 gcd.commute flip: t_def)
qed

lemma RSAFilter_value:
  assumes "length b \<le> length a" "0 < nn_val a"
  shows "RSAFilter a b = Some (coprime (nn_val a - 1) (nn_val b))"
proof -
  have n: "0 < length a" using assms(2) by (rule nn_val_pos_length)
  have "length (fst (NN_Sub a (NN_ASSIGN_DIGIT 1 (length a)))) = length a"
    "nn_val (fst (NN_Sub a (NN_ASSIGN_DIGIT 1 (length a)))) = nn_val a - 1"
    using NN_Sub_no_borrow [of a "NN_ASSIGN_DIGIT 1 (length a)"] nn_val_ASSIGN_DIGIT [OF n, of 1] assms(2) by simp_all
  then show ?thesis using RelativelyPrime_value [of b "fst (NN_Sub a (NN_ASSIGN_DIGIT 1 (length a)))"] assms(1) n
    by (simp add: RSAFilter_def)
qed

text \<open>A prime the loop returns is in the range and passes the tests.\<close>

lemma filtered_prime_range:
  assumes "filtered_prime b c d n e r k = Some (res, r', k')"
    and l: "length b = n" "length c = n" "length d = n" "length e \<le> n"
    and range: "0 < nn_val b" "0 < nn_val d" "nn_val d \<le> nn_val c - nn_val b" "nn_val c mod nn_val d \<noteq> 0"
    and random: "random_ok r" "bytesNeeded r = 0"
  shows "random_ok r' \<and> bytesNeeded r' = 0 \<and>
    (res = Inl RE_DATA \<or> (\<exists>p. res = Inr p \<and> length p = n \<and> nn_val b \<le> nn_val p \<and> nn_val p \<le> nn_val c \<and>
      nn_val p mod nn_val d = 1 mod nn_val d \<and> probable_prime n (nn_val p) \<and> coprime (nn_val p - 1) (nn_val e)))"
  using assms
proof (induction b c d n e r k "(res, r', k')" rule: filtered_prime.raw_induct [rotated, consumes 1])
  case (1 loop b c d n e r k)
  obtain res1 r1 k1 where g: "GeneratePrime b c d n r k = Some (res1, r1, k1)" "random_ok r1" "bytesNeeded r1 = 0"
    "res1 = Inl RE_DATA \<or> (\<exists>p. res1 = Inr p \<and> length p = n \<and> nn_val b \<le> nn_val p \<and> nn_val p \<le> nn_val c \<and>
      nn_val p mod nn_val d = 1 mod nn_val d \<and> probable_prime n (nn_val p))"
    using GeneratePrime_range [of b n c d r k] 1 by auto
  show ?case
  proof (cases res1)
    case (Inl code)
    then show ?thesis using 1(2) g by auto
  next
    case (Inr p)
    have p: "length p = n" "0 < nn_val p" using g(4) Inr \<open>0 < nn_val b\<close> by auto
    then have f: "RSAFilter p e = Some (coprime (nn_val p - 1) (nn_val e))" using RSAFilter_value [of e p] \<open>length e \<le> n\<close> by simp
    show ?thesis
    proof (cases "coprime (nn_val p - 1) (nn_val e)")
      case True
      then show ?thesis using 1(2) g Inr f by auto
    next
      case False
      then have "loop b c d n e r1 k1 = Some (res, r', k')" using 1(2) g(1) Inr f by auto
      then show ?thesis using 1(1) 1(3-10) g(2,3) by blast
    qed
  qed
qed

subsection \<open>The key pair\<close>

text \<open>What is known of a generated pair, without the primality of its factors.\<close>

definition rsa_generated :: "nat \<Rightarrow> nat \<Rightarrow> R_RSA_PUBLIC_KEY \<Rightarrow> R_RSA_PRIVATE_KEY \<Rightarrow> nat \<Rightarrow> nat \<Rightarrow> nat \<Rightarrow> bool" where
  "rsa_generated bits e pub priv p q d \<longleftrightarrow>
     pub_bits pub = bits \<and> priv_bits priv = bits \<and> priv_modulus priv = pub_modulus pub \<and>
     priv_publicExponent priv = pub_exponent pub \<and>
     length (pub_modulus pub) = 128 \<and> bytes_val (pub_modulus pub) = p * q \<and>
     2 ^ (bits - 1) \<le> p * q \<and> p * q < 2 ^ bits \<and>
     length (pub_exponent pub) = 128 \<and> bytes_val (pub_exponent pub) = e \<and>
     length (priv_exponent priv) = 128 \<and> bytes_val (priv_exponent priv) = d \<and>
     map length (priv_prime priv) = [64, 64] \<and> map bytes_val (priv_prime priv) = [p, q] \<and>
     map length (priv_primeExponent priv) = [64, 64] \<and>
     map bytes_val (priv_primeExponent priv) = [d mod (p - 1), d mod (q - 1)] \<and>
     length (priv_coefficient priv) = 64 \<and>
     (coprime p q \<longrightarrow> bytes_val (priv_coefficient priv) \<le> p \<and> q * bytes_val (priv_coefficient priv) mod p = 1 mod p) \<and>
     2 < q \<and> q \<le> p \<and> coprime (p - 1) e \<and> coprime (q - 1) e \<and> e * d mod ((p - 1) * (q - 1)) = 1 \<and>
     (\<exists>n. 2 \<le> n \<and> probable_prime n p \<and> probable_prime n q)"

text \<open>With prime factors, the pair is one of those for which encryption is inverted.\<close>

lemma generated_pair:
  assumes g: "rsa_generated bits e pub priv p q d" and "is_prime p" "is_prime q" "p \<noteq> q" "0 < bits" "bits \<le> 1024"
  shows "rsa_pair pub priv p q e (d mod (p - 1)) (d mod (q - 1))"
proof -
  note G = g [unfolded rsa_generated_def]
  have c: "coprime p q" by (rule distinct_primes_coprime) fact+
  have P: "2 < q" "q < p" using G assms(4) by simp_all
  have ed: "e * d mod ((p - 1) * (q - 1)) = 1" using G by simp
  have one: "e * d mod (p - 1) = 1" "e * d mod (q - 1) = 1"
  proof -
    have "e * d mod (p - 1) = e * d mod ((p - 1) * (q - 1)) mod (p - 1)" by (simp add: mod_mod_cancel)
    then show "e * d mod (p - 1) = 1" unfolding ed using P by simp
    have "e * d mod (q - 1) = e * d mod ((p - 1) * (q - 1)) mod (q - 1)" by (simp add: mod_mod_cancel)
    then show "e * d mod (q - 1) = 1" unfolding ed using P by simp
  qed
  have pos: "0 < e" "0 < d mod (p - 1)" "0 < d mod (q - 1)"
  proof -
    show "0 < e" using one(1) by (cases e) simp_all
    show "0 < d mod (p - 1)" using one(1) by (metis gr0I mod_mult_right_eq mult_0_right mod_0 zero_neq_one)
    show "0 < d mod (q - 1)" using one(2) by (metis gr0I mod_mult_right_eq mult_0_right mod_0 zero_neq_one)
  qed
  have f: "rsa_factor p e (d mod (p - 1))" "rsa_factor q e (d mod (q - 1))"
  proof -
    have "e * (d mod (p - 1)) mod (p - 1) = 1 mod (p - 1)" "e * (d mod (q - 1)) mod (q - 1) = 1 mod (q - 1)"
      using one P by (simp_all add: mod_mult_right_eq)
    then have "distinct [p] \<and> prod_list [p] = p \<and> list_all (\<lambda>r. is_prime r \<and> e * (d mod (p - 1)) mod (r - 1) = 1 mod (r - 1)) [p]"
      "distinct [q] \<and> prod_list [q] = q \<and> list_all (\<lambda>r. is_prime r \<and> e * (d mod (q - 1)) mod (r - 1) = 1 mod (r - 1)) [q]"
      using assms(2,3) by simp_all
    then show "rsa_factor p e (d mod (p - 1))" "rsa_factor q e (d mod (q - 1))"
      unfolding rsa_factor_def using pos by blast+
  qed
  have "d mod (p - 1) \<le> p" "d mod (q - 1) \<le> p"
  proof -
    have "d mod (p - 1) < p - 1" "d mod (q - 1) < q - 1" using P by simp_all
    then show "d mod (p - 1) \<le> p" "d mod (q - 1) \<le> p" using P by linarith+
  qed
  moreover obtain x y where "priv_prime priv = [x, y]" "length x = 64" "length y = 64" "bytes_val x = p" "bytes_val y = q"
    using G by (auto simp: map_eq_Cons_conv)
  moreover obtain x y where "priv_primeExponent priv = [x, y]" "length x = 64" "length y = 64" "bytes_val x = d mod (p - 1)"
      "bytes_val y = d mod (q - 1)"
    using G by (auto simp: map_eq_Cons_conv)
  moreover have "pub_bits pub = priv_bits priv" "priv_bits priv = bits" "pub_modulus pub = priv_modulus priv"
    "length (priv_modulus priv) = 128" "bytes_val (priv_modulus priv) = p * q" "length (pub_exponent pub) = 128"
    "bytes_val (pub_exponent pub) = e" "2 ^ (bits - 1) \<le> p * q" "p * q < 2 ^ bits"
    using G by metis+
  moreover have "length (priv_coefficient priv) = 64" "bytes_val (priv_coefficient priv) \<le> p"
    "q * bytes_val (priv_coefficient priv) mod p = 1 mod p"
    using G c by metis+
  ultimately show ?thesis
    unfolding rsa_pair_def rsa_private_values_def using c f pos(2,3) P assms(5,6) by simp
qed

lemma nn_val_take_fit: "nn_val xs < 2 ^ (32 * n) \<Longrightarrow> nn_val (take n xs) = nn_val xs"
  using nn_val_take_small [of xs n] by (cases "n \<le> length xs") simp_all

lemma encode_whole: "nn_val x < 2 ^ n \<Longrightarrow> n \<le> 8 * len \<Longrightarrow> bytes_val (NN_Encode len x) = nn_val x"
  by (metis NN_Encode_value(2) less_le_trans mod_less one_le_numeral power_increasing)

lemma key_fields_value:
  assumes n: "bits \<le> 32 * nDigits" "nDigits \<le> 2 * pDigits" "bits \<le> 1024" "0 < nDigits"
    and pq: "length p = pDigits" "length q = pDigits" "2 < nn_val p" "2 < nn_val q" "nn_val p < 2 ^ 512" "nn_val q < 2 ^ 512"
    and modulus: "2 ^ (bits - 1) \<le> nn_val p * nn_val q" "nn_val p * nn_val q < 2 ^ bits"
    and e: "e = NN_ASSIGN_DIGIT x nDigits" "coprime (nn_val p - 1) (unat x)" "coprime (nn_val q - 1) (unat x)"
    and prob: "2 \<le> m" "probable_prime m (nn_val p)" "probable_prime m (nn_val q)"
    and swap: "(if NN_Cmp p q < 0 then (q, p) else (p, q)) = (p', q')" and qi: "NN_ModInv q' p' = Some qInv"
  shows "\<exists>pub priv d. key_fields bits nDigits pDigits e p q = Some (pub, priv) \<and>
    rsa_generated bits (unat x) pub priv (nn_val p') (nn_val q') d"
proof -
  have p'_def: "p' = (if NN_Cmp p q < 0 then q else p)" and q'_def: "q' = (if NN_Cmp p q < 0 then p else q)"
    using swap by (auto split: if_splits)
  define P Q where "P = nn_val p'" and "Q = nn_val q'"
  have l: "length p' = pDigits" "length q' = pDigits" using pq by (simp_all add: p'_def q'_def)
  have PQ: "Q \<le> P" "2 < Q" "P < 2 ^ 512" "P * Q < 2 ^ bits" "2 ^ (bits - 1) \<le> P * Q"
    "coprime (P - 1) (unat x)" "coprime (Q - 1) (unat x)" "probable_prime m P" "probable_prime m Q"
    using pq NN_Cmp_simps(2) [of p q] modulus e(2,3) prob by (auto simp: P_def Q_def p'_def q'_def mult.commute)
  have pd: "0 < pDigits" using n(2,4) by simp
  define t where "t = NN_ASSIGN_DIGIT 1 pDigits"
  have t: "length t = pDigits" "nn_val t = 1" using nn_val_ASSIGN_DIGIT [OF pd, of 1] by (simp_all add: t_def)
  define p1 q1 where "p1 = fst (NN_Sub p' t)" and "q1 = fst (NN_Sub q' t)"
  have p1: "length p1 = pDigits" "nn_val p1 = P - 1" and q1: "length q1 = pDigits" "nn_val q1 = Q - 1"
    using NN_Sub_no_borrow [of p' t] NN_Sub_no_borrow [of q' t] l t PQ by (simp_all add: p1_def q1_def P_def Q_def)
  define phi where "phi = take nDigits (NN_Mult p1 q1)"
  have "(P - 1) * (Q - 1) \<le> P * Q" by (intro mult_le_mono) simp_all
  also have "\<dots> < 2 ^ (32 * nDigits)" using PQ(4) n(1) by (meson less_le_trans one_le_numeral power_increasing)
  finally have phi: "length phi = nDigits" "nn_val phi = (P - 1) * (Q - 1)"
    using NN_Mult_value [of p1 q1] p1 q1 n(2) nn_val_take_fit [of "NN_Mult p1 q1" nDigits] by (simp_all add: phi_def)
  have lt: "P * Q < 2 ^ (32 * nDigits)" using PQ(4) n(1) by (meson less_le_trans one_le_numeral power_increasing)
  have N: "nn_val (take nDigits (NN_Mult p' q')) = P * Q"
    using NN_Mult_value [of p' q'] l nn_val_take_fit [of "NN_Mult p' q'" nDigits] lt by (simp add: P_def Q_def)
  have E: "length e = nDigits" "nn_val e = unat x" using nn_val_ASSIGN_DIGIT [OF n(4), of x] by (simp_all add: e(1))
  have "0 < P - 1" "0 < Q - 1" using PQ by simp_all
  have "1 < P - 1" "1 < Q - 1" using PQ(1,2) by simp_all
  then have "1 < nn_val phi" unfolding phi(2) by (rule less_1_mult)
  then have ph: "1 < nn_val phi" "0 < nn_val phi" by simp_all
  have "coprime (nn_val e) (nn_val phi)" using PQ(6,7) unfolding phi(2) E(2) by (simp add: coprime_commute)
  then obtain d where d: "NN_ModInv e phi = Some d" "length d = nDigits" "nn_val d \<le> nn_val phi"
    "nn_val d * unat x mod nn_val phi = 1"
    using NN_ModInv_value [of e phi] E phi(1) ph mod_less [OF ph(1)] by auto
  obtain dP where dP: "NN_Mod (NN_AssignZero pDigits) d p1 = Some dP" "nn_val dP = nn_val d mod (P - 1)"
    using NN_Mod_value [of p1 "NN_AssignZero pDigits" d] p1 \<open>0 < P - 1\<close> by auto
  obtain dQ where dQ: "NN_Mod (NN_AssignZero pDigits) d q1 = Some dQ" "nn_val dQ = nn_val d mod (Q - 1)"
    using NN_Mod_value [of q1 "NN_AssignZero pDigits" d] q1 \<open>0 < Q - 1\<close> by auto
  define pub where "pub = \<lparr>pub_bits = bits, pub_modulus = NN_Encode 128 (take nDigits (NN_Mult p' q')), pub_exponent = NN_Encode 128 (take 1 e)\<rparr>"
  define priv where "priv = \<lparr>priv_bits = bits, priv_modulus = NN_Encode 128 (take nDigits (NN_Mult p' q')),
      priv_publicExponent = NN_Encode 128 (take 1 e), priv_exponent = NN_Encode 128 d,
      priv_prime = [NN_Encode 64 p', NN_Encode 64 q'], priv_primeExponent = [NN_Encode 64 dP, NN_Encode 64 dQ],
      priv_coefficient = NN_Encode 64 qInv\<rparr>"
  have fields: "key_fields bits nDigits pDigits e p q = Some (pub, priv)"
    using qi d(1) dP(1) dQ(1) unfolding key_fields_def Let_def swap pub_def priv_def
    by (simp flip: t_def p1_def q1_def phi_def)
  have e1: "nn_val (take 1 e) = unat x" using E n(4) unat_digit_less [of x] nn_val_take_fit [of e 1] by simp
  have lt2: "nn_val d < 2 ^ bits" "nn_val dP < 2 ^ 512" "nn_val dQ < 2 ^ 512"
  proof -
    have "nn_val d \<le> P * Q" using d(3) \<open>(P - 1) * (Q - 1) \<le> P * Q\<close> unfolding phi(2) by simp
    then show "nn_val d < 2 ^ bits" using PQ(4) by simp
    have "nn_val dP < P - 1" "nn_val dQ < Q - 1" using dP(2) dQ(2) \<open>0 < P - 1\<close> \<open>0 < Q - 1\<close> by simp_all
    then show "nn_val dP < 2 ^ 512" "nn_val dQ < 2 ^ 512" using PQ(1,3) by simp_all
  qed
  have inv: "bytes_val (NN_Encode 64 qInv) \<le> P \<and> Q * bytes_val (NN_Encode 64 qInv) mod P = 1 mod P" if "coprime P Q"
  proof -
    have "coprime (nn_val q') (nn_val p')" using that by (simp add: P_def Q_def coprime_commute)
    then have v: "nn_val qInv \<le> P" "nn_val qInv * Q mod P = 1 mod P"
      using NN_ModInv_value [of q' p'] qi l PQ by (auto simp: P_def Q_def)
    then have "nn_val qInv < 2 ^ 512" using PQ(3) by simp
    from encode_whole [OF this, of 64] show ?thesis using v by (simp add: mult.commute)
  qed
  have x: "nn_val (take 1 e) < 2 ^ 32" "nn_val p' < 2 ^ 512" "nn_val q' < 2 ^ 512"
    "nn_val (take nDigits (NN_Mult p' q')) < 2 ^ bits"
    using e1 unat_digit_less [of x] PQ(1,3,4) N by (simp_all add: P_def Q_def)
  have enc: "bytes_val (NN_Encode 128 (take nDigits (NN_Mult p' q'))) = P * Q" "bytes_val (NN_Encode 128 (take 1 e)) = unat x"
    "bytes_val (NN_Encode 128 d) = nn_val d" "bytes_val (NN_Encode 64 p') = P" "bytes_val (NN_Encode 64 q') = Q"
    "bytes_val (NN_Encode 64 dP) = nn_val d mod (P - 1)" "bytes_val (NN_Encode 64 dQ) = nn_val d mod (Q - 1)"
    using encode_whole [OF x(4), of 128] encode_whole [OF x(1), of 128] encode_whole [OF lt2(1), of 128]
      encode_whole [OF x(2), of 64] encode_whole [OF x(3), of 64] encode_whole [OF lt2(2), of 64] encode_whole [OF lt2(3), of 64]
      n(3) N e1 dP(2) dQ(2) by (simp_all add: P_def Q_def)
  have prime_pair: "\<exists>n. 2 \<le> n \<and> probable_prime n P \<and> probable_prime n Q" using prob(1) PQ(8,9) by blast
  have ed: "unat x * nn_val d mod ((P - 1) * (Q - 1)) = 1" using d(4) by (simp add: phi(2) mult.commute)
  have "rsa_generated bits (unat x) pub priv P Q (nn_val d)"
    unfolding rsa_generated_def pub_def priv_def using PQ(1,2,4-7) inv prime_pair ed
    by (simp add: enc enc(2) [unfolded One_nat_def] NN_Encode_value(1))
  then show ?thesis using fields unfolding P_def Q_def by blast
qed

lemma prime_range_value:
  assumes "4 \<le> bits" "bits \<le> 32 * n" "prime_range bits n = (t, u, v)"
  shows "length t = n" "length u = n" "length v = n" "nn_val t = 3 * 2 ^ (bits - 2)" "nn_val u = 2 ^ bits - 1" "nn_val v = 2"
proof -
  define B :: nat where "B = 2 ^ (bits - 2)"
  obtain k where k: "bits = k + 2" using assms(1) by (metis add.commute le_Suc_ex numeral_Bit0 add_leD1)
  have two: "(2::nat) ^ (bits - 1) = 2 * B" "(2::nat) ^ bits = 4 * B" by (simp_all add: k B_def)
  have pos: "0 < B" by (simp add: B_def)
  have le: "4 * B \<le> 2 ^ (32 * n)" unfolding two(2) [symmetric] using assms(2) by (intro power_increasing) simp_all
  have n: "0 < n" using assms(1,2) by simp
  define t0 u0 where "t0 = NN_Assign2Exp (bits - 1) n" and "u0 = NN_Assign2Exp (bits - 2) n"
  have t0: "length t0 = n" "nn_val t0 = 2 * B" and u0: "length u0 = n" "nn_val u0 = B"
    using NN_Assign2Exp_value [of "bits - 1" n] NN_Assign2Exp_value [of "bits - 2" n] assms(1,2) two
    by (simp_all add: t0_def u0_def B_def)
  define t1 where "t1 = fst (NN_Add t0 u0)"
  have "nn_val t0 + nn_val u0 < 2 ^ (32 * length t0)" unfolding t0 u0 using le pos by linarith
  then have t1: "length t1 = n" "nn_val t1 = 3 * B" using NN_Add_small [of t0 u0] t0 u0 by (simp_all add: t1_def)
  define v1 where "v1 = fst (NN_Sub t1 (NN_ASSIGN_DIGIT 1 n))"
  have v1: "length v1 = n" "nn_val v1 = 3 * B - 1"
    using NN_Sub_no_borrow [of t1 "NN_ASSIGN_DIGIT 1 n"] nn_val_ASSIGN_DIGIT [OF n, of 1] t1 pos by (simp_all add: v1_def)
  have sum: "nn_val u0 + nn_val v1 = 4 * B - 1" unfolding u0 v1 using pos by linarith
  have "nn_val u0 + nn_val v1 < 2 ^ (32 * length u0)" unfolding sum u0(1) using le pos by linarith
  then have u1: "length (fst (NN_Add u0 v1)) = n" "nn_val (fst (NN_Add u0 v1)) = 4 * B - 1"
    using NN_Add_small [of u0 v1] u0 v1 sum by simp_all
  have "t = t1" "u = fst (NN_Add u0 v1)" "v = NN_ASSIGN_DIGIT 2 n"
    using assms(3) by (auto simp: prime_range_def Let_def t1_def v1_def t0_def u0_def)
  then show "length t = n" "length u = n" "length v = n" "nn_val t = 3 * 2 ^ (bits - 2)" "nn_val u = 2 ^ bits - 1" "nn_val v = 2"
    using t1 u1 nn_val_ASSIGN_DIGIT [OF n, of 2] two(2) by (simp_all add: B_def)
qed

text \<open>A prime of \<open>bits\<close> bits from the loop.\<close>

lemma filtered_prime_bits:
  assumes "4 \<le> bits" "bits \<le> 32 * n" "prime_range bits n = (t, u, v)" "length e \<le> n" "random_ok r" "bytesNeeded r = 0"
    and f: "filtered_prime t u v n e r k = Some (res, r', k')"
  shows "random_ok r' \<and> bytesNeeded r' = 0 \<and> (res = Inl RE_DATA \<or> (\<exists>p. res = Inr p \<and> length p = n \<and>
    3 * 2 ^ (bits - 2) \<le> nn_val p \<and> nn_val p < 2 ^ bits \<and> probable_prime n (nn_val p) \<and> coprime (nn_val p - 1) (nn_val e)))"
proof -
  note R = prime_range_value [OF assms(1-3)]
  define B :: nat where "B = 2 ^ (bits - 2)"
  obtain j where k: "bits = j + 2" using assms(1) by (metis add.commute le_Suc_ex numeral_Bit0 add_leD1)
  have two: "(2::nat) ^ bits = 4 * B" by (simp add: k B_def)
  have "(2::nat) ^ 2 \<le> B" unfolding B_def using assms(1) by (intro power_increasing) simp_all
  then have B: "4 \<le> B" by simp
  have val: "nn_val t = 3 * B" "nn_val u = 4 * B - 1" "nn_val v = 2" using R two by (simp_all add: B_def)
  have pre: "0 < nn_val t" "0 < nn_val v" "nn_val v \<le> nn_val u - nn_val t" unfolding val using B by linarith+
  have "4 * B - 1 = 2 * (2 * B - 1) + 1" using B by linarith
  then have odd: "nn_val u mod nn_val v \<noteq> 0" unfolding val by (metis mod_mult_self4 odd_one odd_iff_mod_2_eq_one zero_neq_one)
  have lt: "x \<le> 4 * B - 1 \<Longrightarrow> x < 4 * B" for x using B by linarith
  show ?thesis
    using filtered_prime_range [OF f R(1-3) assms(4) pre odd assms(5,6)] unfolding val two B_def [symmetric]
    by (auto dest: lt)
qed

lemma R_GeneratePEMKeys_result:
  assumes run: "R_GeneratePEMKeys proto r k = Some (res, r', k')" and r: "random_ok r" "bytesNeeded r = 0"
  shows "res = Inl RE_MODULUS_LEN \<and> (proto_bits proto < 508 \<or> 1024 < proto_bits proto) \<or>
    508 \<le> proto_bits proto \<and> proto_bits proto \<le> 1024 \<and>
      (res = Inl RE_DATA \<or> (\<exists>pub priv p q d. res = Inr (pub, priv) \<and>
        rsa_generated (proto_bits proto) (if useFermat4 proto then 65537 else 3) pub priv p q d))"
proof (cases "proto_bits proto < 508 \<or> 1024 < proto_bits proto")
  case True
  then show ?thesis using run by (simp add: R_GeneratePEMKeys_def)
next
  case False
  define bits where "bits = proto_bits proto"
  define x :: u32 where "x = (if useFermat4 proto then 65537 else 3)"
  have b: "508 \<le> bits" "bits \<le> 1024" using False by (simp_all add: bits_def)
  define nD where "nD = (bits + 32 - 1) div 32"
  define pD where "pD = (nD + 1) div 2"
  define pB where "pB = (bits + 1) div 2"
  define qB where "qB = bits - pB"
  have nd: "nD = (bits + 31) div 32" by (simp add: nD_def)
  have D: "bits \<le> 32 * nD" "nD \<le> 2 * pD"
    unfolding nd pD_def
    using div_mult_mod_eq [of "bits + 31" 32] mod_less_divisor [of 32 "bits + 31"]
      div_mult_mod_eq [of "nD + 1" 2] mod_less_divisor [of 2 "nD + 1"] by (linarith, simp add: nd)
  then have D0: "2 \<le> pD" "0 < nD" using b by linarith+
  have pq: "pB + qB = bits" "qB \<le> pB" "pB \<le> qB + 1" "pB \<le> 512" 
    using b div_mult_mod_eq [of "bits + 1" 2] mod_less_divisor [of 2 "bits + 1"] unfolding qB_def pB_def by linarith+
  have B: "4 \<le> pB" "pB \<le> 32 * pD" "4 \<le> qB" "qB \<le> 32 * pD" using pq b D by linarith+
  define e where "e = NN_ASSIGN_DIGIT x nD"
  have e1: "length (take 1 e) \<le> pD" "nn_val (take 1 e) = unat x"
    using nn_val_ASSIGN_DIGIT [OF D0(2), of x] D0 unat_digit_less [of x] nn_val_take_fit [of e 1] by (simp_all add: e_def)
  obtain t u v where p: "prime_range pB pD = (t, u, v)" by (metis prod.exhaust)
  obtain t' u' v' where q: "prime_range qB pD = (t', u', v')" by (metis prod.exhaust)
  have run': "do {
      (status, randomStruct, DivCount) \<leftarrow> filtered_prime t u v pD (take 1 e) r k;
      case status of
        Inl code \<Rightarrow> Some (Inl code, randomStruct, DivCount)
      | Inr p \<Rightarrow> do {
          (status, randomStruct, DivCount) \<leftarrow> filtered_prime t' u' v' pD (take 1 e) randomStruct DivCount;
          case status of
            Inl code \<Rightarrow> Some (Inl code, randomStruct, DivCount)
          | Inr q \<Rightarrow> do {
              keys \<leftarrow> key_fields bits nD pD e p q;
              Some (Inr keys, randomStruct, DivCount)
            }
        }
    } = Some (res, r', k')"
    using run False unfolding R_GeneratePEMKeys_def Let_def bits_def [symmetric] nD_def [symmetric] pD_def [symmetric]
      pB_def [symmetric] qB_def [symmetric] x_def [symmetric] e_def [symmetric] p q prod.case by simp
  then obtain res1 r1 k1 where f1: "filtered_prime t u v pD (take 1 e) r k = Some (res1, r1, k1)"
    by (auto split: Option.bind_splits)
  note F1 = filtered_prime_bits [OF B(1,2) p e1(1) r f1, unfolded e1(2)]
  show ?thesis
  proof (cases res1)
    case (Inl code)
    then show ?thesis using run' f1 F1 b by (auto simp: bits_def)
  next
    case P: (Inr P)
    then obtain res2 r2 k2 where f2: "filtered_prime t' u' v' pD (take 1 e) r1 k1 = Some (res2, r2, k2)"
      using run' f1 by (auto split: Option.bind_splits)
    note F2 = filtered_prime_bits [OF B(3,4) q e1(1) _ _ f2, unfolded e1(2)]
    show ?thesis
    proof (cases res2)
      case (Inl code)
      then show ?thesis using run' f1 f2 F1 F2 P b by (auto simp: bits_def)
    next
      case Q: (Inr Q)
      obtain pub priv where kf: "key_fields bits nD pD e P Q = Some (pub, priv)" and res: "res = Inr (pub, priv)"
        using run' f1 f2 P Q by (auto split: Option.bind_splits)
      have p: "length P = pD" "3 * 2 ^ (pB - 2) \<le> nn_val P" "nn_val P < 2 ^ pB" "probable_prime pD (nn_val P)" "coprime (nn_val P - 1) (unat x)"
        using F1 P by auto
      have q: "length Q = pD" "3 * 2 ^ (qB - 2) \<le> nn_val Q" "nn_val Q < 2 ^ qB" "probable_prime pD (nn_val Q)" "coprime (nn_val Q - 1) (unat x)"
        using F1 F2 P Q by auto
      have "(2::nat) ^ pB \<le> 2 ^ 512" "(2::nat) ^ qB \<le> 2 ^ 512" using pq by (intro power_increasing; simp)+
      then have small: "nn_val P < 2 ^ 512" "nn_val Q < 2 ^ 512" using p(3) q(3) by linarith+
      have "(2::nat) ^ 1 \<le> 2 ^ (pB - 2)" "(2::nat) ^ 1 \<le> 2 ^ (qB - 2)" using B by (intro power_increasing; simp)+
      then have "2 \<le> (2::nat) ^ (pB - 2)" "2 \<le> (2::nat) ^ (qB - 2)" by simp_all
      then have big: "2 < nn_val P" "2 < nn_val Q" using p(2) q(2) by linarith+
      have "(2::nat) ^ (bits - 1) = 8 * (2 ^ (pB - 2) * 2 ^ (qB - 2))"
      proof -
        have "bits - 1 = 3 + ((pB - 2) + (qB - 2))" using pq B by linarith
        then show ?thesis by (simp add: power_add)
      qed
      also have "\<dots> \<le> (3 * 2 ^ (pB - 2)) * (3 * 2 ^ (qB - 2))" by simp
      also have "\<dots> \<le> nn_val P * nn_val Q" using p(2) q(2) by (rule mult_le_mono)
      finally have lo: "2 ^ (bits - 1) \<le> nn_val P * nn_val Q" .
      have "nn_val P * nn_val Q < 2 ^ pB * 2 ^ qB" using p(3) q(3) by (intro mult_strict_mono) simp_all
      then have hi: "nn_val P * nn_val Q < 2 ^ bits" using pq(1) by (simp flip: power_add)
      obtain p' q' qInv where sw: "(if NN_Cmp P Q < 0 then (Q, P) else (P, Q)) = (p', q')" and qi: "NN_ModInv q' p' = Some qInv"
        using kf unfolding key_fields_def Let_def
        by (cases "if NN_Cmp P Q < 0 then (Q, P) else (P, Q)") (auto split: Option.bind_splits)
      obtain p q d where "rsa_generated bits (unat x) pub priv p q d"
        using key_fields_value [OF D b(2) D0(2) p(1) q(1) big small lo hi e_def p(5) q(5) D0(1) p(4) q(4) sw qi] kf by auto
      then have "rsa_generated bits (if useFermat4 proto then 65537 else 3) pub priv p q d" by (simp add: x_def split: if_splits)
      then show ?thesis using res b unfolding bits_def by blast
    qed
  qed
qed

subsection \<open>The pair of two primes\<close>

text \<open>From two different primes the fields are computed, and make a pair that inverts.\<close>

lemma key_fields_pair:
  assumes n: "bits \<le> 32 * nDigits" "nDigits \<le> 2 * pDigits" "bits \<le> 1024" "0 < nDigits"
    and pq: "length p = pDigits" "length q = pDigits" "2 < nn_val p" "2 < nn_val q" "nn_val p < 2 ^ 512" "nn_val q < 2 ^ 512"
    and modulus: "2 ^ (bits - 1) \<le> nn_val p * nn_val q" "nn_val p * nn_val q < 2 ^ bits"
    and e: "e = NN_ASSIGN_DIGIT x nDigits" "coprime (nn_val p - 1) (unat x)" "coprime (nn_val q - 1) (unat x)"
    and primes: "is_prime (nn_val p)" "is_prime (nn_val q)" "nn_val p \<noteq> nn_val q" "11 < nn_val p" "11 < nn_val q"
  shows "\<exists>pub priv d. key_fields bits nDigits pDigits e p q = Some (pub, priv) \<and>
    rsa_pair pub priv (max (nn_val p) (nn_val q)) (min (nn_val p) (nn_val q)) (unat x)
      (d mod (max (nn_val p) (nn_val q) - 1)) (d mod (min (nn_val p) (nn_val q) - 1)) \<and>
    unat x * d mod ((nn_val p - 1) * (nn_val q - 1)) = 1"
proof -
  have prob: "probable_prime 2 (nn_val p)" "probable_prime 2 (nn_val q)"
    using primes by (auto intro!: prime_probable)
  have bits: "0 < bits"
  proof (rule ccontr)
    assume "\<not> 0 < bits"
    then have "nn_val p * nn_val q < 1" using modulus(2) by simp
    then show False using pq(3,4) by simp
  qed
  define p' q' where "p' = (if NN_Cmp p q < 0 then q else p)" and "q' = (if NN_Cmp p q < 0 then p else q)"
  have swap: "(if NN_Cmp p q < 0 then (q, p) else (p, q)) = (p', q')" by (simp add: p'_def q'_def)
  have v: "nn_val p' = max (nn_val p) (nn_val q)" "nn_val q' = min (nn_val p) (nn_val q)"
    "length p' = length q'" "is_prime (nn_val p')" "is_prime (nn_val q')" "nn_val p' \<noteq> nn_val q'"
    "(nn_val p' - 1) * (nn_val q' - 1) = (nn_val p - 1) * (nn_val q - 1)" "0 < nn_val p'"
    using NN_Cmp_simps(2) [of p q] pq primes by (auto simp: p'_def q'_def)
  have "coprime (nn_val q') (nn_val p')" by (rule distinct_primes_coprime) (use v in simp_all)
  then obtain qInv where "NN_ModInv q' p' = Some qInv" using NN_ModInv_value [of q' p'] v(3,8) by auto
  from key_fields_value [OF n pq modulus e _ prob swap this]
  obtain pub priv d where k: "key_fields bits nDigits pDigits e p q = Some (pub, priv)"
    and g: "rsa_generated bits (unat x) pub priv (nn_val p') (nn_val q') d" by auto
  have "rsa_pair pub priv (nn_val p') (nn_val q') (unat x) (d mod (nn_val p' - 1)) (d mod (nn_val q' - 1))"
    by (rule generated_pair [OF g]) (use v n bits in simp_all)
  moreover have "unat x * d mod ((nn_val p - 1) * (nn_val q - 1)) = 1"
    using g v(7) by (simp add: rsa_generated_def)
  ultimately show ?thesis using k v(1,2) by auto
qed

end
