(* ===== verification/Keys_Properties.thy ===== *)
theory Keys_Properties
  imports R_Dh R_Keygen Rsa_Properties
begin

section \<open>Primes, agreed keys and generated keys\<close>

text \<open>
  The properties of the search for primes, of the Diffie-Hellman agreement and of the
  generation of RSA key pairs, with small numbers at which they are applied.
\<close>

subsection \<open>Primes\<close>

text \<open>
  C39: The search for a prime returns: the first number, from the adjusted random start to
  the upper end c in steps of d, that passes the tests, or RE_DATA when there is none. This
  holds for a lower end b and a step d that are not zero, with d no longer than the range, d
  <= c - b, and an upper end from which adding one does not wrap or that d does not divide;
  with a longer step the start or the bound c - d of the search may leave the range.
\<close>

theorem GeneratePrime_first:
  assumes "length b = n" "length c = n" "length d = n" "0 < nn_val b" "0 < nn_val d" "nn_val d \<le> nn_val c - nn_val b"
    "nn_val c + 1 < 2 ^ (32 * n) \<or> nn_val c mod nn_val d \<noteq> 0" "R_GenerateBytes (n * 4) r = Inr (block, r')" "length block = n * 4"
  shows "\<exists>res k'. GeneratePrime b c d n r k = Some (res, r', k') \<and>
    map_sum id nn_val res =
      (case find (probable_prime n) (candidates (prime_start (nn_val b) (nn_val c) (nn_val d) (bytes_val block)) (nn_val c) (nn_val d)) of
         Some p \<Rightarrow> Inr p | None \<Rightarrow> Inl RE_DATA)"
  using GeneratePrime_value [OF assms, of k] unfolding search_result_def by blast

theorem GeneratePrime_first_witness:
  "\<exists>res k'. GeneratePrime [1024] [2047] [2] 1 seeded_random 0 = Some (res, seeded_random\<lparr>outputAvailable := 12\<rparr>, k') \<and>
    map_sum id nn_val res =
      (case find (probable_prime 1) (candidates (prime_start (nn_val [1024]) (nn_val [2047]) (nn_val [2]) (bytes_val [7, 7, 7, 7]))
          (nn_val [2047]) (nn_val [2])) of
         Some p \<Rightarrow> Inr p | None \<Rightarrow> Inl RE_DATA)"
proof (rule GeneratePrime_first)
  show "R_GenerateBytes (1 * 4) seeded_random = Inr ([7, 7, 7, 7], seeded_random\<lparr>outputAvailable := 12\<rparr>)"
    by (simp add: R_GenerateBytes_def generate_loop_short seeded_random_def numeral_eq_Suc)
qed simp_all

theorem primes_pass:
  assumes "is_prime (nn_val a)" "nn_val a \<noteq> 2" "length a = 1 \<or> 11 < nn_val a"
  shows "map_option fst (ProbablePrime a k) = Some True"
proof -
  have "0 < nn_val a" using assms(1) by (simp add: is_prime_def)
  moreover have "probable_prime (length a) (nn_val a)" using assms by (intro prime_probable) auto
  ultimately show ?thesis using ProbablePrime_value [of a k] by simp
qed

theorem primes_pass_witness: "map_option fst (ProbablePrime [13, 0] 0) = Some True"
  by (rule primes_pass) (simp_all add: is_prime_small)

subsection \<open>Diffie-Hellman\<close>

text \<open>
  Both parties that set up a key agreement with the same parameters compute the same
  key, the generator to the product of the private values modulo the prime; neither is
  rejected.
\<close>

theorem DH_agreement:
  assumes "dh_params_ok params"
    "R_SetupDHAgreement lenA params rA kA = Some (Inr (yA, xA), rA', kA')"
    "R_SetupDHAgreement lenB params rB kB = Some (Inr (yB, xB), rB', kB')"
  shows "\<exists>z. map_option fst (R_ComputeDHAgreedKey yB xA params k) = Some (Inr z) \<and>
    map_option fst (R_ComputeDHAgreedKey yA xB params k') = Some (Inr z) \<and> length z = length (dh_prime params) \<and>
    bytes_val z = dh_number params (dh_generator params) ^ (dh_number params xA * dh_number params xB) mod bytes_val (dh_prime params)"
proof -
  obtain z where z: "map_option fst (R_ComputeDHAgreedKey yB xA params k) = Some (Inr z)" "length z = length (dh_prime params)"
    "bytes_val z = dh_number params (dh_generator params) ^ (dh_number params xA * dh_number params xB) mod bytes_val (dh_prime params)"
    using dh_agreement [OF assms] by blast
  obtain z' where z': "map_option fst (R_ComputeDHAgreedKey yA xB params k') = Some (Inr z')" "length z' = length (dh_prime params)"
    "bytes_val z' = dh_number params (dh_generator params) ^ (dh_number params xB * dh_number params xA) mod bytes_val (dh_prime params)"
    using dh_agreement [OF assms(1,3,2)] by blast
  have "z = z'" using z z' by (intro bytes_val_inj) (simp_all add: mult.commute)
  then show ?thesis using z z' by blast
qed

definition sample_dh :: R_DH_PARAMS where
  "sample_dh = \<lparr>dh_prime = [0, 251], dh_generator = [6]\<rparr>"

theorem DH_agreement_witness:
  "\<exists>yA yB kA kB z. R_SetupDHAgreement 2 sample_dh seeded_random 0 = Some (Inr (yA, [7, 7]), seeded_random\<lparr>outputAvailable := 14\<rparr>, kA) \<and>
    R_SetupDHAgreement 1 sample_dh seeded_random 0 = Some (Inr (yB, [7]), seeded_random\<lparr>outputAvailable := 15\<rparr>, kB) \<and>
    map_option fst (R_ComputeDHAgreedKey yB [7, 7] sample_dh 0) = Some (Inr z) \<and>
    map_option fst (R_ComputeDHAgreedKey yA [7] sample_dh 0) = Some (Inr z)"
proof -
  have ok: "dh_params_ok sample_dh" by (simp add: dh_params_ok_def sample_dh_def bytes_val_def)
  have g: "R_GenerateBytes 2 seeded_random = Inr ([7, 7], seeded_random\<lparr>outputAvailable := 14\<rparr>)"
    "R_GenerateBytes 1 seeded_random = Inr ([7], seeded_random\<lparr>outputAvailable := 15\<rparr>)"
    by (simp_all add: R_GenerateBytes_def generate_loop_short seeded_random_def numeral_eq_Suc)
  obtain yA kA where A: "R_SetupDHAgreement 2 sample_dh seeded_random 0 = Some (Inr (yA, [7, 7]), seeded_random\<lparr>outputAvailable := 14\<rparr>, kA)"
    using R_SetupDHAgreement_value [OF ok g(1), of 0] by blast
  obtain yB kB where B: "R_SetupDHAgreement 1 sample_dh seeded_random 0 = Some (Inr (yB, [7]), seeded_random\<lparr>outputAvailable := 15\<rparr>, kB)"
    using R_SetupDHAgreement_value [OF ok g(2), of 0] by blast
  show ?thesis using DH_agreement [OF ok A B, of 0 0] A B by blast
qed

text \<open>
  C40: Asked for a prime of P bits and a subprime of s bits, where 3 <= s, s + 2 <= P and P
  <= 1056, the size of the digit arrays, the generation of Diffie-Hellman parameters from a
  seeded random structure returns RE_DATA or a probable prime of exactly P bits, one more
  than a multiple of twice a probable subprime of s bits, and an element whose power by the
  subprime is one when the prime is one.
\<close>

theorem DH_parameters:
  assumes "3 \<le> s" "s + 2 \<le> P" "P \<le> 1056" "random_ok r" "bytesNeeded r = 0"
  shows "\<exists>res r' k'. R_GenerateDHParams P s r k = Some (res, r', k') \<and>
    (res = Inl RE_DATA \<or> (\<exists>params p q. res = Inr params \<and> dh_generated P s params p q \<and>
      (is_prime p \<longrightarrow> bytes_val (dh_generator params) ^ q mod p = 1)))"
proof -
  have "2 < p" if "dh_generated P s params p q" for params p q
  proof -
    have "(2::nat) ^ 2 \<le> 2 ^ (P - 1)" using assms(1,2) by (intro power_increasing) simp_all
    then show ?thesis using that by (simp add: dh_generated_def)
  qed
  then show ?thesis using generated_dh_params [OF assms, of k] generator_order by blast
qed

theorem DH_parameters_witness:
  "\<exists>res r' k'. R_GenerateDHParams 12 4 seeded_random 0 = Some (res, r', k') \<and>
    (res = Inl RE_DATA \<or> (\<exists>params p q. res = Inr params \<and> dh_generated 12 4 params p q \<and>
      (is_prime p \<longrightarrow> bytes_val (dh_generator params) ^ q mod p = 1)))"
  by (rule DH_parameters) (simp_all add: random_ok_def seeded_random_def)

subsection \<open>RSA key pairs\<close>

text \<open>
  C38: From two different primes whose predecessors are prime to the exponent the fields of
  a key pair are computed, and the pair is one for which decryption inverts encryption.
\<close>

theorem RSA_key_pair:
  assumes "bits \<le> 32 * nDigits" "nDigits \<le> 2 * pDigits" "bits \<le> 1024" "0 < nDigits"
    "length p = pDigits" "length q = pDigits" "2 < nn_val p" "2 < nn_val q" "nn_val p < 2 ^ 512" "nn_val q < 2 ^ 512"
    "2 ^ (bits - 1) \<le> nn_val p * nn_val q" "nn_val p * nn_val q < 2 ^ bits"
    "e = NN_ASSIGN_DIGIT x nDigits" "coprime (nn_val p - 1) (unat x)" "coprime (nn_val q - 1) (unat x)"
    "is_prime (nn_val p)" "is_prime (nn_val q)" "nn_val p \<noteq> nn_val q" "11 < nn_val p" "11 < nn_val q"
  shows "\<exists>pub priv d. key_fields bits nDigits pDigits e p q = Some (pub, priv) \<and>
    rsa_pair pub priv (max (nn_val p) (nn_val q)) (min (nn_val p) (nn_val q)) (unat x)
      (d mod (max (nn_val p) (nn_val q) - 1)) (d mod (min (nn_val p) (nn_val q) - 1)) \<and>
    unat x * d mod ((nn_val p - 1) * (nn_val q - 1)) = 1"
  by (rule key_fields_pair [OF assms])

theorem RSA_key_pair_witness:
  "\<exists>pub priv d. key_fields 9 1 1 (NN_ASSIGN_DIGIT 3 1) [17] [23] = Some (pub, priv) \<and>
    rsa_pair pub priv (max (nn_val [17]) (nn_val [23])) (min (nn_val [17]) (nn_val [23])) (unat (3 :: u32))
      (d mod (max (nn_val [17]) (nn_val [23]) - 1)) (d mod (min (nn_val [17]) (nn_val [23]) - 1)) \<and>
    unat (3 :: u32) * d mod ((nn_val [17] - 1) * (nn_val [23] - 1)) = 1"
proof (rule RSA_key_pair)
  show "coprime (nn_val [17] - 1) (unat (3 :: u32))" "coprime (nn_val [23] - 1) (unat (3 :: u32))"
    by (simp_all add: coprime_commute inverse_coprime [of 16 1 3] inverse_coprime [of 22 1 3])
qed (simp_all add: is_prime_small)

theorem RSA_keys_generated:
  assumes "R_GeneratePEMKeys proto r k = Some (res, r', k')" "random_ok r" "bytesNeeded r = 0"
  shows "res = Inl RE_MODULUS_LEN \<and> (proto_bits proto < 508 \<or> 1024 < proto_bits proto) \<or>
    508 \<le> proto_bits proto \<and> proto_bits proto \<le> 1024 \<and>
      (res = Inl RE_DATA \<or> (\<exists>pub priv p q d. res = Inr (pub, priv) \<and>
        rsa_generated (proto_bits proto) (if useFermat4 proto then 65537 else 3) pub priv p q d))"
  by (rule R_GeneratePEMKeys_result [OF assms])

theorem RSA_keys_generated_witness:
  "(Inl RE_MODULUS_LEN :: re_code + R_RSA_PUBLIC_KEY \<times> R_RSA_PRIVATE_KEY) = Inl RE_MODULUS_LEN \<and> ((507::nat) < 508 \<or> 1024 < (507::nat))"
  using RSA_keys_generated [of "\<lparr>proto_bits = 507, useFermat4 = True\<rparr>" seeded_random 0 "Inl RE_MODULUS_LEN" seeded_random 0]
  by (simp add: R_GeneratePEMKeys_def random_ok_def seeded_random_def)

end
