(* ===== verification/R_Stdlib.thy ===== *)
theory R_Stdlib
  imports Block_Hash
begin

section \<open>Memory routines (r_stdlib.c)\<close>

text \<open>
  The three routines on blocks of bytes.  The other theories write their calls as the list
  operations that the lemmas here show them to be.
\<close>

definition R_memset :: "bytes \<Rightarrow> int \<Rightarrow> nat \<Rightarrow> bytes" where
  "R_memset out val len = (if len \<noteq> 0 then replicate len (of_int val) @ drop len out else out)"

definition R_memcpy :: "bytes \<Rightarrow> bytes \<Rightarrow> nat \<Rightarrow> bytes" where
  "R_memcpy out input len = (if len \<noteq> 0 then take len input @ drop len out else out)"

text \<open>The sign of the first difference, as the C standard gives it.\<close>

fun memcmp :: "bytes \<Rightarrow> bytes \<Rightarrow> nat \<Rightarrow> int" where
  "memcmp (x # xs) (y # ys) (Suc n) = (if x < y then - 1 else if y < x then 1 else memcmp xs ys n)"
| "memcmp _ _ _ = 0"

definition R_memcmp :: "bytes \<Rightarrow> bytes \<Rightarrow> nat \<Rightarrow> int" where
  "R_memcmp firstBlock secondBlock len = (if len \<noteq> 0 then memcmp firstBlock secondBlock len else 0)"

lemma R_memset_array_write: "R_memset out val len = array_write out 0 (replicate len (of_int val))"
  by (simp add: R_memset_def array_write_def)

lemma R_memcpy_array_write: "len \<le> length input \<Longrightarrow> R_memcpy out input len = array_write out 0 (take len input)"
  by (simp add: R_memcpy_def array_write_def)

lemma memcmp_zero:
  "n \<le> length xs \<Longrightarrow> n \<le> length ys \<Longrightarrow> memcmp xs ys n = 0 \<longleftrightarrow> take n xs = take n ys"
  by (induction xs ys n rule: memcmp.induct) auto

lemma R_memcmp_zero:
  "n \<le> length xs \<Longrightarrow> n \<le> length ys \<Longrightarrow> R_memcmp xs ys n = 0 \<longleftrightarrow> take n xs = take n ys"
  by (simp add: R_memcmp_def memcmp_zero)

end
