(* ===== verification/Rdemo_Console.thy ===== *)
theory Rdemo_Console
  imports R_Sign R_Envelope R_Keygen
begin

section \<open>The console and the files of the demonstration program (rdemo/rdemo.c)\<close>

text \<open>
  The program asks on the console for commands, keys and file names, and reads and writes
  files.  The state of the console is what is still to be typed, what has been printed, the files, and the
  variables of the program: the silent option, the third key pair, the random structure and
  the step counter of the library.  At the end of the input \<open>fgets\<close> leaves the buffer as it is,
  so that the program works on indeterminate or old contents: the model stops there with
  \<open>End_Of_Input\<close>, as it does at the accesses through a pointer that was never set and behind the
  end of an array.  Errors of the medium while an open file is read or written are left out, and
  what is written is in the file at once, which buffering changes for a file that is open under
  its name twice.
\<close>

datatype rdemo_stop = End_Of_Input | Wild_Read | Wild_Write

datatype printed = Text string | Data bytes

record console =
  r_in :: string
  r_out :: "printed list"
  r_files :: "string \<Rightarrow> bytes option"
  SILENT_PROMPT :: bool

record rdemo = console +
  PUBLIC_KEY3 :: R_RSA_PUBLIC_KEY
  PRIVATE_KEY3 :: R_RSA_PRIVATE_KEY
  KEYPAIR3_READY :: bool
  r_random :: R_RANDOM_STRUCT
  r_divs :: u32

text \<open>
  What the surroundings decide: which names can be opened for writing, and what the local
  variables hold that the program does not set.
\<close>

record rdemo_env =
  e_writable :: "string \<Rightarrow> bool"
  e_signature :: R_SIGNATURE_CTX
  e_envelope :: R_ENVELOPE_CTX
  e_byte :: "nat \<Rightarrow> u8"
  e_iv :: bytes
  e_key_size :: int

subsection \<open>Printing\<close>

definition NL :: char where "NL = CHR 0x0A"
definition CR :: char where "CR = CHR 0x0D"
definition NUL :: char where "NUL = CHR 0x00"

definition put :: "string \<Rightarrow> 'a console_scheme \<Rightarrow> 'a console_scheme" where
  "put text s = s\<lparr>r_out := r_out s @ [Text text]\<rparr>"

definition PrintMessage :: "string \<Rightarrow> 'a console_scheme \<Rightarrow> 'a console_scheme" where
  "PrintMessage message s = (if \<not> SILENT_PROMPT s then put (message @ [NL]) s else s)"

definition hex_char :: "nat \<Rightarrow> char" where
  "hex_char d = ''0123456789abcdef'' ! d"

text \<open>The formats \<open>0x%hhx\<close>, \<open>%02x\<close> and \<open>0x%04x\<close>, the last for the codes of rsaref.h.\<close>

definition hex_byte :: "u8 \<Rightarrow> string" where
  "hex_byte b = (if b < 16 then [hex_char (unat b)] else [hex_char (unat b div 16), hex_char (unat b mod 16)])"

definition hex_byte2 :: "u8 \<Rightarrow> string" where
  "hex_byte2 b = [hex_char (unat b div 16), hex_char (unat b mod 16)]"

fun re_number :: "re_code \<Rightarrow> nat" where
  "re_number RE_CONTENT_ENCODING = 0x400"
| "re_number RE_DATA = 0x401"
| "re_number RE_DIGEST_ALGORITHM = 0x402"
| "re_number RE_ENCODING = 0x403"
| "re_number RE_KEY = 0x404"
| "re_number RE_KEY_ENCODING = 0x405"
| "re_number RE_LEN = 0x406"
| "re_number RE_MODULUS_LEN = 0x407"
| "re_number RE_NEED_RANDOM = 0x408"
| "re_number RE_PRIVATE_KEY = 0x409"
| "re_number RE_PUBLIC_KEY = 0x40a"
| "re_number RE_SIGNATURE = 0x40b"
| "re_number RE_SIGNATURE_ENCODING = 0x40c"
| "re_number RE_ENCRYPTION_ALGORITHM = 0x40d"

definition hex_code :: "nat \<Rightarrow> string" where
  "hex_code n = map (\<lambda>k. hex_char (n div 16 ^ k mod 16)) [3, 2, 1, 0]"

definition type_string :: "re_code \<Rightarrow> string" where
  "type_string code = (case code of
     RE_KEY \<Rightarrow> ''Recovered DES key cannot decrypt encrypted content''
   | RE_LEN \<Rightarrow> ''Encrypted key length or signature length is out of range''
   | RE_MODULUS_LEN \<Rightarrow> ''Modulus length is out of range''
   | RE_PRIVATE_KEY \<Rightarrow> ''Private key cannot encrypt message digest, or cannot decrypt encrypted key''
   | RE_PUBLIC_KEY \<Rightarrow> ''Public key cannot encrypt data encryption key, or cannot decrypt signature''
   | RE_SIGNATURE \<Rightarrow> ''Signature is incorrect''
   | _ \<Rightarrow> ''Code 0x'' @ hex_code (re_number code))"

definition PrintError :: "string \<Rightarrow> re_code option \<Rightarrow> 'a console_scheme \<Rightarrow> 'a console_scheme" where
  "PrintError task type s =
     (case type of
        None \<Rightarrow> put (task @ [NL]) s
      | Some code \<Rightarrow> put (''ERROR: '' @ type_string code @ '' while '' @ task @ [NL]) s)"

definition PrintLength :: "bytes \<Rightarrow> rdemo \<Rightarrow> rdemo" where
  "PrintLength string s =
     put (concat (map (\<lambda>b. ''0x'' @ hex_byte b @ '', '') (butlast string)) @ ''0x'' @ hex_byte (last string) @ [NL]) s"

subsection \<open>Asking\<close>

text \<open>\<open>fgets\<close> takes up to \<open>n\<close> characters and stops behind a line feed.\<close>

fun fgets :: "nat \<Rightarrow> string \<Rightarrow> string \<times> string" where
  "fgets 0 s = ([], s)"
| "fgets (Suc n) [] = ([], [])"
| "fgets (Suc n) (c # s) = (if c = NL then ([c], s) else (case fgets n s of (l, rest) \<Rightarrow> (c # l, rest)))"

definition GetCommand :: "nat \<Rightarrow> string \<Rightarrow> 'a console_scheme \<Rightarrow> rdemo_stop + string \<times> 'a console_scheme" where
  "GetCommand maxCommandSize prompt s =
     (let s = (if \<not> SILENT_PROMPT s then put (prompt @ [NL]) s else s)
      in if r_in s = [] then Inl End_Of_Input
         else case fgets (maxCommandSize - 1) (r_in s) of
                (command, rest) \<Rightarrow> Inr (takeWhile (\<lambda>c. c \<noteq> NUL \<and> c \<noteq> NL \<and> c \<noteq> CR) command, s\<lparr>r_in := rest\<rparr>))"

text \<open>The program's own \<open>GetCommand\<close> prints its prompt with this text behind it.\<close>

definition blank_to_cancel :: "string \<Rightarrow> string" where
  "blank_to_cancel prompt = prompt @ '' (blank to cancel): ''"

text \<open>
  Every question is a loop around \<open>GetCommand\<close>, on a buffer of 80 characters for a command and
  256 for a file name, whose switch cancels, answers, or goes round again, with or without a
  message.
\<close>

datatype 'a reply = Cancelled | Answer 'a | Again "string option"

lemma fgets_no_longer: "length (snd (fgets n l)) \<le> length l"
  by (induction n l rule: fgets.induct) (auto split: prod.split)

lemma fgets_shorter: "0 < n \<Longrightarrow> l \<noteq> [] \<Longrightarrow> length (snd (fgets n l)) < length l"
  using fgets_no_longer [of "n - 1" "tl l"] by (cases n; cases l) (auto split: prod.split)

lemma put_simps [simp]:
  "r_in (put t s) = r_in s" "r_files (put t s) = r_files s" "SILENT_PROMPT (put t s) = SILENT_PROMPT s"
  "r_out (put t s) = r_out s @ [Text t]"
  by (simp_all add: put_def)

lemma put_rdemo_simps [simp]:
  "PUBLIC_KEY3 (put t s) = PUBLIC_KEY3 s" "PRIVATE_KEY3 (put t s) = PRIVATE_KEY3 s" "KEYPAIR3_READY (put t s) = KEYPAIR3_READY s"
  "r_random (put t s) = r_random s" "r_divs (put t s) = r_divs s"
  by (simp_all add: put_def)

lemma GetCommand_shorter:
  assumes "GetCommand n prompt s = Inr (command, s')" "1 < n"
  shows "length (r_in s') < length (r_in s)"
  using assms fgets_shorter [of "n - 1" "r_in s"]
  by (auto simp: GetCommand_def Let_def split: if_splits prod.splits)

function ask ::
  "bool \<Rightarrow> string \<Rightarrow> (string \<Rightarrow> 'b reply) \<Rightarrow> 'a console_scheme \<Rightarrow> rdemo_stop + 'b option \<times> 'a console_scheme" where
  "ask filename prompt switch s =
     (case GetCommand (if filename then 256 else 80) prompt s of
        Inl stop \<Rightarrow> Inl stop
      | Inr (command, s') \<Rightarrow>
          (case switch command of
             Cancelled \<Rightarrow> Inr (None, s')
           | Answer x \<Rightarrow> Inr (Some x, s')
           | Again message \<Rightarrow>
               ask filename prompt switch (case message of None \<Rightarrow> s' | Some m \<Rightarrow> PrintError m None s')))"
  by pat_completeness auto
termination
proof (relation "measure (\<lambda>(filename, prompt, switch, s). length (r_in s))", goal_cases)
  case (2 filename prompt switch s a command s' message)
  then have "length (r_in s') < length (r_in s)" by (intro GetCommand_shorter) auto
  then show ?case by (auto simp: PrintError_def split: option.split)
qed simp

declare ask.simps [simp del]

definition key_prompt :: "rdemo \<Rightarrow> string" where
  "key_prompt s = (if \<not> KEYPAIR3_READY s then ''  Public key 1 or 2?'' else ''  Public key 1, 2 or 3?'')"

definition key_error :: "rdemo \<Rightarrow> string" where
  "key_error s = (if KEYPAIR3_READY s then ''ERROR: Please enter 1, 2 or 3.  Try again.''
     else ''ERROR: Please enter 1 or 2.  Try again.'')"

definition GetDigestAlgorithm :: "rdemo \<Rightarrow> rdemo_stop + int option \<times> rdemo" where
  "GetDigestAlgorithm s = ask False (blank_to_cancel ''  MD2 or MD5 (2 or 5)?'') (\<lambda>command. case command of
     [] \<Rightarrow> Cancelled
   | c # _ \<Rightarrow> if c = CHR ''2'' then Answer DA_MD2
       else if c = CHR ''5'' then Answer DA_MD5
       else Again (Some ''ERROR: Please enter 2 or 5.  Try again.'')) s"

definition GetEncryptionAlgorithm :: "rdemo \<Rightarrow> rdemo_stop + int option \<times> rdemo" where
  "GetEncryptionAlgorithm s = ask False (blank_to_cancel ''  DES, DESX, DES-EDE2 or DES-EDE3 (1, X, 2 or 3)?'') (\<lambda>command. case command of
     [] \<Rightarrow> Cancelled
   | c # _ \<Rightarrow> if c = CHR ''1'' then Answer EA_DES_CBC
       else if c = CHR ''x'' \<or> c = CHR ''X'' then Answer EA_DESX_CBC
       else if c = CHR ''2'' then Answer EA_DES_EDE2_CBC
       else if c = CHR ''3'' then Answer EA_DES_EDE3_CBC
       else Again (Some ''ERROR: Please enter 1, X, 2 or 3.  Try again.'')) s"

subsection \<open>Files\<close>

definition open_error :: string where
  "open_error = ''ERROR: Cannot open a file with that name.  Try again.''"

text \<open>A file that is read is its name and how many bytes have been read.\<close>

definition choose_input :: "string \<Rightarrow> 'a console_scheme \<Rightarrow> rdemo_stop + string option \<times> 'a console_scheme" where
  "choose_input prompt s = ask True prompt (\<lambda>filename.
     if filename = [] then Cancelled
     else if r_files s filename \<noteq> None then Answer filename
     else Again (Some open_error)) s"

definition ReadInit :: "string \<Rightarrow> rdemo \<Rightarrow> rdemo_stop + (string \<times> nat) option \<times> rdemo" where
  "ReadInit prompt s =
     (case choose_input (blank_to_cancel prompt) s of
        Inl stop \<Rightarrow> Inl stop
      | Inr (answer, s) \<Rightarrow> Inr (map_option (\<lambda>filename. (filename, 0)) answer, s))"

definition ReadUpdate :: "nat \<Rightarrow> string \<times> nat \<Rightarrow> rdemo \<Rightarrow> (bytes \<times> string \<times> nat) option" where
  "ReadUpdate maxPartOutLen file s =
     (case file of (name, pos) \<Rightarrow>
        let partOut = take maxPartOutLen (drop pos (the (r_files s name)))
        in if partOut = [] then None else Some (partOut, name, pos + length partOut))"

text \<open>The pointer \<open>dummy\<close> was never set: one more byte in the file is written through it.\<close>

definition ReadBlock :: "nat \<Rightarrow> string \<Rightarrow> rdemo \<Rightarrow> rdemo_stop + bytes option \<times> rdemo" where
  "ReadBlock maxBlockLen prompt s =
     (case ReadInit prompt s of
        Inl stop \<Rightarrow> Inl stop
      | Inr (None, s) \<Rightarrow> Inr (None, s)
      | Inr (Some file, s) \<Rightarrow>
          (case ReadUpdate maxBlockLen file s of
             None \<Rightarrow> Inr (None, s)
           | Some (block, file) \<Rightarrow>
               if length block = maxBlockLen \<and> ReadUpdate 1 file s \<noteq> None then Inl Wild_Write
               else Inr (Some block, s)))"

datatype out_file = Stdout | Named string

definition choose_output ::
  "(string \<Rightarrow> bool) \<Rightarrow> string \<Rightarrow> 'a console_scheme \<Rightarrow> rdemo_stop + out_file option \<times> 'a console_scheme" where
  "choose_output writable prompt s =
     (case ask True prompt (\<lambda>filename.
         if filename = [] then Cancelled
         else if filename = ''-'' then Answer Stdout
         else if writable filename then Answer (Named filename)
         else Again (Some open_error)) s of
        Inr (Some (Named filename), s) \<Rightarrow> Inr (Some (Named filename), s\<lparr>r_files := (r_files s)(filename \<mapsto> [])\<rparr>)
      | result \<Rightarrow> result)"

definition WriteInit :: "rdemo_env \<Rightarrow> string \<Rightarrow> rdemo \<Rightarrow> rdemo_stop + out_file option \<times> rdemo" where
  "WriteInit env prompt s = choose_output (e_writable env) (blank_to_cancel prompt) s"

definition WriteUpdate :: "out_file \<Rightarrow> bytes \<Rightarrow> 'a console_scheme \<Rightarrow> 'a console_scheme" where
  "WriteUpdate file partOut s =
     (case file of
        Stdout \<Rightarrow> s\<lparr>r_out := r_out s @ [Data partOut]\<rparr>
      | Named name \<Rightarrow> s\<lparr>r_files := (r_files s)(name \<mapsto> the (r_files s name) @ partOut)\<rparr>)"

definition write_block ::
  "(string \<Rightarrow> bool) \<Rightarrow> bytes \<Rightarrow> string \<Rightarrow> 'a console_scheme \<Rightarrow> rdemo_stop + unit option \<times> 'a console_scheme" where
  "write_block writable block prompt s =
     (case choose_output writable prompt s of
        Inl stop \<Rightarrow> Inl stop
      | Inr (None, s) \<Rightarrow> Inr (None, s)
      | Inr (Some file, s) \<Rightarrow>
          let s = WriteUpdate file block s
          in Inr (Some (), if file = Stdout then put [NL] s else s))"

definition WriteBlock :: "rdemo_env \<Rightarrow> bytes \<Rightarrow> string \<Rightarrow> rdemo \<Rightarrow> rdemo_stop + unit option \<times> rdemo" where
  "WriteBlock env block prompt s = write_block (e_writable env) block (blank_to_cancel prompt) s"

text \<open>An answer that is missing ends an operation.\<close>

definition asked :: "rdemo_stop + 'a option \<times> 's \<Rightarrow> ('a \<Rightarrow> 's \<Rightarrow> (rdemo_stop + 's) option) \<Rightarrow> (rdemo_stop + 's) option" where
  "asked answer f =
     (case answer of
        Inl stop \<Rightarrow> Some (Inl stop)
      | Inr (None, s) \<Rightarrow> Some (Inr s)
      | Inr (Some x, s) \<Rightarrow> f x s)"

lemma asked_simps [simp]:
  "asked (Inl stop) f = Some (Inl stop)" "asked (Inr (None, s)) f = Some (Inr s)" "asked (Inr (Some x, s)) f = f x s"
  by (simp_all add: asked_def)

end
