(* ===== verification/Rdemo.thy ===== *)
theory Rdemo
  imports Rdemo_Console
begin

section \<open>The demonstration program (rdemo/rdemo.c)\<close>

text \<open>
  Signing, verifying, sealing and opening files, generating keys, and the menu.  The result of
  an operation is the state it leaves, or the stop of \<open>Rdemo_Console\<close>; \<open>None\<close> is not returning,
  of the library's loops or of the menu.
\<close>

subsection \<open>The keys of the program\<close>

definition PUBLIC_KEY1 :: R_RSA_PUBLIC_KEY where
  "PUBLIC_KEY1 = \<lparr>pub_bits = 512,
     pub_modulus = replicate 64 0 @ [0xc0, 0x76, 0x47, 0x97, 0xb8, 0xbe, 0xc8, 0x97, 0x2a, 0x0e, 0xd8, 0xc9, 0x0a, 0x8c, 0x33,
       0x4d, 0xd0, 0x49, 0xad, 0xd0, 0x22, 0x2c, 0x09, 0xd2, 0x0b, 0xe0, 0xa7, 0x9e, 0x33, 0x89,
       0x10, 0xbc, 0xae, 0x42, 0x20, 0x60, 0x90, 0x6a, 0xe0, 0x22, 0x1d, 0xe3, 0xf3, 0xfc, 0x74,
       0x7c, 0xcf, 0x98, 0xae, 0xcc, 0x85, 0xd6, 0xed, 0xc5, 0x2d, 0x93, 0xd5, 0xb7, 0x39, 0x67,
       0x76, 0x16, 0x05, 0x25],
     pub_exponent = replicate 125 0 @ [0x01, 0x00, 0x01]\<rparr>"

definition PRIVATE_KEY1 :: R_RSA_PRIVATE_KEY where
  "PRIVATE_KEY1 = \<lparr>priv_bits = 512,
     priv_modulus = replicate 64 0 @ [0xc0, 0x76, 0x47, 0x97, 0xb8, 0xbe, 0xc8, 0x97, 0x2a, 0x0e, 0xd8, 0xc9, 0x0a, 0x8c, 0x33,
       0x4d, 0xd0, 0x49, 0xad, 0xd0, 0x22, 0x2c, 0x09, 0xd2, 0x0b, 0xe0, 0xa7, 0x9e, 0x33, 0x89,
       0x10, 0xbc, 0xae, 0x42, 0x20, 0x60, 0x90, 0x6a, 0xe0, 0x22, 0x1d, 0xe3, 0xf3, 0xfc, 0x74,
       0x7c, 0xcf, 0x98, 0xae, 0xcc, 0x85, 0xd6, 0xed, 0xc5, 0x2d, 0x93, 0xd5, 0xb7, 0x39, 0x67,
       0x76, 0x16, 0x05, 0x25],
     priv_publicExponent = replicate 125 0 @ [0x01, 0x00, 0x01],
     priv_exponent = replicate 64 0 @ [0x1a, 0xe3, 0x6b, 0x75, 0x22, 0xf6, 0x64, 0x87, 0xd9, 0xf4, 0x61, 0x0d, 0x15, 0x50, 0x29,
       0x0a, 0xc2, 0x02, 0xc9, 0x29, 0xbe, 0xdc, 0x70, 0x32, 0xcc, 0x3e, 0x02, 0xac, 0xf3, 0x7e,
       0x3e, 0xbc, 0x1f, 0x86, 0x6e, 0xe7, 0xef, 0x7a, 0x08, 0x68, 0xd2, 0x3a, 0xe2, 0xb1, 0x84,
       0xc1, 0xab, 0xd6, 0xd4, 0xdb, 0x8e, 0xa9, 0xbe, 0xc0, 0x46, 0xbd, 0x82, 0x80, 0x37, 0x27,
       0xf2, 0x88, 0x87, 0x01],
     priv_prime = [replicate 32 0 @ [0xdf, 0x02, 0xb6, 0x15, 0xfe, 0x15, 0x92, 0x8f, 0x41, 0xb0, 0x2b, 0x58, 0x6b, 0x51, 0xc2,
       0xc0, 0x22, 0x60, 0xca, 0x39, 0x68, 0x18, 0xca, 0x4c, 0xba, 0x60, 0xbb, 0x89, 0x24, 0x65,
       0xbe, 0x35],
       replicate 32 0 @ [0xdc, 0xee, 0xb6, 0x0d, 0x54, 0x35, 0x18, 0xb4, 0xac, 0x74, 0x83, 0x4a, 0x05, 0x46, 0xc5,
       0x07, 0xf2, 0xe9, 0x1e, 0x38, 0x9a, 0x87, 0xe2, 0xf2, 0xbe, 0xcc, 0x6f, 0x8c, 0x67, 0xd1,
       0xc9, 0x31]],
     priv_primeExponent = [replicate 32 0 @ [0x59, 0x48, 0x7e, 0x99, 0xe3, 0x75, 0xc3, 0x8d, 0x73, 0x21, 0x12, 0xd9, 0x7d, 0x6d, 0xe8,
       0x68, 0x7f, 0xda, 0xfc, 0x5b, 0x6b, 0x5f, 0xb1, 0x6e, 0x72, 0x97, 0xd3, 0xbd, 0x1e, 0x43,
       0x55, 0x99],
       replicate 32 0 @ [0x61, 0xb5, 0x50, 0xde, 0x64, 0x37, 0x77, 0x4d, 0xb0, 0x57, 0x77, 0x18, 0xed, 0x6c, 0x77,
       0x07, 0x24, 0xee, 0xe4, 0x66, 0xb4, 0x31, 0x14, 0xb5, 0xb6, 0x9c, 0x43, 0x59, 0x1d, 0x31,
       0x32, 0x81]],
     priv_coefficient = replicate 32 0 @ [0x74, 0x4c, 0x79, 0xc4, 0xb9, 0xbe, 0xa9, 0x7c, 0x25, 0xe5, 0x63, 0xc9, 0x40, 0x7a, 0x2d,
       0x09, 0xb5, 0x73, 0x58, 0xaf, 0xe0, 0x9a, 0xf6, 0x7d, 0x71, 0xf8, 0x19, 0x8c, 0xb7, 0xc9,
       0x56, 0xb8]\<rparr>"

definition PUBLIC_KEY2 :: R_RSA_PUBLIC_KEY where
  "PUBLIC_KEY2 = \<lparr>pub_bits = 512,
     pub_modulus = replicate 64 0 @ [0xe5, 0xf2, 0x0d, 0xce, 0x83, 0x32, 0x30, 0xe4, 0x51, 0xd5, 0x0c, 0x79, 0xa5, 0x34, 0x23,
       0xfb, 0x5f, 0xfb, 0xa0, 0xff, 0x5c, 0x77, 0x96, 0xa9, 0x2c, 0x35, 0xee, 0x53, 0x02, 0xb7,
       0x89, 0x2d, 0xf0, 0x78, 0x49, 0xdd, 0xdc, 0x27, 0x79, 0x8b, 0x69, 0xa2, 0x5e, 0x7a, 0x40,
       0x27, 0x43, 0x82, 0x7a, 0xc4, 0xfa, 0x50, 0x21, 0x1f, 0x15, 0x35, 0xc3, 0x93, 0x46, 0x62,
       0xcd, 0xd4, 0x26, 0x89],
     pub_exponent = replicate 125 0 @ [0x01, 0x00, 0x01]\<rparr>"

definition PRIVATE_KEY2 :: R_RSA_PRIVATE_KEY where
  "PRIVATE_KEY2 = \<lparr>priv_bits = 512,
     priv_modulus = replicate 64 0 @ [0xe5, 0xf2, 0x0d, 0xce, 0x83, 0x32, 0x30, 0xe4, 0x51, 0xd5, 0x0c, 0x79, 0xa5, 0x34, 0x23,
       0xfb, 0x5f, 0xfb, 0xa0, 0xff, 0x5c, 0x77, 0x96, 0xa9, 0x2c, 0x35, 0xee, 0x53, 0x02, 0xb7,
       0x89, 0x2d, 0xf0, 0x78, 0x49, 0xdd, 0xdc, 0x27, 0x79, 0x8b, 0x69, 0xa2, 0x5e, 0x7a, 0x40,
       0x27, 0x43, 0x82, 0x7a, 0xc4, 0xfa, 0x50, 0x21, 0x1f, 0x15, 0x35, 0xc3, 0x93, 0x46, 0x62,
       0xcd, 0xd4, 0x26, 0x89],
     priv_publicExponent = replicate 125 0 @ [0x01, 0x00, 0x01],
     priv_exponent = replicate 64 0 @ [0x8e, 0x6b, 0x48, 0x4f, 0xe3, 0x04, 0x60, 0x31, 0xd9, 0xd9, 0x59, 0xdb, 0xb2, 0x0d, 0xc4,
       0x47, 0x7a, 0x60, 0x70, 0x8c, 0x19, 0x2a, 0x5c, 0x9f, 0x35, 0x29, 0xc6, 0x0d, 0x95, 0xfe,
       0x35, 0x30, 0x99, 0x54, 0xda, 0x99, 0x90, 0xe3, 0x3e, 0x1d, 0xdb, 0x32, 0x7b, 0x1d, 0x26,
       0xf2, 0x9a, 0xab, 0x03, 0x09, 0x77, 0xba, 0x4f, 0x43, 0xdb, 0xda, 0xc8, 0x1f, 0x12, 0xd6,
       0xf2, 0x57, 0x1a, 0x31],
     priv_prime = [replicate 32 0 @ [0xf4, 0x6c, 0x5d, 0xb7, 0x7b, 0xa7, 0x9e, 0x2f, 0x4a, 0x26, 0xec, 0xe0, 0x1b, 0x2a, 0x5f,
       0x42, 0x04, 0x87, 0xb4, 0xc4, 0x68, 0x80, 0xf3, 0x09, 0xe5, 0x48, 0x00, 0x30, 0x6f, 0x54,
       0x04, 0x75],
       replicate 32 0 @ [0xf0, 0xd6, 0x25, 0x08, 0xe5, 0x54, 0x19, 0xa3, 0x98, 0x9d, 0x77, 0x92, 0x18, 0xba, 0x9c,
       0x00, 0xda, 0x69, 0xee, 0x84, 0xf9, 0x10, 0xe5, 0xda, 0xf0, 0x7d, 0x78, 0x6c, 0x92, 0xd8,
       0xc7, 0x45]],
     priv_primeExponent = [replicate 32 0 @ [0x62, 0x03, 0x32, 0x71, 0x69, 0x3c, 0x85, 0xca, 0x20, 0xca, 0x0b, 0x22, 0xb2, 0xc2, 0x03,
       0x00, 0xce, 0x20, 0x3c, 0xf4, 0xa5, 0x93, 0x4f, 0xe2, 0x1f, 0xf7, 0x07, 0x5c, 0x64, 0xc8,
       0x24, 0x21],
       replicate 32 0 @ [0xe4, 0xf1, 0xde, 0x01, 0x07, 0xe9, 0x1b, 0xfa, 0x7e, 0x51, 0x6b, 0x62, 0xb2, 0x29, 0x6b,
       0xb6, 0x0f, 0xeb, 0xd5, 0xf8, 0x08, 0xc1, 0x7c, 0x90, 0xd6, 0x3f, 0xa0, 0xa4, 0x2e, 0x30,
       0xef, 0xb5]],
     priv_coefficient = replicate 32 0 @ [0x3f, 0x01, 0x60, 0x46, 0x90, 0x85, 0xaf, 0x6f, 0xa2, 0x8d, 0x6a, 0x1d, 0x3e, 0xfd, 0x56,
       0xd7, 0x57, 0x5e, 0x00, 0x30, 0x5b, 0x49, 0x6c, 0xc4, 0x85, 0xf5, 0x1c, 0x39, 0xef, 0x0b,
       0x4b, 0x28]\<rparr>"

definition GetPublicKey :: "rdemo \<Rightarrow> rdemo_stop + R_RSA_PUBLIC_KEY option \<times> rdemo" where
  "GetPublicKey s = ask False (blank_to_cancel (key_prompt s)) (\<lambda>command. case command of
     [] \<Rightarrow> Cancelled
   | c # _ \<Rightarrow> if c = CHR ''1'' then Answer PUBLIC_KEY1
       else if c = CHR ''2'' then Answer PUBLIC_KEY2
       else if c = CHR ''3'' then (if \<not> KEYPAIR3_READY s then Again None else Answer (PUBLIC_KEY3 s))
       else Again (Some (key_error s))) s"

definition GetPrivateKey :: "rdemo \<Rightarrow> rdemo_stop + R_RSA_PRIVATE_KEY option \<times> rdemo" where
  "GetPrivateKey s = ask False (blank_to_cancel (key_prompt s)) (\<lambda>command. case command of
     [] \<Rightarrow> Cancelled
   | c # _ \<Rightarrow> if c = CHR ''1'' then Answer PRIVATE_KEY1
       else if c = CHR ''2'' then Answer PRIVATE_KEY2
       else if c = CHR ''3'' then (if \<not> KEYPAIR3_READY s then Again None else Answer (PRIVATE_KEY3 s))
       else Again (Some (key_error s))) s"

subsection \<open>Setting up\<close>

fun SetOptions :: "string list \<Rightarrow> bool \<Rightarrow> nat \<times> bool" where
  "SetOptions [] silent = (0, silent)"
| "SetOptions (arg # args) silent =
     (case arg of
        d # opt # _ \<Rightarrow> if d \<noteq> CHR ''-'' then (1, silent)
                     else if opt = CHR ''s'' then SetOptions args True
                     else (1, silent)
      | _ \<Rightarrow> (1, silent))"

function seed_random :: "R_RANDOM_STRUCT \<Rightarrow> R_RANDOM_STRUCT" where
  "seed_random randomStruct =
     (if R_GetRandomBytesNeeded randomStruct = 0 then randomStruct
      else seed_random (R_RandomUpdate randomStruct [0]))"
  by pat_completeness auto
termination
  by (relation "measure bytesNeeded") (auto simp: R_GetRandomBytesNeeded_def R_RandomUpdate_def Let_def)

declare seed_random.simps [simp del]

definition InitRandomStruct :: "R_RANDOM_STRUCT \<Rightarrow> R_RANDOM_STRUCT" where
  "InitRandomStruct randomStruct = seed_random (R_RandomInit randomStruct)"

subsection \<open>The operations\<close>

definition unread :: "string \<times> nat \<Rightarrow> rdemo \<Rightarrow> nat" where
  "unread file s = length (the (r_files s (fst file))) - snd file"

lemma ReadUpdate_unread: "ReadUpdate n file s = Some (part, file') \<Longrightarrow> unread file' s < unread file s"
  by (auto simp: ReadUpdate_def unread_def Let_def split: prod.splits if_splits)

function sign_loop :: "string \<times> nat \<Rightarrow> R_SIGNATURE_CTX \<Rightarrow> rdemo \<Rightarrow> re_code option \<times> R_SIGNATURE_CTX" where
  "sign_loop file context s =
     (case ReadUpdate 24 file s of
        None \<Rightarrow> (None, context)
      | Some (partIn, file') \<Rightarrow>
          (case R_SignUpdate context partIn of
             (Some status, context') \<Rightarrow> (Some status, context')
           | (None, context') \<Rightarrow> sign_loop file' context' s))"
  by pat_completeness auto
termination
  by (relation "measure (\<lambda>(file, context, s). unread file s)") (auto dest: ReadUpdate_unread)

function verify_loop :: "string \<times> nat \<Rightarrow> R_SIGNATURE_CTX \<Rightarrow> rdemo \<Rightarrow> re_code option \<times> R_SIGNATURE_CTX" where
  "verify_loop file context s =
     (case ReadUpdate 16 file s of
        None \<Rightarrow> (None, context)
      | Some (partIn, file') \<Rightarrow>
          (case R_VerifyUpdate context partIn of
             (Some status, context') \<Rightarrow> (Some status, context')
           | (None, context') \<Rightarrow> verify_loop file' context' s))"
  by pat_completeness auto
termination
  by (relation "measure (\<lambda>(file, context, s). unread file s)") (auto dest: ReadUpdate_unread)

declare sign_loop.simps [simp del] verify_loop.simps [simp del]

definition DoSignFile :: "rdemo_env \<Rightarrow> rdemo \<Rightarrow> (rdemo_stop + rdemo) option" where
  "DoSignFile env s =
     asked (ReadInit ''  Enter filename of content to sign'' s) (\<lambda>file s.
     asked (GetPrivateKey s) (\<lambda>privateKey s.
     asked (GetDigestAlgorithm s) (\<lambda>digestAlgorithm s.
       case R_SignInit (e_signature env) digestAlgorithm of
         (Some status, context) \<Rightarrow> Some (Inr (PrintError ''signing file'' (Some status) s))
       | (None, context) \<Rightarrow>
           (case sign_loop file context s of
              (Some status, context) \<Rightarrow> Some (Inr (PrintError ''signing file'' (Some status) s))
            | (None, context) \<Rightarrow> do {
                (status, context, DivCount) \<leftarrow> R_SignFinal context privateKey (r_divs s);
                (let s = s\<lparr>r_divs := DivCount\<rparr>
                 in case status of
                      Inl code \<Rightarrow> Some (Inr (PrintError ''signing file'' (Some code) s))
                    | Inr signature \<Rightarrow>
                        asked (WriteBlock env signature ''  Enter filename to save the signature'' (PrintLength signature s))
                          (\<lambda>_ s. Some (Inr s)))
              }))))"

definition DoVerifyFile :: "rdemo_env \<Rightarrow> rdemo \<Rightarrow> (rdemo_stop + rdemo) option" where
  "DoVerifyFile env s =
     asked (ReadInit ''  Enter name of file to verify'' s) (\<lambda>file s.
     asked (GetPublicKey s) (\<lambda>publicKey s.
     asked (GetDigestAlgorithm s) (\<lambda>digestAlgorithm s.
     asked (ReadBlock 128 ''  Enter filename of signature'' s) (\<lambda>signature s.
       case R_VerifyInit (e_signature env) digestAlgorithm of
         (Some status, context) \<Rightarrow> Some (Inr (PrintError ''verifying file'' (Some status) s))
       | (None, context) \<Rightarrow>
           (case verify_loop file context s of
              (Some status, context) \<Rightarrow> Some (Inr (PrintError ''verifying file'' (Some status) s))
            | (None, context) \<Rightarrow> do {
                (status, context, DivCount) \<leftarrow> R_VerifyFinal context signature publicKey (r_divs s);
                (let s = s\<lparr>r_divs := DivCount\<rparr>
                 in case status of
                      Some code \<Rightarrow> Some (Inr (PrintError ''verifying file'' (Some code) s))
                    | None \<Rightarrow> Some (Inr (PrintMessage ''Signature verified.'' s)))
              })))))"

text \<open>The file that is read may be the one that is written, so the loop need not end.\<close>

partial_function (option) seal_loop ::
  "out_file \<Rightarrow> string \<times> nat \<Rightarrow> R_ENVELOPE_CTX \<Rightarrow> rdemo \<Rightarrow> (R_ENVELOPE_CTX \<times> rdemo) option" where
  "seal_loop outFile inFile context s =
     (case ReadUpdate 24 inFile s of
        None \<Rightarrow> Some (context, s)
      | Some (partIn, inFile) \<Rightarrow>
          (case R_SealUpdate context partIn of
             (context, partOut) \<Rightarrow> seal_loop outFile inFile context (WriteUpdate outFile partOut s)))"

partial_function (option) open_loop ::
  "out_file \<Rightarrow> string \<times> nat \<Rightarrow> R_ENVELOPE_CTX \<Rightarrow> rdemo \<Rightarrow> (R_ENVELOPE_CTX \<times> rdemo) option" where
  "open_loop outFile inFile context s =
     (case ReadUpdate 24 inFile s of
        None \<Rightarrow> Some (context, s)
      | Some (partIn, inFile) \<Rightarrow>
          (case R_OpenUpdate context partIn of
             (context, partOut) \<Rightarrow> open_loop outFile inFile context (WriteUpdate outFile partOut s)))"

definition DoSealFile :: "rdemo_env \<Rightarrow> rdemo \<Rightarrow> (rdemo_stop + rdemo) option" where
  "DoSealFile env s =
     asked (ReadInit ''  Enter filename of content to seal'' s) (\<lambda>inFile s.
     asked (WriteInit env ''  Enter filename to save the encrypted content'' s) (\<lambda>outFile s.
     asked (GetPublicKey s) (\<lambda>publicKey s.
     asked (GetEncryptionAlgorithm s) (\<lambda>encryptionAlgorithm s. do {
       (status, context, randomStruct, DivCount) \<leftarrow>
         R_SealInit (e_byte env) (e_envelope env) [publicKey] encryptionAlgorithm (r_random s) (r_divs s);
       (let s = s\<lparr>r_random := randomStruct, r_divs := DivCount\<rparr>
        in case status of
             Inl code \<Rightarrow> Some (Inr (PrintError ''sealing file'' (Some code) s))
           | Inr (encryptedKeys, iv) \<Rightarrow> do {
               (context, s) \<leftarrow> seal_loop outFile inFile context s;
               (case R_SealFinal context of
                  (context, partOut) \<Rightarrow>
                    asked (WriteBlock env (encryptedKeys ! 0) ''  Enter filename to save the encrypted key''
                      (WriteUpdate outFile partOut s)) (\<lambda>_ s.
                    asked (WriteBlock env iv ''  Enter filename to save the initializing vector'' s) (\<lambda>_ s.
                    Some (Inr s))))
             })
     }))))"

text \<open>The length of the vector's file is not looked at: a short one leaves the rest of the array as it was.\<close>

definition DoOpenFile :: "rdemo_env \<Rightarrow> rdemo \<Rightarrow> (rdemo_stop + rdemo) option" where
  "DoOpenFile env s =
     asked (ReadInit ''  Enter filename of encrypted content to open'' s) (\<lambda>inFile s.
     asked (WriteInit env ''  Enter filename to save the recovered content'' s) (\<lambda>outFile s.
     asked (GetPrivateKey s) (\<lambda>privateKey s.
     asked (GetEncryptionAlgorithm s) (\<lambda>encryptionAlgorithm s.
     asked (ReadBlock 128 ''  Enter filename of the encrypted key'' s) (\<lambda>encryptedKey s.
     asked (ReadBlock 8 ''  Enter filename of the initializing vector'' s) (\<lambda>iv s. do {
       (status, DivCount) \<leftarrow>
         R_OpenInit (e_envelope env) encryptionAlgorithm encryptedKey (array_write (e_iv env) 0 iv) privateKey (r_divs s);
       (let s = s\<lparr>r_divs := DivCount\<rparr>
        in case status of
             Inl code \<Rightarrow> Some (Inr (PrintError ''opening file'' (Some code) s))
           | Inr context \<Rightarrow> do {
               (context, s) \<leftarrow> open_loop outFile inFile context s;
               (case R_OpenFinal context of
                  (Inl code, context) \<Rightarrow> Some (Inr (PrintError ''opening file'' (Some code) s))
                | (Inr partOut, context) \<Rightarrow> Some (Inr (WriteUpdate outFile partOut s)))
             })
     }))))))"

subsection \<open>Generating keys\<close>

text \<open>
  \<open>WriteBigInteger\<close> looks at the byte before it looks at the length: of an array of zeros it
  reads the byte behind the end.
\<close>

fun WriteBigInteger :: "bytes \<Rightarrow> rdemo_stop + string" where
  "WriteBigInteger [] = Inl Wild_Read"
| "WriteBigInteger (b # integer) =
     (if b = 0 then WriteBigInteger integer
      else Inr (concat (map (\<lambda>b. hex_byte2 b @ '' '') (b # integer)) @ [NL]))"

fun decimal :: "nat \<Rightarrow> string" where
  "decimal n = (if n < 10 then [hex_char n] else decimal (n div 10) @ [hex_char (n mod 10)])"

declare decimal.simps [simp del]

fun write_fields :: "(string \<times> bytes) list \<Rightarrow> rdemo_stop + string" where
  "write_fields [] = Inr []"
| "write_fields ((name, integer) # rows) =
     andThen (WriteBigInteger integer) (\<lambda>line. andThen (write_fields rows) (\<lambda>rest. Inr (name @ line @ rest)))"

definition keypair_text :: "R_RSA_PUBLIC_KEY \<Rightarrow> R_RSA_PRIVATE_KEY \<Rightarrow> rdemo_stop + string" where
  "keypair_text publicKey privateKey =
     andThen (write_fields [(''  modulus: '', pub_modulus publicKey), (''  exponent: '', pub_exponent publicKey)]) (\<lambda>pub.
     andThen (write_fields [(''  modulus: '', priv_modulus privateKey), (''  public exponent: '', priv_publicExponent privateKey),
         (''  exponent: '', priv_exponent privateKey), (''  prime 1: '', priv_prime privateKey ! 0),
         (''  prime 2: '', priv_prime privateKey ! 1), (''  prime exponent 1: '', priv_primeExponent privateKey ! 0),
         (''  prime exponent 2: '', priv_primeExponent privateKey ! 1), (''  coefficient: '', priv_coefficient privateKey)]) (\<lambda>priv.
     Inr (''Public Key, '' @ decimal (pub_bits publicKey) @ '' bits:'' @ [NL] @ pub @
       [NL] @ ''Private Key, '' @ decimal (priv_bits privateKey) @ '' bits:'' @ [NL] @ priv)))"

definition WriteKeypair3 :: "rdemo_env \<Rightarrow> rdemo \<Rightarrow> (rdemo_stop + rdemo) option" where
  "WriteKeypair3 env s =
     asked (WriteInit env ''  Enter filename to save the keypair'' s) (\<lambda>file s.
       Some (andThen (keypair_text (PUBLIC_KEY3 s) (PRIVATE_KEY3 s)) (\<lambda>text.
         Inr (if file = Stdout then put text s else WriteUpdate file (map of_char text) s))))"

text \<open>\<open>sscanf\<close> with \<open>%d\<close>: white space, a sign, digits; the variable keeps its contents without them.\<close>

definition scan_digits :: "string \<Rightarrow> int option" where
  "scan_digits s =
     (let digits = takeWhile (\<lambda>c. of_char c \<in> {48 .. (57 :: nat)}) s
      in if digits = [] then None
         else Some (foldl (\<lambda>n c. 10 * n + (of_char c - 48)) 0 digits))"

definition scan_int :: "string \<Rightarrow> int option" where
  "scan_int s =
     (case dropWhile (\<lambda>c. c = CHR '' '' \<or> of_char c \<in> {9 .. (13 :: nat)}) s of
        [] \<Rightarrow> None
      | c # cs \<Rightarrow> if c = CHR ''-'' then map_option uminus (scan_digits cs)
                  else if c = CHR ''+'' then scan_digits cs
                  else scan_digits (c # cs))"

definition DoGenerateKeys :: "rdemo_env \<Rightarrow> rdemo \<Rightarrow> (rdemo_stop + rdemo) option" where
  "DoGenerateKeys env s =
     (case GetCommand 80 (blank_to_cancel ''  Enter key size in bits, (508 to 1024)'') s of
        Inl stop \<Rightarrow> Some (Inl stop)
      | Inr (command, s) \<Rightarrow>
          if command = [] then Some (Inr s)
          else let keySize = (case scan_int command of None \<Rightarrow> e_key_size env | Some n \<Rightarrow> n);
                   protoKey = \<lparr>proto_bits = unat (of_int keySize :: u32), useFermat4 = True\<rparr>
          in do {
            (status, randomStruct, DivCount) \<leftarrow> R_GeneratePEMKeys protoKey (r_random s) (r_divs s);
            (let s = s\<lparr>r_random := randomStruct, r_divs := DivCount\<rparr>
             in case status of
                  Inl code \<Rightarrow> Some (Inr (PrintError ''generating keys'' (Some code) s))
                | Inr (publicKey, privateKey) \<Rightarrow>
                    WriteKeypair3 env ((PrintMessage ''Public key 3 and private key 3 are now ready to use.''
                      (s\<lparr>PUBLIC_KEY3 := publicKey, PRIVATE_KEY3 := privateKey\<rparr>))\<lparr>KEYPAIR3_READY := True\<rparr>))
          })"

subsection \<open>The menu\<close>

definition print_menu :: "rdemo \<Rightarrow> rdemo" where
  "print_menu s = foldl (\<lambda>s line. PrintMessage line s) s [[], ''S - Sign a file'', ''V - Verify a signed file'',
     ''E - sEal a file'', ''O - Open a sealed file'', ''G - Generate a keypair (may take a long time)'', ''Q - Quit'']"

definition do_command :: "rdemo_env \<Rightarrow> char \<Rightarrow> rdemo \<Rightarrow> (rdemo_stop + rdemo) option" where
  "do_command env c s =
     (if c = CHR ''#'' then Some (Inr s)
      else if c = CHR ''s'' \<or> c = CHR ''S'' then DoSignFile env s
      else if c = CHR ''v'' \<or> c = CHR ''V'' then DoVerifyFile env s
      else if c = CHR ''e'' \<or> c = CHR ''E'' then DoSealFile env s
      else if c = CHR ''o'' \<or> c = CHR ''O'' then DoOpenFile env s
      else if c = CHR ''g'' \<or> c = CHR ''G'' then DoGenerateKeys env s
      else Some (Inr (PrintError ''ERROR: Unrecognized command.  Try again.'' None s)))"

partial_function (option) main_loop :: "rdemo_env \<Rightarrow> rdemo \<Rightarrow> (rdemo_stop + rdemo) option" where
  "main_loop env s =
     (case GetCommand 80 (blank_to_cancel ''  Enter choice'') (print_menu s) of
        Inl stop \<Rightarrow> Some (Inl stop)
      | Inr (command, s) \<Rightarrow>
          (case command of
             [] \<Rightarrow> Some (Inr s)
           | c # _ \<Rightarrow>
               if c = CHR ''Q'' \<or> c = CHR ''q'' then Some (Inr s)
               else Option.bind (do_command env c s) (\<lambda>result.
                 case result of Inl stop \<Rightarrow> Some (Inl stop) | Inr s \<Rightarrow> main_loop env s)))"

definition rdemo_main :: "rdemo_env \<Rightarrow> string list \<Rightarrow> rdemo \<Rightarrow> (rdemo_stop + rdemo) option" where
  "rdemo_main env args s =
     (case SetOptions args (SILENT_PROMPT s) of (status, silent) \<Rightarrow>
        let s = s\<lparr>SILENT_PROMPT := silent\<rparr>
        in if status \<noteq> 0 then Some (Inr (put (''Usage: rdemo [-s]'' @ [NL] @ ''  -s silent prompts'' @ [NL, NL]) s))
           else Option.bind
             (main_loop env (PrintMessage
               (''NOTE: When saving to a file, a filename of '' @ [CHR 0x22, CHR ''-'', CHR 0x22] @ '' will output to the screen.'')
               (s\<lparr>r_random := InitRandomStruct (r_random s)\<rparr>)))
             (\<lambda>result. Some (andThen result (\<lambda>s. Inr (s\<lparr>r_random := R_RandomFinal (r_random s),
               PRIVATE_KEY3 := \<lparr>priv_bits = 0, priv_modulus = replicate 128 0, priv_publicExponent = replicate 128 0,
                 priv_exponent = replicate 128 0, priv_prime = replicate 2 (replicate 64 0),
                 priv_primeExponent = replicate 2 (replicate 64 0), priv_coefficient = replicate 64 0\<rparr>\<rparr>)))))"

end
