(* ===== verification/Rdemo_Properties.thy ===== *)
theory Rdemo_Properties
  imports Rdemo Pem_Properties
begin

section \<open>What a session of the demonstration program does\<close>

text \<open>
  The answers a user types decide what the operations read and write.  The lemmas follow the
  answers through the questions; the properties say that files that are sealed are opened and
  files that are signed are verified, through the files of the session.
\<close>

subsection \<open>Typed lines\<close>

definition line_ok :: "nat \<Rightarrow> string \<Rightarrow> bool" where
  "line_ok n l \<longleftrightarrow> length l < n \<and> list_all (\<lambda>c. c \<noteq> NL \<and> c \<noteq> CR \<and> c \<noteq> NUL) l"

definition typed :: "string list \<Rightarrow> string" where
  "typed ls = concat (map (\<lambda>l. l @ [NL]) ls)"

lemma typed_simps [simp]: "typed [] = []" "typed (l # ls) = l @ NL # typed ls"
  by (simp_all add: typed_def)

lemma fgets_line: "length l < n \<Longrightarrow> list_all (\<lambda>c. c \<noteq> NL) l \<Longrightarrow> fgets n (l @ NL # rest) = (l @ [NL], rest)"
proof (induction l arbitrary: n)
  case Nil then show ?case by (cases n) auto
next
  case (Cons c l) then show ?case by (cases n) auto
qed

text \<open>The state after a question whose answer was typed in time.\<close>

definition replied :: "string \<Rightarrow> string \<Rightarrow> 'a console_scheme \<Rightarrow> 'a console_scheme" where
  "replied prompt rest s = s\<lparr>r_in := rest,
     r_out := r_out s @ (if SILENT_PROMPT s then [] else [Text (prompt @ [NL])])\<rparr>"

lemma replied_simps [simp]:
  "r_in (replied p rest s) = rest" "r_files (replied p rest s) = r_files s"
  "SILENT_PROMPT (replied p rest s) = SILENT_PROMPT s"
  by (simp_all add: replied_def)

lemma GetCommand_line:
  assumes "line_ok (n - 1) l" "r_in s = l @ NL # rest"
  shows "GetCommand n prompt s = Inr (l, replied prompt rest s)"
proof -
  have "fgets (n - 1) (l @ NL # rest) = (l @ [NL], rest)"
    by (rule fgets_line) (use assms in \<open>auto simp: line_ok_def list_all_iff\<close>)
  moreover have "takeWhile (\<lambda>c. c \<noteq> NUL \<and> c \<noteq> NL \<and> c \<noteq> CR) (l @ [NL]) = l"
    using assms(1) by (subst takeWhile_append2) (auto simp: line_ok_def list_all_iff)
  ultimately show ?thesis
    using assms(2) by (auto simp: GetCommand_def Let_def replied_def put_def)
qed

lemma ask_line:
  assumes "line_ok (if filename then 255 else 79) l" "r_in s = l @ NL # rest" "switch l = Answer x"
  shows "ask filename prompt switch s = Inr (Some x, replied prompt rest s)"
  using assms by (subst ask.simps) (simp add: GetCommand_line split: if_splits)

subsection \<open>The questions of the program\<close>

definition answered :: "string \<Rightarrow> string \<Rightarrow> rdemo \<Rightarrow> rdemo" where
  "answered prompt = replied (blank_to_cancel prompt)"

lemma answered_simps [simp]:
  "r_in (answered p rest s) = rest" "r_files (answered p rest s) = r_files s" "SILENT_PROMPT (answered p rest s) = SILENT_PROMPT s"
  "PUBLIC_KEY3 (answered p rest s) = PUBLIC_KEY3 s" "PRIVATE_KEY3 (answered p rest s) = PRIVATE_KEY3 s"
  "KEYPAIR3_READY (answered p rest s) = KEYPAIR3_READY s" "r_random (answered p rest s) = r_random s" "r_divs (answered p rest s) = r_divs s"
  by (simp_all add: answered_def replied_def)

definition name_ok :: "string \<Rightarrow> bool" where
  "name_ok l \<longleftrightarrow> line_ok 255 l \<and> l \<noteq> [] \<and> l \<noteq> ''-''"

lemma choose_input_line:
  assumes "name_ok a" "r_in s = a @ NL # rest" "r_files s a \<noteq> None"
  shows "choose_input prompt s = Inr (Some a, replied prompt rest s)"
  unfolding choose_input_def by (rule ask_line) (use assms in \<open>auto simp: name_ok_def\<close>)

lemma choose_output_line:
  assumes "name_ok a" "r_in s = a @ NL # rest" "writable a"
  shows "choose_output writable prompt s = Inr (Some (Named a), (replied prompt rest s)\<lparr>r_files := (r_files s)(a \<mapsto> [])\<rparr>)"
  unfolding choose_output_def by (subst ask_line [where x = "Named a", OF _ assms(2)]) (use assms in \<open>auto simp: name_ok_def\<close>)

lemma write_block_line:
  assumes "name_ok a" "r_in s = a @ NL # rest" "writable a"
  shows "write_block writable block prompt s = Inr (Some (), (replied prompt rest s)\<lparr>r_files := (r_files s)(a \<mapsto> block)\<rparr>)"
  by (simp add: write_block_def choose_output_line [OF assms(1,2), of writable, OF assms(3)] WriteUpdate_def)

lemma ReadInit_line:
  assumes "name_ok a" "r_in s = a @ NL # rest" "r_files s a \<noteq> None"
  shows "ReadInit prompt s = Inr (Some (a, 0), answered prompt rest s)"
  by (simp add: ReadInit_def choose_input_line [OF assms] answered_def)

lemma WriteInit_line:
  assumes "name_ok a" "r_in s = a @ NL # rest" "e_writable env a"
  shows "WriteInit env prompt s = Inr (Some (Named a), (answered prompt rest s)\<lparr>r_files := (r_files s)(a \<mapsto> [])\<rparr>)"
  using assms by (simp add: WriteInit_def choose_output_line answered_def)

lemma WriteBlock_line:
  assumes "name_ok a" "r_in s = a @ NL # rest" "e_writable env a"
  shows "WriteBlock env block prompt s = Inr (Some (), (answered prompt rest s)\<lparr>r_files := (r_files s)(a \<mapsto> block)\<rparr>)"
  using assms by (simp add: WriteBlock_def write_block_line answered_def)

lemma ReadBlock_line:
  assumes "name_ok a" "r_in s = a @ NL # rest" "r_files s a = Some block" "block \<noteq> []" "length block \<le> n"
  shows "ReadBlock n prompt s = Inr (Some block, answered prompt rest s)"
  using assms by (cases n) (simp_all add: ReadBlock_def ReadInit_line ReadUpdate_def)

text \<open>
  One byte more than the array takes, and the program writes through a pointer it never set,
  before it prints its message.
\<close>

lemma ReadBlock_too_large:
  assumes "name_ok a" "r_in s = a @ NL # rest" "r_files s a = Some block" "n < length block" "0 < n"
  shows "ReadBlock n prompt s = Inl Wild_Write"
  using assms by (auto simp add: ReadBlock_def ReadInit_line ReadUpdate_def Let_def)

subsection \<open>Choices\<close>

definition key_choice :: "string \<Rightarrow> rdemo \<Rightarrow> R_RSA_PUBLIC_KEY \<Rightarrow> R_RSA_PRIVATE_KEY \<Rightarrow> bool" where
  "key_choice l s pub priv \<longleftrightarrow>
     l = ''1'' \<and> pub = PUBLIC_KEY1 \<and> priv = PRIVATE_KEY1 \<or>
     l = ''2'' \<and> pub = PUBLIC_KEY2 \<and> priv = PRIVATE_KEY2 \<or>
     l = ''3'' \<and> KEYPAIR3_READY s \<and> pub = PUBLIC_KEY3 s \<and> priv = PRIVATE_KEY3 s"

definition digest_choice :: "string \<Rightarrow> int \<Rightarrow> bool" where
  "digest_choice l alg \<longleftrightarrow> l = ''2'' \<and> alg = DA_MD2 \<or> l = ''5'' \<and> alg = DA_MD5"

definition cipher_choice :: "string \<Rightarrow> int \<Rightarrow> bool" where
  "cipher_choice l alg \<longleftrightarrow> l = ''1'' \<and> alg = EA_DES_CBC \<or> l \<in> {''x'', ''X''} \<and> alg = EA_DESX_CBC \<or>
     l = ''2'' \<and> alg = EA_DES_EDE2_CBC \<or> l = ''3'' \<and> alg = EA_DES_EDE3_CBC"

lemma char_facts: "NL \<noteq> CHR ''1''" "NL \<noteq> CHR ''2''" "NL \<noteq> CHR ''3''" "NL \<noteq> CHR ''5''" "NL \<noteq> CHR ''x''" "NL \<noteq> CHR ''X''"
  "CR \<noteq> CHR ''1''" "CR \<noteq> CHR ''2''" "CR \<noteq> CHR ''3''" "CR \<noteq> CHR ''5''" "CR \<noteq> CHR ''x''" "CR \<noteq> CHR ''X''"
  "NUL \<noteq> CHR ''1''" "NUL \<noteq> CHR ''2''" "NUL \<noteq> CHR ''3''" "NUL \<noteq> CHR ''5''" "NUL \<noteq> CHR ''x''" "NUL \<noteq> CHR ''X''"
  by (simp_all add: NL_def CR_def NUL_def)

lemma GetPublicKey_line:
  assumes "key_choice l s pub priv" "r_in s = l @ NL # rest"
  shows "GetPublicKey s = Inr (Some pub, answered (key_prompt s) rest s)"
  unfolding GetPublicKey_def answered_def
  by (rule ask_line [OF _ assms(2)]) (use assms(1) char_facts in \<open>auto simp: key_choice_def line_ok_def\<close>)

lemma GetPrivateKey_line:
  assumes "key_choice l s pub priv" "r_in s = l @ NL # rest"
  shows "GetPrivateKey s = Inr (Some priv, answered (key_prompt s) rest s)"
  unfolding GetPrivateKey_def answered_def
  by (rule ask_line [OF _ assms(2)]) (use assms(1) char_facts in \<open>auto simp: key_choice_def line_ok_def\<close>)

lemma GetDigestAlgorithm_line:
  assumes "digest_choice l alg" "r_in s = l @ NL # rest"
  shows "GetDigestAlgorithm s = Inr (Some alg, answered ''  MD2 or MD5 (2 or 5)?'' rest s)"
  unfolding GetDigestAlgorithm_def answered_def
  by (rule ask_line [OF _ assms(2)]) (use assms(1) char_facts in \<open>auto simp: digest_choice_def line_ok_def\<close>)

lemma GetEncryptionAlgorithm_line:
  assumes "cipher_choice l alg" "r_in s = l @ NL # rest"
  shows "GetEncryptionAlgorithm s = Inr (Some alg, answered ''  DES, DESX, DES-EDE2 or DES-EDE3 (1, X, 2 or 3)?'' rest s)"
  unfolding GetEncryptionAlgorithm_def answered_def
  by (rule ask_line [OF _ assms(2)]) (use assms(1) char_facts in \<open>auto simp: cipher_choice_def line_ok_def\<close>)

subsection \<open>Files in parts\<close>

text \<open>What the reading loops hand to the library: parts of \<open>n\<close> bytes, the last one shorter.\<close>

function parts_of :: "nat \<Rightarrow> bytes \<Rightarrow> bytes list" where
  "parts_of n xs = (if n = 0 \<or> xs = [] then [] else take n xs # parts_of n (drop n xs))"
  by pat_completeness auto
termination by (relation "measure (\<lambda>(n, xs). length xs)") auto

declare parts_of.simps [simp del]

lemma concat_parts_of: "0 < n \<Longrightarrow> concat (parts_of n xs) = xs"
  by (induction n xs rule: parts_of.induct) (subst parts_of.simps, simp)

lemma drop_part: "drop (pos + min (length xs - pos) n) xs = drop (n + pos) xs"
  by (simp add: min_def add.commute)

lemma ReadUpdate_parts:
  assumes "r_files s a = Some content" "0 < n"
  shows "ReadUpdate n (a, pos) s =
    (case parts_of n (drop pos content) of [] \<Rightarrow> None | part # _ \<Rightarrow> Some (part, a, pos + length part))"
    "parts_of n (drop pos content) = part # parts \<Longrightarrow> parts = parts_of n (drop (pos + length part) content)"
    "parts_of n (drop pos content) = part # parts \<Longrightarrow> length content - (pos + length part) < length content - pos"
  using assms by (auto simp: ReadUpdate_def Let_def parts_of.simps [of n "drop pos content"] not_le drop_part add.commute [of n] split: if_splits)

lemma sign_loop_parts:
  assumes "r_files s a = Some content"
  shows "sign_loop (a, pos) ctx s = (None, foldl (\<lambda>c x. snd (R_SignUpdate c x)) ctx (parts_of 24 (drop pos content)))"
  using assms
proof (induction "length content - pos" arbitrary: pos ctx rule: less_induct)
  case less
  note R = ReadUpdate_parts [OF less(2), of 24 pos]
  show ?case
  proof (cases "parts_of 24 (drop pos content)")
    case Nil
    then show ?thesis by (subst sign_loop.simps) (simp add: R(1))
  next
    case (Cons part parts)
    then have "length content - (pos + length part) < length content - pos" "parts = parts_of 24 (drop (pos + length part) content)"
      using R(2,3) [OF _ Cons] by simp_all
    moreover have "fst (R_SignUpdate ctx part) = None"
      by (simp add: R_SignUpdate_def R_DigestUpdate_def)
    ultimately show ?thesis
      using less(1) [of "pos + length part" "snd (R_SignUpdate ctx part)", OF _ less(2)] Cons
      by (subst sign_loop.simps) (auto simp add: R(1) split: prod.split option.split)
  qed
qed

lemma verify_update: "R_VerifyUpdate = R_SignUpdate"
  by (intro ext) (simp add: R_VerifyUpdate_def R_SignUpdate_def)

lemma verify_loop_parts:
  assumes "r_files s a = Some content"
  shows "verify_loop (a, pos) ctx s = (None, foldl (\<lambda>c x. snd (R_SignUpdate c x)) ctx (parts_of 16 (drop pos content)))"
  using assms
proof (induction "length content - pos" arbitrary: pos ctx rule: less_induct)
  case less
  note R = ReadUpdate_parts [OF less(2), of 16 pos]
  show ?case
  proof (cases "parts_of 16 (drop pos content)")
    case Nil
    then show ?thesis by (subst verify_loop.simps) (simp add: R(1))
  next
    case (Cons part parts)
    then have "length content - (pos + length part) < length content - pos" "parts = parts_of 16 (drop (pos + length part) content)"
      using R(2,3) [OF _ Cons] by simp_all
    moreover have "fst (R_SignUpdate ctx part) = None"
      by (simp add: R_SignUpdate_def R_DigestUpdate_def)
    ultimately show ?thesis
      using less(1) [of "pos + length part" "snd (R_SignUpdate ctx part)", OF _ less(2)] Cons
      by (subst verify_loop.simps) (auto simp add: R(1) verify_update split: prod.split option.split)
  qed
qed

text \<open>Sealing and opening without the final step.\<close>

fun update_parts :: "(R_ENVELOPE_CTX \<Rightarrow> bytes \<Rightarrow> R_ENVELOPE_CTX \<times> bytes) \<Rightarrow> R_ENVELOPE_CTX \<Rightarrow> bytes list \<Rightarrow> R_ENVELOPE_CTX \<times> bytes" where
  "update_parts update context [] = (context, [])"
| "update_parts update context (partIn # parts) =
     (let (context, partOut) = update context partIn; (context, rest) = update_parts update context parts
      in (context, partOut @ rest))"

lemma seal_parts_updates:
  "seal_parts ctx parts =
     (case update_parts R_SealUpdate ctx parts of (context, outs) \<Rightarrow>
        (case R_SealFinal context of (context, final) \<Rightarrow> (context, outs @ final)))"
  by (induction ctx parts rule: seal_parts.induct) (auto split: prod.split)

lemma open_parts_updates:
  "open_parts ctx parts =
     (case update_parts R_OpenUpdate ctx parts of (context, outs) \<Rightarrow>
        (case R_OpenFinal context of (status, context) \<Rightarrow> (prepend outs status, context)))"
  by (induction ctx parts rule: open_parts.induct) (auto split: prod.split)

lemma WriteUpdate_named: "WriteUpdate (Named b) outs s = s\<lparr>r_files := (r_files s)(b \<mapsto> the (r_files s b) @ outs)\<rparr>"
  by (simp add: WriteUpdate_def)

lemma seal_loop_parts:
  assumes "r_files s a = Some content" "r_files s b = Some acc" "a \<noteq> b"
    "update_parts R_SealUpdate ctx (parts_of 24 (drop pos content)) = (ctx', outs)"
  shows "seal_loop (Named b) (a, pos) ctx s = Some (ctx', s\<lparr>r_files := (r_files s)(b \<mapsto> acc @ outs)\<rparr>)"
  using assms
proof (induction "length content - pos" arbitrary: pos ctx s acc outs rule: less_induct)
  case less
  note R = ReadUpdate_parts [OF less(2), of 24 pos]
  show ?case
  proof (cases "parts_of 24 (drop pos content)")
    case Nil
    then show ?thesis using less(3,5) by (subst seal_loop.simps) (simp add: R(1) fun_upd_idem)
  next
    case (Cons part parts)
    then have p: "length content - (pos + length part) < length content - pos" "parts = parts_of 24 (drop (pos + length part) content)"
      using R(2,3) [OF _ Cons] by simp_all
    obtain c o1 where c: "R_SealUpdate ctx part = (c, o1)" by fastforce
    obtain o2 where o2: "update_parts R_SealUpdate c parts = (ctx', o2)" "outs = o1 @ o2"
      using less(5) by (auto simp: Cons c split: prod.splits)
    have "seal_loop (Named b) (a, pos + length part) c (WriteUpdate (Named b) o1 s) =
        Some (ctx', s\<lparr>r_files := (r_files s)(b \<mapsto> acc @ outs)\<rparr>)"
      using less(1) [OF p(1), of "WriteUpdate (Named b) o1 s" "acc @ o1" c o2] less(2-4) o2 p(2)
      by (simp add: WriteUpdate_named)
    then show ?thesis by (subst seal_loop.simps) (simp add: R(1) Cons c)
  qed
qed

lemma open_loop_parts:
  assumes "r_files s a = Some content" "r_files s b = Some acc" "a \<noteq> b"
    "update_parts R_OpenUpdate ctx (parts_of 24 (drop pos content)) = (ctx', outs)"
  shows "open_loop (Named b) (a, pos) ctx s = Some (ctx', s\<lparr>r_files := (r_files s)(b \<mapsto> acc @ outs)\<rparr>)"
  using assms
proof (induction "length content - pos" arbitrary: pos ctx s acc outs rule: less_induct)
  case less
  note R = ReadUpdate_parts [OF less(2), of 24 pos]
  show ?case
  proof (cases "parts_of 24 (drop pos content)")
    case Nil
    then show ?thesis using less(3,5) by (subst open_loop.simps) (simp add: R(1) fun_upd_idem)
  next
    case (Cons part parts)
    then have p: "length content - (pos + length part) < length content - pos" "parts = parts_of 24 (drop (pos + length part) content)"
      using R(2,3) [OF _ Cons] by simp_all
    obtain c o1 where c: "R_OpenUpdate ctx part = (c, o1)" by fastforce
    obtain o2 where o2: "update_parts R_OpenUpdate c parts = (ctx', o2)" "outs = o1 @ o2"
      using less(5) by (auto simp: Cons c split: prod.splits)
    have "open_loop (Named b) (a, pos + length part) c (WriteUpdate (Named b) o1 s) =
        Some (ctx', s\<lparr>r_files := (r_files s)(b \<mapsto> acc @ outs)\<rparr>)"
      using less(1) [OF p(1), of "WriteUpdate (Named b) o1 s" "acc @ o1" c o2] less(2-4) o2 p(2)
      by (simp add: WriteUpdate_named)
    then show ?thesis by (subst open_loop.simps) (simp add: R(1) Cons c)
  qed
qed

subsection \<open>Sealing and opening\<close>

lemma key_choice_frame [simp]:
  "key_choice l (answered p rest s) = key_choice l s" "key_choice l (s\<lparr>r_files := F\<rparr>) = key_choice l s"
  "key_choice l (s\<lparr>r_divs := k\<rparr>) = key_choice l s" "key_choice l (s\<lparr>r_random := x\<rparr>) = key_choice l s"
  "key_choice l (put t s) = key_choice l s"
  by (auto simp: key_choice_def fun_eq_iff)

text \<open>What an operation leaves alone: the option and the third key pair.\<close>

definition same_program :: "rdemo \<Rightarrow> rdemo \<Rightarrow> bool" where
  "same_program s s' \<longleftrightarrow> SILENT_PROMPT s' = SILENT_PROMPT s \<and> PUBLIC_KEY3 s' = PUBLIC_KEY3 s \<and>
     PRIVATE_KEY3 s' = PRIVATE_KEY3 s \<and> KEYPAIR3_READY s' = KEYPAIR3_READY s"

lemma same_program_choice: "same_program s s' \<Longrightarrow> key_choice l s' = key_choice l s"
  by (auto simp: same_program_def key_choice_def fun_eq_iff)

lemma DoSealFile_result:
  assumes input: "r_in s = typed [a, b, l, m, f, g] @ rest"
    and names: "name_ok a" "name_ok b" "name_ok f" "name_ok g" "a \<noteq> b" "f \<noteq> b" "g \<noteq> b" "g \<noteq> f"
    and writable: "e_writable env b" "e_writable env f" "e_writable env g"
    and content: "r_files s a = Some content"
    and choices: "key_choice l s pub priv" "cipher_choice m alg"
    and seal: "R_SealInit (e_byte env) (e_envelope env) [pub] alg (r_random s) (r_divs s) = Some (Inr ([y], iv), ctx, rnd, k)"
  obtains s' where "DoSealFile env s = Some (Inr s')" "r_in s' = rest" "same_program s s'" "r_random s' = rnd" "r_divs s' = k"
    "r_files s' = (r_files s)(b \<mapsto> snd (seal_parts ctx (parts_of 24 content)), f \<mapsto> y, g \<mapsto> iv)"
proof -
  define s1 where "s1 = answered ''  Enter filename of content to seal'' (typed [b, l, m, f, g] @ rest) s"
  define s2 where "s2 = (answered ''  Enter filename to save the encrypted content'' (typed [l, m, f, g] @ rest) s1)\<lparr>r_files := (r_files s)(b \<mapsto> [])\<rparr>"
  define s3 where "s3 = answered (key_prompt s2) (typed [m, f, g] @ rest) s2"
  define s4 where "s4 = answered ''  DES, DESX, DES-EDE2 or DES-EDE3 (1, X, 2 or 3)?'' (typed [f, g] @ rest) s3"
  obtain c outs where c: "update_parts R_SealUpdate ctx (parts_of 24 content) = (c, outs)" by fastforce
  obtain c2 final where c2: "R_SealFinal c = (c2, final)" by fastforce
  define s5 where "s5 = s4\<lparr>r_random := rnd, r_divs := k\<rparr>"
  define s6 where "s6 = s5\<lparr>r_files := (r_files s)(b \<mapsto> outs @ final)\<rparr>"
  define s7 where "s7 = (answered ''  Enter filename to save the encrypted key'' (typed [g] @ rest) s6)\<lparr>r_files := (r_files s)(b \<mapsto> outs @ final, f \<mapsto> y)\<rparr>"
  define s8 where "s8 = (answered ''  Enter filename to save the initializing vector'' rest s7)\<lparr>r_files := (r_files s)(b \<mapsto> outs @ final, f \<mapsto> y, g \<mapsto> iv)\<rparr>"
  have 1: "ReadInit ''  Enter filename of content to seal'' s = Inr (Some (a, 0), s1)"
    unfolding s1_def by (rule ReadInit_line) (use input names content in simp_all)
  have 2: "WriteInit env ''  Enter filename to save the encrypted content'' s1 = Inr (Some (Named b), s2)"
    unfolding s2_def by (subst WriteInit_line) (use names writable in \<open>simp_all add: s1_def\<close>)
  have 3: "GetPublicKey s2 = Inr (Some pub, s3)"
    unfolding s3_def by (rule GetPublicKey_line [of l _ _ priv]) (use choices in \<open>simp_all add: s2_def s1_def\<close>)
  have 4: "GetEncryptionAlgorithm s3 = Inr (Some alg, s4)"
    unfolding s4_def by (rule GetEncryptionAlgorithm_line [of m]) (use choices in \<open>simp_all add: s3_def\<close>)
  have 5: "R_SealInit (e_byte env) (e_envelope env) [pub] alg (r_random s4) (r_divs s4) = Some (Inr ([y], iv), ctx, rnd, k)"
    using seal by (simp add: s4_def s3_def s2_def s1_def)
  have f5: "r_files s5 = (r_files s)(b \<mapsto> [])" by (simp add: s5_def s4_def s3_def s2_def)
  have 6: "seal_loop (Named b) (a, 0) ctx s5 = Some (c, s5\<lparr>r_files := (r_files s5)(b \<mapsto> [] @ outs)\<rparr>)"
    by (rule seal_loop_parts) (use names(5) content c in \<open>simp_all add: f5\<close>)
  have 7: "WriteUpdate (Named b) final (s5\<lparr>r_files := (r_files s5)(b \<mapsto> [] @ outs)\<rparr>) = s6"
    by (simp add: WriteUpdate_named s6_def f5)
  have 8: "WriteBlock env y ''  Enter filename to save the encrypted key'' s6 = Inr (Some (), s7)"
    unfolding s7_def by (subst WriteBlock_line) (use names writable in \<open>simp_all add: s6_def s5_def s4_def\<close>)
  have 9: "WriteBlock env iv ''  Enter filename to save the initializing vector'' s7 = Inr (Some (), s8)"
    unfolding s8_def by (subst WriteBlock_line) (use names writable in \<open>simp_all add: s7_def\<close>)
  have "DoSealFile env s = Some (Inr s8)"
    by (simp add: DoSealFile_def 1 2 3 4 5 s5_def [symmetric] 6 [unfolded append_Nil] c2 7 [unfolded append_Nil] 8 9)
  moreover have "r_in s8 = rest" "same_program s s8" "r_random s8 = rnd" "r_divs s8 = k"
    by (simp_all add: s8_def s7_def s6_def s5_def s4_def s3_def s2_def s1_def same_program_def)
  moreover have "r_files s8 = (r_files s)(b \<mapsto> snd (seal_parts ctx (parts_of 24 content)), f \<mapsto> y, g \<mapsto> iv)"
    by (simp add: s8_def seal_parts_updates c c2)
  ultimately show ?thesis by (rule that)
qed

lemma DoOpenFile_result:
  assumes input: "r_in s = typed [b, c, l, m, f, g] @ rest"
    and names: "name_ok b" "name_ok c" "name_ok f" "name_ok g" "b \<noteq> c" "c \<noteq> f" "c \<noteq> g"
    and writable: "e_writable env c"
    and files: "r_files s b = Some sealed" "r_files s f = Some y" "r_files s g = Some iv"
    and blocks: "y \<noteq> []" "length y \<le> 128" "length iv = 8" "length (e_iv env) = 8"
    and choices: "key_choice l s pub priv" "cipher_choice m alg"
    and opens: "R_OpenInit (e_envelope env) alg y iv priv (r_divs s) = Some (Inr ctx, k)"
    and content: "fst (open_parts ctx (parts_of 24 sealed)) = Inr content"
  obtains s' where "DoOpenFile env s = Some (Inr s')" "r_in s' = rest" "same_program s s'" "r_files s' = (r_files s)(c \<mapsto> content)"
proof -
  define s1 where "s1 = answered ''  Enter filename of encrypted content to open'' (typed [c, l, m, f, g] @ rest) s"
  define s2 where "s2 = (answered ''  Enter filename to save the recovered content'' (typed [l, m, f, g] @ rest) s1)\<lparr>r_files := (r_files s)(c \<mapsto> [])\<rparr>"
  define s3 where "s3 = answered (key_prompt s2) (typed [m, f, g] @ rest) s2"
  define s4 where "s4 = answered ''  DES, DESX, DES-EDE2 or DES-EDE3 (1, X, 2 or 3)?'' (typed [f, g] @ rest) s3"
  define s5 where "s5 = answered ''  Enter filename of the encrypted key'' (typed [g] @ rest) s4"
  define s6 where "s6 = answered ''  Enter filename of the initializing vector'' rest s5"
  define s7 where "s7 = s6\<lparr>r_divs := k\<rparr>"
  obtain d outs where d: "update_parts R_OpenUpdate ctx (parts_of 24 sealed) = (d, outs)" by fastforce
  obtain d2 final where d2: "R_OpenFinal d = (Inr final, d2)" "content = outs @ final"
    using content by (cases "R_OpenFinal d"; cases "fst (R_OpenFinal d)") (auto simp: open_parts_updates d prepend_def)
  have fs: "r_files s4 = (r_files s)(c \<mapsto> [])" "r_files s7 = (r_files s)(c \<mapsto> [])"
    by (simp_all add: s7_def s6_def s5_def s4_def s3_def s2_def)
  have 1: "ReadInit ''  Enter filename of encrypted content to open'' s = Inr (Some (b, 0), s1)"
    unfolding s1_def by (rule ReadInit_line) (use input names files in simp_all)
  have 2: "WriteInit env ''  Enter filename to save the recovered content'' s1 = Inr (Some (Named c), s2)"
    unfolding s2_def by (subst WriteInit_line) (use names writable in \<open>simp_all add: s1_def\<close>)
  have 3: "GetPrivateKey s2 = Inr (Some priv, s3)"
    unfolding s3_def by (rule GetPrivateKey_line [of l _ pub]) (use choices in \<open>simp_all add: s2_def s1_def\<close>)
  have 4: "GetEncryptionAlgorithm s3 = Inr (Some alg, s4)"
    unfolding s4_def by (rule GetEncryptionAlgorithm_line [of m]) (use choices in \<open>simp_all add: s3_def\<close>)
  have 5: "ReadBlock 128 ''  Enter filename of the encrypted key'' s4 = Inr (Some y, s5)"
    unfolding s5_def by (rule ReadBlock_line [of f]) (use names files blocks in \<open>simp_all add: fs, simp add: s4_def\<close>)
  have 6: "ReadBlock 8 ''  Enter filename of the initializing vector'' s5 = Inr (Some iv, s6)"
    unfolding s6_def by (rule ReadBlock_line [of g]) (use names files blocks in \<open>auto simp: fs s5_def\<close>)
  have 7: "R_OpenInit (e_envelope env) alg y (array_write (e_iv env) 0 iv) priv (r_divs s6) = Some (Inr ctx, k)"
    using opens blocks by (simp add: s6_def s5_def s4_def s3_def s2_def s1_def array_write_def)
  have 8: "open_loop (Named c) (b, 0) ctx s7 = Some (d, s7\<lparr>r_files := (r_files s7)(c \<mapsto> [] @ outs)\<rparr>)"
    by (rule open_loop_parts) (use names(5) files d in \<open>simp_all add: fs\<close>)
  let ?s = "s7\<lparr>r_files := (r_files s)(c \<mapsto> content)\<rparr>"
  have 9: "WriteUpdate (Named c) final (s7\<lparr>r_files := (r_files s7)(c \<mapsto> [] @ outs)\<rparr>) = ?s"
    by (simp add: WriteUpdate_named fs d2)
  have "DoOpenFile env s = Some (Inr ?s)"
    by (simp add: DoOpenFile_def 1 2 3 4 5 6 7 s7_def [symmetric] 8 [unfolded append_Nil] d2(1) 9 [unfolded append_Nil])
  moreover have "r_in ?s = rest" "same_program s ?s"
    by (simp_all add: s7_def s6_def s5_def s4_def s3_def s2_def s1_def same_program_def)
  ultimately show ?thesis by (intro that [of ?s]) simp_all
qed

lemma SealInit_lengths:
  assumes r: "random_ok r" and pair: "rsa_pair pub priv p q e dP dQ"
    and seal: "R_SealInit byte ce [pub] alg r k = Some (Inr (keys, iv), ctx, r', k')"
  obtains y where "keys = [y]" "y \<noteq> []" "length y \<le> 128" "length iv = 8"
proof -
  define n :: nat where "n = (if alg = EA_DES_CBC then 8 else 24)"
  obtain key0 r1 r2 where g: "R_GenerateBytes n r = Inr (key0, r1)" "R_GenerateBytes 8 r1 = Inr (iv, r2)"
    using seal unfolding R_SealInit_def Let_def n_def by (auto split: sum.splits Option.bind_splits)
  have "length iv = 8" using R_GenerateBytes_ok [OF conjunct2 [OF R_GenerateBytes_ok [OF r g(1)]] g(2)] by simp
  obtain b key q1 k1 y where y: "keys = [y]" "RSAPublicEncrypt b key pub q1 k1 = Some (Inr y, r', k')"
    using seal unfolding R_SealInit_def Let_def by (auto split: sum.splits Option.bind_splits)
  note R = RSAPublicEncrypt_result [OF pair y(2)]
  show ?thesis
    by (rule that [OF y(1) _ _ \<open>length iv = 8\<close>]) (use R rsa_pair_length(2,3) [OF pair refl] in auto)
qed

subsection \<open>The menu\<close>

lemma print_menu_simps [simp]:
  "r_in (print_menu s) = r_in s" "r_files (print_menu s) = r_files s" "SILENT_PROMPT (print_menu s) = SILENT_PROMPT s"
  "PUBLIC_KEY3 (print_menu s) = PUBLIC_KEY3 s" "PRIVATE_KEY3 (print_menu s) = PRIVATE_KEY3 s"
  "KEYPAIR3_READY (print_menu s) = KEYPAIR3_READY s" "r_random (print_menu s) = r_random s" "r_divs (print_menu s) = r_divs s"
  by (simp_all add: print_menu_def PrintMessage_def)

text \<open>The state in which a command starts.\<close>

definition chosen :: "string \<Rightarrow> rdemo \<Rightarrow> rdemo" where
  "chosen rest s = answered ''  Enter choice'' rest (print_menu s)"

lemma chosen_simps [simp]:
  "r_in (chosen rest s) = rest" "r_files (chosen rest s) = r_files s" "r_random (chosen rest s) = r_random s"
  "r_divs (chosen rest s) = r_divs s" "same_program s (chosen rest s)"
  by (simp_all add: chosen_def same_program_def)

lemma main_loop_command:
  assumes "r_in s = c # NL # rest" "c \<notin> {NL, CR, NUL, CHR ''Q'', CHR ''q''}" "do_command env c (chosen rest s) = Some (Inr s')"
  shows "main_loop env s = main_loop env s'"
proof -
  have "GetCommand 80 (blank_to_cancel ''  Enter choice'') (print_menu s) = Inr ([c], chosen rest s)"
    unfolding chosen_def answered_def by (rule GetCommand_line) (use assms in \<open>simp_all add: line_ok_def\<close>)
  with assms(2,3) show ?thesis by (subst main_loop.simps) simp
qed

lemma main_loop_quit:
  assumes "r_in s = CHR ''Q'' # NL # rest"
  shows "main_loop env s = Some (Inr (chosen rest s))"
proof -
  have "GetCommand 80 (blank_to_cancel ''  Enter choice'') (print_menu s) = Inr ([CHR ''Q''], chosen rest s)"
    unfolding chosen_def answered_def by (rule GetCommand_line) (use assms in \<open>simp_all add: line_ok_def NL_def CR_def NUL_def\<close>)
  then show ?thesis by (subst main_loop.simps) simp
qed

lemma command_chars:
  "CHR ''E'' \<notin> {NL, CR, NUL, CHR ''Q'', CHR ''q''}" "CHR ''O'' \<notin> {NL, CR, NUL, CHR ''Q'', CHR ''q''}"
  "CHR ''S'' \<notin> {NL, CR, NUL, CHR ''Q'', CHR ''q''}" "CHR ''V'' \<notin> {NL, CR, NUL, CHR ''Q'', CHR ''q''}"
  by (simp_all add: NL_def CR_def NUL_def)

lemma do_command_letters:
  "do_command env (CHR ''E'') = DoSealFile env" "do_command env (CHR ''O'') = DoOpenFile env"
  "do_command env (CHR ''S'') = DoSignFile env" "do_command env (CHR ''V'') = DoVerifyFile env"
  by (simp_all add: do_command_def fun_eq_iff)

lemma same_program_trans: "same_program s s' \<Longrightarrow> same_program s' s'' \<Longrightarrow> same_program s s''"
  by (simp add: same_program_def)

text \<open>
  C33: A user who seals a file \<open>a\<close> into \<open>b\<close>, with the encrypted key in \<open>f\<close> and the initializing
  vector in \<open>g\<close>, and then opens \<open>b\<close> into \<open>c\<close> with the same key pair and algorithm, finds in \<open>c\<close>
  what \<open>a\<close> held, whatever its length; the session ends and changes no other file.
\<close>

text \<open>
  C34: A user who seals a file "a" into "b", with the encrypted key in "f" and the
  initializing vector in "g", and then opens "b" into "c" with the same key pair and
  algorithm, finds in "c" what "a" held, whatever its length; the session ends and changes
  no other file.
\<close>

theorem rdemo_seal_open:
  assumes input: "r_in s = typed [''E'', a, b, l, m, f, g, ''O'', b, c, l, m, f, g, ''Q''] @ rest"
    and names: "list_all name_ok [a, b, c, f, g]" "list_all (e_writable env) [b, c, f, g]" "a \<noteq> b" "distinct [b, c, f, g]"
    and content: "r_files s a = Some content"
    and choices: "key_choice l s pub priv" "cipher_choice m alg" "rsa_pair pub priv p q e dP dQ"
    and locals: "random_ok (r_random s)" "length (env_buffer (e_envelope env)) = 8" "length (e_iv env) = 8"
    and seal: "R_SealInit (e_byte env) (e_envelope env) [pub] alg (r_random s) (r_divs s) = Some (Inr (keys, iv), ctx, rnd, k)"
  shows "\<exists>s'. main_loop env s = Some (Inr s') \<and> r_in s' = rest \<and>
    r_files s' = (r_files s)(b \<mapsto> snd (seal_parts ctx (parts_of 24 content)), f \<mapsto> keys ! 0, g \<mapsto> iv, c \<mapsto> content)"
proof -
  obtain y where y: "keys = [y]" "y \<noteq> []" "length y \<le> 128" "length iv = 8"
    by (rule SealInit_lengths [OF locals(1) choices(3) seal])
  define sealed where "sealed = snd (seal_parts ctx (parts_of 24 content))"
  let ?s = "chosen (typed [a, b, l, m, f, g] @ typed [''O'', b, c, l, m, f, g, ''Q''] @ rest) s"
  obtain s1 where s1: "DoSealFile env ?s = Some (Inr s1)" "r_in s1 = typed [''O'', b, c, l, m, f, g, ''Q''] @ rest"
    "same_program ?s s1" "r_files s1 = (r_files s)(b \<mapsto> sealed, f \<mapsto> y, g \<mapsto> iv)"
    by (rule DoSealFile_result [of ?s a b l m f g "typed [''O'', b, c, l, m, f, g, ''Q''] @ rest" env content pub priv alg y iv ctx rnd k])
      (use names content choices seal y same_program_choice [OF chosen_simps(5) [of s]] in \<open>auto simp: sealed_def\<close>)
  have key: "key_choice l s1 pub priv"
    using choices(1) same_program_choice [OF same_program_trans [OF chosen_simps(5) s1(3)]] by simp
  obtain d k2 where d: "R_OpenInit (e_envelope env) alg y iv priv (r_divs s1) = Some (Inr d, k2)" "envelope_pair ctx d"
    using seal_open_init [where pubs = "[pub]" and i = 0, unfolded nth_Cons_0, OF choices(3) _ locals(1,2,2) seal, of "r_divs s1"]
    by (auto simp: y(1))
  have opened: "fst (open_parts d (parts_of 24 sealed)) = Inr content"
    using seal_open [OF d(2) surjective_pairing, of "parts_of 24 sealed" "parts_of 24 content"]
    by (auto simp: sealed_def concat_parts_of)
  let ?s1 = "chosen (typed [b, c, l, m, f, g] @ typed [''Q''] @ rest) s1"
  obtain s2 where s2: "DoOpenFile env ?s1 = Some (Inr s2)" "r_in s2 = typed [''Q''] @ rest" "r_files s2 = (r_files s1)(c \<mapsto> content)"
    by (rule DoOpenFile_result [of ?s1 b c l m f g "typed [''Q''] @ rest" env sealed y iv pub priv alg d k2 content])
      (use names d(1) opened key choices y locals s1(4) same_program_choice [OF chosen_simps(5) [of s1]] in auto)
  have "main_loop env s = main_loop env s1"
    by (rule main_loop_command [OF _ command_chars(1)]) (use input s1(1) in \<open>simp_all add: do_command_letters\<close>)
  also have "\<dots> = main_loop env s2"
    by (rule main_loop_command [OF _ command_chars(2)]) (use s1(2) s2(1) in \<open>simp_all add: do_command_letters\<close>)
  also have "\<dots> = Some (Inr (chosen rest s2))"
    by (rule main_loop_quit) (use s2(2) in simp)
  finally show ?thesis using s2(3) s1(4) by (simp add: sealed_def y(1))
qed

subsection \<open>Signing and verifying\<close>

lemma verify_parts:
  assumes "digest_ok (digestContext c)" "R_VerifyInit c alg = (None, c')" "digest_fits (length (concat xs))"
    "length signature \<le> 128"
  shows "map_option fst (R_VerifyFinal (foldl (\<lambda>c x. snd (R_SignUpdate c x)) c' xs) signature pub k) =
    map_option fst (R_VerifyBlockSignature c (concat xs) signature alg pub k)"
proof -
  obtain d where d: "R_DigestInit (digestContext c) alg = (None, d)" "c' = c\<lparr>digestContext := d\<rparr>"
    using assms(2) by (auto simp: R_VerifyInit_def split: prod.splits)
  then have alg: "alg = DA_MD2 \<or> alg = DA_MD5" using R_DigestInit_status [of "digestContext c" alg] by simp
  define dx where "dx = foldl (\<lambda>d x. snd (R_DigestUpdate d x)) d xs"
  note o = digest_once [OF assms(1) d(1) assms(3)]
  have "fst (snd (R_DigestFinal dx)) = message_digest alg (concat xs)"
    unfolding dx_def using digest.final_pieces [OF o(2) assms(3)] o(1) by simp
  moreover have "digestAlgorithm dx = alg"
    unfolding dx_def using o(3) by (induction xs arbitrary: d) (simp_all add: R_DigestUpdate_def)
  ultimately obtain d2 where f: "R_DigestFinal dx = (None, message_digest alg (concat xs), d2)" "digestAlgorithm d2 = alg"
    by (auto simp: R_DigestFinal_def split: if_splits)
  have info: "length (R_EncodeDigestInfo alg (message_digest alg (concat xs))) = DIGEST_INFO_LEN"
    by (simp add: R_EncodeDigestInfo_def DIGEST_INFO_LEN_def message_digest_def)
  show ?thesis
    unfolding R_VerifyBlockSignature_value [OF assms(1,3) alg assms(4)] sign_updates R_VerifyFinal_def d(2)
    using assms(4) by (auto simp add: dx_def [symmetric] f info split: Option.bind_split sum.split prod.split)
qed

text \<open>What the questions of an operation print, unless the program is silent, and what signing prints.\<close>

definition questions :: "rdemo \<Rightarrow> string list \<Rightarrow> printed list" where
  "questions s prompts = (if SILENT_PROMPT s then [] else map (\<lambda>p. Text (blank_to_cancel p @ [NL])) prompts)"

lemma answered_out: "r_out (answered p rest s) = r_out s @ questions s [p]"
  by (simp add: answered_def replied_def questions_def)

definition signature_line :: "bytes \<Rightarrow> string" where
  "signature_line signature =
     concat (map (\<lambda>b. ''0x'' @ hex_byte b @ '', '') (butlast signature)) @ ''0x'' @ hex_byte (last signature) @ [NL]"

definition sign_out :: "rdemo \<Rightarrow> bytes \<Rightarrow> printed list" where
  "sign_out s signature = questions s [''  Enter filename of content to sign'', key_prompt s, ''  MD2 or MD5 (2 or 5)?''] @
     [Text (signature_line signature)] @ questions s [''  Enter filename to save the signature'']"

definition verify_questions :: "rdemo \<Rightarrow> printed list" where
  "verify_questions s = questions s [''  Enter name of file to verify'', key_prompt s, ''  MD2 or MD5 (2 or 5)?'',
     ''  Enter filename of signature'']"

lemma key_prompt_answered: "key_prompt (answered p rest s) = key_prompt s"
  by (simp add: key_prompt_def)

lemma same_program_out:
  assumes "same_program s s'"
  shows "sign_out s' signature = sign_out s signature" "verify_questions s' = verify_questions s"
  using assms by (simp_all add: sign_out_def verify_questions_def questions_def key_prompt_def same_program_def)

lemma DoSignFile_result:
  assumes input: "r_in s = typed [a, l, h, f] @ rest"
    and names: "name_ok a" "name_ok f" "e_writable env f"
    and content: "r_files s a = Some content"
    and choices: "key_choice l s pub priv" "digest_choice h alg"
    and sign: "R_SignInit (e_signature env) alg = (None, c0)"
      "map_option fst (R_SignFinal (foldl (\<lambda>c x. snd (R_SignUpdate c x)) c0 (parts_of 24 content)) priv (r_divs s)) = Some (Inr signature)"
  obtains s' where "DoSignFile env s = Some (Inr s')" "r_in s' = rest" "same_program s s'" "r_files s' = (r_files s)(f \<mapsto> signature)"
    "r_out s' = r_out s @ sign_out s signature"
proof -
  obtain c k where final: "R_SignFinal (foldl (\<lambda>c x. snd (R_SignUpdate c x)) c0 (parts_of 24 content)) priv (r_divs s) = Some (Inr signature, c, k)"
    using sign(2) by auto
  define s1 where "s1 = answered ''  Enter filename of content to sign'' (typed [l, h, f] @ rest) s"
  define s2 where "s2 = answered (key_prompt s1) (typed [h, f] @ rest) s1"
  define s3 where "s3 = answered ''  MD2 or MD5 (2 or 5)?'' (typed [f] @ rest) s2"
  define s4 where "s4 = PrintLength signature (s3\<lparr>r_divs := k\<rparr>)"
  define s5 where "s5 = (answered ''  Enter filename to save the signature'' rest s4)\<lparr>r_files := (r_files s)(f \<mapsto> signature)\<rparr>"
  have fs: "r_files s3 = r_files s" "r_divs s3 = r_divs s" by (simp_all add: s3_def s2_def s1_def)
  have 1: "ReadInit ''  Enter filename of content to sign'' s = Inr (Some (a, 0), s1)"
    unfolding s1_def by (rule ReadInit_line) (use input names content in simp_all)
  have 2: "GetPrivateKey s1 = Inr (Some priv, s2)"
    unfolding s2_def by (rule GetPrivateKey_line [of l _ pub]) (use choices in \<open>simp_all add: s1_def\<close>)
  have 3: "GetDigestAlgorithm s2 = Inr (Some alg, s3)"
    unfolding s3_def by (rule GetDigestAlgorithm_line [of h]) (use choices in \<open>simp_all add: s2_def\<close>)
  have 4: "sign_loop (a, 0) c0 s3 = (None, foldl (\<lambda>c x. snd (R_SignUpdate c x)) c0 (parts_of 24 content))"
    using sign_loop_parts [of s3 a content 0] content by (simp add: fs)
  have 5: "WriteBlock env signature ''  Enter filename to save the signature'' s4 = Inr (Some (), s5)"
    unfolding s5_def by (subst WriteBlock_line) (use names in \<open>simp_all add: s4_def PrintLength_def s3_def s2_def s1_def\<close>)
  have "DoSignFile env s = Some (Inr s5)"
    by (simp add: DoSignFile_def 1 2 3 sign(1) 4 fs final s4_def [symmetric] 5)
  moreover have "r_in s5 = rest" "same_program s s5"
    by (simp_all add: s5_def s4_def s3_def s2_def s1_def same_program_def PrintLength_def)
  moreover have "r_out s5 = r_out s @ sign_out s signature"
    by (simp add: s5_def s4_def s3_def s2_def s1_def answered_out PrintLength_def put_def key_prompt_answered sign_out_def
        signature_line_def questions_def)
  ultimately show ?thesis by (intro that [of s5]) (simp_all add: s5_def)
qed

text \<open>What verifying prints.\<close>

definition verdict :: "bool \<Rightarrow> bool \<Rightarrow> printed list" where
  "verdict silent ok =
     (if ok then (if silent then [] else [Text (''Signature verified.'' @ [NL])])
      else [Text (''ERROR: '' @ ''Signature is incorrect'' @ '' while '' @ ''verifying file'' @ [NL])])"

lemma DoVerifyFile_result:
  assumes input: "r_in s = typed [a, l, h, f] @ rest"
    and names: "name_ok a" "name_ok f"
    and files: "r_files s a = Some content" "r_files s f = Some signature" "signature \<noteq> []" "length signature \<le> 128"
    and choices: "key_choice l s pub priv" "digest_choice h alg"
    and init: "R_VerifyInit (e_signature env) alg = (None, c0)"
      "map_option fst (R_VerifyFinal (foldl (\<lambda>c x. snd (R_SignUpdate c x)) c0 (parts_of 16 content)) signature pub (r_divs s)) =
         Some (if ok then None else Some RE_SIGNATURE)"
  obtains s' where "DoVerifyFile env s = Some (Inr s')" "r_in s' = rest" "same_program s s'" "r_files s' = r_files s"
    "r_out s' = r_out s @ verify_questions s @ verdict (SILENT_PROMPT s) ok"
proof -
  obtain c k where final: "R_VerifyFinal (foldl (\<lambda>c x. snd (R_SignUpdate c x)) c0 (parts_of 16 content)) signature pub (r_divs s) =
      Some (if ok then None else Some RE_SIGNATURE, c, k)"
    using init(2) by auto
  define s1 where "s1 = answered ''  Enter name of file to verify'' (typed [l, h, f] @ rest) s"
  define s2 where "s2 = answered (key_prompt s1) (typed [h, f] @ rest) s1"
  define s3 where "s3 = answered ''  MD2 or MD5 (2 or 5)?'' (typed [f] @ rest) s2"
  define s4 where "s4 = answered ''  Enter filename of signature'' rest s3"
  define s5 where "s5 = s4\<lparr>r_divs := k, r_out := r_out s4 @ verdict (SILENT_PROMPT s) ok\<rparr>"
  have fs: "r_files s3 = r_files s" "r_files s4 = r_files s" "r_divs s4 = r_divs s" "SILENT_PROMPT s4 = SILENT_PROMPT s"
    by (simp_all add: s4_def s3_def s2_def s1_def)
  have 1: "ReadInit ''  Enter name of file to verify'' s = Inr (Some (a, 0), s1)"
    unfolding s1_def by (rule ReadInit_line) (use input names files in simp_all)
  have 2: "GetPublicKey s1 = Inr (Some pub, s2)"
    unfolding s2_def by (rule GetPublicKey_line [of l _ _ priv]) (use choices in \<open>simp_all add: s1_def\<close>)
  have 3: "GetDigestAlgorithm s2 = Inr (Some alg, s3)"
    unfolding s3_def by (rule GetDigestAlgorithm_line [of h]) (use choices in \<open>simp_all add: s2_def\<close>)
  have 4: "ReadBlock 128 ''  Enter filename of signature'' s3 = Inr (Some signature, s4)"
    unfolding s4_def by (rule ReadBlock_line [of f]) (use names files in \<open>simp_all add: fs, simp add: s3_def\<close>)
  have 5: "verify_loop (a, 0) c0 s4 = (None, foldl (\<lambda>c x. snd (R_SignUpdate c x)) c0 (parts_of 16 content))"
    using verify_loop_parts [of s4 a content 0] files by (simp add: fs)
  have "DoVerifyFile env s = Some (Inr s5)"
    by (cases ok) (simp_all add: DoVerifyFile_def 1 2 3 4 init(1) 5 fs final s5_def PrintError_def PrintMessage_def put_def
      verdict_def type_string_def)
  moreover have "r_in s5 = rest" "same_program s s5" "r_files s5 = r_files s"
    by (simp_all add: s5_def s4_def s3_def s2_def s1_def same_program_def)
  moreover have "r_out s5 = r_out s @ verify_questions s @ verdict (SILENT_PROMPT s) ok"
    by (simp add: s5_def s4_def s3_def s2_def s1_def answered_out key_prompt_answered verify_questions_def questions_def)
  ultimately show ?thesis by (intro that [of s5]) simp_all
qed

definition menu_out :: "bool \<Rightarrow> printed list" where
  "menu_out silent = (if silent then [] else map (\<lambda>line. Text (line @ [NL])) [[], ''S - Sign a file'', ''V - Verify a signed file'',
     ''E - sEal a file'', ''O - Open a sealed file'', ''G - Generate a keypair (may take a long time)'', ''Q - Quit''] @
     [Text (''  Enter choice'' @ '' (blank to cancel): '' @ [NL])])"

lemma chosen_out: "r_out (chosen rest s) = r_out s @ menu_out (SILENT_PROMPT s)"
  by (simp add: chosen_def answered_def replied_def blank_to_cancel_def menu_out_def print_menu_def PrintMessage_def)

lemma sign_init:
  assumes "digest_choice h alg"
  obtains c0 where "R_SignInit c alg = (None, c0)" "R_VerifyInit c alg = (None, c0)"
  using assms by (auto simp: digest_choice_def R_SignInit_def R_VerifyInit_def R_DigestInit_def Let_def DA_defs)

text \<open>
  C35: A user who signs a file "a" and then verifies a file "a'" with that signature and the
  public key of the pair finds the signature in the file asked for and no other file
  changed, and the session prints exactly the menus, the questions, the bytes of the
  signature and the verdict: that the signature is verified exactly when the algorithm is
  the same and the digests of the two files agree, and the error message that it is
  incorrect otherwise. With the silent option there are no menus and no questions, and a
  signature that is verified is answered by no message at all. (For files of fewer than 2^32
  - 63 bytes, the range of the byte counters of the digests, and a modulus of at least 45
  bytes, which takes an encoded digest.)
\<close>

theorem rdemo_sign_verify:
  assumes input: "r_in s = typed [''S'', a, l, h, f, ''V'', a', l, h', f, ''Q''] @ rest"
    and names: "list_all name_ok [a, a', f]" "e_writable env f" "a' \<noteq> f"
    and content: "r_files s a = Some content" "r_files s a' = Some content'"
      "digest_fits (length content)" "digest_fits (length content')"
    and choices: "key_choice l s pub priv" "digest_choice h alg" "digest_choice h' alg'"
    and key: "rsa_pair pub priv p q e dP dQ" "45 \<le> (priv_bits priv + 7) div 8"
    and locals: "digest_ok (digestContext (e_signature env))"
  shows "\<exists>s' signature. main_loop env s = Some (Inr s') \<and> r_in s' = rest \<and> r_files s' = (r_files s)(f \<mapsto> signature) \<and>
    r_out s' = r_out s @ menu_out (SILENT_PROMPT s) @ sign_out s signature @ menu_out (SILENT_PROMPT s) @ verify_questions s @
      verdict (SILENT_PROMPT s) (alg' = alg \<and> message_digest alg' content' = message_digest alg content) @
      menu_out (SILENT_PROMPT s)"
proof -
  let ?c = "e_signature env"
  have algs: "alg = DA_MD2 \<or> alg = DA_MD5" "alg' = DA_MD2 \<or> alg' = DA_MD5" using choices by (auto simp: digest_choice_def)
  obtain c0 where c0: "R_SignInit ?c alg = (None, c0)" by (rule sign_init [OF choices(2)])
  obtain c1 where c1: "R_VerifyInit ?c alg' = (None, c1)" by (rule sign_init [OF choices(3)])
  let ?ok = "alg' = alg \<and> message_digest alg' content' = message_digest alg content"
  obtain sg k' where sg: "R_SignBlock ?c content alg priv (r_divs s) = Some (Inr sg, k')" "length sg = (priv_bits priv + 7) div 8"
    "\<And>k0. map_option fst (R_VerifyBlockSignature ?c content' sg alg' pub k0) = Some (if ?ok then None else Some RE_SIGNATURE)"
    using signed_verified [OF key algs locals locals content(3,4), of "r_divs s"] by blast
  have lsg: "sg \<noteq> []" "length sg \<le> 128" using sg(2) key(2) rsa_pair_length(2) [OF key(1) refl] by auto
  have parts: "digest_fits (length (concat (parts_of 24 content)))" "digest_fits (length (concat (parts_of 16 content')))"
    using content(3,4) by (simp_all add: concat_parts_of)
  have sign: "map_option fst (R_SignFinal (foldl (\<lambda>c x. snd (R_SignUpdate c x)) c0 (parts_of 24 content)) priv (r_divs s)) = Some (Inr sg)"
    using sign_parts [OF locals c0 parts(1), of priv "r_divs s"] sg(1) by (simp add: concat_parts_of)
  let ?s = "chosen (typed [a, l, h, f] @ typed [''V'', a', l, h', f, ''Q''] @ rest) s"
  obtain s1 where s1: "DoSignFile env ?s = Some (Inr s1)" "r_in s1 = typed [''V'', a', l, h', f, ''Q''] @ rest"
    "same_program ?s s1" "r_files s1 = (r_files s)(f \<mapsto> sg)" "r_out s1 = r_out ?s @ sign_out ?s sg"
    by (rule DoSignFile_result [of ?s a l h f "typed [''V'', a', l, h', f, ''Q''] @ rest" env content pub priv alg c0 sg])
      (use names content choices c0 sign same_program_choice [OF chosen_simps(5) [of s]] in auto)
  have same1: "same_program s s1" using same_program_trans [OF chosen_simps(5) s1(3)] .
  have verify: "map_option fst (R_VerifyFinal (foldl (\<lambda>c x. snd (R_SignUpdate c x)) c1 (parts_of 16 content')) sg pub (r_divs s1)) =
      Some (if ?ok then None else Some RE_SIGNATURE)"
    using verify_parts [OF locals c1 parts(2) lsg(2), of pub "r_divs s1"] sg(3) by (simp add: concat_parts_of)
  let ?s1 = "chosen (typed [a', l, h', f] @ typed [''Q''] @ rest) s1"
  obtain s2 where s2: "DoVerifyFile env ?s1 = Some (Inr s2)" "r_in s2 = typed [''Q''] @ rest" "same_program ?s1 s2"
    "r_files s2 = r_files ?s1" "r_out s2 = r_out ?s1 @ verify_questions ?s1 @ verdict (SILENT_PROMPT ?s1) ?ok"
    by (rule DoVerifyFile_result [of ?s1 a' l h' f "typed [''Q''] @ rest" content' sg pub priv alg' env c1 ?ok])
      (use names content choices lsg c1 verify s1(4) same_program_choice [OF chosen_simps(5) [of s1]]
        same_program_choice [OF same1] in auto)
  have silent: "SILENT_PROMPT s2 = SILENT_PROMPT s" "SILENT_PROMPT (chosen r s1) = SILENT_PROMPT s" for r
    using same_program_trans [OF chosen_simps(5) s2(3)] same1 by (simp_all add: same_program_def chosen_def)
  have "main_loop env s = main_loop env s1"
    by (rule main_loop_command [OF _ command_chars(3)]) (use input s1(1) in \<open>simp_all add: do_command_letters\<close>)
  also have "\<dots> = main_loop env s2"
    by (rule main_loop_command [OF _ command_chars(4)]) (use s1(2) s2(1) in \<open>simp_all add: do_command_letters\<close>)
  also have "\<dots> = Some (Inr (chosen rest s2))"
    by (rule main_loop_quit) (use s2(2) in simp)
  finally have "main_loop env s = Some (Inr (chosen rest s2))" .
  moreover have "r_files (chosen rest s2) = (r_files s)(f \<mapsto> sg)" by (simp add: s2(4) s1(4))
  moreover have "r_out (chosen rest s2) = r_out s @ menu_out (SILENT_PROMPT s) @ sign_out s sg @ menu_out (SILENT_PROMPT s) @
      verify_questions s @ verdict (SILENT_PROMPT s) ?ok @ menu_out (SILENT_PROMPT s)"
    using same1 by (simp add: chosen_out s2(5) s1(5) silent same_program_out [OF chosen_simps(5)] same_program_out(2) [OF same1]
        same_program_def)
  ultimately show ?thesis by (intro exI [of _ "chosen rest s2"] exI [of _ sg]) simp
qed

subsection \<open>Sample sessions\<close>

definition sample_env :: rdemo_env where
  "sample_env = \<lparr>e_writable = (\<lambda>_. True), e_signature = sample_signature, e_envelope = sample_envelope,
     e_byte = (\<lambda>_. 0), e_iv = replicate 8 0, e_key_size = 0\<rparr>"

definition sample_session :: "string list \<Rightarrow> R_RSA_PUBLIC_KEY \<Rightarrow> R_RSA_PRIVATE_KEY \<Rightarrow> rdemo" where
  "sample_session ls pub priv = \<lparr>r_in = typed ls, r_out = [], r_files = [''in'' \<mapsto> [1, 2, 3], ''other'' \<mapsto> [4]],
     SILENT_PROMPT = False, PUBLIC_KEY3 = pub, PRIVATE_KEY3 = priv, KEYPAIR3_READY = True, r_random = seeded_random, r_divs = 0\<rparr>"

lemma sample_names: "list_all name_ok [''in'', ''other'', ''out'', ''back'', ''key'', ''iv'', ''sig'']"
  by (simp add: name_ok_def line_ok_def NL_def CR_def NUL_def)

lemma rdemo_seal_open_witness:
  "\<exists>s'. main_loop sample_env (sample_session [''E'', ''in'', ''out'', ''3'', ''1'', ''key'', ''iv'',
      ''O'', ''out'', ''back'', ''3'', ''1'', ''key'', ''iv'', ''Q''] recipient_public recipient_private) = Some (Inr s') \<and>
    r_files s' ''back'' = Some [1, 2, 3]"
proof -
  obtain y ctx r' k' where seal: "R_SealInit (\<lambda>_. 0) sample_envelope [recipient_public] EA_DES_CBC seeded_random 0 =
      Some (Inr ([y], replicate 8 7), ctx, r', k')"
    using sample_seal by blast
  let ?ls = "[''E'', ''in'', ''out'', ''3'', ''1'', ''key'', ''iv'', ''O'', ''out'', ''back'', ''3'', ''1'', ''key'', ''iv'', ''Q'']"
  have "\<exists>s'. main_loop sample_env (sample_session ?ls recipient_public recipient_private) = Some (Inr s') \<and> r_in s' = [] \<and>
    r_files s' = (r_files (sample_session ?ls recipient_public recipient_private))
      (''out'' \<mapsto> snd (seal_parts ctx (parts_of 24 [1, 2, 3])), ''key'' \<mapsto> [y] ! 0, ''iv'' \<mapsto> replicate 8 7, ''back'' \<mapsto> [1, 2, 3])"
    by (rule rdemo_seal_open [where a = "''in''" and l = "''3''" and m = "''1''" and pub = recipient_public and priv = recipient_private
        and alg = EA_DES_CBC and rnd = r' and k = k', OF _ _ _ _ _ _ _ _ recipient_pair])
      (use sample_names seal in \<open>simp_all add: sample_env_def sample_session_def key_choice_def cipher_choice_def\<close>)
  then show ?thesis by auto
qed

lemma rdemo_sign_verify_witness:
  "\<exists>s' out. main_loop sample_env (sample_session [''S'', ''in'', ''3'', ''5'', ''sig'', ''V'', ''other'', ''3'', ''2'', ''sig'', ''Q'']
      signer_public signer_private) = Some (Inr s') \<and> r_out s' = out @ verdict False False @ menu_out False"
proof -
  let ?s = "sample_session [''S'', ''in'', ''3'', ''5'', ''sig'', ''V'', ''other'', ''3'', ''2'', ''sig'', ''Q''] signer_public signer_private"
  have "\<exists>s' signature. main_loop sample_env ?s = Some (Inr s') \<and> r_in s' = [] \<and>
    r_files s' = (r_files ?s)(''sig'' \<mapsto> signature) \<and>
    r_out s' = r_out ?s @ menu_out (SILENT_PROMPT ?s) @ sign_out ?s signature @ menu_out (SILENT_PROMPT ?s) @ verify_questions ?s @
      verdict (SILENT_PROMPT ?s) (DA_MD2 = DA_MD5 \<and> message_digest DA_MD2 [4] = message_digest DA_MD5 [1, 2, 3]) @
      menu_out (SILENT_PROMPT ?s)"
    by (rule rdemo_sign_verify [where a = "''in''" and a' = "''other''" and l = "''3''" and h = "''5''" and h' = "''2''",
        OF _ _ _ _ _ _ _ _ _ _ _ signer_pair])
      (use sample_names in \<open>simp_all add: sample_env_def sample_session_def key_choice_def digest_choice_def digest_fits_small sample_bits\<close>)
  moreover have q: "SILENT_PROMPT ?s = False" "(DA_MD2 = DA_MD5) = False" by (simp_all add: sample_session_def DA_defs)
  ultimately obtain s' signature where s': "main_loop sample_env ?s = Some (Inr s')"
    "r_out s' = r_out ?s @ menu_out False @ sign_out ?s signature @ menu_out False @ verify_questions ?s @ verdict False False @ menu_out False"
    unfolding q by auto
  show ?thesis
    by (intro exI [of _ s'] exI [of _ "r_out ?s @ menu_out False @ sign_out ?s signature @ menu_out False @ verify_questions ?s"])
      (simp only: s' append.assoc simp_thms)
qed

end
