(* ===== verification/Dhdemo.thy ===== *)
theory Dhdemo
  imports Rdemo R_Dh
begin

section \<open>The key agreement demonstration program (rdemo/dhdemo.c)\<close>

text \<open>
  The second menu program sets up key agreements and computes agreed keys, with parameters of its
  own or generated ones.  It has the console, the questions and the files of \<open>Rdemo_Console\<close>, and
  differs in its messages, in its prompts, which are printed as they are, and in \<open>ReadBlock\<close>.
  A block of a size the user types may not be allocated; \<open>None\<close> is not returning.
\<close>

subsection \<open>Parameters and state\<close>

definition PRIME1 :: bytes where
  "PRIME1 = [0xd0, 0x45, 0x1f, 0xfe, 0x2c, 0x64, 0xc4, 0xed, 0x6b, 0x0a, 0xe6, 0x36, 0x5b, 0x7f, 0xef,
     0x9c, 0x15, 0x42, 0x5e, 0x40, 0xa3, 0x7c, 0xa5, 0xf8, 0x39, 0x86, 0x5e, 0x2c, 0xfb, 0x41,
     0x69, 0xa0, 0xd8, 0x25, 0xc9, 0x13, 0x0f, 0x88, 0x64, 0xff, 0xfc, 0xf3, 0xbf, 0xbe, 0xb0,
     0x27, 0x36, 0x60, 0x67, 0xaa, 0x27, 0xe2, 0x7b, 0xfc, 0xaf, 0x40, 0x00, 0x00, 0x00, 0x00,
     0x00, 0x00, 0x00, 0x01]"

definition GENERATOR1 :: bytes where
  "GENERATOR1 = [0x0a, 0xcf, 0x95, 0x8c, 0x40, 0xd3, 0x01, 0xef, 0xc5, 0x15, 0x3e, 0x7d, 0xcd, 0x5e, 0xf7,
     0x5f, 0xec, 0x9e, 0x8f, 0xb0, 0xfa, 0xe6, 0xa8, 0x0e, 0xe5, 0xc3, 0xb8, 0x4b, 0x9c, 0x0e,
     0x51, 0x30, 0x51, 0xb2, 0xb7, 0x54, 0x2e, 0x66, 0xb8, 0xd3, 0xa2, 0x5e, 0x93, 0x89, 0x11,
     0xad, 0x6b, 0xe5, 0xc2, 0x43, 0x95, 0x09, 0x9c, 0x6d, 0xda, 0xa8, 0x6e, 0x18, 0x94, 0x2f,
     0x29, 0x84, 0x27, 0x5a]"

definition PARAMS1 :: R_DH_PARAMS where
  "PARAMS1 = \<lparr>dh_prime = PRIME1, dh_generator = GENERATOR1\<rparr>"

text \<open>
  A generation that fails leaves the lengths of the second parameters as they were, but their
  pointers on memory that nothing was written to, which \<open>PARAMS2_SET\<close> records.
\<close>

record dhdemo = console +
  PARAMS2 :: R_DH_PARAMS
  PARAMS2_SET :: bool
  PARAMS2_READY :: bool
  d_random :: R_RANDOM_STRUCT
  d_divs :: u32

text \<open>
  The names that can be written, the sizes that can be allocated, and what local variables hold
  that are used without being set: the number that \<open>sscanf\<close> did not find, and the length of a
  private value that was not read.
\<close>

record dhdemo_env =
  d_writable :: "string \<Rightarrow> bool"
  d_alloc :: "nat \<Rightarrow> bool"
  d_number :: int
  d_length :: nat

datatype params_ref = To_PARAMS1 | To_PARAMS2

fun deref :: "params_ref \<Rightarrow> dhdemo \<Rightarrow> R_DH_PARAMS" where
  "deref To_PARAMS1 s = PARAMS1"
| "deref To_PARAMS2 s = PARAMS2 s"

definition params_set :: "params_ref \<Rightarrow> dhdemo \<Rightarrow> bool" where
  "params_set params s \<longleftrightarrow> params = To_PARAMS1 \<or> PARAMS2_SET s"

subsection \<open>Messages and questions\<close>

definition dh_type_string :: "re_code \<Rightarrow> string" where
  "dh_type_string code = (case code of
     RE_CONTENT_ENCODING \<Rightarrow> ''(Encrypted) content has RFC 1113 encoding error''
   | RE_DIGEST_ALGORITHM \<Rightarrow> ''Message-digest algorithm is invalid''
   | RE_KEY \<Rightarrow> ''Recovered DES key cannot decrypt encrypted content or encrypt signature''
   | RE_KEY_ENCODING \<Rightarrow> ''Encrypted key has RFC 1113 encoding error''
   | RE_MODULUS_LEN \<Rightarrow> ''Modulus length is invalid''
   | RE_NEED_RANDOM \<Rightarrow> ''Random structure is not seeded''
   | RE_PRIVATE_KEY \<Rightarrow> ''Private key cannot encrypt message digest, or cannot decrypt encrypted key''
   | RE_PUBLIC_KEY \<Rightarrow> ''Public key cannot encrypt DES key, or cannot decrypt signature''
   | RE_SIGNATURE \<Rightarrow> ''Signature on content or block is incorrect''
   | RE_SIGNATURE_ENCODING \<Rightarrow> ''(Encrypted) signature has RFC 1113 encoding error''
   | _ \<Rightarrow> ''Code 0x'' @ hex_code (re_number code))"

definition dh_PrintError :: "string \<Rightarrow> re_code option \<Rightarrow> 'a console_scheme \<Rightarrow> 'a console_scheme" where
  "dh_PrintError task type s =
     (case type of
        None \<Rightarrow> put (task @ [NL]) s
      | Some code \<Rightarrow> put (''ERROR: '' @ dh_type_string code @ '' while '' @ task @ [NL]) s)"

definition GetParams :: "string \<Rightarrow> dhdemo \<Rightarrow> rdemo_stop + params_ref option \<times> dhdemo" where
  "GetParams prompt s = ask False prompt (\<lambda>command. case command of
     [] \<Rightarrow> Cancelled
   | c # _ \<Rightarrow> if c = CHR ''1'' then Answer To_PARAMS1
       else if c = CHR ''2'' then
         (if \<not> PARAMS2_READY s then Again (Some ''ERROR: Parameters 2 have not been generated yet.  Try Again.'')
          else Answer To_PARAMS2)
       else Again (Some (if PARAMS2_READY s then ''ERROR: Please enter 1 or 2.  Try again.''
                         else ''ERROR: Please enter 1.  Try again.''))) s"

subsection \<open>Files\<close>

text \<open>
  The length is written once a file is open, the block counts when the whole file was read.
\<close>

definition dh_ReadBlock ::
  "nat \<Rightarrow> string \<Rightarrow> dhdemo \<Rightarrow> rdemo_stop + (nat option \<times> bytes option) \<times> dhdemo" where
  "dh_ReadBlock maxBlockLen prompt s =
     (case choose_input prompt s of
        Inl stop \<Rightarrow> Inl stop
      | Inr (None, s) \<Rightarrow> Inr ((None, None), s)
      | Inr (Some filename, s) \<Rightarrow>
          let content = the (r_files s filename);
              block = take maxBlockLen content
          in if maxBlockLen < length content
             then Inr ((Some (length block), None), dh_PrintError ''ERROR: Cannot read file or file is too large.'' None s)
             else Inr ((Some (length block), Some block), s))"

definition dh_WriteBlock :: "dhdemo_env \<Rightarrow> bytes \<Rightarrow> string \<Rightarrow> dhdemo \<Rightarrow> rdemo_stop + unit option \<times> dhdemo" where
  "dh_WriteBlock env block prompt s = write_block (d_writable env) block prompt s"

subsection \<open>The operations\<close>

definition typed_number :: "dhdemo_env \<Rightarrow> string \<Rightarrow> nat" where
  "typed_number env command = unat (of_int (case scan_int command of None \<Rightarrow> d_number env | Some n \<Rightarrow> n) :: u32)"

definition DoSetupAgreement :: "dhdemo_env \<Rightarrow> dhdemo \<Rightarrow> (rdemo_stop + dhdemo) option" where
  "DoSetupAgreement env s =
     asked (GetParams ''  Set up with parameters 1 or 2? (blank to cancel): '' s) (\<lambda>params s.
       case GetCommand 80 ''  Enter length in bytes of private value (blank to cancel): '' s of
         Inl stop \<Rightarrow> Some (Inl stop)
       | Inr (command, s) \<Rightarrow>
           if command = [] then Some (Inr s)
           else let privateValueLen = typed_number env command
           in if 0 < privateValueLen \<and> \<not> d_alloc env privateValueLen then Some (Inl Wild_Write)
           else if \<not> params_set params s then Some (Inl Wild_Read)
           else do {
             (status, randomStruct, DivCount) \<leftarrow> R_SetupDHAgreement privateValueLen (deref params s) (d_random s) (d_divs s);
             (let s = s\<lparr>d_random := randomStruct, d_divs := DivCount\<rparr>
              in case status of
                   Inl code \<Rightarrow> Some (Inr (dh_PrintError ''setting up key agreement'' (Some code) s))
                 | Inr (publicValue, privateValue) \<Rightarrow>
                     asked (dh_WriteBlock env publicValue ''  Enter filename to save the public value (blank to cancel): '' s) (\<lambda>_ s.
                     asked (dh_WriteBlock env privateValue ''  Enter filename to save the private value (blank to cancel): '' s) (\<lambda>_ s.
                     Some (Inr s))))
           })"

text \<open>
  At its end the computation clears as many bytes of the private value as were read, also when
  none were and the length was never set.
\<close>

definition clear_private :: "dhdemo_env \<Rightarrow> nat \<Rightarrow> nat option \<Rightarrow> dhdemo \<Rightarrow> rdemo_stop + dhdemo" where
  "clear_private env primeLen privateValueLen s =
     (if primeLen < (case privateValueLen of None \<Rightarrow> d_length env | Some n \<Rightarrow> n) then Inl Wild_Write else Inr s)"

definition DoComputeAgreedKey :: "dhdemo_env \<Rightarrow> dhdemo \<Rightarrow> (rdemo_stop + dhdemo) option" where
  "DoComputeAgreedKey env s =
     asked (GetParams ''  Compute with parameters 1 or 2? (blank to cancel): '' s) (\<lambda>params s.
       let primeLen = length (dh_prime (deref params s)) in
       case dh_ReadBlock primeLen (''  Enter filename of other party'' @ [CHR 0x27] @ ''s public value (blank to cancel): '') s of
         Inl stop \<Rightarrow> Some (Inl stop)
       | Inr ((_, None), s) \<Rightarrow> Some (clear_private env primeLen None s)
       | Inr ((_, Some otherPublicValue), s) \<Rightarrow>
           if length otherPublicValue \<noteq> primeLen
           then Some (clear_private env primeLen None (dh_PrintError (''ERROR: Other party'' @ [CHR 0x27] @ ''s public value has wrong length'') None s))
           else case dh_ReadBlock primeLen ''  Enter filename of private value (blank to cancel): '' s of
             Inl stop \<Rightarrow> Some (Inl stop)
           | Inr ((privateValueLen, None), s) \<Rightarrow> Some (clear_private env primeLen privateValueLen s)
           | Inr ((privateValueLen, Some privateValue), s) \<Rightarrow>
               if \<not> params_set params s then Some (Inl Wild_Read)
               else do {
                 (status, DivCount) \<leftarrow> R_ComputeDHAgreedKey otherPublicValue privateValue (deref params s) (d_divs s);
                 (let s = s\<lparr>d_divs := DivCount\<rparr>
                  in case status of
                       Inl code \<Rightarrow>
                         Some (clear_private env primeLen privateValueLen (dh_PrintError ''computing agreed-upon key'' (Some code) s))
                     | Inr agreedKey \<Rightarrow>
                         (case dh_WriteBlock env agreedKey ''  Enter filename to save the agreed-upon key (blank to cancel): '' s of
                            Inl stop \<Rightarrow> Some (Inl stop)
                          | Inr (_, s) \<Rightarrow> Some (clear_private env primeLen privateValueLen s)))
               })"

definition WriteParams2 :: "dhdemo_env \<Rightarrow> dhdemo \<Rightarrow> (rdemo_stop + dhdemo) option" where
  "WriteParams2 env s =
     asked (choose_output (d_writable env) ''Enter filename to save the parameters (blank to not save): '' s) (\<lambda>file s.
       Some (andThen (write_fields [(''  prime: '', dh_prime (PARAMS2 s)), (''  generator: '', dh_generator (PARAMS2 s))]) (\<lambda>lines.
         let text = ''Parameters:'' @ [NL] @ lines
         in Inr (if file = Stdout then put text s else WriteUpdate file (map of_char text) s))))"

text \<open>For more than 1056 bits, which is what a negative number is, the library writes behind its arrays.\<close>

definition DoGenerateParams :: "dhdemo_env \<Rightarrow> dhdemo \<Rightarrow> (rdemo_stop + dhdemo) option" where
  "DoGenerateParams env s =
     (case GetCommand 80 ''  Enter prime size in bits, (16 to 1024) (blank to cancel): '' s of
        Inl stop \<Rightarrow> Some (Inl stop)
      | Inr (command, s) \<Rightarrow>
          if command = [] then Some (Inr s)
          else let primeBits = typed_number env command
          in case GetCommand 80 ''  Enter subprime size in bits, (16 to 1024) (blank to cancel): '' s of
            Inl stop \<Rightarrow> Some (Inl stop)
          | Inr (command, s) \<Rightarrow>
              if command = [] then Some (Inr s)
              else let subPrimeBits = typed_number env command;
                       s = s\<lparr>PARAMS2_SET := False\<rparr>
              in if 32 * MAX_NN_DIGITS < primeBits then Some (Inl Wild_Write)
              else do {
                (status, randomStruct, DivCount) \<leftarrow> R_GenerateDHParams primeBits subPrimeBits (d_random s) (d_divs s);
                (let s = s\<lparr>d_random := randomStruct, d_divs := DivCount\<rparr>
                 in case status of
                      Inl code \<Rightarrow> Some (Inr (dh_PrintError ''generating parameters'' (Some code) s))
                    | Inr params \<Rightarrow>
                        WriteParams2 env ((PrintMessage ''Parameters 2 are now ready to use.''
                          (s\<lparr>PARAMS2 := params, PARAMS2_SET := True\<rparr>))\<lparr>PARAMS2_READY := True\<rparr>))
              })"

subsection \<open>The menu\<close>

definition dh_menu :: "dhdemo \<Rightarrow> dhdemo" where
  "dh_menu s = foldl (\<lambda>s line. PrintMessage line s) s [[], ''S - Set up a key agreement'',
     ''C - Compute an agreed-upon key'', ''G - Generate parameters (may take a long time)'', ''Q - Quit'']"

definition dh_command :: "dhdemo_env \<Rightarrow> char \<Rightarrow> dhdemo \<Rightarrow> (rdemo_stop + dhdemo) option" where
  "dh_command env c s =
     (if c = CHR ''#'' then Some (Inr s)
      else if c = CHR ''s'' \<or> c = CHR ''S'' then DoSetupAgreement env s
      else if c = CHR ''c'' \<or> c = CHR ''C'' then DoComputeAgreedKey env s
      else if c = CHR ''g'' \<or> c = CHR ''G'' then DoGenerateParams env s
      else Some (Inr (dh_PrintError ''ERROR: Unrecognized command.  Try again.'' None s)))"

partial_function (option) dh_main_loop :: "dhdemo_env \<Rightarrow> dhdemo \<Rightarrow> (rdemo_stop + dhdemo) option" where
  "dh_main_loop env s =
     (case GetCommand 80 ''  Enter choice: '' (dh_menu s) of
        Inl stop \<Rightarrow> Some (Inl stop)
      | Inr (command, s) \<Rightarrow>
          (case command of
             [] \<Rightarrow> dh_main_loop env s
           | c # _ \<Rightarrow>
               if c = CHR ''Q'' \<or> c = CHR ''q'' then Some (Inr s)
               else Option.bind (dh_command env c s) (\<lambda>result.
                 case result of Inl stop \<Rightarrow> Some (Inl stop) | Inr s \<Rightarrow> dh_main_loop env s)))"

definition dh_main :: "dhdemo_env \<Rightarrow> string list \<Rightarrow> dhdemo \<Rightarrow> (rdemo_stop + dhdemo) option" where
  "dh_main env args s =
     (case SetOptions args (SILENT_PROMPT s) of (status, silent) \<Rightarrow>
        let s = s\<lparr>SILENT_PROMPT := silent\<rparr>
        in if status \<noteq> 0 then Some (Inr (put (''Usage: dhdemo [-s]'' @ [NL] @ ''  -s silent prompts'' @ [NL]) s))
           else Option.bind
             (dh_main_loop env (PrintMessage
               (''NOTE: When saving to a file, a filename of '' @ [CHR 0x22, CHR ''-'', CHR 0x22] @ '' will output to the screen.'')
               (s\<lparr>d_random := InitRandomStruct (d_random s)\<rparr>)))
             (\<lambda>result. Some (andThen result (\<lambda>s. Inr (s\<lparr>d_random := R_RandomFinal (d_random s)\<rparr>)))))"

end
