(* ===== verification/Dhdemo_Properties.thy ===== *)
theory Dhdemo_Properties
  imports Dhdemo Rdemo_Properties Keys_Properties
begin

section \<open>What a session of the key agreement program does\<close>

text \<open>
  The answers are followed through the questions as in \<open>Rdemo_Properties\<close>.  The property is about
  two parties that meet in one session: what they compute from each other's files is the same key.
\<close>

subsection \<open>Answers\<close>

lemma replied_dhdemo_simps [simp]:
  "PARAMS2 (replied p rest s) = PARAMS2 s" "PARAMS2_SET (replied p rest s) = PARAMS2_SET s"
  "PARAMS2_READY (replied p rest s) = PARAMS2_READY s" "d_random (replied p rest s) = d_random s" "d_divs (replied p rest s) = d_divs s"
  by (simp_all add: replied_def)

definition params_choice :: "string \<Rightarrow> dhdemo \<Rightarrow> params_ref \<Rightarrow> bool" where
  "params_choice l s params \<longleftrightarrow>
     l = ''1'' \<and> params = To_PARAMS1 \<or>
     l = ''2'' \<and> params = To_PARAMS2 \<and> PARAMS2_READY s \<and> PARAMS2_SET s"

lemma GetParams_line:
  assumes "params_choice l s params" "r_in s = l @ NL # rest"
  shows "GetParams prompt s = Inr (Some params, replied prompt rest s)"
  unfolding GetParams_def
  by (rule ask_line [OF _ assms(2)]) (use assms(1) char_facts in \<open>auto simp: params_choice_def line_ok_def\<close>)

lemma params_choice_set: "params_choice l s params \<Longrightarrow> params_set params s"
  by (auto simp: params_choice_def params_set_def)

lemma dh_ReadBlock_line:
  assumes "name_ok a" "r_in s = a @ NL # rest" "r_files s a = Some block" "length block \<le> n"
  shows "dh_ReadBlock n prompt s = Inr ((Some (length block), Some block), replied prompt rest s)"
  using assms by (simp add: dh_ReadBlock_def choose_input_line)

text \<open>A file that is too long is refused, here without an access outside the block.\<close>

lemma dh_ReadBlock_too_large:
  assumes "name_ok a" "r_in s = a @ NL # rest" "r_files s a = Some block" "n < length block"
  shows "dh_ReadBlock n prompt s = Inr ((Some n, None),
    dh_PrintError ''ERROR: Cannot read file or file is too large.'' None (replied prompt rest s))"
  using assms by (simp add: dh_ReadBlock_def choose_input_line min_def)

definition same_params :: "dhdemo \<Rightarrow> dhdemo \<Rightarrow> bool" where
  "same_params s s' \<longleftrightarrow> PARAMS2 s' = PARAMS2 s \<and> PARAMS2_SET s' = PARAMS2_SET s \<and> PARAMS2_READY s' = PARAMS2_READY s"

lemma same_params_trans: "same_params s s' \<Longrightarrow> same_params s' s'' \<Longrightarrow> same_params s s''"
  by (simp add: same_params_def)

lemma deref_cong: "PARAMS2 s' = PARAMS2 s \<Longrightarrow> deref params s' = deref params s"
  by (cases params) simp_all

lemma deref_simps [simp]: "deref params (replied p rest s) = deref params s" "deref params (s\<lparr>r_files := f\<rparr>) = deref params s"
  "params_set params (replied p rest s) = params_set params s" "params_set params (s\<lparr>r_files := f\<rparr>) = params_set params s"
  by (auto intro: deref_cong simp: params_set_def)

lemma same_params_choice:
  assumes "same_params s s'"
  shows "params_choice l s' params = params_choice l s params" "deref params s' = deref params s"
    "params_set params s' = params_set params s"
  using assms deref_cong [of s' s params] by (simp_all add: same_params_def params_choice_def params_set_def)

subsection \<open>The operations\<close>

definition number_ok :: "string \<Rightarrow> nat \<Rightarrow> bool" where
  "number_ok l n \<longleftrightarrow> line_ok 79 l \<and> l \<noteq> [] \<and> scan_int l = Some (int n) \<and> n < 2 ^ 32"

lemma typed_number_ok: "number_ok l n \<Longrightarrow> typed_number env l = n"
  by (simp add: number_ok_def typed_number_def unat_of_nat take_bit_nat_eq_self)

lemma DoSetupAgreement_result:
  assumes input: "r_in s = typed [l, m, y, x] @ rest"
    and ok: "params_choice l s params" "dh_params_ok (deref params s)" "number_ok m n" "d_alloc env n"
    and names: "name_ok y" "name_ok x" "d_writable env y" "d_writable env x"
    and r: "random_ok (d_random s)" "bytesNeeded (d_random s) = 0"
  shows "\<exists>s' pub priv r' k'. DoSetupAgreement env s = Some (Inr s') \<and> r_in s' = rest \<and>
    r_files s' = (r_files s)(y \<mapsto> pub, x \<mapsto> priv) \<and> same_params s s' \<and>
    random_ok (d_random s') \<and> bytesNeeded (d_random s') = 0 \<and> length priv = n \<and> length pub = length (dh_prime (deref params s)) \<and>
    R_SetupDHAgreement n (deref params s) (d_random s) (d_divs s) = Some (Inr (pub, priv), r', k')"
proof -
  obtain priv r' where g: "R_GenerateBytes n (d_random s) = Inr (priv, r')" "length priv = n" "random_ok r'" "bytesNeeded r' = 0"
    using R_GenerateBytes_seeded [OF r] by blast
  obtain pub k' where p: "R_SetupDHAgreement n (deref params s) (d_random s) (d_divs s) = Some (Inr (pub, priv), r', k')"
    "length pub = length (dh_prime (deref params s))"
    using R_SetupDHAgreement_value [OF ok(2) g(1)] by blast
  have m: "line_ok (80 - 1) m" "m \<noteq> []" using ok(3) by (simp_all add: number_ok_def)
  show ?thesis
    using input ok names g p m
    by (auto simp: DoSetupAgreement_def GetParams_line [OF ok(1)] GetCommand_line [OF m(1)] typed_number_ok [OF ok(3)]
      params_choice_set dh_WriteBlock_def write_block_line same_params_def Let_def)
qed


lemma DoComputeAgreedKey_result:
  assumes input: "r_in s = typed [l, y, x, z] @ rest"
    and names: "name_ok y" "name_ok x" "name_ok z" "d_writable env z"
    and choice: "params_choice l s params"
    and files: "r_files s y = Some pub" "r_files s x = Some priv"
      "length pub = length (dh_prime (deref params s))" "length priv \<le> length (dh_prime (deref params s))"
    and key: "R_ComputeDHAgreedKey pub priv (deref params s) (d_divs s) = Some (Inr key, k)"
  shows "\<exists>s'. DoComputeAgreedKey env s = Some (Inr s') \<and> r_in s' = rest \<and> r_files s' = (r_files s)(z \<mapsto> key) \<and> same_params s s'"
  using input names files key
  by (simp add: DoComputeAgreedKey_def GetParams_line [OF choice] dh_ReadBlock_line params_choice_set [OF choice]
    dh_WriteBlock_def write_block_line clear_private_def same_params_def Let_def)

text \<open>
  A generation that finds no prime leaves parameters that were ready before as ready as they were,
  on memory that is not set, and the next set-up with them reads it.
\<close>

lemma failed_generation:
  assumes "r_in s = typed [m, m'] @ rest" "number_ok m n" "number_ok m' n'" "n \<le> 1056"
    "R_GenerateDHParams n n' (d_random s) (d_divs s) = Some (Inl code, r', k')"
  shows "\<exists>s'. DoGenerateParams env s = Some (Inr s') \<and> r_in s' = rest \<and> PARAMS2_READY s' = PARAMS2_READY s \<and> \<not> PARAMS2_SET s'"
proof -
  have m: "line_ok (80 - 1) m" "m \<noteq> []" "line_ok (80 - 1) m'" "m' \<noteq> []" using assms(2,3) by (simp_all add: number_ok_def)
  show ?thesis using assms(1,4,5) m(2,4)
    by (simp add: DoGenerateParams_def GetCommand_line [OF m(1)] GetCommand_line [OF m(3)] typed_number_ok [OF assms(2)]
      typed_number_ok [OF assms(3)] dh_PrintError_def put_def Let_def)
qed

lemma unset_parameters_used:
  assumes "r_in s = typed [''2'', m] @ rest" "PARAMS2_READY s" "\<not> PARAMS2_SET s" "number_ok m n" "d_alloc env n"
  shows "DoSetupAgreement env s = Some (Inl Wild_Read)"
proof -
  have g: "GetParams prompt s = Inr (Some To_PARAMS2, replied prompt (typed [m] @ rest) s)" for prompt
    unfolding GetParams_def by (rule ask_line) (use assms(1,2) char_facts in \<open>auto simp: line_ok_def\<close>)
  have m: "line_ok (80 - 1) m" "m \<noteq> []" using assms(4) by (simp_all add: number_ok_def)
  show ?thesis using assms m(2)
    by (simp add: DoSetupAgreement_def g GetCommand_line [OF m(1)] typed_number_ok params_set_def Let_def)
qed

subsection \<open>The session\<close>

definition dh_chosen :: "string \<Rightarrow> dhdemo \<Rightarrow> dhdemo" where
  "dh_chosen rest s = replied ''  Enter choice: '' rest (dh_menu s)"

lemma dh_chosen_simps [simp]:
  "r_in (dh_chosen rest s) = rest" "r_files (dh_chosen rest s) = r_files s" "same_params s (dh_chosen rest s)"
  "d_random (dh_chosen rest s) = d_random s" "d_divs (dh_chosen rest s) = d_divs s"
  by (simp_all add: dh_chosen_def dh_menu_def PrintMessage_def put_def same_params_def)

lemma dh_main_loop_command:
  assumes "r_in s = typed [[c]] @ rest" "c \<in> {CHR ''S'', CHR ''C''}" "dh_command env c (dh_chosen rest s) = Some (Inr s')"
  shows "dh_main_loop env s = dh_main_loop env s'"
proof -
  have "r_in (dh_menu s) = [c] @ NL # rest" using assms(1) by (simp add: dh_menu_def PrintMessage_def)
  moreover have "line_ok (80 - 1) [c]" using assms(2) by (auto simp: line_ok_def NL_def CR_def NUL_def)
  ultimately show ?thesis
    using assms(2,3) by (subst dh_main_loop.simps) (auto simp: GetCommand_line dh_chosen_def [symmetric])
qed

lemma dh_main_loop_quit:
  assumes "r_in s = typed [''Q''] @ rest"
  shows "dh_main_loop env s = Some (Inr (dh_chosen rest s))"
proof -
  have "r_in (dh_menu s) = ''Q'' @ NL # rest" using assms by (simp add: dh_menu_def PrintMessage_def)
  moreover have "line_ok (80 - 1) ''Q''" by (simp add: line_ok_def NL_def CR_def NUL_def)
  ultimately show ?thesis by (subst dh_main_loop.simps) (simp add: GetCommand_line dh_chosen_def)
qed

lemma dh_command_letters: "dh_command env (CHR ''S'') s = DoSetupAgreement env s" "dh_command env (CHR ''C'') s = DoComputeAgreedKey env s"
  by (simp_all add: dh_command_def)


lemma dh_session:
  assumes "r_in s = typed [''S''] @ i1" "DoSetupAgreement env (dh_chosen i1 s) = Some (Inr s1)"
    and "r_in s1 = typed [''S''] @ i2" "DoSetupAgreement env (dh_chosen i2 s1) = Some (Inr s2)"
    and "r_in s2 = typed [''C''] @ i3" "DoComputeAgreedKey env (dh_chosen i3 s2) = Some (Inr s3)"
    and "r_in s3 = typed [''C''] @ i4" "DoComputeAgreedKey env (dh_chosen i4 s3) = Some (Inr s4)"
    and "r_in s4 = typed [''Q''] @ rest"
  shows "dh_main_loop env s = Some (Inr (dh_chosen rest s4))"
proof -
  have "dh_main_loop env s = dh_main_loop env s1"
    by (rule dh_main_loop_command [OF assms(1)]) (simp_all add: dh_command_letters assms(2))
  also have "\<dots> = dh_main_loop env s2"
    by (rule dh_main_loop_command [OF assms(3)]) (simp_all add: dh_command_letters assms(4))
  also have "\<dots> = dh_main_loop env s3"
    by (rule dh_main_loop_command [OF assms(5)]) (simp_all add: dh_command_letters assms(6))
  also have "\<dots> = dh_main_loop env s4"
    by (rule dh_main_loop_command [OF assms(7)]) (simp_all add: dh_command_letters assms(8))
  finally show ?thesis using dh_main_loop_quit [OF assms(9)] by simp
qed

text \<open>Whatever the step counters, both sides compute one byte string.\<close>

lemma dh_one_key:
  assumes "dh_params_ok P" "R_SetupDHAgreement n P r k = Some (Inr (pub, priv), r1, k1)"
    "R_SetupDHAgreement n' P r' k' = Some (Inr (pub', priv'), r2, k2)"
  shows "\<exists>key. length key = length (dh_prime P) \<and>
    bytes_val key = dh_number P (dh_generator P) ^ (dh_number P priv * dh_number P priv') mod bytes_val (dh_prime P) \<and>
    (\<forall>k. \<exists>k'. R_ComputeDHAgreedKey pub' priv P k = Some (Inr key, k')) \<and>
    (\<forall>k. \<exists>k'. R_ComputeDHAgreedKey pub priv' P k = Some (Inr key, k'))"
proof -
  let ?e = "dh_number P (dh_generator P) ^ (dh_number P priv * dh_number P priv') mod bytes_val (dh_prime P)"
  let ?is = "\<lambda>key. length key = length (dh_prime P) \<and> bytes_val key = ?e"
  have key: "\<exists>key k'. R_ComputeDHAgreedKey pub' priv P k = Some (Inr key, k') \<and> ?is key"
    and key': "\<exists>key k'. R_ComputeDHAgreedKey pub priv' P k = Some (Inr key, k') \<and> ?is key" for k
    using dh_agreement [OF assms, of k] dh_agreement [OF assms(1,3,2), of k] by (auto simp: mult.commute)
  have one: "?is a \<Longrightarrow> ?is b \<Longrightarrow> a = b" for a b by (rule bytes_val_inj) simp_all
  obtain a where "?is a" using key by blast
  then show ?thesis using key key' one by (intro exI [of _ a]) metis
qed

text \<open>
  Two parties set up an agreement in one session, with the same parameters and private values
  no longer than the prime, and compute the key each from its private and the other's public
  file: both files hold the same key.
\<close>

text \<open>
  C37: Two parties that set up a key agreement in one session of the program, with the same
  parameters and private values no longer than the prime, and then compute the key, each
  from its own private file and the public file of the other, write the same key: the
  generator to the product of the private values modulo the prime.
\<close>

theorem dhdemo_agreement:
  assumes input: "r_in s = typed [''S'', l, m, y, x, ''S'', l, m', y', x', ''C'', l, y', x, z, ''C'', l, y, x', z', ''Q''] @ rest"
    and names: "list_all (\<lambda>a. name_ok a \<and> d_writable env a) [y, x, y', x', z, z']" "distinct [y, x, y', x', z, z']"
    and choice: "params_choice l s params" "P = deref params s" "dh_params_ok P"
    and numbers: "number_ok m n" "number_ok m' n'" "n \<le> length (dh_prime P)" "n' \<le> length (dh_prime P)"
      "d_alloc env n" "d_alloc env n'"
    and random: "random_ok (d_random s)" "bytesNeeded (d_random s) = 0"
  shows "\<exists>s' pub priv pub' priv' key. dh_main_loop env s = Some (Inr s') \<and> r_in s' = rest \<and>
    r_files s' = (r_files s)(y \<mapsto> pub, x \<mapsto> priv, y' \<mapsto> pub', x' \<mapsto> priv', z \<mapsto> key, z' \<mapsto> key) \<and>
    length priv = n \<and> length priv' = n' \<and> length key = length (dh_prime P) \<and>
    bytes_val key = dh_number P (dh_generator P) ^ (dh_number P priv * dh_number P priv') mod bytes_val (dh_prime P)"
proof -
  define i4 where "i4 = typed [l, y, x', z', ''Q''] @ rest"
  define i3 where "i3 = typed [l, y', x, z, ''C''] @ i4"
  define i2 where "i2 = typed [l, m', y', x', ''C''] @ i3"
  define i1 where "i1 = typed [l, m, y, x, ''S''] @ i2"
  note start = same_params_choice [OF dh_chosen_simps(3)] and trans = same_params_trans [OF dh_chosen_simps(3)]
  obtain s1 pub priv r1 k1 where 1: "DoSetupAgreement env (dh_chosen i1 s) = Some (Inr s1)" "r_in s1 = typed [''S''] @ i2"
    "r_files s1 = (r_files s)(y \<mapsto> pub, x \<mapsto> priv)" "same_params s s1" "random_ok (d_random s1)" "bytesNeeded (d_random s1) = 0"
    "length priv = n" "length pub = length (dh_prime P)" "R_SetupDHAgreement n P (d_random s) (d_divs s) = Some (Inr (pub, priv), r1, k1)"
    using DoSetupAgreement_result [of "dh_chosen i1 s" l m y x "typed [''S''] @ i2" params n env]
      names choice numbers random trans by (simp add: start i1_def) blast
  note c1 = same_params_choice [OF 1(4)]
  obtain s2 pub' priv' r2 k2 where 2: "DoSetupAgreement env (dh_chosen i2 s1) = Some (Inr s2)" "r_in s2 = typed [''C''] @ i3"
    "r_files s2 = (r_files s1)(y' \<mapsto> pub', x' \<mapsto> priv')" "same_params s1 s2"
    "length priv' = n'" "length pub' = length (dh_prime P)" "R_SetupDHAgreement n' P (d_random s1) (d_divs s1) = Some (Inr (pub', priv'), r2, k2)"
    using DoSetupAgreement_result [of "dh_chosen i2 s1" l m' y' x' "typed [''C''] @ i3" params n' env]
      names choice numbers 1(5,6) trans by (simp add: start c1 i2_def) blast
  note c2 = same_params_choice [OF 2(4)]
  obtain key where key: "length key = length (dh_prime P)"
    "bytes_val key = dh_number P (dh_generator P) ^ (dh_number P priv * dh_number P priv') mod bytes_val (dh_prime P)"
    "\<And>k. \<exists>k'. R_ComputeDHAgreedKey pub' priv P k = Some (Inr key, k')" "\<And>k. \<exists>k'. R_ComputeDHAgreedKey pub priv' P k = Some (Inr key, k')"
    using dh_one_key [OF choice(3) 1(9) 2(7)] by blast
  obtain k3 where k3: "R_ComputeDHAgreedKey pub' priv P (d_divs s2) = Some (Inr key, k3)" using key(3) by blast
  obtain s3 where 3: "DoComputeAgreedKey env (dh_chosen i3 s2) = Some (Inr s3)" "r_in s3 = typed [''C''] @ i4"
    "r_files s3 = (r_files s2)(z \<mapsto> key)" "same_params s2 s3"
    using DoComputeAgreedKey_result [of "dh_chosen i3 s2" l y' x z "typed [''C''] @ i4" env params pub' priv key k3]
      names choice(1,2) numbers(3) 1(3,7) 2(3,6) k3 trans by (simp add: start c1 c2 i3_def) blast
  note c3 = same_params_choice [OF 3(4)]
  obtain k4 where k4: "R_ComputeDHAgreedKey pub priv' P (d_divs s3) = Some (Inr key, k4)" using key(4) by blast
  obtain s4 where 4: "DoComputeAgreedKey env (dh_chosen i4 s3) = Some (Inr s4)" "r_in s4 = typed [''Q''] @ rest"
    "r_files s4 = (r_files s3)(z' \<mapsto> key)"
    using DoComputeAgreedKey_result [of "dh_chosen i4 s3" l y x' z' "typed [''Q''] @ rest" env params pub priv' key k4]
      names choice(1,2) numbers(4) 1(3,8) 2(3,5) 3(3) k4 by (simp add: start c1 c2 c3 i4_def) blast
  have "r_in s = typed [''S''] @ i1" using input by (simp add: i1_def i2_def i3_def i4_def)
  from dh_session [OF this 1(1,2) 2(1,2) 3(1,2) 4(1,2)]
  have "dh_main_loop env s = Some (Inr (dh_chosen rest s4))" .
  then show ?thesis
    using 1(3,7) 2(3,5) 3(3) 4(3) key(1,2) by (intro exI [of _ "dh_chosen rest s4"] exI [of _ pub] exI [of _ priv]
      exI [of _ pub'] exI [of _ priv'] exI [of _ key]) simp
qed


subsection \<open>A session\<close>

lemma PARAMS1_ok: "dh_params_ok PARAMS1"
  by (simp add: dh_params_ok_def PARAMS1_def PRIME1_def bytes_val_def)

definition agreement_env :: dhdemo_env where
  "agreement_env = \<lparr>d_writable = (\<lambda>_. True), d_alloc = (\<lambda>n. n \<le> 4096), d_number = 0, d_length = 0\<rparr>"

definition agreement_session :: "string list \<Rightarrow> dhdemo" where
  "agreement_session ls = \<lparr>r_in = typed ls, r_out = [], r_files = Map.empty, SILENT_PROMPT = False, PARAMS2 = sample_dh,
     PARAMS2_SET = False, PARAMS2_READY = False, d_random = seeded_random, d_divs = 0\<rparr>"

lemma dhdemo_agreement_witness:
  "\<exists>s' key. dh_main_loop agreement_env (agreement_session [''S'', ''1'', ''8'', ''y'', ''x'', ''S'', ''1'', ''16'', ''Y'', ''X'',
      ''C'', ''1'', ''Y'', ''x'', ''k'', ''C'', ''1'', ''y'', ''X'', ''K'', ''Q'']) = Some (Inr s') \<and>
    r_files s' ''k'' = Some key \<and> r_files s' ''K'' = Some key \<and> length key = 64"
proof -
  let ?ls = "[''S'', ''1'', ''8'', ''y'', ''x'', ''S'', ''1'', ''16'', ''Y'', ''X'', ''C'', ''1'', ''Y'', ''x'', ''k'',
    ''C'', ''1'', ''y'', ''X'', ''K'', ''Q'']"
  have names: "list_all name_ok [''y'', ''x'', ''Y'', ''X'', ''k'', ''K'']"
    by (simp add: name_ok_def line_ok_def NL_def CR_def NUL_def)
  have numbers: "number_ok ''8'' 8" "number_ok ''16'' 16"
    by (simp_all add: number_ok_def line_ok_def scan_int_def scan_digits_def NL_def CR_def NUL_def Let_def)
  have len: "length (dh_prime PARAMS1) = 64" by (simp add: PARAMS1_def PRIME1_def)
  have "\<exists>s' pub priv pub' priv' key. dh_main_loop agreement_env (agreement_session ?ls) = Some (Inr s') \<and> r_in s' = [] \<and>
    r_files s' = (r_files (agreement_session ?ls))(''y'' \<mapsto> pub, ''x'' \<mapsto> priv, ''Y'' \<mapsto> pub', ''X'' \<mapsto> priv', ''k'' \<mapsto> key, ''K'' \<mapsto> key) \<and>
    length priv = 8 \<and> length priv' = 16 \<and> length key = length (dh_prime PARAMS1) \<and>
    bytes_val key = dh_number PARAMS1 (dh_generator PARAMS1) ^ (dh_number PARAMS1 priv * dh_number PARAMS1 priv') mod
      bytes_val (dh_prime PARAMS1)"
    by (rule dhdemo_agreement [where l = "''1''" and params = To_PARAMS1 and m = "''8''" and m' = "''16''", OF _ _ _ _ _ PARAMS1_ok])
      (use names numbers in \<open>simp_all add: agreement_env_def agreement_session_def params_choice_def len random_ok_def seeded_random_def\<close>)
  then show ?thesis by (auto simp: len)
qed

end
