(* ===== verification/Spec2Isabelle.thy ===== *)
theory Spec2Isabelle
  imports Loading_Properties Copies Deadline_Macros Sort_Programs Graphic_Queue Nn_Properties Digest_Properties Pem_Properties Keys_Properties R_Stdlib Rdemo_Properties Dhdemo_Properties
begin

section \<open>The PRET instruction-set simulator and the RSAREF library it runs\<close>

text \<open>
  The repository holds a cycle-level simulator of the PRET processor, a SPARC V8 subset with six
  hardware threads interleaved in one pipeline and instructions for deadlines, and programs for
  it, the largest of them a port of the RSAREF cryptographic library.  This development models
  both, as two parts that share \<open>Prelude\<close> and nothing else.

  \<^bold>\<open>The simulator\<close> (\<open>include\<close>, \<open>src/core\<close>; the build without SystemC).
  The core (\<open>Core\<close>, core.cpp) owns the parts and runs one clock cycle by calling the stages from
  the last to the first: exception stage (\<open>Except\<close>), memory controller and DMA unit
  (\<open>Memory_Controller\<close>, \<open>Dma\<close>), memory stage (\<open>Mem_Stage\<close>), execute (\<open>Execute\<close>), register access
  (\<open>Regacc\<close>), decode and fetch (\<open>Front_End\<close>), thread controller (\<open>Thread_Controller\<close>).  The stages
  pass pointers to threads; a thread (\<open>Hw_Thread\<close>) holds its instruction (\<open>Instruction\<close>, with the
  encodings of \<open>Instruction_Defs\<close>), its windowed registers (\<open>Register_File\<close>) and its special
  registers and deadline timers (\<open>Special_Reg\<close>).  \<open>Copies\<close> has the assignment and comparison of
  these objects.  Memory is a set of locations with one contract (\<open>Memory_Unit\<close>): the scratchpads
  (\<open>L1_Scratch\<close>), main memory behind a wheel that serves the threads in turn (\<open>Wheeled_Mem\<close>) and
  memory-mapped I/O (\<open>Mem_Mapped_Io\<close>).  \<open>Srec_Parser\<close>, \<open>Bound_Parser\<close> and \<open>Program_Loading\<close> are
  the way from the files of a program to the state a core starts with; \<open>Srec_Format\<close> is the text
  of the files.  \<open>Pret_Clock\<close> is the clock.  Three theories model programs that run on the
  simulator: \<open>Deadline_Macros\<close> the macros through which C programs place deadline and DMA
  instructions, \<open>Sort_Programs\<close> the three sorting programs, \<open>Graphic_Queue\<close> the command queues
  between the threads of the graphic driver.

  A class is a record with the members of the class, an enumeration a datatype or the numerals of
  its values, a method a definition of the method's name (prefixed where two classes share one)
  that takes the object and returns it updated.  Threads, latches and memories that alias in the
  code are indices into one state.  \<open>int\<close> and \<open>uint32_t\<close> are \<open>32 word\<close>, with the signedness written
  at the operations that depend on it.  A failed assertion and an access outside an array (or a
  shift by a negative count) are the two values of \<open>sim_error\<close>; the exception that ends the
  simulation is a flag.  \<open>run_forever\<close> is a partial function, since the loop need not end.

  What the lemmas show, in the order of the properties:
    \<^item> \<open>Core_Invariants\<close>: every stage keeps the invariant of its part, so no assertion of the
      pipeline or of the memory system ever fails; the six latches hold the six threads, one in
      each stage; what happens when the thread counter wraps.
    \<^item> \<open>Loading_Properties\<close>: program files are loaded as their records say, and the loaded core
      satisfies the invariant; a scratchpad agrees with main memory where it is filled from.
    \<^item> \<open>Wheeled_Mem\<close>: the time of an access depends on the cycle and the thread alone, each thread
      has one start per rotation, and a retried access is served within a bounded number of rounds.
    \<^item> \<open>Mem_Stage\<close>, \<open>Execute\<close>, \<open>Pipeline_Properties\<close>, \<open>Instruction\<close>: loads return what stores of
      the same width left, comparisons followed by branches decide the order of their operands,
      33 multiply steps multiply, a deadline instruction waits exactly until its timer runs out, and
      a stalled double-word load changes from one of its words to the other with every pass.
    \<^item> \<open>Deadline_Macros\<close>: the words of the macros, the moves of their arguments included, run
      through the stages of the pipeline, wait for, load and arm
      the timers their names say, and start the transfer of the thread.
    \<^item> \<open>Sort_Programs\<close>, \<open>Graphic_Queue\<close>: the programs sort; the queues are a pair of bounded
      first-in first-out queues (locale \<open>command_channel\<close>).
    \<^item> \<open>Thread_Controller\<close>: the barrier lets nobody pass early, and counts calls, not threads, when it
      lets them leave.

  The contracts between parts are locales: \<open>cell_store\<close> (\<open>Store_Interface\<close>), interpreted for the
  register file and the memory unit, and \<open>mem_location\<close> (\<open>Memory_Unit\<close>), interpreted for the
  scratchpad, the wheel and the memory-mapped I/O; \<open>Memory_Controller\<close> proves the same for what
  each thread sees through the controller.

  \<^bold>\<open>RSAREF\<close> (\<open>soft/rsaref/src/source\<close>).
  A layer of digit arithmetic (\<open>Digit\<close>, digit.c) carries natural numbers as digit arrays (\<open>Nn\<close>,
  \<open>Nn_Div\<close>, \<open>Nn_Mod\<close>, nn.c), primes (\<open>Prime\<close>, prime.c), the RSA operations (\<open>Rsa\<close>, rsa.c), key
  generation (\<open>R_Keygen\<close>) and Diffie-Hellman agreement (\<open>R_Dh\<close>).  The digests (\<open>Md2\<close>, \<open>Md5\<close>, over
  \<open>Block_Hash\<close>) feed the random object (\<open>R_Random\<close>).  DES in its three modes (\<open>Desc\<close>, with the
  tables of \<open>Des_Tables\<close>) and the printable encoding (\<open>R_Encode\<close>) complete what r\_enhanc.c builds
  on: signatures (\<open>R_Sign\<close>), envelopes (\<open>R_Envelope\<close>) and privacy-enhanced mail (\<open>R_Pem\<close>).
  \<open>R_Stdlib\<close> has the memory routines, \<open>Fermat\<close> the number theory, \<open>Sample_Keys\<close> the keys at which
  properties are applied.

  An array of digits is the list of its elements, least significant first; an array parameter that
  a routine writes is a result.  A routine returns an error code of rsaref.h or its outputs, as a
  sum.  A routine with a loop whose end is not evident is a partial function into option, and the
  theorems about it show that it returns where the code's comments allow its arguments; digits
  written past the arrays of \<open>R_GenerateDHParams\<close> are the value \<open>None\<close> as well.  Contents
  that C leaves unspecified are parameters, or zeros where no result depends on them.

  What the lemmas show: each routine of nn.c computes the arithmetic operation of its comment
  (\<open>Nn_Properties\<close>); decryption inverts encryption, by the Chinese remainder theorem and for padded
  messages (\<open>Rsa_Properties\<close>); updates of a digest in parts digest the message, and the random
  generator does not repeat (\<open>Digest_Properties\<close>); the block ciphers and the printable encoding
  round trip (\<open>Desc\<close>, \<open>R_Encode\<close>); messages that are signed are accepted, messages that are sealed
  are opened, however they are cut (\<open>Pem_Properties\<close>); generated keys and parameters are what the
  other operations need (\<open>Keys_Properties\<close>).  The locale \<open>incremental_digest\<close> states what a digest
  promises to a caller, and is interpreted for both digests and for the digest context of
  r\_enhanc.c; \<open>chained_cipher\<close> does so for the three modes of DES.

  Two menu programs use the library (\<open>soft/rsaref/src/rdemo\<close>): \<open>Rdemo\<close> (rdemo.c) signs, verifies,
  seals and opens files and generates keys, \<open>Dhdemo\<close> (dhdemo.c) sets up and computes key agreements.
  Their console, questions and files are the state of \<open>Rdemo_Console\<close>: what is still to be typed,
  what was printed, and the contents of the files by name.  The programs go on with indeterminate
  contents at the end of the input and write through pointers that were never set; there the
  model stops with a value of \<open>rdemo_stop\<close>.  \<open>Rdemo_Properties\<close> and \<open>Dhdemo_Properties\<close> follow whole
  sessions: what is sealed is opened, what is signed is verified, two parties compute one key.

  \<^bold>\<open>Bounds.\<close>  The schedule theorems hold below the wrap of the 32-bit counters; the wrap itself is
  \<open>schedule_wraps\<close>.  The digests are proved for inputs shorter than 2 to the 32 less one block,
  where the loop counter of the update does not wrap.  Loops are structural recursions,
  recursions with a proved measure, or partial functions shown to return, but for
  the menus of the demonstration programs and their copying loops, which return where a property says so; only the passes of the
  words of a macro in \<open>Deadline_Macros\<close> are counted by fuel, and the theorems give the exact number
  that is enough.

  \<^bold>\<open>Not modelled.\<close>  Printing (\<open>dump\<close>, \<open>print_\<close>, output operators), since it changes no state; the
  SystemC build, whose scheduler is a library; the Python debugger, the main program and the
  scripts, which only call the core; of the RSAREF demonstrations the key
  generation and encryption benchmarks, which are copies of rdemo.c with the questions cut out; the board demonstrations, whose behaviour is
  that of devices that are not in the repository, and the test programs.  Of
  \<open>deadline.h\<close> the macros that paste hexadecimal digits into a word, that write assembly without
  a word and that write to the console are left out.  The search for the primes of an RSA key need not end (\<open>R_GeneratePEMKeys\<close>), so that its result is proved correct
  when there is one, while the computation of the key from its primes is proved total.
\<close>

end
